(* ===== verification/Rev_Prelude.thy ===== *)
theory Rev_Prelude
  imports Complex_Main "HOL-Library.AList" "HOL-Library.Multiset" "HOL-Library.Sublist"
begin

section \<open>Shared vocabulary of the development\<close>

text \<open>
  This theory holds what every component of the model uses and no component owns:
  \<^item> results of code that may throw, as a sum whose left side is the message of the error;
  \<^item> JavaScript's \<open>Map\<close>, which iterates in insertion order, as an association list with
    \<open>AList.update\<close> (an existing key keeps its place, a new key goes last) and
    \<open>AList.delete\<close>;
  \<^item> JavaScript's stable \<open>Array.prototype.sort\<close> with a comparator, and the contract of a
    comparator as the locale \<open>js_comparator\<close>;
  \<^item> the loop "run every element of a list through a step that keeps an invariant", as the
    locale \<open>step_loop\<close>;
  \<^item> the grouping loop that two components share (joining the groups an element is linked
    with), with its contract as the locale \<open>symmetric_link\<close>.
\<close>

named_theorems jmap_simps "lookups in insertion-ordered maps after set and delete"

subsection \<open>Results of code that may throw\<close>

type_synonym 'a outcome = "string + 'a"

fun try_bind :: "'a outcome \<Rightarrow> ('a \<Rightarrow> 'b outcome) \<Rightarrow> 'b outcome" where
  "try_bind (Inl e) f = Inl e"
| "try_bind (Inr x) f = f x"

lemma try_bind_Inr_iff [simp]:
  "try_bind r f = Inr y \<longleftrightarrow> (\<exists>x. r = Inr x \<and> f x = Inr y)"
  by (cases r) auto

lemma try_bind_Inl_iff:
  "try_bind r f = Inl e \<longleftrightarrow> r = Inl e \<or> (\<exists>x. r = Inr x \<and> f x = Inl e)"
  by (cases r) auto

lemma try_bind_cong [fundef_cong]:
  "r = r' \<Longrightarrow> (\<And>x. r' = Inr x \<Longrightarrow> f x = g x) \<Longrightarrow> try_bind r f = try_bind r' g"
  by (cases r') auto

text \<open>\<open>try { return f() } catch { return undefined }\<close>\<close>

definition try_or_undefined :: "'a outcome \<Rightarrow> 'a option" where
  "try_or_undefined r = (case r of Inl _ \<Rightarrow> None | Inr x \<Rightarrow> Some x)"

lemma try_or_undefined_simps [simp]:
  "try_or_undefined (Inl e) = None" "try_or_undefined (Inr x) = Some x"
  by (simp_all add: try_or_undefined_def)

lemma all_kept_by_filter: "length (filter P xs) = length xs \<Longrightarrow> x \<in> set xs \<Longrightarrow> P x"
  by (metis length_filter_less less_irrefl)

text \<open>A loop whose body may throw: the first error ends it.\<close>

fun fold_try :: "('a \<Rightarrow> 's \<Rightarrow> 's outcome) \<Rightarrow> 'a list \<Rightarrow> 's \<Rightarrow> 's outcome" where
  "fold_try f [] s = Inr s"
| "fold_try f (x # xs) s = try_bind (f x s) (fold_try f xs)"

fun map_try :: "('a \<Rightarrow> 'b outcome) \<Rightarrow> 'a list \<Rightarrow> 'b list outcome" where
  "map_try f [] = Inr []"
| "map_try f (x # xs) = try_bind (f x) (\<lambda>y. try_bind (map_try f xs) (\<lambda>ys. Inr (y # ys)))"

lemma map_try_Inr_length: "map_try f xs = Inr ys \<Longrightarrow> length ys = length xs"
  by (induction xs arbitrary: ys) auto

lemma map_try_Inr_iff:
  "map_try f xs = Inr ys \<longleftrightarrow> list_all2 (\<lambda>x y. f x = Inr y) xs ys"
  by (induction xs arbitrary: ys) (auto simp: list_all2_Cons1)

text \<open>\<open>flatMap\<close> whose body may throw and yields one element where \<open>Q\<close> holds, none elsewhere.\<close>

lemma map_try_filter:
  assumes "\<And>x y. f x = Inr y \<Longrightarrow> if Q x then \<exists>z. y = [z] \<and> P x z else y = []"
  shows "map_try f xs = Inr ys \<Longrightarrow> list_all2 P (filter Q xs) (concat ys)"
proof (induction xs arbitrary: ys)
  case (Cons x xs)
  then obtain y rest where ys: "ys = y # rest" "f x = Inr y" "map_try f xs = Inr rest" by auto
  note tail = Cons.IH [OF ys(3)]
  show ?case
  proof (cases "Q x")
    case True
    with assms [OF ys(2)] obtain z where "y = [z]" "P x z" by auto
    with tail True ys(1) show ?thesis by simp
  next
    case False
    with assms [OF ys(2)] have "y = []" by simp
    with tail False ys(1) show ?thesis by simp
  qed
qed simp

lemma map_try_total: "(\<And>x. x \<in> set xs \<Longrightarrow> f x = Inr (g x)) \<Longrightarrow> map_try f xs = Inr (map g xs)"
  by (induction xs) auto

subsection \<open>Insertion-ordered maps\<close>

type_synonym ('k, 'v) jmap = "('k \<times> 'v) list"

abbreviation jkeys :: "('k, 'v) jmap \<Rightarrow> 'k list" where
  "jkeys m \<equiv> map fst m"

abbreviation jvalues :: "('k, 'v) jmap \<Rightarrow> 'v list" where
  "jvalues m \<equiv> map snd m"

definition jmap_ok :: "('k, 'v) jmap \<Rightarrow> bool" where
  "jmap_ok m \<longleftrightarrow> distinct (jkeys m)"

lemma jmap_get_set [jmap_simps]: "map_of (AList.update k v m) = (map_of m)(k \<mapsto> v)"
  by (rule update_conv')

lemma jmap_get_delete [jmap_simps]: "map_of (AList.delete k m) = (map_of m)(k := None)"
  by (rule delete_conv')

lemma jmap_ok_set [intro]: "jmap_ok m \<Longrightarrow> jmap_ok (AList.update k v m)"
  by (simp add: jmap_ok_def distinct_update)

lemma jmap_ok_delete [intro]: "jmap_ok m \<Longrightarrow> jmap_ok (AList.delete k m)"
  by (simp add: jmap_ok_def distinct_delete)

lemma jmap_ok_Nil [simp]: "jmap_ok []"
  by (simp add: jmap_ok_def)

lemma jmap_keys_set: "set (jkeys (AList.update k v m)) = insert k (set (jkeys m))"
  by (metis dom_fun_upd dom_map_of_conv_image_fst image_set jmap_get_set option.distinct(1))

lemma jmap_keys_delete: "set (jkeys (AList.delete k m)) = set (jkeys m) - {k}"
  by (metis dom_fun_upd dom_map_of_conv_image_fst image_set jmap_get_delete)

lemma jmap_entries_set: "set (AList.update k v m) \<subseteq> insert (k, v) (set m)"
  by (induction m) auto

lemma jmap_mem_iff: "jmap_ok m \<Longrightarrow> (k, v) \<in> set m \<longleftrightarrow> map_of m k = Some v"
  by (simp add: jmap_ok_def)

text \<open>\<open>new Map(entries)\<close>: later entries win, keys keep their first place.\<close>

definition jmap_of :: "('k \<times> 'v) list \<Rightarrow> ('k, 'v) jmap" where
  "jmap_of kvs = fold (\<lambda>(k, v). AList.update k v) kvs []"

lemma jmap_ok_fold: "jmap_ok m \<Longrightarrow> jmap_ok (fold (\<lambda>(k, v). AList.update k v) kvs m)"
  by (induction kvs arbitrary: m) auto

lemma jmap_ok_jmap_of [simp]: "jmap_ok (jmap_of kvs)"
  by (simp add: jmap_of_def jmap_ok_fold)

lemma map_of_fold_update:
  "map_of (fold (\<lambda>(k, v). AList.update k v) kvs m) = map_of m ++ map_of (rev kvs)"
  by (induction kvs arbitrary: m) (auto simp: jmap_simps map_add_def fun_eq_iff split: option.splits)

lemma map_of_jmap_of: "map_of (jmap_of kvs) = map_of (rev kvs)"
  by (simp add: jmap_of_def map_of_fold_update)

subsection \<open>Maps filled by a loop\<close>

text \<open>A loop that sets a key for every element that names one.\<close>

definition keyed_by :: "('s \<Rightarrow> ('k \<times> 'v) option) \<Rightarrow> 's list \<Rightarrow> ('k, 'v) jmap" where
  "keyed_by kv ss = fold (\<lambda>s m. case kv s of None \<Rightarrow> m | Some (k, v) \<Rightarrow> AList.update k v m) ss []"

lemma keyed_by_keys: "set (jkeys (keyed_by kv ss)) = {k. \<exists>s \<in> set ss. \<exists>v. kv s = Some (k, v)}"
proof -
  have "set (jkeys (fold (\<lambda>s m. case kv s of None \<Rightarrow> m | Some (k, v) \<Rightarrow> AList.update k v m) ss m)) =
      set (jkeys m) \<union> {k. \<exists>s \<in> set ss. \<exists>v. kv s = Some (k, v)}" for m
  proof (induction ss arbitrary: m)
    case (Cons s ss)
    show ?case
    proof (cases "kv s")
      case None
      with Cons show ?thesis by simp
    next
      case (Some kv')
      then obtain k v where "kv s = Some (k, v)" by (cases kv') simp
      with Cons [of "AList.update k v m"] show ?thesis
        using jmap_keys_set [of k v m] by auto
    qed
  qed simp
  then show ?thesis by (simp add: keyed_by_def)
qed

lemma keyed_by_get:
  assumes "\<And>s s' k v v'. s \<in> set ss \<Longrightarrow> s' \<in> set ss \<Longrightarrow> kv s = Some (k, v) \<Longrightarrow> kv s' = Some (k, v') \<Longrightarrow>
    v = v'"
  shows "map_of (keyed_by kv ss) k = Some v \<longleftrightarrow> (\<exists>s \<in> set ss. kv s = Some (k, v))"
proof -
  have get: "map_of (fold (\<lambda>s m. case kv s of None \<Rightarrow> m | Some (k, v) \<Rightarrow> AList.update k v m) xs m) k =
      (case find (\<lambda>s. \<exists>v. kv s = Some (k, v)) (rev xs) of
         None \<Rightarrow> map_of m k | Some s \<Rightarrow> map_option snd (kv s))" for xs m
  proof (induction xs arbitrary: m rule: rev_induct)
    case (snoc s xs)
    then show ?case
      by (cases "kv s") (auto simp: jmap_simps split: prod.splits)
  qed simp
  show ?thesis
  proof (cases "find (\<lambda>s. \<exists>v. kv s = Some (k, v)) (rev ss)")
    case None
    then have "\<forall>s \<in> set ss. \<forall>v. kv s \<noteq> Some (k, v)" by (auto simp: find_None_iff)
    then show ?thesis
      using get [of ss "[]"] None by (auto simp: keyed_by_def)
  next
    case (Some s)
    then have "s \<in> set (rev ss)" "\<exists>v. kv s = Some (k, v)"
      by (auto simp: find_Some_iff simp del: set_rev intro!: nth_mem)
    then obtain v' where s: "s \<in> set ss" "kv s = Some (k, v')" by auto
    then have val: "map_of (keyed_by kv ss) k = Some v'"
      using get [of ss "[]"] Some by (simp add: keyed_by_def)
    have "v' = v" if "s' \<in> set ss" "kv s' = Some (k, v)" for s'
      using assms s that by blast
    with val s show ?thesis by auto
  qed
qed

lemma keyed_by_snoc:
  "keyed_by kv (ss @ [s]) =
     (case kv s of None \<Rightarrow> keyed_by kv ss | Some (k, v) \<Rightarrow> AList.update k v (keyed_by kv ss))"
  unfolding keyed_by_def by simp

lemma keyed_by_Nil [simp]: "keyed_by kv [] = []"
  by (simp add: keyed_by_def)

lemma jmap_ok_keyed_by [simp]: "jmap_ok (keyed_by kv ss)"
  by (induction ss rule: rev_induct) (auto simp: keyed_by_snoc split: option.splits)

lemma keyed_by_entry: "(k, v) \<in> set (keyed_by kv ss) \<Longrightarrow> \<exists>s \<in> set ss. kv s = Some (k, v)"
proof (induction ss rule: rev_induct)
  case (snoc s ss)
  show ?case
  proof (cases "kv s")
    case None
    with snoc show ?thesis by (auto simp: keyed_by_snoc)
  next
    case (Some p)
    obtain k' v' where p: "p = (k', v')" by (cases p)
    with snoc.prems Some jmap_entries_set [of k' v' "keyed_by kv ss"]
    have "(k, v) = (k', v') \<or> (k, v) \<in> set (keyed_by kv ss)" by (auto simp: keyed_by_snoc)
    with snoc.IH Some p show ?thesis by auto
  qed
qed simp

text \<open>\<open>[...new Set(xs)]\<close>: the first occurrence of each element, in order.\<close>

fun uniq :: "'a list \<Rightarrow> 'a list" where
  "uniq [] = []"
| "uniq (x # xs) = x # filter (\<lambda>y. y \<noteq> x) (uniq xs)"

lemma set_uniq [simp]: "set (uniq xs) = set xs"
  by (induction xs) auto

lemma distinct_uniq [simp]: "distinct (uniq xs)"
  by (induction xs) auto

lemma uniq_distinct: "distinct xs \<Longrightarrow> uniq xs = xs"
  by (induction xs) (auto simp: filter_id_conv)

subsection \<open>Stable sort with a comparator\<close>

text \<open>
  \<open>Array.prototype.sort\<close> is stable: an element goes before the elements of the sorted rest
  that it does not exceed, and elements that compare equal keep their order.
\<close>

fun sort_insert :: "('a \<Rightarrow> 'a \<Rightarrow> int) \<Rightarrow> 'a \<Rightarrow> 'a list \<Rightarrow> 'a list" where
  "sort_insert cmp x [] = [x]"
| "sort_insert cmp x (y # ys) =
     (if cmp x y \<le> 0 then x # y # ys else y # sort_insert cmp x ys)"

definition js_sort :: "('a \<Rightarrow> 'a \<Rightarrow> int) \<Rightarrow> 'a list \<Rightarrow> 'a list" where
  "js_sort cmp xs = foldr (sort_insert cmp) xs []"

lemma js_sort_simps [simp]:
  "js_sort cmp [] = []"
  "js_sort cmp (x # xs) = sort_insert cmp x (js_sort cmp xs)"
  by (simp_all add: js_sort_def)

lemma mset_sort_insert [simp]: "mset (sort_insert cmp x ys) = add_mset x (mset ys)"
  by (induction ys) auto

lemma mset_js_sort [simp]: "mset (js_sort cmp xs) = mset xs"
  by (induction xs) auto

lemma set_js_sort [simp]: "set (js_sort cmp xs) = set xs"
  by (metis mset_js_sort set_mset_mset)

lemma length_js_sort [simp]: "length (js_sort cmp xs) = length xs"
  by (metis mset_js_sort size_mset)

lemma distinct_js_sort [simp]: "distinct (js_sort cmp xs) = distinct xs"
  by (metis mset_js_sort mset_eq_imp_distinct_iff)

lemma distinct_map_js_sort [simp]: "distinct (map f (js_sort cmp xs)) = distinct (map f xs)"
  by (metis mset_js_sort mset_eq_imp_distinct_iff mset_map)

text \<open>
  The contract of a comparator: \<open>\<le> 0\<close> is total and transitive. \<open>strict_comparator\<close> adds
  that only equal elements compare equal, so the sorted list does not depend on the order of
  the input.
\<close>

locale js_comparator =
  fixes cmp :: "'a \<Rightarrow> 'a \<Rightarrow> int"
  assumes cmp_total: "cmp x y \<le> 0 \<or> cmp y x \<le> 0"
    and cmp_trans: "cmp x y \<le> 0 \<Longrightarrow> cmp y z \<le> 0 \<Longrightarrow> cmp x z \<le> 0"
begin

lemma sorted_sort_insert:
  "sorted_wrt (\<lambda>x y. cmp x y \<le> 0) ys \<Longrightarrow>
     sorted_wrt (\<lambda>x y. cmp x y \<le> 0) (sort_insert cmp x ys)"
proof (induction ys)
  case Nil
  then show ?case by simp
next
  case (Cons y ys)
  have "set (sort_insert cmp x ys) = insert x (set ys)"
    by (metis mset_sort_insert set_mset_add_mset_insert set_mset_mset)
  with Cons show ?case
    using cmp_total cmp_trans by auto
qed

lemma sorted_js_sort: "sorted_wrt (\<lambda>x y. cmp x y \<le> 0) (js_sort cmp xs)"
  by (induction xs) (auto intro: sorted_sort_insert)

lemma sorted_same_mset:
  "sorted_wrt (\<lambda>x y. cmp x y \<le> 0) xs \<Longrightarrow> sorted_wrt (\<lambda>x y. cmp x y \<le> 0) ys \<Longrightarrow>
     mset xs = mset ys \<Longrightarrow>
     (\<And>x y. x \<in> set xs \<Longrightarrow> y \<in> set xs \<Longrightarrow> cmp x y \<le> 0 \<Longrightarrow> cmp y x \<le> 0 \<Longrightarrow> x = y) \<Longrightarrow> xs = ys"
proof (induction xs arbitrary: ys)
  case Nil
  then show ?case by simp
next
  case (Cons x xs)
  then obtain y ys' where ys: "ys = y # ys'"
    by (metis list.set_cases list.set_intros(1) set_mset_mset)
  have mem: "x \<in> set ys" "y \<in> set (x # xs)"
    using Cons.prems(3) ys by (metis list.set_intros(1) set_mset_mset)+
  have "x = y"
  proof (rule ccontr)
    assume "x \<noteq> y"
    with mem ys Cons.prems(1,2) have "cmp x y \<le> 0" "cmp y x \<le> 0" by auto
    with Cons.prems(4) mem(2) \<open>x \<noteq> y\<close> show False by auto
  qed
  with Cons ys show ?case by simp
qed

text \<open>Sorting elements no two of which compare equal does not depend on their order.\<close>

lemma js_sort_permutation_on:
  "mset xs = mset ys \<Longrightarrow>
     (\<And>x y. x \<in> set xs \<Longrightarrow> y \<in> set xs \<Longrightarrow> cmp x y \<le> 0 \<Longrightarrow> cmp y x \<le> 0 \<Longrightarrow> x = y) \<Longrightarrow>
     js_sort cmp xs = js_sort cmp ys"
  by (rule sorted_same_mset) (auto intro: sorted_js_sort)

end

locale strict_comparator = js_comparator +
  assumes cmp_antisym: "cmp x y \<le> 0 \<Longrightarrow> cmp y x \<le> 0 \<Longrightarrow> x = y"
begin

lemma js_sort_permutation: "mset xs = mset ys \<Longrightarrow> js_sort cmp xs = js_sort cmp ys"
  by (rule js_sort_permutation_on) (auto intro: cmp_antisym)

end

subsection \<open>Loops that keep an invariant\<close>

locale step_loop =
  fixes step :: "'a \<Rightarrow> 's \<Rightarrow> 's"
    and inv :: "'s \<Rightarrow> bool"
  assumes step_inv: "inv s \<Longrightarrow> inv (step x s)"
begin

lemma fold_inv: "inv s \<Longrightarrow> inv (fold step xs s)"
  by (induction xs arbitrary: s) (auto intro: step_inv)

end

subsection \<open>Joining linked groups\<close>

text \<open>
  The loop of \<open>groupByTableIds\<close> (ledger attribution) and of \<open>groupLinkedPairs\<close> (catalogue):
  an element joins all the groups that hold a member it is linked with, and goes last.
\<close>

definition join_groups :: "('a \<Rightarrow> 'a \<Rightarrow> bool) \<Rightarrow> 'a \<Rightarrow> 'a list list \<Rightarrow> 'a list list" where
  "join_groups linked x groups =
     (let holds_link = (\<lambda>group. \<exists>member \<in> set group. linked member x)
      in filter (\<lambda>g. \<not> holds_link g) groups @ [concat (filter holds_link groups) @ [x]])"

definition linked_groups :: "('a \<Rightarrow> 'a \<Rightarrow> bool) \<Rightarrow> 'a list \<Rightarrow> 'a list list" where
  "linked_groups linked xs = fold (join_groups linked) xs []"

lemma mset_concat_filter_split:
  "mset (concat (filter (\<lambda>g. \<not> P g) gs)) + mset (concat (filter P gs)) = mset (concat gs)"
  by (induction gs) auto

lemma mset_join_groups:
  "mset (concat (join_groups linked x gs)) = add_mset x (mset (concat gs))"
  using mset_concat_filter_split [of "\<lambda>g. \<exists>m\<in>set g. linked m x" gs]
  by (simp add: join_groups_def Let_def ac_simps)

lemma mset_fold_join_groups:
  "mset (concat (fold (join_groups linked) xs gs)) = mset xs + mset (concat gs)"
  by (induction xs arbitrary: gs) (auto simp: mset_join_groups)

lemma mset_linked_groups [simp]: "mset (concat (linked_groups linked xs)) = mset xs"
  by (simp add: linked_groups_def mset_fold_join_groups)

lemma set_linked_groups: "\<Union> (set ` set (linked_groups linked xs)) = set xs"
  by (metis mset_linked_groups set_concat set_mset_mset)

definition separate_groups :: "('a \<Rightarrow> 'a \<Rightarrow> bool) \<Rightarrow> 'a list list \<Rightarrow> bool" where
  "separate_groups linked gs \<longleftrightarrow>
     [] \<notin> set gs \<and>
     sorted_wrt (\<lambda>g h. \<forall>x \<in> set g. \<forall>y \<in> set h. \<not> linked x y) gs"

text \<open>Members of one group are connected by a chain of links inside the group.\<close>

definition connected_group :: "('a \<Rightarrow> 'a \<Rightarrow> bool) \<Rightarrow> 'a list \<Rightarrow> bool" where
  "connected_group linked g \<longleftrightarrow>
     (\<forall>x \<in> set g. \<forall>y \<in> set g.
        (\<lambda>a b. a \<in> set g \<and> b \<in> set g \<and> linked a b)\<^sup>*\<^sup>* x y)"

locale symmetric_link =
  fixes linked :: "'a \<Rightarrow> 'a \<Rightarrow> bool"
  assumes link_sym: "linked x y \<Longrightarrow> linked y x"
begin

lemma separate_join_groups:
  assumes "separate_groups linked gs"
  shows "separate_groups linked (join_groups linked x gs)"
proof -
  let ?L = "\<lambda>g. \<exists>m \<in> set g. linked m x"
  have sep: "\<And>g h y z. g \<in> set gs \<Longrightarrow> h \<in> set gs \<Longrightarrow> \<not> ?L g \<Longrightarrow> ?L h \<Longrightarrow> y \<in> set g \<Longrightarrow>
      z \<in> set h \<Longrightarrow> \<not> linked y z"
  proof -
    fix g h y z
    assume a: "g \<in> set gs" "h \<in> set gs" "\<not> ?L g" "?L h" "y \<in> set g" "z \<in> set h"
    have gen: "sorted_wrt R xs \<Longrightarrow> u \<in> set xs \<Longrightarrow> v \<in> set xs \<Longrightarrow> u \<noteq> v \<Longrightarrow> R u v \<or> R v u"
      for R :: "'a list \<Rightarrow> 'a list \<Rightarrow> bool" and xs u v
      by (induction xs) auto
    from a have "g \<noteq> h" by auto
    with a gen [of _ gs g h] assms show "\<not> linked y z"
      unfolding separate_groups_def using link_sym by blast
  qed
  have filt: "sorted_wrt (\<lambda>g h. \<forall>x \<in> set g. \<forall>y \<in> set h. \<not> linked x y) (filter P gs)" for P
    using assms unfolding separate_groups_def by (auto intro: sorted_wrt_filter)
  have far: "\<not> linked y x" if "g \<in> set gs" "\<not> ?L g" "y \<in> set g" for g y
    using that by blast
  have "\<forall>g \<in> set (filter (\<lambda>g. \<not> ?L g) gs).
      \<forall>y \<in> set g. \<forall>z \<in> set (concat (filter ?L gs) @ [x]). \<not> linked y z"
  proof (intro ballI)
    fix g y z
    assume g: "g \<in> set (filter (\<lambda>g. \<not> ?L g) gs)" and y: "y \<in> set g"
      and z: "z \<in> set (concat (filter ?L gs) @ [x])"
    show "\<not> linked y z"
    proof (cases "z = x")
      case True
      with far [of g y] g y show ?thesis by simp
    next
      case False
      with z obtain h where "h \<in> set gs" "?L h" "z \<in> set h" by auto
      with g y sep [of g h y z] show ?thesis by simp
    qed
  qed
  moreover have "[] \<notin> set (filter (\<lambda>g. \<not> ?L g) gs)"
    using assms by (simp add: separate_groups_def)
  ultimately show ?thesis
    unfolding separate_groups_def join_groups_def Let_def
    using filt by (simp add: sorted_wrt_append)
qed

lemma separate_linked_groups: "separate_groups linked (linked_groups linked xs)"
proof -
  have "separate_groups linked gs \<Longrightarrow> separate_groups linked (fold (join_groups linked) ys gs)"
    for ys gs
    by (induction ys arbitrary: gs) (auto intro: separate_join_groups)
  then show ?thesis by (simp add: linked_groups_def separate_groups_def)
qed

lemma connected_join:
  assumes conn: "\<forall>g \<in> set gs. connected_group linked g"
    and link: "\<forall>g \<in> set gs. \<exists>m \<in> set g. linked m x"
  shows "connected_group linked (concat gs @ [x])"
proof -
  let ?G = "set (concat gs @ [x])"
  let ?R = "\<lambda>a b. a \<in> ?G \<and> b \<in> ?G \<and> linked a b"
  have to_x: "?R\<^sup>*\<^sup>* y x \<and> ?R\<^sup>*\<^sup>* x y" if "y \<in> ?G" for y
  proof (cases "y = x")
    case False
    with that obtain g where g: "g \<in> set gs" "y \<in> set g" by auto
    then obtain m where m: "m \<in> set g" "linked m x" using link by blast
    have sub: "(\<lambda>a b. a \<in> set g \<and> b \<in> set g \<and> linked a b)\<^sup>*\<^sup>* u v \<Longrightarrow> ?R\<^sup>*\<^sup>* u v" for u v
      by (erule mono_rtranclp [rule_format, rotated]) (use g in auto)
    have "connected_group linked g" using conn g(1) by blast
    then have "?R\<^sup>*\<^sup>* y m" "?R\<^sup>*\<^sup>* m y"
      unfolding connected_group_def using g(2) m(1) by (blast intro: sub)+
    moreover have "?R\<^sup>*\<^sup>* m x" "?R\<^sup>*\<^sup>* x m"
      by (rule r_into_rtranclp, use m g link_sym in auto)+
    ultimately show ?thesis
      using rtranclp_trans [of ?R y m x] rtranclp_trans [of ?R x m y] by blast
  qed simp
  show ?thesis
    unfolding connected_group_def using to_x by (meson rtranclp_trans)
qed

lemma connected_linked_groups:
  "g \<in> set (linked_groups linked xs) \<Longrightarrow> connected_group linked g"
proof -
  have "\<forall>g \<in> set gs. connected_group linked g \<Longrightarrow>
      \<forall>g \<in> set (fold (join_groups linked) ys gs). connected_group linked g" for ys gs
  proof (induction ys arbitrary: gs)
    case (Cons y ys)
    have "connected_group linked (concat (filter (\<lambda>g. \<exists>m\<in>set g. linked m y) gs) @ [y])"
      by (rule connected_join) (use Cons.prems in simp_all)
    with Cons.prems have "\<forall>g \<in> set (join_groups linked y gs). connected_group linked g"
      unfolding join_groups_def Let_def by simp
    then show ?case using Cons.IH by simp
  qed simp
  from this [of "[]" xs]
  show "g \<in> set (linked_groups linked xs) \<Longrightarrow> connected_group linked g"
    by (simp add: linked_groups_def)
qed

end

end
