(* ===== verification/Data_Model.thy ===== *)
theory Data_Model
  imports Rev_Prelude
begin

section \<open>The data the engine works on\<close>

text \<open>
  JSON values, JSON Schema patches, ledger migrations, stored rows and schema history, as
  \<^verbatim>\<open>engine-prisma-types.ts\<close> and the migration schemas of \<^verbatim>\<open>share/schema\<close> give them.

  \<^item> A JSON object is the list of its entries in the order \<open>Object.entries\<close> yields them. JSON
    numbers are finite, so they are rationals. An absent property and \<open>undefined\<close> are \<open>None\<close>.
  \<^item> Strings are lists of characters whose codes are the code points below 256, each one UTF-16
    unit of JavaScript.
  \<^item> JavaScript compares \<open>Migration\<close> objects by reference where it puts them in a \<open>Set\<close>. The field
    \<open>mig_ref\<close> stands for that reference: two migrations of a run are the same object when all
    their fields, \<open>mig_ref\<close> included, are equal.
  \<^item> A row's \<open>data\<close> is a type parameter: the rows of the migration table hold migrations, all the
    others JSON. Dates are milliseconds since the epoch.
\<close>

subsection \<open>JSON\<close>

datatype json =
    JNull
  | JBool bool
  | JNum rat
  | JStr string
  | JArr "json list"
  | JObj "(string \<times> json) list"

lemma size_json_entry: "(k, v) \<in> set kvs \<Longrightarrow> size v < size (JObj kvs)"
  by (induction kvs) auto

lemma size_json_property: "map_of kvs k = Some v \<Longrightarrow> size v < size (JObj kvs)"
  by (rule size_json_entry) (rule map_of_SomeD)

lemma size_json_item: "v \<in> set xs \<Longrightarrow> size v < size (JArr xs)"
  by (induction xs) auto

fun entries_of :: "json \<Rightarrow> (string \<times> json) list" where
  "entries_of (JObj kvs) = kvs"
| "entries_of _ = []"

text \<open>\<open>node[name]\<close> of a JSON Schema node, and \<open>name in node\<close>.\<close>

definition jfield :: "json \<Rightarrow> string \<Rightarrow> json option" where
  "jfield node name = map_of (entries_of node) name"

definition jhas :: "json \<Rightarrow> string \<Rightarrow> bool" where
  "jhas node name \<longleftrightarrow> jfield node name \<noteq> None"

lemma size_entries_of: "(k, v) \<in> set (entries_of node) \<Longrightarrow> size v < size node"
  by (cases node) (auto dest: size_json_entry)

lemma size_jfield: "jfield node name = Some v \<Longrightarrow> size v < size node"
  unfolding jfield_def by (auto dest!: map_of_SomeD intro: size_entries_of)

subsection \<open>JSON Schema patches\<close>

datatype json_patch =
    AddPatch (patch_path: string) (patch_value: json)
  | ReplacePatch (patch_path: string) (patch_value: json)
  | RemovePatch (patch_path: string)
  | MovePatch (patch_from: string) (patch_path: string)

subsection \<open>Ledger migrations\<close>

datatype migration =
    InitMigration (mig_ref: nat) (mig_id: string) (mig_table: string) (mig_hash: string)
      (mig_schema: json)
  | UpdateMigration (mig_ref: nat) (mig_id: string) (mig_table: string) (mig_hash: string)
      (mig_patches: "json_patch list")
  | RenameMigration (mig_ref: nat) (mig_id: string) (mig_table: string) (mig_next_table: string)
  | RemoveMigration (mig_ref: nat) (mig_id: string) (mig_table: string)

datatype change_type = ChangeInit | ChangeUpdate | ChangeRename | ChangeRemove

fun change_type_of :: "migration \<Rightarrow> change_type" where
  "change_type_of (InitMigration _ _ _ _ _) = ChangeInit"
| "change_type_of (UpdateMigration _ _ _ _ _) = ChangeUpdate"
| "change_type_of (RenameMigration _ _ _ _) = ChangeRename"
| "change_type_of (RemoveMigration _ _ _) = ChangeRemove"

subsection \<open>Rows and schema history\<close>

record 'd row =
  row_versionId :: string
  row_createdId :: string
  row_id :: string
  row_readonly :: bool
  row_createdAt :: int
  row_updatedAt :: int
  row_publishedAt :: int
  row_data :: 'd
  row_meta :: json
  row_hash :: string
  row_schemaHash :: string

record history_patches =
  hp_patches :: "json_patch list"
  hp_hash :: string
  hp_date :: string

end
