(* ===== verification/Table_Slots.thy ===== *)
theory Table_Slots
  imports Data_Model
begin

section \<open>Tracing tables through the migration ledger\<close>

text \<open>
  The class \<open>TableSlots\<close> of \<^verbatim>\<open>share/ledger-replay/table-slots.ts\<close>. A slot is the life of one
  table: the ids it held, the migrations that made it, the id it holds now, and the migration
  that broke its lineage, if one did. The source keeps the slots as shared mutable objects; the
  model keeps them in a list and uses the position in it as the reference, so \<open>ts_current\<close> maps
  a table id to the position of the slot that holds it now, in the map's iteration order.
\<close>

record slot =
  slot_startingTableId :: "string option"
  slot_tableIds :: "string list"
  slot_migrations :: "migration list"
  slot_currentTableId :: "string option"
  slot_brokenBy :: "migration option"

record table_slots =
  ts_slots :: "slot list"
  ts_current :: "(string, nat) jmap"

record slot_step =
  step_slot :: nat
  step_displaced :: "nat option"
  step_attributable :: bool

definition no_slots :: table_slots where
  "no_slots = \<lparr>ts_slots = [], ts_current = []\<rparr>"

definition empty_slot :: slot where
  "empty_slot = \<lparr>slot_startingTableId = None, slot_tableIds = [], slot_migrations = [],
     slot_currentTableId = None, slot_brokenBy = None\<rparr>"

definition modify_slot :: "nat \<Rightarrow> (slot \<Rightarrow> slot) \<Rightarrow> table_slots \<Rightarrow> table_slots" where
  "modify_slot i f st = st\<lparr>ts_slots := (ts_slots st)[i := f (ts_slots st ! i)]\<rparr>"

definition new_slot :: "slot \<Rightarrow> table_slots \<Rightarrow> nat \<times> table_slots" where
  "new_slot s st = (length (ts_slots st), st\<lparr>ts_slots := ts_slots st @ [s]\<rparr>)"

definition place :: "nat \<Rightarrow> string \<Rightarrow> table_slots \<Rightarrow> table_slots" where
  "place i tableId st =
     modify_slot i
       (\<lambda>s. s\<lparr>slot_currentTableId := Some tableId, slot_tableIds := slot_tableIds s @ [tableId]\<rparr>)
       (st\<lparr>ts_current := AList.update tableId i (ts_current st)\<rparr>)"

definition vacate :: "nat \<Rightarrow> table_slots \<Rightarrow> table_slots" where
  "vacate i st =
     (case slot_currentTableId (ts_slots st ! i) of
        None \<Rightarrow> st
      | Some tableId \<Rightarrow>
          modify_slot i (\<lambda>s. s\<lparr>slot_currentTableId := None\<rparr>)
            (st\<lparr>ts_current := AList.delete tableId (ts_current st)\<rparr>))"

definition break_lineage :: "nat \<Rightarrow> migration \<Rightarrow> table_slots \<Rightarrow> table_slots" where
  "break_lineage i m =
     modify_slot i (\<lambda>s. if slot_brokenBy s = None then s\<lparr>slot_brokenBy := Some m\<rparr> else s)"

definition occupy :: "nat \<Rightarrow> string \<Rightarrow> migration \<Rightarrow> table_slots \<Rightarrow> nat option \<times> table_slots" where
  "occupy i tableId m st =
     (let displaced = map_of (ts_current st) tableId;
          st1 = vacate i st;
          st2 = (case displaced of
                   None \<Rightarrow> st1
                 | Some d \<Rightarrow> break_lineage i m (break_lineage d m (vacate d st1)))
      in (displaced, place i tableId st2))"

definition open_broken_slot :: "migration \<Rightarrow> table_slots \<Rightarrow> nat \<times> table_slots" where
  "open_broken_slot m st =
     (let (i, st1) =
        new_slot (empty_slot\<lparr>slot_migrations := [m], slot_brokenBy := Some m\<rparr>) st
      in (i, place i (mig_table m) st1))"

definition append_to_slot :: "migration \<Rightarrow> table_slots \<Rightarrow> slot_step \<times> table_slots" where
  "append_to_slot m st =
     (case map_of (ts_current st) (mig_table m) of
        Some i \<Rightarrow>
          (\<lparr>step_slot = i, step_displaced = None, step_attributable = True\<rparr>,
           modify_slot i (\<lambda>s. s\<lparr>slot_migrations := slot_migrations s @ [m]\<rparr>) st)
      | None \<Rightarrow>
          (let (i, st1) = open_broken_slot m st
           in (\<lparr>step_slot = i, step_displaced = None, step_attributable = False\<rparr>, st1)))"

definition open_slot :: "migration \<Rightarrow> table_slots \<Rightarrow> slot_step \<times> table_slots" where
  "open_slot m st =
     (let (i, st1) = new_slot (empty_slot\<lparr>slot_migrations := [m]\<rparr>) st;
          (displaced, st2) = occupy i (mig_table m) m st1
      in (\<lparr>step_slot = i, step_displaced = displaced, step_attributable = True\<rparr>, st2))"

definition move_slot :: "migration \<Rightarrow> string \<Rightarrow> table_slots \<Rightarrow> slot_step \<times> table_slots" where
  "move_slot m nextTableId st =
     (let (step, st1) = append_to_slot m st;
          (displaced, st2) = occupy (step_slot step) nextTableId m st1
      in (step\<lparr>step_displaced := displaced\<rparr>, st2))"

definition close_slot :: "migration \<Rightarrow> table_slots \<Rightarrow> slot_step \<times> table_slots" where
  "close_slot m st =
     (let (step, st1) = append_to_slot m st in (step, vacate (step_slot step) st1))"

fun follow :: "migration \<Rightarrow> table_slots \<Rightarrow> slot_step \<times> table_slots" where
  "follow (InitMigration r i t h s) st = open_slot (InitMigration r i t h s) st"
| "follow (UpdateMigration r i t h ps) st = append_to_slot (UpdateMigration r i t h ps) st"
| "follow (RenameMigration r i t n) st = move_slot (RenameMigration r i t n) n st"
| "follow (RemoveMigration r i t) st = close_slot (RemoveMigration r i t) st"

definition start_slot :: "string \<Rightarrow> table_slots \<Rightarrow> table_slots" where
  "start_slot tableId st =
     (let (i, st1) = new_slot (empty_slot\<lparr>slot_startingTableId := Some tableId\<rparr>) st
      in place i tableId st1)"

definition start_slots :: "string list \<Rightarrow> table_slots" where
  "start_slots tableIds = fold start_slot tableIds no_slots"

definition follow_all :: "migration list \<Rightarrow> table_slots \<Rightarrow> table_slots" where
  "follow_all ledger st = fold (\<lambda>m st. snd (follow m st)) ledger st"

definition trace_table_slots :: "migration list \<Rightarrow> string list \<Rightarrow> slot list" where
  "trace_table_slots ledger startingTableIds =
     ts_slots (follow_all ledger (start_slots startingTableIds))"

definition current_slot :: "string \<Rightarrow> table_slots \<Rightarrow> nat option" where
  "current_slot tableId st = map_of (ts_current st) tableId"

definition ledgered_table_id_of :: "slot \<Rightarrow> string option" where
  "ledgered_table_id_of s = (if slot_brokenBy s \<noteq> None then None else slot_currentTableId s)"

definition is_ledgered :: "slot list \<Rightarrow> string \<Rightarrow> bool" where
  "is_ledgered slots tableId \<longleftrightarrow> (\<exists>s \<in> set slots. ledgered_table_id_of s = Some tableId)"

subsection \<open>The invariant: the map and the slots agree\<close>

definition slots_inv :: "table_slots \<Rightarrow> bool" where
  "slots_inv st \<longleftrightarrow>
     jmap_ok (ts_current st) \<and>
     (\<forall>t i. map_of (ts_current st) t = Some i \<longleftrightarrow>
        i < length (ts_slots st) \<and> slot_currentTableId (ts_slots st ! i) = Some t)"

named_theorems slot_defs "the operations on table slots"

lemmas slot_op_defs [slot_defs] =
  modify_slot_def new_slot_def place_def vacate_def break_lineage_def empty_slot_def

lemma slots_invI:
  assumes "jmap_ok (ts_current st)"
    and "\<And>t i. map_of (ts_current st) t = Some i \<longleftrightarrow>
        i < length (ts_slots st) \<and> slot_currentTableId (ts_slots st ! i) = Some t"
  shows "slots_inv st"
  using assms by (simp add: slots_inv_def)

lemma slots_inv_ok: "slots_inv st \<Longrightarrow> jmap_ok (ts_current st)"
  by (simp add: slots_inv_def)

lemma slots_inv_get:
  "slots_inv st \<Longrightarrow> map_of (ts_current st) t = Some i \<longleftrightarrow>
     i < length (ts_slots st) \<and> slot_currentTableId (ts_slots st ! i) = Some t"
  by (simp add: slots_inv_def)

lemma slots_inv_new:
  assumes "slots_inv st" "slot_currentTableId s = None"
  shows "slots_inv (st\<lparr>ts_slots := ts_slots st @ [s]\<rparr>)"
proof (rule slots_invI)
  show "jmap_ok (ts_current (st\<lparr>ts_slots := ts_slots st @ [s]\<rparr>))"
    using slots_inv_ok [OF assms(1)] by simp
  show "map_of (ts_current (st\<lparr>ts_slots := ts_slots st @ [s]\<rparr>)) t = Some i \<longleftrightarrow>
      i < length (ts_slots (st\<lparr>ts_slots := ts_slots st @ [s]\<rparr>)) \<and>
      slot_currentTableId (ts_slots (st\<lparr>ts_slots := ts_slots st @ [s]\<rparr>) ! i) = Some t" for t i
    using assms(2) slots_inv_get [OF assms(1), of t i] by (cases "i = length (ts_slots st)") (simp_all add: nth_append)
qed

lemma length_slots [simp]:
  "length (ts_slots (modify_slot i f st)) = length (ts_slots st)"
  "length (ts_slots (place i t st)) = length (ts_slots st)"
  "length (ts_slots (vacate i st)) = length (ts_slots st)"
  "length (ts_slots (break_lineage i m st)) = length (ts_slots st)"
  by (auto simp: slot_defs split: option.splits)

lemma current_modify [simp]:
  "ts_current (modify_slot i f st) = ts_current st"
  "ts_current (break_lineage i m st) = ts_current st"
  by (auto simp: slot_defs)

lemma current_place [simp]: "ts_current (place i t st) = AList.update t i (ts_current st)"
  by (auto simp: slot_defs)

lemma nth_modify:
  "i < length (ts_slots st) \<Longrightarrow>
     ts_slots (modify_slot i f st) ! j = (if i = j then f (ts_slots st ! i) else ts_slots st ! j)"
  by (auto simp: modify_slot_def nth_list_update)

lemma slot_break [simp]:
  "i < length (ts_slots st) \<Longrightarrow>
     slot_currentTableId (ts_slots (break_lineage i m st) ! j) = slot_currentTableId (ts_slots st ! j)"
  by (auto simp: break_lineage_def nth_modify)

lemma nth_vacate:
  "i < length (ts_slots st) \<Longrightarrow>
     ts_slots (vacate i st) ! j =
       (if i = j then (ts_slots st ! i)\<lparr>slot_currentTableId := None\<rparr> else ts_slots st ! j)"
  by (auto simp: vacate_def modify_slot_def nth_list_update split: option.splits)

lemma get_vacate:
  "map_of (ts_current (vacate i st)) t =
     (if slot_currentTableId (ts_slots st ! i) = Some t then None else map_of (ts_current st) t)"
  by (auto simp: vacate_def jmap_simps split: option.splits)

lemma slots_inv_modify:
  assumes "slots_inv st" "\<And>s. slot_currentTableId (f s) = slot_currentTableId s"
    and "i < length (ts_slots st)"
  shows "slots_inv (modify_slot i f st)"
proof (rule slots_invI)
  show "jmap_ok (ts_current (modify_slot i f st))"
    using slots_inv_ok [OF assms(1)] by simp
  show "map_of (ts_current (modify_slot i f st)) t = Some j \<longleftrightarrow>
      j < length (ts_slots (modify_slot i f st)) \<and>
      slot_currentTableId (ts_slots (modify_slot i f st) ! j) = Some t" for t j
    using assms(2,3) slots_inv_get [OF assms(1), of t j] by (simp add: nth_modify)
qed

lemma slots_inv_break:
  "slots_inv st \<Longrightarrow> i < length (ts_slots st) \<Longrightarrow> slots_inv (break_lineage i m st)"
  unfolding break_lineage_def by (rule slots_inv_modify) auto

lemma slots_inv_vacate:
  assumes inv: "slots_inv st" and i: "i < length (ts_slots st)"
  shows "slots_inv (vacate i st)"
proof (rule slots_invI)
  show "jmap_ok (ts_current (vacate i st))"
    using slots_inv_ok [OF inv] by (auto simp: vacate_def split: option.splits)
  show "map_of (ts_current (vacate i st)) t = Some j \<longleftrightarrow>
      j < length (ts_slots (vacate i st)) \<and>
      slot_currentTableId (ts_slots (vacate i st) ! j) = Some t" for t j
    using i slots_inv_get [OF inv, of t j] slots_inv_get [OF inv, of t i]
    by (cases "i = j") (auto simp: nth_vacate get_vacate)
qed

lemma nth_place:
  "i < length (ts_slots st) \<Longrightarrow>
     ts_slots (place i t st) ! j =
       (if i = j
        then (ts_slots st ! i)\<lparr>slot_currentTableId := Some t,
               slot_tableIds := slot_tableIds (ts_slots st ! i) @ [t]\<rparr>
        else ts_slots st ! j)"
  by (simp add: place_def nth_modify)

lemma slots_inv_place:
  assumes inv: "slots_inv st" and i: "i < length (ts_slots st)"
    and free: "slot_currentTableId (ts_slots st ! i) = None" "map_of (ts_current st) t = None"
  shows "slots_inv (place i t st)"
proof (rule slots_invI)
  show "jmap_ok (ts_current (place i t st))"
    using slots_inv_ok [OF inv] by auto
  show "map_of (ts_current (place i t st)) u = Some j \<longleftrightarrow>
      j < length (ts_slots (place i t st)) \<and>
      slot_currentTableId (ts_slots (place i t st) ! j) = Some u" for u j
    using i free slots_inv_get [OF inv, of u j] slots_inv_get [OF inv, of u i]
    by (cases "i = j"; cases "u = t") (simp_all add: nth_place jmap_simps)
qed

lemma slots_inv_occupy:
  assumes inv: "slots_inv st" and i: "i < length (ts_slots st)"
  shows "slots_inv (snd (occupy i t m st))"
proof (cases "map_of (ts_current st) t")
  case None
  have "slots_inv (place i t (vacate i st))"
    using slots_inv_vacate [OF inv i] i None
    by (intro slots_inv_place) (auto simp: nth_vacate get_vacate)
  with None show ?thesis by (simp add: occupy_def Let_def)
next
  case (Some d)
  let ?st = "vacate d (vacate i st)"
  have d: "d < length (ts_slots st)" "slot_currentTableId (ts_slots st ! d) = Some t"
    using slots_inv_get [OF inv, of t d] Some by auto
  have inv2: "slots_inv ?st"
    using slots_inv_vacate [OF slots_inv_vacate [OF inv i]] d(1) by simp
  have "slots_inv (place i t (break_lineage i m (break_lineage d m ?st)))"
    using inv2 i d
    by (intro slots_inv_place slots_inv_break) (auto simp: nth_vacate get_vacate)
  with Some show ?thesis by (simp add: occupy_def Let_def)
qed

lemma slots_inv_append:
  assumes "slots_inv st"
  shows "slots_inv (snd (append_to_slot m st))"
    and "step_slot (fst (append_to_slot m st)) < length (ts_slots (snd (append_to_slot m st)))"
proof -
  have new: "slots_inv (place (length (ts_slots st)) (mig_table m)
      (st\<lparr>ts_slots := ts_slots st @ [empty_slot\<lparr>slot_migrations := [m], slot_brokenBy := Some m\<rparr>]\<rparr>))"
    if "map_of (ts_current st) (mig_table m) = None"
    using that assms
    by (intro slots_inv_place slots_inv_new) (auto simp: empty_slot_def)
  show "slots_inv (snd (append_to_slot m st))"
    using assms new
    by (auto simp: append_to_slot_def open_broken_slot_def new_slot_def
        slots_inv_get [OF assms] intro: slots_inv_modify split: option.splits)
  show "step_slot (fst (append_to_slot m st)) < length (ts_slots (snd (append_to_slot m st)))"
    using slots_inv_get [OF assms]
    by (auto simp: append_to_slot_def open_broken_slot_def new_slot_def split: option.splits)
qed

lemma slots_inv_follow:
  assumes "slots_inv st"
  shows "slots_inv (snd (follow m st))"
proof (cases m)
  case (InitMigration r i t h s)
  have "slots_inv (st\<lparr>ts_slots := ts_slots st @ [empty_slot\<lparr>slot_migrations := [m]\<rparr>]\<rparr>)"
    by (rule slots_inv_new [OF assms]) (simp add: empty_slot_def)
  from slots_inv_occupy [OF this, of "length (ts_slots st)" t m] InitMigration show ?thesis
    by (simp add: open_slot_def new_slot_def split_beta)
next
  case (UpdateMigration r i t h ps)
  then show ?thesis using slots_inv_append(1) [OF assms] by simp
next
  case (RenameMigration r i t n)
  then show ?thesis
    using slots_inv_append [OF assms, of m]
    by (simp add: move_slot_def split_beta slots_inv_occupy)
next
  case (RemoveMigration r i t)
  then show ?thesis
    using slots_inv_append [OF assms, of m]
    by (simp add: close_slot_def split_beta slots_inv_vacate)
qed

lemma follow_all_simps [simp]:
  "follow_all [] st = st"
  "follow_all (m # ms) st = follow_all ms (snd (follow m st))"
  "follow_all (ms @ ns) st = follow_all ns (follow_all ms st)"
  by (simp_all add: follow_all_def)

interpretation ledger_loop: step_loop "\<lambda>m st. snd (follow m st)" slots_inv
  by unfold_locales (rule slots_inv_follow)

lemma slots_inv_follow_all: "slots_inv st \<Longrightarrow> slots_inv (follow_all ledger st)"
  unfolding follow_all_def by (rule ledger_loop.fold_inv)

lemma current_start_slot:
  "map_of (ts_current (start_slot t st)) = (map_of (ts_current st))(t \<mapsto> length (ts_slots st))"
  by (simp add: start_slot_def new_slot_def jmap_simps)

lemma slots_inv_start_slot:
  "slots_inv st \<Longrightarrow> map_of (ts_current st) t = None \<Longrightarrow> slots_inv (start_slot t st)"
  unfolding start_slot_def new_slot_def
  by (auto simp: empty_slot_def intro!: slots_inv_place slots_inv_new)

lemma start_slots_inv:
  "slots_inv st \<Longrightarrow> distinct ts \<Longrightarrow> (\<And>t. t \<in> set ts \<Longrightarrow> map_of (ts_current st) t = None) \<Longrightarrow>
     slots_inv (fold start_slot ts st)"
proof (induction ts arbitrary: st)
  case (Cons t ts)
  have "slots_inv (start_slot t st)"
    by (rule slots_inv_start_slot) (use Cons.prems in simp_all)
  moreover have "map_of (ts_current (start_slot t st)) u = None" if "u \<in> set ts" for u
    using that Cons.prems(2,3) by (auto simp: current_start_slot)
  ultimately show ?case
    using Cons.IH [of "start_slot t st"] Cons.prems(2) by simp
qed simp

lemma no_slots_inv [simp]: "slots_inv no_slots"
  by (simp add: slots_inv_def no_slots_def)

lemma slots_inv_start: "distinct ts \<Longrightarrow> slots_inv (start_slots ts)"
  unfolding start_slots_def by (rule start_slots_inv) (simp_all, simp add: no_slots_def)

subsection \<open>Every migration of the ledger is recorded once, in its order\<close>

definition recorded_in :: "table_slots \<Rightarrow> migration multiset" where
  "recorded_in st = mset (concat (map slot_migrations (ts_slots st)))"

lemma mset_concat_list_update:
  "i < length xss \<Longrightarrow> xss ! i = ys \<Longrightarrow>
     mset (concat (xss[i := ys @ [y]])) = add_mset y (mset (concat xss))"
proof (induction xss arbitrary: i)
  case (Cons xs xss)
  then show ?case by (cases i) auto
qed simp

lemma modify_field:
  assumes "\<And>s. g (f s) = g s"
  shows "map g (ts_slots (modify_slot i f st)) = map g (ts_slots st)"
proof (cases "i < length (ts_slots st)")
  case True
  then have "(map g (ts_slots st))[i := g (ts_slots st ! i)] = map g (ts_slots st)"
    by (metis list_update_id nth_map)
  with assms show ?thesis by (simp add: modify_slot_def map_update)
qed (simp add: modify_slot_def list_update_beyond)

lemma modify_migrations:
  "(\<And>s. slot_migrations (f s) = slot_migrations s) \<Longrightarrow>
     map slot_migrations (ts_slots (modify_slot i f st)) = map slot_migrations (ts_slots st)"
  by (rule modify_field)

lemma op_migrations [simp]:
  "map slot_migrations (ts_slots (place i t st)) = map slot_migrations (ts_slots st)"
  "map slot_migrations (ts_slots (vacate i st)) = map slot_migrations (ts_slots st)"
  "map slot_migrations (ts_slots (break_lineage i m st)) = map slot_migrations (ts_slots st)"
  by (auto simp: place_def vacate_def break_lineage_def modify_migrations split: option.splits)

lemma occupy_migrations [simp]:
  "map slot_migrations (ts_slots (snd (occupy i t m st))) = map slot_migrations (ts_slots st)"
  by (auto simp: occupy_def Let_def split: option.splits)

lemma recorded_append:
  assumes "slots_inv st"
  shows "recorded_in (snd (append_to_slot m st)) = add_mset m (recorded_in st)"
proof (cases "map_of (ts_current st) (mig_table m)")
  case None
  then show ?thesis
    by (simp add: append_to_slot_def open_broken_slot_def new_slot_def recorded_in_def)
next
  case (Some i)
  with assms have "i < length (ts_slots st)" by (simp add: slots_inv_get)
  with Some show ?thesis
    by (simp add: append_to_slot_def recorded_in_def modify_slot_def map_update
        mset_concat_list_update)
qed

lemma recorded_follow:
  assumes "slots_inv st"
  shows "recorded_in (snd (follow m st)) = add_mset m (recorded_in st)"
proof (cases m)
  case (InitMigration r i t h s)
  then show ?thesis
    by (simp add: open_slot_def new_slot_def split_beta recorded_in_def)
next
  case (UpdateMigration r i t h ps)
  then show ?thesis using recorded_append [OF assms] by simp
next
  case (RenameMigration r i t n)
  then show ?thesis
    using recorded_append [OF assms, of m]
    by (simp add: move_slot_def split_beta recorded_in_def)
next
  case (RemoveMigration r i t)
  then show ?thesis
    using recorded_append [OF assms, of m]
    by (simp add: close_slot_def split_beta recorded_in_def)
qed

lemma recorded_follow_all:
  "slots_inv st \<Longrightarrow> recorded_in (follow_all ledger st) = mset ledger + recorded_in st"
  by (induction ledger arbitrary: st) (simp_all add: recorded_follow slots_inv_follow)

lemma recorded_start: "recorded_in (start_slots ts) = {#}"
proof -
  have "recorded_in (fold start_slot ts st) = recorded_in st" for st
    by (induction ts arbitrary: st)
      (simp_all add: start_slot_def new_slot_def recorded_in_def empty_slot_def)
  then show ?thesis by (simp add: start_slots_def recorded_in_def no_slots_def)
qed

subsection \<open>Refinement: the ids that hold a table, and the ledgers that break no lineage\<close>

text \<open>
  What the ledger says of table ids alone: a step leaves a set of ids in use, and it is
  admissible when it creates or renames to a free id and changes, renames or removes a used one.
\<close>

fun live_after :: "migration \<Rightarrow> string set \<Rightarrow> string set" where
  "live_after (InitMigration _ _ t _ _) live = insert t live"
| "live_after (UpdateMigration _ _ t _ _) live = insert t live"
| "live_after (RenameMigration _ _ t n) live = insert n (live - {t})"
| "live_after (RemoveMigration _ _ t) live = live - {t}"

fun admissible :: "migration \<Rightarrow> string set \<Rightarrow> bool" where
  "admissible (InitMigration _ _ t _ _) live \<longleftrightarrow> t \<notin> live"
| "admissible (UpdateMigration _ _ t _ _) live \<longleftrightarrow> t \<in> live"
| "admissible (RenameMigration _ _ t n) live \<longleftrightarrow> t \<in> live \<and> n \<notin> live"
| "admissible (RemoveMigration _ _ t) live \<longleftrightarrow> t \<in> live"

fun admissible_ledger :: "migration list \<Rightarrow> string set \<Rightarrow> bool" where
  "admissible_ledger [] live \<longleftrightarrow> True"
| "admissible_ledger (m # ms) live \<longleftrightarrow> admissible m live \<and> admissible_ledger ms (live_after m live)"

definition live_ids :: "table_slots \<Rightarrow> string set" where
  "live_ids st = dom (map_of (ts_current st))"

definition any_broken :: "table_slots \<Rightarrow> bool" where
  "any_broken st \<longleftrightarrow> (\<exists>s \<in> set (ts_slots st). slot_brokenBy s \<noteq> None)"

lemma live_place [simp]: "live_ids (place i t st) = insert t (live_ids st)"
  by (simp add: live_ids_def jmap_simps)

lemma live_modify [simp]:
  "live_ids (modify_slot i f st) = live_ids st"
  "live_ids (break_lineage i m st) = live_ids st"
  "live_ids (st\<lparr>ts_slots := ss\<rparr>) = live_ids st"
  by (simp_all add: live_ids_def)

lemma live_vacate:
  "live_ids (vacate i st) = live_ids st - set_option (slot_currentTableId (ts_slots st ! i))"
  by (auto simp: live_ids_def get_vacate dom_def split: if_splits)

lemma live_occupy:
  assumes "slots_inv st" "i < length (ts_slots st)"
  shows "live_ids (snd (occupy i t m st)) =
    insert t (live_ids st - set_option (slot_currentTableId (ts_slots st ! i)))"
proof (cases "map_of (ts_current st) t")
  case None
  then show ?thesis by (simp add: occupy_def Let_def live_vacate)
next
  case (Some d)
  then have "slot_currentTableId (ts_slots st ! d) = Some t"
    using slots_inv_get [OF assms(1)] by simp
  with Some assms(2) show ?thesis
    by (auto simp: occupy_def Let_def live_vacate nth_vacate)
qed

lemma displaced_iff: "fst (occupy i t m st) = map_of (ts_current st) t"
  by (simp add: occupy_def Let_def)

lemma live_append:
  assumes "slots_inv st"
  shows "live_ids (snd (append_to_slot m st)) = insert (mig_table m) (live_ids st)"
    and "slot_currentTableId (ts_slots (snd (append_to_slot m st)) !
           step_slot (fst (append_to_slot m st))) = Some (mig_table m)"
    and "step_attributable (fst (append_to_slot m st)) \<longleftrightarrow> mig_table m \<in> live_ids st"
proof -
  have "i < length (ts_slots st) \<and> slot_currentTableId (ts_slots st ! i) = Some (mig_table m)"
    if "map_of (ts_current st) (mig_table m) = Some i" for i
    using that slots_inv_get [OF assms] by simp
  then show "live_ids (snd (append_to_slot m st)) = insert (mig_table m) (live_ids st)"
    and "slot_currentTableId (ts_slots (snd (append_to_slot m st)) !
           step_slot (fst (append_to_slot m st))) = Some (mig_table m)"
    and "step_attributable (fst (append_to_slot m st)) \<longleftrightarrow> mig_table m \<in> live_ids st"
    by (auto simp: append_to_slot_def open_broken_slot_def new_slot_def nth_place nth_modify
        live_ids_def jmap_simps split: option.splits)
qed

lemma live_follow:
  assumes "slots_inv st"
  shows "live_ids (snd (follow m st)) = live_after m (live_ids st)"
proof (cases m)
  case (InitMigration r i t h s)
  have "slots_inv (st\<lparr>ts_slots := ts_slots st @ [empty_slot\<lparr>slot_migrations := [m]\<rparr>]\<rparr>)"
    by (rule slots_inv_new [OF assms]) (simp add: empty_slot_def)
  from live_occupy [OF this, of "length (ts_slots st)" t m] InitMigration show ?thesis
    by (simp add: open_slot_def new_slot_def split_beta nth_append empty_slot_def)
next
  case (UpdateMigration r i t h ps)
  then show ?thesis using live_append(1) [OF assms] by simp
next
  case (RenameMigration r i t n)
  have "live_ids (snd (occupy (step_slot (fst (append_to_slot m st))) n m
      (snd (append_to_slot m st)))) = insert n (insert (mig_table m) (live_ids st) - {mig_table m})"
    using live_occupy [OF slots_inv_append [OF assms]] live_append [OF assms, of m] by simp
  with RenameMigration show ?thesis by (auto simp: move_slot_def split_beta)
next
  case (RemoveMigration r i t)
  then show ?thesis
    using live_append [OF assms, of m] by (auto simp: close_slot_def split_beta live_vacate)
qed

lemma any_broken_new [simp]:
  "any_broken (st\<lparr>ts_slots := ts_slots st @ [s]\<rparr>) \<longleftrightarrow> any_broken st \<or> slot_brokenBy s \<noteq> None"
  by (auto simp: any_broken_def)

lemma any_broken_modify:
  assumes "\<And>s. slot_brokenBy (f s) = slot_brokenBy s"
  shows "any_broken (modify_slot i f st) \<longleftrightarrow> any_broken st"
proof -
  have "map slot_brokenBy (ts_slots (modify_slot i f st)) = map slot_brokenBy (ts_slots st)"
    using assms by (rule modify_field)
  then have "slot_brokenBy ` set (ts_slots (modify_slot i f st)) = slot_brokenBy ` set (ts_slots st)"
    by (metis image_set)
  then show ?thesis unfolding any_broken_def by (metis (no_types, lifting) image_iff)
qed

lemma any_broken_ops [simp]:
  "any_broken (place i t st) \<longleftrightarrow> any_broken st"
  "any_broken (vacate i st) \<longleftrightarrow> any_broken st"
proof -
  show "any_broken (place i t st) \<longleftrightarrow> any_broken st"
    unfolding place_def by (subst any_broken_modify) (simp_all add: any_broken_def)
  show "any_broken (vacate i st) \<longleftrightarrow> any_broken st"
  proof (cases "slot_currentTableId (ts_slots st ! i)")
    case (Some t)
    then show ?thesis
      unfolding vacate_def by (simp, subst any_broken_modify) (simp_all add: any_broken_def)
  qed (simp add: vacate_def)
qed

lemma any_broken_break: "i < length (ts_slots st) \<Longrightarrow> any_broken (break_lineage i m st)"
proof -
  let ?f = "\<lambda>s. if slot_brokenBy s = None then s\<lparr>slot_brokenBy := Some m\<rparr> else s"
  assume "i < length (ts_slots st)"
  then have "?f (ts_slots st ! i) \<in> set (ts_slots (break_lineage i m st))"
    by (simp only: break_lineage_def modify_slot_def slot_defs table_slots.simps)
       (simp add: set_update_memI)
  then show "any_broken (break_lineage i m st)"
    unfolding any_broken_def by (rule bexI [rotated]) auto
qed

lemma any_broken_occupy:
  assumes "i < length (ts_slots st)"
  shows "any_broken (snd (occupy i t m st)) \<longleftrightarrow> any_broken st \<or> t \<in> live_ids st"
  using assms
  by (auto simp: occupy_def Let_def live_ids_def any_broken_break split: option.splits)

lemma any_broken_append:
  "any_broken (snd (append_to_slot m st)) \<longleftrightarrow> any_broken st \<or> mig_table m \<notin> live_ids st"
  by (auto simp: append_to_slot_def open_broken_slot_def new_slot_def live_ids_def
      any_broken_modify split: option.splits)

lemma any_broken_follow:
  assumes "slots_inv st"
  shows "any_broken (snd (follow m st)) \<longleftrightarrow> any_broken st \<or> \<not> admissible m (live_ids st)"
proof (cases m)
  case (InitMigration r i t h s)
  then show ?thesis
    by (simp add: open_slot_def new_slot_def split_beta any_broken_occupy empty_slot_def)
next
  case (UpdateMigration r i t h ps)
  then show ?thesis by (simp add: any_broken_append)
next
  case (RenameMigration r i t n)
  have "any_broken (snd (occupy (step_slot (fst (append_to_slot m st))) n m
      (snd (append_to_slot m st)))) \<longleftrightarrow>
      any_broken st \<or> mig_table m \<notin> live_ids st \<or> n \<in> insert (mig_table m) (live_ids st)"
    using any_broken_occupy [OF slots_inv_append(2) [OF assms, of m]]
    by (simp add: any_broken_append live_append(1) [OF assms])
  with RenameMigration show ?thesis by (auto simp: move_slot_def split_beta)
next
  case (RemoveMigration r i t)
  then show ?thesis by (simp add: close_slot_def split_beta any_broken_append)
qed

lemma live_follow_all:
  "slots_inv st \<Longrightarrow> live_ids (follow_all ledger st) = fold live_after ledger (live_ids st)"
  by (induction ledger arbitrary: st) (simp_all add: slots_inv_follow live_follow)

lemma any_broken_follow_all:
  "slots_inv st \<Longrightarrow>
     any_broken (follow_all ledger st) \<longleftrightarrow>
     any_broken st \<or> \<not> admissible_ledger ledger (live_ids st)"
  by (induction ledger arbitrary: st)
    (auto simp: slots_inv_follow live_follow any_broken_follow)

lemma start_slots_facts:
  "live_ids (start_slots ts) = set ts" "\<not> any_broken (start_slots ts)"
proof -
  have "live_ids (fold start_slot ts st) = live_ids st \<union> set ts \<and>
      any_broken (fold start_slot ts st) = any_broken st" for st
    by (induction ts arbitrary: st)
      (auto simp: start_slot_def new_slot_def empty_slot_def)
  from this [of no_slots] show "live_ids (start_slots ts) = set ts" "\<not> any_broken (start_slots ts)"
    by (simp_all add: start_slots_def live_ids_def any_broken_def no_slots_def)
qed

subsection \<open>The order of a slot's migrations\<close>

lemma follow_migrations:
  assumes "slots_inv st" "s \<in> set (ts_slots (snd (follow m st)))"
  shows "slot_migrations s = [m] \<or>
    (\<exists>s' \<in> set (ts_slots st). slot_migrations s = slot_migrations s' \<or>
       slot_migrations s = slot_migrations s' @ [m])"
proof -
  let ?old = "map slot_migrations (ts_slots st)"
  have app: "set (map slot_migrations (ts_slots (snd (append_to_slot m st))))
      \<subseteq> insert [m] (set ?old \<union> (\<lambda>ms. ms @ [m]) ` set ?old)"
  proof (cases "map_of (ts_current st) (mig_table m)")
    case (Some i)
    then have i: "i < length (ts_slots st)" using slots_inv_get [OF assms(1)] by simp
    have "set (map slot_migrations (ts_slots (snd (append_to_slot m st))))
        \<subseteq> insert (?old ! i @ [m]) (set ?old)"
      using Some i set_update_subset_insert [of ?old i "?old ! i @ [m]"]
      by (simp add: append_to_slot_def modify_slot_def map_update)
    moreover have "?old ! i \<in> set ?old" by (rule nth_mem) (use i in simp)
    ultimately show ?thesis by blast
  qed (auto simp: append_to_slot_def open_broken_slot_def new_slot_def)
  have "set (map slot_migrations (ts_slots (snd (follow m st))))
      \<subseteq> insert [m] (set ?old \<union> (\<lambda>ms. ms @ [m]) ` set ?old)"
  proof (cases m)
    case (InitMigration r i t h sc)
    then show ?thesis by (auto simp: open_slot_def new_slot_def split_beta simp del: set_map)
  next
    case (UpdateMigration r i t h ps)
    then show ?thesis using app by simp
  next
    case (RenameMigration r i t n)
    then show ?thesis using app by (simp add: move_slot_def split_beta del: set_map)
  next
    case (RemoveMigration r i t)
    then show ?thesis using app by (simp add: close_slot_def split_beta del: set_map)
  qed
  with assms(2) show ?thesis by (auto simp: image_iff)
qed

lemma follow_all_subseq:
  "slots_inv st \<Longrightarrow> (\<And>s. s \<in> set (ts_slots st) \<Longrightarrow> slot_migrations s = []) \<Longrightarrow>
     s \<in> set (ts_slots (follow_all ledger st)) \<Longrightarrow> subseq (slot_migrations s) ledger"
proof (induction ledger arbitrary: s rule: rev_induct)
  case Nil
  then show ?case by simp
next
  case (snoc m ledger)
  from snoc.prems(3) have s: "s \<in> set (ts_slots (snd (follow m (follow_all ledger st))))"
    by simp
  have ok: "slots_inv (follow_all ledger st)"
    using snoc.prems(1) by (rule slots_inv_follow_all)
  have IH: "\<And>s'. s' \<in> set (ts_slots (follow_all ledger st)) \<Longrightarrow> subseq (slot_migrations s') ledger"
    using snoc.IH snoc.prems by blast
  from follow_migrations [OF ok s] show ?case
  proof (elim disjE bexE)
    assume "slot_migrations s = [m]"
    then show ?thesis by (simp add: subseq_singleton_left)
  next
    fix s' assume "s' \<in> set (ts_slots (follow_all ledger st))" "slot_migrations s = slot_migrations s'"
    then show ?thesis
      using subseq_order.trans [OF IH [of s'], of "ledger @ [m]"] by (simp add: prefix_imp_subseq)
  next
    fix s' assume "s' \<in> set (ts_slots (follow_all ledger st))"
      "slot_migrations s = slot_migrations s' @ [m]"
    then show ?thesis using IH [of s'] by simp
  qed
qed

lemma start_slots_empty: "s \<in> set (ts_slots (start_slots ts)) \<Longrightarrow> slot_migrations s = []"
proof -
  have "mset (concat (map slot_migrations (ts_slots (start_slots ts)))) = {#}"
    using recorded_start by (simp add: recorded_in_def)
  then show "s \<in> set (ts_slots (start_slots ts)) \<Longrightarrow> slot_migrations s = []" by simp
qed

subsection \<open>Where the slots started\<close>

definition starting_ids :: "table_slots \<Rightarrow> string set" where
  "starting_ids st = {t. Some t \<in> set (map slot_startingTableId (ts_slots st))}"

lemma starting_ops [simp]:
  "starting_ids (place i t st) = starting_ids st"
  "starting_ids (vacate i st) = starting_ids st"
  "starting_ids (break_lineage i m st) = starting_ids st"
  by (auto simp: starting_ids_def place_def vacate_def break_lineage_def
      modify_field [of slot_startingTableId] simp del: set_map split: option.splits)

lemma starting_occupy [simp]: "starting_ids (snd (occupy i t m st)) = starting_ids st"
  by (auto simp: occupy_def Let_def split: option.splits)

lemma starting_append [simp]: "starting_ids (snd (append_to_slot m st)) = starting_ids st"
  by (auto simp: append_to_slot_def open_broken_slot_def new_slot_def split: option.splits)
    (auto simp: starting_ids_def empty_slot_def modify_field [of slot_startingTableId]
      simp del: set_map)

lemma starting_follow [simp]: "starting_ids (snd (follow m st)) = starting_ids st"
proof (cases m)
  case (InitMigration r i t h s)
  then show ?thesis
    by (simp add: open_slot_def new_slot_def split_beta) (simp add: starting_ids_def empty_slot_def)
qed (simp_all add: move_slot_def close_slot_def split_beta)

lemma starting_trace:
  "s \<in> set (trace_table_slots ledger ts) \<Longrightarrow> slot_startingTableId s = Some t \<Longrightarrow> t \<in> set ts"
proof -
  have "starting_ids (follow_all ledger st) = starting_ids st" for st
    by (induction ledger arbitrary: st) simp_all
  moreover have "starting_ids (fold start_slot ts st) = starting_ids st \<union> set ts" for st
  proof (induction ts arbitrary: st)
    case (Cons u ts)
    have "starting_ids (start_slot u st) = insert u (starting_ids st)"
      by (simp add: start_slot_def new_slot_def) (auto simp: starting_ids_def)
    with Cons show ?case by simp
  qed simp
  ultimately have "starting_ids (follow_all ledger (start_slots ts)) = set ts"
    by (simp add: start_slots_def starting_ids_def no_slots_def)
  then show "s \<in> set (trace_table_slots ledger ts) \<Longrightarrow> slot_startingTableId s = Some t \<Longrightarrow> t \<in> set ts"
    unfolding trace_table_slots_def starting_ids_def by (metis (mono_tags) image_eqI mem_Collect_eq set_map)
qed

subsection \<open>What a trace says of table ids\<close>

lemma trace_broken_aux:
  "distinct ts \<Longrightarrow>
     (\<exists>s \<in> set (trace_table_slots ledger ts). slot_brokenBy s \<noteq> None) \<longleftrightarrow>
     \<not> admissible_ledger ledger (set ts)"
  using any_broken_follow_all [OF slots_inv_start, of ts ledger] start_slots_facts [of ts]
  by (simp add: trace_table_slots_def any_broken_def)

lemma trace_refines_live_ids_aux:
  assumes "distinct ts"
  shows "{t. \<exists>s \<in> set (trace_table_slots ledger ts). slot_currentTableId s = Some t} =
    fold live_after ledger (set ts)"
proof -
  let ?st = "follow_all ledger (start_slots ts)"
  have inv: "slots_inv ?st" by (rule slots_inv_follow_all [OF slots_inv_start [OF assms]])
  have "(\<exists>s \<in> set (ts_slots ?st). slot_currentTableId s = Some t) \<longleftrightarrow>
      (\<exists>i. i < length (ts_slots ?st) \<and> slot_currentTableId (ts_slots ?st ! i) = Some t)" for t
    by (metis in_set_conv_nth)
  then have "{t. \<exists>s \<in> set (ts_slots ?st). slot_currentTableId s = Some t} = live_ids ?st"
    by (simp add: live_ids_def dom_def slots_inv_get [OF inv, symmetric])
  then show ?thesis
    using live_follow_all [OF slots_inv_start [OF assms]] start_slots_facts(1)
    by (simp add: trace_table_slots_def)
qed

subsection \<open>Properties\<close>

text \<open>Claim C1: tracing a ledger from distinct starting tables loses and invents nothing: the slots
  together record every migration exactly as often as the ledger holds it, and each slot records
  its migrations in ledger order.\<close>

theorem trace_records_each_migration_once:
  assumes "distinct ts"
  shows "mset (concat (map slot_migrations (trace_table_slots ledger ts))) = mset ledger \<and>
    (\<forall>s \<in> set (trace_table_slots ledger ts). subseq (slot_migrations s) ledger)"
proof -
  note inv = slots_inv_start [OF assms]
  have "mset (concat (map slot_migrations (trace_table_slots ledger ts))) = mset ledger"
    using recorded_follow_all [OF inv, of ledger] recorded_start [of ts]
    by (simp add: trace_table_slots_def recorded_in_def)
  moreover have "\<forall>s \<in> set (trace_table_slots ledger ts). subseq (slot_migrations s) ledger"
    unfolding trace_table_slots_def using follow_all_subseq [OF inv] start_slots_empty by blast
  ultimately show ?thesis by blast
qed

text \<open>A ledger that renames a table of Head, reuses its id, and then takes the id of the renamed
  table: the last step displaces it.\<close>

definition example_ledger :: "migration list" where
  "example_ledger =
     [RenameMigration 0 ''1'' ''users'' ''people'',
      InitMigration 1 ''2'' ''users'' ''h'' (JObj []),
      RemoveMigration 2 ''3'' ''posts'',
      RenameMigration 3 ''4'' ''users'' ''people'']"

theorem trace_records_each_migration_once_witness:
  "distinct [''users'', ''posts''] \<and>
   mset (concat (map slot_migrations
     (trace_table_slots example_ledger [''users'', ''posts'']))) = mset example_ledger \<and>
   map slot_migrations (trace_table_slots example_ledger [''users'', ''posts'']) =
     [[example_ledger ! 0], [example_ledger ! 2], [example_ledger ! 1, example_ledger ! 3]]"
proof -
  have "map slot_migrations (trace_table_slots example_ledger [''users'', ''posts'']) =
     [[example_ledger ! 0], [example_ledger ! 2], [example_ledger ! 1, example_ledger ! 3]]"
    by code_simp
  then show ?thesis
    using trace_records_each_migration_once [of "[''users'', ''posts'']" example_ledger] by simp
qed

text \<open>Claim C2: a lineage breaks exactly when the ledger is inadmissible for the starting tables:
  some step creates or renames to an id in use, or changes, renames or removes an id not in
  use.\<close>

theorem trace_breaks_lineage_iff_inadmissible:
  assumes "distinct ts"
  shows "(\<exists>s \<in> set (trace_table_slots ledger ts). slot_brokenBy s \<noteq> None) \<longleftrightarrow>
    \<not> admissible_ledger ledger (set ts)"
  by (rule trace_broken_aux [OF assms])

theorem trace_breaks_lineage_iff_inadmissible_witness:
  "(\<exists>s \<in> set (trace_table_slots example_ledger [''users'', ''posts'']). slot_brokenBy s \<noteq> None) \<and>
   \<not> (\<exists>s \<in> set (trace_table_slots (take 3 example_ledger) [''users'', ''posts'']).
        slot_brokenBy s \<noteq> None)"
proof -
  have "\<not> admissible_ledger example_ledger (set [''users'', ''posts''])"
    and "admissible_ledger (take 3 example_ledger) (set [''users'', ''posts''])"
    by (simp_all add: example_ledger_def)
  then show ?thesis
    using trace_breaks_lineage_iff_inadmissible [of "[''users'', ''posts'']" example_ledger]
      trace_breaks_lineage_iff_inadmissible [of "[''users'', ''posts'']" "take 3 example_ledger"]
    by simp
qed

text \<open>Claim C3: the ids the traced slots hold are those the ledger says are in use after its last
  step, and no id is held by two slots: the mutable slots refine the abstract set of live table
  ids.\<close>

theorem trace_refines_live_ids:
  assumes "distinct ts"
  shows "{t. \<exists>s \<in> set (trace_table_slots ledger ts). slot_currentTableId s = Some t} =
      fold live_after ledger (set ts) \<and>
    (\<forall>i < length (trace_table_slots ledger ts). \<forall>j < length (trace_table_slots ledger ts).
       slot_currentTableId (trace_table_slots ledger ts ! i) \<noteq> None \<longrightarrow>
       slot_currentTableId (trace_table_slots ledger ts ! i) =
         slot_currentTableId (trace_table_slots ledger ts ! j) \<longrightarrow> i = j)"
proof -
  let ?st = "follow_all ledger (start_slots ts)"
  have inv: "slots_inv ?st" by (rule slots_inv_follow_all [OF slots_inv_start [OF assms]])
  have "i = j" if "i < length (ts_slots ?st)" "j < length (ts_slots ?st)"
    "slot_currentTableId (ts_slots ?st ! i) \<noteq> None"
    "slot_currentTableId (ts_slots ?st ! i) = slot_currentTableId (ts_slots ?st ! j)" for i j
    using that slots_inv_get [OF inv] by (metis not_None_eq option.inject)
  then show ?thesis
    using trace_refines_live_ids_aux [OF assms, of ledger] unfolding trace_table_slots_def by blast
qed

theorem trace_refines_live_ids_witness:
  "{t. \<exists>s \<in> set (trace_table_slots example_ledger [''users'', ''posts'']).
      slot_currentTableId s = Some t} = {''people''}"
proof -
  have "fold live_after example_ledger (set [''users'', ''posts'']) = {''people''}"
    by (auto simp: example_ledger_def)
  then show ?thesis
    using trace_refines_live_ids [of "[''users'', ''posts'']" example_ledger] by simp
qed

end
