(* ===== verification/Identifiers.thy ===== *)
theory Identifiers
  imports Rev_Prelude "HOL-Library.Char_ord"
begin

section \<open>Identifiers and their error messages\<close>

text \<open>
  \<^verbatim>\<open>share/utils/validateUrlLikeId\<close>: the format checks of table ids, row ids, branch names and
  JSON field names. A check that throws is a result whose left side is the message; the regular
  expressions are written out as conditions on the characters they match.
\<close>

definition is_letter :: "char \<Rightarrow> bool" where
  "is_letter c \<longleftrightarrow> (CHR ''a'' \<le> c \<and> c \<le> CHR ''z'') \<or> (CHR ''A'' \<le> c \<and> c \<le> CHR ''Z'')"

definition is_digit :: "char \<Rightarrow> bool" where
  "is_digit c \<longleftrightarrow> CHR ''0'' \<le> c \<and> c \<le> CHR ''9''"

definition is_word_char :: "char \<Rightarrow> bool" where
  "is_word_char c \<longleftrightarrow> is_letter c \<or> is_digit c \<or> c = CHR ''_'' \<or> c = CHR ''-''"

text \<open>\<open>/^[a-zA-Z_][a-zA-Z0-9_-]*$/\<close>\<close>

fun matches_table_id_pattern :: "string \<Rightarrow> bool" where
  "matches_table_id_pattern [] = False"
| "matches_table_id_pattern (c # cs) =
     ((is_letter c \<or> c = CHR ''_'') \<and> list_all is_word_char cs)"

definition system_table_prefix :: string where
  "system_table_prefix = ''revisium_''"

definition table_id_error_message :: string where
  "table_id_error_message =
     ''Table ID must be 1 to 64 characters, start with a letter or underscore, and contain only letters (a-z, A-Z), digits (0-9), underscores (_), and hyphens (-).''"

definition table_id_system_prefix_error_message :: string where
  "table_id_system_prefix_error_message =
     ''Table ID cannot start with \"revisium_\" prefix (reserved for system tables).''"

definition find_table_id_error :: "string \<Rightarrow> string option" where
  "find_table_id_error i =
     (if length i < 1 \<or> 64 < length i \<or> \<not> matches_table_id_pattern i
      then Some table_id_error_message
      else if prefix system_table_prefix i then Some table_id_system_prefix_error_message
      else None)"

definition validate_table_id :: "string \<Rightarrow> unit outcome" where
  "validate_table_id i = (case find_table_id_error i of Some e \<Rightarrow> Inl e | None \<Rightarrow> Inr ())"

definition validate_url_like_id_error_message :: string where
  "validate_url_like_id_error_message =
     ''It must contain between 1 and 64 characters, start with a letter or underscore (_), cannot start with two underscores (__), and can only include letters (a-z, A-Z), numbers (0-9), hyphens (-), and underscores (_).''"

text \<open>\<open>/^(?!__)[a-zA-Z_][a-zA-Z0-9-_]*$/\<close>\<close>

definition matches_url_like_pattern :: "string \<Rightarrow> bool" where
  "matches_url_like_pattern i \<longleftrightarrow> \<not> prefix ''__'' i \<and> matches_table_id_pattern i"

definition validate_url_like_id :: "string \<Rightarrow> unit outcome" where
  "validate_url_like_id i =
     (if length i < 1 \<or> 64 < length i \<or> \<not> matches_url_like_pattern i
      then Inl validate_url_like_id_error_message else Inr ())"

definition row_id_error_message :: string where
  "row_id_error_message =
     ''Row ID must be 1 to 64 characters and contain only letters (a-z, A-Z), digits (0-9), underscores (_), and hyphens (-).''"

definition validate_row_id :: "string \<Rightarrow> unit outcome" where
  "validate_row_id i =
     (if length i < 1 \<or> 64 < length i \<or> \<not> (i \<noteq> [] \<and> list_all is_word_char i)
      then Inl row_id_error_message else Inr ())"

text \<open>\<open>toLowerCase\<close> on the characters a branch name may hold after the format check.\<close>

definition to_lower_case :: "string \<Rightarrow> string" where
  "to_lower_case s =
     map (\<lambda>c. if CHR ''A'' \<le> c \<and> c \<le> CHR ''Z'' then char_of (of_char c + (32 :: nat)) else c) s"

definition reserved_branch_name_error_message :: string where
  "reserved_branch_name_error_message = ''This branch name is reserved and cannot be used.''"

definition validate_branch_name :: "string \<Rightarrow> unit outcome" where
  "validate_branch_name branchName =
     try_bind (validate_url_like_id branchName)
       (\<lambda>_. if to_lower_case branchName \<in> {''head'', ''draft''}
             then Inl reserved_branch_name_error_message else Inr ())"

definition validate_json_field_name :: "string \<Rightarrow> bool" where
  "validate_json_field_name i =
     (let isInvalid = length i < 1 \<or> 64 < length i \<or> \<not> matches_url_like_pattern i
      in \<not> isInvalid)"

text \<open>\<open>xs.join(separator)\<close>\<close>

fun js_join :: "string \<Rightarrow> string list \<Rightarrow> string" where
  "js_join sep [] = ''''"
| "js_join sep [x] = x"
| "js_join sep (x # y # ys) = x @ sep @ js_join sep (y # ys)"

definition invalid_field_names_message :: "string list \<Rightarrow> string" where
  "invalid_field_names_message names =
     ''Invalid field names: '' @ js_join '', '' names @ ''. '' @ validate_url_like_id_error_message"

subsection \<open>Properties\<close>

lemma table_id_chars: "matches_table_id_pattern i \<Longrightarrow> i \<noteq> [] \<and> list_all is_word_char i"
  by (cases i) (auto simp: is_word_char_def)

text \<open>The identifier formats are nested: a JSON field name or branch name is a table id
  unless it starts with the prefix of system tables, and every valid table id is a valid row id.\<close>

theorem identifier_formats_nested:
  "(validate_branch_name i = Inr () \<longrightarrow> validate_json_field_name i) \<and>
   (validate_json_field_name i \<longleftrightarrow> validate_url_like_id i = Inr ()) \<and>
   (validate_json_field_name i \<and> \<not> prefix system_table_prefix i \<longrightarrow> validate_table_id i = Inr ()) \<and>
   (validate_table_id i = Inr () \<longrightarrow> validate_row_id i = Inr ())"
  using table_id_chars [of i]
  by (auto simp: validate_branch_name_def validate_json_field_name_def validate_url_like_id_def
      validate_table_id_def find_table_id_error_def validate_row_id_def matches_url_like_pattern_def
      split: if_splits)

theorem identifier_formats_nested_witness:
  "validate_row_id ''user_posts-2'' = Inr () \<and> validate_table_id ''revisium_schema_table'' \<noteq> Inr () \<and>
   validate_table_id ''__x'' = Inr () \<and> \<not> validate_json_field_name ''__x''"
proof -
  have "validate_table_id ''user_posts-2'' = Inr ()" by code_simp
  moreover have "validate_table_id ''revisium_schema_table'' \<noteq> Inr ()" by code_simp
  moreover have "validate_table_id ''__x'' = Inr () \<and> \<not> validate_json_field_name ''__x''" by code_simp
  ultimately show ?thesis using identifier_formats_nested [of "''user_posts-2''"] by simp
qed

end
