(* ===== verification/Schema_Rules.thy ===== *)
theory Schema_Rules
  imports Data_Model Identifiers
begin

section \<open>Native schema rules over the schema toolkit\<close>

text \<open>
  \<^verbatim>\<open>share/ledger-replay/native-schema-rules.ts\<close>. The class calls the package
  \<open>@revisium/schema-toolkit\<close> and an AJV validator, which are not part of the repository: they are
  the fields of \<open>toolkit\<close>, arguments of every definition that uses them. Each may throw, so each
  returns an \<open>outcome\<close>. \<open>'st\<close> is the toolkit's mutable schema store; a function that mutates it
  returns the store after the call.
\<close>

record validation_outcome =
  vo_result :: bool
  vo_errors :: "(string \<times> string option) list option"

record formula_error_detail =
  fe_field :: string
  fe_error :: string

record formula_validation =
  fv_isValid :: bool
  fv_errors :: "formula_error_detail list"

record 'st toolkit =
  tk_createJsonSchemaStore :: "json \<Rightarrow> 'st outcome"
  tk_getForeignKeys :: "'st \<Rightarrow> string list outcome"
  tk_getForeignKeyPatches :: "'st \<Rightarrow> string \<Rightarrow> string \<Rightarrow> json_patch list outcome"
  tk_getPlainSchema :: "'st \<Rightarrow> json outcome"
  tk_schemaTableApply :: "json \<Rightarrow> json_patch list \<Rightarrow> json outcome"
  tk_getInvalidFieldNames :: "json \<Rightarrow> string list outcome"
  tk_validateSchemaFormulas :: "json \<Rightarrow> formula_validation outcome"
  tk_applyAddPatch :: "'st \<Rightarrow> json_patch \<Rightarrow> 'st outcome"
  tk_applyMovePatch :: "'st \<Rightarrow> json_patch \<Rightarrow> 'st outcome"
  tk_applyRemovePatch :: "'st \<Rightarrow> json_patch \<Rightarrow> 'st outcome"
  tk_applyReplacePatch :: "'st \<Rightarrow> json_patch \<Rightarrow> 'st outcome"
  tk_isObjectStore :: "'st \<Rightarrow> bool"
  tk_isRefStore :: "'st \<Rightarrow> bool"
  tk_getProperty :: "'st \<Rightarrow> string \<Rightarrow> 'st option outcome"
  tk_validateMetaSchema :: "json \<Rightarrow> validation_outcome"
  tk_validateJsonPatchSchema :: "json_patch list \<Rightarrow> validation_outcome"

subsection \<open>Messages\<close>

definition details_of :: "validation_outcome \<Rightarrow> string" where
  "details_of outcome =
     js_join ''; ''
       (map (\<lambda>(instancePath, message).
               instancePath @ '' '' @ (case message of None \<Rightarrow> ''<no message>'' | Some m \<Rightarrow> m))
         (case vo_errors outcome of None \<Rightarrow> [] | Some es \<Rightarrow> es))"

fun decimal :: "nat \<Rightarrow> string" where
  "decimal n = (if n < 10 then [char_of (48 + n)] else decimal (n div 10) @ [char_of (48 + n mod 10)])"

declare decimal.simps [simp del]

fun format_formula_validation_message :: "formula_error_detail list \<Rightarrow> string" where
  "format_formula_validation_message [] = ''Formula validation failed''"
| "format_formula_validation_message [first] =
     ''Formula validation error in field \"'' @ fe_field first @ ''\": '' @ fe_error first"
| "format_formula_validation_message details =
     ''Formula validation failed with '' @ decimal (length details) @ '' errors''"

subsection \<open>The rules\<close>

definition patch_values :: "json_patch list \<Rightarrow> json list" where
  "patch_values patches =
     concat (map (\<lambda>patch. case patch of
         AddPatch _ v \<Rightarrow> [v] | ReplacePatch _ v \<Rightarrow> [v] | _ \<Rightarrow> []) patches)"

definition foreign_keys_of :: "'st toolkit \<Rightarrow> json \<Rightarrow> string list outcome" where
  "foreign_keys_of tk schema =
     try_bind (tk_createJsonSchemaStore tk schema) (tk_getForeignKeys tk)"

definition patched_schema :: "'st toolkit \<Rightarrow> json \<Rightarrow> json_patch list \<Rightarrow> json outcome" where
  "patched_schema tk schema patches = tk_schemaTableApply tk schema patches"

definition ensure_valid_field_names :: "'st toolkit \<Rightarrow> json list \<Rightarrow> unit outcome" where
  "ensure_valid_field_names tk schemas =
     fold_try (\<lambda>schema _.
         try_bind (tk_getInvalidFieldNames tk schema)
           (\<lambda>invalidFields. if 0 < length invalidFields
              then Inl (invalid_field_names_message invalidFields) else Inr ()))
       schemas ()"

definition ensure_recordable_change :: "'st toolkit \<Rightarrow> json \<Rightarrow> json_patch list \<Rightarrow> unit outcome"
  where
  "ensure_recordable_change tk schema patches =
     (if \<not> vo_result (tk_validateMetaSchema tk schema) then Inl ''data is not valid''
      else if \<not> vo_result (tk_validateJsonPatchSchema tk patches) then Inl ''patches is not valid''
      else ensure_valid_field_names tk (patch_values patches))"

definition renamed_foreign_keys ::
  "'st toolkit \<Rightarrow> json \<Rightarrow> string \<Rightarrow> string \<Rightarrow> json outcome" where
  "renamed_foreign_keys tk schema tableId nextTableId =
     try_bind (tk_createJsonSchemaStore tk schema) (\<lambda>store.
     try_bind (tk_getForeignKeyPatches tk store tableId nextTableId) (\<lambda>patches.
     try_bind (patched_schema tk schema patches) (\<lambda>renamed.
     try_bind (ensure_recordable_change tk renamed patches) (\<lambda>_. Inr renamed))))"

definition ensure_valid_patches :: "'st toolkit \<Rightarrow> json_patch list \<Rightarrow> unit outcome" where
  "ensure_valid_patches tk patches =
     (if length patches < 1 then Inl ''Invalid length of patches''
      else let outcome = tk_validateJsonPatchSchema tk patches
           in if \<not> vo_result outcome then Inl (''patches is not valid: '' @ details_of outcome)
              else Inr ())"

definition ensure_valid_schema :: "'st toolkit \<Rightarrow> json \<Rightarrow> unit outcome" where
  "ensure_valid_schema tk schema =
     (let outcome = tk_validateMetaSchema tk schema
      in if \<not> vo_result outcome then Inl (''schema is not valid: '' @ details_of outcome)
         else
           try_bind (tk_createJsonSchemaStore tk schema) (\<lambda>store.
           try_bind (tk_getPlainSchema tk store) (\<lambda>plain.
           try_bind (tk_validateSchemaFormulas tk plain) (\<lambda>formulas.
             if \<not> fv_isValid formulas
             then Inl (format_formula_validation_message (fv_errors formulas)) else Inr ()))))"

subsection \<open>The schema store as the partial changes use it\<close>

fun apply_patch :: "'st toolkit \<Rightarrow> json_patch \<Rightarrow> 'st \<Rightarrow> 'st outcome" where
  "apply_patch tk (AddPatch p v) st = tk_applyAddPatch tk st (AddPatch p v)"
| "apply_patch tk (MovePatch f p) st = tk_applyMovePatch tk st (MovePatch f p)"
| "apply_patch tk (RemovePatch p) st = tk_applyRemovePatch tk st (RemovePatch p)"
| "apply_patch tk (ReplacePatch p v) st = tk_applyReplacePatch tk st (ReplacePatch p v)"

definition is_object_schema :: "'st toolkit \<Rightarrow> 'st option \<Rightarrow> bool" where
  "is_object_schema tk node =
     (case node of None \<Rightarrow> False | Some n \<Rightarrow> tk_isObjectStore tk n \<and> \<not> tk_isRefStore tk n)"

definition property_of :: "'st toolkit \<Rightarrow> string \<Rightarrow> 'st option \<Rightarrow> 'st option outcome" where
  "property_of tk name node =
     (if \<not> is_object_schema tk node then Inr None
      else case node of None \<Rightarrow> Inr None | Some n \<Rightarrow> tk_getProperty tk n name)"

definition has_object_schema_at :: "'st toolkit \<Rightarrow> string list \<Rightarrow> 'st \<Rightarrow> bool outcome" where
  "has_object_schema_at tk fieldPath st =
     try_bind (fold_try (property_of tk) fieldPath (Some st))
       (\<lambda>node. Inr (is_object_schema tk node))"

subsection \<open>A small toolkit to run the model on\<close>

text \<open>
  A concrete toolkit to run the model on: the store is the schema itself, foreign keys are the
  string values of a property \<open>fk\<close> at the root, patches replace the whole schema, and every
  validator accepts.
\<close>

definition accepted :: validation_outcome where
  "accepted = \<lparr>vo_result = True, vo_errors = None\<rparr>"

definition root_foreign_keys :: "json \<Rightarrow> string list" where
  "root_foreign_keys schema =
     concat (map (\<lambda>(k, v). case v of JStr s \<Rightarrow> if k = ''fk'' then [s] else [] | _ \<Rightarrow> [])
       (entries_of schema))"

fun root_patched :: "json \<Rightarrow> json_patch list \<Rightarrow> json" where
  "root_patched schema [] = schema"
| "root_patched schema (AddPatch _ v # ps) = root_patched v ps"
| "root_patched schema (ReplacePatch _ v # ps) = root_patched v ps"
| "root_patched schema (_ # ps) = root_patched schema ps"

definition root_renamed :: "json \<Rightarrow> string \<Rightarrow> string \<Rightarrow> json" where
  "root_renamed schema old new =
     JObj (map (\<lambda>(k, v). (k, if k = ''fk'' \<and> v = JStr old then JStr new else v))
       (entries_of schema))"

definition root_toolkit :: "json toolkit" where
  "root_toolkit =
     \<lparr>tk_createJsonSchemaStore = Inr,
      tk_getForeignKeys = (\<lambda>st. Inr (root_foreign_keys st)),
      tk_getForeignKeyPatches = (\<lambda>st old new. Inr [ReplacePatch '''' (root_renamed st old new)]),
      tk_getPlainSchema = Inr,
      tk_schemaTableApply = (\<lambda>s ps. Inr (root_patched s ps)),
      tk_getInvalidFieldNames = (\<lambda>_. Inr []),
      tk_validateSchemaFormulas = (\<lambda>_. Inr \<lparr>fv_isValid = True, fv_errors = []\<rparr>),
      tk_applyAddPatch = (\<lambda>st p. Inr (root_patched st [p])),
      tk_applyMovePatch = (\<lambda>st p. Inr st),
      tk_applyRemovePatch = (\<lambda>st p. Inr st),
      tk_applyReplacePatch = (\<lambda>st p. Inr (root_patched st [p])),
      tk_isObjectStore = (\<lambda>st. case st of JObj _ \<Rightarrow> True | _ \<Rightarrow> False),
      tk_isRefStore = (\<lambda>st. jhas st ''$ref''),
      tk_getProperty = (\<lambda>st name. Inr (case jfield st ''properties'' of
          None \<Rightarrow> None | Some ps \<Rightarrow> jfield ps name)),
      tk_validateMetaSchema = (\<lambda>_. accepted),
      tk_validateJsonPatchSchema = (\<lambda>_. accepted)\<rparr>"

end
