(* ===== verification/Ledger_Replay.thy ===== *)
theory Ledger_Replay
  imports Table_Slots Schema_Rules
begin

section \<open>Replaying the ledger\<close>

text \<open>
  \<^verbatim>\<open>share/ledger-replay/ledger-replay.ts\<close>: the class \<open>LedgerReplay\<close> follows every migration
  through the table slots and applies it to the schema of its slot. A step that throws marks its
  slot as unreplayable; a slot that reads an unreplayable one is marked too. The steps change the
  replay's state before they throw, so they are functions from the state to a result and the state
  they leave (\<open>'a replay_step\<close>), also when the result is an error.
\<close>

record replay_failure =
  rf_migrationId :: string
  rf_step :: change_type
  rf_error :: string

record unattributed_failure =
  uf_tableId :: string
  uf_failure :: replay_failure

record table_read =
  rd_migrationId :: string
  rd_tableId :: string
  rd_readTableId :: string

datatype trail_cause = OwnStep | ReferrerRewrite

record schema_trail_step =
  tr_migrationId :: string
  tr_cause :: trail_cause
  tr_schema :: json

record slot_schema =
  sc_schema :: "json option"
  sc_failure :: "replay_failure option"

record current_table =
  ct_tableId :: string
  ct_slot :: nat
  ct_schema :: json

record replay =
  rp_slots :: table_slots
  rp_schemas :: "nat \<rightharpoonup> slot_schema"
  rp_unattributed :: "unattributed_failure list"
  rp_reads :: "table_read list"
  rp_trails :: "(nat \<rightharpoonup> schema_trail_step list) option"

subsection \<open>Steps that may throw after they changed the state\<close>

type_synonym 'a replay_step = "replay \<Rightarrow> 'a outcome \<times> replay"

definition rs_return :: "'a \<Rightarrow> 'a replay_step" where
  "rs_return x st = (Inr x, st)"

definition rs_throw :: "string \<Rightarrow> 'a replay_step" where
  "rs_throw e st = (Inl e, st)"

definition rs_lift :: "'a outcome \<Rightarrow> 'a replay_step" where
  "rs_lift r st = (r, st)"

definition rs_change :: "(replay \<Rightarrow> replay) \<Rightarrow> unit replay_step" where
  "rs_change f st = (Inr (), f st)"

definition rs_bind :: "'a replay_step \<Rightarrow> ('a \<Rightarrow> 'b replay_step) \<Rightarrow> 'b replay_step" where
  "rs_bind m f st = (case m st of (Inl e, st') \<Rightarrow> (Inl e, st') | (Inr x, st') \<Rightarrow> f x st')"

definition rs_seq :: "unit replay_step \<Rightarrow> 'b replay_step \<Rightarrow> 'b replay_step" where
  "rs_seq m n = rs_bind m (\<lambda>_. n)"

definition rs_get :: "(replay \<Rightarrow> 'a outcome) \<Rightarrow> 'a replay_step" where
  "rs_get f st = (f st, st)"

named_theorems rs_defs "the combinators of replay steps"

lemmas rs_combinators [rs_defs] =
  rs_return_def rs_throw_def rs_lift_def rs_change_def rs_bind_def rs_seq_def rs_get_def

subsection \<open>Reading the state\<close>

definition failure_of :: "migration \<Rightarrow> string \<Rightarrow> replay_failure" where
  "failure_of m e = \<lparr>rf_migrationId = mig_id m, rf_step = change_type_of m, rf_error = e\<rparr>"

definition depends_on_unreplayable :: "string \<Rightarrow> string" where
  "depends_on_unreplayable tableId = ''Depends on unreplayable table \"'' @ tableId @ ''\"''"

definition schema_of :: "replay \<Rightarrow> nat \<Rightarrow> json option" where
  "schema_of st i = (case rp_schemas st i of None \<Rightarrow> None | Some sc \<Rightarrow> sc_schema sc)"

definition failure_at :: "replay \<Rightarrow> nat \<Rightarrow> replay_failure option" where
  "failure_at st i = (case rp_schemas st i of None \<Rightarrow> None | Some sc \<Rightarrow> sc_failure sc)"

definition is_tainted :: "replay \<Rightarrow> nat option \<Rightarrow> bool" where
  "is_tainted st s = (case s of None \<Rightarrow> False | Some i \<Rightarrow> failure_at st i \<noteq> None)"

definition slot_schema_of :: "replay \<Rightarrow> nat \<Rightarrow> slot_schema" where
  "slot_schema_of st i =
     (case rp_schemas st i of None \<Rightarrow> \<lparr>sc_schema = None, sc_failure = None\<rparr> | Some sc \<Rightarrow> sc)"

definition current_tables :: "replay \<Rightarrow> current_table list" where
  "current_tables st =
     concat (map (\<lambda>(tableId, i). case schema_of st i of
         None \<Rightarrow> []
       | Some schema \<Rightarrow> [\<lparr>ct_tableId = tableId, ct_slot = i, ct_schema = schema\<rparr>])
       (ts_current (rp_slots st)))"

definition references :: "'st toolkit \<Rightarrow> json \<Rightarrow> string \<Rightarrow> bool outcome" where
  "references tk schema tableId =
     try_bind (foreign_keys_of tk schema) (\<lambda>ids. Inr (tableId \<in> set ids))"

fun filter_try :: "('a \<Rightarrow> bool outcome) \<Rightarrow> 'a list \<Rightarrow> 'a list outcome" where
  "filter_try p [] = Inr []"
| "filter_try p (x # xs) =
     try_bind (p x) (\<lambda>b. try_bind (filter_try p xs) (\<lambda>ys. Inr (if b then x # ys else ys)))"

definition referrers_of :: "'st toolkit \<Rightarrow> string \<Rightarrow> replay \<Rightarrow> current_table list outcome" where
  "referrers_of tk tableId st =
     filter_try (\<lambda>t. references tk (ct_schema t) tableId) (current_tables st)"

definition foreign_key_targets_of ::
  "'st toolkit \<Rightarrow> string \<Rightarrow> json list \<Rightarrow> string list outcome" where
  "foreign_key_targets_of tk tableId schemas =
     try_bind (map_try (foreign_keys_of tk) schemas)
       (\<lambda>targets. Inr (uniq (filter (\<lambda>target. target \<noteq> tableId) (concat targets))))"

subsection \<open>Changing the state\<close>

definition taint :: "nat \<Rightarrow> replay_failure \<Rightarrow> replay \<Rightarrow> replay" where
  "taint i failure st =
     (let sc = slot_schema_of st i
      in st\<lparr>rp_schemas := (rp_schemas st)(i \<mapsto>
             (if sc_failure sc = None then sc\<lparr>sc_failure := Some failure\<rparr> else sc))\<rparr>)"

definition record_trail_step :: "nat \<Rightarrow> schema_trail_step \<Rightarrow> replay \<Rightarrow> replay" where
  "record_trail_step i step st =
     (case rp_trails st of
        None \<Rightarrow> st
      | Some trails \<Rightarrow>
          st\<lparr>rp_trails := Some (trails(i \<mapsto>
               (case trails i of None \<Rightarrow> [] | Some trail \<Rightarrow> trail) @ [step]))\<rparr>)"

definition set_schema :: "nat \<Rightarrow> migration \<Rightarrow> trail_cause \<Rightarrow> json \<Rightarrow> replay \<Rightarrow> replay" where
  "set_schema i m cause schema st =
     record_trail_step i \<lparr>tr_migrationId = mig_id m, tr_cause = cause, tr_schema = schema\<rparr>
       (st\<lparr>rp_schemas := (rp_schemas st)(i \<mapsto> (slot_schema_of st i)\<lparr>sc_schema := Some schema\<rparr>)\<rparr>)"

definition record_reads :: "migration \<Rightarrow> string list \<Rightarrow> replay \<Rightarrow> replay" where
  "record_reads m readTableIds st =
     st\<lparr>rp_reads := rp_reads st @
          map (\<lambda>t. \<lparr>rd_migrationId = mig_id m, rd_tableId = mig_table m, rd_readTableId = t\<rparr>)
            readTableIds\<rparr>"

definition record_failure :: "migration \<Rightarrow> slot_step \<Rightarrow> replay_failure \<Rightarrow> replay \<Rightarrow> replay" where
  "record_failure m step failure st =
     (let st' = taint (step_slot step) failure st
      in if \<not> step_attributable step
         then st'\<lparr>rp_unattributed := rp_unattributed st' @
                   [\<lparr>uf_tableId = mig_table m, uf_failure = failure\<rparr>]\<rparr>
         else st')"

subsection \<open>Checks\<close>

definition existing_schema :: "nat \<Rightarrow> string \<Rightarrow> json replay_step" where
  "existing_schema i tableId =
     rs_get (\<lambda>st. case schema_of st i of
         None \<Rightarrow> Inl (''Table \"'' @ tableId @ ''\" does not exist'')
       | Some schema \<Rightarrow> Inr schema)"

definition ensure_valid_table_id :: "string \<Rightarrow> unit replay_step" where
  "ensure_valid_table_id tableId =
     rs_lift (case find_table_id_error tableId of Some e \<Rightarrow> Inl e | None \<Rightarrow> Inr ())"

definition ensure_free :: "string \<Rightarrow> nat option \<Rightarrow> unit replay_step" where
  "ensure_free tableId displaced =
     rs_get (\<lambda>st.
       if displaced = None then Inr ()
       else if is_tainted st displaced then Inl (depends_on_unreplayable tableId)
       else Inl (''Table \"'' @ tableId @ ''\" already exists''))"

definition ensure_referenced_tables_exist ::
  "'st toolkit \<Rightarrow> migration \<Rightarrow> json \<Rightarrow> unit replay_step" where
  "ensure_referenced_tables_exist tk m schema =
     rs_bind
       (rs_get (\<lambda>st. try_bind (foreign_key_targets_of tk (mig_table m) [schema])
          (\<lambda>targets. Inr (filter (\<lambda>t. current_slot t (rp_slots st) = None) targets))))
       (\<lambda>missingTargets. case missingTargets of
          [] \<Rightarrow> rs_return ()
        | missingTarget # _ \<Rightarrow>
            rs_seq (rs_change (record_reads m missingTargets))
              (rs_throw (''Foreign key target \"'' @ missingTarget @ ''\" does not exist'')))"

definition validate_schema :: "'st toolkit \<Rightarrow> migration \<Rightarrow> json \<Rightarrow> unit replay_step" where
  "validate_schema tk m schema =
     rs_seq (ensure_referenced_tables_exist tk m schema) (rs_lift (ensure_valid_schema tk schema))"

fun validate_schemas :: "'st toolkit \<Rightarrow> migration \<Rightarrow> json list \<Rightarrow> unit replay_step" where
  "validate_schemas tk m [] = rs_return ()"
| "validate_schemas tk m (schema # schemas) =
     rs_seq (validate_schema tk m schema) (validate_schemas tk m schemas)"

definition validate_patches ::
  "'st toolkit \<Rightarrow> migration \<Rightarrow> json_patch list \<Rightarrow> unit replay_step" where
  "validate_patches tk m patches =
     rs_seq (rs_lift (ensure_valid_patches tk patches))
       (validate_schemas tk m (patch_values patches))"

definition quoted_ids :: "string list \<Rightarrow> string" where
  "quoted_ids ids = js_join '', '' (map (\<lambda>i. ''\"'' @ i @ ''\"'') ids)"

definition ensure_not_referenced :: "'st toolkit \<Rightarrow> migration \<Rightarrow> unit replay_step" where
  "ensure_not_referenced tk m =
     rs_bind (rs_get (referrers_of tk (mig_table m))) (\<lambda>referrers.
       let referrerIds = map ct_tableId referrers
       in rs_seq (rs_change (record_reads m referrerIds))
            (if 0 < length referrerIds
             then rs_throw (''Table \"'' @ mig_table m @ ''\" is referenced by '' @
                    quoted_ids referrerIds)
             else rs_return ()))"

subsection \<open>Tainting dependents\<close>

definition taint_if_dependent ::
  "'st toolkit \<Rightarrow> string \<Rightarrow> nat \<Rightarrow> migration \<Rightarrow> json list \<Rightarrow> unit replay_step" where
  "taint_if_dependent tk tableId i m namedSchemas =
     rs_bind (rs_lift (foreign_key_targets_of tk tableId namedSchemas)) (\<lambda>targets.
     rs_seq (rs_change (record_reads m targets))
       (rs_change (\<lambda>st.
          case find (\<lambda>target. is_tainted st (current_slot target (rp_slots st))) targets of
            None \<Rightarrow> st
          | Some target \<Rightarrow> taint i (failure_of m (depends_on_unreplayable target)) st)))"

definition taint_across_rename ::
  "migration \<Rightarrow> string \<Rightarrow> nat \<Rightarrow> current_table list \<Rightarrow> replay \<Rightarrow> replay" where
  "taint_across_rename m nextTableId renamed referrers st =
     (let otherReferrers = filter (\<lambda>t. ct_slot t \<noteq> renamed) referrers;
          unreplayableReferrer =
            find (\<lambda>t. is_tainted st (Some (ct_slot t))) otherReferrers;
          st1 = (if is_tainted st (Some renamed)
                 then fold (\<lambda>t. taint (ct_slot t)
                        (failure_of m (depends_on_unreplayable nextTableId))) otherReferrers st
                 else st)
      in case unreplayableReferrer of
           None \<Rightarrow> st1
         | Some t \<Rightarrow>
             taint renamed (failure_of m (depends_on_unreplayable (ct_tableId t))) st1)"

subsection \<open>Applying a migration\<close>

definition create_table ::
  "'st toolkit \<Rightarrow> migration \<Rightarrow> json \<Rightarrow> slot_step \<Rightarrow> unit replay_step" where
  "create_table tk m schema step =
     rs_seq (validate_schema tk m schema)
    (rs_seq (ensure_valid_table_id (mig_table m))
    (rs_seq (ensure_free (mig_table m) (step_displaced step))
    (rs_seq (rs_lift (ensure_valid_field_names tk [schema]))
    (rs_seq (rs_change (set_schema (step_slot step) m OwnStep schema))
       (taint_if_dependent tk (mig_table m) (step_slot step) m [schema])))))"

definition update_table ::
  "'st toolkit \<Rightarrow> migration \<Rightarrow> json_patch list \<Rightarrow> nat \<Rightarrow> unit replay_step" where
  "update_table tk m patches i =
     rs_seq (validate_patches tk m patches)
    (rs_bind (existing_schema i (mig_table m)) (\<lambda>existing.
     rs_bind (rs_lift (patched_schema tk existing patches)) (\<lambda>schema.
     rs_seq (validate_schema tk m schema)
    (rs_seq (rs_lift (ensure_recordable_change tk schema patches))
    (rs_seq (rs_change (set_schema i m OwnStep schema))
       (taint_if_dependent tk (mig_table m) i m (patch_values patches @ [schema])))))))"

definition rewritten_after_rename ::
  "'st toolkit \<Rightarrow> current_table list \<Rightarrow> string \<Rightarrow> string \<Rightarrow> current_table list outcome" where
  "rewritten_after_rename tk referrers tableId nextTableId =
     map_try (\<lambda>t. try_bind (renamed_foreign_keys tk (ct_schema t) tableId nextTableId)
         (\<lambda>schema. Inr (t\<lparr>ct_schema := schema\<rparr>))) referrers"

definition rename_table ::
  "'st toolkit \<Rightarrow> migration \<Rightarrow> string \<Rightarrow> slot_step \<Rightarrow> unit replay_step" where
  "rename_table tk m nextTableId step =
     rs_bind (existing_schema (step_slot step) (mig_table m)) (\<lambda>_.
     rs_seq (ensure_valid_table_id nextTableId)
    (rs_seq (ensure_free nextTableId (step_displaced step))
    (rs_bind (rs_get (referrers_of tk (mig_table m))) (\<lambda>referrers.
     rs_seq (rs_change (record_reads m
        (map ct_tableId (filter (\<lambda>t. ct_slot t \<noteq> step_slot step) referrers))))
    (rs_bind (rs_lift (rewritten_after_rename tk referrers (mig_table m) nextTableId))
      (\<lambda>rewrittenReferrers.
     rs_seq (rs_change (taint_across_rename m nextTableId (step_slot step) rewrittenReferrers))
       (rs_change (fold (\<lambda>t. set_schema (ct_slot t) m ReferrerRewrite (ct_schema t))
          rewrittenReferrers))))))))"

definition remove_table :: "'st toolkit \<Rightarrow> migration \<Rightarrow> nat \<Rightarrow> unit replay_step" where
  "remove_table tk m i =
     rs_bind (existing_schema i (mig_table m)) (\<lambda>_. ensure_not_referenced tk m)"

fun apply_step :: "'st toolkit \<Rightarrow> migration \<Rightarrow> slot_step \<Rightarrow> unit replay_step" where
  "apply_step tk (InitMigration r i t h s) step = create_table tk (InitMigration r i t h s) s step"
| "apply_step tk (UpdateMigration r i t h ps) step =
     update_table tk (UpdateMigration r i t h ps) ps (step_slot step)"
| "apply_step tk (RenameMigration r i t n) step = rename_table tk (RenameMigration r i t n) n step"
| "apply_step tk (RemoveMigration r i t) step = remove_table tk (RemoveMigration r i t) (step_slot step)"

definition apply_migration :: "'st toolkit \<Rightarrow> migration \<Rightarrow> replay \<Rightarrow> replay" where
  "apply_migration tk m st =
     (let (step, slots) = follow m (rp_slots st)
      in case apply_step tk m step (st\<lparr>rp_slots := slots\<rparr>) of
           (Inl e, st') \<Rightarrow> record_failure m step (failure_of m e) st'
         | (Inr _, st') \<Rightarrow> st')"

definition start_replay :: "(string, json) jmap \<Rightarrow> bool \<Rightarrow> replay" where
  "start_replay schemas recordTrail =
     (let slots = start_slots (jkeys schemas)
      in \<lparr>rp_slots = slots,
          rp_schemas = map_of (map (\<lambda>(tableId, i).
            (i, \<lparr>sc_schema = map_of schemas tableId, sc_failure = None\<rparr>)) (ts_current slots)),
          rp_unattributed = [], rp_reads = [],
          rp_trails = (if recordTrail then Some Map.empty else None)\<rparr>)"

subsection \<open>The result of a replay\<close>

record replayed_slot =
  rsl_slot :: slot
  rsl_schema :: "json option"
  rsl_failure :: "replay_failure option"
  rsl_trail :: "schema_trail_step list option"

record replayed_ledger =
  rl_slots :: "replayed_slot list"
  rl_currentSlots :: "(string, replayed_slot) jmap"
  rl_schemas :: "(string, json) jmap"
  rl_unreplayable :: "(string, replay_failure) jmap"
  rl_unattributed :: "unattributed_failure list"
  rl_reads :: "table_read list"

definition trail_of :: "replay \<Rightarrow> nat \<Rightarrow> schema_trail_step list option" where
  "trail_of st i =
     (case rp_trails st of
        None \<Rightarrow> None
      | Some trails \<Rightarrow> Some (case trails i of None \<Rightarrow> [] | Some trail \<Rightarrow> trail))"

definition replayed_slot_at :: "replay \<Rightarrow> nat \<Rightarrow> replayed_slot" where
  "replayed_slot_at st i =
     \<lparr>rsl_slot = ts_slots (rp_slots st) ! i,
      rsl_schema = (if failure_at st i \<noteq> None then None else schema_of st i),
      rsl_failure = failure_at st i, rsl_trail = trail_of st i\<rparr>"

definition current_slots_of :: "replayed_slot list \<Rightarrow> (string, replayed_slot) jmap" where
  "current_slots_of slots =
     fold (\<lambda>s m. case slot_currentTableId (rsl_slot s) of
         None \<Rightarrow> m | Some tableId \<Rightarrow> AList.update tableId s m) slots []"

definition ledgered_schemas_of :: "replayed_slot list \<Rightarrow> (string, json) jmap" where
  "ledgered_schemas_of slots =
     fold (\<lambda>s m. case ledgered_table_id_of (rsl_slot s) of
         None \<Rightarrow> m
       | Some tableId \<Rightarrow>
           if rsl_failure s \<noteq> None then m
           else (case rsl_schema s of None \<Rightarrow> m | Some schema \<Rightarrow> AList.update tableId schema m))
       slots []"

definition ledgered_failures_of :: "replayed_slot list \<Rightarrow> (string, replay_failure) jmap" where
  "ledgered_failures_of slots =
     fold (\<lambda>s m. case ledgered_table_id_of (rsl_slot s) of
         None \<Rightarrow> m
       | Some tableId \<Rightarrow>
           (case rsl_failure s of None \<Rightarrow> m | Some failure \<Rightarrow> AList.update tableId failure m))
       slots []"

definition replay_result :: "replay \<Rightarrow> replayed_ledger" where
  "replay_result st =
     (let slots = map (replayed_slot_at st) [0..<length (ts_slots (rp_slots st))]
      in \<lparr>rl_slots = slots, rl_currentSlots = current_slots_of slots,
          rl_schemas = ledgered_schemas_of slots, rl_unreplayable = ledgered_failures_of slots,
          rl_unattributed = rp_unattributed st, rl_reads = rp_reads st\<rparr>)"

definition apply_migrations :: "'st toolkit \<Rightarrow> migration list \<Rightarrow> replay \<Rightarrow> replay" where
  "apply_migrations tk ledger st = fold (apply_migration tk) ledger st"

definition replay_ledger ::
  "'st toolkit \<Rightarrow> migration list \<Rightarrow> (string, json) jmap \<Rightarrow> bool \<Rightarrow> replayed_ledger" where
  "replay_ledger tk ledger schemas recordTrail =
     replay_result (apply_migrations tk ledger (start_replay schemas recordTrail))"

subsection \<open>What a step may change\<close>

lemma rs_get_simps [simp]:
  "fst (rs_get f st) = f st" "snd (rs_get f st) = st"
  "fst (rs_lift r st) = r" "snd (rs_lift r st) = st"
  "snd (rs_return x st) = st" "snd (rs_throw e st) = st"
  "fst (rs_return x st) = Inr x" "fst (rs_throw e st) = Inl e"
  "fst (rs_change g st) = Inr ()" "snd (rs_change g st) = g st"
  "snd (existing_schema i t st) = st" "snd (ensure_valid_table_id t st) = st"
  "snd (ensure_free t d st) = st"
  by (simp_all add: rs_defs existing_schema_def ensure_valid_table_id_def ensure_free_def)

lemma filter_try_subset: "filter_try p xs = Inr ys \<Longrightarrow> set ys \<subseteq> set xs"
  by (induction xs arbitrary: ys) (auto split: if_splits)

lemma current_tables_slots:
  "t \<in> set (current_tables st) \<Longrightarrow> (ct_tableId t, ct_slot t) \<in> set (ts_current (rp_slots st)) \<and>
     schema_of st (ct_slot t) = Some (ct_schema t)"
  by (auto simp: current_tables_def split: option.splits)

lemma current_tables_in_range:
  assumes "slots_inv (rp_slots st)" "t \<in> set (current_tables st)"
  shows "ct_slot t < length (ts_slots (rp_slots st))"
  using current_tables_slots [OF assms(2)] slots_inv_get [OF assms(1)]
    jmap_mem_iff [OF slots_inv_ok [OF assms(1)]] by simp

lemma rewritten_slots:
  "rewritten_after_rename tk rs t n = Inr rs' \<Longrightarrow> map ct_slot rs' = map ct_slot rs"
proof -
  have "list_all2 (\<lambda>r r'. ct_slot r' = ct_slot r) rs rs'" if "list_all2 (\<lambda>r r'. (try_bind (renamed_foreign_keys tk (ct_schema r) t n)
         (\<lambda>schema. Inr (r\<lparr>ct_schema := schema\<rparr>))) = Inr r') rs rs'"
    by (rule list_all2_mono [OF that]) auto
  then show "rewritten_after_rename tk rs t n = Inr rs' \<Longrightarrow> map ct_slot rs' = map ct_slot rs"
    unfolding rewritten_after_rename_def map_try_Inr_iff
    by (simp add: list_eq_iff_nth_eq list_all2_conv_all_nth)
qed

text \<open>
  The contract between the steps and what is proved of them: a preorder on replays that every
  elementary change respects is respected by a whole step.
\<close>

locale replay_relation =
  fixes R :: "replay \<Rightarrow> replay \<Rightarrow> bool"
  assumes R_refl: "R st st"
    and R_trans: "R st st' \<Longrightarrow> R st' st'' \<Longrightarrow> R st st''"
    and R_slots: "R st st' \<Longrightarrow> rp_slots st' = rp_slots st"
    and R_taint: "R st (taint i f st)"
    and R_set_schema: "i < length (ts_slots (rp_slots st)) \<Longrightarrow> R st (set_schema i m c s st)"
    and R_reads: "R st (record_reads m ts st)"
begin

lemma R_bind:
  "R st (snd (x st)) \<Longrightarrow>
     (\<And>y. fst (x st) = Inr y \<Longrightarrow> R (snd (x st)) (snd (f y (snd (x st))))) \<Longrightarrow>
     R st (snd (rs_bind x f st))"
  unfolding rs_bind_def by (auto simp: split_beta intro: R_trans split: sum.splits)

lemma R_seq:
  "R st (snd (x st)) \<Longrightarrow> R (snd (x st)) (snd (y (snd (x st)))) \<Longrightarrow> R st (snd (rs_seq x y st))"
  unfolding rs_seq_def by (rule R_bind)

lemma R_ensure_referenced: "R st (snd (ensure_referenced_tables_exist tk m schema st))"
  unfolding ensure_referenced_tables_exist_def
  by (rule R_bind) (auto simp: R_refl R_reads intro!: R_seq split: list.splits)

lemma R_validate_schema: "R st (snd (validate_schema tk m schema st))"
  unfolding validate_schema_def by (rule R_seq) (simp_all add: R_ensure_referenced R_refl)

lemma R_validate_schemas: "R st (snd (validate_schemas tk m schemas st))"
  by (induction schemas arbitrary: st) (auto intro!: R_seq simp: R_validate_schema R_refl)

lemma R_validate_patches: "R st (snd (validate_patches tk m patches st))"
  unfolding validate_patches_def by (rule R_seq) (simp_all add: R_validate_schemas R_refl)

lemma R_taint_if_dependent: "R st (snd (taint_if_dependent tk t i m schemas st))"
  unfolding taint_if_dependent_def
  by (rule R_bind) (auto simp: R_refl R_reads R_taint intro!: R_seq split: option.splits)

lemma R_fold_taint: "R st (fold (\<lambda>t. taint (ct_slot t) f) ts st)"
  by (induction ts arbitrary: st) (auto intro: R_refl R_trans R_taint)

lemma R_taint_across_rename: "R st (taint_across_rename m n i referrers st)"
  unfolding taint_across_rename_def Let_def
  by (auto intro: R_refl R_trans [OF R_fold_taint] R_taint R_fold_taint split: option.splits)

lemma R_fold_set_schema:
  "\<forall>t \<in> set ts. ct_slot t < length (ts_slots (rp_slots st)) \<Longrightarrow>
     R st (fold (\<lambda>t. set_schema (ct_slot t) m c (ct_schema t)) ts st)"
proof (induction ts arbitrary: st)
  case (Cons t ts)
  let ?st = "set_schema (ct_slot t) m c (ct_schema t) st"
  have "R st ?st" using Cons.prems by (simp add: R_set_schema)
  moreover from R_slots [OF this] Cons have
    "R ?st (fold (\<lambda>t. set_schema (ct_slot t) m c (ct_schema t)) ts ?st)" by simp
  ultimately show ?case by (auto intro: R_trans)
qed (simp add: R_refl)

lemma R_create_table:
  "step_slot step < length (ts_slots (rp_slots st)) \<Longrightarrow>
     R st (snd (create_table tk m schema step st))"
  unfolding create_table_def
  by (intro R_seq R_bind)
    (simp_all add: R_validate_schema R_refl R_slots [OF R_validate_schema] R_set_schema
      R_taint_if_dependent)

lemma R_update_table:
  "i < length (ts_slots (rp_slots st)) \<Longrightarrow> R st (snd (update_table tk m patches i st))"
  unfolding update_table_def
  by (intro R_seq R_bind)
    (simp_all add: R_validate_schema R_validate_patches R_refl R_slots [OF R_validate_schema]
      R_slots [OF R_validate_patches] R_set_schema R_taint_if_dependent)

lemma R_rename_table:
  assumes "slots_inv (rp_slots st)"
  shows "R st (snd (rename_table tk m n step st))"
proof -
  have range: "\<forall>t \<in> set rewritten. ct_slot t < length (ts_slots (rp_slots st))"
    if "referrers_of tk (mig_table m) st = Inr rs"
      "rewritten_after_rename tk rs (mig_table m) n = Inr rewritten" for rs rewritten
  proof -
    have "ct_slot ` set rewritten = ct_slot ` set rs"
      using rewritten_slots [OF that(2)] by (metis image_set)
    moreover have "\<forall>t \<in> set rs. ct_slot t < length (ts_slots (rp_slots st))"
      using that(1) filter_try_subset current_tables_in_range [OF assms]
      unfolding referrers_of_def by blast
    ultimately show ?thesis by (metis (no_types, lifting) image_iff)
  qed
  show ?thesis
    unfolding rename_table_def
    by (intro R_seq R_bind)
      (simp_all add: R_refl R_reads R_taint_across_rename R_fold_set_schema range
        R_slots [OF R_taint_across_rename] R_slots [OF R_reads])
qed

lemma R_remove_table: "R st (snd (remove_table tk m i st))"
  unfolding remove_table_def ensure_not_referenced_def Let_def
  by (intro R_seq R_bind) (auto simp: R_refl R_reads intro!: R_seq)

lemma R_apply_step:
  assumes "slots_inv (rp_slots st)" "step_slot step < length (ts_slots (rp_slots st))"
  shows "R st (snd (apply_step tk m step st))"
  using assms by (cases m)
    (simp_all add: R_create_table R_update_table R_rename_table R_remove_table)

end

text \<open>
  The frame of a step: the table slots and the unattributed failures stay, a failure is kept, a
  schema is never taken away, and a schema is only given to a slot there is.
\<close>

definition replay_frame :: "replay \<Rightarrow> replay \<Rightarrow> bool" where
  "replay_frame st st' \<longleftrightarrow>
     rp_slots st' = rp_slots st \<and> rp_unattributed st' = rp_unattributed st \<and>
     (\<forall>i. failure_at st i \<noteq> None \<longrightarrow> failure_at st' i = failure_at st i) \<and>
     (\<forall>i. schema_of st i \<noteq> None \<longrightarrow> schema_of st' i \<noteq> None) \<and>
     (\<forall>i. schema_of st' i \<noteq> None \<longrightarrow>
        schema_of st i \<noteq> None \<or> i < length (ts_slots (rp_slots st)))"

lemma schema_taint [simp]: "schema_of (taint i f st) j = schema_of st j"
  by (auto simp: taint_def Let_def schema_of_def slot_schema_of_def split: option.splits)

lemma failure_taint:
  "failure_at (taint i f st) j =
     (if i = j \<and> failure_at st i = None then Some f else failure_at st j)"
  by (auto simp: taint_def Let_def failure_at_def slot_schema_of_def split: option.splits)

lemma taint_fields [simp]:
  "rp_slots (taint i f st) = rp_slots st" "rp_unattributed (taint i f st) = rp_unattributed st"
  "rp_trails (taint i f st) = rp_trails st" "rp_reads (taint i f st) = rp_reads st"
  by (simp_all add: taint_def Let_def)

lemma trail_step_fields [simp]:
  "rp_slots (record_trail_step i s st) = rp_slots st"
  "rp_unattributed (record_trail_step i s st) = rp_unattributed st"
  "rp_schemas (record_trail_step i s st) = rp_schemas st"
  "schema_of (record_trail_step i s st) = schema_of st"
  "failure_at (record_trail_step i s st) = failure_at st"
  by (auto simp: record_trail_step_def schema_of_def failure_at_def fun_eq_iff split: option.splits)

lemma set_schema_fields [simp]:
  "rp_slots (set_schema i m c s st) = rp_slots st"
  "rp_unattributed (set_schema i m c s st) = rp_unattributed st"
  "schema_of (set_schema i m c s st) j = (if i = j then Some s else schema_of st j)"
  "failure_at (set_schema i m c s st) j = failure_at st j"
  by (auto simp: set_schema_def schema_of_def failure_at_def slot_schema_of_def split: option.splits)

lemma reads_fields [simp]:
  "rp_slots (record_reads m ts st) = rp_slots st"
  "rp_unattributed (record_reads m ts st) = rp_unattributed st"
  "schema_of (record_reads m ts st) = schema_of st"
  "failure_at (record_reads m ts st) = failure_at st"
  "rp_trails (record_reads m ts st) = rp_trails st"
  by (simp_all add: record_reads_def schema_of_def failure_at_def fun_eq_iff)

lemma replay_frame_trans:
  "replay_frame a b \<Longrightarrow> replay_frame b c \<Longrightarrow> replay_frame a c"
  unfolding replay_frame_def by (intro conjI allI impI) metis+

interpretation frame: replay_relation replay_frame
proof
  show "replay_frame st st'' " if "replay_frame st st'" "replay_frame st' st''" for st st' st''
    using that by (rule replay_frame_trans)
qed (auto simp: replay_frame_def failure_taint)

lemma replay_frameD:
  assumes "replay_frame st st'"
  shows "rp_slots st' = rp_slots st" and "rp_unattributed st' = rp_unattributed st"
    and "failure_at st i \<noteq> None \<Longrightarrow> failure_at st' i = failure_at st i"
    and "schema_of st i \<noteq> None \<Longrightarrow> schema_of st' i \<noteq> None"
    and "schema_of st' i \<noteq> None \<Longrightarrow> schema_of st i \<noteq> None \<or> i < length (ts_slots (rp_slots st))"
  using assms unfolding replay_frame_def by blast+

subsection \<open>Which steps throw\<close>

lemma rs_seq_Inr:
  "fst (rs_seq x y st) = Inr z \<Longrightarrow>
     fst (x st) = Inr () \<and> fst (y (snd (x st))) = Inr z \<and>
     snd (rs_seq x y st) = snd (y (snd (x st)))"
  by (auto simp: rs_seq_def rs_bind_def split_beta split: sum.splits)

lemma rs_bind_Inr:
  "fst (rs_bind x f st) = Inr z \<Longrightarrow>
     \<exists>y. fst (x st) = Inr y \<and> fst (f y (snd (x st))) = Inr z \<and>
       snd (rs_bind x f st) = snd (f y (snd (x st)))"
  by (auto simp: rs_bind_def split_beta split: sum.splits)

lemma existing_schema_result:
  "fst (existing_schema i t st) = Inr s \<longleftrightarrow> schema_of st i = Some s"
  by (simp add: existing_schema_def split: option.splits)

text \<open>Validation never writes a schema.\<close>

lemma validate_schema_same: "rp_schemas (snd (validate_schema tk m s st)) = rp_schemas st"
  by (auto simp: validate_schema_def ensure_referenced_tables_exist_def rs_defs record_reads_def
      split: list.splits sum.splits)

lemma validate_patches_same: "rp_schemas (snd (validate_patches tk m ps st)) = rp_schemas st"
proof -
  have "rp_schemas (snd (validate_schemas tk m ss st)) = rp_schemas st" for ss st
  proof (induction ss arbitrary: st)
    case (Cons s ss)
    have "rp_schemas (snd (rs_seq x y st)) = rp_schemas (snd (x st)) \<or>
        rp_schemas (snd (rs_seq x y st)) = rp_schemas (snd (y (snd (x st))))" for x and y :: "unit replay_step"
      by (auto simp: rs_seq_def rs_bind_def split_beta split: sum.splits)
    then show ?case by (metis Cons validate_schema_same validate_schemas.simps(2))
  qed (simp add: rs_defs)
  then show ?thesis
    by (auto simp: validate_patches_def rs_seq_def rs_bind_def split_beta split: sum.splits)
qed

lemma schema_of_cong: "rp_schemas st = rp_schemas st' \<Longrightarrow> schema_of st = schema_of st'"
  by (simp add: schema_of_def fun_eq_iff)

lemma apply_step_without_schema:
  assumes "schema_of st (step_slot step) = None" "change_type_of m \<noteq> ChangeInit"
  shows "\<exists>e. fst (apply_step tk m step st) = Inl e"
proof (rule ccontr)
  assume "\<nexists>e. fst (apply_step tk m step st) = Inl e"
  then obtain u where u: "fst (apply_step tk m step st) = Inr u"
    by (cases "fst (apply_step tk m step st)") auto
  show False
  proof (cases m)
    case (UpdateMigration r i t h ps)
    let ?st = "snd (validate_patches tk m ps st)"
    from u UpdateMigration obtain s where "fst (existing_schema (step_slot step) t ?st) = Inr s"
      by (auto simp: update_table_def dest!: rs_seq_Inr rs_bind_Inr)
    moreover have "schema_of ?st (step_slot step) = None"
      using assms(1) schema_of_cong [OF validate_patches_same] by metis
    ultimately show False by (simp add: existing_schema_result)
  next
    case (RenameMigration r i t n)
    with u assms(1) show False
      by (fastforce simp: existing_schema_result rename_table_def dest!: rs_bind_Inr)
  next
    case (RemoveMigration r i t)
    with u assms(1) show False
      by (fastforce simp: existing_schema_result remove_table_def dest!: rs_bind_Inr)
  qed (use assms(2) in simp)
qed

lemma create_table_sets_schema:
  assumes "fst (create_table tk m schema step st) = Inr u"
  shows "schema_of (snd (create_table tk m schema step st)) (step_slot step) \<noteq> None"
proof -
  from assms obtain st' where
    "snd (create_table tk m schema step st) =
       snd (taint_if_dependent tk (mig_table m) (step_slot step) m [schema]
              (set_schema (step_slot step) m OwnStep schema st'))"
    unfolding create_table_def by (auto dest!: rs_seq_Inr)
  then show ?thesis
    using replay_frameD(4) [OF frame.R_taint_if_dependent,
        of "set_schema (step_slot step) m OwnStep schema st'" "step_slot step"]
    by simp
qed

subsection \<open>Steps of the slots, seen from a replay\<close>

lemma follow_step_slot:
  assumes "slots_inv st"
  shows "step_slot (fst (follow m st)) < length (ts_slots (snd (follow m st)))"
    and "length (ts_slots st) \<le> length (ts_slots (snd (follow m st)))"
proof -
  have app: "length (ts_slots st) \<le> length (ts_slots (snd (append_to_slot m' st)))" for m'
    by (auto simp: append_to_slot_def open_broken_slot_def new_slot_def split: option.splits)
  have occ: "length (ts_slots (snd (occupy i t m' st'))) = length (ts_slots st')" for i t m' st'
    by (auto simp: occupy_def Let_def split: option.splits)
  show "step_slot (fst (follow m st)) < length (ts_slots (snd (follow m st)))"
    using slots_inv_append(2) [OF assms, of m]
    by (cases m) (simp_all add: open_slot_def move_slot_def close_slot_def new_slot_def split_beta occ)
  show "length (ts_slots st) \<le> length (ts_slots (snd (follow m st)))"
    using app by (cases m)
      (simp_all add: open_slot_def move_slot_def close_slot_def new_slot_def split_beta occ)
qed

lemma follow_attributable:
  assumes "slots_inv st"
  shows "step_attributable (fst (follow m st)) \<longleftrightarrow>
      change_type_of m = ChangeInit \<or> mig_table m \<in> live_ids st"
    and "\<not> step_attributable (fst (follow m st)) \<Longrightarrow>
      step_slot (fst (follow m st)) = length (ts_slots st)"
proof -
  show "step_attributable (fst (follow m st)) \<longleftrightarrow>
      change_type_of m = ChangeInit \<or> mig_table m \<in> live_ids st"
    using live_append(3) [OF assms, of m]
    by (cases m) (simp_all add: open_slot_def move_slot_def close_slot_def new_slot_def split_beta)
  have "\<not> step_attributable (fst (append_to_slot m' st)) \<Longrightarrow>
      step_slot (fst (append_to_slot m' st)) = length (ts_slots st)" for m'
    by (auto simp: append_to_slot_def open_broken_slot_def new_slot_def split: option.splits)
  then show "\<not> step_attributable (fst (follow m st)) \<Longrightarrow>
      step_slot (fst (follow m st)) = length (ts_slots st)"
    by (cases m) (simp_all add: open_slot_def move_slot_def close_slot_def new_slot_def split_beta)
qed

lemma broken_vacate: "slot_brokenBy (ts_slots (vacate d st) ! i) = slot_brokenBy (ts_slots st ! i)"
  by (cases "d < length (ts_slots st)")
    (auto simp: nth_vacate, auto simp: vacate_def modify_slot_def list_update_beyond split: option.splits)

lemma broken_place:
  "j < length (ts_slots st) \<Longrightarrow>
     slot_brokenBy (ts_slots (place j t st) ! i) = slot_brokenBy (ts_slots st ! i)"
  by (simp add: nth_place)

lemma broken_break:
  "j < length (ts_slots st) \<Longrightarrow> slot_brokenBy (ts_slots (break_lineage j m st) ! i) = None \<Longrightarrow>
     slot_brokenBy (ts_slots st ! i) = None"
  by (auto simp: break_lineage_def nth_modify split: if_splits)

lemma broken_occupy:
  assumes "slots_inv st" "j < length (ts_slots st)"
    "slot_brokenBy (ts_slots (snd (occupy j t m st)) ! i) = None"
  shows "slot_brokenBy (ts_slots st ! i) = None"
proof (cases "map_of (ts_current st) t")
  case (Some d)
  then have "d < length (ts_slots st)" using slots_inv_get [OF assms(1)] by simp
  with Some assms(2,3) show ?thesis
    by (auto simp: occupy_def Let_def broken_place broken_vacate dest!: broken_break [rotated])
qed (use assms in \<open>simp add: occupy_def Let_def broken_place broken_vacate\<close>)

lemma follow_broken:
  assumes "slots_inv st" "slot_brokenBy (ts_slots (snd (follow m st)) ! i) = None"
    "i < length (ts_slots (snd (follow m st)))"
  shows "(i < length (ts_slots st) \<and> slot_brokenBy (ts_slots st ! i) = None) \<or>
    (change_type_of m = ChangeInit \<and> i = step_slot (fst (follow m st)))"
proof -
  have app: "i < length (ts_slots st) \<and> slot_brokenBy (ts_slots st ! i) = None"
    if "slot_brokenBy (ts_slots (snd (append_to_slot m st)) ! i) = None"
      "i < length (ts_slots (snd (append_to_slot m st)))"
  proof (cases "map_of (ts_current st) (mig_table m)")
    case None
    with that show ?thesis
      by (cases "i = length (ts_slots st)")
        (auto simp: append_to_slot_def open_broken_slot_def new_slot_def nth_place nth_append)
  next
    case (Some d)
    then have "d < length (ts_slots st)" using slots_inv_get [OF assms(1)] by simp
    with Some that show ?thesis by (auto simp: append_to_slot_def nth_modify split: if_splits)
  qed
  have len: "length (ts_slots (snd (occupy j t m' st'))) = length (ts_slots st')" for j t m' st'
    by (auto simp: occupy_def Let_def split: option.splits)
  show ?thesis
  proof (cases m)
    case (InitMigration r k t h s)
    let ?st = "st\<lparr>ts_slots := ts_slots st @ [empty_slot\<lparr>slot_migrations := [m]\<rparr>]\<rparr>"
    have inv: "slots_inv ?st" by (rule slots_inv_new [OF assms(1)]) (simp add: empty_slot_def)
    show ?thesis
      using InitMigration assms(2,3) broken_occupy [OF inv, of "length (ts_slots st)" t m i]
      by (cases "i = length (ts_slots st)")
        (auto simp: open_slot_def new_slot_def split_beta len nth_append)
  next
    case (UpdateMigration r k t h ps)
    then show ?thesis using app assms(2,3) by simp
  next
    case (RenameMigration r k t n)
    then show ?thesis
      using app assms(2,3) broken_occupy [OF slots_inv_append [OF assms(1), of m]]
      by (auto simp: move_slot_def split_beta len)
  next
    case (RemoveMigration r k t)
    then show ?thesis
      using app assms(2,3) by (auto simp: close_slot_def split_beta broken_vacate)
  qed
qed

subsection \<open>The invariant of a replay\<close>

text \<open>
  Schemas belong to slots there are, and a slot whose lineage is whole either failed or has a
  schema.
\<close>

definition replay_inv :: "replay \<Rightarrow> bool" where
  "replay_inv st \<longleftrightarrow>
     slots_inv (rp_slots st) \<and>
     (\<forall>i. schema_of st i \<noteq> None \<longrightarrow> i < length (ts_slots (rp_slots st))) \<and>
     (\<forall>i < length (ts_slots (rp_slots st)).
        slot_brokenBy (ts_slots (rp_slots st) ! i) = None \<longrightarrow> failure_at st i = None \<longrightarrow>
        schema_of st i \<noteq> None)"

lemma record_failure_fields [simp]:
  "rp_slots (record_failure m step f st) = rp_slots st"
  "schema_of (record_failure m step f st) i = schema_of st i"
  "failure_at (record_failure m step f st) i =
     (if step_slot step = i \<and> failure_at st i = None then Some f else failure_at st i)"
  by (auto simp: record_failure_def Let_def failure_taint,
      auto simp: schema_of_def failure_at_def taint_def Let_def slot_schema_of_def split: option.splits)

lemma fields_of_slots_update [simp]:
  "schema_of (st\<lparr>rp_slots := ts\<rparr>) = schema_of st" "failure_at (st\<lparr>rp_slots := ts\<rparr>) = failure_at st"
  by (simp_all add: schema_of_def failure_at_def fun_eq_iff)

text \<open>What one migration does to a replay, in one statement for the proofs that follow.\<close>

lemma apply_migration_facts:
  fixes tk :: "'st toolkit" and m :: migration and st :: replay
  assumes "slots_inv (rp_slots st)"
  defines "st' \<equiv> apply_migration tk m st" and "step \<equiv> fst (follow m (rp_slots st))"
  shows "rp_slots st' = snd (follow m (rp_slots st))"
    and "failure_at st i \<noteq> None \<Longrightarrow> failure_at st' i = failure_at st i"
    and "schema_of st i \<noteq> None \<Longrightarrow> schema_of st' i \<noteq> None"
    and "schema_of st' i \<noteq> None \<Longrightarrow>
      schema_of st i \<noteq> None \<or> i < length (ts_slots (snd (follow m (rp_slots st))))"
    and "change_type_of m = ChangeInit \<Longrightarrow> failure_at st' (step_slot step) = None \<Longrightarrow>
      schema_of st' (step_slot step) \<noteq> None"
    and "step_attributable step \<Longrightarrow> rp_unattributed st' = rp_unattributed st"
    and "\<not> step_attributable step \<Longrightarrow> change_type_of m \<noteq> ChangeInit \<Longrightarrow>
      schema_of st (step_slot step) = None \<Longrightarrow>
      \<exists>e. rp_unattributed st' = rp_unattributed st @
        [\<lparr>uf_tableId = mig_table m, uf_failure = failure_of m e\<rparr>]"
proof -
  let ?st1 = "st\<lparr>rp_slots := snd (follow m (rp_slots st))\<rparr>"
  let ?out = "apply_step tk m step ?st1"
  have fr: "replay_frame ?st1 (snd ?out)"
    by (rule frame.R_apply_step)
      (simp_all add: slots_inv_follow assms(1) follow_step_slot step_def)
  have eq: "st' = (case fst ?out of Inl e \<Rightarrow> record_failure m step (failure_of m e) (snd ?out)
      | Inr _ \<Rightarrow> snd ?out)"
    unfolding st'_def apply_migration_def step_def by (simp add: split_beta split: sum.split)
  note D = replay_frameD [OF fr]
  show "rp_slots st' = snd (follow m (rp_slots st))"
    using D(1) by (auto simp: eq split: sum.splits)
  show "failure_at st i \<noteq> None \<Longrightarrow> failure_at st' i = failure_at st i"
    using D(3) [of i] by (auto simp: eq split: sum.splits)
  show "schema_of st i \<noteq> None \<Longrightarrow> schema_of st' i \<noteq> None"
    using D(4) [of i] by (auto simp: eq split: sum.splits)
  show "schema_of st' i \<noteq> None \<Longrightarrow>
      schema_of st i \<noteq> None \<or> i < length (ts_slots (snd (follow m (rp_slots st))))"
    using D(5) [of i] by (auto simp: eq split: sum.splits)
  show "schema_of st' (step_slot step) \<noteq> None"
    if "change_type_of m = ChangeInit" "failure_at st' (step_slot step) = None"
  proof (cases "fst ?out")
    case (Inl e)
    with that(2) show ?thesis by (auto simp: eq split: if_splits)
  next
    case (Inr u)
    then have out: "st' = snd ?out" by (simp add: eq)
    from that(1) obtain r k t h s where "m = InitMigration r k t h s" by (cases m) auto
    then show ?thesis unfolding out using Inr create_table_sets_schema by fastforce
  qed
  show "step_attributable step \<Longrightarrow> rp_unattributed st' = rp_unattributed st"
    using D(2) by (auto simp: eq record_failure_def Let_def split: sum.splits)
  show "\<exists>e. rp_unattributed st' = rp_unattributed st @
        [\<lparr>uf_tableId = mig_table m, uf_failure = failure_of m e\<rparr>]"
    if att: "\<not> step_attributable step" and chg: "change_type_of m \<noteq> ChangeInit"
      and sch: "schema_of st (step_slot step) = None"
  proof -
    have "schema_of ?st1 (step_slot step) = None" using sch by simp
    then obtain e where "fst ?out = Inl e" using apply_step_without_schema chg by blast
    then show ?thesis using D(2) att by (auto simp: eq record_failure_def Let_def)
  qed
qed

lemma replay_inv_apply:
  assumes "replay_inv st"
  shows "replay_inv (apply_migration tk m st)"
proof -
  have inv: "slots_inv (rp_slots st)" using assms by (simp add: replay_inv_def)
  note F = apply_migration_facts [OF inv, where tk = tk and m = m]
  let ?st' = "apply_migration tk m st" and ?ts' = "snd (follow m (rp_slots st))"
  have range: "i < length (ts_slots ?ts')" if "schema_of ?st' i \<noteq> None" for i
    using F(4) [OF that] assms follow_step_slot(2) [OF inv, of m]
    by (auto simp: replay_inv_def dest: less_le_trans)
  have whole: "schema_of ?st' i \<noteq> None"
    if "i < length (ts_slots ?ts')" "slot_brokenBy (ts_slots ?ts' ! i) = None"
      "failure_at ?st' i = None" for i
    using follow_broken [OF inv that(2,1)]
  proof
    assume old: "i < length (ts_slots (rp_slots st)) \<and> slot_brokenBy (ts_slots (rp_slots st) ! i) = None"
    have "failure_at st i = None" using F(2) [of i] that(3) by (cases "failure_at st i") auto
    with old assms have "schema_of st i \<noteq> None" by (auto simp: replay_inv_def)
    then show ?thesis by (rule F(3))
  next
    assume new: "change_type_of m = ChangeInit \<and> i = step_slot (fst (follow m (rp_slots st)))"
    with that(3) show ?thesis using F(5) by blast
  qed
  show ?thesis
    unfolding replay_inv_def F(1) using slots_inv_follow [OF inv] range whole by blast
qed

interpretation replay_loop: step_loop "apply_migration tk" replay_inv
  for tk :: "'st toolkit"
  by unfold_locales (rule replay_inv_apply)

lemma start_current_map:
  "jmap_ok schemas \<Longrightarrow> slots_inv (start_slots (jkeys schemas))"
  by (rule slots_inv_start) (simp add: jmap_ok_def)

lemma jmap_inverse:
  assumes "slots_inv ts"
  shows "map_of (map (\<lambda>(t, i). (i, g t)) (ts_current ts)) i =
    (if i < length (ts_slots ts) then map_option g (slot_currentTableId (ts_slots ts ! i)) else None)"
proof (cases "\<exists>t. map_of (ts_current ts) t = Some i")
  case True
  then obtain t where t: "map_of (ts_current ts) t = Some i" by blast
  have uniq: "u = t" if "(u, i) \<in> set (ts_current ts)" for u
  proof -
    have "map_of (ts_current ts) u = Some i"
      using that jmap_mem_iff [OF slots_inv_ok [OF assms]] by simp
    with t show ?thesis using slots_inv_get [OF assms] by auto
  qed
  have "map_of (map (\<lambda>(t, i). (i, g t)) xs) i = Some (g t)"
    if "(t, i) \<in> set xs" "\<forall>u. (u, i) \<in> set xs \<longrightarrow> u = t" for xs
    using that
  proof (induction xs)
    case (Cons x xs)
    show ?case
    proof (cases "snd x = i")
      case True
      with Cons.prems(2) have "x = (t, i)" by (cases x) simp
      then show ?thesis by simp
    next
      case False
      then have "x \<noteq> (t, i)" by fastforce
      with Cons.prems(1) have "(t, i) \<in> set xs" by simp
      moreover have "\<forall>u. (u, i) \<in> set xs \<longrightarrow> u = t"
        using Cons.prems(2) by (meson list.set_intros(2))
      ultimately have "map_of (map (\<lambda>(t, i). (i, g t)) xs) i = Some (g t)" by (rule Cons.IH)
      with False show ?thesis by (cases x) simp
    qed
  qed simp
  from this [OF map_of_SomeD [OF t]] uniq
  have "map_of (map (\<lambda>(t, i). (i, g t)) (ts_current ts)) i = Some (g t)" by blast
  with t show ?thesis using slots_inv_get [OF assms, of t i] by simp
next
  case False
  then have "(t, i) \<notin> set (ts_current ts)" for t
    using jmap_mem_iff [OF slots_inv_ok [OF assms]] by metis
  then have "map_of (map (\<lambda>(t, i). (i, g t)) (ts_current ts)) i = None"
    by (auto simp: map_of_eq_None_iff)
  with False show ?thesis
    using slots_inv_get [OF assms] by (cases "slot_currentTableId (ts_slots ts ! i)") auto
qed

lemma start_schema_of:
  assumes "jmap_ok schemas"
  shows "schema_of (start_replay schemas tr) i =
    (if i < length (ts_slots (start_slots (jkeys schemas)))
     then Option.bind (slot_currentTableId (ts_slots (start_slots (jkeys schemas)) ! i)) (map_of schemas)
     else None)"
  using jmap_inverse [OF start_current_map [OF assms],
      of "\<lambda>t. \<lparr>sc_schema = map_of schemas t, sc_failure = None\<rparr>" i]
  by (simp add: start_replay_def Let_def schema_of_def split: option.splits)

lemma start_slot_facts:
  "map slot_startingTableId (ts_slots (start_slots ts)) = map Some ts \<and>
   map slot_currentTableId (ts_slots (start_slots ts)) = map Some ts"
proof -
  have "map slot_startingTableId (ts_slots (fold start_slot ts st)) =
        map slot_startingTableId (ts_slots st) @ map Some ts \<and>
      map slot_currentTableId (ts_slots (fold start_slot ts st)) =
        map slot_currentTableId (ts_slots st) @ map Some ts" for st
    by (induction ts arbitrary: st)
      (simp_all add: start_slot_def new_slot_def place_def modify_slot_def list_update_append)
  from this [of no_slots] show ?thesis by (simp add: start_slots_def no_slots_def)
qed

lemma replay_inv_start:
  assumes "jmap_ok schemas"
  shows "replay_inv (start_replay schemas tr)"
proof -
  let ?ts = "start_slots (jkeys schemas)"
  have sl: "rp_slots (start_replay schemas tr) = ?ts" by (simp add: start_replay_def Let_def)
  have cur: "\<exists>t. slot_currentTableId (ts_slots ?ts ! i) = Some t \<and> t \<in> set (jkeys schemas)"
    if "i < length (ts_slots ?ts)" for i
  proof -
    have len: "length (ts_slots ?ts) = length schemas"
      using start_slot_facts [of "jkeys schemas"] by (metis length_map)
    then have "slot_currentTableId (ts_slots ?ts ! i) = Some (jkeys schemas ! i)"
      using start_slot_facts [of "jkeys schemas"] that by (metis length_map nth_map)
    with that len show ?thesis by (metis length_map nth_mem)
  qed
  have "schema_of (start_replay schemas tr) i \<noteq> None" if "i < length (ts_slots ?ts)" for i
  proof -
    from cur [OF that] obtain t where t: "slot_currentTableId (ts_slots ?ts ! i) = Some t"
      "t \<in> fst ` set schemas" by auto
    then have "map_of schemas t \<noteq> None" by (simp add: map_of_eq_None_iff)
    with t(1) that show ?thesis by (simp add: start_schema_of [OF assms])
  qed
  moreover have "i < length (ts_slots ?ts)" if "schema_of (start_replay schemas tr) i \<noteq> None" for i
    using that by (simp add: start_schema_of [OF assms] split: if_splits)
  ultimately show ?thesis
    unfolding replay_inv_def sl using start_current_map [OF assms] by blast
qed

lemma replay_inv_result:
  "jmap_ok schemas \<Longrightarrow> replay_inv (apply_migrations tk ledger (start_replay schemas tr))"
  unfolding apply_migrations_def by (rule replay_loop.fold_inv) (rule replay_inv_start)

lemma replay_slots_trace:
  "slots_inv (rp_slots st) \<Longrightarrow>
     rp_slots (apply_migrations tk ledger st) = follow_all ledger (rp_slots st)"
proof (induction ledger arbitrary: st)
  case (Cons m ledger)
  then show ?case
    using apply_migration_facts(1) [OF Cons.prems, where tk = tk and m = m]
    by (simp add: apply_migrations_def slots_inv_follow)
qed (simp add: apply_migrations_def)

end
