(* ===== verification/Replay_Results.thy ===== *)
theory Replay_Results
  imports Ledger_Replay
begin

section \<open>What a replay reports\<close>

text \<open>
  The reports of a replay read together: which tables it covers, which migrations it could not
  attribute, how a recorded trail leads to a schema, and \<^verbatim>\<open>share/ledger-replay/slot-check.ts\<close>, the
  comparison of a replayed slot with a schema. The toolkit's \<open>deepEqual\<close>, which
  \<open>schemasEqual\<close> calls, is the parameter \<open>equal\<close>.
\<close>

subsection \<open>Checking a slot against a schema\<close>

datatype unledgered_reason = NoLineage | BrokenLineage string

datatype slot_check =
  Unledgered unledgered_reason
| Unreplayable replayed_slot replay_failure
| Mismatch replayed_slot
| Reproduces replayed_slot

definition replays_to :: "(json \<Rightarrow> json \<Rightarrow> bool) \<Rightarrow> replayed_slot \<Rightarrow> json option \<Rightarrow> bool" where
  "replays_to equal s schema =
     (case (rsl_schema s, schema) of
        (Some replayed, Some given) \<Rightarrow> equal replayed given
      | _ \<Rightarrow> False)"

definition check_slot ::
  "(json \<Rightarrow> json \<Rightarrow> bool) \<Rightarrow> replayed_slot option \<Rightarrow> json option \<Rightarrow> slot_check" where
  "check_slot equal os schema =
     (case os of
        None \<Rightarrow> Unledgered NoLineage
      | Some s \<Rightarrow>
          (case slot_brokenBy (rsl_slot s) of
             Some m \<Rightarrow> Unledgered (BrokenLineage (mig_id m))
           | None \<Rightarrow>
               (case rsl_failure s of
                  Some failure \<Rightarrow> Unreplayable s failure
                | None \<Rightarrow>
                    if \<not> replays_to equal s schema then Mismatch s else Reproduces s)))"

definition check_table_slot ::
  "(json \<Rightarrow> json \<Rightarrow> bool) \<Rightarrow> replayed_ledger \<Rightarrow> string \<Rightarrow> json option \<Rightarrow> slot_check" where
  "check_table_slot equal replay tableId schema =
     check_slot equal (map_of (rl_currentSlots replay) tableId) schema"

definition lineage_id_of :: "slot \<Rightarrow> string outcome" where
  "lineage_id_of s =
     (case slot_migrations s of
        [] \<Rightarrow> Inl ''A ledger slot was opened by no migration''
      | opening # _ \<Rightarrow> Inr (mig_id opening))"

subsection \<open>The maps of a result\<close>

text \<open>The three maps of a result are built the same way: a slot that names a key sets it.\<close>

lemma result_maps_keyed:
  "current_slots_of ss =
     keyed_by (\<lambda>s. map_option (\<lambda>t. (t, s)) (slot_currentTableId (rsl_slot s))) ss"
  "ledgered_schemas_of ss = keyed_by (\<lambda>s. case ledgered_table_id_of (rsl_slot s) of
       None \<Rightarrow> None
     | Some t \<Rightarrow> if rsl_failure s \<noteq> None then None else map_option (\<lambda>x. (t, x)) (rsl_schema s)) ss"
  "ledgered_failures_of ss = keyed_by (\<lambda>s. case ledgered_table_id_of (rsl_slot s) of
       None \<Rightarrow> None | Some t \<Rightarrow> map_option (\<lambda>x. (t, x)) (rsl_failure s)) ss"
  unfolding current_slots_of_def ledgered_schemas_of_def ledgered_failures_of_def keyed_by_def
  by (rule arg_cong [where f = "\<lambda>f. fold f ss []"], auto simp: fun_eq_iff split: option.splits)+

subsection \<open>The slots of a result\<close>

lemma replay_ledger_slots:
  assumes "jmap_ok schemas"
  shows "map rsl_slot (rl_slots (replay_ledger tk ledger schemas tr)) =
    trace_table_slots ledger (jkeys schemas)"
proof -
  have "slots_inv (rp_slots (start_replay schemas tr))"
    using replay_inv_start [OF assms] by (simp add: replay_inv_def)
  from replay_slots_trace [OF this, of tk ledger] show ?thesis
    by (simp add: replay_ledger_def replay_result_def trace_table_slots_def replayed_slot_at_def
        start_replay_def Let_def o_def map_nth)
qed

text \<open>No two slots hold the same table id.\<close>

lemma result_slot_unique:
  assumes "jmap_ok schemas"
    "s \<in> set (rl_slots (replay_ledger tk ledger schemas tr))"
    "s' \<in> set (rl_slots (replay_ledger tk ledger schemas tr))"
    "slot_currentTableId (rsl_slot s) = Some t" "slot_currentTableId (rsl_slot s') = Some t"
  shows "s = s'"
proof -
  let ?st = "apply_migrations tk ledger (start_replay schemas tr)"
  have inv: "slots_inv (rp_slots ?st)"
    using replay_inv_result [OF assms(1), of tk ledger tr] by (simp add: replay_inv_def)
  have "\<exists>i. s = replayed_slot_at ?st i \<and> map_of (ts_current (rp_slots ?st)) t = Some i"
    "\<exists>i. s' = replayed_slot_at ?st i \<and> map_of (ts_current (rp_slots ?st)) t = Some i"
    using assms(2-) by (auto simp: replay_ledger_def replay_result_def Let_def slots_inv_get [OF inv]
        replayed_slot_at_def)
  then show ?thesis by auto
qed

lemma result_slot_whole:
  assumes "jmap_ok schemas" "s \<in> set (rl_slots (replay_ledger tk ledger schemas tr))"
    "slot_brokenBy (rsl_slot s) = None" "rsl_failure s = None"
  shows "rsl_schema s \<noteq> None"
  using assms replay_inv_result [OF assms(1), of tk ledger tr]
  by (auto simp: replay_ledger_def replay_result_def Let_def replay_inv_def replayed_slot_at_def)

subsection \<open>Migrations no slot owns\<close>

text \<open>The migrations of tables that are not live, by the table ids a ledger leaves live.\<close>

fun unattributable_of :: "migration list \<Rightarrow> string set \<Rightarrow> migration list" where
  "unattributable_of [] live = []"
| "unattributable_of (m # ms) live =
     (if change_type_of m \<noteq> ChangeInit \<and> mig_table m \<notin> live then [m] else []) @
     unattributable_of ms (live_after m live)"

definition unattributed_key :: "unattributed_failure \<Rightarrow> string \<times> string \<times> change_type" where
  "unattributed_key u = (uf_tableId u, rf_migrationId (uf_failure u), rf_step (uf_failure u))"

definition migration_key :: "migration \<Rightarrow> string \<times> string \<times> change_type" where
  "migration_key m = (mig_table m, mig_id m, change_type_of m)"

lemma unattributed_step:
  assumes "replay_inv st"
  shows "map unattributed_key (rp_unattributed (apply_migration tk m st)) =
    map unattributed_key (rp_unattributed st) @
    map migration_key (unattributable_of [m] (live_ids (rp_slots st)))"
proof -
  have inv: "slots_inv (rp_slots st)" using assms by (simp add: replay_inv_def)
  note F = apply_migration_facts [OF inv, where tk = tk and m = m]
  show ?thesis
  proof (cases "step_attributable (fst (follow m (rp_slots st)))")
    case True
    with F(6) follow_attributable(1) [OF inv, of m] show ?thesis by auto
  next
    case False
    have "schema_of st (length (ts_slots (rp_slots st))) = None"
      using assms by (force simp: replay_inv_def)
    then have "schema_of st (step_slot (fst (follow m (rp_slots st)))) = None"
      using follow_attributable(2) [OF inv False] by simp
    moreover have out: "change_type_of m \<noteq> ChangeInit" "mig_table m \<notin> live_ids (rp_slots st)"
      using False follow_attributable(1) [OF inv, of m] by simp_all
    ultimately obtain e where "rp_unattributed (apply_migration tk m st) = rp_unattributed st @
        [\<lparr>uf_tableId = mig_table m, uf_failure = failure_of m e\<rparr>]"
      using F(7) False by blast
    with out show ?thesis by (simp add: unattributed_key_def migration_key_def failure_of_def)
  qed
qed

lemma unattributed_all:
  "replay_inv st \<Longrightarrow>
     map unattributed_key (rp_unattributed (apply_migrations tk ledger st)) =
     map unattributed_key (rp_unattributed st) @
     map migration_key (unattributable_of ledger (live_ids (rp_slots st)))"
proof (induction ledger arbitrary: st)
  case (Cons m ledger)
  have inv: "slots_inv (rp_slots st)" using Cons.prems by (simp add: replay_inv_def)
  have "live_ids (rp_slots (apply_migration tk m st)) = live_after m (live_ids (rp_slots st))"
    by (simp add: apply_migration_facts(1) [OF inv] live_follow [OF inv])
  then show ?case
    using Cons.IH [OF replay_inv_apply [OF Cons.prems], of tk m]
    by (simp add: apply_migrations_def unattributed_step [OF Cons.prems])
qed (simp add: apply_migrations_def)

subsection \<open>Trails\<close>

text \<open>A trail leads to the schema of its slot: its last step is the schema, or nothing changed it.\<close>

definition trail_schema :: "schema_trail_step list \<Rightarrow> json option \<Rightarrow> json option" where
  "trail_schema trail start = (if trail = [] then start else Some (tr_schema (last trail)))"

definition trails_inv :: "(nat \<Rightarrow> json option) \<Rightarrow> replay \<Rightarrow> bool" where
  "trails_inv start st \<longleftrightarrow>
     (\<forall>i. \<exists>trail. trail_of st i = Some trail \<and> schema_of st i = trail_schema trail (start i))"

lemma trails_inv_cong:
  "rp_trails st' = rp_trails st \<Longrightarrow> schema_of st' = schema_of st \<Longrightarrow>
     trails_inv start st' = trails_inv start st"
  by (simp add: trails_inv_def trail_of_def)

lemma record_failure_trails [simp]: "rp_trails (record_failure m step f st) = rp_trails st"
  by (simp add: record_failure_def Let_def)

lemma trails_inv_same [simp]:
  "trails_inv start (taint i f st) = trails_inv start st"
  "trails_inv start (record_reads m ts st) = trails_inv start st"
  "trails_inv start (record_failure m step f st) = trails_inv start st"
  "trails_inv start (st\<lparr>rp_slots := ts'\<rparr>) = trails_inv start st"
  by (rule trails_inv_cong; simp add: fun_eq_iff)+

lemma trail_of_set_schema:
  "trail_of (set_schema i m c s st) j =
     (if i = j then map_option (\<lambda>t. t @ [\<lparr>tr_migrationId = mig_id m, tr_cause = c, tr_schema = s\<rparr>])
        (trail_of st j) else trail_of st j)"
  by (auto simp: trail_of_def set_schema_def record_trail_step_def split: option.splits)

lemma trails_inv_set_schema: "trails_inv start st \<Longrightarrow> trails_inv start (set_schema i m c s st)"
  unfolding trails_inv_def
proof
  fix j
  assume "\<forall>i. \<exists>trail. trail_of st i = Some trail \<and> schema_of st i = trail_schema trail (start i)"
  then obtain trail where "trail_of st j = Some trail" "schema_of st j = trail_schema trail (start j)"
    by blast
  then show "\<exists>trail. trail_of (set_schema i m c s st) j = Some trail \<and>
      schema_of (set_schema i m c s st) j = trail_schema trail (start j)"
    by (simp add: trail_of_set_schema trail_schema_def)
qed

interpretation trails: replay_relation
  "\<lambda>st st'. rp_slots st' = rp_slots st \<and> (\<forall>start. trails_inv start st \<longrightarrow> trails_inv start st')"
  by unfold_locales (simp_all add: trails_inv_set_schema)

lemma trails_inv_apply:
  assumes "slots_inv (rp_slots st)" "trails_inv start st"
  shows "trails_inv start (apply_migration tk m st)"
proof -
  let ?step = "fst (follow m (rp_slots st))"
  let ?st1 = "st\<lparr>rp_slots := snd (follow m (rp_slots st))\<rparr>"
  have "trails_inv start (snd (apply_step tk m ?step ?st1))"
    using trails.R_apply_step [of ?st1 ?step tk m] assms(2)
    by (simp add: slots_inv_follow assms(1) follow_step_slot)
  then show ?thesis
    unfolding apply_migration_def by (simp add: split_beta split: sum.split)
qed

lemma trails_inv_all:
  "slots_inv (rp_slots st) \<Longrightarrow> trails_inv start st \<Longrightarrow>
     trails_inv start (apply_migrations tk ledger st)"
proof (induction ledger arbitrary: st)
  case (Cons m ledger)
  have "slots_inv (rp_slots (apply_migration tk m st))"
    using apply_migration_facts(1) [OF Cons.prems(1)] slots_inv_follow [OF Cons.prems(1)] by metis
  from Cons.IH [OF this trails_inv_apply [OF Cons.prems]] show ?case
    by (simp add: apply_migrations_def)
qed (simp add: apply_migrations_def)

subsection \<open>Where a slot started\<close>

abbreviation starting_list :: "table_slots \<Rightarrow> string option list" where
  "starting_list st \<equiv> map slot_startingTableId (ts_slots st)"

lemma starting_list_ops [simp]:
  "starting_list (place i t st) = starting_list st"
  "starting_list (vacate i st) = starting_list st"
  "starting_list (break_lineage i m st) = starting_list st"
  "starting_list (snd (occupy i t m st)) = starting_list st"
  by (auto simp: place_def vacate_def break_lineage_def occupy_def Let_def
      modify_field [of slot_startingTableId] split: option.splits)

lemma starting_list_append:
  "\<exists>n. starting_list (snd (append_to_slot m st)) = starting_list st @ replicate n None"
proof (cases "map_of (ts_current st) (mig_table m)")
  case None
  then have "starting_list (snd (append_to_slot m st)) = starting_list st @ replicate 1 None"
    by (simp add: append_to_slot_def open_broken_slot_def new_slot_def empty_slot_def)
  then show ?thesis by blast
next
  case (Some i)
  then have "starting_list (snd (append_to_slot m st)) = starting_list st @ replicate 0 None"
    by (simp add: append_to_slot_def modify_field [of slot_startingTableId])
  then show ?thesis by blast
qed

lemma starting_list_follow:
  "\<exists>n. starting_list (snd (follow m st)) = starting_list st @ replicate n None"
proof (cases m)
  case (InitMigration r i t h s)
  then have "starting_list (snd (follow m st)) = starting_list st @ replicate 1 None"
    by (simp add: open_slot_def new_slot_def split_beta empty_slot_def)
  then show ?thesis by blast
qed (simp_all add: move_slot_def close_slot_def split_beta starting_list_append)

lemma starting_list_follow_all:
  "\<exists>n. starting_list (follow_all ledger st) = starting_list st @ replicate n None"
proof (induction ledger arbitrary: st)
  case (Cons m ledger)
  obtain n k where
    "starting_list (follow_all (m # ledger) st) =
       (starting_list st @ replicate n None) @ replicate k None"
    using Cons.IH starting_list_follow by (metis follow_all_simps(2))
  then show ?case by (metis append.assoc replicate_add)
qed (auto intro: exI [of _ 0])

lemma start_id_of_slot:
  assumes "jmap_ok schemas"
    "i < length (ts_slots (rp_slots (apply_migrations tk ledger (start_replay schemas tr))))"
    "s = replayed_slot_at (apply_migrations tk ledger (start_replay schemas tr)) i"
  shows "schema_of (start_replay schemas tr) i =
    Option.bind (slot_startingTableId (rsl_slot s)) (map_of schemas)"
proof -
  let ?slots = "start_slots (jkeys schemas)"
  have "rp_slots (apply_migrations tk ledger (start_replay schemas tr)) = follow_all ledger ?slots"
  proof -
    have "slots_inv (rp_slots (start_replay schemas tr))"
      using replay_inv_start [OF assms(1)] by (simp add: replay_inv_def)
    from replay_slots_trace [OF this, of tk ledger] show ?thesis
      by (simp add: start_replay_def Let_def)
  qed
  then obtain n where
    "map slot_startingTableId (ts_slots (rp_slots
       (apply_migrations tk ledger (start_replay schemas tr)))) =
     starting_list ?slots @ replicate n None"
    using starting_list_follow_all by metis
  then have "slot_startingTableId (rsl_slot s) =
      (if i < length schemas then Some (jkeys schemas ! i) else None)"
    using assms(2,3) start_slot_facts [of "jkeys schemas"]
    by (auto simp: replayed_slot_at_def nth_append list_eq_iff_nth_eq split: if_splits)
  moreover have "length (ts_slots ?slots) = length schemas"
    using start_slot_facts [of "jkeys schemas"] by (metis length_map)
  moreover have "slot_currentTableId (ts_slots ?slots ! i) = Some (jkeys schemas ! i)"
    if "i < length (ts_slots ?slots)"
    using start_slot_facts [of "jkeys schemas"] that by (metis length_map nth_map)
  ultimately show ?thesis by (simp add: start_schema_of [OF assms(1)])
qed

subsection \<open>Properties\<close>

text \<open>
  A ledger to try the properties on: \<open>posts\<close> reads \<open>tags\<close>, \<open>tags\<close> is renamed, an update names a
  table there is not, and another has no patches.
\<close>

definition replay_example :: "migration list" where
  "replay_example =
     [InitMigration 0 ''1'' ''posts'' ''h1'' (JObj [(''fk'', JStr ''tags'')]),
      RenameMigration 1 ''2'' ''tags'' ''labels'',
      UpdateMigration 2 ''3'' ''ghosts'' ''h2'' [],
      UpdateMigration 3 ''4'' ''labels'' ''h3'' []]"

definition replay_example_schemas :: "(string, json) jmap" where
  "replay_example_schemas = [(''tags'', JObj [])]"

lemma replay_example_ok: "jmap_ok replay_example_schemas"
  by (simp add: jmap_ok_def replay_example_schemas_def)

text \<open>Claim C20: replaying a ledger moves table ids exactly as tracing its slots does: the slots a replay
  reports are those of \<open>traceTableSlots\<close> from the starting tables, whatever the schemas are and
  whichever steps fail.\<close>

theorem replay_traces_table_slots:
  assumes "jmap_ok schemas"
  shows "map rsl_slot (rl_slots (replay_ledger tk ledger schemas recordTrail)) =
    trace_table_slots ledger (jkeys schemas)"
  by (rule replay_ledger_slots [OF assms])

theorem replay_traces_table_slots_witness:
  "jmap_ok replay_example_schemas \<and>
   map slot_currentTableId (trace_table_slots replay_example (jkeys replay_example_schemas)) =
     [Some ''labels'', Some ''posts'', Some ''ghosts''] \<and>
   map rsl_slot (rl_slots (replay_ledger root_toolkit replay_example replay_example_schemas False)) =
     trace_table_slots replay_example (jkeys replay_example_schemas)"
  using replay_traces_table_slots [OF replay_example_ok, of root_toolkit replay_example False]
    replay_example_ok by code_simp

text \<open>Claim C21: every table whose lineage is whole gets exactly one verdict: it is in \<open>schemas\<close> or in
  \<open>unreplayable\<close>, never in both, and no other table is in either.\<close>

theorem replay_judges_ledgered_tables:
  assumes "jmap_ok schemas"
  shows "set (jkeys (rl_schemas (replay_ledger tk ledger schemas recordTrail))) \<inter>
      set (jkeys (rl_unreplayable (replay_ledger tk ledger schemas recordTrail))) = {} \<and>
    set (jkeys (rl_schemas (replay_ledger tk ledger schemas recordTrail))) \<union>
      set (jkeys (rl_unreplayable (replay_ledger tk ledger schemas recordTrail))) =
      {t. is_ledgered (trace_table_slots ledger (jkeys schemas)) t}"
proof -
  let ?r = "replay_ledger tk ledger schemas recordTrail"
  have maps: "rl_schemas ?r = ledgered_schemas_of (rl_slots ?r)"
    "rl_unreplayable ?r = ledgered_failures_of (rl_slots ?r)"
    by (simp_all add: replay_ledger_def replay_result_def Let_def)
  have schemas: "set (jkeys (rl_schemas ?r)) =
      {t. \<exists>s \<in> set (rl_slots ?r). ledgered_table_id_of (rsl_slot s) = Some t \<and> rsl_failure s = None}"
  proof -
    have "(\<exists>v. (case ledgered_table_id_of (rsl_slot s) of None \<Rightarrow> None
        | Some t \<Rightarrow> if rsl_failure s \<noteq> None then None else map_option (\<lambda>x. (t, x)) (rsl_schema s)) =
        Some (t, v)) \<longleftrightarrow> ledgered_table_id_of (rsl_slot s) = Some t \<and> rsl_failure s = None"
      if "s \<in> set (rl_slots ?r)" for s t
      using result_slot_whole [OF assms that]
      by (cases "rsl_schema s") (auto simp: ledgered_table_id_of_def split: option.splits if_splits)
    then show ?thesis unfolding maps result_maps_keyed keyed_by_keys by blast
  qed
  have failures: "set (jkeys (rl_unreplayable ?r)) =
      {t. \<exists>s \<in> set (rl_slots ?r). ledgered_table_id_of (rsl_slot s) = Some t \<and> rsl_failure s \<noteq> None}"
  proof -
    have "(\<exists>v. (case ledgered_table_id_of (rsl_slot s) of None \<Rightarrow> None
        | Some t \<Rightarrow> map_option (\<lambda>x. (t, x)) (rsl_failure s)) = Some (t, v)) \<longleftrightarrow>
        ledgered_table_id_of (rsl_slot s) = Some t \<and> rsl_failure s \<noteq> None" for s t
      by (cases "rsl_failure s") (auto split: option.splits)
    then show ?thesis unfolding maps result_maps_keyed keyed_by_keys by blast
  qed
  have unique: "s = s'"
    if "s \<in> set (rl_slots ?r)" "s' \<in> set (rl_slots ?r)"
      "ledgered_table_id_of (rsl_slot s) = Some t" "ledgered_table_id_of (rsl_slot s') = Some t" for s s' t
    using result_slot_unique [OF assms that(1,2)] that(3,4)
    by (simp add: ledgered_table_id_of_def split: if_splits)
  have "is_ledgered (trace_table_slots ledger (jkeys schemas)) t \<longleftrightarrow>
      (\<exists>s \<in> set (rl_slots ?r). ledgered_table_id_of (rsl_slot s) = Some t)" for t
    by (simp add: is_ledgered_def flip: replay_ledger_slots [OF assms, of tk ledger recordTrail])
  then have "{t. is_ledgered (trace_table_slots ledger (jkeys schemas)) t} =
      {t. \<exists>s \<in> set (rl_slots ?r). ledgered_table_id_of (rsl_slot s) = Some t}" by simp
  moreover have "False" if "t \<in> set (jkeys (rl_schemas ?r))" "t \<in> set (jkeys (rl_unreplayable ?r))" for t
  proof -
    from that obtain s s' where "s \<in> set (rl_slots ?r)" "s' \<in> set (rl_slots ?r)"
      "ledgered_table_id_of (rsl_slot s) = Some t" "ledgered_table_id_of (rsl_slot s') = Some t"
      "rsl_failure s = None" "rsl_failure s' \<noteq> None"
      unfolding schemas failures by blast
    then show False using unique by metis
  qed
  ultimately show ?thesis unfolding schemas failures by blast
qed

theorem replay_judges_ledgered_tables_witness:
  "jmap_ok replay_example_schemas \<and>
   jkeys (rl_schemas (replay_ledger root_toolkit replay_example replay_example_schemas False)) =
     [''posts''] \<and>
   jkeys (rl_unreplayable (replay_ledger root_toolkit replay_example replay_example_schemas False)) =
     [''labels''] \<and>
   {''posts'', ''labels''} =
     {t. is_ledgered (trace_table_slots replay_example (jkeys replay_example_schemas)) t}"
proof -
  have keys:
    "jkeys (rl_schemas (replay_ledger root_toolkit replay_example replay_example_schemas False)) =
       [''posts'']"
    "jkeys (rl_unreplayable (replay_ledger root_toolkit replay_example replay_example_schemas False)) =
       [''labels'']"
    by code_simp+
  then show ?thesis
    using replay_judges_ledgered_tables [OF replay_example_ok, of root_toolkit replay_example False]
      replay_example_ok unfolding keys by (simp add: insert_commute)
qed

text \<open>A replay reports as unattributed exactly the migrations that change, rename or remove a
  table that is not live when they run, one failure each, in the order of the ledger.\<close>

theorem replay_reports_unattributed:
  assumes "jmap_ok schemas"
  shows "map unattributed_key (rl_unattributed (replay_ledger tk ledger schemas recordTrail)) =
    map migration_key (unattributable_of ledger (set (jkeys schemas)))"
  using unattributed_all [OF replay_inv_start [OF assms], of tk ledger recordTrail]
  by (simp add: replay_ledger_def replay_result_def start_replay_def Let_def start_slots_facts)

theorem replay_reports_unattributed_witness:
  "jmap_ok replay_example_schemas \<and>
   map migration_key (unattributable_of replay_example (set (jkeys replay_example_schemas))) =
     [(''ghosts'', ''3'', ChangeUpdate)] \<and>
   map unattributed_key (rl_unattributed
     (replay_ledger root_toolkit replay_example replay_example_schemas False)) =
     [(''ghosts'', ''3'', ChangeUpdate)]"
proof -
  have "map migration_key (unattributable_of replay_example (set (jkeys replay_example_schemas))) =
     [(''ghosts'', ''3'', ChangeUpdate)]" by code_simp
  then show ?thesis
    using replay_reports_unattributed [OF replay_example_ok, of root_toolkit replay_example False]
      replay_example_ok by simp
qed

text \<open>A recorded trail accounts for the schema of its slot: a slot that did not fail has the
  schema of the last step of its trail, and without a step the schema its table started with.\<close>

theorem replay_trail_leads_to_schema:
  assumes "jmap_ok schemas" "s \<in> set (rl_slots (replay_ledger tk ledger schemas True))"
    "rsl_failure s = None"
  shows "\<exists>trail. rsl_trail s = Some trail \<and>
    rsl_schema s = trail_schema trail (Option.bind (slot_startingTableId (rsl_slot s)) (map_of schemas))"
proof -
  let ?st = "apply_migrations tk ledger (start_replay schemas True)"
  let ?start = "\<lambda>i. schema_of (start_replay schemas True) i"
  let ?slots = "start_slots (jkeys schemas)"
  have start: "replay_inv (start_replay schemas True)" by (rule replay_inv_start [OF assms(1)])
  have "trails_inv ?start (start_replay schemas True)"
    by (simp add: trails_inv_def trail_of_def trail_schema_def) (simp add: start_replay_def Let_def)
  then have "trails_inv ?start ?st" using trails_inv_all start by (auto simp: replay_inv_def)
  moreover obtain i where i: "i < length (ts_slots (rp_slots ?st))" "s = replayed_slot_at ?st i"
    using assms(2) by (auto simp: replay_ledger_def replay_result_def Let_def)
  moreover have "?start i = Option.bind (slot_startingTableId (rsl_slot s)) (map_of schemas)"
    using start_id_of_slot [OF assms(1), of i tk ledger True] i by simp
  moreover have "failure_at ?st i = None" "rsl_trail s = trail_of ?st i"
    "rsl_schema s = schema_of ?st i"
    using assms(3) i(2) by (simp_all add: replayed_slot_at_def)
  ultimately show ?thesis unfolding trails_inv_def by metis
qed

theorem replay_trail_leads_to_schema_witness:
  "\<exists>s \<in> set (rl_slots (replay_ledger root_toolkit (take 2 replay_example) replay_example_schemas True)).
     rsl_failure s = None \<and> rsl_schema s = Some (JObj [(''fk'', JStr ''labels'')]) \<and>
     (\<exists>trail. rsl_trail s = Some trail \<and> length trail = 2 \<and>
       rsl_schema s = trail_schema trail
         (Option.bind (slot_startingTableId (rsl_slot s)) (map_of replay_example_schemas)))"
proof -
  let ?r = "replay_ledger root_toolkit (take 2 replay_example) replay_example_schemas True"
  let ?s = "rl_slots ?r ! 1"
  have "1 < length (rl_slots ?r)" by code_simp
  then have s: "?s \<in> set (rl_slots ?r)" by (rule nth_mem)
  have vals: "rsl_failure ?s = None" "rsl_schema ?s = Some (JObj [(''fk'', JStr ''labels'')])"
    "map_option length (rsl_trail ?s) = Some 2"
    by code_simp+
  from replay_trail_leads_to_schema [OF replay_example_ok s vals(1)] obtain trail where
    "rsl_trail ?s = Some trail" "rsl_schema ?s = trail_schema trail
       (Option.bind (slot_startingTableId (rsl_slot ?s)) (map_of replay_example_schemas))" by blast
  moreover from this(1) vals(3) have "length trail = 2" by simp
  ultimately show ?thesis using vals(1,2) s by blast
qed

lemma check_reproduces:
  assumes "jmap_ok schemas"
  shows "(case check_table_slot equal (replay_ledger tk ledger schemas recordTrail) tableId schema of
      Reproduces _ \<Rightarrow> True | _ \<Rightarrow> False) \<longleftrightarrow>
    (\<exists>replayed given. map_of (rl_schemas (replay_ledger tk ledger schemas recordTrail)) tableId =
      Some replayed \<and> schema = Some given \<and> equal replayed given)"
proof -
  let ?r = "replay_ledger tk ledger schemas recordTrail"
  have maps: "rl_schemas ?r = ledgered_schemas_of (rl_slots ?r)"
    "rl_currentSlots ?r = current_slots_of (rl_slots ?r)"
    by (simp_all add: replay_ledger_def replay_result_def Let_def)
  note unique = result_slot_unique [OF assms]
  have cur: "map_of (rl_currentSlots ?r) tableId = Some s \<longleftrightarrow>
      s \<in> set (rl_slots ?r) \<and> slot_currentTableId (rsl_slot s) = Some tableId" for s
    unfolding maps result_maps_keyed
    by (subst keyed_by_get) (auto dest: unique)
  have kv: "(case ledgered_table_id_of (rsl_slot s) of None \<Rightarrow> None
      | Some t \<Rightarrow> if rsl_failure s \<noteq> None then None else map_option (\<lambda>x. (t, x)) (rsl_schema s)) =
      Some (t, x) \<longleftrightarrow> slot_currentTableId (rsl_slot s) = Some t \<and> slot_brokenBy (rsl_slot s) = None \<and>
      rsl_failure s = None \<and> rsl_schema s = Some x" for s t x
    by (cases "rsl_schema s") (auto simp: ledgered_table_id_of_def split: option.splits)
  have sch: "map_of (rl_schemas ?r) tableId = Some x \<longleftrightarrow> (\<exists>s \<in> set (rl_slots ?r).
      slot_currentTableId (rsl_slot s) = Some tableId \<and> slot_brokenBy (rsl_slot s) = None \<and>
      rsl_failure s = None \<and> rsl_schema s = Some x)" for x
    unfolding maps result_maps_keyed
    by (subst keyed_by_get; unfold kv) (metis unique option.inject, blast)
  show ?thesis
  proof (cases "map_of (rl_currentSlots ?r) tableId")
    case None
    then have "s \<notin> set (rl_slots ?r) \<or> slot_currentTableId (rsl_slot s) \<noteq> Some tableId" for s
      using cur by (metis option.distinct(1))
    then show ?thesis
      using None by (auto simp: check_table_slot_def check_slot_def sch)
  next
    case (Some s)
    have only: "s' \<in> set (rl_slots ?r) \<and> slot_currentTableId (rsl_slot s') = Some tableId \<longleftrightarrow> s' = s"
      for s' using cur [of s'] Some by auto
    have "map_of (rl_schemas ?r) tableId = Some x \<longleftrightarrow>
        slot_brokenBy (rsl_slot s) = None \<and> rsl_failure s = None \<and> rsl_schema s = Some x" for x
      unfolding sch by (metis only)
    then show ?thesis
      using Some
      by (cases "slot_brokenBy (rsl_slot s)"; cases "rsl_failure s"; cases "rsl_schema s"; cases schema)
        (simp_all add: check_table_slot_def check_slot_def replays_to_def)
  qed
qed

text \<open>A table checks out against a schema exactly when the replay gives it one and the two are
  equal: a broken lineage, a failed step, a missing slot or a missing schema never reproduces.\<close>

theorem check_reproduces_iff_replayed_schema:
  assumes "jmap_ok schemas"
  shows "(case check_table_slot equal (replay_ledger tk ledger schemas recordTrail) tableId schema of
      Reproduces _ \<Rightarrow> True | _ \<Rightarrow> False) \<longleftrightarrow>
    (\<exists>replayed given. map_of (rl_schemas (replay_ledger tk ledger schemas recordTrail)) tableId =
      Some replayed \<and> schema = Some given \<and> equal replayed given)"
  by (rule check_reproduces [OF assms])

theorem check_reproduces_iff_replayed_schema_witness:
  "jmap_ok replay_example_schemas \<and>
   map_of (rl_schemas (replay_ledger root_toolkit replay_example replay_example_schemas False))
     ''posts'' = Some (JObj [(''fk'', JStr ''labels'')]) \<and>
   (case check_table_slot (=) (replay_ledger root_toolkit replay_example replay_example_schemas False)
       ''posts'' (Some (JObj [(''fk'', JStr ''labels'')])) of Reproduces _ \<Rightarrow> True | _ \<Rightarrow> False)"
proof -
  have "map_of (rl_schemas (replay_ledger root_toolkit replay_example replay_example_schemas False))
     ''posts'' = Some (JObj [(''fk'', JStr ''labels'')])" by code_simp
  then show ?thesis
    using check_reproduces_iff_replayed_schema [OF replay_example_ok, of "(=)" root_toolkit
        replay_example False "''posts''" "Some (JObj [(''fk'', JStr ''labels'')])"] replay_example_ok
    by simp
qed

end
