(* ===== verification/Code_Points.thy ===== *)
theory Code_Points
  imports Rev_Prelude "HOL-Library.List_Lexorder" "HOL-Library.Char_ord"
begin

section \<open>Ordering strings by code point\<close>

text \<open>
  \<^verbatim>\<open>share/utils/compare-code-points.ts\<close>. A JavaScript string is a list of UTF-16 units, and
  \<open>codePointAt\<close> reads a surrogate pair as one code point. The comparator walks both strings
  with one index. It is modelled on unit lists, where surrogates exist, and shown to be the
  lexicographic order of the decoded code points; the rest of the development compares strings
  of characters with it.
\<close>

type_synonym u16_string = "nat list"

definition is_u16 :: "u16_string \<Rightarrow> bool" where
  "is_u16 xs \<longleftrightarrow> (\<forall>u \<in> set xs. u < 65536)"

definition is_pair :: "nat \<Rightarrow> nat \<Rightarrow> bool" where
  "is_pair hi lo \<longleftrightarrow> 55296 \<le> hi \<and> hi \<le> 56319 \<and> 56320 \<le> lo \<and> lo \<le> 57343"

definition pair_value :: "nat \<Rightarrow> nat \<Rightarrow> nat" where
  "pair_value hi lo = (hi - 55296) * 1024 + (lo - 56320) + 65536"

text \<open>\<open>s.codePointAt(index) ?? 0\<close>\<close>

definition code_point_at :: "u16_string \<Rightarrow> nat \<Rightarrow> nat" where
  "code_point_at s i =
     (if length s \<le> i then 0
      else if Suc i < length s \<and> is_pair (s ! i) (s ! Suc i)
      then pair_value (s ! i) (s ! Suc i)
      else s ! i)"

definition code_point_length :: "nat \<Rightarrow> nat" where
  "code_point_length codePoint = (if 65535 < codePoint then 2 else 1)"

function compare_u16_from :: "u16_string \<Rightarrow> u16_string \<Rightarrow> nat \<Rightarrow> int" where
  "compare_u16_from left right index =
     (if index < min (length left) (length right) then
        (let leftCodePoint = code_point_at left index;
             rightCodePoint = code_point_at right index
         in if leftCodePoint \<noteq> rightCodePoint
            then int leftCodePoint - int rightCodePoint
            else compare_u16_from left right (index + code_point_length leftCodePoint))
      else int (length left) - int (length right))"
  by pat_completeness auto
termination
  by (relation "measure (\<lambda>(left, right, index). min (length left) (length right) - index)")
     (auto simp: code_point_length_def)

declare compare_u16_from.simps [simp del]

definition compare_u16 :: "u16_string \<Rightarrow> u16_string \<Rightarrow> int" where
  "compare_u16 left right = compare_u16_from left right 0"

definition compare_code_points :: "string \<Rightarrow> string \<Rightarrow> int" where
  "compare_code_points left right = compare_u16 (map of_char left) (map of_char right)"

subsection \<open>The code points of a string\<close>

fun code_points :: "u16_string \<Rightarrow> nat list" where
  "code_points [] = []"
| "code_points [u] = [u]"
| "code_points (u # v # us) =
     (if is_pair u v then pair_value u v # code_points us else u # code_points (v # us))"

lemma pair_value_ge: "65536 \<le> pair_value u v"
  by (simp add: pair_value_def)

text \<open>Encoding the code points again gives the string back, so decoding is injective.\<close>

definition units_of :: "nat \<Rightarrow> u16_string" where
  "units_of cp =
     (if cp < 65536 then [cp]
      else [(cp - 65536) div 1024 + 55296, (cp - 65536) mod 1024 + 56320])"

lemma units_of_pair: "is_pair u v \<Longrightarrow> units_of (pair_value u v) = [u, v]"
proof -
  assume p: "is_pair u v"
  then have lt: "v - 56320 < 1024" by (auto simp: is_pair_def)
  have "pair_value u v - 65536 = (u - 55296) * 1024 + (v - 56320)"
    by (simp add: pair_value_def)
  with lt have "(pair_value u v - 65536) div 1024 = u - 55296"
    "(pair_value u v - 65536) mod 1024 = v - 56320" by simp_all
  with p pair_value_ge [of u v] show ?thesis by (auto simp: units_of_def is_pair_def)
qed

lemma encode_code_points: "is_u16 xs \<Longrightarrow> concat (map units_of (code_points xs)) = xs"
proof (induction xs rule: code_points.induct)
  case (3 u v us)
  then show ?case by (simp add: is_u16_def units_of_pair) (simp add: units_of_def)
qed (simp_all add: is_u16_def units_of_def)

lemma code_points_inj: "is_u16 xs \<Longrightarrow> is_u16 ys \<Longrightarrow> code_points xs = code_points ys \<Longrightarrow> xs = ys"
  by (metis encode_code_points)

lemma code_points_eq_Nil [simp]: "code_points xs = [] \<longleftrightarrow> xs = []"
  by (cases xs rule: code_points.cases) auto

lemma code_points_Cons:
  assumes "is_u16 xs" "xs \<noteq> []"
  shows "code_points xs =
    code_point_at xs 0 # code_points (drop (code_point_length (code_point_at xs 0)) xs)"
  using assms
proof (induction xs rule: code_points.induct)
  case (3 u v us)
  then show ?case
    using pair_value_ge [of u v]
    by (auto simp: code_point_at_def code_point_length_def is_u16_def)
qed (auto simp: code_point_at_def code_point_length_def is_u16_def)

lemma code_point_at_drop:
  "code_point_at (drop i xs) 0 = code_point_at xs i"
  by (auto simp: code_point_at_def Suc_le_eq nth_drop not_le add.commute)

lemma code_point_fits:
  "is_u16 xs \<Longrightarrow> i < length xs \<Longrightarrow> i + code_point_length (code_point_at xs i) \<le> length xs"
  by (auto simp: code_point_at_def code_point_length_def is_u16_def dest!: nth_mem)

lemma is_u16_drop: "is_u16 xs \<Longrightarrow> is_u16 (drop i xs)"
  by (auto simp: is_u16_def dest: in_set_dropD)

lemma code_points_drop_step:
  assumes "is_u16 xs" "i < length xs"
  shows "code_points (drop i xs) =
    code_point_at xs i # code_points (drop (i + code_point_length (code_point_at xs i)) xs)"
  using code_points_Cons [OF is_u16_drop [OF assms(1)], of i] assms(2)
  by (simp add: code_point_at_drop add.commute)

lemma compare_u16_from_less:
  assumes "is_u16 l" "is_u16 r" "i \<le> length l" "i \<le> length r"
  shows "compare_u16_from l r i < 0 \<longleftrightarrow> code_points (drop i l) < code_points (drop i r)"
  using assms
proof (induction l r i rule: compare_u16_from.induct)
  case (1 l r i)
  show ?case
  proof (cases "i < min (length l) (length r)")
    case True
    let ?a = "code_point_at l i" and ?b = "code_point_at r i"
    have l: "code_points (drop i l) = ?a # code_points (drop (i + code_point_length ?a) l)"
      and r: "code_points (drop i r) = ?b # code_points (drop (i + code_point_length ?b) r)"
      using 1 True code_points_drop_step by auto
    show ?thesis
    proof (cases "?a = ?b")
      case False
      with True l r show ?thesis
        by (auto simp: compare_u16_from.simps [of l r i] Let_def)
    next
      case eq: True
      have "compare_u16_from l r (i + code_point_length ?a) < 0 \<longleftrightarrow>
          code_points (drop (i + code_point_length ?a) l) <
          code_points (drop (i + code_point_length ?a) r)"
        using 1 True eq code_point_fits [of l i] code_point_fits [of r i] by (intro "1.IH") auto
      with True eq l r show ?thesis
        by (simp add: compare_u16_from.simps [of l r i])
    qed
  next
    case False
    then have cmp: "compare_u16_from l r i = int (length l) - int (length r)"
      by (auto simp: compare_u16_from.simps [of l r i])
    show ?thesis
    proof (cases "length r \<le> i")
      case True
      with "1.prems" cmp show ?thesis by simp
    next
      case r: False
      with False "1.prems" have "i = length l" by auto
      moreover from r obtain c cs where "code_points (drop i r) = c # cs"
        by (metis code_points_eq_Nil drop_eq_Nil2 list.exhaust)
      ultimately show ?thesis using r cmp by simp
    qed
  qed
qed

lemma compare_u16_from_zero:
  assumes "is_u16 l" "is_u16 r" "i \<le> length l" "i \<le> length r"
  shows "compare_u16_from l r i = 0 \<longleftrightarrow> code_points (drop i l) = code_points (drop i r)"
  using assms
proof (induction l r i rule: compare_u16_from.induct)
  case (1 l r i)
  show ?case
  proof (cases "i < min (length l) (length r)")
    case True
    let ?a = "code_point_at l i" and ?b = "code_point_at r i"
    have l: "code_points (drop i l) = ?a # code_points (drop (i + code_point_length ?a) l)"
      and r: "code_points (drop i r) = ?b # code_points (drop (i + code_point_length ?b) r)"
      using 1 True code_points_drop_step by auto
    show ?thesis
    proof (cases "?a = ?b")
      case False
      with True l r show ?thesis
        by (auto simp: compare_u16_from.simps [of l r i] Let_def)
    next
      case eq: True
      have "compare_u16_from l r (i + code_point_length ?a) = 0 \<longleftrightarrow>
          code_points (drop (i + code_point_length ?a) l) =
          code_points (drop (i + code_point_length ?a) r)"
        using 1 True eq code_point_fits [of l i] code_point_fits [of r i] by (intro "1.IH") auto
      with True eq l r show ?thesis
        by (simp add: compare_u16_from.simps [of l r i])
    qed
  next
    case False
    then have cmp: "compare_u16_from l r i = int (length l) - int (length r)"
      by (auto simp: compare_u16_from.simps [of l r i])
    have "code_points (drop i l) = code_points (drop i r) \<longleftrightarrow> drop i l = drop i r"
      using code_points_inj is_u16_drop "1.prems" by metis
    moreover have "drop i l = drop i r \<longleftrightarrow> length l = length r"
      using False "1.prems" by (auto dest: arg_cong [where f = length])
    ultimately show ?thesis using cmp by simp
  qed
qed

lemma compare_u16_less:
  "is_u16 l \<Longrightarrow> is_u16 r \<Longrightarrow> compare_u16 l r < 0 \<longleftrightarrow> code_points l < code_points r"
  by (simp add: compare_u16_def compare_u16_from_less)

lemma compare_u16_zero: "is_u16 l \<Longrightarrow> is_u16 r \<Longrightarrow> compare_u16 l r = 0 \<longleftrightarrow> l = r"
  using code_points_inj by (auto simp: compare_u16_def compare_u16_from_zero)

subsection \<open>Strings of characters\<close>

lemma is_u16_chars [simp]: "is_u16 (map of_char s)"
  by (auto simp: is_u16_def intro: less_trans [OF nat_of_char_less_256])

lemma code_points_chars: "code_points (map of_char s) = map of_char (s :: string)"
proof -
  have small: "\<forall>u \<in> set us. u < 256 \<Longrightarrow> code_points us = us" for us :: "nat list"
    by (induction us rule: code_points.induct) (auto simp: is_pair_def)
  show ?thesis by (rule small) auto
qed

lemma map_of_char_less: "map of_char s < (map of_char t :: nat list) \<longleftrightarrow> s < (t :: string)"
proof (induction s arbitrary: t)
  case Nil
  then show ?case by (cases t) auto
next
  case (Cons c s)
  then show ?case by (cases t) (auto simp: less_char_def)
qed

lemma compare_code_points_less: "compare_code_points l r < 0 \<longleftrightarrow> l < r"
  by (simp add: compare_code_points_def compare_u16_less code_points_chars map_of_char_less)

lemma compare_code_points_zero [simp]: "compare_code_points l r = 0 \<longleftrightarrow> l = r"
  by (simp add: compare_code_points_def compare_u16_zero inj_map_eq_map inj_def)

lemma compare_code_points_le: "compare_code_points l r \<le> 0 \<longleftrightarrow> l \<le> r"
  using compare_code_points_less [of l r] compare_code_points_zero [of l r]
  by (simp only: le_less) 

interpretation code_point_order: strict_comparator compare_code_points
  by unfold_locales (auto simp: compare_code_points_le)

subsection \<open>Properties\<close>

text \<open>Claim C26: on any strings of UTF-16 units, surrogates included, the comparator is the
  lexicographic order of the code points: its sign says which string comes first, and it is zero
  for equal strings only.\<close>

theorem compare_u16_is_code_point_order:
  assumes "is_u16 left" "is_u16 right"
  shows "(compare_u16 left right < 0 \<longleftrightarrow> code_points left < code_points right) \<and>
    (compare_u16 left right = 0 \<longleftrightarrow> left = right) \<and>
    (0 < compare_u16 left right \<longleftrightarrow> code_points right < code_points left)"
  using compare_u16_less [OF assms] compare_u16_zero [OF assms] code_points_inj [OF assms]
  by (metis less_irrefl linorder_less_linear order.strict_trans)

text \<open>U+FFFF comes before the surrogate pair of U+10000, although its unit is the greater one.\<close>

theorem compare_u16_is_code_point_order_witness:
  "compare_u16 [65535] [55296, 56320] < 0 \<and> (65535 :: nat) > 55296"
proof -
  have "is_u16 [65535]" "is_u16 [55296, 56320]" by (simp_all add: is_u16_def)
  moreover have "code_points [65535] < code_points [55296, 56320]"
    by (simp add: is_pair_def pair_value_def)
  ultimately show ?thesis
    using compare_u16_is_code_point_order [of "[65535]" "[55296, 56320]"] by simp
qed

end
