(* ===== verification/Json_Pointers.thy ===== *)
theory Json_Pointers
  imports Schema_Rules "HOL-Library.Sublist"
begin

section \<open>JSON pointers\<close>

text \<open>
  \<^verbatim>\<open>partial-changes/structure/json-pointer.ts\<close>. A \<open>JsonPointer\<close> wraps its list of segments, so
  it is that list. The two \<open>replaceAll\<close> calls of an escape replace one character by a string, the
  two of an unescape replace a pair of characters by one, from left to right and without looking
  at what they wrote. \<open>undefined\<close> is \<open>None\<close>. \<open>assignIn\<close>, which
  changes its argument, is modelled with the merging of rows that uses it.
\<close>

type_synonym json_pointer = "string list"

subsection \<open>Escaping a segment\<close>

definition replace_char :: "char \<Rightarrow> string \<Rightarrow> string \<Rightarrow> string" where
  "replace_char c to str = concat (map (\<lambda>x. if x = c then to else [x]) str)"

fun replace_pair :: "char \<Rightarrow> char \<Rightarrow> char \<Rightarrow> string \<Rightarrow> string" where
  "replace_pair a b to (x # y # str) =
     (if x = a \<and> y = b then to # replace_pair a b to str
      else x # replace_pair a b to (y # str))"
| "replace_pair a b to str = str"

definition escape_segment :: "string \<Rightarrow> string" where
  "escape_segment segment = replace_char CHR ''/'' ''~1'' (replace_char CHR ''~'' ''~0'' segment)"

definition unescape_segment :: "string \<Rightarrow> string" where
  "unescape_segment segment =
     replace_pair CHR ''~'' CHR ''0'' CHR ''~''
       (replace_pair CHR ''~'' CHR ''1'' CHR ''/'' segment)"

subsection \<open>Reading and printing a pointer\<close>

fun has_invalid_escape :: "string \<Rightarrow> bool" where
  "has_invalid_escape [] = False"
| "has_invalid_escape (c # str) \<longleftrightarrow>
     (c = CHR ''~'' \<and> (case str of [] \<Rightarrow> True | d # _ \<Rightarrow> d \<noteq> CHR ''0'' \<and> d \<noteq> CHR ''1'')) \<or>
     has_invalid_escape str"

definition is_valid_pointer :: "string \<Rightarrow> bool" where
  "is_valid_pointer str \<longleftrightarrow>
     str = [] \<or> (take 1 str = ''/'' \<and> \<not> has_invalid_escape str)"

fun split_on :: "char \<Rightarrow> string \<Rightarrow> string list" where
  "split_on sep [] = [[]]"
| "split_on sep (c # str) =
     (if c = sep then [] # split_on sep str
      else case split_on sep str of [] \<Rightarrow> [[c]] | w # ws \<Rightarrow> (c # w) # ws)"

definition parse_pointer :: "string \<Rightarrow> json_pointer outcome" where
  "parse_pointer str =
     (if \<not> is_valid_pointer str then Inl (''Invalid JSON Pointer \"'' @ str @ ''\"'')
      else if str = [] then Inr []
      else Inr (map unescape_segment (split_on CHR ''/'' (drop 1 str))))"

definition pointer_string :: "json_pointer \<Rightarrow> string" where
  "pointer_string p = concat (map (\<lambda>segment. CHR ''/'' # escape_segment segment) p)"

subsection \<open>Positions\<close>

definition pointer_child :: "json_pointer \<Rightarrow> string \<Rightarrow> json_pointer" where
  "pointer_child p segment = p @ [segment]"

definition is_at_or_above :: "json_pointer \<Rightarrow> json_pointer \<Rightarrow> bool" where
  "is_at_or_above p other \<longleftrightarrow>
     length p \<le> length other \<and> list_all (\<lambda>i. p ! i = other ! i) [0..<length p]"

definition relocated :: "json_pointer \<Rightarrow> json_pointer \<Rightarrow> json_pointer \<Rightarrow> json_pointer" where
  "relocated p from to = to @ drop (length from) p"

subsection \<open>Reading data\<close>

definition array_property :: "json list \<Rightarrow> string \<Rightarrow> json option" where
  "array_property xs name =
     (if name = ''length'' then Some (JNum (of_nat (length xs)))
      else map_option (\<lambda>i. xs ! i) (find (\<lambda>i. decimal i = name) [0..<length xs]))"

definition own_property_of :: "json option \<Rightarrow> string \<Rightarrow> json option" where
  "own_property_of value name =
     (case value of
        Some (JObj fs) \<Rightarrow> map_of fs name
      | Some (JArr xs) \<Rightarrow> array_property xs name
      | _ \<Rightarrow> None)"

definition value_in :: "json_pointer \<Rightarrow> json option \<Rightarrow> json option" where
  "value_in p data = foldl own_property_of data p"

subsection \<open>Escapes are undone\<close>

lemma replace_pair_skip [simp]:
  "x \<noteq> a \<Longrightarrow> replace_pair a b to (x # str) = x # replace_pair a b to str"
  by (cases str) auto

lemma replace_char_simps [simp]:
  "replace_char c to [] = []"
  "replace_char c to (x # str) = (if x = c then to else [x]) @ replace_char c to str"
  by (simp_all add: replace_char_def)

lemma replace_char_append [simp]:
  "replace_char c to (xs @ ys) = replace_char c to xs @ replace_char c to ys"
  by (simp add: replace_char_def)

lemma unescape_simps [simp]:
  "unescape_segment [] = []"
  "unescape_segment (CHR ''~'' # CHR ''0'' # str) = CHR ''~'' # unescape_segment str"
  "unescape_segment (CHR ''~'' # CHR ''1'' # str) = CHR ''/'' # unescape_segment str"
  "c \<noteq> CHR ''~'' \<Longrightarrow> unescape_segment (c # str) = c # unescape_segment str"
  by (simp_all add: unescape_segment_def)

lemma escape_simps [simp]:
  "escape_segment [] = []"
  "escape_segment (CHR ''~'' # str) = CHR ''~'' # CHR ''0'' # escape_segment str"
  "escape_segment (CHR ''/'' # str) = CHR ''~'' # CHR ''1'' # escape_segment str"
  "c \<noteq> CHR ''~'' \<Longrightarrow> c \<noteq> CHR ''/'' \<Longrightarrow> escape_segment (c # str) = c # escape_segment str"
  by (simp_all add: escape_segment_def)

lemma unescape_escape: "unescape_segment (escape_segment segment) = segment"
proof (induction segment)
  case (Cons c segment)
  consider "c = CHR ''~''" | "c = CHR ''/''" | "c \<noteq> CHR ''~''" "c \<noteq> CHR ''/''" by blast
  then show ?case by cases (use Cons.IH in simp_all)
qed simp

lemma escape_no_separator: "CHR ''/'' \<notin> set (escape_segment segment)"
proof (induction segment)
  case (Cons c segment)
  consider "c = CHR ''~''" | "c = CHR ''/''" | "c \<noteq> CHR ''~''" "c \<noteq> CHR ''/''" by blast
  then show ?case by cases (use Cons.IH in simp_all)
qed simp

lemma escape_unescape:
  "\<not> has_invalid_escape str \<Longrightarrow> CHR ''/'' \<notin> set str \<Longrightarrow>
     escape_segment (unescape_segment str) = str"
proof (induction str rule: length_induct)
  case (1 str)
  show ?case
  proof (cases str)
    case (Cons c rest)
    show ?thesis
    proof (cases "c = CHR ''~''")
      case True
      with 1(2) Cons obtain d rest' where rest: "rest = d # rest'" "d = CHR ''0'' \<or> d = CHR ''1''"
        by (cases rest) auto
      with 1 Cons have "escape_segment (unescape_segment rest') = rest'" by simp
      with rest Cons True show ?thesis by auto
    next
      case False
      have "c \<noteq> CHR ''/''" using 1(3) Cons by auto
      with False 1 Cons show ?thesis by simp
    qed
  qed simp
qed

lemma escape_valid: "\<not> has_invalid_escape (escape_segment segment @ str) \<longleftrightarrow> \<not> has_invalid_escape str"
proof (induction segment)
  case (Cons c segment)
  consider "c = CHR ''~''" | "c = CHR ''/''" | "c \<noteq> CHR ''~''" "c \<noteq> CHR ''/''" by blast
  then show ?case by cases (use Cons.IH in simp_all)
qed simp

subsection \<open>Splitting is undone\<close>

lemma split_on_nonempty [simp]: "split_on sep str \<noteq> []"
  by (induction str) (auto split: list.splits)

lemma split_on_skip:
  "sep \<notin> set w \<Longrightarrow> split_on sep (w @ sep # rest) = w # split_on sep rest"
  "sep \<notin> set w \<Longrightarrow> split_on sep w = [w]"
  by (induction w) auto

definition joined :: "string list \<Rightarrow> string" where
  "joined ws = concat (map (\<lambda>w. CHR ''/'' # w) ws)"

lemma joined_split: "joined (split_on CHR ''/'' str) = CHR ''/'' # str"
  by (induction str) (auto simp: joined_def split: list.splits)

lemma split_joined:
  "ws \<noteq> [] \<Longrightarrow> \<forall>w \<in> set ws. CHR ''/'' \<notin> set w \<Longrightarrow> split_on CHR ''/'' (drop 1 (joined ws)) = ws"
proof (induction ws)
  case (Cons w ws)
  show ?case
  proof (cases ws)
    case Nil
    with Cons.prems show ?thesis by (simp add: joined_def split_on_skip)
  next
    case (Cons v vs)
    then have "joined (w # ws) = CHR ''/'' # w @ CHR ''/'' # drop 1 (joined ws)"
      by (simp add: joined_def)
    moreover have "split_on CHR ''/'' (drop 1 (joined ws)) = ws"
      using Cons Cons.IH Cons.prems by simp
    ultimately show ?thesis using Cons.prems by (simp add: split_on_skip)
  qed
qed simp

lemma split_head:
  assumes "split_on sep str = v # vs" "take 1 str \<noteq> [sep]"
  shows "take 1 v = take 1 str"
proof (cases str)
  case (Cons d str')
  with assms show ?thesis by (cases "split_on sep str'") auto
qed (use assms in simp)

lemma split_parts:
  "w \<in> set (split_on CHR ''/'' str) \<Longrightarrow> \<not> has_invalid_escape str \<Longrightarrow>
     CHR ''/'' \<notin> set w \<and> \<not> has_invalid_escape w"
proof (induction str arbitrary: w)
  case (Cons c str)
  obtain v vs where vs: "split_on CHR ''/'' str = v # vs"
    by (cases "split_on CHR ''/'' str") auto
  have rest: "CHR ''/'' \<notin> set u \<and> \<not> has_invalid_escape u" if "u \<in> set (v # vs)" for u
    using Cons.IH [of u] that vs Cons.prems(2) by simp
  have hd_v: "take 1 v = take 1 str" if "c = CHR ''~''" "c \<noteq> CHR ''/''"
  proof (rule split_head [OF vs])
    from that(1) Cons.prems(2) have "str \<noteq> [] \<longrightarrow> hd str \<noteq> CHR ''/''" by (cases str) auto
    then show "take 1 str \<noteq> ''/''" by (cases str) simp_all
  qed
  show ?case
  proof (cases "c = CHR ''/''")
    case True
    with Cons.prems(1) vs rest show ?thesis by auto
  next
    case False
    moreover have "\<not> has_invalid_escape (c # v)"
      using rest [of v] hd_v False Cons.prems(2) by (cases str; cases v) auto
    ultimately show ?thesis using Cons.prems(1) vs rest by auto
  qed
qed simp

lemma pointer_string_joined: "pointer_string p = joined (map escape_segment p)"
  by (simp add: pointer_string_def joined_def o_def)

lemma parse_pointer_string: "parse_pointer (pointer_string p) = Inr p"
proof (cases "p = []")
  case False
  have "\<not> has_invalid_escape (pointer_string p)"
    by (induction p) (simp_all add: pointer_string_def escape_valid)
  moreover have "take 1 (pointer_string p) = ''/''" "pointer_string p \<noteq> []"
    using False by (cases p; simp add: pointer_string_def)+
  moreover have "split_on CHR ''/'' (drop 1 (pointer_string p)) = map escape_segment p"
    unfolding pointer_string_joined
    by (rule split_joined) (use False escape_no_separator in auto)
  ultimately show ?thesis
    by (simp add: parse_pointer_def is_valid_pointer_def unescape_escape o_def)
qed (simp add: parse_pointer_def is_valid_pointer_def pointer_string_def)

lemma pointer_string_inject [simp]: "pointer_string p = pointer_string q \<longleftrightarrow> p = q"
  by (metis parse_pointer_string sum.inject(2))

lemma pointer_string_parse:
  assumes "parse_pointer str = Inr p"
  shows "pointer_string p = str"
proof (cases "str = []")
  case False
  with assms have valid: "take 1 str = ''/''" "\<not> has_invalid_escape str"
    and p: "p = map unescape_segment (split_on CHR ''/'' (drop 1 str))"
    by (auto simp: parse_pointer_def is_valid_pointer_def split: if_splits)
  from valid obtain rest where str: "str = CHR ''/'' # rest" by (cases str) auto
  have "map escape_segment p = split_on CHR ''/'' rest"
    using split_parts [of _ rest] valid(2) escape_unescape
    by (auto simp: p str o_def intro!: map_idI)
  then show ?thesis by (simp add: pointer_string_joined joined_split str)
qed (use assms in \<open>simp add: parse_pointer_def is_valid_pointer_def pointer_string_def\<close>)

subsection \<open>The order of positions\<close>

lemma is_at_or_above_prefix [simp]: "is_at_or_above p q \<longleftrightarrow> prefix p q"
proof
  assume a: "is_at_or_above p q"
  then have "p = take (length p) q"
    by (intro nth_equalityI) (auto simp: is_at_or_above_def list_all_iff)
  then show "prefix p q" by (metis take_is_prefix)
next
  assume "prefix p q"
  then show "is_at_or_above p q"
    by (auto simp: is_at_or_above_def list_all_iff prefix_def nth_append)
qed

lemma relocated_append [simp]: "relocated (from @ rest) from to = to @ rest"
  by (simp add: relocated_def)

lemma value_in_append: "value_in (p @ q) data = value_in q (value_in p data)"
  by (simp add: value_in_def)

subsection \<open>Properties\<close>

text \<open>Claim C25: printing and parsing are inverse: a text parses to a pointer exactly when it is what that
  pointer prints, so every valid text has one pointer and every pointer one valid text, whatever
  tildes and slashes its segments hold.\<close>

theorem pointer_parse_iff_prints: "parse_pointer s = Inr p \<longleftrightarrow> pointer_string p = s"
  using parse_pointer_string pointer_string_parse by blast

end
