(* ===== verification/Schema_Leaves.thy ===== *)
theory Schema_Leaves
  imports Json_Pointers
begin

section \<open>The leaves of a schema\<close>

text \<open>
  \<^verbatim>\<open>partial-changes/structure/schema-leaves.ts\<close>, \<^verbatim>\<open>normalized-leaf-schema.ts\<close> and
  \<^verbatim>\<open>schema-fields.ts\<close>. Schemas are typed: a node of type \<open>object\<close> has \<open>properties\<close>, one of type
  \<open>array\<close> has \<open>items\<close>. The ids of the toolkit's system schemas are not part of the repository:
  they are the fields of \<open>system_schema_ids\<close>, an argument of every definition that uses them.
\<close>

record system_schema_ids =
  sid_File :: string
  sid_RowPublishedAt :: string

datatype leaf_kind = ValueLeaf | AtomicLeaf | PublishedAtLeaf | ComputedLeaf

record schema_leaf =
  leaf_pointer :: json_pointer
  leaf_kind :: leaf_kind
  leaf_schema :: json

record data_target =
  dt_pointer :: json_pointer
  dt_isNode :: bool

subsection \<open>Nodes of a schema\<close>

definition ref_of :: "json \<Rightarrow> json option" where
  "ref_of node = jfield node ''$ref''"

definition has_type :: "json \<Rightarrow> string \<Rightarrow> bool" where
  "has_type node t \<longleftrightarrow> jfield node ''type'' = Some (JStr t)"

definition is_object_node :: "json \<Rightarrow> bool" where
  "is_object_node node \<longleftrightarrow> ref_of node = None \<and> has_type node ''object''"

definition properties_of :: "json \<Rightarrow> (string \<times> json) list" where
  "properties_of node =
     (case jfield node ''properties'' of None \<Rightarrow> [] | Some ps \<Rightarrow> entries_of ps)"

lemma size_properties_of: "(k, v) \<in> set (properties_of node) \<Longrightarrow> size v < size node"
  unfolding properties_of_def
  by (auto split: option.splits intro: less_trans [OF size_entries_of size_jfield])

function count_published_at_refs :: "system_schema_ids \<Rightarrow> json \<Rightarrow> nat" where
  "count_published_at_refs ids node =
     (if ref_of node \<noteq> None
      then (if ref_of node = Some (JStr (sid_RowPublishedAt ids)) then 1 else 0)
      else if has_type node ''array''
      then (case jfield node ''items'' of None \<Rightarrow> 0 | Some items \<Rightarrow> count_published_at_refs ids items)
      else if has_type node ''object''
      then sum_list (map (\<lambda>(_, child). count_published_at_refs ids child) (properties_of node))
      else 0)"
  by pat_completeness auto
termination
  by (relation "measure (\<lambda>(_, node). size node)") (auto dest: size_jfield size_properties_of)

definition ref_leaf_kind :: "system_schema_ids \<Rightarrow> json \<Rightarrow> nat \<Rightarrow> leaf_kind" where
  "ref_leaf_kind ids ref publishedAtRefs =
     (if ref = JStr (sid_File ids) then AtomicLeaf
      else if ref = JStr (sid_RowPublishedAt ids) \<and> publishedAtRefs = 1 then PublishedAtLeaf
      else ComputedLeaf)"

definition leaf_kind_of :: "system_schema_ids \<Rightarrow> json \<Rightarrow> nat \<Rightarrow> leaf_kind" where
  "leaf_kind_of ids node publishedAtRefs =
     (case ref_of node of
        Some ref \<Rightarrow> ref_leaf_kind ids ref publishedAtRefs
      | None \<Rightarrow>
          if jhas node ''x-formula'' then ComputedLeaf
          else if has_type node ''array'' then AtomicLeaf
          else ValueLeaf)"

function collect_leaves ::
  "system_schema_ids \<Rightarrow> json \<Rightarrow> json_pointer \<Rightarrow> nat \<Rightarrow> schema_leaf list" where
  "collect_leaves ids node pointer publishedAtRefs =
     (if is_object_node node
      then concat (map (\<lambda>(name, child).
             collect_leaves ids child (pointer_child pointer name) publishedAtRefs)
             (properties_of node))
      else [\<lparr>leaf_pointer = pointer, leaf_kind = leaf_kind_of ids node publishedAtRefs,
             leaf_schema = node\<rparr>])"
  by pat_completeness auto
termination
  by (relation "measure (\<lambda>(_, node, _, _). size node)") (auto dest: size_properties_of)

declare count_published_at_refs.simps [simp del] collect_leaves.simps [simp del]

subsection \<open>The leaves of a whole schema\<close>

text \<open>\<open>leaves_at\<close> is the map a \<open>SchemaLeaves\<close> keeps by the printed pointer: the last leaf wins.\<close>

definition leaves_of :: "system_schema_ids \<Rightarrow> json \<Rightarrow> schema_leaf list" where
  "leaves_of ids schema = collect_leaves ids schema [] (count_published_at_refs ids schema)"

definition leaves_at :: "schema_leaf list \<Rightarrow> json_pointer \<Rightarrow> schema_leaf option" where
  "leaves_at leaves p =
     map_of (jmap_of (map (\<lambda>leaf. (pointer_string (leaf_pointer leaf), leaf)) leaves))
       (pointer_string p)"

definition published_at_field :: "schema_leaf list \<Rightarrow> schema_leaf option" where
  "published_at_field leaves = find (\<lambda>leaf. leaf_kind leaf = PublishedAtLeaf) leaves"

definition stores_value_in_data :: "schema_leaf \<Rightarrow> bool" where
  "stores_value_in_data leaf \<longleftrightarrow> leaf_kind leaf = ValueLeaf \<or> leaf_kind leaf = AtomicLeaf"

subsection \<open>Data behind a schema path\<close>

fun data_segments_of :: "string list \<Rightarrow> string list" where
  "data_segments_of (keyword # name # rest) =
     (if keyword \<noteq> ''properties'' then [] else name # data_segments_of rest)"
| "data_segments_of _ = []"

definition data_pointer_of_schema_path :: "string \<Rightarrow> json_pointer outcome" where
  "data_pointer_of_schema_path schemaPath =
     try_bind (parse_pointer schemaPath) (\<lambda>segments.
       Inr (foldl pointer_child [] (data_segments_of segments)))"

fun data_target_below ::
  "'st toolkit \<Rightarrow> 'st \<Rightarrow> json_pointer \<Rightarrow> string list \<Rightarrow> data_target outcome" where
  "data_target_below tk st pointer [] = Inr \<lparr>dt_pointer = pointer, dt_isNode = True\<rparr>"
| "data_target_below tk st pointer [keyword] = Inr \<lparr>dt_pointer = pointer, dt_isNode = False\<rparr>"
| "data_target_below tk st pointer (keyword # name # rest) =
     (if keyword \<noteq> ''properties'' then Inr \<lparr>dt_pointer = pointer, dt_isNode = False\<rparr>
      else try_bind (has_object_schema_at tk pointer st) (\<lambda>isObject.
        if \<not> isObject then Inr \<lparr>dt_pointer = pointer, dt_isNode = False\<rparr>
        else data_target_below tk st (pointer_child pointer name) rest))"

definition data_target_of_schema_path ::
  "'st toolkit \<Rightarrow> 'st \<Rightarrow> string \<Rightarrow> data_target outcome" where
  "data_target_of_schema_path tk st schemaPath =
     try_bind (parse_pointer schemaPath) (\<lambda>segments. data_target_below tk st [] segments)"

subsection \<open>Fields of a kind\<close>

function has_field_where :: "(json \<Rightarrow> bool) \<Rightarrow> json \<Rightarrow> bool" where
  "has_field_where matches node \<longleftrightarrow>
     matches node \<or>
     (ref_of node = None \<and>
      (if has_type node ''array''
       then (case jfield node ''items'' of None \<Rightarrow> False | Some items \<Rightarrow> has_field_where matches items)
       else has_type node ''object'' \<and>
         list_ex (\<lambda>(_, child). has_field_where matches child) (properties_of node)))"
  by pat_completeness auto
termination
  by (relation "measure (\<lambda>(_, node). size node)") (auto dest: size_jfield size_properties_of)

declare has_field_where.simps [simp del]

definition is_file_field :: "system_schema_ids \<Rightarrow> json \<Rightarrow> bool" where
  "is_file_field ids node \<longleftrightarrow> ref_of node = Some (JStr (sid_File ids))"

definition is_formula_field :: "json \<Rightarrow> bool" where
  "is_formula_field node \<longleftrightarrow> ref_of node = None \<and> jhas node ''x-formula''"

definition has_file_fields :: "system_schema_ids \<Rightarrow> json \<Rightarrow> bool" where
  "has_file_fields ids schema = has_field_where (is_file_field ids) schema"

definition has_formula_or_file_fields :: "system_schema_ids \<Rightarrow> json \<Rightarrow> bool" where
  "has_formula_or_file_fields ids schema =
     has_field_where (\<lambda>node. is_file_field ids node \<or> is_formula_field node) schema"

subsection \<open>Normalised leaf schemas\<close>

definition is_annotation :: "string \<Rightarrow> bool" where
  "is_annotation keyword \<longleftrightarrow> keyword \<in> {''title'', ''description'', ''deprecated''}"

definition referenced_table :: "json \<Rightarrow> (string, string) jmap \<Rightarrow> json" where
  "referenced_table tableId tableIdentities =
     (case (case tableId of JStr t \<Rightarrow> map_of tableIdentities t | _ \<Rightarrow> None) of
        None \<Rightarrow> JObj [(''unknownTableId'', tableId)]
      | Some identity \<Rightarrow> JObj [(''identity'', JStr identity)])"

function normalized_leaf_schema :: "(string, string) jmap \<Rightarrow> json \<Rightarrow> json" where
  "normalized_leaf_schema tableIdentities schema =
     JObj (map (\<lambda>(keyword, value).
         (keyword,
          if keyword = ''foreignKey'' then referenced_table value tableIdentities
          else if keyword = ''items'' then normalized_leaf_schema tableIdentities value
          else if keyword = ''properties''
          then JObj (map (\<lambda>(name, child). (name, normalized_leaf_schema tableIdentities child))
                 (entries_of value))
          else value))
       (filter (\<lambda>(keyword, _). \<not> is_annotation keyword) (entries_of schema)))"
  by pat_completeness auto
termination
  by (relation "measure (\<lambda>(_, node). size node)")
    (auto dest: size_entries_of intro: less_trans [OF size_entries_of size_entries_of])

declare normalized_leaf_schema.simps [simp del]

subsection \<open>Leaves are the ends of property paths\<close>

text \<open>
  The specification: the node a pointer names, descending through the properties of object nodes
  only, and the leaf there when that node is not itself an object. Property names are unique.
\<close>

fun node_at :: "json \<Rightarrow> json_pointer \<Rightarrow> json option" where
  "node_at node [] = Some node"
| "node_at node (name # names) =
     (if is_object_node node
      then Option.bind (map_of (properties_of node) name) (\<lambda>child. node_at child names)
      else None)"

function unique_names :: "json \<Rightarrow> bool" where
  "unique_names node \<longleftrightarrow>
     distinct (map fst (properties_of node)) \<and>
     list_all (\<lambda>(_, child). unique_names child) (properties_of node)"
  by pat_completeness auto
termination
  by (relation "measure size") (auto dest: size_properties_of)

declare unique_names.simps [simp del]

lemma unique_names_child:
  "unique_names node \<Longrightarrow> (name, child) \<in> set (properties_of node) \<longleftrightarrow>
     map_of (properties_of node) name = Some child"
  by (simp add: unique_names.simps [of node])

lemma unique_names_below:
  "unique_names node \<Longrightarrow> (name, child) \<in> set (properties_of node) \<Longrightarrow> unique_names child"
  by (subst (asm) unique_names.simps) (auto simp: list_all_iff)

definition leaf_at_node :: "system_schema_ids \<Rightarrow> nat \<Rightarrow> json_pointer \<Rightarrow> json \<Rightarrow> schema_leaf" where
  "leaf_at_node ids n p node =
     \<lparr>leaf_pointer = p, leaf_kind = leaf_kind_of ids node n, leaf_schema = node\<rparr>"

lemma collect_leaves_iff:
  "unique_names node \<Longrightarrow>
     leaf \<in> set (collect_leaves ids node p n) \<longleftrightarrow>
     (\<exists>rest node'. node_at node rest = Some node' \<and> \<not> is_object_node node' \<and>
        leaf = leaf_at_node ids n (p @ rest) node')"
proof (induction ids node p n rule: collect_leaves.induct)
  case (1 ids node p n)
  show ?case
  proof (cases "is_object_node node")
    case False
    then have "node_at node rest = Some node' \<longleftrightarrow> rest = [] \<and> node' = node" for rest node'
      by (cases rest) auto
    with False show ?thesis
      by (subst collect_leaves.simps) (auto simp: leaf_at_node_def)
  next
    case True
    have IH: "leaf \<in> set (collect_leaves ids child (p @ [name]) n) \<longleftrightarrow>
        (\<exists>rest node'. node_at child rest = Some node' \<and> \<not> is_object_node node' \<and>
          leaf = leaf_at_node ids n ((p @ [name]) @ rest) node')"
      if "(name, child) \<in> set (properties_of node)" for name child
      using 1(1) [OF True that refl] unique_names_below [OF 1(2) that]
      by (simp add: pointer_child_def)
    have "leaf \<in> set (collect_leaves ids node p n) \<longleftrightarrow>
        (\<exists>name child. (name, child) \<in> set (properties_of node) \<and>
          leaf \<in> set (collect_leaves ids child (p @ [name]) n))"
      by (subst collect_leaves.simps) (auto simp: True pointer_child_def)
    also have "\<dots> \<longleftrightarrow> (\<exists>name child. map_of (properties_of node) name = Some child \<and>
        (\<exists>rest node'. node_at child rest = Some node' \<and> \<not> is_object_node node' \<and>
          leaf = leaf_at_node ids n ((p @ [name]) @ rest) node'))"
      using IH unique_names_child [OF 1(2)] by blast
    also have "\<dots> \<longleftrightarrow> (\<exists>name rest node'. node_at node (name # rest) = Some node' \<and>
        \<not> is_object_node node' \<and> leaf = leaf_at_node ids n (p @ name # rest) node')"
      by (auto simp: True bind_eq_Some_conv)
    also have "\<dots> \<longleftrightarrow> (\<exists>rest node'. node_at node rest = Some node' \<and>
        \<not> is_object_node node' \<and> leaf = leaf_at_node ids n (p @ rest) node')"
    proof -
      have "node_at node [] = Some node' \<Longrightarrow> is_object_node node'" for node' using True by simp
      then show ?thesis by (metis list.exhaust)
    qed
    finally show ?thesis .
  qed
qed

lemma collect_leaves_distinct:
  "unique_names node \<Longrightarrow> distinct (map leaf_pointer (collect_leaves ids node p n))"
proof (induction ids node p n rule: collect_leaves.induct)
  case (1 ids node p n)
  show ?case
  proof (cases "is_object_node node")
    case False
    then show ?thesis by (subst collect_leaves.simps) simp
  next
    case True
    let ?below = "\<lambda>(name, child). map leaf_pointer (collect_leaves ids child (p @ [name]) n)"
    have starts: "\<exists>rest. q = (p @ [name]) @ rest"
      if "(name, child) \<in> set (properties_of node)" "q \<in> set (?below (name, child))" for name child q
      using that collect_leaves_iff [OF unique_names_below [OF 1(2) that(1)]]
      by (auto simp: leaf_at_node_def)
    have "distinct (concat (map ?below xs))"
      if "distinct (map fst xs)" "set xs \<subseteq> set (properties_of node)" for xs
      using that
    proof (induction xs)
      case (Cons x xs)
      obtain name child where x: "x = (name, child)" by fastforce
      have "distinct (?below x)"
        using 1(1) [OF True, of "(name, child)" name child] unique_names_below [OF 1(2)] Cons.prems x
        by (simp add: pointer_child_def)
      moreover have "q \<notin> set (concat (map ?below xs))" if q: "q \<in> set (?below x)" for q
      proof
        assume "q \<in> set (concat (map ?below xs))"
        then obtain name' child' where y: "(name', child') \<in> set xs" "q \<in> set (?below (name', child'))"
          by auto
        have "name' \<noteq> name" using Cons.prems(1) y(1) x by force
        from y(1) Cons.prems(2) have "(name', child') \<in> set (properties_of node)" by auto
        from starts [OF this y(2)] obtain rest' where "q = (p @ [name']) @ rest'" by blast
        moreover obtain rest where "q = (p @ [name]) @ rest"
          using starts [of name child q] q x Cons.prems(2) by auto
        ultimately show False using \<open>name' \<noteq> name\<close> by simp
      qed
      moreover have "distinct (concat (map ?below xs))" using Cons by simp
      ultimately show ?case unfolding list.map concat.simps distinct_append by blast
    qed simp
    from this [of "properties_of node"] 1(2) True show ?thesis
      by (subst collect_leaves.simps, subst (asm) unique_names.simps)
        (simp add: pointer_child_def map_concat o_def case_prod_beta')
  qed
qed

lemma leaves_of_iff:
  "unique_names schema \<Longrightarrow> leaf \<in> set (leaves_of ids schema) \<longleftrightarrow>
     (\<exists>p node. node_at schema p = Some node \<and> \<not> is_object_node node \<and>
        leaf = leaf_at_node ids (count_published_at_refs ids schema) p node)"
  by (simp add: leaves_of_def collect_leaves_iff)

lemma leaves_of_distinct:
  "unique_names schema \<Longrightarrow> distinct (map leaf_pointer (leaves_of ids schema))"
  by (simp add: leaves_of_def collect_leaves_distinct)

lemma node_at_append:
  "node_at node (p @ q) = Option.bind (node_at node p) (\<lambda>n. node_at n q)"
proof (induction p arbitrary: node)
  case (Cons name p)
  then show ?case by (cases "map_of (properties_of node) name") auto
qed simp

lemma node_at_leaf: "\<not> is_object_node node \<Longrightarrow> node_at node q = Some n \<Longrightarrow> q = []"
  by (cases q) auto

lemma leaves_antichain:
  assumes "unique_names schema" "l \<in> set (leaves_of ids schema)" "l' \<in> set (leaves_of ids schema)"
    "prefix (leaf_pointer l) (leaf_pointer l')"
  shows "l = l'"
  using assms(2-)
  by (auto simp: leaves_of_iff [OF assms(1)] leaf_at_node_def prefix_def node_at_append
      dest: node_at_leaf)

lemma leaves_at_map:
  "leaves_at leaves p = map_of (rev (map (\<lambda>leaf. (leaf_pointer leaf, leaf)) leaves)) p"
proof -
  have "map_of (rev (map (\<lambda>leaf. (pointer_string (leaf_pointer leaf), leaf)) leaves)) (pointer_string p) =
      map_of (rev (map (\<lambda>leaf. (leaf_pointer leaf, leaf)) leaves)) p"
    by (induction leaves rule: rev_induct) auto
  then show ?thesis by (simp add: leaves_at_def map_of_jmap_of)
qed

lemma leaves_at_iff:
  assumes "distinct (map leaf_pointer leaves)"
  shows "leaves_at leaves p = Some leaf \<longleftrightarrow> leaf \<in> set leaves \<and> leaf_pointer leaf = p"
proof -
  have "distinct (map fst (rev (map (\<lambda>leaf. (leaf_pointer leaf, leaf)) leaves)))"
    using assms by (simp add: o_def flip: rev_map)
  from Some_eq_map_of_iff [OF this, of leaf p] show ?thesis
    unfolding leaves_at_map by auto
qed

lemma leaves_at_None:
  "leaves_at leaves p = None \<longleftrightarrow> p \<notin> leaf_pointer ` set leaves"
  unfolding leaves_at_map map_of_eq_None_iff by (auto simp: image_image)

subsection \<open>Published-at leaves\<close>

abbreviation published :: "schema_leaf list \<Rightarrow> schema_leaf list" where
  "published leaves \<equiv> filter (\<lambda>leaf. leaf_kind leaf = PublishedAtLeaf) leaves"

lemma published_kind:
  "leaf_kind_of ids node n = PublishedAtLeaf \<Longrightarrow>
     ref_of node = Some (JStr (sid_RowPublishedAt ids)) \<and> n = 1"
  by (auto simp: leaf_kind_of_def ref_leaf_kind_def split: option.splits if_splits)

lemma published_count:
  "length (published (collect_leaves ids node p n)) \<le> count_published_at_refs ids node"
proof (induction ids node p n rule: collect_leaves.induct)
  case (1 ids node p n)
  show ?case
  proof (cases "is_object_node node")
    case False
    then show ?thesis
      using published_kind [of ids node n]
      by (subst collect_leaves.simps, subst count_published_at_refs.simps) auto
  next
    case True
    have "length (published (concat (map (\<lambda>(name, child).
          collect_leaves ids child (pointer_child p name) n) xs))) \<le>
        sum_list (map (\<lambda>(_, child). count_published_at_refs ids child) xs)"
      if "set xs \<subseteq> set (properties_of node)" for xs
      using that
    proof (induction xs)
      case (Cons x xs)
      obtain name child where x: "x = (name, child)" by fastforce
      from Cons.prems x have mem: "(name, child) \<in> set (properties_of node)" by simp
      have "length (published (collect_leaves ids child (pointer_child p name) n)) \<le>
          count_published_at_refs ids child" by (rule 1 [OF True mem refl])
      with Cons x show ?case by simp
    qed simp
    from this [of "properties_of node"] True show ?thesis
      by (subst collect_leaves.simps, subst count_published_at_refs.simps)
        (simp add: is_object_node_def has_type_def)
  qed
qed

lemma published_at_most_one: "length (published (leaves_of ids schema)) \<le> 1"
proof (cases "count_published_at_refs ids schema = 1")
  case True
  then show ?thesis using published_count [of ids schema "[]" 1] by (simp add: leaves_of_def)
next
  case False
  have kinds: "\<exists>node. leaf_kind leaf = leaf_kind_of ids node n"
    if "leaf \<in> set (collect_leaves ids node p n)" for leaf node p n
    using that
  proof (induction ids node p n rule: collect_leaves.induct)
    case (1 ids node p n)
    then show ?case
      by (cases "is_object_node node"; subst (asm) (2) collect_leaves.simps) auto
  qed
  have "published (leaves_of ids schema) = []"
    using kinds published_kind False by (fastforce simp: leaves_of_def filter_empty_conv)
  then show ?thesis by simp
qed

subsection \<open>Properties\<close>

definition example_ids :: system_schema_ids where
  "example_ids = \<lparr>sid_File = ''file'', sid_RowPublishedAt = ''published''\<rparr>"

definition string_schema :: json where
  "string_schema = JObj [(''type'', JStr ''string'')]"

definition object_schema :: "(string \<times> json) list \<Rightarrow> json" where
  "object_schema ps = JObj [(''type'', JStr ''object''), (''properties'', JObj ps)]"

definition ref_schema :: "string \<Rightarrow> json" where
  "ref_schema i = JObj [(''$ref'', JStr i)]"

definition example_schema :: json where
  "example_schema = object_schema
     [(''a'', string_schema),
      (''b'', object_schema [(''c'', ref_schema ''published''), (''d'', object_schema [])])]"

lemma example_schema_unique: "unique_names example_schema"
  by code_simp

text \<open>Looking a pointer up among the leaves of a schema finds a leaf exactly when descending
  through properties from the root ends at a node that is not an object, and finds that node.\<close>

theorem leaves_at_finds_property_path_ends:
  assumes "unique_names schema"
  shows "leaves_at (leaves_of ids schema) p =
    (case node_at schema p of
       None \<Rightarrow> None
     | Some node \<Rightarrow>
         if is_object_node node then None
         else Some (leaf_at_node ids (count_published_at_refs ids schema) p node))"
proof -
  note at = leaves_at_iff [OF leaves_of_distinct [OF assms]]
  show ?thesis
  proof (cases "leaves_at (leaves_of ids schema) p")
    case None
    have "is_object_node node" if "node_at schema p = Some node" for node
    proof (rule ccontr)
      assume "\<not> is_object_node node"
      with that have "leaf_at_node ids (count_published_at_refs ids schema) p node
          \<in> set (leaves_of ids schema)" unfolding leaves_of_iff [OF assms] by blast
      with None show False unfolding leaves_at_None by (force simp: leaf_at_node_def)
    qed
    with None show ?thesis by (auto split: option.splits)
  next
    case (Some leaf)
    then show ?thesis
      using at [of ids p leaf] by (auto simp: leaves_of_iff [OF assms] leaf_at_node_def)
  qed
qed

theorem leaves_at_finds_property_path_ends_witness:
  "unique_names example_schema \<and>
   leaves_at (leaves_of example_ids example_schema) [''b'', ''c''] =
     Some \<lparr>leaf_pointer = [''b'', ''c''], leaf_kind = PublishedAtLeaf,
       leaf_schema = ref_schema ''published''\<rparr> \<and>
   leaves_at (leaves_of example_ids example_schema) [''b''] = None"
proof -
  have "node_at example_schema [''b'', ''c''] = Some (ref_schema ''published'')"
    "map_option is_object_node (node_at example_schema [''b'']) = Some True"
    "\<not> is_object_node (ref_schema ''published'')"
    "leaf_at_node example_ids (count_published_at_refs example_ids example_schema) [''b'', ''c'']
       (ref_schema ''published'') = \<lparr>leaf_pointer = [''b'', ''c''], leaf_kind = PublishedAtLeaf,
       leaf_schema = ref_schema ''published''\<rparr>"
    by code_simp+
  then show ?thesis
    using leaves_at_finds_property_path_ends [OF example_schema_unique, of example_ids]
      example_schema_unique by auto
qed

text \<open>Claim C24: the leaves of a schema are separate: each pointer has one, none lies above another, and
  at most one is the row's published-at field.\<close>

theorem leaves_are_separate:
  assumes "unique_names schema"
  shows "distinct (map leaf_pointer (leaves_of ids schema)) \<and>
    (\<forall>l \<in> set (leaves_of ids schema). \<forall>l' \<in> set (leaves_of ids schema).
       is_at_or_above (leaf_pointer l) (leaf_pointer l') \<longrightarrow> l = l') \<and>
    length (filter (\<lambda>l. leaf_kind l = PublishedAtLeaf) (leaves_of ids schema)) \<le> 1"
  using leaves_of_distinct [OF assms] leaves_antichain [OF assms] published_at_most_one by auto

theorem leaves_are_separate_witness:
  "unique_names example_schema \<and>
   map leaf_pointer (leaves_of example_ids example_schema) = [[''a''], [''b'', ''c'']] \<and>
   distinct (map leaf_pointer (leaves_of example_ids example_schema)) \<and>
   length (filter (\<lambda>l. leaf_kind l = PublishedAtLeaf) (leaves_of example_ids example_schema)) \<le> 1"
proof -
  have "map leaf_pointer (leaves_of example_ids example_schema) = [[''a''], [''b'', ''c'']]"
    by code_simp
  then show ?thesis
    using leaves_are_separate [OF example_schema_unique, of example_ids] example_schema_unique by simp
qed

end
