(* ===== verification/Leaf_Origins.thy ===== *)
theory Leaf_Origins
  imports Schema_Leaves
begin

section \<open>Where the leaves of a draft come from\<close>

text \<open>
  \<^verbatim>\<open>partial-changes/structure/leaf-origins.ts\<close>: the patches of the pending migrations, replayed on
  the schema of the head, become effects on data pointers; following the head's leaves through the
  effects tells which leaf of the draft holds the value of which leaf of the head.
\<close>

subsection \<open>Effects of patches\<close>

datatype patch_effect =
  Carry (carry_from: json_pointer) (carry_to: json_pointer)
| Rewrite json_pointer
| EndAt json_pointer

fun pointers_touched_by :: "patch_effect \<Rightarrow> json_pointer list" where
  "pointers_touched_by (Carry from to) = [from, to]"
| "pointers_touched_by (Rewrite p) = [p]"
| "pointers_touched_by (EndAt p) = [p]"

definition effect_of_add_or_remove_at :: "data_target \<Rightarrow> patch_effect" where
  "effect_of_add_or_remove_at target =
     (if \<not> dt_isNode target then Rewrite (dt_pointer target) else EndAt (dt_pointer target))"

definition effects_of_move :: "data_target \<Rightarrow> data_target \<Rightarrow> patch_effect list" where
  "effects_of_move source target =
     (if dt_isNode source \<and> dt_isNode target
      then [Carry (dt_pointer source) (dt_pointer target)]
      else [effect_of_add_or_remove_at source, effect_of_add_or_remove_at target])"

fun effects_of :: "'st toolkit \<Rightarrow> json_patch \<Rightarrow> 'st \<Rightarrow> patch_effect list outcome" where
  "effects_of tk (ReplacePatch path _) st =
     try_bind (data_target_of_schema_path tk st path) (\<lambda>target. Inr [Rewrite (dt_pointer target)])"
| "effects_of tk (MovePatch from path) st =
     try_bind (data_target_of_schema_path tk st from) (\<lambda>source.
     try_bind (data_target_of_schema_path tk st path) (\<lambda>target.
       Inr (effects_of_move source target)))"
| "effects_of tk (AddPatch path _) st =
     try_bind (data_target_of_schema_path tk st path) (\<lambda>target.
       Inr [effect_of_add_or_remove_at target])"
| "effects_of tk (RemovePatch path) st =
     try_bind (data_target_of_schema_path tk st path) (\<lambda>target.
       Inr [effect_of_add_or_remove_at target])"

fun effects_of_batch ::
  "'st toolkit \<Rightarrow> json_patch list \<Rightarrow> 'st \<Rightarrow> (patch_effect list \<times> 'st) outcome" where
  "effects_of_batch tk [] st = Inr ([], st)"
| "effects_of_batch tk (patch # batch) st =
     try_bind (effects_of tk patch st) (\<lambda>effects.
     try_bind (apply_patch tk patch st) (\<lambda>st'.
     try_bind (effects_of_batch tk batch st') (\<lambda>(rest, st'').
       Inr (effects @ rest, st''))))"

fun effects_of_batches ::
  "'st toolkit \<Rightarrow> json \<Rightarrow> json_patch list list \<Rightarrow> patch_effect list outcome" where
  "effects_of_batches tk schema [] = Inr []"
| "effects_of_batches tk schema (batch # batches) =
     try_bind (tk_createJsonSchemaStore tk schema) (\<lambda>st.
     try_bind (effects_of_batch tk batch st) (\<lambda>(effects, st').
     try_bind (tk_getPlainSchema tk st') (\<lambda>schema'.
     try_bind (effects_of_batches tk schema' batches) (\<lambda>rest.
       Inr (effects @ rest)))))"

definition replay_pending_patches ::
  "'st toolkit \<Rightarrow> json \<Rightarrow> json_patch list list \<Rightarrow> patch_effect list option" where
  "replay_pending_patches tk headSchema pendingBatches =
     try_or_undefined (effects_of_batches tk headSchema pendingBatches)"

subsection \<open>Following the leaves\<close>

record leaf_origin =
  lo_leaf :: schema_leaf
  lo_rewritten :: bool

record traced_value =
  tv_pointer :: json_pointer
  tv_leaf :: schema_leaf
  tv_rewritten :: bool

definition value_at_its_leaf :: "schema_leaf \<Rightarrow> traced_value" where
  "value_at_its_leaf leaf =
     \<lparr>tv_pointer = leaf_pointer leaf, tv_leaf = leaf, tv_rewritten = False\<rparr>"

definition carried_value ::
  "traced_value \<Rightarrow> json_pointer \<Rightarrow> json_pointer \<Rightarrow> traced_value list" where
  "carried_value v from to =
     (if is_at_or_above from (tv_pointer v)
      then [v\<lparr>tv_pointer := relocated (tv_pointer v) from to\<rparr>]
      else if is_at_or_above to (tv_pointer v) then []
      else [v])"

fun value_after :: "traced_value \<Rightarrow> patch_effect \<Rightarrow> traced_value list" where
  "value_after v (Carry from to) = carried_value v from to"
| "value_after v (Rewrite p) =
     (if \<not> is_at_or_above p (tv_pointer v) then [v] else [v\<lparr>tv_rewritten := True\<rparr>])"
| "value_after v (EndAt p) =
     (if \<not> is_at_or_above p (tv_pointer v) then [v] else [])"

definition values_after :: "patch_effect \<Rightarrow> traced_value list \<Rightarrow> traced_value list" where
  "values_after effect traced = concat (map (\<lambda>v. value_after v effect) traced)"

definition traced_values :: "schema_leaf list \<Rightarrow> patch_effect list \<Rightarrow> traced_value list" where
  "traced_values headLeaves effects = fold values_after effects (map value_at_its_leaf headLeaves)"

definition origin_at :: "schema_leaf list \<Rightarrow> patch_effect list \<Rightarrow> json_pointer \<Rightarrow> leaf_origin option"
  where
  "origin_at headLeaves effects p =
     map_of (jmap_of (map (\<lambda>v. (pointer_string (tv_pointer v),
         \<lparr>lo_leaf = tv_leaf v, lo_rewritten = tv_rewritten v\<rparr>)) (traced_values headLeaves effects)))
       (pointer_string p)"

subsection \<open>An effect keeps values apart\<close>

text \<open>Values are apart when no two of them are at one pointer or come from one leaf.\<close>

definition apart :: "traced_value list \<Rightarrow> bool" where
  "apart vs \<longleftrightarrow> distinct (map tv_pointer vs) \<and> distinct (map tv_leaf vs)"

lemma value_after_at_most_one:
  "value_after v e = [] \<or> (\<exists>v'. value_after v e = [v'] \<and> tv_leaf v' = tv_leaf v)"
  by (cases e) (auto simp: carried_value_def)

lemma value_after_apart:
  assumes "tv_pointer v \<noteq> tv_pointer w" "v' \<in> set (value_after v e)" "w' \<in> set (value_after w e)"
  shows "tv_pointer v' \<noteq> tv_pointer w'"
proof (cases e)
  case (Carry src dst)
  have moved: "prefix dst (tv_pointer x')" if "x' \<in> set (value_after x e)" "prefix src (tv_pointer x)"
    for x x' using that Carry by (simp add: carried_value_def relocated_def)
  have stayed: "x' = x \<and> \<not> prefix dst (tv_pointer x)"
    if "x' \<in> set (value_after x e)" "\<not> prefix src (tv_pointer x)" for x x'
    using that Carry by (simp add: carried_value_def split: if_splits)
  show ?thesis
  proof (cases "prefix src (tv_pointer v) \<and> prefix src (tv_pointer w)")
    case True
    with Carry assms show ?thesis by (auto simp: carried_value_def elim!: prefixE)
  next
    case False
    with moved stayed assms show ?thesis by metis
  qed
qed (use assms in \<open>auto split: if_splits\<close>)

lemma values_after_leaves: "subseq (map tv_leaf (values_after e vs)) (map tv_leaf vs)"
proof (induction vs)
  case (Cons v vs)
  then show ?case
    using value_after_at_most_one [of v e] by (auto simp: values_after_def)
qed (simp add: values_after_def)

lemma subseq_distinct: "subseq xs ys \<Longrightarrow> distinct ys \<Longrightarrow> distinct xs"
  by (metis distinct_nthsI subseq_conv_nths)

lemma subseq_set: "subseq xs ys \<Longrightarrow> set xs \<subseteq> set ys"
  by (metis subseq_conv_nths set_nths_subset)

lemma values_after_pointers:
  "distinct (map tv_pointer vs) \<Longrightarrow> distinct (map tv_pointer (values_after e vs))"
proof (induction vs)
  case (Cons v vs)
  have "tv_pointer v' \<notin> tv_pointer ` set (values_after e vs)" if "v' \<in> set (value_after v e)" for v'
    using that Cons.prems value_after_apart [of v _ v' e]
    by (fastforce simp: values_after_def)
  moreover have "distinct (map tv_pointer (value_after v e))"
    using value_after_at_most_one [of v e] by auto
  ultimately show ?case using Cons by (auto simp: values_after_def)
qed (simp add: values_after_def)

interpretation apart_trace: step_loop values_after apart
  by unfold_locales
    (auto simp: apart_def intro: values_after_pointers subseq_distinct [OF values_after_leaves])

lemma apart_traced:
  assumes "distinct (map leaf_pointer headLeaves)"
  shows "apart (traced_values headLeaves effects)"
  unfolding traced_values_def
proof (rule apart_trace.fold_inv)
  have "map tv_pointer (map value_at_its_leaf headLeaves) = map leaf_pointer headLeaves"
    "map tv_leaf (map value_at_its_leaf headLeaves) = headLeaves"
    by (simp_all add: value_at_its_leaf_def o_def)
  with assms show "apart (map value_at_its_leaf headLeaves)"
    unfolding apart_def by (metis distinct_map)
qed

lemma origin_at_iff:
  assumes "distinct (map leaf_pointer headLeaves)"
  shows "origin_at headLeaves effects p = Some origin \<longleftrightarrow>
    (\<exists>v \<in> set (traced_values headLeaves effects). tv_pointer v = p \<and>
       origin = \<lparr>lo_leaf = tv_leaf v, lo_rewritten = tv_rewritten v\<rparr>)"
proof -
  let ?kv = "\<lambda>v. (pointer_string (tv_pointer v),
      \<lparr>lo_leaf = tv_leaf v, lo_rewritten = tv_rewritten v\<rparr>)"
  let ?vs = "traced_values headLeaves effects"
  have "distinct (map (\<lambda>v. pointer_string (tv_pointer v)) ?vs)"
    using apart_traced [OF assms, of effects]
    by (auto simp: apart_def distinct_map inj_on_def)
  then have "distinct (map fst (rev (map ?kv ?vs)))" by (simp add: o_def flip: rev_map)
  from Some_eq_map_of_iff [OF this, of origin "pointer_string p"] show ?thesis
    by (auto simp: origin_at_def map_of_jmap_of)
qed

subsection \<open>Untouched pointers\<close>

definition untouched :: "json_pointer \<Rightarrow> patch_effect \<Rightarrow> bool" where
  "untouched p e \<longleftrightarrow> (\<forall>t \<in> set (pointers_touched_by e). \<not> is_at_or_above t p)"

lemma value_after_untouched:
  "untouched p e \<Longrightarrow> v' \<in> set (value_after v e) \<and> tv_pointer v' = p \<longleftrightarrow> v' = v \<and> tv_pointer v = p"
  by (cases e) (auto simp: untouched_def carried_value_def relocated_def prefix_def)

lemma values_after_untouched:
  assumes "untouched p e"
  shows "v \<in> set (values_after e vs) \<and> tv_pointer v = p \<longleftrightarrow> v \<in> set vs \<and> tv_pointer v = p"
proof -
  have "v \<in> set (values_after e vs) \<and> tv_pointer v = p \<longleftrightarrow>
      (\<exists>x \<in> set vs. v \<in> set (value_after x e) \<and> tv_pointer v = p)" by (simp add: values_after_def)
  then show ?thesis unfolding value_after_untouched [OF assms] by blast
qed

lemma traced_untouched:
  assumes "\<forall>e \<in> set effects. untouched p e"
  shows "v \<in> set (traced_values headLeaves effects) \<and> tv_pointer v = p \<longleftrightarrow>
    (\<exists>leaf \<in> set headLeaves. leaf_pointer leaf = p \<and> v = value_at_its_leaf leaf)"
proof -
  have "v \<in> set (fold values_after effects vs) \<and> tv_pointer v = p \<longleftrightarrow> v \<in> set vs \<and> tv_pointer v = p"
    for vs using assms
    by (induction effects arbitrary: vs) (simp_all add: values_after_untouched)
  then show ?thesis by (auto simp: traced_values_def value_at_its_leaf_def)
qed

lemma origin_at_untouched:
  assumes "distinct (map leaf_pointer headLeaves)" "\<forall>e \<in> set effects. untouched p e"
  shows "origin_at headLeaves effects p =
    map_option (\<lambda>leaf. \<lparr>lo_leaf = leaf, lo_rewritten = False\<rparr>) (leaves_at headLeaves p)"
proof -
  have "origin_at headLeaves effects p = Some origin \<longleftrightarrow>
      (\<exists>leaf \<in> set headLeaves. leaf_pointer leaf = p \<and>
         origin = \<lparr>lo_leaf = leaf, lo_rewritten = False\<rparr>)" for origin
  proof -
    have "origin_at headLeaves effects p = Some origin \<longleftrightarrow>
        (\<exists>v. (v \<in> set (traced_values headLeaves effects) \<and> tv_pointer v = p) \<and>
          origin = \<lparr>lo_leaf = tv_leaf v, lo_rewritten = tv_rewritten v\<rparr>)"
      unfolding origin_at_iff [OF assms(1)] by blast
    then show ?thesis
      unfolding traced_untouched [OF assms(2)] by (auto simp: value_at_its_leaf_def)
  qed
  then have "origin_at headLeaves effects p = Some origin \<longleftrightarrow>
      map_option (\<lambda>leaf. \<lparr>lo_leaf = leaf, lo_rewritten = False\<rparr>) (leaves_at headLeaves p) = Some origin"
    for origin by (auto simp: leaves_at_iff [OF assms(1)])
  then show ?thesis by (metis option.exhaust)
qed

subsection \<open>Values at pointers\<close>

text \<open>
  What a patch means for the data, said of a store that gives the value at every pointer: a
  carry moves all values at or below its source to the target and leaves nothing else at
  either, an end empties everything at or below its pointer, a rewrite marks it. The list of traced values
  the code keeps is a representation of that store.
\<close>

type_synonym value_store = "json_pointer \<Rightarrow> leaf_origin option"

fun effect_on_store :: "patch_effect \<Rightarrow> value_store \<Rightarrow> value_store" where
  "effect_on_store (Carry from to) store = (\<lambda>p.
     if prefix to p then store (from @ drop (length to) p)
     else if prefix from p then None else store p)"
| "effect_on_store (Rewrite place) store = (\<lambda>p.
     if prefix place p then map_option (\<lambda>origin. origin\<lparr>lo_rewritten := True\<rparr>) (store p) else store p)"
| "effect_on_store (EndAt place) store = (\<lambda>p. if prefix place p then None else store p)"

definition head_store :: "schema_leaf list \<Rightarrow> value_store" where
  "head_store headLeaves = (\<lambda>p.
     map_option (\<lambda>leaf. \<lparr>lo_leaf = leaf, lo_rewritten = False\<rparr>) (find (\<lambda>leaf. leaf_pointer leaf = p) headLeaves))"

definition origin_of_value :: "traced_value \<Rightarrow> leaf_origin" where
  "origin_of_value v = \<lparr>lo_leaf = tv_leaf v, lo_rewritten = tv_rewritten v\<rparr>"

definition represents :: "traced_value list \<Rightarrow> value_store \<Rightarrow> bool" where
  "represents vs store \<longleftrightarrow>
     (\<forall>p origin. store p = Some origin \<longleftrightarrow> (\<exists>v \<in> set vs. tv_pointer v = p \<and> origin_of_value v = origin))"

lemma represents_unique: "represents vs store \<Longrightarrow> represents vs store' \<Longrightarrow> store = store'"
  unfolding represents_def by (rule ext) (metis option.exhaust)

lemma head_store_represented:
  assumes "distinct (map leaf_pointer headLeaves)"
  shows "represents (map value_at_its_leaf headLeaves) (head_store headLeaves)"
proof -
  have "find (\<lambda>leaf. leaf_pointer leaf = p) headLeaves = Some leaf \<longleftrightarrow>
      leaf \<in> set headLeaves \<and> leaf_pointer leaf = p" for p leaf
    using assms by (induction headLeaves) force+
  then show ?thesis
    by (auto simp: represents_def head_store_def origin_of_value_def value_at_its_leaf_def)
qed

lemma value_after_at:
  "v' \<in> set (value_after v (Carry from to)) \<and> tv_pointer v' = p \<longleftrightarrow>
     (if prefix to p then tv_pointer v = from @ drop (length to) p \<and> v' = v\<lparr>tv_pointer := p\<rparr>
      else tv_pointer v = p \<and> \<not> prefix from p \<and> v' = v)"
  by (cases v) (auto simp: carried_value_def relocated_def prefix_def)

lemma effect_on_represented:
  assumes "represents vs store"
  shows "represents (values_after e vs) (effect_on_store e store)"
proof -
  have at: "store p = Some origin \<longleftrightarrow> (\<exists>v \<in> set vs. tv_pointer v = p \<and> origin_of_value v = origin)" for p origin
    using assms by (simp add: represents_def)
  have after: "(\<exists>v' \<in> set (values_after e vs). tv_pointer v' = p \<and> origin_of_value v' = origin) \<longleftrightarrow>
      (\<exists>v \<in> set vs. \<exists>v'. (v' \<in> set (value_after v e) \<and> tv_pointer v' = p) \<and> origin_of_value v' = origin)" for p origin
    by (auto simp: values_after_def)
  have moved: "origin_of_value (v\<lparr>tv_pointer := p\<rparr>) = origin_of_value v"
    "origin_of_value (v\<lparr>tv_rewritten := True\<rparr>) = (origin_of_value v)\<lparr>lo_rewritten := True\<rparr>" for v p
    by (simp_all add: origin_of_value_def)
  show ?thesis
    unfolding represents_def after
  proof (cases e)
    case (Carry src dst)
    show "\<forall>p origin. (effect_on_store e store p = Some origin) \<longleftrightarrow>
        (\<exists>v \<in> set vs. \<exists>v'. (v' \<in> set (value_after v e) \<and> tv_pointer v' = p) \<and> origin_of_value v' = origin)"
      unfolding Carry value_after_at by (auto simp: at moved)
  qed (auto simp: at moved split: if_splits)
qed

lemma effects_on_represented:
  "represents vs store \<Longrightarrow> represents (fold values_after effects vs) (fold effect_on_store effects store)"
  by (induction effects arbitrary: vs store) (simp_all add: effect_on_represented)

subsection \<open>Properties\<close>

text \<open>
  Claim C23: following the leaves of the head through the effects of patches computes what the effects mean.
  The origin of every pointer is the one in the store that starts with the leaves of the head at their
  pointers and goes through the effects in order: a carry moves what is at or below its source,
  displaces what was at or below its target and leaves the source empty, an end empties,
  and a rewrite marks the values at or below its pointer without moving them. The leaves
  of the head are at pointers of their own.
\<close>

theorem origins_follow_effects:
  assumes "distinct (map leaf_pointer headLeaves)"
  shows "origin_at headLeaves effects = fold effect_on_store effects (head_store headLeaves)"
proof (rule represents_unique)
  show "represents (traced_values headLeaves effects) (origin_at headLeaves effects)"
    unfolding represents_def origin_at_iff [OF assms] origin_of_value_def by auto
  show "represents (traced_values headLeaves effects) (fold effect_on_store effects (head_store headLeaves))"
    unfolding traced_values_def by (rule effects_on_represented [OF head_store_represented [OF assms]])
qed

theorem origins_follow_effects_witness:
  "map (\<lambda>p. map_option (\<lambda>origin. (leaf_pointer (lo_leaf origin), lo_rewritten origin))
       (origin_at (leaves_of example_ids example_schema)
          [Carry [''a''] [''b'', ''c''], Rewrite [''b''], EndAt [''d'']] p))
     [[''a''], [''b'', ''c''], [''d'']] = [None, Some ([''a''], True), None]"
proof -
  let ?leaves = "leaves_of example_ids example_schema"
  let ?effects = "[Carry [''a''] [''b'', ''c''], Rewrite [''b''], EndAt [''d'']]"
  have "distinct (map leaf_pointer ?leaves)"
    by (rule leaves_of_distinct [OF example_schema_unique])
  note at = origins_follow_effects [OF this, of ?effects]
  show ?thesis unfolding at by code_simp
qed

end
