(* ===== verification/Ledger.thy ===== *)
theory Ledger
  imports Table_Slots Code_Points
begin

section \<open>The migration ledger and the owners of its pending part\<close>

text \<open>
  \<^verbatim>\<open>share/ledger/migration-ledger.ts\<close>, \<^verbatim>\<open>pending-schema-history.ts\<close>,
  \<^verbatim>\<open>pending-attribution.ts\<close> and \<^verbatim>\<open>partial-changes/snapshot/ledger-attribution.ts\<close>.
  The ledger is the rows of the migration table in the order of their ids. The migrations the
  Draft added are traced from the tables of Head, and each traced slot belongs to a table, to a
  table created and removed inside the Draft, or to nobody. The toolkit's \<open>deepEqual\<close> is the
  parameter \<open>deq\<close>.
\<close>

subsection \<open>Ledger entries\<close>

record ledger_entry =
  le_row :: "migration row"
  le_migration :: migration

definition migration_of :: "migration row \<Rightarrow> migration" where
  "migration_of row = row_data row"

definition ledger_of :: "migration row list \<Rightarrow> ledger_entry list" where
  "ledger_of rows =
     map (\<lambda>row. \<lparr>le_row = row, le_migration = migration_of row\<rparr>)
       (js_sort (\<lambda>left right. compare_code_points (row_id left) (row_id right)) rows)"

definition migrations_of :: "ledger_entry list \<Rightarrow> migration list" where
  "migrations_of entries = map le_migration entries"

record split_ledger_result =
  sl_published :: "ledger_entry list"
  sl_pending :: "ledger_entry list"

definition split_ledger :: "migration row list \<Rightarrow> migration row list \<Rightarrow> split_ledger_result" where
  "split_ledger headRows draftRows =
     (let publishedVersionIds = row_versionId ` set headRows
      in \<lparr>sl_published = ledger_of headRows,
          sl_pending =
            ledger_of (filter (\<lambda>row. row_versionId row \<notin> publishedVersionIds) draftRows)\<rparr>)"

definition stores_migrations_under_their_ids :: "migration row list \<Rightarrow> bool" where
  "stores_migrations_under_their_ids rows \<longleftrightarrow>
     length (uniq (map row_id rows)) = length rows \<and>
     list_all (\<lambda>row. mig_id (migration_of row) = row_id row) rows"

definition is_same_published_row ::
  "('d \<Rightarrow> 'd \<Rightarrow> bool) \<Rightarrow> 'd row option \<Rightarrow> 'd row \<Rightarrow> bool" where
  "is_same_published_row deq draft published =
     (case draft of
        None \<Rightarrow> False
      | Some d \<Rightarrow>
          deq (row_data d) (row_data published) \<and>
          row_publishedAt d = row_publishedAt published)"

definition has_intact_published_prefix ::
  "('d \<Rightarrow> 'd \<Rightarrow> bool) \<Rightarrow> 'd row list \<Rightarrow> 'd row list \<Rightarrow> bool" where
  "has_intact_published_prefix deq headRows draftRows =
     (let draftRowsById = jmap_of (map (\<lambda>row. (row_id row, row)) draftRows)
      in list_all
           (\<lambda>published.
              is_same_published_row deq (map_of draftRowsById (row_id published)) published)
           headRows)"

subsection \<open>Pending schema history\<close>

datatype pending_history = ExtendsHead (ph_entries: "history_patches list") | NotExtendingHead

definition pending_schema_history ::
  "(history_patches list \<Rightarrow> history_patches list \<Rightarrow> bool) \<Rightarrow>
   history_patches list \<Rightarrow> history_patches list \<Rightarrow> pending_history" where
  "pending_schema_history deq headHistory draftHistory =
     (let headPrefix = take (length headHistory) draftHistory
      in if \<not> deq headPrefix headHistory then NotExtendingHead
         else ExtendsHead (drop (length headHistory) draftHistory))"

fun history_differs_from_head :: "pending_history \<Rightarrow> bool" where
  "history_differs_from_head NotExtendingHead = True"
| "history_differs_from_head (ExtendsHead entries) = (0 < length entries)"

subsection \<open>Owners of the slots of a pending ledger\<close>

datatype pending_slot_owner = HeadTable string | DraftTable string | Transient | NoOwner

definition owner_of :: "slot \<Rightarrow> string set \<Rightarrow> pending_slot_owner" where
  "owner_of s draftTableIds =
     (if slot_brokenBy s \<noteq> None then NoOwner
      else case slot_startingTableId s of
        Some t \<Rightarrow> HeadTable t
      | None \<Rightarrow>
          (case slot_currentTableId s of
             None \<Rightarrow> Transient
           | Some t \<Rightarrow> if t \<notin> draftTableIds then NoOwner else DraftTable t))"

definition attribute_pending_ledger ::
  "migration list \<Rightarrow> string list \<Rightarrow> string set \<Rightarrow> (slot \<times> pending_slot_owner) list" where
  "attribute_pending_ledger pending headTableIds draftTableIds =
     map (\<lambda>s. (s, owner_of s draftTableIds)) (trace_table_slots pending headTableIds)"

subsection \<open>Table pairs of a snapshot\<close>

record table_version =
  tv_versionId :: string
  tv_createdId :: string
  tv_id :: string
  tv_readonly :: bool
  tv_schema :: json
  tv_history :: "history_patches list"

record table_pair =
  tp_identity :: string
  tp_head :: "table_version option"
  tp_draft :: "table_version option"

datatype revision_side = HeadSide | DraftSide

fun version_on_side :: "revision_side \<Rightarrow> table_pair \<Rightarrow> table_version option" where
  "version_on_side HeadSide pair = tp_head pair"
| "version_on_side DraftSide pair = tp_draft pair"

definition identities_by_table_id ::
  "table_pair list \<Rightarrow> revision_side \<Rightarrow> (string, string) jmap" where
  "identities_by_table_id tables side =
     fold (\<lambda>pair ids. case version_on_side side pair of
              None \<Rightarrow> ids
            | Some version \<Rightarrow> AList.update (tv_id version) (tp_identity pair) ids)
       tables []"

subsection \<open>Attribution of the pending ledger to tables\<close>

record table_history =
  th_tableIds :: "string list"
  th_entries :: "ledger_entry list"

record ledger_attribution =
  la_published :: "ledger_entry list"
  la_pending :: "ledger_entry list"
  la_tables :: "(string, table_history) jmap"
  la_transientGroups :: "table_history list"
  la_unattributable :: "ledger_entry list"

datatype slot_owner = TableOwner string | TransientOwner | Ownerless

definition table_owner :: "string option \<Rightarrow> slot_owner" where
  "table_owner tableIdentity =
     (case tableIdentity of None \<Rightarrow> Ownerless | Some i \<Rightarrow> TableOwner i)"

fun identity_owner_of ::
  "(string, string) jmap \<Rightarrow> (string, string) jmap \<Rightarrow> pending_slot_owner \<Rightarrow> slot_owner" where
  "identity_owner_of headIds draftIds (HeadTable t) = table_owner (map_of headIds t)"
| "identity_owner_of headIds draftIds (DraftTable t) = table_owner (map_of draftIds t)"
| "identity_owner_of headIds draftIds Transient = TransientOwner"
| "identity_owner_of headIds draftIds NoOwner = Ownerless"

definition slots_with_pending_migrations ::
  "ledger_entry list \<Rightarrow> (string, string) jmap \<Rightarrow> (string, string) jmap \<Rightarrow>
   (slot \<times> pending_slot_owner) list" where
  "slots_with_pending_migrations pending headIds draftIds =
     filter (\<lambda>(s, _). 0 < length (slot_migrations s))
       (attribute_pending_ledger (migrations_of pending) (jkeys headIds) (set (jkeys draftIds)))"

definition append_slot :: "string \<Rightarrow> slot \<Rightarrow> (string, slot list) jmap \<Rightarrow> (string, slot list) jmap"
  where
  "append_slot tableIdentity s slotsByTable =
     AList.update tableIdentity
       ((case map_of slotsByTable tableIdentity of None \<Rightarrow> [] | Some ss \<Rightarrow> ss) @ [s]) slotsByTable"

record sorted_slots =
  ss_tables :: "(string, slot list) jmap"
  ss_transient :: "slot list"
  ss_unattributable :: "slot list"

definition sort_slot ::
  "(string, string) jmap \<Rightarrow> (string, string) jmap \<Rightarrow> slot \<times> pending_slot_owner \<Rightarrow>
   sorted_slots \<Rightarrow> sorted_slots" where
  "sort_slot headIds draftIds so acc =
     (case identity_owner_of headIds draftIds (snd so) of
        TableOwner i \<Rightarrow> acc\<lparr>ss_tables := append_slot i (fst so) (ss_tables acc)\<rparr>
      | TransientOwner \<Rightarrow> acc\<lparr>ss_transient := ss_transient acc @ [fst so]\<rparr>
      | Ownerless \<Rightarrow> acc\<lparr>ss_unattributable := ss_unattributable acc @ [fst so]\<rparr>)"

definition sort_slots ::
  "(string, string) jmap \<Rightarrow> (string, string) jmap \<Rightarrow> (slot \<times> pending_slot_owner) list \<Rightarrow>
   sorted_slots" where
  "sort_slots headIds draftIds attributed =
     fold (sort_slot headIds draftIds) attributed
       \<lparr>ss_tables = [], ss_transient = [], ss_unattributable = []\<rparr>"

definition entries_of_slots :: "ledger_entry list \<Rightarrow> slot list \<Rightarrow> ledger_entry list" where
  "entries_of_slots pending slots =
     (let migrations = set (concat (map slot_migrations slots))
      in filter (\<lambda>e. le_migration e \<in> migrations) pending)"

definition history_of_slots :: "ledger_entry list \<Rightarrow> slot list \<Rightarrow> table_history" where
  "history_of_slots pending slots =
     \<lparr>th_tableIds = uniq (concat (map slot_tableIds slots)),
      th_entries = entries_of_slots pending slots\<rparr>"

definition shares_table_id :: "slot \<Rightarrow> slot \<Rightarrow> bool" where
  "shares_table_id member s \<longleftrightarrow> (\<exists>t \<in> set (slot_tableIds member). t \<in> set (slot_tableIds s))"

definition group_by_table_ids :: "ledger_entry list \<Rightarrow> slot list \<Rightarrow> table_history list" where
  "group_by_table_ids pending slots =
     map (\<lambda>group. history_of_slots pending (filter (\<lambda>s. s \<in> set group) slots))
       (linked_groups shares_table_id slots)"

definition attribute_ledger ::
  "table_pair list \<Rightarrow> migration row list \<Rightarrow> migration row list \<Rightarrow> ledger_attribution" where
  "attribute_ledger tables headRows draftRows =
     (let split = split_ledger headRows draftRows;
          pending = sl_pending split;
          headIds = identities_by_table_id tables HeadSide;
          draftIds = identities_by_table_id tables DraftSide;
          sorted = sort_slots headIds draftIds
            (slots_with_pending_migrations pending headIds draftIds)
      in \<lparr>la_published = sl_published split, la_pending = pending,
          la_tables =
            map (\<lambda>(i, slots). (i, history_of_slots pending slots)) (ss_tables sorted),
          la_transientGroups = group_by_table_ids pending (ss_transient sorted),
          la_unattributable = entries_of_slots pending (ss_unattributable sorted)\<rparr>)"

definition pending_migrations_of :: "ledger_attribution \<Rightarrow> string \<Rightarrow> migration list" where
  "pending_migrations_of ledger tableIdentity =
     migrations_of
       (case map_of (la_tables ledger) tableIdentity of None \<Rightarrow> [] | Some h \<Rightarrow> th_entries h)"

subsection \<open>Sorting slots by owner loses none of them\<close>

lemma mset_concat_values_update:
  "jmap_ok m \<Longrightarrow> map_of m k = Some ss \<Longrightarrow>
     mset (concat (jvalues (AList.update k (ss @ [s]) m))) = add_mset s (mset (concat (jvalues m)))"
  by (induction m) (auto simp: jmap_ok_def)

lemma update_fresh: "map_of m k = None \<Longrightarrow> AList.update k v m = m @ [(k, v)]"
  by (induction m) (auto split: if_splits)

lemma mset_append_slot:
  "jmap_ok m \<Longrightarrow>
     mset (concat (jvalues (append_slot i s m))) = add_mset s (mset (concat (jvalues m)))"
  by (auto simp: append_slot_def update_fresh mset_concat_values_update split: option.splits)

definition slots_sorted :: "sorted_slots \<Rightarrow> slot multiset" where
  "slots_sorted acc =
     mset (concat (jvalues (ss_tables acc)) @ ss_transient acc @ ss_unattributable acc)"

lemma sort_slot_step:
  assumes "jmap_ok (ss_tables acc)"
  shows "slots_sorted (sort_slot h d so acc) = add_mset (fst so) (slots_sorted acc)"
    and "jmap_ok (ss_tables (sort_slot h d so acc))"
proof -
  show "slots_sorted (sort_slot h d so acc) = add_mset (fst so) (slots_sorted acc)"
    using assms by (auto simp: sort_slot_def slots_sorted_def mset_append_slot split: slot_owner.splits)
  show "jmap_ok (ss_tables (sort_slot h d so acc))"
    using assms by (auto simp: sort_slot_def append_slot_def split: slot_owner.splits)
qed

lemma sort_slots_mset: "slots_sorted (sort_slots h d sos) = mset (map fst sos)"
proof -
  have "slots_sorted (fold (sort_slot h d) sos acc) = mset (map fst sos) + slots_sorted acc"
    if "jmap_ok (ss_tables acc)" for acc
    using that by (induction sos arbitrary: acc) (simp_all add: sort_slot_step)
  then show ?thesis by (simp add: sort_slots_def slots_sorted_def)
qed

subsection \<open>Distributing a list over disjoint classes\<close>

lemma mset_classes_Cons:
  "mset (concat (map (\<lambda>k. filter (P k) (x # xs)) ks)) =
     mset (concat (map (\<lambda>k. filter (P k) xs) ks)) +
     replicate_mset (length (filter (\<lambda>k. P k x) ks)) x"
  by (induction ks) auto

lemma mset_classes:
  "(\<And>x. x \<in> set xs \<Longrightarrow> length (filter (\<lambda>k. P k x) ks) = 1) \<Longrightarrow>
     mset (concat (map (\<lambda>k. filter (P k) xs) ks)) = mset xs"
proof (induction xs)
  case Nil
  then show ?case by (induction ks) auto
next
  case (Cons x xs)
  then show ?case by (simp only: mset_classes_Cons) simp
qed

lemma one_class:
  "distinct (concat mss) \<Longrightarrow> x \<in> set (concat mss) \<Longrightarrow>
     length (filter (\<lambda>ms. x \<in> set ms) mss) = 1"
proof (induction mss)
  case (Cons ms mss)
  show ?case
  proof (cases "x \<in> set ms")
    case True
    with Cons.prems have "x \<notin> set (concat mss)" by auto
    then have "filter (\<lambda>ms. x \<in> set ms) mss = []" by (auto simp: filter_empty_conv)
    with True show ?thesis by simp
  next
    case False
    with Cons show ?thesis by simp
  qed
qed simp

lemma entries_partition:
  assumes "mset (concat (map slot_migrations (concat classes))) = mset (migrations_of pending)"
    and "distinct (migrations_of pending)"
  shows "mset (concat (map (entries_of_slots pending) classes)) = mset pending"
proof -
  let ?mss = "map (\<lambda>c. concat (map slot_migrations c)) classes"
  have cc: "concat (map slot_migrations (concat classes)) = concat ?mss"
    by (induction classes) auto
  have ok: "distinct (concat ?mss)" "set (concat ?mss) = set (migrations_of pending)"
    using assms cc mset_eq_imp_distinct_iff mset_eq_setD by metis+
  have "mset (concat (map (\<lambda>ms. filter (\<lambda>e. le_migration e \<in> set ms) pending) ?mss)) = mset pending"
  proof (rule mset_classes)
    fix e assume "e \<in> set pending"
    with ok(2) have "le_migration e \<in> set (concat ?mss)" by (simp add: migrations_of_def)
    from one_class [OF ok(1) this]
    show "length (filter (\<lambda>ms. le_migration e \<in> set ms) ?mss) = 1" .
  qed
  moreover have "entries_of_slots pending =
      (\<lambda>c. filter (\<lambda>e. le_migration e \<in> set (concat (map slot_migrations c))) pending)"
    by (simp add: fun_eq_iff entries_of_slots_def)
  ultimately show ?thesis by (simp only: map_map comp_def)
qed

interpretation transient_slots: symmetric_link shares_table_id
  by unfold_locales (auto simp: shares_table_id_def)

subsection \<open>Facts about the attribution\<close>

lemma jmap_ok_identities [simp]: "jmap_ok (identities_by_table_id tables side)"
proof -
  have "jmap_ok m \<Longrightarrow> jmap_ok (fold (\<lambda>pair ids. case version_on_side side pair of
              None \<Rightarrow> ids
            | Some version \<Rightarrow> AList.update (tv_id version) (tp_identity pair) ids) tables m)" for m
    by (induction tables arbitrary: m) (auto split: option.splits)
  then show ?thesis by (simp add: identities_by_table_id_def)
qed

lemma mset_filter_nonempty:
  "mset (concat (map slot_migrations (filter (\<lambda>s. slot_migrations s \<noteq> []) ss))) =
     mset (concat (map slot_migrations ss))"
  by (induction ss) auto

lemma slots_with_pending_slots:
  "map fst (slots_with_pending_migrations pending headIds draftIds) =
     filter (\<lambda>s. slot_migrations s \<noteq> [])
       (trace_table_slots (migrations_of pending) (jkeys headIds))"
  by (simp add: slots_with_pending_migrations_def attribute_pending_ledger_def filter_map comp_def)

lemma migrations_of_mset:
  "mset xs = mset ys \<Longrightarrow> mset (concat (map slot_migrations xs)) = mset (concat (map slot_migrations ys))"
  by (simp add: mset_concat) (metis mset_map sum_mset_sum_list)

lemma pending_slots_migrations:
  assumes "jmap_ok headIds"
  shows "mset (concat (map slot_migrations
      (map fst (slots_with_pending_migrations pending headIds draftIds)))) =
    mset (migrations_of pending)"
proof -
  have "distinct (jkeys headIds)" using assms by (simp add: jmap_ok_def)
  then show ?thesis
    unfolding slots_with_pending_slots mset_filter_nonempty
    using recorded_follow_all [OF slots_inv_start, of "jkeys headIds" "migrations_of pending"]
      recorded_start [of "jkeys headIds"]
    by (simp add: trace_table_slots_def recorded_in_def)
qed

lemma filter_in_group_entries:
  assumes "set g \<subseteq> set slots"
  shows "entries_of_slots pending (filter (\<lambda>s. s \<in> set g) slots) = entries_of_slots pending g"
proof -
  have "set (filter (\<lambda>s. s \<in> set g) slots) = set g" using assms by auto
  then show ?thesis by (simp add: entries_of_slots_def)
qed

lemma group_entries:
  "map th_entries (group_by_table_ids pending slots) =
     map (entries_of_slots pending) (linked_groups shares_table_id slots)"
proof -
  have "set g \<subseteq> set slots" if "g \<in> set (linked_groups shares_table_id slots)" for g
    using that set_linked_groups by fastforce
  then show ?thesis
    by (simp add: group_by_table_ids_def history_of_slots_def filter_in_group_entries)
qed

lemma attribution_partition_aux:
  fixes pending :: "ledger_entry list" and headIds draftIds :: "(string, string) jmap"
  assumes "jmap_ok headIds" "distinct (migrations_of pending)"
  defines "srt \<equiv> sort_slots headIds draftIds
    (slots_with_pending_migrations pending headIds draftIds)"
  shows "mset (concat (map (entries_of_slots pending)
    (jvalues (ss_tables srt) @ linked_groups shares_table_id (ss_transient srt) @
     [ss_unattributable srt]))) = mset pending"
proof (rule entries_partition)
  let ?classes = "jvalues (ss_tables srt) @
    linked_groups shares_table_id (ss_transient srt) @ [ss_unattributable srt]"
  have "mset (concat ?classes) = slots_sorted srt"
    by (simp add: slots_sorted_def del: mset_concat)
  then have "mset (concat ?classes) =
      mset (map fst (slots_with_pending_migrations pending headIds draftIds))"
    by (simp add: srt_def sort_slots_mset)
  from migrations_of_mset [OF this] pending_slots_migrations [OF assms(1)]
  show "mset (concat (map slot_migrations (concat ?classes))) = mset (migrations_of pending)"
    by (simp only:)
qed (rule assms(2))

lemma pending_of_split:
  "distinct (map row_data draftRows) \<Longrightarrow>
     distinct (migrations_of (sl_pending (split_ledger headRows draftRows)))"
proof -
  assume "distinct (map row_data draftRows)"
  then have "distinct (map row_data (filter P draftRows))" for P
    by (rule distinct_map_filter)
  then show ?thesis
    by (simp add: split_ledger_def Let_def migrations_of_def ledger_of_def comp_def migration_of_def)
qed

lemma attribution_partition:
  assumes "distinct (map row_data draftRows)"
  shows "mset (concat (map th_entries (jvalues (la_tables (attribute_ledger tables headRows draftRows))))
        @ concat (map th_entries (la_transientGroups (attribute_ledger tables headRows draftRows)))
        @ la_unattributable (attribute_ledger tables headRows draftRows)) =
      mset (la_pending (attribute_ledger tables headRows draftRows))"
proof -
  let ?pending = "sl_pending (split_ledger headRows draftRows)"
  let ?sorted = "sort_slots (identities_by_table_id tables HeadSide)
    (identities_by_table_id tables DraftSide)
    (slots_with_pending_migrations ?pending (identities_by_table_id tables HeadSide)
      (identities_by_table_id tables DraftSide))"
  have tables: "map th_entries (map snd (map (\<lambda>(i, slots). (i, history_of_slots ?pending slots)) m)) =
      map (entries_of_slots ?pending) (map snd m)" for m :: "(string \<times> slot list) list"
    by (simp add: split_beta comp_def history_of_slots_def)
  show ?thesis
    using attribution_partition_aux
      [OF jmap_ok_identities [of tables HeadSide] pending_of_split [OF assms, of headRows],
       of "identities_by_table_id tables DraftSide"]
    unfolding attribute_ledger_def Let_def ledger_attribution.simps tables group_entries
    by simp
qed

subsection \<open>Properties\<close>

text \<open>Claim C17: the attribution of a pending ledger is a partition: every pending entry is in the
  history of exactly one table, in exactly one group of tables created and removed inside the
  Draft, or among the unattributable entries, and in none of them twice. Each stored row has a
  migration object of its own.\<close>

theorem attribution_partitions_pending:
  assumes "distinct (map row_data draftRows)"
  shows "mset (concat (map th_entries (jvalues (la_tables (attribute_ledger tables headRows draftRows))))
        @ concat (map th_entries (la_transientGroups (attribute_ledger tables headRows draftRows)))
        @ la_unattributable (attribute_ledger tables headRows draftRows)) =
      mset (la_pending (attribute_ledger tables headRows draftRows))"
  by (rule attribution_partition [OF assms])

definition example_table :: "string \<Rightarrow> table_version" where
  "example_table tableId =
     \<lparr>tv_versionId = ''v'', tv_createdId = ''c'', tv_id = tableId, tv_readonly = False,
      tv_schema = JObj [], tv_history = []\<rparr>"

definition example_migration_row :: "string \<Rightarrow> migration \<Rightarrow> migration row" where
  "example_migration_row versionId m =
     \<lparr>row_versionId = versionId, row_createdId = versionId, row_id = mig_id m,
      row_readonly = False, row_createdAt = 0, row_updatedAt = 0, row_publishedAt = 0,
      row_data = m, row_meta = JObj [], row_hash = ''h'', row_schemaHash = ''s''\<rparr>"

text \<open>\<open>users\<close> of Head became \<open>people\<close>; \<open>drafts\<close> was created and removed inside the Draft.\<close>

definition example_pairs :: "table_pair list" where
  "example_pairs =
     [\<lparr>tp_identity = ''t1'', tp_head = Some (example_table ''users''),
       tp_draft = Some (example_table ''people'')\<rparr>]"

definition example_rows :: "migration row list" where
  "example_rows =
     [example_migration_row ''b'' (RemoveMigration 2 ''3'' ''drafts''),
      example_migration_row ''a'' (RenameMigration 0 ''1'' ''users'' ''people''),
      example_migration_row ''c'' (InitMigration 1 ''2'' ''drafts'' ''h'' (JObj []))]"

theorem attribution_partitions_pending_witness:
  "distinct (map row_data example_rows) \<and>
   mset (concat (map th_entries (jvalues (la_tables (attribute_ledger example_pairs [] example_rows))))
        @ concat (map th_entries (la_transientGroups (attribute_ledger example_pairs [] example_rows)))
        @ la_unattributable (attribute_ledger example_pairs [] example_rows)) =
      mset (la_pending (attribute_ledger example_pairs [] example_rows)) \<and>
   map (\<lambda>(i, h). (i, map (mig_id \<circ> le_migration) (th_entries h)))
     (la_tables (attribute_ledger example_pairs [] example_rows)) = [(''t1'', [''1''])] \<and>
   map (\<lambda>h. (th_tableIds h, map (mig_id \<circ> le_migration) (th_entries h)))
     (la_transientGroups (attribute_ledger example_pairs [] example_rows)) =
     [([''drafts''], [''2'', ''3''])]"
proof -
  have d: "distinct (map row_data example_rows)" by code_simp
  have "map (\<lambda>(i, h). (i, map (mig_id \<circ> le_migration) (th_entries h)))
     (la_tables (attribute_ledger example_pairs [] example_rows)) = [(''t1'', [''1''])]"
    by code_simp
  moreover have "map (\<lambda>h. (th_tableIds h, map (mig_id \<circ> le_migration) (th_entries h)))
     (la_transientGroups (attribute_ledger example_pairs [] example_rows)) =
     [([''drafts''], [''2'', ''3''])]"
    by code_simp
  ultimately show ?thesis
    using d attribution_partitions_pending [OF d, of example_pairs "[]"] by blast
qed

text \<open>Claim C18: the tables that lived inside the Draft only are grouped into connected components.
  Every slot is in exactly one group, two groups share no table id, and inside
  a group every slot is reached from every other by a chain of shared ids; the histories listed are those
  of the groups, each with the ids that its slots had, in the order of the slots, and the pending
  entries of their migrations.\<close>

theorem transient_groups_are_components:
  "\<exists>groups. mset (concat groups) = mset slots \<and> separate_groups shares_table_id groups \<and>
     list_all (connected_group shares_table_id) groups \<and>
     group_by_table_ids pending slots = map (\<lambda>g.
       \<lparr>th_tableIds = uniq (concat (map slot_tableIds (filter (\<lambda>s. s \<in> set g) slots))),
        th_entries = filter (\<lambda>e. \<exists>s \<in> set g. le_migration e \<in> set (slot_migrations s)) pending\<rparr>) groups"
proof (intro exI conjI)
  let ?groups = "linked_groups shares_table_id slots"
  show "mset (concat ?groups) = mset slots" by (rule mset_linked_groups)
  show "separate_groups shares_table_id ?groups" by (rule transient_slots.separate_linked_groups)
  show "list_all (connected_group shares_table_id) ?groups"
    using transient_slots.connected_linked_groups by (simp add: list_all_iff)
  have "set g \<subseteq> set slots" if "g \<in> set ?groups" for g using that set_linked_groups by fastforce
  then show "group_by_table_ids pending slots = map (\<lambda>g.
       \<lparr>th_tableIds = uniq (concat (map slot_tableIds (filter (\<lambda>s. s \<in> set g) slots))),
        th_entries = filter (\<lambda>e. \<exists>s \<in> set g. le_migration e \<in> set (slot_migrations s)) pending\<rparr>) ?groups"
    by (simp add: group_by_table_ids_def history_of_slots_def filter_in_group_entries) (simp add: entries_of_slots_def)
qed

definition example_transient_slots :: "slot list" where
  "example_transient_slots =
     map (\<lambda>ids. empty_slot\<lparr>slot_tableIds := ids\<rparr>) [[''a''], [''b''], [''c''], [''b'', ''a'']]"

theorem transient_groups_are_components_witness:
  "map th_tableIds (group_by_table_ids [] example_transient_slots) = [[''c''], [''a'', ''b'']] \<and>
   (\<exists>groups. mset (concat groups) = mset example_transient_slots \<and> length groups = 2)"
proof -
  have ids: "map th_tableIds (group_by_table_ids [] example_transient_slots) = [[''c''], [''a'', ''b'']]"
    by code_simp
  from transient_groups_are_components [of example_transient_slots "[]"] obtain groups f where
    groups: "mset (concat groups) = mset example_transient_slots" "group_by_table_ids [] example_transient_slots = map f groups"
    by blast
  have "length groups = 2" using arg_cong [OF ids, of length] groups(2) by simp
  with ids groups(1) show ?thesis by blast
qed

text \<open>Claim C19: when the pending ledger is admissible for the tables of Head and every table id it
  leaves in use is a table of the Draft, nothing is unattributable: a ledger whose every step fits
  leads back to a table or to a group of tables that lived inside the Draft only.\<close>

theorem admissible_ledger_is_attributable:
  fixes tables :: "table_pair list" and headRows draftRows :: "migration row list"
  defines "pending \<equiv> migrations_of (sl_pending (split_ledger headRows draftRows))"
  assumes "admissible_ledger pending (set (jkeys (identities_by_table_id tables HeadSide)))"
    and "fold live_after pending (set (jkeys (identities_by_table_id tables HeadSide)))
      \<subseteq> set (jkeys (identities_by_table_id tables DraftSide))"
  shows "la_unattributable (attribute_ledger tables headRows draftRows) = []"
proof -
  let ?h = "identities_by_table_id tables HeadSide" and ?d = "identities_by_table_id tables DraftSide"
  have distinct: "distinct (jkeys ?h)" using jmap_ok_identities by (simp add: jmap_ok_def)
  have live: "t \<in> set (jkeys ?d)"
    if "s \<in> set (trace_table_slots pending (jkeys ?h))" "slot_currentTableId s = Some t" for s t
    using that trace_refines_live_ids_aux [OF distinct, of pending] assms(3) by blast
  have unbroken: "slot_brokenBy s = None" if "s \<in> set (trace_table_slots pending (jkeys ?h))" for s
    using that trace_broken_aux [OF distinct, of pending] assms(2) by blast
  have owned: "identity_owner_of ?h ?d (owner_of s (set (jkeys ?d))) \<noteq> Ownerless"
    if "s \<in> set (trace_table_slots pending (jkeys ?h))" for s
    using unbroken [OF that] starting_trace [OF that] live [OF that]
    by (auto simp: owner_of_def table_owner_def map_of_eq_None_iff split: option.splits)
  have none: "ss_unattributable (fold (sort_slot ?h ?d) sos acc) = ss_unattributable acc"
    if "\<forall>so \<in> set sos. identity_owner_of ?h ?d (snd so) \<noteq> Ownerless" for sos acc
    using that by (induction sos arbitrary: acc) (auto simp: sort_slot_def split: slot_owner.splits)
  have "\<forall>so \<in> set (slots_with_pending_migrations (sl_pending (split_ledger headRows draftRows)) ?h ?d).
      identity_owner_of ?h ?d (snd so) \<noteq> Ownerless"
    using owned
    by (auto simp: slots_with_pending_migrations_def attribute_pending_ledger_def pending_def)
  then show ?thesis
    by (simp add: attribute_ledger_def Let_def sort_slots_def none entries_of_slots_def)
qed

theorem admissible_ledger_is_attributable_witness:
  "la_unattributable (attribute_ledger example_pairs [] example_rows) = []"
proof -
  have *: "migrations_of (sl_pending (split_ledger [] example_rows)) =
      [RenameMigration 0 ''1'' ''users'' ''people'',
       InitMigration 1 ''2'' ''drafts'' ''h'' (JObj []), RemoveMigration 2 ''3'' ''drafts'']"
    and h: "jkeys (identities_by_table_id example_pairs HeadSide) = [''users'']"
    and d: "jkeys (identities_by_table_id example_pairs DraftSide) = [''people'']"
    by code_simp+
  show ?thesis
    by (rule admissible_ledger_is_attributable) (auto simp only: * h d; auto)+
qed

end
