(* ===== verification/Table_Structures.thy ===== *)
theory Table_Structures
  imports Leaf_Origins Ledger
begin

section \<open>How a table's structure changed\<close>

text \<open>
  \<^verbatim>\<open>partial-changes/structure/table-structure.ts\<close>, \<^verbatim>\<open>structure-recorded.ts\<close> and
  \<^verbatim>\<open>column-owners.ts\<close>. The object \<open>LeafComparison\<close> is a record of what its constructor computes.
  The toolkit's \<open>deepEqual\<close> is the parameter \<open>equal\<close> where it compares JSON and \<open>deq\<close> where it
  compares histories.
\<close>

subsection \<open>Recorded structure\<close>

definition replay_pending_history ::
  "'st toolkit \<Rightarrow> json \<Rightarrow> history_patches list \<Rightarrow> json option" where
  "replay_pending_history tk headSchema entries =
     try_or_undefined
       (fold_try (\<lambda>entry schema. patched_schema tk schema (hp_patches entry)) entries headSchema)"

definition is_structure_recorded ::
  "'st toolkit \<Rightarrow> (json \<Rightarrow> json \<Rightarrow> bool) \<Rightarrow> json \<Rightarrow> pending_history \<Rightarrow> json \<Rightarrow> bool" where
  "is_structure_recorded tk equal headSchema pending draftSchema =
     (case pending of
        NotExtendingHead \<Rightarrow> False
      | ExtendsHead entries \<Rightarrow>
          (case replay_pending_history tk headSchema entries of
             None \<Rightarrow> False
           | Some replayed \<Rightarrow> equal replayed draftSchema))"

subsection \<open>The sides of a table\<close>

record table_side =
  sd_tableId :: string
  sd_schema :: json
  sd_history :: "history_patches list"
  sd_tableIdentities :: "(string, string) jmap"

record table_structure_input =
  in_head :: table_side
  in_draft :: table_side
  in_pendingMigrations :: "migration list"
  in_replayedHeadSchema :: "json option"

datatype column_owner = FieldOwner json_pointer | StructureOwner | RowColumnsOwner | RowRenameOwner

datatype field_change = Added | Removed | Changed | Moved

record changed_leaf =
  cl_pointer :: json_pointer
  cl_change :: field_change
  cl_from :: "json_pointer option"

record table_structure =
  st_pendingHistory :: pending_history
  st_recorded :: bool
  st_differs :: bool
  st_unchangedLeaves :: "schema_leaf list"
  st_changedPointers :: "json_pointer list"
  st_changedLeaves :: "changed_leaf list"
  st_publishedAtOwner :: column_owner

subsection \<open>Comparing leaves\<close>

record leaf_comparison =
  lc_head :: table_side
  lc_draft :: table_side
  lc_touched :: "json_pointer list"
  lc_headLeaves :: "schema_leaf list"
  lc_draftLeaves :: "schema_leaf list"

definition compare_leaves ::
  "system_schema_ids \<Rightarrow> table_side \<Rightarrow> table_side \<Rightarrow> json_pointer list \<Rightarrow> leaf_comparison" where
  "compare_leaves ids head draft touched =
     \<lparr>lc_head = head, lc_draft = draft, lc_touched = touched,
      lc_headLeaves = leaves_of ids (sd_schema head),
      lc_draftLeaves = leaves_of ids (sd_schema draft)\<rparr>"

definition have_equal_schemas ::
  "(json \<Rightarrow> json \<Rightarrow> bool) \<Rightarrow> leaf_comparison \<Rightarrow> schema_leaf \<Rightarrow> schema_leaf \<Rightarrow> bool" where
  "have_equal_schemas equal c headLeaf draftLeaf =
     equal (normalized_leaf_schema (sd_tableIdentities (lc_head c)) (leaf_schema headLeaf))
       (normalized_leaf_schema (sd_tableIdentities (lc_draft c)) (leaf_schema draftLeaf))"

definition is_touched_by_pending_patch :: "leaf_comparison \<Rightarrow> schema_leaf \<Rightarrow> bool" where
  "is_touched_by_pending_patch c leaf =
     list_ex (\<lambda>p. is_at_or_above p (leaf_pointer leaf)) (lc_touched c)"

definition is_unchanged :: "(json \<Rightarrow> json \<Rightarrow> bool) \<Rightarrow> leaf_comparison \<Rightarrow> schema_leaf \<Rightarrow> bool" where
  "is_unchanged equal c draftLeaf =
     (case leaves_at (lc_headLeaves c) (leaf_pointer draftLeaf) of
        None \<Rightarrow> False
      | Some headLeaf \<Rightarrow>
          have_equal_schemas equal c headLeaf draftLeaf \<and> \<not> is_touched_by_pending_patch c draftLeaf)"

definition unchanged_leaves :: "(json \<Rightarrow> json \<Rightarrow> bool) \<Rightarrow> leaf_comparison \<Rightarrow> schema_leaf list" where
  "unchanged_leaves equal c = filter (is_unchanged equal c) (lc_draftLeaves c)"

definition pointer_key :: "schema_leaf \<Rightarrow> string" where
  "pointer_key leaf = pointer_string (leaf_pointer leaf)"

definition changed_pointers :: "(json \<Rightarrow> json \<Rightarrow> bool) \<Rightarrow> leaf_comparison \<Rightarrow> json_pointer list" where
  "changed_pointers equal c =
     (let unchanged = set (map pointer_key (unchanged_leaves equal c))
      in jvalues (fold (\<lambda>leaf changed.
             if pointer_key leaf \<notin> unchanged
             then AList.update (pointer_key leaf) (leaf_pointer leaf) changed else changed)
           (lc_draftLeaves c @ lc_headLeaves c) []))"

definition published_at_owner :: "(json \<Rightarrow> json \<Rightarrow> bool) \<Rightarrow> leaf_comparison \<Rightarrow> column_owner" where
  "published_at_owner equal c =
     (case published_at_field (lc_draftLeaves c) of
        None \<Rightarrow> RowColumnsOwner
      | Some field \<Rightarrow>
          if field \<in> set (unchanged_leaves equal c) then FieldOwner (leaf_pointer field)
          else StructureOwner)"

subsection \<open>The changes of the leaves\<close>

definition keeps_value ::
  "(json \<Rightarrow> json \<Rightarrow> bool) \<Rightarrow> leaf_comparison \<Rightarrow> leaf_origin \<Rightarrow> schema_leaf \<Rightarrow> bool" where
  "keeps_value equal c origin draftLeaf \<longleftrightarrow>
     \<not> lo_rewritten origin \<and> have_equal_schemas equal c (lo_leaf origin) draftLeaf"

definition is_moved :: "schema_leaf \<Rightarrow> leaf_origin option \<Rightarrow> bool" where
  "is_moved leaf origin =
     (case origin of None \<Rightarrow> False | Some o1 \<Rightarrow> pointer_key (lo_leaf o1) \<noteq> pointer_key leaf)"

definition moved_away :: "leaf_comparison \<Rightarrow> patch_effect list \<Rightarrow> string set" where
  "moved_away c effects =
     set (concat (map (\<lambda>leaf.
         case origin_at (lc_headLeaves c) effects (leaf_pointer leaf) of
           None \<Rightarrow> []
         | Some o1 \<Rightarrow> if is_moved leaf (Some o1) then [pointer_key (lo_leaf o1)] else [])
       (lc_draftLeaves c)))"

definition change_of_new_leaf :: "leaf_comparison \<Rightarrow> schema_leaf \<Rightarrow> string set \<Rightarrow> field_change" where
  "change_of_new_leaf c leaf movedAway =
     (if leaves_at (lc_headLeaves c) (leaf_pointer leaf) = None \<or> pointer_key leaf \<in> movedAway
      then Added else Changed)"

definition changes_of_draft_leaf ::
  "(json \<Rightarrow> json \<Rightarrow> bool) \<Rightarrow> leaf_comparison \<Rightarrow> string set \<Rightarrow> schema_leaf \<Rightarrow> leaf_origin option \<Rightarrow>
   changed_leaf list" where
  "changes_of_draft_leaf equal c movedAway leaf origin =
     (case origin of
        None \<Rightarrow> [\<lparr>cl_pointer = leaf_pointer leaf,
                  cl_change = change_of_new_leaf c leaf movedAway, cl_from = None\<rparr>]
      | Some o1 \<Rightarrow>
          if is_moved leaf origin
          then [\<lparr>cl_pointer = leaf_pointer leaf,
                 cl_change = (if keeps_value equal c o1 leaf then Moved else Changed),
                 cl_from = Some (leaf_pointer (lo_leaf o1))\<rparr>]
          else if keeps_value equal c o1 leaf then []
          else [\<lparr>cl_pointer = leaf_pointer leaf, cl_change = Changed, cl_from = None\<rparr>])"

definition removed_leaves :: "leaf_comparison \<Rightarrow> string set \<Rightarrow> changed_leaf list" where
  "removed_leaves c movedAway =
     map (\<lambda>leaf. \<lparr>cl_pointer = leaf_pointer leaf, cl_change = Removed, cl_from = None\<rparr>)
       (filter (\<lambda>leaf. leaves_at (lc_draftLeaves c) (leaf_pointer leaf) = None \<and>
          pointer_key leaf \<notin> movedAway) (lc_headLeaves c))"

definition changed_leaves ::
  "(json \<Rightarrow> json \<Rightarrow> bool) \<Rightarrow> leaf_comparison \<Rightarrow> patch_effect list \<Rightarrow> changed_leaf list" where
  "changed_leaves equal c effects =
     (let movedAway = moved_away c effects
      in concat (map (\<lambda>leaf. changes_of_draft_leaf equal c movedAway leaf
             (origin_at (lc_headLeaves c) effects (leaf_pointer leaf))) (lc_draftLeaves c)) @
         removed_leaves c movedAway)"

definition changed_leaves_of_replaced_table ::
  "system_schema_ids \<Rightarrow> (json \<Rightarrow> json \<Rightarrow> bool) \<Rightarrow> table_side \<Rightarrow> table_side \<Rightarrow> changed_leaf list" where
  "changed_leaves_of_replaced_table ids equal removed created =
     changed_leaves equal (compare_leaves ids removed created []) []"

subsection \<open>Analysing a table\<close>

fun patch_batch_of :: "migration \<Rightarrow> json_patch list list" where
  "patch_batch_of (UpdateMigration _ _ _ _ patches) = [patches]"
| "patch_batch_of _ = []"

fun schema_paths_of :: "json_patch \<Rightarrow> string list" where
  "schema_paths_of (MovePatch from path) = [from, path]"
| "schema_paths_of (AddPatch path _) = [path]"
| "schema_paths_of (ReplacePatch path _) = [path]"
| "schema_paths_of (RemovePatch path) = [path]"

definition pointers_of_patch_paths :: "json_patch list \<Rightarrow> json_pointer list outcome" where
  "pointers_of_patch_paths patches =
     map_try data_pointer_of_schema_path (concat (map schema_paths_of patches))"

definition pending_patch_pointers ::
  "json_patch list list \<Rightarrow> patch_effect list option \<Rightarrow> json_pointer list outcome" where
  "pending_patch_pointers pendingBatches pendingEffects =
     (case pendingEffects of
        None \<Rightarrow> pointers_of_patch_paths (concat pendingBatches)
      | Some effects \<Rightarrow> Inr (concat (map pointers_touched_by effects)))"

definition head_baselines_of :: "table_structure_input \<Rightarrow> json list" where
  "head_baselines_of input =
     (case in_replayedHeadSchema input of
        None \<Rightarrow> [sd_schema (in_head input)]
      | Some replayed \<Rightarrow> [sd_schema (in_head input), replayed])"

definition structure_differs ::
  "(json \<Rightarrow> json \<Rightarrow> bool) \<Rightarrow> table_structure_input \<Rightarrow> pending_history \<Rightarrow> json_pointer list \<Rightarrow> bool"
  where
  "structure_differs equal input pending changedPointers \<longleftrightarrow>
     sd_tableId (in_head input) \<noteq> sd_tableId (in_draft input) \<or>
     0 < length (in_pendingMigrations input) \<or>
     history_differs_from_head pending \<or>
     \<not> equal (sd_schema (in_head input)) (sd_schema (in_draft input)) \<or>
     0 < length changedPointers"

definition analyze_table_structure ::
  "'st toolkit \<Rightarrow> system_schema_ids \<Rightarrow> (json \<Rightarrow> json \<Rightarrow> bool) \<Rightarrow>
   (history_patches list \<Rightarrow> history_patches list \<Rightarrow> bool) \<Rightarrow> table_structure_input \<Rightarrow>
   table_structure outcome" where
  "analyze_table_structure tk ids equal deq input =
     (let pending = pending_schema_history deq (sd_history (in_head input)) (sd_history (in_draft input));
          batches = concat (map patch_batch_of (in_pendingMigrations input));
          effects = replay_pending_patches tk (sd_schema (in_head input)) batches
      in try_bind (pending_patch_pointers batches effects) (\<lambda>touched.
         let leaves = compare_leaves ids (in_head input) (in_draft input) touched;
             changedPointers = changed_pointers equal leaves
         in Inr \<lparr>st_pendingHistory = pending,
              st_recorded = list_ex (\<lambda>baseline.
                is_structure_recorded tk equal baseline pending (sd_schema (in_draft input)))
                (head_baselines_of input),
              st_differs = structure_differs equal input pending changedPointers,
              st_unchangedLeaves = unchanged_leaves equal leaves,
              st_changedPointers = changedPointers,
              st_changedLeaves = changed_leaves equal leaves
                (case effects of None \<Rightarrow> [] | Some es \<Rightarrow> es),
              st_publishedAtOwner = published_at_owner equal leaves\<rparr>))"

subsection \<open>Owners of columns and leaves\<close>

datatype whole_column = IdColumn | PublishedAtColumn | MetaColumn | SchemaHashColumn

datatype leaf_owner_kind = OwnedByField | OwnedByStructure

record leaf_owner =
  lw_pointer :: json_pointer
  lw_owner :: leaf_owner_kind

definition schema_hash_owner :: "table_structure \<Rightarrow> column_owner" where
  "schema_hash_owner structure =
     (if st_differs structure then StructureOwner else RowColumnsOwner)"

fun column_owner_of :: "whole_column \<Rightarrow> table_structure \<Rightarrow> column_owner" where
  "column_owner_of IdColumn structure = RowRenameOwner"
| "column_owner_of PublishedAtColumn structure = st_publishedAtOwner structure"
| "column_owner_of MetaColumn structure = RowColumnsOwner"
| "column_owner_of SchemaHashColumn structure = schema_hash_owner structure"

definition leaf_owners_of :: "table_structure \<Rightarrow> leaf_owner list" where
  "leaf_owners_of structure =
     map (\<lambda>leaf. \<lparr>lw_pointer = leaf_pointer leaf, lw_owner = OwnedByField\<rparr>)
       (filter stores_value_in_data (st_unchangedLeaves structure)) @
     map (\<lambda>p. \<lparr>lw_pointer = p, lw_owner = OwnedByStructure\<rparr>) (st_changedPointers structure)"

subsection \<open>Changed pointers\<close>

definition separate_leaves :: "leaf_comparison \<Rightarrow> bool" where
  "separate_leaves c \<longleftrightarrow>
     distinct (map leaf_pointer (lc_headLeaves c)) \<and> distinct (map leaf_pointer (lc_draftLeaves c))"

lemma separate_compare_leaves:
  "unique_names (sd_schema head) \<Longrightarrow> unique_names (sd_schema draft) \<Longrightarrow>
     separate_leaves (compare_leaves ids head draft touched)"
  by (simp add: separate_leaves_def compare_leaves_def leaves_of_distinct)

text \<open>A map whose keys are the printed values lists each value once.\<close>

definition keyed_values :: "('v \<Rightarrow> string) \<Rightarrow> ('x \<Rightarrow> bool) \<Rightarrow> ('x \<Rightarrow> 'v) \<Rightarrow> 'x list \<Rightarrow>
  (string, 'v) jmap \<Rightarrow> (string, 'v) jmap" where
  "keyed_values key P g xs m =
     fold (\<lambda>x m. if P x then AList.update (key (g x)) (g x) m else m) xs m"

lemma keyed_values_simps [simp]:
  "keyed_values key P g [] m = m"
  "keyed_values key P g (x # xs) m =
     keyed_values key P g xs (if P x then AList.update (key (g x)) (g x) m else m)"
  by (simp_all add: keyed_values_def)

lemma keyed_values_ok: "jmap_ok m \<Longrightarrow> jmap_ok (keyed_values key P g xs m)"
  by (induction xs arbitrary: m) auto

lemma keyed_values_entries:
  "(k, v) \<in> set (keyed_values key P g xs m) \<Longrightarrow> (k, v) \<in> set m \<or> k = key v"
proof (induction xs arbitrary: m)
  case (Cons x xs)
  then show ?case
    using jmap_entries_set [of "key (g x)" "g x" m] by (cases "P x") fastforce+
qed simp

lemma keyed_values_keys:
  "set (jkeys (keyed_values key P g xs m)) = set (jkeys m) \<union> key ` g ` {x \<in> set xs. P x}"
proof (induction xs arbitrary: m)
  case (Cons x xs)
  have "{y \<in> set (x # xs). P y} = (if P x then {x} else {}) \<union> {y \<in> set xs. P y}" by auto
  then show ?case
    unfolding keyed_values_simps Cons.IH using jmap_keys_set [of "key (g x)" "g x" m]
    by (cases "P x") simp_all
qed simp

lemma values_by_key:
  fixes key :: "'v \<Rightarrow> string"
  assumes "inj key"
  shows "distinct (jvalues (keyed_values key P g xs [])) \<and>
    set (jvalues (keyed_values key P g xs [])) = g ` {x \<in> set xs. P x}"
proof -
  let ?m = "keyed_values key P g xs []"
  have "map key (map snd ?m) = map fst ?m"
    using keyed_values_entries [of _ _ key P g xs "[]"] by auto
  then have keys: "jkeys ?m = map key (jvalues ?m)" by (rule sym)
  have "distinct (jkeys ?m)"
    using keyed_values_ok [of "[]" key P g xs] by (simp add: jmap_ok_def)
  then have "distinct (jvalues ?m)"
    unfolding keys by (rule distinct_map [THEN iffD1, THEN conjunct1])
  moreover have "key ` set (jvalues ?m) = key ` g ` {x \<in> set xs. P x}"
    using keyed_values_keys [of key P g xs "[]"] unfolding keys set_map by simp
  then have "set (jvalues ?m) = g ` {x \<in> set xs. P x}" using assms by (simp only: inj_image_eq_iff)
  ultimately show ?thesis by blast
qed

lemma image_filter_diff: "g ` {x \<in> A. g x \<notin> B} = g ` A - B"
  by auto

lemma inj_pointer_string: "inj pointer_string"
  by (simp add: inj_def)

lemma pointer_key_eq [simp]: "pointer_key l = pointer_key l' \<longleftrightarrow> leaf_pointer l = leaf_pointer l'"
  by (simp add: pointer_key_def)

lemma changed_pointers_facts:
  "distinct (changed_pointers equal c)"
  "set (changed_pointers equal c) =
     leaf_pointer ` (set (lc_draftLeaves c) \<union> set (lc_headLeaves c)) -
     leaf_pointer ` set (unchanged_leaves equal c)"
proof -
  let ?un = "unchanged_leaves equal c"
  have key: "pointer_key l \<in> set (map pointer_key ?un) \<longleftrightarrow> leaf_pointer l \<in> leaf_pointer ` set ?un" for l
    by (auto simp: image_iff)
  have eq: "changed_pointers equal c =
      jvalues (keyed_values pointer_string (\<lambda>l. leaf_pointer l \<notin> leaf_pointer ` set ?un) leaf_pointer
        (lc_draftLeaves c @ lc_headLeaves c) [])"
    unfolding changed_pointers_def Let_def key keyed_values_def
    by (simp add: pointer_key_def cong: if_cong)
  note vals = values_by_key [OF inj_pointer_string, of "\<lambda>l. leaf_pointer l \<notin> leaf_pointer ` set ?un"
      leaf_pointer "lc_draftLeaves c @ lc_headLeaves c"]
  show "distinct (changed_pointers equal c)" unfolding eq by (rule vals [THEN conjunct1])
  show "set (changed_pointers equal c) =
     leaf_pointer ` (set (lc_draftLeaves c) \<union> set (lc_headLeaves c)) - leaf_pointer ` set ?un"
    unfolding eq vals [THEN conjunct2] image_filter_diff set_append ..
qed

lemma unchanged_pointer_iff:
  assumes "separate_leaves c" "leaf \<in> set (lc_draftLeaves c)"
  shows "leaf_pointer leaf \<in> leaf_pointer ` set (unchanged_leaves equal c) \<longleftrightarrow> is_unchanged equal c leaf"
  using assms by (auto simp: unchanged_leaves_def separate_leaves_def distinct_map inj_on_def)

subsection \<open>Changed leaves\<close>

definition touches_recorded :: "leaf_comparison \<Rightarrow> patch_effect list \<Rightarrow> bool" where
  "touches_recorded c effects \<longleftrightarrow>
     (\<forall>e \<in> set effects. set (pointers_touched_by e) \<subseteq> set (lc_touched c))"

lemma untouched_if_recorded:
  "touches_recorded c effects \<Longrightarrow> \<not> is_touched_by_pending_patch c leaf \<Longrightarrow> e \<in> set effects \<Longrightarrow>
     untouched (leaf_pointer leaf) e"
  unfolding touches_recorded_def is_touched_by_pending_patch_def untouched_def list_ex_iff by blast

lemma unchanged_leaf_has_no_change:
  assumes "separate_leaves c" "touches_recorded c effects" "is_unchanged equal c leaf"
  shows "changes_of_draft_leaf equal c movedAway leaf
    (origin_at (lc_headLeaves c) effects (leaf_pointer leaf)) = []"
proof -
  from assms(3) obtain h where h: "leaves_at (lc_headLeaves c) (leaf_pointer leaf) = Some h"
    "have_equal_schemas equal c h leaf" "\<not> is_touched_by_pending_patch c leaf"
    by (auto simp: is_unchanged_def split: option.splits)
  have dist: "distinct (map leaf_pointer (lc_headLeaves c))"
    using assms(1) by (simp add: separate_leaves_def)
  have "leaf_pointer h = leaf_pointer leaf" using h(1) leaves_at_iff [OF dist] by simp
  moreover have "origin_at (lc_headLeaves c) effects (leaf_pointer leaf) =
      Some \<lparr>lo_leaf = h, lo_rewritten = False\<rparr>"
    using origin_at_untouched [OF dist] untouched_if_recorded [OF assms(2) h(3)] h(1) by simp
  ultimately show ?thesis
    using h(2) by (simp add: changes_of_draft_leaf_def is_moved_def keeps_value_def)
qed

lemma changes_of_draft_leaf_pointer:
  "map cl_pointer (changes_of_draft_leaf equal c movedAway leaf origin) \<in> {[], [leaf_pointer leaf]}"
  by (auto simp: changes_of_draft_leaf_def split: option.splits)

lemma changed_leaves_in_changed_pointers:
  assumes "separate_leaves c" "touches_recorded c effects"
    "cl \<in> set (changed_leaves equal c effects)"
  shows "cl_pointer cl \<in> set (changed_pointers equal c)"
proof -
  consider (draft) leaf where "leaf \<in> set (lc_draftLeaves c)"
      "cl \<in> set (changes_of_draft_leaf equal c (moved_away c effects) leaf
        (origin_at (lc_headLeaves c) effects (leaf_pointer leaf)))"
    | (removed) leaf where "leaf \<in> set (lc_headLeaves c)" "cl_pointer cl = leaf_pointer leaf"
      "leaves_at (lc_draftLeaves c) (leaf_pointer leaf) = None"
    using assms(3) by (auto simp: changed_leaves_def removed_leaves_def Let_def)
  then show ?thesis
  proof cases
    case draft
    then have "\<not> is_unchanged equal c leaf"
      using unchanged_leaf_has_no_change [OF assms(1,2)] by fastforce
    moreover have "cl_pointer cl = leaf_pointer leaf"
      using draft(2) by (auto simp: changes_of_draft_leaf_def split: option.splits if_splits)
    ultimately show ?thesis
      using draft(1) unchanged_pointer_iff [OF assms(1) draft(1)]
      by (simp add: changed_pointers_facts)
  next
    case removed
    then have "leaf_pointer leaf \<notin> leaf_pointer ` set (unchanged_leaves equal c)"
      by (auto simp: leaves_at_None unchanged_leaves_def)
    with removed show ?thesis by (simp add: changed_pointers_facts)
  qed
qed

lemma changed_leaves_distinct:
  assumes "separate_leaves c"
  shows "distinct (map cl_pointer (changed_leaves equal c effects))"
proof -
  let ?changes = "\<lambda>leaf. changes_of_draft_leaf equal c (moved_away c effects) leaf
      (origin_at (lc_headLeaves c) effects (leaf_pointer leaf))"
  let ?draft = "concat (map ?changes (lc_draftLeaves c))"
  have "subseq (map cl_pointer (concat (map ?changes ls))) (map leaf_pointer ls)" for ls
  proof (induction ls)
    case (Cons l ls)
    then show ?case
      using changes_of_draft_leaf_pointer [of equal c "moved_away c effects" l
          "origin_at (lc_headLeaves c) effects (leaf_pointer l)"] by auto
  qed simp
  then have sub: "subseq (map cl_pointer ?draft) (map leaf_pointer (lc_draftLeaves c))" .
  have "distinct (map cl_pointer ?draft)"
    using subseq_distinct [OF sub] assms by (simp add: separate_leaves_def)
  moreover have "distinct (map cl_pointer (removed_leaves c (moved_away c effects)))"
    using assms by (simp add: removed_leaves_def separate_leaves_def o_def distinct_map inj_on_def)
  moreover have "set (map cl_pointer ?draft) \<subseteq> leaf_pointer ` set (lc_draftLeaves c)"
    using subseq_set [OF sub] by (simp only: set_map)
  moreover have "set (map cl_pointer (removed_leaves c (moved_away c effects))) \<inter>
      leaf_pointer ` set (lc_draftLeaves c) = {}"
    by (auto simp: removed_leaves_def leaves_at_None)
  ultimately show ?thesis
    unfolding changed_leaves_def Let_def map_append distinct_append by blast
qed

subsection \<open>Without provenance\<close>

lemma origin_at_no_effects:
  "separate_leaves c \<Longrightarrow> origin_at (lc_headLeaves c) [] p =
     map_option (\<lambda>leaf. \<lparr>lo_leaf = leaf, lo_rewritten = False\<rparr>) (leaves_at (lc_headLeaves c) p)"
  by (rule origin_at_untouched) (simp_all add: separate_leaves_def)

lemma moved_away_no_effects:
  assumes "separate_leaves c"
  shows "moved_away c [] = {}"
proof -
  have "\<not> is_moved leaf (origin_at (lc_headLeaves c) [] (leaf_pointer leaf))" for leaf
  proof (cases "leaves_at (lc_headLeaves c) (leaf_pointer leaf)")
    case None
    with assms show ?thesis by (simp add: origin_at_no_effects is_moved_def)
  next
    case (Some h)
    then have "leaf_pointer h = leaf_pointer leaf"
      using assms leaves_at_iff [of "lc_headLeaves c" "leaf_pointer leaf" h]
      by (simp add: separate_leaves_def)
    with Some assms show ?thesis by (simp add: origin_at_no_effects is_moved_def)
  qed
  then show ?thesis unfolding moved_away_def by (auto split: option.splits)
qed

definition expected_change ::
  "(json \<Rightarrow> json \<Rightarrow> bool) \<Rightarrow> leaf_comparison \<Rightarrow> json_pointer \<Rightarrow> field_change option" where
  "expected_change equal c p =
     (case (leaves_at (lc_headLeaves c) p, leaves_at (lc_draftLeaves c) p) of
        (None, None) \<Rightarrow> None
      | (None, Some _) \<Rightarrow> Some Added
      | (Some _, None) \<Rightarrow> Some Removed
      | (Some h, Some d) \<Rightarrow> if have_equal_schemas equal c h d then None else Some Changed)"

lemma changed_leaves_no_effects:
  assumes "separate_leaves c"
  shows "\<lparr>cl_pointer = p, cl_change = ch, cl_from = f\<rparr> \<in> set (changed_leaves equal c []) \<longleftrightarrow>
    f = None \<and> expected_change equal c p = Some ch"
proof -
  have dist: "distinct (map leaf_pointer (lc_headLeaves c))"
    "distinct (map leaf_pointer (lc_draftLeaves c))"
    using assms by (simp_all add: separate_leaves_def)
  let ?cl = "\<lparr>cl_pointer = p, cl_change = ch, cl_from = f\<rparr>"
  have draft: "?cl \<in> set (changes_of_draft_leaf equal c {} d (origin_at (lc_headLeaves c) [] (leaf_pointer d))) \<longleftrightarrow>
      leaf_pointer d = p \<and> f = None \<and>
      (case leaves_at (lc_headLeaves c) p of
         None \<Rightarrow> ch = Added | Some h \<Rightarrow> ch = Changed \<and> \<not> have_equal_schemas equal c h d)" for d
  proof (cases "leaf_pointer d = p")
    case True
    show ?thesis
    proof (cases "leaves_at (lc_headLeaves c) p")
      case None
      with True show ?thesis
        by (auto simp: origin_at_no_effects [OF assms] changes_of_draft_leaf_def change_of_new_leaf_def)
    next
      case (Some h)
      then have "leaf_pointer h = p" using leaves_at_iff [OF dist(1), of p h] by simp
      with True Some show ?thesis
        by (auto simp: origin_at_no_effects [OF assms] changes_of_draft_leaf_def is_moved_def
            keeps_value_def)
    qed
  next
    case False
    then show ?thesis
      using changes_of_draft_leaf_pointer [of equal c "{}" d
          "origin_at (lc_headLeaves c) [] (leaf_pointer d)"] by (auto dest!: map_eq_Cons_D)
  qed
  have removed: "?cl \<in> set (removed_leaves c {}) \<longleftrightarrow> f = None \<and> ch = Removed \<and>
      leaves_at (lc_headLeaves c) p \<noteq> None \<and> leaves_at (lc_draftLeaves c) p = None"
    using leaves_at_iff [OF dist(1), of p] by (auto simp: removed_leaves_def)
  have "?cl \<in> set (changed_leaves equal c []) \<longleftrightarrow>
      (\<exists>d \<in> set (lc_draftLeaves c). leaf_pointer d = p \<and> f = None \<and>
        (case leaves_at (lc_headLeaves c) p of
           None \<Rightarrow> ch = Added | Some h \<Rightarrow> ch = Changed \<and> \<not> have_equal_schemas equal c h d)) \<or>
      ?cl \<in> set (removed_leaves c {})"
    by (simp add: changed_leaves_def Let_def moved_away_no_effects [OF assms] draft)
  also have "\<dots> \<longleftrightarrow>
      (\<exists>d. leaves_at (lc_draftLeaves c) p = Some d \<and> f = None \<and>
        (case leaves_at (lc_headLeaves c) p of
           None \<Rightarrow> ch = Added | Some h \<Rightarrow> ch = Changed \<and> \<not> have_equal_schemas equal c h d)) \<or>
      (f = None \<and> ch = Removed \<and>
        leaves_at (lc_headLeaves c) p \<noteq> None \<and> leaves_at (lc_draftLeaves c) p = None)"
    unfolding removed leaves_at_iff [OF dist(2)] by blast
  also have "\<dots> \<longleftrightarrow> f = None \<and> expected_change equal c p = Some ch"
    by (cases "leaves_at (lc_headLeaves c) p"; cases "leaves_at (lc_draftLeaves c) p")
      (auto simp: expected_change_def)
  finally show ?thesis .
qed

subsection \<open>What an analysis contains\<close>

text \<open>The comparison an analysis rests on, and the effects it traces leaves through.\<close>

lemma analysis_parts:
  assumes "analyze_table_structure tk ids equal deq input = Inr s"
    "unique_names (sd_schema (in_head input))" "unique_names (sd_schema (in_draft input))"
  obtains c effects where "separate_leaves c" "touches_recorded c effects"
    "lc_headLeaves c = leaves_of ids (sd_schema (in_head input))"
    "lc_draftLeaves c = leaves_of ids (sd_schema (in_draft input))"
    "st_unchangedLeaves s = unchanged_leaves equal c"
    "st_changedPointers s = changed_pointers equal c"
    "st_changedLeaves s = changed_leaves equal c effects"
    "st_publishedAtOwner s = published_at_owner equal c"
proof -
  let ?batches = "concat (map patch_batch_of (in_pendingMigrations input))"
  let ?effects = "replay_pending_patches tk (sd_schema (in_head input)) ?batches"
  from assms(1) obtain touched where touched: "pending_patch_pointers ?batches ?effects = Inr touched"
    and s: "st_unchangedLeaves s = unchanged_leaves equal (compare_leaves ids (in_head input) (in_draft input) touched)"
      "st_changedPointers s = changed_pointers equal (compare_leaves ids (in_head input) (in_draft input) touched)"
      "st_changedLeaves s = changed_leaves equal (compare_leaves ids (in_head input) (in_draft input) touched)
         (case ?effects of None \<Rightarrow> [] | Some es \<Rightarrow> es)"
      "st_publishedAtOwner s = published_at_owner equal (compare_leaves ids (in_head input) (in_draft input) touched)"
    by (auto simp: analyze_table_structure_def Let_def)
  have "touches_recorded (compare_leaves ids (in_head input) (in_draft input) touched)
      (case ?effects of None \<Rightarrow> [] | Some es \<Rightarrow> es)"
    using touched
    by (auto simp: touches_recorded_def compare_leaves_def pending_patch_pointers_def
        split: option.splits)
  from that [OF separate_compare_leaves [OF assms(2,3)] this _ _ s] show ?thesis
    by (simp add: compare_leaves_def)
qed

lemma published_at_owner_facts:
  assumes "published_at_owner equal c = owner"
  shows "owner = FieldOwner p \<Longrightarrow>
      \<exists>leaf \<in> set (unchanged_leaves equal c). leaf_pointer leaf = p \<and> leaf_kind leaf = PublishedAtLeaf"
    and "owner = RowColumnsOwner \<longleftrightarrow>
      (\<forall>leaf \<in> set (lc_draftLeaves c). leaf_kind leaf \<noteq> PublishedAtLeaf)"
proof -
  have found: "published_at_field ls = Some l \<Longrightarrow> l \<in> set ls \<and> leaf_kind l = PublishedAtLeaf" for ls l
    by (auto simp: published_at_field_def find_Some_iff)
  have none: "published_at_field ls = None \<longleftrightarrow> (\<forall>l \<in> set ls. leaf_kind l \<noteq> PublishedAtLeaf)" for ls
    by (auto simp: published_at_field_def find_None_iff)
  show "owner = FieldOwner p \<Longrightarrow>
      \<exists>leaf \<in> set (unchanged_leaves equal c). leaf_pointer leaf = p \<and> leaf_kind leaf = PublishedAtLeaf"
    using assms found by (auto simp: published_at_owner_def split: option.splits if_splits)
  show "owner = RowColumnsOwner \<longleftrightarrow>
      (\<forall>leaf \<in> set (lc_draftLeaves c). leaf_kind leaf \<noteq> PublishedAtLeaf)"
    unfolding none [symmetric] assms [symmetric]
    by (auto simp: published_at_owner_def split: option.splits)
qed

text \<open>What the catalogue builds on: owners of leaves are told apart by their pointers, and where the
  structure owns something of the rows of a table, the structure of the table differs.\<close>

lemma owner_pointers:
  assumes "st_unchangedLeaves s = unchanged_leaves equal c" "st_changedPointers s = changed_pointers equal c"
  shows "map lw_pointer (leaf_owners_of s) =
      map leaf_pointer (filter stores_value_in_data (unchanged_leaves equal c)) @ changed_pointers equal c"
  by (simp add: leaf_owners_of_def assms o_def)

lemma analysed_owners_distinct:
  assumes "analyze_table_structure tk ids equal deq input = Inr s"
    "unique_names (sd_schema (in_head input))" "unique_names (sd_schema (in_draft input))"
  shows "distinct (map lw_pointer (leaf_owners_of s))"
proof -
  obtain c where c: "separate_leaves c"
    "st_unchangedLeaves s = unchanged_leaves equal c" "st_changedPointers s = changed_pointers equal c"
    by (rule analysis_parts [OF assms]) blast
  have "distinct (map leaf_pointer (unchanged_leaves equal c))"
    using c(1) by (simp add: unchanged_leaves_def separate_leaves_def distinct_map_filter)
  then have "distinct (map leaf_pointer (filter stores_value_in_data (unchanged_leaves equal c)))"
    by (simp add: distinct_map_filter)
  moreover have "set (map leaf_pointer (filter stores_value_in_data (unchanged_leaves equal c))) \<inter>
      set (changed_pointers equal c) = {}"
    by (auto simp: changed_pointers_facts)
  ultimately show ?thesis
    unfolding owner_pointers [OF c(2,3)] using changed_pointers_facts(1) [of equal c] by simp
qed

lemma structure_owner_differs:
  assumes "analyze_table_structure tk ids equal deq input = Inr s"
    "unique_names (sd_schema (in_head input))" "unique_names (sd_schema (in_draft input))"
  shows "leaf \<in> set (leaf_owners_of s) \<Longrightarrow> lw_owner leaf = OwnedByStructure \<Longrightarrow> st_differs s"
    and "column_owner_of column s = StructureOwner \<Longrightarrow> st_differs s"
proof -
  have differs: "st_differs s" if "st_changedPointers s \<noteq> []"
    using assms(1) that by (auto simp: analyze_table_structure_def Let_def structure_differs_def)
  then show "leaf \<in> set (leaf_owners_of s) \<Longrightarrow> lw_owner leaf = OwnedByStructure \<Longrightarrow> st_differs s"
    by (cases "st_changedPointers s") (auto simp: leaf_owners_of_def)
  obtain c where c: "separate_leaves c" "st_changedPointers s = changed_pointers equal c"
    "st_publishedAtOwner s = published_at_owner equal c"
    by (rule analysis_parts [OF assms]) blast
  have "st_differs s" if owner: "published_at_owner equal c = StructureOwner"
  proof -
    obtain l where l: "published_at_field (lc_draftLeaves c) = Some l" "l \<notin> set (unchanged_leaves equal c)"
      using owner by (auto simp: published_at_owner_def split: option.splits if_splits)
    then have draft: "l \<in> set (lc_draftLeaves c)" by (auto simp: published_at_field_def find_Some_iff)
    with l(2) have "\<not> is_unchanged equal c l" by (simp add: unchanged_leaves_def)
    with draft have "leaf_pointer l \<in> set (changed_pointers equal c)"
      unfolding changed_pointers_facts using unchanged_pointer_iff [OF c(1) draft] by simp
    then show ?thesis by (intro differs) (auto simp: c(2))
  qed
  with c(3) show "column_owner_of column s = StructureOwner \<Longrightarrow> st_differs s"
    by (cases column) (auto simp: schema_hash_owner_def split: if_splits)
qed

subsection \<open>An example\<close>

text \<open>A table whose field \<open>a\<close> moves to \<open>b.x\<close> by a pending migration.\<close>

definition example_draft_schema :: json where
  "example_draft_schema = object_schema
     [(''b'', object_schema [(''c'', ref_schema ''published''), (''d'', object_schema []),
       (''x'', string_schema)])]"

definition example_side :: "json \<Rightarrow> table_side" where
  "example_side schema =
     \<lparr>sd_tableId = ''t'', sd_schema = schema, sd_history = [], sd_tableIdentities = []\<rparr>"

definition example_input :: table_structure_input where
  "example_input =
     \<lparr>in_head = example_side example_schema, in_draft = example_side example_draft_schema,
      in_pendingMigrations =
        [UpdateMigration 0 ''1'' ''t'' ''h''
           [MovePatch ''/properties/a'' ''/properties/b/properties/x'']],
      in_replayedHeadSchema = None\<rparr>"

definition example_structure :: table_structure where
  "example_structure =
     \<lparr>st_pendingHistory = ExtendsHead [], st_recorded = False, st_differs = True,
      st_unchangedLeaves =
        [\<lparr>leaf_pointer = [''b'', ''c''], leaf_kind = PublishedAtLeaf,
          leaf_schema = ref_schema ''published''\<rparr>],
      st_changedPointers = [[''b'', ''x''], [''a'']],
      st_changedLeaves =
        [\<lparr>cl_pointer = [''b'', ''x''], cl_change = Moved, cl_from = Some [''a'']\<rparr>],
      st_publishedAtOwner = FieldOwner [''b'', ''c'']\<rparr>"

lemma example_analysis:
  "analyze_table_structure root_toolkit example_ids (=) (=) example_input = Inr example_structure"
  by code_simp

lemma example_input_unique:
  "unique_names (sd_schema (in_head example_input))"
  "unique_names (sd_schema (in_draft example_input))"
  by code_simp+

lemmas example_facts = example_analysis example_input_unique

subsection \<open>Properties\<close>

text \<open>Claim C22: an analysis accounts for every leaf of both sides: a pointer that has a leaf is either that of
  one unchanged leaf or listed once as changed, never both, and nothing else is listed.\<close>

theorem structure_accounts_for_every_leaf:
  assumes "analyze_table_structure tk ids equal deq input = Inr s"
    "unique_names (sd_schema (in_head input))" "unique_names (sd_schema (in_draft input))"
  shows "distinct (map leaf_pointer (st_unchangedLeaves s) @ st_changedPointers s) \<and>
    set (map leaf_pointer (st_unchangedLeaves s) @ st_changedPointers s) =
      set (map leaf_pointer (leaves_of ids (sd_schema (in_head input)) @
        leaves_of ids (sd_schema (in_draft input))))"
proof -
  obtain c where c: "separate_leaves c"
    "lc_headLeaves c = leaves_of ids (sd_schema (in_head input))"
    "lc_draftLeaves c = leaves_of ids (sd_schema (in_draft input))"
    "st_unchangedLeaves s = unchanged_leaves equal c"
    "st_changedPointers s = changed_pointers equal c"
    by (rule analysis_parts [OF assms]) blast
  have "distinct (map leaf_pointer (unchanged_leaves equal c))"
    using c(1) by (simp add: unchanged_leaves_def separate_leaves_def distinct_map_filter)
  moreover have "leaf_pointer ` set (unchanged_leaves equal c) \<subseteq> leaf_pointer ` set (lc_draftLeaves c)"
    by (auto simp: unchanged_leaves_def)
  ultimately show ?thesis
    unfolding c(2-5) [symmetric] using changed_pointers_facts [of equal c]
    unfolding c(4,5) distinct_append set_append set_map image_Un c(2,3) by blast
qed

theorem structure_accounts_for_every_leaf_witness:
  "analyze_table_structure root_toolkit example_ids (=) (=) example_input = Inr example_structure \<and>
   set (map leaf_pointer (leaves_of example_ids example_schema @
     leaves_of example_ids example_draft_schema)) = {[''a''], [''b'', ''c''], [''b'', ''x'']}"
proof -
  have "map leaf_pointer (st_unchangedLeaves example_structure) @ st_changedPointers example_structure =
      [[''b'', ''c''], [''b'', ''x''], [''a'']]" by code_simp
  then show ?thesis
    using structure_accounts_for_every_leaf [OF example_facts] example_analysis
    by (simp add: example_input_def example_side_def) blast
qed

text \<open>The changes an analysis reports are sound: each is at a changed pointer, and no pointer has
  two; so an unchanged leaf is never reported, whatever the pending patches moved.\<close>

theorem reported_changes_are_changed_pointers:
  assumes "analyze_table_structure tk ids equal deq input = Inr s"
    "unique_names (sd_schema (in_head input))" "unique_names (sd_schema (in_draft input))"
  shows "distinct (map cl_pointer (st_changedLeaves s)) \<and>
    set (map cl_pointer (st_changedLeaves s)) \<subseteq> set (st_changedPointers s)"
proof -
  obtain c effects where "separate_leaves c" "touches_recorded c effects"
    "st_changedPointers s = changed_pointers equal c"
    "st_changedLeaves s = changed_leaves equal c effects"
    by (rule analysis_parts [OF assms]) blast
  then show ?thesis
    using changed_leaves_distinct changed_leaves_in_changed_pointers by auto
qed

theorem reported_changes_are_changed_pointers_witness:
  "analyze_table_structure root_toolkit example_ids (=) (=) example_input = Inr example_structure \<and>
   map cl_pointer (st_changedLeaves example_structure) = [[''b'', ''x'']] \<and>
   set [[''b'', ''x'']] \<subseteq> set (st_changedPointers example_structure)"
proof -
  have "map cl_pointer (st_changedLeaves example_structure) = [[''b'', ''x'']]" by code_simp
  then show ?thesis
    using reported_changes_are_changed_pointers [OF example_facts] example_analysis by simp
qed

text \<open>Comparing a removed table with the one created in its place, a change is reported at a
  pointer exactly as the leaves there tell: added or removed when one side has none, changed when
  both do and their schemas differ up to annotations and table renames.\<close>

theorem replaced_table_changes_exactly:
  assumes "unique_names (sd_schema removed)" "unique_names (sd_schema created)"
  shows "\<lparr>cl_pointer = p, cl_change = change, cl_from = f\<rparr>
      \<in> set (changed_leaves_of_replaced_table ids equal removed created) \<longleftrightarrow>
    f = None \<and> expected_change equal (compare_leaves ids removed created []) p = Some change"
  unfolding changed_leaves_of_replaced_table_def
  by (rule changed_leaves_no_effects [OF separate_compare_leaves [OF assms]])

theorem replaced_table_changes_exactly_witness:
  "unique_names example_schema \<and> unique_names example_draft_schema \<and>
   \<lparr>cl_pointer = [''a''], cl_change = Removed, cl_from = None\<rparr>
     \<in> set (changed_leaves_of_replaced_table example_ids (=) (example_side example_schema)
         (example_side example_draft_schema))"
proof -
  have "expected_change (=) (compare_leaves example_ids (example_side example_schema)
      (example_side example_draft_schema) []) [''a''] = Some Removed" by code_simp
  then show ?thesis
    using replaced_table_changes_exactly [of "example_side example_schema"
        "example_side example_draft_schema" "[''a'']" Removed None example_ids "(=)"]
      example_input_unique by (simp add: example_input_def example_side_def)
qed

text \<open>Every place data lives in has one owner: the owners of an analysed table name each pointer
  once, a field owns only unchanged leaves that store data, and the pointer that owns the
  published-at column is none of them.\<close>

theorem leaf_owners_are_exclusive:
  assumes "analyze_table_structure tk ids equal deq input = Inr s"
    "unique_names (sd_schema (in_head input))" "unique_names (sd_schema (in_draft input))"
  shows "distinct (map lw_pointer (leaf_owners_of s)) \<and>
    {leaf_pointer leaf |leaf. leaf \<in> set (leaves_of ids (sd_schema (in_draft input))) \<and>
       stores_value_in_data leaf} \<subseteq> set (map lw_pointer (leaf_owners_of s)) \<and>
    (\<forall>p. column_owner_of PublishedAtColumn s = FieldOwner p \<longrightarrow> p \<notin> set (map lw_pointer (leaf_owners_of s)))"
proof -
  obtain c where c: "separate_leaves c"
    "lc_draftLeaves c = leaves_of ids (sd_schema (in_draft input))"
    "st_unchangedLeaves s = unchanged_leaves equal c"
    "st_changedPointers s = changed_pointers equal c"
    "st_publishedAtOwner s = published_at_owner equal c"
    by (rule analysis_parts [OF assms]) blast
  let ?un = "unchanged_leaves equal c"
  note pointers = owner_pointers [OF c(3,4)]
  have un: "distinct (map leaf_pointer ?un)"
    using c(1) by (simp add: unchanged_leaves_def separate_leaves_def distinct_map_filter)
  have "distinct (map lw_pointer (leaf_owners_of s))" by (rule analysed_owners_distinct [OF assms])
  moreover have "leaf_pointer leaf \<in> set (map lw_pointer (leaf_owners_of s))"
    if "leaf \<in> set (lc_draftLeaves c)" "stores_value_in_data leaf" for leaf
  proof (cases "is_unchanged equal c leaf")
    case True
    with that have "leaf \<in> set (filter stores_value_in_data ?un)" by (simp add: unchanged_leaves_def)
    then show ?thesis unfolding pointers by auto
  next
    case False
    with that have "leaf_pointer leaf \<in> set (changed_pointers equal c)"
      unfolding changed_pointers_facts using unchanged_pointer_iff [OF c(1)] by simp
    then show ?thesis unfolding pointers by simp
  qed
  moreover have "p \<notin> set (map lw_pointer (leaf_owners_of s))"
    if owner: "column_owner_of PublishedAtColumn s = FieldOwner p" for p
  proof -
    from owner obtain l where l: "l \<in> set ?un" "leaf_pointer l = p" "leaf_kind l = PublishedAtLeaf"
      using published_at_owner_facts(1) [of equal c] c(5) by auto
    have "p \<notin> set (map leaf_pointer (filter stores_value_in_data ?un))"
    proof
      assume "p \<in> set (map leaf_pointer (filter stores_value_in_data ?un))"
      then obtain l' where l': "l' \<in> set ?un" "leaf_pointer l' = p" "stores_value_in_data l'" by auto
      with un l(1,2) have "l' = l" by (metis distinct_map inj_onD)
      with l(3) l'(3) show False by (simp add: stores_value_in_data_def)
    qed
    moreover have "p \<notin> set (changed_pointers equal c)"
      using l(1,2) by (auto simp: changed_pointers_facts)
    ultimately show ?thesis unfolding pointers by simp
  qed
  ultimately show ?thesis
    unfolding c(2) [symmetric] by auto
qed

theorem leaf_owners_are_exclusive_witness:
  "analyze_table_structure root_toolkit example_ids (=) (=) example_input = Inr example_structure \<and>
   column_owner_of PublishedAtColumn example_structure = FieldOwner [''b'', ''c''] \<and>
   [''b'', ''c''] \<notin> set (map lw_pointer (leaf_owners_of example_structure))"
proof -
  have "column_owner_of PublishedAtColumn example_structure = FieldOwner [''b'', ''c'']"
    by code_simp
  then show ?thesis
    using leaf_owners_are_exclusive [OF example_facts] example_analysis by simp
qed

end
