(* ===== verification/Views.thy ===== *)
theory Views
  imports Schema_Rules
begin

section \<open>Views of a table\<close>

text \<open>
  The documents the views table stores (\<^verbatim>\<open>views/types/views.types.ts\<close>), their migration through the
  patches of a schema (\<^verbatim>\<open>share/views-migration.service.ts\<close>) and their validation
  (\<^verbatim>\<open>views/services/view-validation.service.ts\<close>). The AJV validation of the document and the paths
  the schema toolkit traverses are parameters. Property schemas are objects, as the types say.
\<close>

datatype 'a nullable = Absent | Null | Present 'a

record view_column =
  vcol_field :: string
  vcol_width :: "rat option"
  vcol_pinned :: "string option"

record view_condition =
  vc_field :: string
  vc_operator :: string
  vc_value :: "json option"

datatype filter_group =
  FilterGroup (fg_logic: "string option") (fg_conditions: "view_condition list option")
    (fg_groups: "filter_group list option")

record view_sort =
  vs_field :: string
  vs_direction :: string

record view =
  vw_id :: string
  vw_name :: string
  vw_description :: "string option"
  vw_columns :: "view_column list nullable"
  vw_filters :: "filter_group option"
  vw_sorts :: "view_sort list option"
  vw_search :: "string option"

record table_views =
  tw_version :: int
  tw_defaultViewId :: string
  tw_views :: "view list"

subsection \<open>Fields in a view\<close>

fun rename_field_in_filter_group :: "string \<Rightarrow> string \<Rightarrow> filter_group \<Rightarrow> filter_group" where
  "rename_field_in_filter_group old new (FilterGroup logic conditions groups) =
     FilterGroup logic
       (map_option (map (\<lambda>c. c\<lparr>vc_field := if vc_field c = old then new else vc_field c\<rparr>)) conditions)
       (map_option (map (rename_field_in_filter_group old new)) groups)"

definition rename_field_in_columns :: "string \<Rightarrow> string \<Rightarrow> view_column list \<Rightarrow> view_column list" where
  "rename_field_in_columns old new columns =
     map (\<lambda>c. c\<lparr>vcol_field := if vcol_field c = old then new else vcol_field c\<rparr>) columns"

definition rename_field_in_sorts :: "string \<Rightarrow> string \<Rightarrow> view_sort list \<Rightarrow> view_sort list" where
  "rename_field_in_sorts old new sorts =
     map (\<lambda>s. s\<lparr>vs_field := if vs_field s = old then new else vs_field s\<rparr>) sorts"

definition on_columns ::
  "(view_column list \<Rightarrow> view_column list) \<Rightarrow> view_column list nullable \<Rightarrow> view_column list nullable" where
  "on_columns f columns = (case columns of Present cs \<Rightarrow> Present (f cs) | other \<Rightarrow> other)"

definition rename_field_in_view :: "string \<Rightarrow> string \<Rightarrow> view \<Rightarrow> view" where
  "rename_field_in_view old new v =
     v\<lparr>vw_columns := on_columns (rename_field_in_columns old new) (vw_columns v),
       vw_sorts := map_option (rename_field_in_sorts old new) (vw_sorts v),
       vw_filters := map_option (rename_field_in_filter_group old new) (vw_filters v)\<rparr>"

definition has_entries :: "'a list option \<Rightarrow> bool" where
  "has_entries xs = (case xs of None \<Rightarrow> False | Some ys \<Rightarrow> 0 < length ys)"

fun remove_field_from_filter_group :: "string \<Rightarrow> filter_group \<Rightarrow> filter_group" where
  "remove_field_from_filter_group field (FilterGroup logic conditions groups) =
     FilterGroup logic
       (map_option (filter (\<lambda>c. vc_field c \<noteq> field)) conditions)
       (map_option (\<lambda>gs. filter (\<lambda>g. has_entries (fg_conditions g) \<or> has_entries (fg_groups g))
         (map (remove_field_from_filter_group field) gs)) groups)"

definition remove_field_from_columns :: "string \<Rightarrow> view_column list \<Rightarrow> view_column list" where
  "remove_field_from_columns field columns = filter (\<lambda>c. vcol_field c \<noteq> field) columns"

definition remove_field_from_sorts :: "string \<Rightarrow> view_sort list \<Rightarrow> view_sort list" where
  "remove_field_from_sorts field sorts = filter (\<lambda>s. vs_field s \<noteq> field) sorts"

definition remove_field_from_view :: "string \<Rightarrow> view \<Rightarrow> view" where
  "remove_field_from_view field v =
     v\<lparr>vw_columns := on_columns (remove_field_from_columns field) (vw_columns v),
       vw_sorts := map_option (remove_field_from_sorts field) (vw_sorts v),
       vw_filters := map_option (remove_field_from_filter_group field) (vw_filters v)\<rparr>"

definition remove_filters_for_field :: "string \<Rightarrow> view \<Rightarrow> view" where
  "remove_filters_for_field field v =
     v\<lparr>vw_filters := map_option (remove_field_from_filter_group field) (vw_filters v)\<rparr>"

subsection \<open>Migrating views through patches\<close>

definition normalize_patch_path :: "string \<Rightarrow> string" where
  "normalize_patch_path path =
     (let cleanPath = if prefix ''/'' path then drop 1 path else path
      in if prefix ''properties/'' cleanPath then drop (length ''properties/'') cleanPath else cleanPath)"

definition patch_path_to_field_path :: "string \<Rightarrow> string" where
  "patch_path_to_field_path patchPath = ''data.'' @ normalize_patch_path patchPath"

record views_migration_state =
  ms_viewsData :: table_views
  ms_fieldRenames :: "(string, string) jmap"

definition on_views :: "(view \<Rightarrow> view) \<Rightarrow> table_views \<Rightarrow> table_views" where
  "on_views f viewsData = viewsData\<lparr>tw_views := map f (tw_views viewsData)\<rparr>"

definition get_schema_type :: "json option \<Rightarrow> string option" where
  "get_schema_type schema =
     (case schema of
        None \<Rightarrow> None
      | Some s \<Rightarrow>
          if jhas s ''$ref'' then None
          else (case jfield s ''type'' of Some (JStr t) \<Rightarrow> Some t | _ \<Rightarrow> None))"

definition get_field_type :: "json \<Rightarrow> string \<Rightarrow> string option outcome" where
  "get_field_type schema fieldName =
     (if \<not> jhas schema ''$ref'' \<and> jfield schema ''type'' = Some (JStr ''object'')
      then (case jfield schema ''properties'' of
              None \<Rightarrow> Inl (''Cannot read properties of undefined (reading '' @ fieldName @ '')'')
            | Some properties \<Rightarrow> Inr (get_schema_type (jfield properties fieldName)))
      else Inr None)"

definition renamed_from :: "(string, string) jmap \<Rightarrow> string \<Rightarrow> string" where
  "renamed_from renames name = (case map_of renames name of None \<Rightarrow> name | Some original \<Rightarrow> original)"

definition apply_move_patch ::
  "views_migration_state \<Rightarrow> string \<Rightarrow> string \<Rightarrow> views_migration_state" where
  "apply_move_patch state source target =
     (let cleanFrom = normalize_patch_path source;
          cleanTo = normalize_patch_path target;
          originalPath = renamed_from (ms_fieldRenames state) cleanFrom
      in \<lparr>ms_viewsData = on_views (rename_field_in_view (patch_path_to_field_path source)
             (patch_path_to_field_path target)) (ms_viewsData state),
          ms_fieldRenames = AList.update cleanTo originalPath
            (AList.delete cleanFrom (ms_fieldRenames state))\<rparr>)"

definition apply_remove_patch :: "table_views \<Rightarrow> string \<Rightarrow> table_views" where
  "apply_remove_patch viewsData path =
     on_views (remove_field_from_view (patch_path_to_field_path path)) viewsData"

text \<open>A type that is an empty text is as falsy as none.\<close>

definition apply_replace_patch ::
  "table_views \<Rightarrow> string \<Rightarrow> json \<Rightarrow> json \<Rightarrow> (string, string) jmap \<Rightarrow> table_views outcome" where
  "apply_replace_patch viewsData path newSchema previousSchema fieldRenames =
     try_bind (get_field_type previousSchema (renamed_from fieldRenames (normalize_patch_path path)))
       (\<lambda>previousType. Inr (case (previousType, get_schema_type (Some newSchema)) of
           (Some previous, Some new) \<Rightarrow>
             if previous \<noteq> '''' \<and> new \<noteq> '''' \<and> previous \<noteq> new
             then on_views (remove_filters_for_field (patch_path_to_field_path path)) viewsData
             else viewsData
         | _ \<Rightarrow> viewsData))"

fun apply_views_patch ::
  "views_migration_state \<Rightarrow> json_patch \<Rightarrow> json \<Rightarrow> views_migration_state outcome" where
  "apply_views_patch state (MovePatch source target) previousSchema =
     Inr (apply_move_patch state source target)"
| "apply_views_patch state (RemovePatch path) previousSchema =
     Inr (state\<lparr>ms_viewsData := apply_remove_patch (ms_viewsData state) path\<rparr>)"
| "apply_views_patch state (ReplacePatch path newSchema) previousSchema =
     try_bind (apply_replace_patch (ms_viewsData state) path newSchema previousSchema (ms_fieldRenames state))
       (\<lambda>viewsData. Inr (state\<lparr>ms_viewsData := viewsData\<rparr>))"
| "apply_views_patch state (AddPatch path newSchema) previousSchema = Inr state"

fun patch_op :: "json_patch \<Rightarrow> string" where
  "patch_op (MovePatch _ _) = ''move''"
| "patch_op (RemovePatch _) = ''remove''"
| "patch_op (ReplacePatch _ _) = ''replace''"
| "patch_op (AddPatch _ _) = ''add''"

text \<open>\<open>context\<close> names the table in the error; without one the error of the patch is thrown on.\<close>

definition migrate_views ::
  "table_views \<Rightarrow> json_patch list \<Rightarrow> json \<Rightarrow> string option \<Rightarrow> table_views outcome" where
  "migrate_views viewsData patches previousSchema contextTable =
     try_bind (fold_try (\<lambda>patch state.
         case apply_views_patch state patch previousSchema of
           Inr state' \<Rightarrow> Inr state'
         | Inl e \<Rightarrow> Inl (case contextTable of
               None \<Rightarrow> e
             | Some tableId \<Rightarrow> ''Failed to apply patch \"'' @ patch_op patch @ ''\" at path \"'' @
                 patch_path patch @ ''\" for table \"'' @ tableId @ ''\"''))
       patches \<lparr>ms_viewsData = viewsData, ms_fieldRenames = []\<rparr>)
     (\<lambda>state. Inr (ms_viewsData state))"

subsection \<open>Validating views\<close>

datatype view_component = ColumnsComponent | SortsComponent | FiltersComponent | DefaultViewComponent

datatype failure_category = DataFailure | IdentityFailure

record view_validation_failure =
  vf_category :: failure_category
  vf_message :: string
  vf_viewId :: "string option"
  vf_component :: "view_component option"
  vf_path :: "string option"

record view_field_failure =
  ff_viewId :: string
  ff_component :: view_component
  ff_path :: string

definition view_id_pattern :: "string \<Rightarrow> bool" where
  "view_id_pattern i = matches_url_like_pattern i"

definition view_id_max_length :: nat where
  "view_id_max_length = 64"

definition system_fields :: "string list" where
  "system_fields =
     [''id'', ''createdAt'', ''updatedAt'', ''createdId'', ''versionId'', ''publishedAt'', ''hash'',
      ''schemaHash'']"

definition identity_failure :: "string \<Rightarrow> view_validation_failure" where
  "identity_failure message =
     \<lparr>vf_category = IdentityFailure, vf_message = message, vf_viewId = None, vf_component = None,
      vf_path = None\<rparr>"

definition validate_default_view ::
  "table_views \<Rightarrow> string list \<Rightarrow> view_validation_failure option" where
  "validate_default_view viewsData viewIds =
     (if tw_defaultViewId viewsData \<notin> set viewIds
      then Some ((identity_failure (''Default view \"'' @ tw_defaultViewId viewsData @
               ''\" does not exist in views list''))
             \<lparr>vf_component := Some DefaultViewComponent, vf_path := Some ''/defaultViewId''\<rparr>)
      else None)"

definition validate_unique_view_ids :: "string list \<Rightarrow> view_validation_failure option" where
  "validate_unique_view_ids viewIds =
     (if length (uniq viewIds) \<noteq> length viewIds then Some (identity_failure ''View IDs must be unique'')
      else None)"

fun validate_view_ids :: "string list \<Rightarrow> view_validation_failure option" where
  "validate_view_ids [] = None"
| "validate_view_ids (i # is) =
     (if length i < 1 \<or> view_id_max_length < length i \<or> \<not> view_id_pattern i
      then Some ((identity_failure (''View ID \"'' @ i @ ''\" is invalid. '' @
                 validate_url_like_id_error_message))\<lparr>vf_viewId := Some i\<rparr>)
      else validate_view_ids is)"

definition first_failure :: "'e option list \<Rightarrow> 'e option" where
  "first_failure checks = (case filter (\<lambda>c. c \<noteq> None) checks of [] \<Rightarrow> None | c # _ \<Rightarrow> c)"

definition validate_view_identities :: "table_views \<Rightarrow> view_validation_failure option" where
  "validate_view_identities viewsData =
     (let ids = map vw_id (tw_views viewsData)
      in first_failure [validate_default_view viewsData ids, validate_unique_view_ids ids,
           validate_view_ids ids])"

definition is_valid_field :: "string \<Rightarrow> string set \<Rightarrow> bool" where
  "is_valid_field field validFields =
     (if field \<in> set system_fields then True
      else if prefix ''data.'' field then drop (length ''data.'') field \<in> validFields
      else False)"

definition invalid_among ::
  "string \<Rightarrow> view_component \<Rightarrow> string set \<Rightarrow> string list \<Rightarrow> view_field_failure list" where
  "invalid_among viewId component validFields names =
     map (\<lambda>name. \<lparr>ff_viewId = viewId, ff_component = component, ff_path = name\<rparr>)
       (filter (\<lambda>name. \<not> is_valid_field name validFields) names)"

fun validate_filter_group_fields ::
  "string \<Rightarrow> filter_group \<Rightarrow> string set \<Rightarrow> view_field_failure list" where
  "validate_filter_group_fields viewId (FilterGroup logic conditions groups) validFields =
     (case conditions of
        None \<Rightarrow> []
      | Some cs \<Rightarrow> invalid_among viewId FiltersComponent validFields (map vc_field cs)) @
     (case groups of
        None \<Rightarrow> []
      | Some gs \<Rightarrow> concat (map (\<lambda>g. validate_filter_group_fields viewId g validFields) gs))"

definition validate_view_fields :: "view \<Rightarrow> string set \<Rightarrow> view_field_failure list" where
  "validate_view_fields v validFields =
     (case vw_columns v of
        Present columns \<Rightarrow> invalid_among (vw_id v) ColumnsComponent validFields (map vcol_field columns)
      | _ \<Rightarrow> []) @
     (case vw_sorts v of
        None \<Rightarrow> []
      | Some sorts \<Rightarrow> invalid_among (vw_id v) SortsComponent validFields (map vs_field sorts)) @
     (case vw_filters v of
        None \<Rightarrow> []
      | Some group1 \<Rightarrow> validate_filter_group_fields (vw_id v) group1 validFields)"

definition find_invalid_view_fields :: "table_views \<Rightarrow> string set \<Rightarrow> view_field_failure list" where
  "find_invalid_view_fields viewsData validFields =
     concat (map (\<lambda>v. validate_view_fields v validFields) (tw_views viewsData))"

definition reject_invalid_view_fields ::
  "string \<Rightarrow> view_field_failure list \<Rightarrow> view_validation_failure option" where
  "reject_invalid_view_fields tableId invalidFields =
     (case invalidFields of
        [] \<Rightarrow> None
      | first # _ \<Rightarrow> Some
          \<lparr>vf_category = DataFailure,
           vf_message = ''Invalid fields in views: '' @ js_join '', '' (uniq (map ff_path invalidFields)) @
             ''. These fields do not exist in table \"'' @ tableId @ ''\".'',
           vf_viewId = Some (ff_viewId first), vf_component = Some (ff_component first),
           vf_path = Some (ff_path first)\<rparr>)"

definition validate_supplied_schema_fields ::
  "string \<Rightarrow> table_views \<Rightarrow> string set \<Rightarrow> view_validation_failure option" where
  "validate_supplied_schema_fields tableId viewsData validFields =
     reject_invalid_view_fields tableId (find_invalid_view_fields viewsData validFields)"

text \<open>
  \<open>extractValidFieldsFromSchema\<close>: the paths of the named nodes of a schema, each as the toolkit prints
  it with the prefix of the database path cut.
\<close>

definition field_paths_of :: "string list \<Rightarrow> string set" where
  "field_paths_of dbPaths =
     set (map (\<lambda>path. if prefix ''$.'' path then drop (length ''$.'') path else path) dbPaths)"

subsection \<open>The fields a view mentions\<close>

fun group_fields :: "filter_group \<Rightarrow> string list" where
  "group_fields (FilterGroup logic conditions groups) =
     (case conditions of None \<Rightarrow> [] | Some cs \<Rightarrow> map vc_field cs) @
     (case groups of None \<Rightarrow> [] | Some gs \<Rightarrow> concat (map group_fields gs))"

definition view_fields :: "view \<Rightarrow> string list" where
  "view_fields v =
     (case vw_columns v of Present columns \<Rightarrow> map vcol_field columns | _ \<Rightarrow> []) @
     (case vw_sorts v of None \<Rightarrow> [] | Some sorts \<Rightarrow> map vs_field sorts) @
     (case vw_filters v of None \<Rightarrow> [] | Some g \<Rightarrow> group_fields g)"

definition views_fields :: "table_views \<Rightarrow> string list" where
  "views_fields viewsData = concat (map view_fields (tw_views viewsData))"

definition renamed :: "string \<Rightarrow> string \<Rightarrow> string \<Rightarrow> string" where
  "renamed old new field = (if field = old then new else field)"

lemma group_fields_rename:
  "group_fields (rename_field_in_filter_group old new g) = map (renamed old new) (group_fields g)"
proof (induction old new g rule: rename_field_in_filter_group.induct)
  case (1 old new logic conditions groups)
  have "concat (map group_fields (map (rename_field_in_filter_group old new) gs)) =
      map (renamed old new) (concat (map group_fields gs))" if "groups = Some gs" for gs
  proof -
    have "map group_fields (map (rename_field_in_filter_group old new) gs) =
        map (map (renamed old new) \<circ> group_fields) gs"
      unfolding list.map_comp by (rule map_cong) (use 1 that in auto)
    then show ?thesis by (simp only: map_concat list.map_comp)
  qed
  then show ?case
    by (cases conditions; cases groups) (simp_all add: renamed_def comp_def)
qed

lemma group_without_entries:
  "\<not> (has_entries (fg_conditions g) \<or> has_entries (fg_groups g)) \<Longrightarrow> group_fields g = []"
  by (cases g) (auto simp: has_entries_def split: option.splits)

lemma concat_map_filter: "(\<And>x. \<not> P x \<Longrightarrow> f x = []) \<Longrightarrow> concat (map f (filter P xs)) = concat (map f xs)"
  by (induction xs) auto

lemma group_fields_remove:
  "group_fields (remove_field_from_filter_group field g) = filter (\<lambda>f. f \<noteq> field) (group_fields g)"
proof (induction field g rule: remove_field_from_filter_group.induct)
  case (1 field logic conditions groups)
  have "concat (map group_fields (filter (\<lambda>g. has_entries (fg_conditions g) \<or> has_entries (fg_groups g))
      (map (remove_field_from_filter_group field) gs))) =
      filter (\<lambda>f. f \<noteq> field) (concat (map group_fields gs))" if "groups = Some gs" for gs
  proof -
    have "map group_fields (map (remove_field_from_filter_group field) gs) =
        map (filter (\<lambda>f. f \<noteq> field) \<circ> group_fields) gs"
      unfolding list.map_comp by (rule map_cong) (use 1 that in auto)
    moreover have "concat (map group_fields (filter (\<lambda>g. has_entries (fg_conditions g) \<or> has_entries (fg_groups g))
        (map (remove_field_from_filter_group field) gs))) =
        concat (map group_fields (map (remove_field_from_filter_group field) gs))"
      by (rule concat_map_filter) (rule group_without_entries)
    ultimately show ?thesis by (simp only: filter_concat list.map_comp)
  qed
  then show ?case
    by (cases conditions; cases groups) (simp_all add: filter_map comp_def)
qed

lemma view_fields_rename: "view_fields (rename_field_in_view old new v) = map (renamed old new) (view_fields v)"
  by (cases "vw_columns v"; cases "vw_sorts v"; cases "vw_filters v")
    (simp_all add: view_fields_def rename_field_in_view_def on_columns_def rename_field_in_columns_def
      rename_field_in_sorts_def group_fields_rename renamed_def comp_def)

lemma view_fields_remove: "view_fields (remove_field_from_view field v) = filter (\<lambda>f. f \<noteq> field) (view_fields v)"
  by (cases "vw_columns v"; cases "vw_sorts v"; cases "vw_filters v")
    (simp_all add: view_fields_def remove_field_from_view_def on_columns_def remove_field_from_columns_def
      remove_field_from_sorts_def group_fields_remove filter_map comp_def)

lemma view_fields_remove_filters: "set (view_fields (remove_filters_for_field field v)) \<subseteq> set (view_fields v)"
  by (cases "vw_filters v") (auto simp: view_fields_def remove_filters_for_field_def group_fields_remove)

lemma views_fields_rename:
  "views_fields (on_views (rename_field_in_view old new) vd) = map (renamed old new) (views_fields vd)"
  by (simp add: views_fields_def on_views_def view_fields_rename map_concat comp_def)

lemma views_fields_remove:
  "views_fields (on_views (remove_field_from_view field) vd) = filter (\<lambda>f. f \<noteq> field) (views_fields vd)"
  by (simp add: views_fields_def on_views_def view_fields_remove filter_concat comp_def)

lemma views_fields_remove_filters:
  "set (views_fields (on_views (remove_filters_for_field field) vd)) \<subseteq> set (views_fields vd)"
  using view_fields_remove_filters by (fastforce simp: views_fields_def on_views_def)

lemma same_view_ids [simp]:
  "vw_id (rename_field_in_view old new v) = vw_id v" "vw_id (remove_field_from_view field v) = vw_id v"
  "vw_id (remove_filters_for_field field v) = vw_id v"
  by (simp_all add: rename_field_in_view_def remove_field_from_view_def remove_filters_for_field_def)

lemma same_default_view [simp]: "tw_defaultViewId (on_views f vd) = tw_defaultViewId vd"
  by (simp add: on_views_def)

lemma view_ids_on_views [simp]: "(\<And>v. vw_id (f v) = vw_id v) \<Longrightarrow> map vw_id (tw_views (on_views f vd)) = map vw_id (tw_views vd)"
  by (simp add: on_views_def)

subsection \<open>Valid fields\<close>

lemma invalid_among_paths [simp]:
  "map ff_path (invalid_among viewId component V names) = filter (\<lambda>f. \<not> is_valid_field f V) names"
  by (simp add: invalid_among_def comp_def)

lemma filter_group_invalid_paths [simp]:
  "map ff_path (validate_filter_group_fields viewId g V) = filter (\<lambda>f. \<not> is_valid_field f V) (group_fields g)"
proof (induction viewId g V rule: validate_filter_group_fields.induct)
  case (1 viewId logic conditions groups V)
  have "map ff_path (concat (map (\<lambda>g. validate_filter_group_fields viewId g V) gs)) =
      filter (\<lambda>f. \<not> is_valid_field f V) (concat (map group_fields gs))" if "groups = Some gs" for gs
    unfolding map_concat filter_concat list.map_comp
    by (rule arg_cong [where f = concat], rule map_cong) (use 1 that in auto)
  then show ?case
    by (cases conditions; cases groups) simp_all
qed

lemma view_invalid_paths:
  "map ff_path (validate_view_fields v V) = filter (\<lambda>f. \<not> is_valid_field f V) (view_fields v)"
  by (cases "vw_columns v"; cases "vw_sorts v"; cases "vw_filters v")
    (simp_all add: validate_view_fields_def view_fields_def)

lemma invalid_paths:
  "map ff_path (find_invalid_view_fields vd V) = filter (\<lambda>f. \<not> is_valid_field f V) (views_fields vd)"
  by (simp add: find_invalid_view_fields_def views_fields_def map_concat filter_concat comp_def view_invalid_paths)

lemma validate_supplied_iff:
  "validate_supplied_schema_fields tableId vd V = None \<longleftrightarrow> (\<forall>f \<in> set (views_fields vd). is_valid_field f V)"
proof -
  have "validate_supplied_schema_fields tableId vd V = None \<longleftrightarrow> map ff_path (find_invalid_view_fields vd V) = []"
    by (simp add: validate_supplied_schema_fields_def reject_invalid_view_fields_def split: list.splits)
  then show ?thesis by (auto simp: invalid_paths filter_empty_conv)
qed

definition data_field :: "string \<Rightarrow> string" where
  "data_field name = ''data.'' @ name"

lemma data_field_valid [simp]: "is_valid_field (data_field name) V \<longleftrightarrow> name \<in> V"
  by (auto simp: is_valid_field_def system_fields_def data_field_def)

lemma data_field_eq [simp]: "data_field name = data_field name' \<longleftrightarrow> name = name'"
  by (simp add: data_field_def)

lemma data_field_not_system [simp]: "data_field name \<notin> set system_fields"
  by (simp add: system_fields_def data_field_def)

subsection \<open>Patches of top-level fields\<close>

text \<open>
  A name without \<^verbatim>\<open>/\<close>, \<^verbatim>\<open>~\<close>, \<^verbatim>\<open>.\<close> and \<^verbatim>\<open>[\<close> is written alike in a patch path and in the path of a field, and
  in both it names a property of the root of the schema. \<open>patched_names\<close> is what a patch at such paths
  does to the names of those properties.
\<close>

definition top_level_name :: "string \<Rightarrow> bool" where
  "top_level_name name \<longleftrightarrow> set name \<inter> {CHR ''/'', CHR ''~'', CHR ''.'', CHR ''[''} = {}"

definition property_path :: "string \<Rightarrow> string" where
  "property_path name = ''/properties/'' @ name"

fun patches_top_level :: "json_patch \<Rightarrow> bool" where
  "patches_top_level (MovePatch source target) \<longleftrightarrow>
     source \<in> property_path ` Collect top_level_name \<and> target \<in> property_path ` Collect top_level_name"
| "patches_top_level (RemovePatch path) \<longleftrightarrow> path \<in> property_path ` Collect top_level_name"
| "patches_top_level (AddPatch path _) \<longleftrightarrow> path \<in> property_path ` Collect top_level_name"
| "patches_top_level (ReplacePatch path _) \<longleftrightarrow> path \<in> property_path ` Collect top_level_name"

definition property_name :: "string \<Rightarrow> string" where
  "property_name path = drop (length ''/properties/'') path"

fun patched_names :: "json_patch \<Rightarrow> string set \<Rightarrow> string set" where
  "patched_names (MovePatch source target) names =
     insert (property_name target) (names - {property_name source})"
| "patched_names (RemovePatch path) names = names - {property_name path}"
| "patched_names (AddPatch path _) names = insert (property_name path) names"
| "patched_names (ReplacePatch path _) names = names"

definition mentions_top_level :: "string \<Rightarrow> bool" where
  "mentions_top_level field \<longleftrightarrow> field \<in> set system_fields \<or> field \<in> data_field ` Collect top_level_name"

lemma property_path_simps [simp]:
  "normalize_patch_path (property_path name) = name"
  "patch_path_to_field_path (property_path name) = data_field name"
  "property_name (property_path name) = name"
  by (simp_all add: patch_path_to_field_path_def normalize_patch_path_def property_path_def property_name_def data_field_def)

lemma mentions_data_iff [simp]: "mentions_top_level (data_field name) \<longleftrightarrow> top_level_name name"
  by (auto simp: mentions_top_level_def)

lemma top_level_mention_cases [consumes 1, case_names system data]:
  assumes "mentions_top_level f"
  obtains "f \<in> set system_fields" "\<And>V. is_valid_field f V" "\<And>name. f \<noteq> data_field name"
  | name where "f = data_field name" "top_level_name name"
proof (cases "f \<in> set system_fields")
  case True
  moreover from True have "is_valid_field f V" for V by (simp add: is_valid_field_def)
  moreover from True have "f \<noteq> data_field name" for name by auto
  ultimately show ?thesis by (rule that(1))
qed (use assms that(2) in \<open>auto simp: mentions_top_level_def\<close>)

text \<open>All a state owes to the names of the schema: its views mention only top-level fields, and only such that exist.\<close>

definition views_within :: "table_views \<Rightarrow> string set \<Rightarrow> bool" where
  "views_within vd names \<longleftrightarrow> (\<forall>f \<in> set (views_fields vd). mentions_top_level f \<and> is_valid_field f names)"

lemma apply_replace_patch_cases:
  "apply_replace_patch vd path new previous renames = Inr vd' \<Longrightarrow>
     vd' = vd \<or> vd' = on_views (remove_filters_for_field (patch_path_to_field_path path)) vd"
  by (cases "get_field_type previous (renamed_from renames (normalize_patch_path path))")
    (auto simp: apply_replace_patch_def split: option.splits if_splits)

lemma views_within_step:
  assumes "apply_views_patch state patch previousSchema = Inr state'" "patches_top_level patch"
    "views_within (ms_viewsData state) names"
  shows "views_within (ms_viewsData state') (patched_names patch names)"
proof (cases patch)
  case (MovePatch source target)
  with assms(2) obtain old new where paths: "source = property_path old" "target = property_path new"
    "top_level_name new" by auto
  have "mentions_top_level (renamed (data_field old) (data_field new) f) \<and>
      is_valid_field (renamed (data_field old) (data_field new) f) (insert new (names - {old}))"
    if "mentions_top_level f" "is_valid_field f names" for f
    using that paths(3) by (cases rule: top_level_mention_cases) (auto simp: renamed_def mentions_top_level_def)
  moreover have "ms_viewsData state' = on_views (rename_field_in_view (data_field old) (data_field new)) (ms_viewsData state)"
    using assms(1) MovePatch paths by (auto simp: apply_move_patch_def Let_def)
  ultimately show ?thesis using assms(3) MovePatch paths by (auto simp: views_within_def views_fields_rename)
next
  case (RemovePatch path)
  with assms(2) obtain name where path: "path = property_path name" by auto
  with RemovePatch assms(1) have "ms_viewsData state' = on_views (remove_field_from_view (data_field name)) (ms_viewsData state)"
    by (auto simp: apply_remove_patch_def)
  moreover have "is_valid_field f (names - {name})"
    if "mentions_top_level f" "is_valid_field f names" "f \<noteq> data_field name" for f
    using that by (cases rule: top_level_mention_cases) auto
  ultimately show ?thesis
    using assms(3) RemovePatch path by (auto simp: views_within_def views_fields_remove)
next
  case (AddPatch path schema)
  with assms show ?thesis by (auto simp: views_within_def is_valid_field_def split: if_splits)
next
  case (ReplacePatch path schema)
  with assms(1) consider "ms_viewsData state' = ms_viewsData state"
    | "ms_viewsData state' = on_views (remove_filters_for_field (patch_path_to_field_path path)) (ms_viewsData state)"
    by (auto dest: apply_replace_patch_cases)
  then show ?thesis
    using assms(3) ReplacePatch views_fields_remove_filters [of "patch_path_to_field_path path" "ms_viewsData state"]
    by cases (auto simp: views_within_def)
qed

lemma apply_views_patch_identities:
  assumes "apply_views_patch state patch previousSchema = Inr state'"
  shows "map vw_id (tw_views (ms_viewsData state')) = map vw_id (tw_views (ms_viewsData state)) \<and>
    tw_defaultViewId (ms_viewsData state') = tw_defaultViewId (ms_viewsData state)"
  using assms
  by (cases patch) (auto simp: apply_move_patch_def apply_remove_patch_def Let_def dest!: apply_replace_patch_cases)

lemma migrate_views_loop:
  assumes "fold_try (\<lambda>patch state. case apply_views_patch state patch previousSchema of
      Inr state' \<Rightarrow> Inr state' | Inl e \<Rightarrow> Inl (err patch e)) patches state = Inr state'"
    "list_all patches_top_level patches" "views_within (ms_viewsData state) names"
  shows "views_within (ms_viewsData state') (fold patched_names patches names) \<and>
    map vw_id (tw_views (ms_viewsData state')) = map vw_id (tw_views (ms_viewsData state)) \<and>
    tw_defaultViewId (ms_viewsData state') = tw_defaultViewId (ms_viewsData state)"
  using assms
proof (induction patches arbitrary: state names)
  case (Cons patch patches)
  then obtain state1 where step: "apply_views_patch state patch previousSchema = Inr state1"
    "fold_try (\<lambda>patch state. case apply_views_patch state patch previousSchema of
      Inr state' \<Rightarrow> Inr state' | Inl e \<Rightarrow> Inl (err patch e)) patches state1 = Inr state'"
    by (auto split: sum.splits)
  from Cons.IH [OF step(2), of "patched_names patch names"] Cons.prems(2,3)
    views_within_step [OF step(1)] apply_views_patch_identities [OF step(1)]
  show ?case by simp
qed auto

subsection \<open>Renaming there and back\<close>

lemma rename_group_back:
  "new \<notin> set (group_fields g) \<Longrightarrow>
     rename_field_in_filter_group new old (rename_field_in_filter_group old new g) = g"
proof (induction old new g rule: rename_field_in_filter_group.induct)
  case (1 old new logic conditions groups)
  have "map (rename_field_in_filter_group new old) (map (rename_field_in_filter_group old new) gs) = gs"
    if "groups = Some gs" for gs
    unfolding list.map_comp by (rule map_idI) (use 1 that in auto)
  moreover have "map (\<lambda>c. c\<lparr>vc_field := if vc_field c = new then old else vc_field c\<rparr>)
      (map (\<lambda>c. c\<lparr>vc_field := if vc_field c = old then new else vc_field c\<rparr>) cs) = cs"
    if "conditions = Some cs" for cs
    unfolding list.map_comp by (rule map_idI) (use 1(2) that in auto)
  ultimately show ?case by (cases conditions; cases groups) simp_all
qed

lemma rename_view_back:
  assumes "new \<notin> set (view_fields v)"
  shows "rename_field_in_view new old (rename_field_in_view old new v) = v"
proof -
  have cols: "rename_field_in_columns new old (rename_field_in_columns old new cs) = cs"
    if "new \<notin> vcol_field ` set cs" for cs
    unfolding rename_field_in_columns_def list.map_comp by (rule map_idI) (use that in auto)
  have sorts: "rename_field_in_sorts new old (rename_field_in_sorts old new ss) = ss"
    if "new \<notin> vs_field ` set ss" for ss
    unfolding rename_field_in_sorts_def list.map_comp by (rule map_idI) (use that in auto)
  show ?thesis
    using assms
    by (cases "vw_columns v"; cases "vw_sorts v"; cases "vw_filters v")
      (auto simp: view_fields_def rename_field_in_view_def on_columns_def cols sorts rename_group_back
        intro!: view.equality)
qed

subsection \<open>Properties\<close>

definition example_view :: "string \<Rightarrow> view" where
  "example_view field =
     \<lparr>vw_id = ''default'', vw_name = ''All'', vw_description = None,
      vw_columns = Present [\<lparr>vcol_field = ''id'', vcol_width = None, vcol_pinned = None\<rparr>,
        \<lparr>vcol_field = field, vcol_width = Some 100, vcol_pinned = None\<rparr>],
      vw_filters = Some (FilterGroup (Some ''and'') (Some [])
        (Some [FilterGroup (Some ''or'')
          (Some [\<lparr>vc_field = field, vc_operator = ''gt'', vc_value = Some (JNum 1)\<rparr>]) None])),
      vw_sorts = Some [\<lparr>vs_field = field, vs_direction = ''asc''\<rparr>], vw_search = None\<rparr>"

definition example_views :: "string \<Rightarrow> table_views" where
  "example_views field = \<lparr>tw_version = 1, tw_defaultViewId = ''default'', tw_views = [example_view field]\<rparr>"

definition example_previous_schema :: json where
  "example_previous_schema =
     JObj [(''type'', JStr ''object''),
       (''properties'', JObj [(''age'', JObj [(''type'', JStr ''number'')])])]"

text \<open>
  Claim C29: views that mention only top-level fields of a table, all of which exist in its schema, stay
  valid when views and schema go through the same patches of top-level fields. Whatever fields the
  migrated schema has, if its top-level names are those the patches make of the old ones, then
  the validation of the migrated views reports no field; and the validation of identities reports of the
  migrated views what it reports of the views before. Mentions of nested fields, and patches of them,
  are outside this statement; what becomes of them is stated below.
\<close>

theorem migrated_views_stay_valid:
  assumes "migrate_views vd patches previousSchema contextTable = Inr vd'"
    "list_all patches_top_level patches" "list_all mentions_top_level (views_fields vd)"
    "validate_supplied_schema_fields tableId vd validFields = None"
    "\<And>name. top_level_name name \<Longrightarrow> name \<in> validFields' \<longleftrightarrow> name \<in> fold patched_names patches validFields"
  shows "validate_supplied_schema_fields tableId vd' validFields' = None \<and>
    validate_view_identities vd' = validate_view_identities vd"
proof -
  from assms(1) obtain state' where run: "fold_try (\<lambda>patch state. case apply_views_patch state patch previousSchema of
        Inr state' \<Rightarrow> Inr state'
      | Inl e \<Rightarrow> Inl (case contextTable of None \<Rightarrow> e
          | Some tableId \<Rightarrow> ''Failed to apply patch \"'' @ patch_op patch @ ''\" at path \"'' @
              patch_path patch @ ''\" for table \"'' @ tableId @ ''\"''))
      patches \<lparr>ms_viewsData = vd, ms_fieldRenames = []\<rparr> = Inr state'" "vd' = ms_viewsData state'"
    unfolding migrate_views_def try_bind_Inr_iff by blast
  have "views_within vd validFields"
    using assms(3,4) by (auto simp: views_within_def validate_supplied_iff list_all_iff)
  then have after: "views_within vd' (fold patched_names patches validFields)"
    "map vw_id (tw_views vd') = map vw_id (tw_views vd)" "tw_defaultViewId vd' = tw_defaultViewId vd"
    using migrate_views_loop [OF run(1) assms(2), of validFields] run(2) by simp_all
  have "is_valid_field f validFields'" if "f \<in> set (views_fields vd')" for f
  proof -
    have "mentions_top_level f" "is_valid_field f (fold patched_names patches validFields)"
      using after(1) that by (auto simp: views_within_def)
    then show ?thesis by (cases rule: top_level_mention_cases) (auto simp: assms(5))
  qed
  with after(2,3) show ?thesis by (simp add: validate_supplied_iff validate_view_identities_def validate_default_view_def)
qed

theorem migrated_views_stay_valid_witness:
  "\<exists>vd'. migrate_views (example_views ''data.age'') [MovePatch ''/properties/age'' ''/properties/years'']
       example_previous_schema None = Inr vd' \<and>
     validate_supplied_schema_fields ''users'' vd' {''years'', ''meta.author''} = None \<and>
     validate_supplied_schema_fields ''users'' vd' {''age''} \<noteq> None \<and>
     validate_view_identities vd' = validate_view_identities (example_views ''data.age'')"
proof -
  let ?patch = "MovePatch ''/properties/age'' ''/properties/years''"
  let ?vd = "example_views ''data.years''"
  have run: "migrate_views (example_views ''data.age'') [?patch] example_previous_schema None = Inr ?vd"
    and valid: "validate_supplied_schema_fields ''users'' (example_views ''data.age'') {''age''} = None"
      "validate_supplied_schema_fields ''users'' ?vd {''age''} \<noteq> None"
    by code_simp+
  have fields: "views_fields (example_views ''data.age'') = [''id'', ''data.age'', ''data.age'', ''data.age'']"
    and patched: "fold patched_names [?patch] {''age''} = {''years''}" by code_simp+
  have names: "top_level_name ''age''" "top_level_name ''years''" "\<not> top_level_name ''meta.author''" by code_simp+
  have "patches_top_level ?patch"
    using names by (auto simp: image_iff property_path_def intro: exI [of _ "''age''"] exI [of _ "''years''"])
  moreover have "list_all mentions_top_level (views_fields (example_views ''data.age''))"
    using names(1) mentions_data_iff [of "''age''"] unfolding fields data_field_def
    by (simp add: mentions_top_level_def [of "''id''"] system_fields_def)
  moreover have "name \<in> {''years'', ''meta.author''} \<longleftrightarrow> name \<in> fold patched_names [?patch] {''age''}"
    if "top_level_name name" for name using that names unfolding patched by blast
  ultimately show ?thesis
    using migrated_views_stay_valid [OF run _ _ valid(1), of "{''years'', ''meta.author''}"] run valid(2) by auto
qed

text \<open>
  Moving a field and moving it back gives the views back, to the last nested filter, when no
  view mentioned the path it went through.
\<close>

theorem moving_back_restores_views:
  assumes "patch_path_to_field_path target \<notin> set (views_fields vd)"
  shows "migrate_views vd [MovePatch source target, MovePatch target source] previousSchema contextTable = Inr vd"
proof -
  have "map (\<lambda>v. rename_field_in_view (patch_path_to_field_path target) (patch_path_to_field_path source)
      (rename_field_in_view (patch_path_to_field_path source) (patch_path_to_field_path target) v)) (tw_views vd) = tw_views vd"
    by (rule map_idI) (use assms rename_view_back in \<open>auto simp: views_fields_def\<close>)
  then show ?thesis
    by (simp add: migrate_views_def apply_move_patch_def Let_def on_views_def comp_def)
qed

theorem moving_back_restores_views_witness:
  "migrate_views (example_views ''data.age'')
     [MovePatch ''/properties/age'' ''/properties/years'', MovePatch ''/properties/years'' ''/properties/age'']
     example_previous_schema None = Inr (example_views ''data.age'')"
  by (rule moving_back_restores_views) code_simp

text \<open>
  A field that was moved and then given another schema is compared by the type it had under its
  old path: the filters on its new path are dropped exactly when the types differ, while its columns
  and sorts stay.
\<close>

theorem moved_field_is_retyped_by_its_origin:
  assumes "jfield previousSchema ''type'' = Some (JStr ''object'')" "\<not> jhas previousSchema ''$ref''"
    "jfield previousSchema ''properties'' = Some properties"
    "get_schema_type (jfield properties (normalize_patch_path source)) = Some old" "old \<noteq> ''''"
    "get_schema_type (Some newSchema) = Some new" "new \<noteq> ''''"
  shows "migrate_views vd [MovePatch source target, ReplacePatch target newSchema] previousSchema contextTable =
    Inr (let moved = on_views (rename_field_in_view (patch_path_to_field_path source)
               (patch_path_to_field_path target)) vd
         in if old = new then moved
            else on_views (remove_filters_for_field (patch_path_to_field_path target)) moved)"
  using assms
  by (simp add: migrate_views_def apply_move_patch_def apply_replace_patch_def get_field_type_def Let_def
      renamed_from_def jmap_simps)

theorem moved_field_is_retyped_by_its_origin_witness:
  "migrate_views (example_views ''data.age'')
     [MovePatch ''/properties/age'' ''/properties/years'',
      ReplacePatch ''/properties/years'' (JObj [(''type'', JStr ''string'')])] example_previous_schema None =
   Inr (on_views (remove_filters_for_field ''data.years'') (example_views ''data.years''))"
proof -
  have facts: "jfield example_previous_schema ''type'' = Some (JStr ''object'')"
    "\<not> jhas example_previous_schema ''$ref''"
    "jfield example_previous_schema ''properties'' = Some (JObj [(''age'', JObj [(''type'', JStr ''number'')])])"
    "get_schema_type (jfield (JObj [(''age'', JObj [(''type'', JStr ''number'')])])
       (normalize_patch_path ''/properties/age'')) = Some ''number''"
    "''number'' \<noteq> ''''" "get_schema_type (Some (JObj [(''type'', JStr ''string'')])) = Some ''string''"
    "''string'' \<noteq> ''''"
    by code_simp+
  have "on_views (rename_field_in_view (patch_path_to_field_path ''/properties/age'')
      (patch_path_to_field_path ''/properties/years'')) (example_views ''data.age'') = example_views ''data.years''"
    "patch_path_to_field_path ''/properties/years'' = ''data.years''" "(''number'' = ''string'') = False"
    by code_simp+
  then show ?thesis
    using moved_field_is_retyped_by_its_origin [OF facts, of "example_views ''data.age''" "''/properties/years''" None]
    unfolding Let_def by (simp only: if_False)
qed

text \<open>
  Claim C30: a field below another is named with a dot in views, and accepted so by their validation, but a patch
  of it, at \<^verbatim>\<open>/properties/a/properties/b\<close>, is translated to a field path with slashes. Removing or moving such a
  field changes no mention in the views of a valid document, and when a view mentions
  \<^verbatim>\<open>data.a.b\<close>, the migrated views are rejected, naming that field, by the validation against every
  schema without the field. No field of the schema before has a slash in its path.
\<close>

theorem patches_of_nested_fields_keep_mentions:
  assumes "path = ''/properties/'' @ a @ ''/properties/'' @ b"
    "patch = RemovePatch path \<or> patch = MovePatch path target"
    "migrate_views vd [patch] previousSchema contextTable = Inr vd'"
    "validate_supplied_schema_fields tableId vd validFields = None" "\<forall>f \<in> validFields. CHR ''/'' \<notin> set f"
    "''data.'' @ a @ ''.'' @ b \<in> set (views_fields vd)" "a @ ''.'' @ b \<notin> validFields'"
  shows "views_fields vd' = views_fields vd \<and>
    validate_supplied_schema_fields tableId vd' validFields' \<noteq> None \<and>
    (\<exists>failure \<in> set (find_invalid_view_fields vd' validFields'). ff_path failure = ''data.'' @ a @ ''.'' @ b)"
proof -
  have "normalize_patch_path path = a @ ''/properties/'' @ b"
    unfolding assms(1) using property_path_simps(1) [of "a @ ''/properties/'' @ b"] by (simp add: property_path_def)
  then have slash: "patch_path_to_field_path path = ''data.'' @ a @ ''/properties/'' @ b"
    by (simp add: patch_path_to_field_path_def)
  have other: "f \<noteq> patch_path_to_field_path path" if "f \<in> set (views_fields vd)" for f
  proof -
    have "is_valid_field f validFields" using that assms(4) by (simp add: validate_supplied_iff)
    with assms(5) show ?thesis
      unfolding slash using data_field_valid [of "a @ ''/properties/'' @ b" validFields, unfolded data_field_def] by fastforce
  qed
  have "filter (\<lambda>f. f \<noteq> patch_path_to_field_path path) (views_fields vd) = views_fields vd"
    "map (renamed (patch_path_to_field_path path) new) (views_fields vd) = views_fields vd" for new
    using other by (auto simp: filter_id_conv renamed_def intro!: map_idI)
  with assms(2,3) have same: "views_fields vd' = views_fields vd"
    by (auto simp: migrate_views_def apply_remove_patch_def apply_move_patch_def Let_def
        views_fields_remove views_fields_rename)
  have invalid: "\<not> is_valid_field (''data.'' @ a @ ''.'' @ b) validFields'"
    using data_field_valid [of "a @ ''.'' @ b", unfolded data_field_def] assms(7) by blast
  with assms(6) have "''data.'' @ a @ ''.'' @ b \<in> set (map ff_path (find_invalid_view_fields vd' validFields'))"
    unfolding invalid_paths same by simp
  moreover from invalid assms(6) have "validate_supplied_schema_fields tableId vd' validFields' \<noteq> None"
    unfolding validate_supplied_iff same by blast
  ultimately show ?thesis using same by auto
qed

theorem patches_of_nested_fields_keep_mentions_witness:
  "\<exists>vd'. migrate_views (example_views ''data.meta.author'')
       [RemovePatch ''/properties/meta/properties/author''] example_previous_schema None = Inr vd' \<and>
     validate_supplied_schema_fields ''users'' (example_views ''data.meta.author'') {''meta'', ''meta.author''} = None \<and>
     validate_supplied_schema_fields ''users'' vd' {''meta''} \<noteq> None"
proof -
  let ?vd = "example_views ''data.meta.author''" and ?path = "''/properties/meta/properties/author''"
  have run: "migrate_views ?vd [RemovePatch ?path] example_previous_schema None = Inr ?vd" by code_simp
  have facts: "?path = ''/properties/'' @ ''meta'' @ ''/properties/'' @ ''author''"
    "validate_supplied_schema_fields ''users'' ?vd {''meta'', ''meta.author''} = None"
    "\<forall>f \<in> {''meta'', ''meta.author''}. CHR ''/'' \<notin> set f"
    "''data.'' @ ''meta'' @ ''.'' @ ''author'' \<in> set (views_fields ?vd)"
    "''meta'' @ ''.'' @ ''author'' \<notin> {''meta''}"
    by code_simp+
  from patches_of_nested_fields_keep_mentions [OF facts(1) disjI1 [OF refl] run facts(2-5)] run facts(2)
  show ?thesis by blast
qed

text \<open>
  The views of a document identify themselves: no failure is reported exactly when the default
  view is one of them, no two have the same id and every id has the format of an id.
\<close>

theorem view_identities_valid_iff:
  "validate_view_identities vd = None \<longleftrightarrow>
     tw_defaultViewId vd \<in> vw_id ` set (tw_views vd) \<and> distinct (map vw_id (tw_views vd)) \<and>
     list_all (\<lambda>v. validate_url_like_id (vw_id v) = Inr ()) (tw_views vd)"
proof -
  have uniq: "length (uniq xs) = length xs \<longleftrightarrow> distinct xs" for xs :: "string list"
    by (metis card_distinct distinct_card distinct_uniq set_uniq uniq_distinct)
  have ids: "validate_view_ids is = None \<longleftrightarrow> list_all (\<lambda>i. validate_url_like_id i = Inr ()) is" for "is"
    by (induction "is") (auto simp: validate_url_like_id_def view_id_max_length_def view_id_pattern_def)
  show ?thesis
    by (auto simp: validate_view_identities_def first_failure_def Let_def validate_default_view_def
        validate_unique_view_ids_def uniq ids list.pred_map comp_def)
qed

end
