(* ===== verification/Units.thy ===== *)
theory Units
  imports Code_Points Table_Structures Views "HOL-Library.Option_ord" "HOL-Library.Product_Lexorder"
begin

section \<open>Units of change\<close>

text \<open>
  \<^verbatim>\<open>partial-changes/catalogue/unit.ts\<close>, \<^verbatim>\<open>unit-key.ts\<close>, \<^verbatim>\<open>unit-order.ts\<close> and
  \<^verbatim>\<open>catalogue-unit.ts\<close>. A unit is the smallest change that can be selected. Its key is the JSON
  text of its kind and the identities it is about, and the catalogue is sorted by \<open>compareUnits\<close>.
  The rows of the system tables hold JSON, migrations or views, so a system row is one of these.
\<close>

datatype unit_kind =
  FieldUnit | RowCreateUnit | RowDeleteUnit | RowReplaceUnit | RowRenameUnit | RowColumnsUnit
| StructureUnit | ViewsUnit | SharedSchemaUnit

fun unit_kind_name :: "unit_kind \<Rightarrow> string" where
  "unit_kind_name FieldUnit = ''field''"
| "unit_kind_name RowCreateUnit = ''rowCreate''"
| "unit_kind_name RowDeleteUnit = ''rowDelete''"
| "unit_kind_name RowReplaceUnit = ''rowReplace''"
| "unit_kind_name RowRenameUnit = ''rowRename''"
| "unit_kind_name RowColumnsUnit = ''rowColumns''"
| "unit_kind_name StructureUnit = ''structure''"
| "unit_kind_name ViewsUnit = ''views''"
| "unit_kind_name SharedSchemaUnit = ''sharedSchema''"

text \<open>The qualifier of a unit that is addressed on the side of Head; its absence is \<open>None\<close>.\<close>

datatype head_qualifier = HeadQualified

record change_unit =
  cu_kind :: unit_kind
  cu_tableId :: string
  cu_previousTableId :: "string option"
  cu_rowId :: "string option"
  cu_previousRowId :: "string option"
  cu_path :: "string option"
  cu_columns :: "whole_column list option"

definition table_unit :: "unit_kind \<Rightarrow> string \<Rightarrow> change_unit" where
  "table_unit kind tableId =
     \<lparr>cu_kind = kind, cu_tableId = tableId, cu_previousTableId = None, cu_rowId = None,
      cu_previousRowId = None, cu_path = None, cu_columns = None\<rparr>"

datatype system_row =
  JsonRow "json row" | MigrationRow "migration row" | ViewsRow "table_views row"

fun system_row_version :: "system_row \<Rightarrow> string" where
  "system_row_version (JsonRow row) = row_versionId row"
| "system_row_version (MigrationRow row) = row_versionId row"
| "system_row_version (ViewsRow row) = row_versionId row"

record catalogue_unit =
  ca_key :: string
  ca_tableIdentities :: "string list"
  ca_rowIdentities :: "string list"
  ca_systemRows :: "system_row list"
  ca_side :: "head_qualifier option"
  ca_unit :: change_unit

record row_pair =
  rp_identity :: string
  rp_head :: "json row option"
  rp_draft :: "json row option"

record catalogue_row =
  cr_pair :: row_pair
  cr_existence :: "string option"
  cr_columns :: "(whole_column, string) jmap"
  cr_leaves :: "(string, string) jmap"

subsection \<open>Keys\<close>

text \<open>
  \<open>JSON.stringify\<close> of an array of strings: quotes, backslashes and control characters are
  escaped, every other character of these strings stands for itself.
\<close>

definition hex_digit :: "nat \<Rightarrow> char" where
  "hex_digit n = (if n < 10 then char_of (48 + n) else char_of (87 + n))"

definition json_escape :: "char \<Rightarrow> string" where
  "json_escape c =
     (let n = of_char c :: nat
      in if n = 34 then [char_of (92 :: nat), c]
         else if n = 92 then [c, c]
         else if n = 8 then [char_of (92 :: nat), CHR ''b'']
         else if n = 9 then [char_of (92 :: nat), CHR ''t'']
         else if n = 10 then [char_of (92 :: nat), CHR ''n'']
         else if n = 12 then [char_of (92 :: nat), CHR ''f'']
         else if n = 13 then [char_of (92 :: nat), CHR ''r'']
         else if n < 32
         then [char_of (92 :: nat), CHR ''u'', CHR ''0'', CHR ''0'', hex_digit (n div 16),
               hex_digit (n mod 16)]
         else [c])"

definition json_quote :: "string \<Rightarrow> string" where
  "json_quote s = char_of (34 :: nat) # concat (map json_escape s) @ [char_of (34 :: nat)]"

definition json_strings :: "string list \<Rightarrow> string" where
  "json_strings ss = CHR ''['' # js_join '','' (map json_quote ss) @ '']''"

definition key_of :: "unit_kind \<Rightarrow> string list \<Rightarrow> string" where
  "key_of kind identities = json_strings (unit_kind_name kind # identities)"

definition row_unit_key :: "unit_kind \<Rightarrow> string \<Rightarrow> string list \<Rightarrow> string" where
  "row_unit_key kind tableIdentity rowIdentities = key_of kind (tableIdentity # rowIdentities)"

definition field_unit_key :: "string \<Rightarrow> string \<Rightarrow> json_pointer \<Rightarrow> string" where
  "field_unit_key tableIdentity rowIdentity pointer =
     key_of FieldUnit [tableIdentity, rowIdentity, pointer_string pointer]"

definition structure_unit_key :: "string list \<Rightarrow> string" where
  "structure_unit_key tableIdentities = key_of StructureUnit tableIdentities"

definition transient_structure_unit_key :: "string \<Rightarrow> string" where
  "transient_structure_unit_key tableId = key_of StructureUnit ['''', tableId]"

definition views_unit_key :: "string \<Rightarrow> string" where
  "views_unit_key tableIdentity = key_of ViewsUnit [tableIdentity]"

definition shared_schema_unit_key :: "string list \<Rightarrow> string" where
  "shared_schema_unit_key rowIdentities = key_of SharedSchemaUnit rowIdentities"

subsection \<open>The order of units\<close>

definition compare_absent_first :: "string option \<Rightarrow> string option \<Rightarrow> int" where
  "compare_absent_first left right =
     (if left = right then 0
      else case left of
        None \<Rightarrow> - 1
      | Some l \<Rightarrow> (case right of None \<Rightarrow> 1 | Some r \<Rightarrow> compare_code_points l r))"

text \<open>\<open>a || b\<close> on numbers: the first that is not zero.\<close>

definition or_else :: "int \<Rightarrow> int \<Rightarrow> int" where
  "or_else a b = (if a \<noteq> 0 then a else b)"

definition compare_units :: "string \<times> change_unit \<Rightarrow> string \<times> change_unit \<Rightarrow> int" where
  "compare_units left right =
     or_else (compare_code_points (cu_tableId (snd left)) (cu_tableId (snd right)))
    (or_else (compare_absent_first (cu_rowId (snd left)) (cu_rowId (snd right)))
    (or_else (compare_code_points (unit_kind_name (cu_kind (snd left)))
               (unit_kind_name (cu_kind (snd right))))
    (or_else (compare_absent_first (cu_path (snd left)) (cu_path (snd right)))
    (or_else (compare_absent_first (cu_previousTableId (snd left)) (cu_previousTableId (snd right)))
    (or_else (compare_absent_first (cu_previousRowId (snd left)) (cu_previousRowId (snd right)))
       (compare_code_points (fst left) (fst right)))))))"

subsection \<open>Keys are injective\<close>

text \<open>Reading back the first character of an escaped text, with the text after it.\<close>

definition hex_value :: "char \<Rightarrow> nat" where
  "hex_value c = (let n = of_char c :: nat in if n < 58 then n - 48 else n - 87)"

definition plain_char :: "char \<Rightarrow> char" where
  "plain_char c =
     (if c = CHR ''b'' then char_of (8 :: nat) else if c = CHR ''t'' then char_of (9 :: nat)
      else if c = CHR ''n'' then char_of (10 :: nat) else if c = CHR ''f'' then char_of (12 :: nat)
      else if c = CHR ''r'' then char_of (13 :: nat) else c)"

definition read_escaped :: "string \<Rightarrow> char \<times> string" where
  "read_escaped cs =
     (if of_char (hd cs) \<noteq> (92 :: nat) then (hd cs, tl cs)
      else if cs ! 1 = CHR ''u''
      then (char_of (16 * hex_value (cs ! 4) + hex_value (cs ! 5)), drop 6 cs)
      else (plain_char (cs ! 1), drop 2 cs))"

lemma of_char_inject [simp]: "(of_char c = (of_char d :: nat)) \<longleftrightarrow> c = d"
  by (metis char_of_char)

lemma hex_value_digit: "n < 16 \<Longrightarrow> hex_value (hex_digit n) = n"
  by (simp add: hex_value_def hex_digit_def)

lemma char_eq_of: "of_char c = n \<Longrightarrow> c = char_of (n :: nat)"
  by (metis char_of_char)

lemma plain_char_quote [simp]:
  "plain_char (char_of (34 :: nat)) = char_of (34 :: nat)"
  "plain_char (char_of (92 :: nat)) = char_of (92 :: nat)"
  "char_of (34 :: nat) \<noteq> CHR ''u''" "char_of (92 :: nat) \<noteq> CHR ''u''"
  by code_simp+

lemma read_json_escape: "read_escaped (json_escape c @ rest) = (c, rest)"
proof -
  let ?n = "of_char c :: nat"
  consider (control) "?n < 32" "?n \<notin> {8, 9, 10, 12, 13}" | (short) "?n \<in> {8, 9, 10, 12, 13}"
    | (quote) "?n = 34 \<or> ?n = 92" | (plain) "32 \<le> ?n" "?n \<noteq> 34" "?n \<noteq> 92" by fastforce
  then show ?thesis
  proof cases
    case control
    then have "hex_value (hex_digit (?n div 16)) = ?n div 16" "hex_value (hex_digit (?n mod 16)) = ?n mod 16"
      by (simp_all add: hex_value_digit)
    moreover have "json_escape c = [char_of (92 :: nat), CHR ''u'', CHR ''0'', CHR ''0'',
        hex_digit (?n div 16), hex_digit (?n mod 16)]"
      using control by (auto simp: json_escape_def Let_def)
    moreover have "read_escaped ([char_of (92 :: nat), CHR ''u'', CHR ''0'', CHR ''0'', h, l] @ rest) =
        (char_of (16 * hex_value h + hex_value l), rest)" for h l
      by (simp add: read_escaped_def)
    ultimately show ?thesis by (simp only: mult_div_mod_eq char_of_char)
  next
    case short
    then have "c = char_of (8 :: nat) \<or> c = char_of (9 :: nat) \<or> c = char_of (10 :: nat) \<or>
        c = char_of (12 :: nat) \<or> c = char_of (13 :: nat)" using char_eq_of by blast
    then show ?thesis
      by (elim disjE) (simp_all add: read_escaped_def json_escape_def Let_def plain_char_def)
  next
    case quote
    then have "c = char_of (34 :: nat) \<or> c = char_of (92 :: nat)" using char_eq_of by blast
    then show ?thesis
      by (elim disjE) (simp_all add: read_escaped_def json_escape_def Let_def)
  next
    case plain
    then show ?thesis by (simp add: read_escaped_def json_escape_def Let_def)
  qed
qed

lemma json_escape_no_quote: "json_escape c @ rest \<noteq> char_of (34 :: nat) # rest'"
  by (auto simp: json_escape_def Let_def)

lemma json_quote_inject:
  "json_quote s @ x = json_quote t @ y \<longleftrightarrow> s = t \<and> x = y"
proof
  have "concat (map json_escape s) @ char_of (34 :: nat) # x =
      concat (map json_escape t) @ char_of (34 :: nat) # y \<Longrightarrow> s = t \<and> x = y" for s t
  proof (induction s arbitrary: t)
    case Nil
    then show ?case
    proof (cases t)
      case (Cons d t')
      with Nil show ?thesis
        using json_escape_no_quote [of d "concat (map json_escape t') @ char_of (34 :: nat) # y" x]
        by (metis append.assoc append_Nil concat.simps(1,2) list.map(1,2))
    qed simp
  next
    case (Cons c s)
    show ?case
    proof (cases t)
      case Nil
      with Cons.prems show ?thesis
        using json_escape_no_quote [of c "concat (map json_escape s) @ char_of (34 :: nat) # x"] by simp
    next
      case t: (Cons d t')
      from Cons.prems t have "read_escaped (json_escape c @ concat (map json_escape s) @ char_of (34 :: nat) # x) =
          read_escaped (json_escape d @ concat (map json_escape t') @ char_of (34 :: nat) # y)" by simp
      then show ?thesis unfolding read_json_escape using Cons.IH [of t'] t by simp
    qed
  qed
  from this [of s t] show "json_quote s @ x = json_quote t @ y \<Longrightarrow> s = t \<and> x = y"
    by (simp only: json_quote_def append_Cons append_assoc list.inject append_Nil)
qed simp

lemma js_join_Cons: "ys \<noteq> [] \<Longrightarrow> js_join sep (y # ys) = y @ sep @ js_join sep ys"
  by (cases ys) auto

lemma json_strings_inject: "json_strings ss = json_strings ts \<longleftrightarrow> ss = ts"
proof
  have heads: "hd (json_quote s @ x) = char_of (34 :: nat)" for s x by (simp add: json_quote_def)
  have quote: "char_of (34 :: nat) \<noteq> CHR '']''" by code_simp
  have starts: "hd (js_join '','' (map json_quote (t # ts)) @ '']'') = char_of (34 :: nat)" for t ts
    by (cases ts) (simp_all add: heads json_quote_def)
  have "js_join '','' (map json_quote ss) @ '']'' = js_join '','' (map json_quote ts) @ '']'' \<Longrightarrow> ss = ts"
    for ss ts
  proof (induction ss arbitrary: ts)
    case Nil
    then show ?case using starts quote by (cases ts) (simp, metis append_Nil js_join.simps(1) list.map(1) list.sel(1))
  next
    case (Cons s ss)
    show ?case
    proof (cases ts)
      case Nil
      with Cons.prems starts [of s ss] quote show ?thesis by (metis append_Nil js_join.simps(1) list.map(1) list.sel(1))
    next
      case ts: (Cons t ts')
      have split: "js_join '','' (map json_quote (u # us)) @ '']'' =
          json_quote u @ (if us = [] then '']'' else '','' @ js_join '','' (map json_quote us) @ '']'')"
        for u us by (simp add: js_join_Cons)
      have "s = t" "(if ss = [] then '']'' else '','' @ js_join '','' (map json_quote ss) @ '']'') =
          (if ts' = [] then '']'' else '','' @ js_join '','' (map json_quote ts') @ '']'')"
        using Cons.prems unfolding ts split json_quote_inject by blast+
      with Cons.IH [of ts'] ts show ?thesis by (auto split: if_splits)
    qed
  qed
  then show "json_strings ss = json_strings ts \<Longrightarrow> ss = ts" by (simp add: json_strings_def)
qed simp

lemma unit_kind_name_inject [simp]: "unit_kind_name k = unit_kind_name l \<longleftrightarrow> k = l"
  by (cases k; cases l) simp_all

lemma key_of_inject [simp]: "key_of k is = key_of l js \<longleftrightarrow> k = l \<and> is = js"
  by (simp add: key_of_def json_strings_inject)

lemmas unit_key_defs = row_unit_key_def field_unit_key_def structure_unit_key_def
  transient_structure_unit_key_def views_unit_key_def shared_schema_unit_key_def

subsection \<open>The order is lexicographic\<close>

text \<open>What \<open>compareUnits\<close> orders by: a tuple of texts, an absent text before every other.\<close>

definition unit_rank ::
  "string \<times> change_unit \<Rightarrow>
   string \<times> string option \<times> string \<times> string option \<times> string option \<times> string option \<times> string" where
  "unit_rank ku =
     (cu_tableId (snd ku), cu_rowId (snd ku), unit_kind_name (cu_kind (snd ku)), cu_path (snd ku),
      cu_previousTableId (snd ku), cu_previousRowId (snd ku), fst ku)"

lemma compare_absent_first_less: "compare_absent_first l r < 0 \<longleftrightarrow> l < r"
  by (cases l; cases r) (auto simp: compare_absent_first_def compare_code_points_less)

lemma compare_absent_first_zero: "compare_absent_first l r = 0 \<longleftrightarrow> l = r"
  by (cases l; cases r) (auto simp: compare_absent_first_def)

text \<open>A chain of comparisons orders pairs lexicographically.\<close>

definition orders :: "int \<Rightarrow> 'a :: order \<Rightarrow> 'a \<Rightarrow> bool" where
  "orders n l r \<longleftrightarrow> (n < 0 \<longleftrightarrow> l < r) \<and> (n = 0 \<longleftrightarrow> l = r)"

lemma orders_pair: "orders a l r \<Longrightarrow> orders b l' r' \<Longrightarrow> orders (or_else a b) (l, l') (r, r')"
  by (auto simp: orders_def or_else_def)

lemma orders_le: "orders n l r \<Longrightarrow> n \<le> 0 \<longleftrightarrow> l \<le> r"
  by (auto simp: orders_def le_less)

lemma orders_code_points: "orders (compare_code_points l r) l r"
  by (simp add: orders_def compare_code_points_less)

lemma orders_absent_first: "orders (compare_absent_first l r) l r"
  by (simp add: orders_def compare_absent_first_less compare_absent_first_zero)

lemma compare_units_orders: "orders (compare_units l r) (unit_rank l) (unit_rank r)"
  unfolding compare_units_def unit_rank_def
  by (intro orders_pair orders_code_points orders_absent_first)

lemma compare_units_le: "compare_units l r \<le> 0 \<longleftrightarrow> unit_rank l \<le> unit_rank r"
  by (rule orders_le [OF compare_units_orders])

interpretation unit_order: js_comparator compare_units
  by unfold_locales (auto simp: compare_units_le)

subsection \<open>Properties\<close>

text \<open>The keys of units are injective: two units have the same key only when they are of the same
  kind and about the same identities in the same order, whatever characters the identities hold.\<close>

theorem unit_keys_are_injective: "key_of k identities = key_of l identities' \<longleftrightarrow> k = l \<and> identities = identities'"
  by (rule key_of_inject)

text \<open>\<open>compareUnits\<close> is the lexicographic order of table, row, kind, path, previous table and row,
  and key, with an absent value first, so it is a consistent comparator.\<close>

theorem compare_units_is_lexicographic:
  "(compare_units l r < 0 \<longleftrightarrow> unit_rank l < unit_rank r) \<and>
   (compare_units l r = 0 \<longleftrightarrow> unit_rank l = unit_rank r)"
  using compare_units_orders [of l r] by (simp add: orders_def)

end
