(* ===== verification/Public_Ids.thy ===== *)
theory Public_Ids
  imports Units
begin

section \<open>Public ids\<close>

text \<open>
  \<^verbatim>\<open>partial-changes/catalogue/public-id-index.ts\<close> and \<^verbatim>\<open>public-id-groups.ts\<close>. The code is
  generic in the type of pairs and reads an identity and the ids of the two sides of a pair; the
  argument \<open>ids\<close> is how a pair gives them.
\<close>

record version_ids =
  vi_identity :: string
  vi_head :: "string option"
  vi_draft :: "string option"

definition table_pair_ids :: "table_pair \<Rightarrow> version_ids" where
  "table_pair_ids pair =
     \<lparr>vi_identity = tp_identity pair, vi_head = map_option tv_id (tp_head pair),
      vi_draft = map_option tv_id (tp_draft pair)\<rparr>"

definition row_pair_ids :: "row_pair \<Rightarrow> version_ids" where
  "row_pair_ids pair =
     \<lparr>vi_identity = rp_identity pair, vi_head = map_option row_id (rp_head pair),
      vi_draft = map_option row_id (rp_draft pair)\<rparr>"

subsection \<open>Finding a pair by a public id\<close>

record 'a public_id_index =
  pi_draft :: "(string, 'a) jmap"
  pi_head :: "(string, 'a) jmap"

definition set_id :: "string option \<Rightarrow> 'a \<Rightarrow> (string, 'a) jmap \<Rightarrow> (string, 'a) jmap" where
  "set_id i entry m = (case i of None \<Rightarrow> m | Some k \<Rightarrow> AList.update k entry m)"

definition public_id_index :: "('a \<Rightarrow> version_ids) \<Rightarrow> 'a list \<Rightarrow> 'a public_id_index" where
  "public_id_index ids entries =
     fold (\<lambda>entry index.
         index\<lparr>pi_draft := set_id (vi_draft (ids entry)) entry (pi_draft index),
               pi_head := set_id (vi_head (ids entry)) entry (pi_head index)\<rparr>)
       entries \<lparr>pi_draft = [], pi_head = []\<rparr>"

fun entries_on :: "'a public_id_index \<Rightarrow> revision_side \<Rightarrow> (string, 'a) jmap" where
  "entries_on index HeadSide = pi_head index"
| "entries_on index DraftSide = pi_draft index"

definition index_on :: "'a public_id_index \<Rightarrow> revision_side \<Rightarrow> string \<Rightarrow> 'a option" where
  "index_on index side i = map_of (entries_on index side) i"

definition resolve_side ::
  "head_qualifier option \<Rightarrow> (revision_side \<Rightarrow> bool) \<Rightarrow> revision_side option" where
  "resolve_side side holds =
     (if side \<noteq> Some HeadQualified \<and> holds DraftSide then Some DraftSide
      else if holds HeadSide then Some HeadSide
      else None)"

definition resolve_id ::
  "'a public_id_index \<Rightarrow> string \<Rightarrow> head_qualifier option \<Rightarrow> 'a option" where
  "resolve_id index i side =
     (case resolve_side side (\<lambda>s. map_of (entries_on index s) i \<noteq> None) of
        None \<Rightarrow> None
      | Some found \<Rightarrow> index_on index found i)"

subsection \<open>Groups of pairs that share ids\<close>

definition public_ids_of :: "version_ids \<Rightarrow> string list" where
  "public_ids_of v =
     (case vi_head v of None \<Rightarrow> [] | Some i \<Rightarrow> [i]) @ (case vi_draft v of None \<Rightarrow> [] | Some i \<Rightarrow> [i])"

definition hold_common_public_id :: "version_ids \<Rightarrow> version_ids \<Rightarrow> bool" where
  "hold_common_public_id left right =
     list_ex (\<lambda>i. i \<in> set (public_ids_of right)) (public_ids_of left)"

definition is_on_one_side :: "version_ids \<Rightarrow> bool" where
  "is_on_one_side v \<longleftrightarrow> (vi_head v = None) \<noteq> (vi_draft v = None)"

definition in_identity_order :: "('a \<Rightarrow> version_ids) \<Rightarrow> 'a list \<Rightarrow> 'a list" where
  "in_identity_order ids members =
     js_sort (\<lambda>left right. compare_code_points (vi_identity (ids left)) (vi_identity (ids right))) members"

definition group_linked_pairs ::
  "('a \<Rightarrow> version_ids) \<Rightarrow> ('a \<Rightarrow> bool) \<Rightarrow> 'a list \<Rightarrow> 'a list list" where
  "group_linked_pairs ids linksByPublicId pairs =
     map (\<lambda>pair. [pair]) (filter (\<lambda>pair. \<not> linksByPublicId pair) pairs) @
     map (in_identity_order ids)
       (linked_groups (\<lambda>member pair. hold_common_public_id (ids member) (ids pair))
         (filter linksByPublicId pairs))"

definition group_by_shared_public_id :: "('a \<Rightarrow> version_ids) \<Rightarrow> 'a list \<Rightarrow> 'a list list" where
  "group_by_shared_public_id ids pairs = group_linked_pairs ids (\<lambda>_. True) pairs"

definition group_recreations :: "('a \<Rightarrow> version_ids) \<Rightarrow> 'a list \<Rightarrow> 'a list list" where
  "group_recreations ids pairs = group_linked_pairs ids (\<lambda>pair. is_on_one_side (ids pair)) pairs"

definition ids_on :: "revision_side \<Rightarrow> version_ids list \<Rightarrow> string list" where
  "ids_on side members =
     js_sort compare_code_points
       (concat (map (\<lambda>v. case (case side of HeadSide \<Rightarrow> vi_head v | DraftSide \<Rightarrow> vi_draft v) of
           None \<Rightarrow> [] | Some i \<Rightarrow> [i]) members))"

definition group_public_id_of :: "version_ids list \<Rightarrow> string outcome" where
  "group_public_id_of members =
     (case ids_on DraftSide members @ ids_on HeadSide members of
        [] \<Rightarrow> Inl ''A group of versions holds no public id''
      | publicId # _ \<Rightarrow> Inr publicId)"

subsection \<open>An index holds the last entry of an id\<close>

lemma index_on_append:
  "index_on (public_id_index ids (entries @ [entry])) side i =
     (if (case side of HeadSide \<Rightarrow> vi_head (ids entry) | DraftSide \<Rightarrow> vi_draft (ids entry)) = Some i
      then Some entry else index_on (public_id_index ids entries) side i)"
  by (cases side)
    (auto simp: index_on_def public_id_index_def set_id_def jmap_simps split: option.splits)

lemma index_on_Nil [simp]: "index_on (public_id_index ids []) side i = None"
  by (cases side) (simp_all add: index_on_def public_id_index_def)

definition side_id :: "revision_side \<Rightarrow> version_ids \<Rightarrow> string option" where
  "side_id side v = (case side of HeadSide \<Rightarrow> vi_head v | DraftSide \<Rightarrow> vi_draft v)"

lemma index_on_find:
  "index_on (public_id_index ids entries) side i =
     find (\<lambda>entry. side_id side (ids entry) = Some i) (rev entries)"
  by (induction entries rule: rev_induct) (simp_all add: index_on_append side_id_def)

lemma resolve_id_index:
  "resolve_id index i side =
     (if side = Some HeadQualified then index_on index HeadSide i
      else case index_on index DraftSide i of
        Some entry \<Rightarrow> Some entry | None \<Rightarrow> index_on index HeadSide i)"
proof -
  have "x = HeadQualified" for x by (cases x)
  then show ?thesis
    by (cases side) (auto simp: resolve_id_def resolve_side_def index_on_def split: option.splits)
qed

subsection \<open>Groups are components\<close>

lemma hold_common_iff:
  "hold_common_public_id v w \<longleftrightarrow> set (public_ids_of v) \<inter> set (public_ids_of w) \<noteq> {}"
  by (auto simp: hold_common_public_id_def list_ex_iff)

interpretation common_ids: symmetric_link "\<lambda>p q. hold_common_public_id (ids p) (ids q)"
  for ids :: "'a \<Rightarrow> version_ids"
  by unfold_locales (auto simp: hold_common_iff)

lemma set_in_identity_order [simp]: "set (in_identity_order ids g) = set g"
  by (simp add: in_identity_order_def)

lemma mset_in_identity_order [simp]: "mset (in_identity_order ids g) = mset g"
  by (simp add: in_identity_order_def)

lemma in_identity_order_Nil [simp]:
  "in_identity_order ids g = [] \<longleftrightarrow> g = []" "[] = in_identity_order ids g \<longleftrightarrow> g = []"
  by (metis mset_in_identity_order mset_zero_iff)+

lemma mset_group_linked_pairs: "mset (concat (group_linked_pairs ids links pairs)) = mset pairs"
proof -
  have "mset (concat (map (in_identity_order ids) gs)) = mset (concat gs)" for gs
    by (induction gs) simp_all
  moreover have "concat (map (\<lambda>p. [p]) xs) = xs" for xs :: "'a list" by (induction xs) simp_all
  ultimately show ?thesis
    by (simp add: group_linked_pairs_def multiset_partition [symmetric] add.commute)
qed

lemma connected_group_cong:
  "set g = set h \<Longrightarrow> (\<And>x y. x \<in> set h \<Longrightarrow> y \<in> set h \<Longrightarrow> R x y = S x y) \<Longrightarrow>
     connected_group R g = connected_group S h"
proof -
  assume "set g = set h" "\<And>x y. x \<in> set h \<Longrightarrow> y \<in> set h \<Longrightarrow> R x y = S x y"
  then have "(\<lambda>a b. a \<in> set g \<and> b \<in> set g \<and> R a b) = (\<lambda>a b. a \<in> set h \<and> b \<in> set h \<and> S a b)"
    by (auto simp: fun_eq_iff)
  with \<open>set g = set h\<close> show ?thesis by (simp add: connected_group_def)
qed

text \<open>What joins two pairs of a grouping: both link by public id and they have one in common.\<close>

definition pair_link :: "('a \<Rightarrow> version_ids) \<Rightarrow> ('a \<Rightarrow> bool) \<Rightarrow> 'a \<Rightarrow> 'a \<Rightarrow> bool" where
  "pair_link ids links p q \<longleftrightarrow> links p \<and> links q \<and> hold_common_public_id (ids p) (ids q)"

lemma connected_group_linked_pairs:
  assumes "g \<in> set (group_linked_pairs ids links pairs)"
  shows "connected_group (pair_link ids links) g"
proof -
  let ?linked = "linked_groups (\<lambda>p q. hold_common_public_id (ids p) (ids q)) (filter links pairs)"
  consider p where "g = [p]" | h where "h \<in> set ?linked" "set g = set h"
    using assms by (auto simp: group_linked_pairs_def)
  then show ?thesis
  proof cases
    case 1
    then show ?thesis by (simp add: connected_group_def)
  next
    case 2
    then have "set h \<subseteq> \<Union> (set ` set ?linked)" by blast
    then have "\<forall>x \<in> set h. links x" by (auto simp: set_linked_groups)
    then have "connected_group (pair_link ids links) g =
        connected_group (\<lambda>p q. hold_common_public_id (ids p) (ids q)) h"
      using 2(2) by (intro connected_group_cong) (auto simp: pair_link_def)
    with 2(1) show ?thesis using common_ids.connected_linked_groups by blast
  qed
qed

lemma separate_group_linked_pairs:
  "separate_groups (pair_link ids links) (group_linked_pairs ids links pairs)"
proof -
  let ?link = "\<lambda>p q. hold_common_public_id (ids p) (ids q)"
  let ?linked = "linked_groups ?link (filter links pairs)"
  have sep: "separate_groups ?link ?linked" by (rule common_ids.separate_linked_groups)
  have alone: "sorted_wrt (\<lambda>g h. \<forall>x \<in> set g. \<forall>y \<in> set h. \<not> pair_link ids links x y)
      (map (\<lambda>p. [p]) ps @ hs)"
    if "\<forall>p \<in> set ps. \<not> links p"
      "sorted_wrt (\<lambda>g h. \<forall>x \<in> set g. \<forall>y \<in> set h. \<not> pair_link ids links x y) hs" for ps hs
    using that by (induction ps) (auto simp: pair_link_def)
  have "sorted_wrt (\<lambda>g h. \<forall>x \<in> set g. \<forall>y \<in> set h. \<not> pair_link ids links x y)
      (map (in_identity_order ids) ?linked)"
    unfolding sorted_wrt_map
    by (rule sorted_wrt_mono_rel [of _ "\<lambda>g h. \<forall>x \<in> set g. \<forall>y \<in> set h. \<not> ?link x y"])
      (use sep in \<open>auto simp: separate_groups_def pair_link_def\<close>)
  moreover have "[] \<notin> set (group_linked_pairs ids links pairs)"
    using sep by (auto simp: separate_groups_def group_linked_pairs_def)
  ultimately show ?thesis
    using alone [of "filter (\<lambda>p. \<not> links p) pairs"]
    by (simp add: separate_groups_def group_linked_pairs_def)
qed

text \<open>
  Claim C27: \<open>groupRecreations\<close> puts every pair into exactly one group. The pairs of a group are
  joined by a chain of pairs on one side only that hold a common public id, and no two groups
  have pairs that such a link joins: a table or row that was deleted under an id and created
  again under it is one group with its recreation, and a pair on both sides is alone.
\<close>

theorem recreation_groups_are_components:
  "mset (concat (group_recreations ids pairs)) = mset pairs \<and>
   separate_groups (pair_link ids (\<lambda>p. is_on_one_side (ids p))) (group_recreations ids pairs) \<and>
   list_all (connected_group (pair_link ids (\<lambda>p. is_on_one_side (ids p)))) (group_recreations ids pairs)"
  by (simp add: group_recreations_def mset_group_linked_pairs separate_group_linked_pairs list_all_iff
      connected_group_linked_pairs)

end
