(* ===== verification/Row_Units.thy ===== *)
theory Row_Units
  imports Public_Ids
begin

section \<open>Units of the rows of a table\<close>

text \<open>
  \<^verbatim>\<open>partial-changes/catalogue/row-differences.ts\<close> and \<^verbatim>\<open>row-units.ts\<close>. The class
  \<open>RowUnitsBuilder\<close> is the record of what its constructor computes; the map \<open>units\<close> its methods add
  to is passed through them. The parameter \<open>equal\<close> is the toolkit's \<open>deepEqual\<close>.
\<close>

subsection \<open>Differences of two rows\<close>

fun whole_column_equality ::
  "(json \<Rightarrow> json \<Rightarrow> bool) \<Rightarrow> whole_column \<Rightarrow> json row \<Rightarrow> json row \<Rightarrow> bool" where
  "whole_column_equality equal IdColumn left right = (row_id left = row_id right)"
| "whole_column_equality equal PublishedAtColumn left right =
     (row_publishedAt left = row_publishedAt right)"
| "whole_column_equality equal MetaColumn left right = equal (row_meta left) (row_meta right)"
| "whole_column_equality equal SchemaHashColumn left right =
     (row_schemaHash left = row_schemaHash right)"

definition whole_columns :: "whole_column list" where
  "whole_columns = [IdColumn, PublishedAtColumn, MetaColumn, SchemaHashColumn]"

definition differing_columns_of ::
  "(json \<Rightarrow> json \<Rightarrow> bool) \<Rightarrow> json row \<Rightarrow> json row \<Rightarrow> whole_column list" where
  "differing_columns_of equal left right =
     filter (\<lambda>column. \<not> whole_column_equality equal column left right) whole_columns"

definition differ_in_content :: "(json \<Rightarrow> json \<Rightarrow> bool) \<Rightarrow> json row \<Rightarrow> json row \<Rightarrow> bool" where
  "differ_in_content equal left right \<longleftrightarrow>
     row_hash left \<noteq> row_hash right \<or> 0 < length (differing_columns_of equal left right)"

text \<open>\<open>deepEqual\<close> of two values either of which may be \<open>undefined\<close>.\<close>

fun equal_values :: "(json \<Rightarrow> json \<Rightarrow> bool) \<Rightarrow> json option \<Rightarrow> json option \<Rightarrow> bool" where
  "equal_values equal None None = True"
| "equal_values equal (Some v) (Some w) = equal v w"
| "equal_values equal _ _ = False"

definition differing_leaves_of ::
  "(json \<Rightarrow> json \<Rightarrow> bool) \<Rightarrow> json row \<Rightarrow> json row \<Rightarrow> leaf_owner list \<Rightarrow> leaf_owner list" where
  "differing_leaves_of equal head draft leaves =
     filter (\<lambda>leaf. \<not> equal_values equal (value_in (lw_pointer leaf) (Some (row_data head)))
         (value_in (lw_pointer leaf) (Some (row_data draft)))) leaves"

subsection \<open>The builder\<close>

record changed_table =
  ct_identity :: string
  ct_tableId :: string
  ct_structure :: table_structure
  ct_pairs :: "row_pair list"

record row_units =
  ru_units :: "catalogue_unit list"
  ru_rows :: "catalogue_row list"

record row_on_both_sides =
  rw_identity :: string
  rw_head :: "json row"
  rw_draft :: "json row"

type_synonym unit_map = "(string, catalogue_unit) jmap"

record row_units_builder =
  rb_table :: changed_table
  rb_headOnlyRows :: "(string, row_pair) jmap"
  rb_draftOnlyRows :: "(string, row_pair) jmap"
  rb_idsTakenByRenames :: "string list"
  rb_ownedLeaves :: "leaf_owner list"
  rb_tableIdentities :: "string list"

definition rows_by_id ::
  "row_pair list \<Rightarrow> (row_pair \<Rightarrow> json row option) \<Rightarrow> (string, row_pair) jmap" where
  "rows_by_id pairs rowOf =
     fold (\<lambda>pair rows. case rowOf pair of None \<Rightarrow> rows | Some row \<Rightarrow> AList.update (row_id row) pair rows)
       pairs []"

definition head_only_row_of :: "row_pair \<Rightarrow> json row option" where
  "head_only_row_of pair = (if rp_draft pair \<noteq> None then None else rp_head pair)"

definition draft_only_row_of :: "row_pair \<Rightarrow> json row option" where
  "draft_only_row_of pair = (if rp_head pair \<noteq> None then None else rp_draft pair)"

definition ids_taken_by_renames_of :: "row_pair list \<Rightarrow> string list" where
  "ids_taken_by_renames_of pairs =
     fold (\<lambda>pair ids. case (rp_head pair, rp_draft pair) of
         (Some head, Some draft) \<Rightarrow>
           if row_id head \<noteq> row_id draft then List.insert (row_id draft) ids else ids
       | _ \<Rightarrow> ids) pairs []"

definition row_units_builder :: "changed_table \<Rightarrow> row_units_builder" where
  "row_units_builder table =
     \<lparr>rb_table = table,
      rb_headOnlyRows = rows_by_id (ct_pairs table) head_only_row_of,
      rb_draftOnlyRows = rows_by_id (ct_pairs table) draft_only_row_of,
      rb_idsTakenByRenames = ids_taken_by_renames_of (ct_pairs table),
      rb_ownedLeaves = leaf_owners_of (ct_structure table),
      rb_tableIdentities = [ct_identity table]\<rparr>"

subsection \<open>Adding units\<close>

definition add_unit ::
  "row_units_builder \<Rightarrow> string \<Rightarrow> string list \<Rightarrow> change_unit \<Rightarrow> head_qualifier option \<Rightarrow> unit_map \<Rightarrow>
   string \<times> unit_map" where
  "add_unit b key rowIdentities u side units =
     (key,
      if map_of units key = None
      then AList.update key
        \<lparr>ca_key = key, ca_tableIdentities = rb_tableIdentities b, ca_rowIdentities = rowIdentities,
         ca_systemRows = [], ca_side = side, ca_unit = u\<rparr> units
      else units)"

definition add_row_unit ::
  "row_units_builder \<Rightarrow> unit_kind \<Rightarrow> string list \<Rightarrow> (change_unit \<Rightarrow> change_unit) \<Rightarrow>
   head_qualifier option \<Rightarrow> unit_map \<Rightarrow> string \<times> unit_map" where
  "add_row_unit b kind rowIdentities setFields side =
     add_unit b (row_unit_key kind (ct_identity (rb_table b)) rowIdentities) rowIdentities
       (setFields (table_unit kind (ct_tableId (rb_table b)))) side"

definition add_field_unit ::
  "row_units_builder \<Rightarrow> row_on_both_sides \<Rightarrow> json_pointer \<Rightarrow> unit_map \<Rightarrow> string \<times> unit_map" where
  "add_field_unit b row pointer =
     add_unit b (field_unit_key (ct_identity (rb_table b)) (rw_identity row) pointer) [rw_identity row]
       ((table_unit FieldUnit (ct_tableId (rb_table b)))
          \<lparr>cu_rowId := Some (row_id (rw_draft row)), cu_path := Some (pointer_string pointer)\<rparr>)
       None"

definition add_row_columns_unit ::
  "row_units_builder \<Rightarrow> row_on_both_sides \<Rightarrow> whole_column list \<Rightarrow> unit_map \<Rightarrow> string \<times> unit_map" where
  "add_row_columns_unit b row columns =
     add_row_unit b RowColumnsUnit [rw_identity row]
       (\<lambda>u. u\<lparr>cu_rowId := Some (row_id (rw_draft row)), cu_columns := Some columns\<rparr>) None"

definition add_rename_unit ::
  "row_units_builder \<Rightarrow> row_on_both_sides \<Rightarrow> unit_map \<Rightarrow> string \<times> unit_map" where
  "add_rename_unit b row =
     add_row_unit b RowRenameUnit [rw_identity row]
       (\<lambda>u. u\<lparr>cu_rowId := Some (row_id (rw_draft row)),
              cu_previousRowId := Some (row_id (rw_head row))\<rparr>) None"

definition owner_of :: "row_units_builder \<Rightarrow> whole_column \<Rightarrow> column_owner" where
  "owner_of b column = column_owner_of column (ct_structure (rb_table b))"

definition add_owner_of_leaf ::
  "row_units_builder \<Rightarrow> row_on_both_sides \<Rightarrow> leaf_owner \<Rightarrow> unit_map \<Rightarrow> string \<times> unit_map" where
  "add_owner_of_leaf b row leaf units =
     (if lw_owner leaf = OwnedByStructure
      then (structure_unit_key [ct_identity (rb_table b)], units)
      else add_field_unit b row (lw_pointer leaf) units)"

definition add_owner_of_column ::
  "row_units_builder \<Rightarrow> row_on_both_sides \<Rightarrow> whole_column \<Rightarrow> whole_column list \<Rightarrow> unit_map \<Rightarrow>
   string \<times> unit_map" where
  "add_owner_of_column b row column rowColumns units =
     (case owner_of b column of
        RowRenameOwner \<Rightarrow> add_rename_unit b row units
      | FieldOwner pointer \<Rightarrow> add_field_unit b row pointer units
      | RowColumnsOwner \<Rightarrow> add_row_columns_unit b row rowColumns units
      | StructureOwner \<Rightarrow> (structure_unit_key [ct_identity (rb_table b)], units))"

definition row_columns_among :: "row_units_builder \<Rightarrow> whole_column list \<Rightarrow> whole_column list" where
  "row_columns_among b columns =
     concat (map (\<lambda>column.
       if column = IdColumn \<or> owner_of b column \<noteq> RowColumnsOwner then [] else [column]) columns)"

subsection \<open>Rows of the catalogue\<close>

definition row_with_both_sides ::
  "(json \<Rightarrow> json \<Rightarrow> bool) \<Rightarrow> row_units_builder \<Rightarrow> row_pair \<Rightarrow> row_on_both_sides \<Rightarrow> unit_map \<Rightarrow>
   catalogue_row \<times> unit_map" where
  "row_with_both_sides equal b pair row units =
     (let columns = differing_columns_of equal (rw_head row) (rw_draft row);
          rowColumns = row_columns_among b columns;
          (columnOwners, units1) =
            fold (\<lambda>column (owners, units).
                let (key, units') = add_owner_of_column b row column rowColumns units
                in (AList.update column key owners, units')) columns ([], units);
          (leafOwners, units2) =
            fold (\<lambda>leaf (owners, units).
                let (key, units') = add_owner_of_leaf b row leaf units
                in (AList.update (pointer_string (lw_pointer leaf)) key owners, units'))
              (differing_leaves_of equal (rw_head row) (rw_draft row) (rb_ownedLeaves b))
              ([], units1)
      in (\<lparr>cr_pair = pair, cr_existence = None, cr_columns = columnOwners, cr_leaves = leafOwners\<rparr>,
          units2))"

definition side_of_deleted_row :: "row_units_builder \<Rightarrow> string \<Rightarrow> head_qualifier option" where
  "side_of_deleted_row b rowId =
     (if rowId \<in> set (rb_idsTakenByRenames b) then Some HeadQualified else None)"

definition add_replace_unit ::
  "row_units_builder \<Rightarrow> row_pair \<Rightarrow> row_pair \<Rightarrow> string \<Rightarrow> unit_map \<Rightarrow> string \<times> unit_map" where
  "add_replace_unit b deleted created rowId =
     add_row_unit b RowReplaceUnit [rp_identity deleted, rp_identity created]
       (\<lambda>u. u\<lparr>cu_rowId := Some rowId\<rparr>) None"

definition add_creation_unit ::
  "row_units_builder \<Rightarrow> row_pair \<Rightarrow> json row \<Rightarrow> unit_map \<Rightarrow> string \<times> unit_map" where
  "add_creation_unit b pair draft =
     (case map_of (rb_headOnlyRows b) (row_id draft) of
        Some replaced \<Rightarrow> add_replace_unit b replaced pair (row_id draft)
      | None \<Rightarrow> add_row_unit b RowCreateUnit [rp_identity pair]
          (\<lambda>u. u\<lparr>cu_rowId := Some (row_id draft)\<rparr>) None)"

definition add_deletion_unit ::
  "row_units_builder \<Rightarrow> row_pair \<Rightarrow> json row \<Rightarrow> unit_map \<Rightarrow> string \<times> unit_map" where
  "add_deletion_unit b pair head =
     (case map_of (rb_draftOnlyRows b) (row_id head) of
        Some replacement \<Rightarrow> add_replace_unit b pair replacement (row_id head)
      | None \<Rightarrow> add_row_unit b RowDeleteUnit [rp_identity pair]
          (\<lambda>u. u\<lparr>cu_rowId := Some (row_id head)\<rparr>) (side_of_deleted_row b (row_id head)))"

definition existence_row :: "row_pair \<Rightarrow> string \<times> unit_map \<Rightarrow> catalogue_row \<times> unit_map" where
  "existence_row pair added =
     (\<lparr>cr_pair = pair, cr_existence = Some (fst added), cr_columns = [], cr_leaves = []\<rparr>, snd added)"

definition catalogue_row_of ::
  "(json \<Rightarrow> json \<Rightarrow> bool) \<Rightarrow> row_units_builder \<Rightarrow> row_pair \<Rightarrow> unit_map \<Rightarrow>
   (catalogue_row \<times> unit_map) outcome" where
  "catalogue_row_of equal b pair units =
     (case (rp_head pair, rp_draft pair) of
        (Some head, Some draft) \<Rightarrow>
          Inr (row_with_both_sides equal b pair
            \<lparr>rw_identity = rp_identity pair, rw_head = head, rw_draft = draft\<rparr> units)
      | (None, Some draft) \<Rightarrow> Inr (existence_row pair (add_creation_unit b pair draft units))
      | (Some head, None) \<Rightarrow> Inr (existence_row pair (add_deletion_unit b pair head units))
      | (None, None) \<Rightarrow> Inl (''Row '' @ rp_identity pair @ '' is in neither revision''))"

fun catalogue_rows ::
  "(json \<Rightarrow> json \<Rightarrow> bool) \<Rightarrow> row_units_builder \<Rightarrow> row_pair list \<Rightarrow> unit_map \<Rightarrow>
   (catalogue_row list \<times> unit_map) outcome" where
  "catalogue_rows equal b [] units = Inr ([], units)"
| "catalogue_rows equal b (pair # pairs) units =
     try_bind (catalogue_row_of equal b pair units) (\<lambda>(row, units1).
     try_bind (catalogue_rows equal b pairs units1) (\<lambda>(rows, units2).
       Inr (row # rows, units2)))"

definition build_row_units ::
  "(json \<Rightarrow> json \<Rightarrow> bool) \<Rightarrow> changed_table \<Rightarrow> row_units outcome" where
  "build_row_units equal table =
     try_bind (catalogue_rows equal (row_units_builder table) (ct_pairs table) [])
       (\<lambda>(rows, units). Inr \<lparr>ru_units = jvalues units, ru_rows = rows\<rparr>)"

subsection \<open>What a row mentions\<close>

definition row_unit_keys :: "catalogue_row \<Rightarrow> string list" where
  "row_unit_keys row =
     (case cr_existence row of None \<Rightarrow> [] | Some key \<Rightarrow> [key]) @ jvalues (cr_columns row) @
     jvalues (cr_leaves row)"

text \<open>The key that owns a column, a leaf or the existence of a row.\<close>

definition owner_key_of_column :: "row_units_builder \<Rightarrow> string \<Rightarrow> whole_column \<Rightarrow> string" where
  "owner_key_of_column b identity column =
     (case owner_of b column of
        RowRenameOwner \<Rightarrow> row_unit_key RowRenameUnit (ct_identity (rb_table b)) [identity]
      | FieldOwner pointer \<Rightarrow> field_unit_key (ct_identity (rb_table b)) identity pointer
      | RowColumnsOwner \<Rightarrow> row_unit_key RowColumnsUnit (ct_identity (rb_table b)) [identity]
      | StructureOwner \<Rightarrow> structure_unit_key [ct_identity (rb_table b)])"

definition owner_key_of_leaf :: "row_units_builder \<Rightarrow> string \<Rightarrow> leaf_owner \<Rightarrow> string" where
  "owner_key_of_leaf b identity leaf =
     (if lw_owner leaf = OwnedByStructure then structure_unit_key [ct_identity (rb_table b)]
      else field_unit_key (ct_identity (rb_table b)) identity (lw_pointer leaf))"

definition existence_key :: "row_units_builder \<Rightarrow> row_pair \<Rightarrow> string option" where
  "existence_key b pair =
     (let key = (\<lambda>kind. row_unit_key kind (ct_identity (rb_table b)))
      in case (rp_head pair, rp_draft pair) of
        (None, Some draft) \<Rightarrow>
          Some (case map_of (rb_headOnlyRows b) (row_id draft) of
              Some replaced \<Rightarrow> key RowReplaceUnit [rp_identity replaced, rp_identity pair]
            | None \<Rightarrow> key RowCreateUnit [rp_identity pair])
      | (Some head, None) \<Rightarrow>
          Some (case map_of (rb_draftOnlyRows b) (row_id head) of
              Some replacement \<Rightarrow> key RowReplaceUnit [rp_identity pair, rp_identity replacement]
            | None \<Rightarrow> key RowDeleteUnit [rp_identity pair])
      | _ \<Rightarrow> None)"

subsection \<open>Units are kept under their keys\<close>

text \<open>The units of a table: each under its own key, about the table and about rows of the table.\<close>

definition table_unit_ok :: "row_units_builder \<Rightarrow> catalogue_unit \<Rightarrow> bool" where
  "table_unit_ok b u \<longleftrightarrow>
     ca_tableIdentities u = [ct_identity (rb_table b)] \<and> ca_systemRows u = [] \<and>
     cu_tableId (ca_unit u) = ct_tableId (rb_table b) \<and>
     set (ca_rowIdentities u) \<subseteq> rp_identity ` set (ct_pairs (rb_table b)) \<and> cu_rowId (ca_unit u) \<noteq> None \<and>
     ((\<exists>kind. kind = cu_kind (ca_unit u) \<and>
         kind \<in> {RowCreateUnit, RowDeleteUnit, RowReplaceUnit, RowRenameUnit, RowColumnsUnit} \<and>
         ca_key u = row_unit_key kind (ct_identity (rb_table b)) (ca_rowIdentities u)) \<or>
      (\<exists>identity pointer. cu_kind (ca_unit u) = FieldUnit \<and> ca_rowIdentities u = [identity] \<and>
         cu_path (ca_unit u) = Some (pointer_string pointer) \<and>
         ca_key u = field_unit_key (ct_identity (rb_table b)) identity pointer))"

definition unit_map_ok :: "row_units_builder \<Rightarrow> unit_map \<Rightarrow> bool" where
  "unit_map_ok b units \<longleftrightarrow>
     jmap_ok units \<and> (\<forall>(key, u) \<in> set units. ca_key u = key \<and> table_unit_ok b u)"

definition structure_key :: "row_units_builder \<Rightarrow> string" where
  "structure_key b = structure_unit_key [ct_identity (rb_table b)]"

text \<open>
  A step that records an owner: it returns a key that depends on its input only, and the units
  have that key afterwards, unless the structure unit of the table, which they never hold, owns
  it.
\<close>

locale owner_step =
  fixes add :: "'x \<Rightarrow> unit_map \<Rightarrow> string \<times> unit_map"
    and key :: "'x \<Rightarrow> string"
    and own :: string
    and ok :: "unit_map \<Rightarrow> bool"
  assumes add_key: "fst (add x units) = key x"
    and add_keys: "set (jkeys (snd (add x units))) = set (jkeys units) \<union> ({key x} - {own})"
    and add_ok: "ok units \<Longrightarrow> ok (snd (add x units))"
begin

lemma owners_fold:
  assumes "distinct (map name xs)" "set (map name xs) \<inter> set (jkeys owners) = {}"
  shows "\<exists>units'. fold (\<lambda>x (owners, units). let (k, units') = add x units
        in (AList.update (name x) k owners, units')) xs (owners, units) =
      (owners @ map (\<lambda>x. (name x, key x)) xs, units') \<and>
    set (jkeys units') = set (jkeys units) \<union> (key ` set xs - {own}) \<and> (ok units \<longrightarrow> ok units')"
  using assms
proof (induction xs arbitrary: owners units)
  case (Cons x xs)
  have new: "AList.update n v m = m @ [(n, v)]" if "n \<notin> set (jkeys m)" for n v and m :: "('a \<times> string) list"
    using that by (induction m) auto
  from Cons.prems have update: "AList.update (name x) (key x) owners = owners @ [(name x, key x)]"
    by (intro new) auto
  have "set (map name xs) \<inter> set (jkeys (owners @ [(name x, key x)])) = {}"
    using Cons.prems by auto
  moreover have "distinct (map name xs)" using Cons.prems by simp
  ultimately obtain units2 where units2:
    "fold (\<lambda>x (owners, units). let (k, units') = add x units in (AList.update (name x) k owners, units'))
       xs (owners @ [(name x, key x)], snd (add x units)) =
      ((owners @ [(name x, key x)]) @ map (\<lambda>x. (name x, key x)) xs, units2)"
    "set (jkeys units2) = set (jkeys (snd (add x units))) \<union> (key ` set xs - {own})"
    "ok (snd (add x units)) \<longrightarrow> ok units2"
    using Cons.IH [of "owners @ [(name x, key x)]" "snd (add x units)"] by blast
  have "set (jkeys units2) = set (jkeys units) \<union> (key ` set (x # xs) - {own})"
    unfolding units2(2) add_keys by auto
  with units2(1,3) add_ok [of units x] update show ?case
    by (intro exI [of _ units2]) (simp add: case_prod_beta' add_key)
qed simp

end

lemma add_unit_keys: "set (jkeys (snd (add_unit b key is u side units))) = insert key (set (jkeys units))"
proof (cases "map_of units key")
  case None
  then show ?thesis unfolding add_unit_def by (simp only: simp_thms if_True snd_conv jmap_keys_set)
next
  case (Some v)
  then have "key \<in> set (jkeys units)" by (force dest: map_of_SomeD)
  with Some show ?thesis by (auto simp: add_unit_def)
qed

lemma fst_add_unit [simp]: "fst (add_unit b key is u side units) = key"
  by (simp add: add_unit_def)

lemma add_unit_ok:
  assumes "unit_map_ok b units"
    "table_unit_ok b \<lparr>ca_key = key, ca_tableIdentities = rb_tableIdentities b, ca_rowIdentities = is,
       ca_systemRows = [], ca_side = side, ca_unit = u\<rparr>"
  shows "unit_map_ok b (snd (add_unit b key is u side units))"
proof (cases "map_of units key")
  case None
  let ?u = "\<lparr>ca_key = key, ca_tableIdentities = rb_tableIdentities b, ca_rowIdentities = is,
       ca_systemRows = [], ca_side = side, ca_unit = u\<rparr>"
  have "set (AList.update key ?u units) \<subseteq> insert (key, ?u) (set units)" by (rule jmap_entries_set)
  then have "\<forall>(k, v) \<in> set (AList.update key ?u units). ca_key v = k \<and> table_unit_ok b v"
    using assms unfolding unit_map_ok_def by fastforce
  moreover have "jmap_ok (AList.update key ?u units)" using assms unfolding unit_map_ok_def by blast
  ultimately show ?thesis using None by (simp add: unit_map_ok_def add_unit_def)
qed (use assms in \<open>simp add: add_unit_def\<close>)

text \<open>Adding a row unit or a field unit of rows of the table keeps the units of the table.\<close>

lemma add_row_unit_ok:
  assumes "unit_map_ok (row_units_builder t) units" "set is \<subseteq> rp_identity ` set (ct_pairs t)"
    "kind \<in> {RowCreateUnit, RowDeleteUnit, RowReplaceUnit, RowRenameUnit, RowColumnsUnit}"
    "\<And>u. cu_kind (setFields u) = cu_kind u" "\<And>u. cu_tableId (setFields u) = cu_tableId u"
    "\<And>u. cu_rowId (setFields u) \<noteq> None"
  shows "unit_map_ok (row_units_builder t) (snd (add_row_unit (row_units_builder t) kind is setFields side units))"
  unfolding add_row_unit_def using assms
  by (intro add_unit_ok) (auto simp: table_unit_ok_def row_units_builder_def table_unit_def)

lemma add_field_unit_ok:
  assumes "unit_map_ok (row_units_builder t) units" "rw_identity row \<in> rp_identity ` set (ct_pairs t)"
  shows "unit_map_ok (row_units_builder t) (snd (add_field_unit (row_units_builder t) row pointer units))"
  unfolding add_field_unit_def using assms
  by (intro add_unit_ok) (auto simp: table_unit_ok_def row_units_builder_def table_unit_def)

lemmas add_owner_defs = add_rename_unit_def add_row_columns_unit_def add_row_unit_def add_field_unit_def

lemma structure_key_other [simp]:
  "row_unit_key kind t is \<noteq> structure_key b" if "kind \<noteq> StructureUnit"
  using that by (simp add: structure_key_def unit_key_defs)

lemma structure_key_not_field [simp]: "field_unit_key t i p \<noteq> structure_key b"
  by (simp add: structure_key_def unit_key_defs)

text \<open>The two loops over a row on both sides are owner steps.\<close>

definition row_in_table :: "changed_table \<Rightarrow> row_on_both_sides \<Rightarrow> unit_map \<Rightarrow> bool" where
  "row_in_table t row units \<longleftrightarrow>
     (rw_identity row \<in> rp_identity ` set (ct_pairs t) \<longrightarrow> unit_map_ok (row_units_builder t) units)"

interpretation column_owners: owner_step
  "\<lambda>column. add_owner_of_column (row_units_builder t) row column rowColumns"
  "owner_key_of_column (row_units_builder t) (rw_identity row)"
  "structure_key (row_units_builder t)" "row_in_table t row"
  for t row rowColumns
proof
  show "fst (add_owner_of_column (row_units_builder t) row column rowColumns units) =
      owner_key_of_column (row_units_builder t) (rw_identity row) column" for column units
    by (auto simp: add_owner_of_column_def owner_key_of_column_def add_owner_defs
        split: column_owner.splits)
  show "set (jkeys (snd (add_owner_of_column (row_units_builder t) row column rowColumns units))) =
      set (jkeys units) \<union>
      ({owner_key_of_column (row_units_builder t) (rw_identity row) column} - {structure_key (row_units_builder t)})"
    for column units
    by (cases "owner_of (row_units_builder t) column")
      (simp_all add: add_owner_of_column_def owner_key_of_column_def add_owner_defs add_unit_keys
        del: set_map, auto simp: structure_key_def unit_key_defs)
  show "row_in_table t row units \<Longrightarrow>
      row_in_table t row (snd (add_owner_of_column (row_units_builder t) row column rowColumns units))"
    for column units
    by (cases "owner_of (row_units_builder t) column")
      (auto simp: row_in_table_def add_owner_of_column_def add_rename_unit_def add_row_columns_unit_def
        intro!: add_row_unit_ok add_field_unit_ok)
qed

interpretation leaf_owners: owner_step
  "add_owner_of_leaf (row_units_builder t) row"
  "owner_key_of_leaf (row_units_builder t) (rw_identity row)"
  "structure_key (row_units_builder t)" "row_in_table t row"
  for t row
proof
  show "fst (add_owner_of_leaf (row_units_builder t) row leaf units) =
      owner_key_of_leaf (row_units_builder t) (rw_identity row) leaf" for leaf units
    by (simp add: add_owner_of_leaf_def owner_key_of_leaf_def add_field_unit_def)
  show "set (jkeys (snd (add_owner_of_leaf (row_units_builder t) row leaf units))) =
      set (jkeys units) \<union>
      ({owner_key_of_leaf (row_units_builder t) (rw_identity row) leaf} - {structure_key (row_units_builder t)})"
    for leaf units
    by (cases "lw_owner leaf = OwnedByStructure")
      (simp_all add: add_owner_of_leaf_def owner_key_of_leaf_def add_field_unit_def add_unit_keys
        del: set_map, auto simp: structure_key_def unit_key_defs)
  show "row_in_table t row units \<Longrightarrow>
      row_in_table t row (snd (add_owner_of_leaf (row_units_builder t) row leaf units))" for leaf units
    by (auto simp: row_in_table_def add_owner_of_leaf_def intro!: add_field_unit_ok)
qed

subsection \<open>The rows of a table\<close>

lemma row_with_both_sides_facts:
  fixes t :: changed_table
  defines "b \<equiv> row_units_builder t"
  assumes "distinct (map lw_pointer (rb_ownedLeaves b))"
  shows "\<exists>units'. row_with_both_sides equal b pair row units =
      (\<lparr>cr_pair = pair, cr_existence = None,
        cr_columns = map (\<lambda>c. (c, owner_key_of_column b (rw_identity row) c))
          (differing_columns_of equal (rw_head row) (rw_draft row)),
        cr_leaves = map (\<lambda>l. (pointer_string (lw_pointer l), owner_key_of_leaf b (rw_identity row) l))
          (differing_leaves_of equal (rw_head row) (rw_draft row) (rb_ownedLeaves b))\<rparr>, units') \<and>
    set (jkeys units') = set (jkeys units) \<union>
      (owner_key_of_column b (rw_identity row) ` set (differing_columns_of equal (rw_head row) (rw_draft row)) \<union>
       owner_key_of_leaf b (rw_identity row) `
         set (differing_leaves_of equal (rw_head row) (rw_draft row) (rb_ownedLeaves b)) - {structure_key b}) \<and>
    (row_in_table t row units \<longrightarrow> row_in_table t row units')"
proof -
  let ?cols = "differing_columns_of equal (rw_head row) (rw_draft row)"
  let ?leaves = "differing_leaves_of equal (rw_head row) (rw_draft row) (rb_ownedLeaves b)"
  have "distinct ?cols" by (simp add: differing_columns_of_def whole_columns_def)
  then obtain units1 where units1:
    "fold (\<lambda>column (owners, units). let (key, units') = add_owner_of_column b row column (row_columns_among b ?cols) units
        in (AList.update column key owners, units')) ?cols ([], units) =
      (map (\<lambda>c. (c, owner_key_of_column b (rw_identity row) c)) ?cols, units1)"
    "set (jkeys units1) = set (jkeys units) \<union>
      (owner_key_of_column b (rw_identity row) ` set ?cols - {structure_key b})"
    "row_in_table t row units \<longrightarrow> row_in_table t row units1"
    using column_owners.owners_fold [of "\<lambda>c. c" ?cols "[]" t row "row_columns_among b ?cols" units]
    unfolding b_def by auto
  have "distinct (map (\<lambda>l. pointer_string (lw_pointer l)) ?leaves)"
    using assms(2) by (simp add: differing_leaves_of_def distinct_map inj_on_def)
  then obtain units2 where units2:
    "fold (\<lambda>leaf (owners, units). let (key, units') = add_owner_of_leaf b row leaf units
        in (AList.update (pointer_string (lw_pointer leaf)) key owners, units')) ?leaves ([], units1) =
      (map (\<lambda>l. (pointer_string (lw_pointer l), owner_key_of_leaf b (rw_identity row) l)) ?leaves, units2)"
    "set (jkeys units2) = set (jkeys units1) \<union>
      (owner_key_of_leaf b (rw_identity row) ` set ?leaves - {structure_key b})"
    "row_in_table t row units1 \<longrightarrow> row_in_table t row units2"
    using leaf_owners.owners_fold [of "\<lambda>l. pointer_string (lw_pointer l)" ?leaves "[]" t row units1]
    unfolding b_def by auto
  have "row_with_both_sides equal b pair row units =
      (\<lparr>cr_pair = pair, cr_existence = None,
        cr_columns = map (\<lambda>c. (c, owner_key_of_column b (rw_identity row) c)) ?cols,
        cr_leaves = map (\<lambda>l. (pointer_string (lw_pointer l), owner_key_of_leaf b (rw_identity row) l)) ?leaves\<rparr>, units2)"
    using units1(1) units2(1) by (simp add: row_with_both_sides_def Let_def)
  moreover have "set (jkeys units2) = set (jkeys units) \<union>
      (owner_key_of_column b (rw_identity row) ` set ?cols \<union>
       owner_key_of_leaf b (rw_identity row) ` set ?leaves - {structure_key b})"
    unfolding units2(2) units1(2) by auto
  ultimately show ?thesis using units1(3) units2(3) by blast
qed

text \<open>The row a pair becomes.\<close>

definition row_of_pair :: "(json \<Rightarrow> json \<Rightarrow> bool) \<Rightarrow> row_units_builder \<Rightarrow> row_pair \<Rightarrow> catalogue_row" where
  "row_of_pair equal b pair =
     (case (rp_head pair, rp_draft pair) of
        (Some head, Some draft) \<Rightarrow>
          \<lparr>cr_pair = pair, cr_existence = None,
           cr_columns = map (\<lambda>c. (c, owner_key_of_column b (rp_identity pair) c))
             (differing_columns_of equal head draft),
           cr_leaves = map (\<lambda>l. (pointer_string (lw_pointer l), owner_key_of_leaf b (rp_identity pair) l))
             (differing_leaves_of equal head draft (rb_ownedLeaves b))\<rparr>
      | _ \<Rightarrow> \<lparr>cr_pair = pair, cr_existence = existence_key b pair, cr_columns = [], cr_leaves = []\<rparr>)"

lemma rows_by_id_find:
  "map_of (rows_by_id pairs rowOf) i = find (\<lambda>p. map_option row_id (rowOf p) = Some i) (rev pairs)"
  by (induction pairs rule: rev_induct)
    (auto simp: rows_by_id_def jmap_simps split: option.splits)

lemma rows_by_id_mem: "map_of (rows_by_id pairs rowOf) i = Some pair \<Longrightarrow> pair \<in> set pairs"
  by (auto simp: rows_by_id_find find_Some_iff) (metis length_rev nth_mem set_rev)

lemma builder_simps [simp]:
  "rb_table (row_units_builder t) = t"
  "rb_headOnlyRows (row_units_builder t) = rows_by_id (ct_pairs t) head_only_row_of"
  "rb_draftOnlyRows (row_units_builder t) = rows_by_id (ct_pairs t) draft_only_row_of"
  "rb_ownedLeaves (row_units_builder t) = leaf_owners_of (ct_structure t)"
  by (simp_all add: row_units_builder_def)

lemma catalogue_row_facts:
  fixes t :: changed_table
  defines "b \<equiv> row_units_builder t"
  assumes "distinct (map lw_pointer (rb_ownedLeaves b))" "catalogue_row_of equal b pair units = Inr (row, units')"
  shows "row = row_of_pair equal b pair \<and>
    set (jkeys units') = set (jkeys units) \<union> (set (row_unit_keys row) - {structure_key b}) \<and>
    (pair \<in> set (ct_pairs t) \<and> unit_map_ok b units \<longrightarrow> unit_map_ok b units')"
proof (cases "rp_head pair")
  case None
  with assms(3) obtain draft where draft: "rp_draft pair = Some draft"
    "(row, units') = existence_row pair (add_creation_unit b pair draft units)"
    by (auto simp: catalogue_row_of_def split: option.splits)
  have "fst (add_creation_unit b pair draft units) = the (existence_key b pair)"
    "set (jkeys (snd (add_creation_unit b pair draft units))) = set (jkeys units) \<union>
       ({the (existence_key b pair)} - {structure_key b})"
    by (simp_all add: None draft(1) existence_key_def add_creation_unit_def add_replace_unit_def
        add_row_unit_def add_unit_keys del: set_map split: option.splits)
      (auto simp: structure_key_def unit_key_defs)
  moreover have "unit_map_ok b (snd (add_creation_unit b pair draft units))"
    if "pair \<in> set (ct_pairs t)" "unit_map_ok b units"
    using that unfolding b_def
    by (auto simp: add_creation_unit_def add_replace_unit_def
        dest!: rows_by_id_mem intro!: add_row_unit_ok split: option.splits)
  ultimately show ?thesis using draft None
    by (auto simp: existence_row_def row_of_pair_def row_unit_keys_def existence_key_def simp del: set_map)
next
  case (Some head)
  show ?thesis
  proof (cases "rp_draft pair")
    case None
    with Some assms(3) have row: "(row, units') = existence_row pair (add_deletion_unit b pair head units)"
      by (simp add: catalogue_row_of_def)
    have "fst (add_deletion_unit b pair head units) = the (existence_key b pair)"
      "set (jkeys (snd (add_deletion_unit b pair head units))) = set (jkeys units) \<union>
         ({the (existence_key b pair)} - {structure_key b})"
      by (simp_all add: None Some existence_key_def add_deletion_unit_def add_replace_unit_def
          add_row_unit_def add_unit_keys del: set_map split: option.splits)
        (auto simp: structure_key_def unit_key_defs)
    moreover have "unit_map_ok b (snd (add_deletion_unit b pair head units))"
      if "pair \<in> set (ct_pairs t)" "unit_map_ok b units"
      using that unfolding b_def
      by (auto simp: add_deletion_unit_def add_replace_unit_def
          dest!: rows_by_id_mem intro!: add_row_unit_ok split: option.splits)
    ultimately show ?thesis using row None Some
      by (auto simp: existence_row_def row_of_pair_def row_unit_keys_def existence_key_def simp del: set_map)
  next
    case draft: (Some draft)
    let ?row = "\<lparr>rw_identity = rp_identity pair, rw_head = head, rw_draft = draft\<rparr>"
    from Some draft assms(3) have row: "row_with_both_sides equal b pair ?row units = (row, units')"
      by (simp add: catalogue_row_of_def)
    from row_with_both_sides_facts [OF assms(2) [unfolded b_def], of equal pair ?row units]
    have parts: "row = row_of_pair equal b pair"
      "set (jkeys units') = set (jkeys units) \<union>
        (owner_key_of_column b (rp_identity pair) ` set (differing_columns_of equal head draft) \<union>
         owner_key_of_leaf b (rp_identity pair) `
           set (differing_leaves_of equal head draft (rb_ownedLeaves b)) - {structure_key b})"
      "row_in_table t ?row units \<longrightarrow> row_in_table t ?row units'"
      unfolding b_def [symmetric] row
      by (auto simp: row_of_pair_def Some draft simp del: set_map)
    moreover have "row_unit_keys row =
        map (owner_key_of_column b (rp_identity pair)) (differing_columns_of equal head draft) @
        map (owner_key_of_leaf b (rp_identity pair)) (differing_leaves_of equal head draft (rb_ownedLeaves b))"
      unfolding parts(1) by (simp add: row_unit_keys_def row_of_pair_def Some draft comp_def)
    moreover from parts(3) have "pair \<in> set (ct_pairs t) \<and> unit_map_ok b units \<longrightarrow> unit_map_ok b units'"
      by (auto simp: row_in_table_def b_def)
    ultimately show ?thesis by (simp only: set_append set_map)
  qed
qed

lemma catalogue_rows_facts:
  fixes t :: changed_table
  defines "b \<equiv> row_units_builder t"
  assumes "distinct (map lw_pointer (rb_ownedLeaves b))"
  shows "catalogue_rows equal b pairs units = Inr (rows, units') \<Longrightarrow>
    rows = map (row_of_pair equal b) pairs \<and>
    set (jkeys units') = set (jkeys units) \<union> (set (concat (map row_unit_keys rows)) - {structure_key b}) \<and>
    (set pairs \<subseteq> set (ct_pairs t) \<and> unit_map_ok b units \<longrightarrow> unit_map_ok b units')"
proof (induction pairs arbitrary: units rows)
  case (Cons pair pairs)
  then obtain row units1 rest where step: "catalogue_row_of equal b pair units = Inr (row, units1)"
    "catalogue_rows equal b pairs units1 = Inr (rest, units')" "rows = row # rest"
    by auto
  from catalogue_row_facts [OF assms(2) [unfolded b_def] step(1) [unfolded b_def]] Cons.IH [OF step(2)]
  show ?case unfolding b_def [symmetric] step(3) list.map concat.simps set_append by auto
qed auto

lemma catalogue_row_error:
  "(\<exists>e. catalogue_row_of equal b pair units = Inl e) \<longleftrightarrow> rp_head pair = None \<and> rp_draft pair = None"
  by (auto simp: catalogue_row_of_def split: option.splits)

lemma catalogue_rows_error:
  "(\<exists>e. catalogue_rows equal b pairs units = Inl e) \<longleftrightarrow>
     (\<exists>p \<in> set pairs. rp_head p = None \<and> rp_draft p = None)"
proof (induction pairs arbitrary: units)
  case (Cons pair pairs)
  show ?case
  proof (cases "catalogue_row_of equal b pair units")
    case (Inl e)
    then show ?thesis using catalogue_row_error by fastforce
  next
    case (Inr r)
    obtain row units1 where r: "r = (row, units1)" by (cases r)
    have some: "\<not> (rp_head pair = None \<and> rp_draft pair = None)"
      using Inr catalogue_row_error [of equal b pair units] by simp
    have "(\<exists>e. catalogue_rows equal b (pair # pairs) units = Inl e) \<longleftrightarrow>
        (\<exists>e. catalogue_rows equal b pairs units1 = Inl e)"
      by (simp add: Inr r try_bind_Inl_iff)
    then show ?thesis unfolding Cons.IH [of units1] using some by auto
  qed
qed simp

text \<open>What a run of the builder returns.\<close>

lemma build_row_units_facts:
  fixes t :: changed_table
  defines "b \<equiv> row_units_builder t"
  assumes "build_row_units equal t = Inr r" "distinct (map lw_pointer (leaf_owners_of (ct_structure t)))"
  shows "ru_rows r = map (row_of_pair equal b) (ct_pairs t)"
    "distinct (map ca_key (ru_units r))"
    "set (map ca_key (ru_units r)) = set (concat (map row_unit_keys (ru_rows r))) - {structure_key b}"
    "u \<in> set (ru_units r) \<Longrightarrow> table_unit_ok b u"
proof -
  from assms(2) obtain rows units where run: "catalogue_rows equal b (ct_pairs t) [] = Inr (rows, units)"
    "r = \<lparr>ru_units = jvalues units, ru_rows = rows\<rparr>"
    by (auto simp: build_row_units_def b_def)
  have "distinct (map lw_pointer (rb_ownedLeaves b))" using assms(3) by (simp add: b_def)
  note facts = catalogue_rows_facts [OF this [unfolded b_def] run(1) [unfolded b_def]]
  have ok: "unit_map_ok b units" using facts by (simp add: b_def unit_map_ok_def)
  then have keys: "map ca_key (jvalues units) = jkeys units" by (auto simp: unit_map_ok_def)
  show "ru_rows r = map (row_of_pair equal b) (ct_pairs t)" using facts run(2) by (simp add: b_def)
  show "distinct (map ca_key (ru_units r))"
    using ok unfolding run(2) row_units.select_convs keys unit_map_ok_def jmap_ok_def by blast
  show "set (map ca_key (ru_units r)) = set (concat (map row_unit_keys (ru_rows r))) - {structure_key b}"
    using facts unfolding run(2) row_units.select_convs keys b_def
    by (metis Un_empty_left list.set(1) list.simps(8))
  show "u \<in> set (ru_units r) \<Longrightarrow> table_unit_ok b u"
    using ok run(2) by (auto simp: unit_map_ok_def)
qed

lemma owner_key_names_row:
  assumes "table_unit_ok b u" "ca_key u = key" "key \<noteq> structure_key b"
    "key \<in> set (row_unit_keys (row_of_pair equal b pair))"
  shows "rp_identity pair \<in> set (ca_rowIdentities u)"
proof -
  have "\<exists>kind is. kind \<noteq> FieldUnit \<and>
        key = row_unit_key kind (ct_identity (rb_table b)) is \<and> rp_identity pair \<in> set is \<or>
      (\<exists>p. key = field_unit_key (ct_identity (rb_table b)) (rp_identity pair) p)"
    using assms(3,4)
    by (force simp: row_unit_keys_def row_of_pair_def existence_key_def Let_def owner_key_of_column_def
        owner_key_of_leaf_def structure_key_def split: option.splits column_owner.splits if_splits)
  with assms(1,2) show ?thesis
    by (auto simp: table_unit_ok_def unit_key_defs)
qed

subsection \<open>Properties\<close>

definition example_row :: "string \<Rightarrow> json \<Rightarrow> json row" where
  "example_row i value =
     \<lparr>row_versionId = ''v-'' @ i, row_createdId = ''c-'' @ i, row_id = i, row_readonly = False,
      row_createdAt = 0, row_updatedAt = 0, row_publishedAt = 0, row_data = value,
      row_meta = JObj [], row_hash = ''h'', row_schemaHash = ''s''\<rparr>"

text \<open>
  One row renamed, edited and published, one deleted and created again, one deleted whose id the
  rename took.
\<close>

definition example_changed_table :: changed_table where
  "example_changed_table =
     \<lparr>ct_identity = ''T'', ct_tableId = ''posts'', ct_structure = example_structure,
      ct_pairs =
        [\<lparr>rp_identity = ''1'', rp_head = Some (example_row ''a'' (JObj [(''a'', JStr ''x'')])),
          rp_draft = Some ((example_row ''b'' (JObj [(''b'', JObj [(''x'', JStr ''x'')])]))
            \<lparr>row_publishedAt := 1\<rparr>)\<rparr>,
         \<lparr>rp_identity = ''2'', rp_head = Some (example_row ''c'' (JObj [])), rp_draft = None\<rparr>,
         \<lparr>rp_identity = ''3'', rp_head = None, rp_draft = Some (example_row ''c'' (JObj []))\<rparr>,
         \<lparr>rp_identity = ''4'', rp_head = Some (example_row ''b'' (JObj [])), rp_draft = None\<rparr>]\<rparr>"

definition example_row_units :: row_units where
  "example_row_units =
     (case build_row_units (=) example_changed_table of Inr r \<Rightarrow> r | Inl _ \<Rightarrow> \<lparr>ru_units = [], ru_rows = []\<rparr>)"

lemma example_row_units_built:
  "build_row_units (=) example_changed_table = Inr example_row_units"
  "distinct (map lw_pointer (leaf_owners_of (ct_structure example_changed_table)))"
  by code_simp+

lemma pair_of_row_of_pair [simp]: "cr_pair (row_of_pair equal b pair) = pair"
  by (auto simp: row_of_pair_def split: option.splits)

lemma example_pairs:
  "length (ru_rows example_row_units) = 4"
  "i < 4 \<Longrightarrow> cr_pair (ru_rows example_row_units ! i) = ct_pairs example_changed_table ! i"
proof -
  have "length (ct_pairs example_changed_table) = 4" by (simp add: example_changed_table_def)
  then show "length (ru_rows example_row_units) = 4"
    "i < 4 \<Longrightarrow> cr_pair (ru_rows example_row_units ! i) = ct_pairs example_changed_table ! i"
    unfolding build_row_units_facts(1) [OF example_row_units_built] by simp_all
qed

text \<open>What a row must mention: every column and every leaf that differs, or its existence.\<close>

definition accounts_for :: "(json \<Rightarrow> json \<Rightarrow> bool) \<Rightarrow> table_structure \<Rightarrow> catalogue_row \<Rightarrow> bool" where
  "accounts_for equal structure row \<longleftrightarrow>
     (case (rp_head (cr_pair row), rp_draft (cr_pair row)) of
        (Some head, Some draft) \<Rightarrow>
          cr_existence row = None \<and>
          jkeys (cr_columns row) = differing_columns_of equal head draft \<and>
          jkeys (cr_leaves row) = map (\<lambda>leaf. pointer_string (lw_pointer leaf))
            (differing_leaves_of equal head draft (leaf_owners_of structure))
      | _ \<Rightarrow> cr_existence row \<noteq> None \<and> cr_columns row = [] \<and> cr_leaves row = [])"

text \<open>
  Claim C28: for a table whose leaves have one owner each, the rows of the catalogue are the pairs of
  the table in order, every row mentions an owner for exactly the columns and leaves its two versions
  differ in, or for its existence, and the units built are, each once, the owners the rows mention,
  apart from the structure unit of the table: no difference is without a unit and no unit without a
  difference.
\<close>

theorem row_units_account_for_every_difference:
  assumes "build_row_units equal t = Inr r" "distinct (map lw_pointer (leaf_owners_of (ct_structure t)))"
  shows "map cr_pair (ru_rows r) = ct_pairs t \<and>
    list_all (accounts_for equal (ct_structure t)) (ru_rows r) \<and>
    distinct (map ca_key (ru_units r)) \<and>
    set (map ca_key (ru_units r)) =
      set (concat (map row_unit_keys (ru_rows r))) - {structure_unit_key [ct_identity t]}"
proof -
  note facts = build_row_units_facts [OF assms]
  have "accounts_for equal (ct_structure t) (row_of_pair equal (row_units_builder t) pair)"
    if "rp_head pair \<noteq> None \<or> rp_draft pair \<noteq> None" for pair
    using that by (auto simp: accounts_for_def row_of_pair_def existence_key_def comp_def split: option.splits)
  moreover have "\<forall>pair \<in> set (ct_pairs t). rp_head pair \<noteq> None \<or> rp_draft pair \<noteq> None"
    using assms(1) catalogue_rows_error [of equal "row_units_builder t" "ct_pairs t" "[]"]
    by (auto simp: build_row_units_def)
  ultimately have "list_all (accounts_for equal (ct_structure t)) (ru_rows r)"
    unfolding facts(1) by (simp add: list_all_iff)
  moreover have "map cr_pair (ru_rows r) = ct_pairs t" unfolding facts(1) by (simp add: map_idI)
  ultimately show ?thesis using facts(2,3) by (simp add: structure_key_def)
qed

theorem row_units_account_for_every_difference_witness:
  "set (map ca_key (ru_units example_row_units)) =
     set (concat (map row_unit_keys (ru_rows example_row_units))) - {structure_unit_key [''T'']} \<and>
   structure_unit_key [''T''] \<in> set (concat (map row_unit_keys (ru_rows example_row_units))) \<and>
   length (ru_units example_row_units) = 4"
proof -
  have "structure_unit_key [''T''] \<in> set (concat (map row_unit_keys (ru_rows example_row_units))) \<and>
      length (ru_units example_row_units) = 4 \<and> ct_identity example_changed_table = ''T''" by code_simp
  then show ?thesis
    using row_units_account_for_every_difference [OF example_row_units_built] by simp
qed

text \<open>
  A unit that a row mentions names the row among its rows, belongs to the table alone and
  carries the id of the table in the Draft; only a replacement names more than one row.
\<close>

theorem row_units_concern_their_rows:
  assumes "build_row_units equal t = Inr r" "distinct (map lw_pointer (leaf_owners_of (ct_structure t)))"
    "row \<in> set (ru_rows r)" "u \<in> set (ru_units r)" "ca_key u \<in> set (row_unit_keys row)"
  shows "rp_identity (cr_pair row) \<in> set (ca_rowIdentities u) \<and> ca_tableIdentities u = [ct_identity t] \<and>
    cu_tableId (ca_unit u) = ct_tableId t \<and>
    set (ca_rowIdentities u) \<subseteq> rp_identity ` set (ct_pairs t) \<and>
    cu_kind (ca_unit u) \<notin> {StructureUnit, ViewsUnit, SharedSchemaUnit}"
proof -
  note facts = build_row_units_facts [OF assms(1,2)]
  from facts(4) [OF assms(4)] have ok: "table_unit_ok (row_units_builder t) u" .
  from assms(3) obtain pair where row: "row = row_of_pair equal (row_units_builder t) pair"
    unfolding facts(1) by auto
  have "ca_key u \<noteq> structure_key (row_units_builder t)" using facts(3) assms(4) by auto
  from owner_key_names_row [OF ok refl this] assms(5) row
  have "rp_identity pair \<in> set (ca_rowIdentities u)" by blast
  moreover have "cr_pair row = pair" unfolding row by simp
  ultimately show ?thesis using ok by (auto simp: table_unit_ok_def)
qed

theorem row_units_concern_their_rows_witness:
  "\<exists>u \<in> set (ru_units example_row_units).
     rp_identity (cr_pair (ru_rows example_row_units ! 2)) \<in> set (ca_rowIdentities u)"
proof -
  have at: "2 < length (ru_rows example_row_units)" by (simp add: example_pairs)
  have "list_ex (\<lambda>u. ca_key u \<in> set (row_unit_keys (ru_rows example_row_units ! 2))) (ru_units example_row_units)"
    by code_simp
  then obtain u where "u \<in> set (ru_units example_row_units)"
    "ca_key u \<in> set (row_unit_keys (ru_rows example_row_units ! 2))"
    unfolding list_ex_iff by blast
  with row_units_concern_their_rows [OF example_row_units_built nth_mem [OF at] this]
  show ?thesis by blast
qed

text \<open>
  A row deleted under an id and the row created under that id are one unit: both rows mention
  the same replacement, addressed by the id, about the deleted row and then the created one.
\<close>

theorem recreated_row_is_one_replacement:
  assumes "build_row_units equal t = Inr r" "distinct (map lw_pointer (leaf_owners_of (ct_structure t)))"
    and deleted: "row_h \<in> set (ru_rows r)" "rp_head (cr_pair row_h) = Some h" "rp_draft (cr_pair row_h) = None"
    and created: "row_d \<in> set (ru_rows r)" "rp_head (cr_pair row_d) = None" "rp_draft (cr_pair row_d) = Some d"
    and same_id: "row_id h = row_id d"
    and one_each: "\<forall>p \<in> set (ct_pairs t). map_option row_id (head_only_row_of p) = Some (row_id h) \<longrightarrow> p = cr_pair row_h"
      "\<forall>p \<in> set (ct_pairs t). map_option row_id (draft_only_row_of p) = Some (row_id d) \<longrightarrow> p = cr_pair row_d"
  shows "cr_existence row_h = cr_existence row_d \<and>
    cr_existence row_h = Some (row_unit_key RowReplaceUnit (ct_identity t)
      [rp_identity (cr_pair row_h), rp_identity (cr_pair row_d)]) \<and>
    (\<exists>u \<in> set (ru_units r). cr_existence row_h = Some (ca_key u) \<and> cu_kind (ca_unit u) = RowReplaceUnit)"
proof -
  let ?b = "row_units_builder t"
  let ?key = "row_unit_key RowReplaceUnit (ct_identity t) [rp_identity (cr_pair row_h), rp_identity (cr_pair row_d)]"
  note facts = build_row_units_facts [OF assms(1,2)]
  from deleted(1) created(1) have rows: "row_h = row_of_pair equal ?b (cr_pair row_h)"
    "row_d = row_of_pair equal ?b (cr_pair row_d)" "cr_pair row_h \<in> set (ct_pairs t)" "cr_pair row_d \<in> set (ct_pairs t)"
    unfolding facts(1) by auto
  have found: "find P (rev xs) = Some x" if "x \<in> set xs" "P x" "\<forall>y \<in> set xs. P y \<longrightarrow> y = x" for P and x :: row_pair and xs
    using that by (metis find_None_iff find_Some_iff not_Some_eq nth_mem set_rev)
  have "map_of (rb_headOnlyRows ?b) (row_id d) = Some (cr_pair row_h)"
    "map_of (rb_draftOnlyRows ?b) (row_id h) = Some (cr_pair row_d)"
    unfolding builder_simps rows_by_id_find same_id [symmetric]
     apply (rule found [OF rows(3) _ one_each(1)])
     apply (simp add: head_only_row_of_def deleted)
    unfolding same_id
    apply (rule found [OF rows(4) _ one_each(2)])
    apply (simp add: draft_only_row_of_def created)
    done
  then have "cr_existence (row_of_pair equal ?b (cr_pair row_h)) = Some ?key"
    "cr_existence (row_of_pair equal ?b (cr_pair row_d)) = Some ?key"
    by (simp_all add: row_of_pair_def existence_key_def deleted created)
  then have "cr_existence row_h = Some ?key" "cr_existence row_d = Some ?key"
    unfolding rows(1,2) [symmetric] .
  moreover from this(1) have "?key \<in> set (row_unit_keys row_h)" by (simp add: row_unit_keys_def)
  then have "?key \<in> set (concat (map row_unit_keys (ru_rows r)))" using deleted(1) by auto
  then have "?key \<in> set (map ca_key (ru_units r))" unfolding facts(3) by simp
  then obtain u where u: "u \<in> set (ru_units r)" "ca_key u = ?key" by auto
  moreover from facts(4) [OF u(1)] u(2) have "cu_kind (ca_unit u) = RowReplaceUnit"
    by (auto simp: table_unit_ok_def unit_key_defs)
  ultimately show ?thesis by metis
qed

theorem recreated_row_is_one_replacement_witness:
  "cr_existence (ru_rows example_row_units ! 1) =
     Some (row_unit_key RowReplaceUnit ''T'' [''2'', ''3''])"
proof -
  let ?rows = "ru_rows example_row_units" and ?c = "example_row ''c'' (JObj [])"
  have at: "1 < length ?rows" "2 < length ?rows" by (simp_all add: example_pairs)
  have pairs: "cr_pair (?rows ! 1) = ct_pairs example_changed_table ! 1"
    "cr_pair (?rows ! 2) = ct_pairs example_changed_table ! 2" by (simp_all add: example_pairs)
  have rows: "rp_head (cr_pair (?rows ! 1)) = Some ?c" "rp_draft (cr_pair (?rows ! 1)) = None"
    "rp_head (cr_pair (?rows ! 2)) = None" "rp_draft (cr_pair (?rows ! 2)) = Some ?c"
    "\<forall>p \<in> set (ct_pairs example_changed_table).
       map_option row_id (head_only_row_of p) = Some (row_id ?c) \<longrightarrow> p = cr_pair (?rows ! 1)"
    "\<forall>p \<in> set (ct_pairs example_changed_table).
       map_option row_id (draft_only_row_of p) = Some (row_id ?c) \<longrightarrow> p = cr_pair (?rows ! 2)"
    unfolding pairs by (simp_all add: example_changed_table_def head_only_row_of_def draft_only_row_of_def
        example_row_def)
  have ids: "rp_identity (cr_pair (?rows ! 1)) = ''2''" "rp_identity (cr_pair (?rows ! 2)) = ''3''"
    "ct_identity example_changed_table = ''T''"
    unfolding pairs by (simp_all add: example_changed_table_def)
  show ?thesis
    using recreated_row_is_one_replacement [OF example_row_units_built nth_mem [OF at(1)] rows(1,2)
        nth_mem [OF at(2)] rows(3,4) refl rows(5,6), unfolded ids] by (elim conjE)
qed

text \<open>
  The units of a table fail to build for one reason only, a row that neither revision has.
\<close>

theorem row_units_fail_iff_row_in_neither_revision:
  "(\<exists>r. build_row_units equal t = Inr r) \<longleftrightarrow>
     \<not> list_ex (\<lambda>p. rp_head p = None \<and> rp_draft p = None) (ct_pairs t)"
proof -
  have "(\<exists>r. build_row_units equal t = Inr r) \<longleftrightarrow>
      \<not> (\<exists>e. catalogue_rows equal (row_units_builder t) (ct_pairs t) [] = Inl e)"
    by (cases "catalogue_rows equal (row_units_builder t) (ct_pairs t) []") (auto simp: build_row_units_def)
  then show ?thesis unfolding catalogue_rows_error by (auto simp: list_ex_iff)
qed

end
