(* ===== verification/Head_Schema.thy ===== *)
theory Head_Schema
  imports Replay_Results Units
begin

section \<open>The compared snapshot\<close>

text \<open>
  The tables of Head and the Draft paired by identity (\<^verbatim>\<open>partial-changes/snapshot/table-pairs.ts\<close>,
  \<^verbatim>\<open>table-side.ts\<close>, the functions of \<^verbatim>\<open>changes-snapshot.ts\<close>), the replays of their ledgers
  (\<^verbatim>\<open>source-replays.ts\<close>), the tables a partial operation refuses
  (\<^verbatim>\<open>partial-changes/head-schema/head-schema-check.ts\<close>) and the comparison of the others
  (\<^verbatim>\<open>compared-snapshot-reader.service.ts\<close>). The replays are cached objects in the code; a value of
  the model is what the cache holds. The row of a schema table holds the schema as data and its
  history as meta, which the code casts: \<open>asHistory\<close> is that view of a JSON value.
\<close>

subsection \<open>Snapshots\<close>

record stored_table =
  so_versionId :: string
  so_createdId :: string
  so_id :: string
  so_readonly :: bool
  so_system :: bool

record 'd revision_rows =
  rr_head :: "'d row list"
  rr_draft :: "'d row list"

record system_rows =
  sy_schemas :: "json revision_rows"
  sy_migrations :: "migration revision_rows"
  sy_views :: "table_views revision_rows"
  sy_sharedSchemas :: "json revision_rows"

record changes_snapshot =
  sn_tables :: "table_pair list"
  sn_systemRows :: system_rows

fun rows_on :: "revision_side \<Rightarrow> 'd revision_rows \<Rightarrow> 'd row list" where
  "rows_on HeadSide rows = rr_head rows"
| "rows_on DraftSide rows = rr_draft rows"

fun side_name :: "revision_side \<Rightarrow> string" where
  "side_name HeadSide = ''head''"
| "side_name DraftSide = ''draft''"

record compared_table =
  co_identity :: string
  co_headVersionId :: string
  co_draftVersionId :: string
  co_structure :: table_structure

definition version_of :: "string \<Rightarrow> table_version option \<Rightarrow> table_version outcome" where
  "version_of identity version =
     (case version of
        None \<Rightarrow> Inl (''Table '' @ identity @ '' is in neither revision'')
      | Some v \<Rightarrow> Inr v)"

definition either_version :: "'v option \<Rightarrow> 'v option \<Rightarrow> 'v option" where
  "either_version draft head = (case draft of None \<Rightarrow> head | Some v \<Rightarrow> Some v)"

definition public_table_id_of :: "table_pair \<Rightarrow> string outcome" where
  "public_table_id_of pair =
     try_bind (version_of (tp_identity pair) (either_version (tp_draft pair) (tp_head pair)))
       (\<lambda>v. Inr (tv_id v))"

definition unit_row_id_of :: "row_pair \<Rightarrow> string outcome" where
  "unit_row_id_of pair =
     (case either_version (rp_draft pair) (rp_head pair) of
        None \<Rightarrow> Inl (''Row '' @ rp_identity pair @ '' is in neither revision'')
      | Some row \<Rightarrow> Inr (row_id row))"

definition public_id_or_identity_of :: "table_pair \<Rightarrow> string" where
  "public_id_or_identity_of pair =
     (case either_version (map_option tv_id (tp_draft pair)) (map_option tv_id (tp_head pair)) of
        None \<Rightarrow> tp_identity pair
      | Some i \<Rightarrow> i)"

definition versions_of :: "table_pair \<Rightarrow> table_version list" where
  "versions_of pair =
     (case tp_head pair of None \<Rightarrow> [] | Some head \<Rightarrow> [head]) @
     (case tp_draft pair of None \<Rightarrow> [] | Some draft \<Rightarrow> [draft])"

definition version_on :: "table_pair \<Rightarrow> revision_side \<Rightarrow> table_version outcome" where
  "version_on pair side =
     (case version_on_side side pair of
        None \<Rightarrow> Inl (public_id_or_identity_of pair @ '' has no '' @ side_name side @ '' version'')
      | Some v \<Rightarrow> Inr v)"

definition has_different_versions :: "compared_table \<Rightarrow> bool" where
  "has_different_versions table \<longleftrightarrow> co_headVersionId table \<noteq> co_draftVersionId table"

subsection \<open>Pairs of tables\<close>

fun schema_row_of ::
  "(json \<Rightarrow> history_patches) \<Rightarrow> json row \<Rightarrow> json \<times> history_patches list" where
  "schema_row_of asHistory row =
     (row_data row, case row_meta row of JArr items \<Rightarrow> map asHistory items | _ \<Rightarrow> [])"

definition with_schema ::
  "(json \<Rightarrow> history_patches) \<Rightarrow> stored_table \<Rightarrow> json row option \<Rightarrow> table_version outcome" where
  "with_schema asHistory table schemaRow =
     (case schemaRow of
        None \<Rightarrow> Inl (''Table \"'' @ so_id table @ ''\" has no schema row'')
      | Some row \<Rightarrow>
          (case schema_row_of asHistory row of (schema, history) \<Rightarrow>
             Inr \<lparr>tv_versionId = so_versionId table, tv_createdId = so_createdId table,
                  tv_id = so_id table, tv_readonly = so_readonly table,
                  tv_schema = schema, tv_history = history\<rparr>))"

definition user_table_versions ::
  "(json \<Rightarrow> history_patches) \<Rightarrow> stored_table list \<Rightarrow> json row list \<Rightarrow>
   (string, table_version) jmap outcome" where
  "user_table_versions asHistory tables schemaRows =
     (let schemaRowsByTableId = jmap_of (map (\<lambda>row. (row_id row, row)) schemaRows)
      in try_bind
           (map_try (\<lambda>table. try_bind (with_schema asHistory table (map_of schemaRowsByTableId (so_id table)))
               (\<lambda>version. Inr (so_createdId table, version)))
             (filter (\<lambda>table. \<not> so_system table) tables))
           (\<lambda>entries. Inr (jmap_of entries)))"

definition pair_versions ::
  "(string, table_version) jmap \<Rightarrow> (string, table_version) jmap \<Rightarrow> table_pair list" where
  "pair_versions head draft =
     map (\<lambda>identity. \<lparr>tp_identity = identity, tp_head = map_of head identity,
            tp_draft = map_of draft identity\<rparr>)
       (uniq (jkeys head @ jkeys draft))"

definition pair_user_tables_by_identity ::
  "(json \<Rightarrow> history_patches) \<Rightarrow> stored_table list \<Rightarrow> stored_table list \<Rightarrow> json revision_rows \<Rightarrow>
   table_pair list outcome" where
  "pair_user_tables_by_identity asHistory headTables draftTables schemaRows =
     try_bind (user_table_versions asHistory headTables (rr_head schemaRows)) (\<lambda>head.
     try_bind (user_table_versions asHistory draftTables (rr_draft schemaRows)) (\<lambda>draft.
       Inr (pair_versions head draft)))"

definition table_side_of :: "table_pair list \<Rightarrow> table_version \<Rightarrow> revision_side \<Rightarrow> table_side" where
  "table_side_of tables version side =
     \<lparr>sd_tableId = tv_id version, sd_schema = tv_schema version, sd_history = tv_history version,
      sd_tableIdentities = identities_by_table_id tables side\<rparr>"

subsection \<open>Replays of the two ledgers\<close>

definition source_ledger_of :: "changes_snapshot \<Rightarrow> revision_side \<Rightarrow> migration list" where
  "source_ledger_of snapshot side =
     migrations_of (ledger_of (rows_on side (sy_migrations (sn_systemRows snapshot))))"

record source_replays =
  sr_head :: replayed_ledger
  sr_draft :: replayed_ledger
  sr_draftSlots :: "slot list"

definition replay_of :: "'st toolkit \<Rightarrow> changes_snapshot \<Rightarrow> revision_side \<Rightarrow> replayed_ledger" where
  "replay_of tk snapshot side = replay_ledger tk (source_ledger_of snapshot side) [] False"

definition source_replays :: "'st toolkit \<Rightarrow> changes_snapshot \<Rightarrow> source_replays" where
  "source_replays tk snapshot =
     \<lparr>sr_head = replay_of tk snapshot HeadSide, sr_draft = replay_of tk snapshot DraftSide,
      sr_draftSlots = trace_table_slots (source_ledger_of snapshot DraftSide) []\<rparr>"

subsection \<open>Refused tables\<close>

datatype refusal_code = HeadSchemaInconsistent | UnledgeredTable

fun refusal_code_name :: "refusal_code \<Rightarrow> string" where
  "refusal_code_name HeadSchemaInconsistent = ''headSchemaInconsistent''"
| "refusal_code_name UnledgeredTable = ''unledgeredTable''"

record refused_table =
  rf_tableId :: string
  rf_code :: refusal_code

record head_schema_check =
  hs_refusedTables :: "refused_table list"
  hs_refusedTablesByIdentity :: "(string, refused_table) jmap"
  hs_replayedHeadSchemas :: "(string, json) jmap"

definition head_check_of ::
  "(json \<Rightarrow> json \<Rightarrow> bool) \<Rightarrow> table_version \<Rightarrow> source_replays \<Rightarrow> slot_check" where
  "head_check_of equal head replays =
     check_table_slot equal (sr_head replays) (tv_id head) (Some (tv_schema head))"

fun head_code_of :: "slot_check \<Rightarrow> refusal_code option" where
  "head_code_of (Unledgered _) = Some UnledgeredTable"
| "head_code_of (Unreplayable _ _) = Some HeadSchemaInconsistent"
| "head_code_of (Mismatch _) = Some HeadSchemaInconsistent"
| "head_code_of (Reproduces _) = None"

definition is_unledgered ::
  "(json \<Rightarrow> json \<Rightarrow> bool) \<Rightarrow> table_pair \<Rightarrow> source_replays \<Rightarrow> bool outcome" where
  "is_unledgered equal pair replays =
     (case tp_head pair of
        Some head \<Rightarrow> Inr (case head_check_of equal head replays of Unledgered _ \<Rightarrow> True | _ \<Rightarrow> False)
      | None \<Rightarrow> try_bind (public_table_id_of pair) (\<lambda>i. Inr (\<not> is_ledgered (sr_draftSlots replays) i)))"

definition code_of ::
  "(json \<Rightarrow> json \<Rightarrow> bool) \<Rightarrow> source_replays \<Rightarrow> table_pair \<Rightarrow> refusal_code option outcome" where
  "code_of equal replays pair =
     (case tp_head pair of
        Some head \<Rightarrow> Inr (head_code_of (head_check_of equal head replays))
      | None \<Rightarrow> try_bind (is_unledgered equal pair replays)
          (\<lambda>unledgered. Inr (if unledgered then Some UnledgeredTable else None)))"

type_synonym refusal = "string \<times> refused_table"

definition refusals_of_pairs ::
  "(json \<Rightarrow> json \<Rightarrow> bool) \<Rightarrow> source_replays \<Rightarrow> table_pair list \<Rightarrow> refusal list outcome" where
  "refusals_of_pairs equal replays pairs =
     try_bind (map_try (\<lambda>pair. try_bind (code_of equal replays pair) (\<lambda>code.
         case code of
           None \<Rightarrow> Inr []
         | Some c \<Rightarrow> try_bind (public_table_id_of pair) (\<lambda>i.
             Inr [(tp_identity pair, \<lparr>rf_tableId = i, rf_code = c\<rparr>)]))) pairs)
       (\<lambda>refusals. Inr (concat refusals))"

definition by_table_id_and_code :: "refusal \<Rightarrow> refusal \<Rightarrow> int" where
  "by_table_id_and_code left right =
     or_else (compare_code_points (rf_tableId (snd left)) (rf_tableId (snd right)))
       (compare_code_points (refusal_code_name (rf_code (snd left)))
         (refusal_code_name (rf_code (snd right))))"

definition refusals_of ::
  "(json \<Rightarrow> json \<Rightarrow> bool) \<Rightarrow> changes_snapshot \<Rightarrow> source_replays \<Rightarrow> bool \<Rightarrow> refusal list outcome" where
  "refusals_of equal snapshot replays wholeDraft =
     (if wholeDraft then Inr []
      else try_bind (refusals_of_pairs equal replays (sn_tables snapshot))
        (\<lambda>refusals. Inr (js_sort by_table_id_and_code refusals)))"

definition replayed_head_schemas_of ::
  "changes_snapshot \<Rightarrow> replayed_ledger \<Rightarrow> (string, json) jmap" where
  "replayed_head_schemas_of snapshot headLedger =
     fold (\<lambda>pair schemas.
         case Option.bind (tp_head pair) (\<lambda>head. map_of (rl_schemas headLedger) (tv_id head)) of
           None \<Rightarrow> schemas
         | Some replayed \<Rightarrow> AList.update (tp_identity pair) replayed schemas)
       (sn_tables snapshot) []"

definition check_head_schema ::
  "(json \<Rightarrow> json \<Rightarrow> bool) \<Rightarrow> changes_snapshot \<Rightarrow> source_replays \<Rightarrow> bool \<Rightarrow> head_schema_check outcome" where
  "check_head_schema equal snapshot replays wholeDraft =
     try_bind (refusals_of equal snapshot replays wholeDraft) (\<lambda>refusals.
       Inr \<lparr>hs_refusedTables = map snd refusals,
            hs_refusedTablesByIdentity = jmap_of refusals,
            hs_replayedHeadSchemas = replayed_head_schemas_of snapshot (sr_head replays)\<rparr>)"

subsection \<open>The comparison\<close>

record compared_snapshot =
  cs_snapshot :: changes_snapshot
  cs_ledger :: ledger_attribution
  cs_headSchema :: head_schema_check
  cs_tables :: "compared_table list"

definition compared_tables_of ::
  "'st toolkit \<Rightarrow> system_schema_ids \<Rightarrow> (json \<Rightarrow> json \<Rightarrow> bool) \<Rightarrow>
   (history_patches list \<Rightarrow> history_patches list \<Rightarrow> bool) \<Rightarrow> changes_snapshot \<Rightarrow>
   ledger_attribution \<Rightarrow> head_schema_check \<Rightarrow> compared_table list outcome" where
  "compared_tables_of tk ids equal deq snapshot ledger headSchema =
     try_bind (map_try (\<lambda>pair. case (tp_head pair, tp_draft pair) of
         (Some head, Some draft) \<Rightarrow>
           try_bind (analyze_table_structure tk ids equal deq
               \<lparr>in_head = table_side_of (sn_tables snapshot) head HeadSide,
                in_draft = table_side_of (sn_tables snapshot) draft DraftSide,
                in_pendingMigrations = pending_migrations_of ledger (tp_identity pair),
                in_replayedHeadSchema = map_of (hs_replayedHeadSchemas headSchema) (tp_identity pair)\<rparr>)
             (\<lambda>structure. Inr [\<lparr>co_identity = tp_identity pair, co_headVersionId = tv_versionId head,
                co_draftVersionId = tv_versionId draft, co_structure = structure\<rparr>])
       | _ \<Rightarrow> Inr []) (sn_tables snapshot))
       (\<lambda>tables. Inr (concat tables))"

definition read_compared_snapshot ::
  "'st toolkit \<Rightarrow> system_schema_ids \<Rightarrow> (json \<Rightarrow> json \<Rightarrow> bool) \<Rightarrow>
   (history_patches list \<Rightarrow> history_patches list \<Rightarrow> bool) \<Rightarrow> changes_snapshot \<Rightarrow> bool \<Rightarrow>
   compared_snapshot outcome" where
  "read_compared_snapshot tk ids equal deq snapshot wholeDraft =
     (let migrations = sy_migrations (sn_systemRows snapshot);
          ledger = attribute_ledger (sn_tables snapshot) (rr_head migrations) (rr_draft migrations)
      in try_bind (check_head_schema equal snapshot (source_replays tk snapshot) wholeDraft) (\<lambda>headSchema.
         try_bind (compared_tables_of tk ids equal deq snapshot ledger headSchema) (\<lambda>tables.
           Inr \<lparr>cs_snapshot = snapshot, cs_ledger = ledger, cs_headSchema = headSchema,
                cs_tables = tables\<rparr>)))"

subsection \<open>Pairs hold every table\<close>

definition user_tables :: "stored_table list \<Rightarrow> stored_table list" where
  "user_tables tables = filter (\<lambda>table. \<not> so_system table) tables"

definition is_version_of :: "stored_table \<Rightarrow> table_version \<Rightarrow> bool" where
  "is_version_of table version \<longleftrightarrow>
     tv_versionId version = so_versionId table \<and> tv_createdId version = so_createdId table \<and>
     tv_id version = so_id table \<and> tv_readonly version = so_readonly table"

lemma with_schema_version: "with_schema asHistory table row = Inr v \<Longrightarrow> is_version_of table v"
  by (auto simp: with_schema_def is_version_of_def split: option.splits)

lemma map_try_keys:
  assumes "map_try (\<lambda>x. try_bind (f x) (\<lambda>v. Inr (key x, v))) xs = Inr entries"
  shows "map fst entries = map key xs \<and> (\<forall>(k, v) \<in> set entries. \<exists>x \<in> set xs. key x = k \<and> f x = Inr v)"
  using assms by (induction xs arbitrary: entries) fastforce+

lemma jmap_of_distinct:
  assumes "distinct (map fst kvs)"
  shows "map_of (jmap_of kvs) = map_of kvs" "set (jkeys (jmap_of kvs)) = set (map fst kvs)"
proof -
  show get: "map_of (jmap_of kvs) = map_of kvs" using assms by (simp add: map_of_jmap_of map_of_inject_set rev_map [symmetric])
  have "dom (map_of (jmap_of kvs)) = dom (map_of kvs)" by (simp only: get)
  then show "set (jkeys (jmap_of kvs)) = set (map fst kvs)" by (simp add: dom_map_of_conv_image_fst)
qed

lemma user_table_versions_facts:
  assumes "user_table_versions asHistory tables rows = Inr versions" "distinct (map so_createdId (user_tables tables))"
  shows "set (jkeys versions) = so_createdId ` set (user_tables tables)"
    "table \<in> set (user_tables tables) \<Longrightarrow> \<exists>v. map_of versions (so_createdId table) = Some v \<and> is_version_of table v"
proof -
  from assms(1) obtain entries where entries:
    "map_try (\<lambda>table. try_bind (with_schema asHistory table
        (map_of (jmap_of (map (\<lambda>row. (row_id row, row)) rows)) (so_id table)))
        (\<lambda>version. Inr (so_createdId table, version))) (user_tables tables) = Inr entries"
    "versions = jmap_of entries"
    by (auto simp: user_table_versions_def user_tables_def Let_def)
  note keys = map_try_keys [OF entries(1)]
  then have dist: "distinct (map fst entries)" using assms(2) by (simp add: comp_def)
  show "set (jkeys versions) = so_createdId ` set (user_tables tables)"
    unfolding entries(2) jmap_of_distinct(2) [OF dist] using keys by simp
  assume table: "table \<in> set (user_tables tables)"
  then have "so_createdId table \<in> set (map fst entries)" using keys by simp
  then obtain v where v: "(so_createdId table, v) \<in> set entries" by auto
  with keys have "\<exists>x \<in> set (user_tables tables). so_createdId x = so_createdId table \<and>
      with_schema asHistory x (map_of (jmap_of (map (\<lambda>row. (row_id row, row)) rows)) (so_id x)) = Inr v"
    by blast
  then obtain other where other: "other \<in> set (user_tables tables)" "so_createdId other = so_createdId table"
    "is_version_of other v" using with_schema_version by blast
  with table assms(2) have "other = table" by (simp add: distinct_map inj_on_def)
  then show "\<exists>v. map_of versions (so_createdId table) = Some v \<and> is_version_of table v"
    using v other(3) dist by (auto simp: entries(2) jmap_of_distinct(1))
qed

subsection \<open>Refusals\<close>




lemma by_table_id_and_code_orders:
  "orders (by_table_id_and_code l r) (rf_tableId (snd l), refusal_code_name (rf_code (snd l)))
     (rf_tableId (snd r), refusal_code_name (rf_code (snd r)))"
  unfolding by_table_id_and_code_def by (intro orders_pair orders_code_points)

lemma by_table_id_and_code_le:
  "by_table_id_and_code l r \<le> 0 \<longleftrightarrow> (rf_tableId (snd l), refusal_code_name (rf_code (snd l))) \<le>
     (rf_tableId (snd r), refusal_code_name (rf_code (snd r)))"
  by (rule orders_le [OF by_table_id_and_code_orders])

interpretation refusal_order: js_comparator by_table_id_and_code
proof
  show "by_table_id_and_code x y \<le> 0 \<or> by_table_id_and_code y x \<le> 0" for x y
    unfolding by_table_id_and_code_le by (rule linear)
  show "by_table_id_and_code x y \<le> 0 \<Longrightarrow> by_table_id_and_code y z \<le> 0 \<Longrightarrow> by_table_id_and_code x z \<le> 0" for x y z
    unfolding by_table_id_and_code_le by (rule order_trans)
qed

subsection \<open>Properties\<close>

text \<open>
  When a revision holds each table identity once, every user table of Head and of the Draft
  is in exactly one pair, the one of its identity, as the version of its side, and no pair is
  without a version.
\<close>

theorem pairs_hold_every_user_table:
  assumes "pair_user_tables_by_identity asHistory headTables draftTables rows = Inr pairs"
    "distinct (map so_createdId (user_tables headTables))" "distinct (map so_createdId (user_tables draftTables))"
  shows "distinct (map tp_identity pairs) \<and>
    (\<forall>table \<in> set (user_tables headTables). \<exists>pair \<in> set pairs. tp_identity pair = so_createdId table \<and>
       (\<exists>v. tp_head pair = Some v \<and> is_version_of table v)) \<and>
    (\<forall>table \<in> set (user_tables draftTables). \<exists>pair \<in> set pairs. tp_identity pair = so_createdId table \<and>
       (\<exists>v. tp_draft pair = Some v \<and> is_version_of table v)) \<and>
    (\<forall>pair \<in> set pairs. tp_head pair \<noteq> None \<or> tp_draft pair \<noteq> None)"
proof -
  from assms(1) obtain head draft where sides:
    "user_table_versions asHistory headTables (rr_head rows) = Inr head"
    "user_table_versions asHistory draftTables (rr_draft rows) = Inr draft"
    "pairs = pair_versions head draft" by (auto simp: pair_user_tables_by_identity_def)
  note head = user_table_versions_facts [OF sides(1) assms(2)]
  note draft = user_table_versions_facts [OF sides(2) assms(3)]
  let ?pair = "\<lambda>i. \<lparr>tp_identity = i, tp_head = map_of head i, tp_draft = map_of draft i\<rparr>"
  have set_pairs: "set pairs = ?pair ` (set (jkeys head) \<union> set (jkeys draft))"
    by (simp add: sides(3) pair_versions_def)
  have "map tp_identity pairs = uniq (jkeys head @ jkeys draft)"
    by (simp add: sides(3) pair_versions_def comp_def)
  then have "distinct (map tp_identity pairs)" by simp
  moreover have "\<exists>pair \<in> set pairs. tp_identity pair = so_createdId table \<and>
      (\<exists>v. tp_head pair = Some v \<and> is_version_of table v)" if "table \<in> set (user_tables headTables)" for table
    using head(2) [OF that] that
    by (intro bexI [of _ "?pair (so_createdId table)"]) (auto simp: set_pairs head(1) simp del: set_map)
  moreover have "\<exists>pair \<in> set pairs. tp_identity pair = so_createdId table \<and>
      (\<exists>v. tp_draft pair = Some v \<and> is_version_of table v)" if "table \<in> set (user_tables draftTables)" for table
    using draft(2) [OF that] that
    by (intro bexI [of _ "?pair (so_createdId table)"]) (auto simp: set_pairs draft(1) simp del: set_map)
  moreover have "tp_head pair \<noteq> None \<or> tp_draft pair \<noteq> None" if "pair \<in> set pairs" for pair
    using that unfolding set_pairs by (auto simp del: set_map) (simp_all add: map_of_eq_None_iff, (metis map_of_eq_None_iff not_None_eq)+)
  ultimately show ?thesis by blast
qed

definition example_stored :: "string \<Rightarrow> string \<Rightarrow> stored_table" where
  "example_stored createdId i =
     \<lparr>so_versionId = ''v-'' @ i, so_createdId = createdId, so_id = i, so_readonly = False, so_system = False\<rparr>"

definition example_schema_row :: "string \<Rightarrow> json \<Rightarrow> json row" where
  "example_schema_row i schema =
     \<lparr>row_versionId = ''s-'' @ i, row_createdId = ''s'', row_id = i, row_readonly = False,
      row_createdAt = 0, row_updatedAt = 0, row_publishedAt = 0, row_data = schema,
      row_meta = JArr [], row_hash = ''h'', row_schemaHash = ''s''\<rparr>"

definition example_table_pairs :: "table_pair list" where
  "example_table_pairs =
     pair_versions
       [(''t1'', \<lparr>tv_versionId = ''v-users'', tv_createdId = ''t1'', tv_id = ''users'', tv_readonly = False,
          tv_schema = JObj [], tv_history = []\<rparr>),
        (''t2'', \<lparr>tv_versionId = ''v-tags'', tv_createdId = ''t2'', tv_id = ''tags'', tv_readonly = False,
          tv_schema = JObj [], tv_history = []\<rparr>)]
       [(''t1'', \<lparr>tv_versionId = ''v-people'', tv_createdId = ''t1'', tv_id = ''people'', tv_readonly = False,
          tv_schema = JObj [], tv_history = []\<rparr>)]"

lemma example_pairing:
  "pair_user_tables_by_identity (\<lambda>_. \<lparr>hp_patches = [], hp_hash = [], hp_date = []\<rparr>)
     [example_stored ''t1'' ''users'', example_stored ''t2'' ''tags''] [example_stored ''t1'' ''people'']
     \<lparr>rr_head = [example_schema_row ''users'' (JObj []), example_schema_row ''tags'' (JObj [])],
      rr_draft = [example_schema_row ''people'' (JObj [])]\<rparr> = Inr example_table_pairs"
  "distinct (map so_createdId (user_tables [example_stored ''t1'' ''users'', example_stored ''t2'' ''tags'']))"
  "distinct (map so_createdId (user_tables [example_stored ''t1'' ''people'']))"
  by code_simp+

theorem pairs_hold_every_user_table_witness:
  "distinct (map tp_identity example_table_pairs) \<and> length example_table_pairs = 2 \<and>
   (\<exists>pair \<in> set example_table_pairs. tp_identity pair = so_createdId (example_stored ''t1'' ''people'') \<and>
      (\<exists>v. tp_draft pair = Some v \<and> is_version_of (example_stored ''t1'' ''people'') v))"
proof -
  have "example_stored ''t1'' ''people'' \<in> set (user_tables [example_stored ''t1'' ''people''])"
    "length example_table_pairs = 2" by code_simp+
  then show ?thesis using pairs_hold_every_user_table [OF example_pairing] by blast
qed


definition example_snapshot :: changes_snapshot where
  "example_snapshot =
     \<lparr>sn_tables = example_table_pairs,
      sn_systemRows =
        \<lparr>sy_schemas =
           \<lparr>rr_head = [example_schema_row ''users'' (JObj []), example_schema_row ''tags'' (JObj [])],
            rr_draft = [example_schema_row ''people'' (JObj [])]\<rparr>,
         sy_migrations =
           \<lparr>rr_head = [example_migration_row ''a'' (InitMigration 0 ''1'' ''users'' ''h'' (JObj []))],
            rr_draft = [example_migration_row ''a'' (InitMigration 0 ''1'' ''users'' ''h'' (JObj [])),
              example_migration_row ''b'' (RenameMigration 1 ''2'' ''users'' ''people'')]\<rparr>,
         sy_views = \<lparr>rr_head = [], rr_draft = []\<rparr>, sy_sharedSchemas = \<lparr>rr_head = [], rr_draft = []\<rparr>\<rparr>\<rparr>"




definition is_on_both_sides :: "table_pair \<Rightarrow> bool" where
  "is_on_both_sides pair \<longleftrightarrow> tp_head pair \<noteq> None \<and> tp_draft pair \<noteq> None"

definition compares_pair ::
  "'st toolkit \<Rightarrow> system_schema_ids \<Rightarrow> (json \<Rightarrow> json \<Rightarrow> bool) \<Rightarrow>
   (history_patches list \<Rightarrow> history_patches list \<Rightarrow> bool) \<Rightarrow> compared_snapshot \<Rightarrow> table_pair \<Rightarrow>
   compared_table \<Rightarrow> bool" where
  "compares_pair tk ids equal deq c pair table \<longleftrightarrow>
     co_identity table = tp_identity pair \<and>
     (\<exists>head draft. tp_head pair = Some head \<and> tp_draft pair = Some draft \<and>
        co_headVersionId table = tv_versionId head \<and> co_draftVersionId table = tv_versionId draft \<and>
        analyze_table_structure tk ids equal deq
          \<lparr>in_head = table_side_of (sn_tables (cs_snapshot c)) head HeadSide,
           in_draft = table_side_of (sn_tables (cs_snapshot c)) draft DraftSide,
           in_pendingMigrations = pending_migrations_of (cs_ledger c) (tp_identity pair),
           in_replayedHeadSchema = map_of (hs_replayedHeadSchemas (cs_headSchema c)) (tp_identity pair)\<rparr> =
          Inr (co_structure table))"

lemma compared_pairs:
  assumes "read_compared_snapshot tk ids equal deq snapshot wholeDraft = Inr c"
  shows "cs_snapshot c = snapshot"
    "list_all2 (compares_pair tk ids equal deq c) (filter is_on_both_sides (sn_tables snapshot)) (cs_tables c)"
proof -
  from assms show snapshot: "cs_snapshot c = snapshot" by (auto simp: read_compared_snapshot_def Let_def)
  from assms have "compared_tables_of tk ids equal deq snapshot (cs_ledger c) (cs_headSchema c) = Inr (cs_tables c)"
    by (auto simp: read_compared_snapshot_def Let_def)
  then obtain parts where parts: "concat parts = cs_tables c"
    "map_try (\<lambda>pair. case (tp_head pair, tp_draft pair) of
         (Some head, Some draft) \<Rightarrow>
           try_bind (analyze_table_structure tk ids equal deq
               \<lparr>in_head = table_side_of (sn_tables snapshot) head HeadSide,
                in_draft = table_side_of (sn_tables snapshot) draft DraftSide,
                in_pendingMigrations = pending_migrations_of (cs_ledger c) (tp_identity pair),
                in_replayedHeadSchema = map_of (hs_replayedHeadSchemas (cs_headSchema c)) (tp_identity pair)\<rparr>)
             (\<lambda>structure. Inr [\<lparr>co_identity = tp_identity pair, co_headVersionId = tv_versionId head,
                co_draftVersionId = tv_versionId draft, co_structure = structure\<rparr>])
       | _ \<Rightarrow> Inr []) (sn_tables snapshot) = Inr parts"
    by (auto simp: compared_tables_of_def)
  show "list_all2 (compares_pair tk ids equal deq c) (filter is_on_both_sides (sn_tables snapshot)) (cs_tables c)"
    unfolding parts(1) [symmetric]
    by (rule map_try_filter [OF _ parts(2)])
      (auto simp: is_on_both_sides_def compares_pair_def snapshot split: option.splits)
qed

text \<open>
  The comparison analyses exactly the tables that are in both revisions, each once and in the
  order of the pairs, under the versions of its pair, and the structures are those of the two sides
  with the pending migrations of the table and its replayed schema.
\<close>

theorem comparison_covers_tables_on_both_sides:
  assumes "read_compared_snapshot tk ids equal deq snapshot wholeDraft = Inr c"
  shows "list_all2 (compares_pair tk ids equal deq c) (filter is_on_both_sides (sn_tables snapshot)) (cs_tables c)"
  by (rule compared_pairs [OF assms])

lemma map_identities_compared:
  "list_all2 (compares_pair tk ids equal deq c) pairs tables \<Longrightarrow> map tp_identity pairs = map co_identity tables"
  by (induction rule: list_all2_induct) (simp_all add: compares_pair_def)

lemma example_comparison:
  "(case read_compared_snapshot root_toolkit example_ids (=) (=) example_snapshot False of
      Inr c \<Rightarrow> map co_identity (cs_tables c) = [''t1''] | Inl _ \<Rightarrow> False)"
  by code_simp

theorem comparison_covers_tables_on_both_sides_witness:
  "\<exists>c. read_compared_snapshot root_toolkit example_ids (=) (=) example_snapshot False = Inr c \<and>
     map tp_identity (filter is_on_both_sides (sn_tables example_snapshot)) = map co_identity (cs_tables c) \<and>
     map co_identity (cs_tables c) = [''t1'']"
proof -
  obtain c where c: "read_compared_snapshot root_toolkit example_ids (=) (=) example_snapshot False = Inr c"
    "map co_identity (cs_tables c) = [''t1'']"
    using example_comparison
    by (cases "read_compared_snapshot root_toolkit example_ids (=) (=) example_snapshot False")
      (simp_all only: sum.case)
  from comparison_covers_tables_on_both_sides [OF c(1)]
  have "map tp_identity (filter is_on_both_sides (sn_tables example_snapshot)) = map co_identity (cs_tables c)"
    by (rule map_identities_compared)
  with c show ?thesis by (intro exI [of _ c] conjI)
qed

end
