(* ===== verification/Table_Units.thy ===== *)
theory Table_Units
  imports Row_Units Head_Schema
begin

section \<open>Units of tables and of shared schemas\<close>

text \<open>
  \<^verbatim>\<open>partial-changes/catalogue/catalogue-tables.ts\<close>, \<^verbatim>\<open>structure-units.ts\<close>, \<^verbatim>\<open>views-units.ts\<close>,
  \<^verbatim>\<open>head-views-migration.ts\<close> and \<^verbatim>\<open>shared-schema-units.ts\<close>. A structure
  unit under construction, whose list of entries the code appends to, is passed through the loop over
  the groups of tables that lived inside the Draft only. \<open>vequal\<close> is \<open>deepEqual\<close> on views.
\<close>

subsection \<open>Tables of the catalogue\<close>

record 'd rows_by_table_id =
  rt_head :: "(string, 'd row) jmap"
  rt_draft :: "(string, 'd row) jmap"

record 'd sided_rows =
  si_head :: "'d row option"
  si_draft :: "'d row option"

definition rows_by_table_id :: "'d revision_rows \<Rightarrow> 'd rows_by_table_id" where
  "rows_by_table_id rows =
     \<lparr>rt_head = jmap_of (map (\<lambda>row. (row_id row, row)) (rr_head rows)),
      rt_draft = jmap_of (map (\<lambda>row. (row_id row, row)) (rr_draft rows))\<rparr>"

definition rows_of :: "'d rows_by_table_id \<Rightarrow> table_pair \<Rightarrow> 'd sided_rows" where
  "rows_of rows pair =
     \<lparr>si_head = Option.bind (tp_head pair) (\<lambda>head. map_of (rt_head rows) (tv_id head)),
      si_draft = Option.bind (tp_draft pair) (\<lambda>draft. map_of (rt_draft rows) (tv_id draft))\<rparr>"

record catalogue_tables =
  cb_pairs :: "table_pair list"
  cb_pairsByIdentity :: "(string, table_pair) jmap"
  cb_structures :: "(string, table_structure) jmap"
  cb_schemaRows :: "json rows_by_table_id"
  cb_viewsRows :: "table_views rows_by_table_id"

definition catalogue_tables :: "changes_snapshot \<Rightarrow> compared_table list \<Rightarrow> catalogue_tables" where
  "catalogue_tables snapshot tables =
     \<lparr>cb_pairs = sn_tables snapshot,
      cb_pairsByIdentity = jmap_of (map (\<lambda>pair. (tp_identity pair, pair)) (sn_tables snapshot)),
      cb_structures = jmap_of (map (\<lambda>t. (co_identity t, co_structure t)) tables),
      cb_schemaRows = rows_by_table_id (sy_schemas (sn_systemRows snapshot)),
      cb_viewsRows = rows_by_table_id (sy_views (sn_systemRows snapshot))\<rparr>"

definition pair_of :: "catalogue_tables \<Rightarrow> string \<Rightarrow> table_pair outcome" where
  "pair_of tables identity =
     (case map_of (cb_pairsByIdentity tables) identity of
        None \<Rightarrow> Inl (''Table '' @ identity @ '' is in neither revision'')
      | Some pair \<Rightarrow> Inr pair)"

definition structure_of :: "catalogue_tables \<Rightarrow> table_pair \<Rightarrow> table_structure outcome" where
  "structure_of tables pair =
     (case map_of (cb_structures tables) (tp_identity pair) of
        None \<Rightarrow> Inl (''Table '' @ tp_identity pair @ '' has no structure analysis'')
      | Some structure \<Rightarrow> Inr structure)"

definition side_of :: "catalogue_tables \<Rightarrow> table_pair \<Rightarrow> revision_side \<Rightarrow> table_side outcome" where
  "side_of tables pair side =
     try_bind (version_on pair side) (\<lambda>version. Inr (table_side_of (cb_pairs tables) version side))"

definition previous_table_id_of :: "table_pair \<Rightarrow> string option" where
  "previous_table_id_of pair =
     (case (tp_head pair, tp_draft pair) of
        (Some head, Some draft) \<Rightarrow> if tv_id head = tv_id draft then None else Some (tv_id head)
      | _ \<Rightarrow> None)"

definition distinct_rows :: "system_row option list \<Rightarrow> system_row list" where
  "distinct_rows rows =
     jvalues (fold (\<lambda>row m. case row of None \<Rightarrow> m | Some r \<Rightarrow> AList.update (system_row_version r) r m)
       rows [])"

subsection \<open>Structure units\<close>

record structure_unit_parts =
  sp_key :: string
  sp_unit :: change_unit
  sp_side :: "head_qualifier option"
  sp_tables :: "table_pair list"
  sp_transientEntries :: "ledger_entry list"

definition is_removed :: "table_pair \<Rightarrow> bool" where
  "is_removed pair \<longleftrightarrow> tp_head pair \<noteq> None \<and> tp_draft pair = None"

definition has_structure_change :: "catalogue_tables \<Rightarrow> table_pair \<Rightarrow> bool outcome" where
  "has_structure_change tables pair =
     (if tp_head pair = None \<or> tp_draft pair = None then Inr True
      else try_bind (structure_of tables pair) (\<lambda>structure. Inr (st_differs structure)))"

definition pending_history_of :: "ledger_attribution \<Rightarrow> table_pair \<Rightarrow> table_history" where
  "pending_history_of ledger pair =
     (case map_of (la_tables ledger) (tp_identity pair) of
        None \<Rightarrow> \<lparr>th_tableIds = [], th_entries = []\<rparr>
      | Some history \<Rightarrow> history)"

definition taken_over_table_ids_of :: "table_pair list \<Rightarrow> string list outcome" where
  "taken_over_table_ids_of pairs =
     map_try public_table_id_of (filter (\<lambda>pair. previous_table_id_of pair \<noteq> None) pairs)"

definition structure_unit_address_of :: "table_pair list \<Rightarrow> change_unit outcome" where
  "structure_unit_address_of tables =
     try_bind (group_public_id_of (map table_pair_ids tables)) (\<lambda>tableId.
       Inr ((table_unit StructureUnit tableId)
         \<lparr>cu_previousTableId := Option.bind (find (\<lambda>i. i \<noteq> None) (map previous_table_id_of tables))
            (\<lambda>i. i)\<rparr>))"

definition side_of_removed_table ::
  "table_pair list \<Rightarrow> string list \<Rightarrow> head_qualifier option outcome" where
  "side_of_removed_table tables takenOverTableIds =
     (if list_all is_removed tables
      then try_bind (group_public_id_of (map table_pair_ids tables)) (\<lambda>tableId.
        Inr (if tableId \<in> set takenOverTableIds then Some HeadQualified else None))
      else Inr None)"

definition table_structure_unit ::
  "string list \<Rightarrow> table_pair list \<Rightarrow> structure_unit_parts outcome" where
  "table_structure_unit takenOverTableIds tables =
     try_bind (structure_unit_address_of tables) (\<lambda>u.
     try_bind (side_of_removed_table tables takenOverTableIds) (\<lambda>side.
       Inr \<lparr>sp_key = structure_unit_key (map tp_identity tables), sp_unit = u, sp_side = side,
            sp_tables = tables, sp_transientEntries = []\<rparr>))"

fun filter_outcome :: "('a \<Rightarrow> bool outcome) \<Rightarrow> 'a list \<Rightarrow> 'a list outcome" where
  "filter_outcome p [] = Inr []"
| "filter_outcome p (x # xs) =
     try_bind (p x) (\<lambda>keep. try_bind (filter_outcome p xs)
       (\<lambda>ys. Inr (if keep then x # ys else ys)))"

definition parts_order :: "structure_unit_parts \<Rightarrow> structure_unit_parts \<Rightarrow> int" where
  "parts_order left right = compare_units (sp_key left, sp_unit left) (sp_key right, sp_unit right)"

definition table_units :: "catalogue_tables \<Rightarrow> structure_unit_parts list outcome" where
  "table_units tables =
     try_bind (filter_outcome (has_structure_change tables) (cb_pairs tables)) (\<lambda>changed.
     try_bind (taken_over_table_ids_of changed) (\<lambda>takenOver.
     try_bind (map_try (table_structure_unit takenOver) (group_recreations table_pair_ids changed))
       (\<lambda>units. Inr (js_sort parts_order units))))"

definition table_ids_held_by :: "ledger_attribution \<Rightarrow> structure_unit_parts \<Rightarrow> string list" where
  "table_ids_held_by ledger parts =
     concat (map (\<lambda>pair. public_ids_of (table_pair_ids pair) @ th_tableIds (pending_history_of ledger pair))
       (sp_tables parts))"

definition unit_shares_table_id ::
  "ledger_attribution \<Rightarrow> structure_unit_parts \<Rightarrow> table_history \<Rightarrow> bool" where
  "unit_shares_table_id ledger parts history =
     list_ex (\<lambda>tableId. tableId \<in> set (th_tableIds history)) (table_ids_held_by ledger parts)"

definition addressed_table_id_of :: "table_history \<Rightarrow> string outcome" where
  "addressed_table_id_of history =
     (case th_tableIds history of
        [] \<Rightarrow> Inl ''A table created inside the Draft used no table id''
      | tableId # _ \<Rightarrow> Inr tableId)"

definition transient_structure_unit :: "table_history \<Rightarrow> structure_unit_parts outcome" where
  "transient_structure_unit history =
     try_bind (addressed_table_id_of history) (\<lambda>tableId.
       Inr \<lparr>sp_key = transient_structure_unit_key tableId, sp_unit = table_unit StructureUnit tableId,
            sp_side = None, sp_tables = [], sp_transientEntries = th_entries history\<rparr>)"

text \<open>\<open>joined.transientEntries.push(...entries)\<close> on the first unit that satisfies the test.\<close>

fun push_entries ::
  "(structure_unit_parts \<Rightarrow> bool) \<Rightarrow> ledger_entry list \<Rightarrow> structure_unit_parts list \<Rightarrow>
   structure_unit_parts list option" where
  "push_entries joins entries [] = None"
| "push_entries joins entries (u # us) =
     (if joins u
      then Some (u\<lparr>sp_transientEntries := sp_transientEntries u @ entries\<rparr> # us)
      else map_option (\<lambda>us'. u # us') (push_entries joins entries us))"

definition join_transient_group ::
  "ledger_attribution \<Rightarrow> table_history \<Rightarrow> structure_unit_parts list \<times> structure_unit_parts list \<Rightarrow>
   (structure_unit_parts list \<times> structure_unit_parts list) outcome" where
  "join_transient_group ledger history acc =
     (case push_entries (\<lambda>u. unit_shares_table_id ledger u history) (th_entries history) (fst acc) of
        Some tableUnits \<Rightarrow> Inr (tableUnits, snd acc)
      | None \<Rightarrow> try_bind (transient_structure_unit history)
          (\<lambda>u. Inr (fst acc, snd acc @ [u])))"

definition join_transient_groups ::
  "ledger_attribution \<Rightarrow> structure_unit_parts list \<Rightarrow>
   (structure_unit_parts list \<times> structure_unit_parts list) outcome" where
  "join_transient_groups ledger tableUnits =
     fold_try (join_transient_group ledger) (la_transientGroups ledger) (tableUnits, [])"

definition schema_rows_of :: "catalogue_tables \<Rightarrow> table_pair \<Rightarrow> json sided_rows" where
  "schema_rows_of tables pair = rows_of (cb_schemaRows tables) pair"

definition views_rows_of :: "catalogue_tables \<Rightarrow> table_pair \<Rightarrow> table_views sided_rows" where
  "views_rows_of tables pair = rows_of (cb_viewsRows tables) pair"

definition system_rows_of ::
  "catalogue_tables \<Rightarrow> ledger_attribution \<Rightarrow> table_pair \<Rightarrow> system_row option list" where
  "system_rows_of tables ledger pair =
     (let schema = schema_rows_of tables pair; views = views_rows_of tables pair
      in [map_option JsonRow (si_head schema), map_option JsonRow (si_draft schema),
          map_option ViewsRow (si_head views), map_option ViewsRow (si_draft views)] @
         map (\<lambda>entry. Some (MigrationRow (le_row entry))) (th_entries (pending_history_of ledger pair)))"

definition owned_system_rows_of ::
  "catalogue_tables \<Rightarrow> ledger_attribution \<Rightarrow> structure_unit_parts \<Rightarrow> system_row list" where
  "owned_system_rows_of tables ledger parts =
     distinct_rows (concat (map (system_rows_of tables ledger) (sp_tables parts)) @
       map (\<lambda>entry. Some (MigrationRow (le_row entry))) (sp_transientEntries parts))"

definition catalogue_unit_of ::
  "catalogue_tables \<Rightarrow> ledger_attribution \<Rightarrow> structure_unit_parts \<Rightarrow> catalogue_unit" where
  "catalogue_unit_of tables ledger parts =
     \<lparr>ca_key = sp_key parts, ca_tableIdentities = map tp_identity (sp_tables parts),
      ca_rowIdentities = [], ca_systemRows = owned_system_rows_of tables ledger parts,
      ca_side = sp_side parts, ca_unit = sp_unit parts\<rparr>"

definition build_structure_units ::
  "catalogue_tables \<Rightarrow> ledger_attribution \<Rightarrow> catalogue_unit list outcome" where
  "build_structure_units tables ledger =
     try_bind (table_units tables) (\<lambda>tableUnits.
     try_bind (join_transient_groups ledger tableUnits) (\<lambda>(joined, transient).
       Inr (map (catalogue_unit_of tables ledger) (joined @ transient))))"

subsection \<open>Views units\<close>

definition migrate_through ::
  "'st toolkit \<Rightarrow> table_views \<Rightarrow> json \<Rightarrow> history_patches list \<Rightarrow> table_views outcome" where
  "migrate_through tk views headSchema entries =
     try_bind (fold_try (\<lambda>entry (migrated, previousSchema).
         try_bind (migrate_views migrated (hp_patches entry) previousSchema None) (\<lambda>migrated'.
         try_bind (patched_schema tk previousSchema (hp_patches entry)) (\<lambda>schema'.
           Inr (migrated', schema')))) entries (views, headSchema))
       (\<lambda>(migrated, _). Inr migrated)"

definition migrate_head_views ::
  "'st toolkit \<Rightarrow> table_views \<Rightarrow> json \<Rightarrow> pending_history \<Rightarrow> table_views option" where
  "migrate_head_views tk views headSchema pendingHistory =
     (case pendingHistory of
        NotExtendingHead \<Rightarrow> None
      | ExtendsHead entries \<Rightarrow> try_or_undefined (migrate_through tk views headSchema entries))"

definition migrated_head_views_of ::
  "'st toolkit \<Rightarrow> catalogue_tables \<Rightarrow> table_pair \<Rightarrow> table_views row option \<Rightarrow>
   table_views option outcome" where
  "migrated_head_views_of tk tables pair headViews =
     (case (tp_head pair, headViews) of
        (Some head, Some views) \<Rightarrow>
          try_bind (structure_of tables pair) (\<lambda>structure.
            Inr (migrate_head_views tk (row_data views) (tv_schema head) (st_pendingHistory structure)))
      | _ \<Rightarrow> Inr None)"

fun equal_view_data ::
  "(table_views \<Rightarrow> table_views \<Rightarrow> bool) \<Rightarrow> table_views option \<Rightarrow> table_views option \<Rightarrow> bool" where
  "equal_view_data vequal None None = True"
| "equal_view_data vequal (Some v) (Some w) = vequal v w"
| "equal_view_data vequal _ _ = False"

definition has_independent_views_edit ::
  "'st toolkit \<Rightarrow> (table_views \<Rightarrow> table_views \<Rightarrow> bool) \<Rightarrow> catalogue_tables \<Rightarrow> table_pair \<Rightarrow> bool outcome" where
  "has_independent_views_edit tk vequal tables pair =
     (if tp_draft pair = None then Inr False
      else let views = views_rows_of tables pair
           in try_bind (migrated_head_views_of tk tables pair (si_head views)) (\<lambda>migrated.
             Inr (\<not> equal_view_data vequal (map_option row_data (si_draft views)) migrated)))"

definition views_unit_of :: "catalogue_tables \<Rightarrow> table_pair \<Rightarrow> catalogue_unit outcome" where
  "views_unit_of tables pair =
     try_bind (public_table_id_of pair) (\<lambda>tableId.
       let views = views_rows_of tables pair; schema = schema_rows_of tables pair
       in Inr \<lparr>ca_key = views_unit_key (tp_identity pair), ca_tableIdentities = [tp_identity pair],
            ca_rowIdentities = [],
            ca_systemRows = distinct_rows
              [map_option ViewsRow (si_head views), map_option ViewsRow (si_draft views),
               map_option JsonRow (si_head schema), map_option JsonRow (si_draft schema)],
            ca_side = None, ca_unit = table_unit ViewsUnit tableId\<rparr>)"

definition build_views_units ::
  "'st toolkit \<Rightarrow> (table_views \<Rightarrow> table_views \<Rightarrow> bool) \<Rightarrow> catalogue_tables \<Rightarrow> catalogue_unit list outcome" where
  "build_views_units tk vequal tables =
     try_bind (filter_outcome (has_independent_views_edit tk vequal tables) (cb_pairs tables))
       (map_try (views_unit_of tables))"

subsection \<open>Shared schema units\<close>

definition row_pairs_by_identity :: "json revision_rows \<Rightarrow> row_pair list" where
  "row_pairs_by_identity rows =
     (let head = jmap_of (map (\<lambda>row. (row_createdId row, row)) (rr_head rows));
          draft = jmap_of (map (\<lambda>row. (row_createdId row, row)) (rr_draft rows))
      in map (\<lambda>identity. \<lparr>rp_identity = identity, rp_head = map_of head identity,
             rp_draft = map_of draft identity\<rparr>)
           (uniq (jkeys head @ jkeys draft)))"

definition shared_schema_differs ::
  "(json \<Rightarrow> json \<Rightarrow> bool) \<Rightarrow> json row option \<Rightarrow> json row option \<Rightarrow> bool" where
  "shared_schema_differs equal head draft =
     (case (head, draft) of
        (Some h, Some d) \<Rightarrow> differ_in_content equal h d
      | _ \<Rightarrow> True)"

definition shared_schema_unit_of :: "row_pair list \<Rightarrow> catalogue_unit outcome" where
  "shared_schema_unit_of pairs =
     try_bind (group_public_id_of (map row_pair_ids pairs)) (\<lambda>i.
       Inr \<lparr>ca_key = shared_schema_unit_key (map rp_identity pairs), ca_tableIdentities = [],
            ca_rowIdentities = [],
            ca_systemRows = distinct_rows (concat (map (\<lambda>pair.
              [map_option JsonRow (rp_head pair), map_option JsonRow (rp_draft pair)]) pairs)),
            ca_side = None, ca_unit = table_unit SharedSchemaUnit i\<rparr>)"

definition build_shared_schema_units ::
  "(json \<Rightarrow> json \<Rightarrow> bool) \<Rightarrow> json revision_rows \<Rightarrow> catalogue_unit list outcome" where
  "build_shared_schema_units equal rows =
     map_try shared_schema_unit_of
       (group_by_shared_public_id row_pair_ids
         (filter (\<lambda>pair. shared_schema_differs equal (rp_head pair) (rp_draft pair))
           (row_pairs_by_identity rows)))"

subsection \<open>Facts about the loops\<close>

lemma list_all2_map_eq: "list_all2 P xs ys \<Longrightarrow> (\<And>x y. P x y \<Longrightarrow> f y = x) \<Longrightarrow> map f ys = xs"
  by (induction rule: list_all2_induct) auto

lemma list_all2_second: "list_all2 P xs ys \<Longrightarrow> y \<in> set ys \<Longrightarrow> \<exists>x \<in> set xs. P x y"
  by (induction rule: list_all2_induct) auto

lemma filter_outcome_Inr:
  "filter_outcome p xs = Inr ys \<Longrightarrow>
     ys = filter (\<lambda>x. p x = Inr True) xs \<and> (\<forall>x \<in> set xs. \<exists>b. p x = Inr b)"
proof (induction xs arbitrary: ys)
  case (Cons x xs)
  then obtain keep zs where step: "p x = Inr keep" "filter_outcome p xs = Inr zs"
    "ys = (if keep then x # zs else zs)" by auto
  from Cons.IH [OF step(2)] step(1,3) show ?case by (cases keep) (simp_all, blast+)
qed simp

lemma set_group_recreations: "set (concat (group_recreations ids pairs)) = set pairs"
  unfolding group_recreations_def by (metis mset_group_linked_pairs set_mset_mset)

lemma distinct_rows_versions:
  "system_row_version ` set (distinct_rows rows) = system_row_version ` {r. Some r \<in> set rows}"
  "distinct (map system_row_version (distinct_rows rows))"
proof -
  let ?kv = "map_option (\<lambda>r. (system_row_version r, r))"
  let ?m = "keyed_by ?kv rows"
  have rows: "distinct_rows rows = jvalues ?m"
    unfolding distinct_rows_def keyed_by_def
    by (intro arg_cong [of _ _ "map snd"] arg_cong3 [of _ _ _ _ _ _ fold] ext) (auto split: option.splits)
  have keys: "map system_row_version (jvalues ?m) = jkeys ?m"
    by (auto dest!: keyed_by_entry)
  have "system_row_version ` set (distinct_rows rows) = set (map system_row_version (jvalues ?m))"
    unfolding rows set_map ..
  also have "\<dots> = system_row_version ` {r. Some r \<in> set rows}"
    unfolding keys keyed_by_keys by force
  finally show "system_row_version ` set (distinct_rows rows) = system_row_version ` {r. Some r \<in> set rows}" .
  have "jmap_ok ?m" by simp
  then show "distinct (map system_row_version (distinct_rows rows))"
    unfolding rows keys by (simp only: jmap_ok_def)
qed

text \<open>The units of tables, before the groups of tables that lived inside the Draft join them.\<close>

definition fresh_parts :: "structure_unit_parts \<Rightarrow> bool" where
  "fresh_parts u \<longleftrightarrow> sp_key u = structure_unit_key (map tp_identity (sp_tables u)) \<and>
     cu_kind (sp_unit u) = StructureUnit \<and> cu_rowId (sp_unit u) = None"

lemma table_structure_unit_facts:
  "table_structure_unit takenOver tables = Inr u \<Longrightarrow>
     sp_tables u = tables \<and> sp_transientEntries u = [] \<and> fresh_parts u"
  by (auto simp: table_structure_unit_def structure_unit_address_of_def fresh_parts_def table_unit_def)

definition structure_changed :: "catalogue_tables \<Rightarrow> table_pair \<Rightarrow> bool" where
  "structure_changed tables pair \<longleftrightarrow> has_structure_change tables pair = Inr True"

lemma table_units_facts:
  assumes "table_units tables = Inr units"
  shows "mset (map sp_tables units) =
      mset (group_recreations table_pair_ids (filter (structure_changed tables) (cb_pairs tables)))"
    "u \<in> set units \<Longrightarrow> sp_transientEntries u = [] \<and> fresh_parts u"
proof -
  from assms obtain changed takenOver parts where run:
    "filter_outcome (has_structure_change tables) (cb_pairs tables) = Inr changed"
    "map_try (table_structure_unit takenOver) (group_recreations table_pair_ids changed) = Inr parts"
    "units = js_sort parts_order parts"
    by (auto simp: table_units_def)
  have "changed = filter (structure_changed tables) (cb_pairs tables)"
    using filter_outcome_Inr [OF run(1)] by (simp add: structure_changed_def [abs_def])
  with run(2,3) have parts:
    "map_try (table_structure_unit takenOver)
       (group_recreations table_pair_ids (filter (structure_changed tables) (cb_pairs tables))) = Inr parts"
    "units = js_sort parts_order parts"
    by simp_all
  have all: "list_all2 (\<lambda>g u. sp_tables u = g \<and> sp_transientEntries u = [] \<and> fresh_parts u)
      (group_recreations table_pair_ids (filter (structure_changed tables) (cb_pairs tables))) parts"
    by (rule list_all2_mono [OF parts(1) [unfolded map_try_Inr_iff]]) (rule table_structure_unit_facts)
  then have "map sp_tables parts = group_recreations table_pair_ids (filter (structure_changed tables) (cb_pairs tables))"
    by (rule list_all2_map_eq) blast
  then show "mset (map sp_tables units) =
      mset (group_recreations table_pair_ids (filter (structure_changed tables) (cb_pairs tables)))"
    unfolding parts(2) by (metis mset_js_sort mset_map)
  show "u \<in> set units \<Longrightarrow> sp_transientEntries u = [] \<and> fresh_parts u"
    using list_all2_second [OF all] by (auto simp: parts(2))
qed

lemma push_entries_facts:
  "push_entries joins entries us = Some us' \<Longrightarrow>
     map sp_tables us' = map sp_tables us \<and> map sp_key us' = map sp_key us \<and>
     (list_all fresh_parts us \<longrightarrow> list_all fresh_parts us') \<and>
     mset (concat (map sp_transientEntries us')) = mset (concat (map sp_transientEntries us)) + mset entries"
  by (induction us arbitrary: us') (auto simp: fresh_parts_def split: if_splits)

text \<open>A unit for a group of tables no table unit shares an id with.\<close>

definition transient_parts :: "structure_unit_parts \<Rightarrow> table_history \<Rightarrow> bool" where
  "transient_parts u history \<longleftrightarrow>
     sp_tables u = [] \<and> sp_transientEntries u = th_entries history \<and> th_tableIds history \<noteq> [] \<and>
     sp_key u = transient_structure_unit_key (hd (th_tableIds history)) \<and> cu_kind (sp_unit u) = StructureUnit \<and>
     cu_rowId (sp_unit u) = None"

lemma transient_structure_unit_facts:
  "transient_structure_unit history = Inr u \<Longrightarrow> transient_parts u history"
  by (auto simp: transient_structure_unit_def addressed_table_id_of_def transient_parts_def table_unit_def
      split: list.splits)

lemma join_transient_groups_facts:
  assumes "fold_try (join_transient_group ledger) groups (us, ts) = Inr (us', ts')"
  shows "map sp_tables us' = map sp_tables us \<and> map sp_key us' = map sp_key us \<and>
    (list_all fresh_parts us \<longrightarrow> list_all fresh_parts us') \<and>
    mset (concat (map sp_transientEntries (us' @ ts'))) =
      mset (concat (map sp_transientEntries (us @ ts))) + mset (concat (map th_entries groups)) \<and>
    (\<exists>new alone. ts' = ts @ new \<and> subseq alone groups \<and> list_all2 transient_parts new alone)"
  using assms
proof (induction groups arbitrary: us ts)
  case Nil
  then show ?case by auto
next
  case (Cons history groups)
  show ?case
  proof (cases "push_entries (\<lambda>u. unit_shares_table_id ledger u history) (th_entries history) us")
    case None
    with Cons.prems obtain u where u: "transient_structure_unit history = Inr u"
      "fold_try (join_transient_group ledger) groups (us, ts @ [u]) = Inr (us', ts')"
      by (auto simp add: join_transient_group_def [of ledger history])
    note tu = transient_structure_unit_facts [OF u(1)]
    note IH = Cons.IH [OF u(2)]
    then obtain new alone where new: "ts' = (ts @ [u]) @ new" "subseq alone groups" "list_all2 transient_parts new alone"
      by blast
    then have "ts' = ts @ (u # new) \<and> subseq (history # alone) (history # groups) \<and>
        list_all2 transient_parts (u # new) (history # alone)" using tu by simp
    then have "\<exists>new alone. ts' = ts @ new \<and> subseq alone (history # groups) \<and> list_all2 transient_parts new alone"
      by blast
    moreover have "sp_transientEntries u = th_entries history" using tu by (simp add: transient_parts_def)
    then have "mset (concat (map sp_transientEntries (us' @ ts'))) =
        mset (concat (map sp_transientEntries (us @ ts))) + mset (concat (map th_entries (history # groups)))"
      using IH by simp
    ultimately show ?thesis using IH by blast
  next
    case (Some us1)
    with Cons.prems have "fold_try (join_transient_group ledger) groups (us1, ts) = Inr (us', ts')"
      by (simp add: join_transient_group_def [of ledger history])
    note IH = Cons.IH [OF this]
    then obtain new alone where "ts' = ts @ new" "subseq alone groups" "list_all2 transient_parts new alone" by blast
    then have "\<exists>new alone. ts' = ts @ new \<and> subseq alone (history # groups) \<and> list_all2 transient_parts new alone"
      by blast
    moreover from push_entries_facts [OF Some] IH have "mset (concat (map sp_transientEntries (us' @ ts'))) =
        mset (concat (map sp_transientEntries (us @ ts))) + mset (concat (map th_entries (history # groups)))"
      by simp
    moreover have "map sp_tables us' = map sp_tables us \<and> map sp_key us' = map sp_key us \<and>
        (list_all fresh_parts us \<longrightarrow> list_all fresh_parts us')"
      using push_entries_facts [OF Some] IH by simp
    ultimately show ?thesis by blast
  qed
qed

lemma build_structure_units_facts:
  assumes "build_structure_units tables ledger = Inr units"
  obtains us ts alone where
    "units = map (catalogue_unit_of tables ledger) (us @ ts)"
    "mset (map sp_tables us) =
      mset (group_recreations table_pair_ids (filter (structure_changed tables) (cb_pairs tables)))"
    "list_all fresh_parts us" "subseq alone (la_transientGroups ledger)" "list_all2 transient_parts ts alone"
    "mset (concat (map sp_transientEntries (us @ ts))) = mset (concat (map th_entries (la_transientGroups ledger)))"
proof -
  from assms obtain start us ts where run: "table_units tables = Inr start"
    "fold_try (join_transient_group ledger) (la_transientGroups ledger) (start, []) = Inr (us, ts)"
    "units = map (catalogue_unit_of tables ledger) (us @ ts)"
    by (auto simp: build_structure_units_def join_transient_groups_def)
  note start = table_units_facts [OF run(1)]
  note facts = join_transient_groups_facts [OF run(2)]
  have none: "concat (map sp_transientEntries start) = []" using start(2) by simp
  have "list_all fresh_parts start" using start(2) by (simp add: list_all_iff)
  with facts have fresh: "list_all fresh_parts us" by blast
  have tables: "mset (map sp_tables us) =
      mset (group_recreations table_pair_ids (filter (structure_changed tables) (cb_pairs tables)))"
    using facts start(1) by simp
  from facts obtain alone where "subseq alone (la_transientGroups ledger)" "list_all2 transient_parts ts alone" by auto
  moreover have "mset (concat (map sp_transientEntries (us @ ts))) = mset (concat (map th_entries (la_transientGroups ledger)))"
    using facts none by simp
  ultimately show ?thesis using that [OF run(3) tables fresh] by blast
qed

subsection \<open>Pending migrations of a table\<close>

lemma sort_slot_keys:
  "set (jkeys (ss_tables (fold (sort_slot h d) sos acc))) \<subseteq>
     set (jkeys (ss_tables acc)) \<union> set (jvalues h) \<union> set (jvalues d)"
proof (induction sos arbitrary: acc)
  case (Cons so sos)
  have "map_of m k = Some i \<Longrightarrow> i \<in> set (jvalues m)" for k i :: string and m
    by (force dest: map_of_SomeD)
  then have "identity_owner_of h d (snd so) = TableOwner i \<Longrightarrow> i \<in> set (jvalues h) \<union> set (jvalues d)" for i
    by (cases "snd so") (auto simp: table_owner_def split: option.splits)
  moreover have "set (jkeys (ss_tables (sort_slot h d so acc))) =
      (case identity_owner_of h d (snd so) of TableOwner i \<Rightarrow> insert i (set (jkeys (ss_tables acc)))
       | _ \<Rightarrow> set (jkeys (ss_tables acc)))"
  proof (cases "identity_owner_of h d (snd so)")
    case (TableOwner i)
    then have "ss_tables (sort_slot h d so acc) = append_slot i (fst so) (ss_tables acc)"
      by (simp add: sort_slot_def)
    then show ?thesis unfolding TableOwner append_slot_def slot_owner.case by (simp only: jmap_keys_set)
  qed (simp_all add: sort_slot_def)
  ultimately have "set (jkeys (ss_tables (sort_slot h d so acc))) \<subseteq>
      set (jkeys (ss_tables acc)) \<union> set (jvalues h) \<union> set (jvalues d)"
    by (cases "identity_owner_of h d (snd so)") auto
  with Cons.IH [of "sort_slot h d so acc"] show ?case unfolding fold_Cons comp_def by blast
qed auto

lemma identities_values: "set (jvalues (identities_by_table_id tables side)) \<subseteq> tp_identity ` set tables"
proof -
  let ?kv = "\<lambda>pair. map_option (\<lambda>v. (tv_id v, tp_identity pair)) (version_on_side side pair)"
  have "identities_by_table_id tables side = keyed_by ?kv tables"
    unfolding identities_by_table_id_def keyed_by_def
    by (intro arg_cong3 [of _ _ _ _ _ _ fold] ext) (auto split: option.splits)
  then show ?thesis by (auto dest!: keyed_by_entry)
qed

lemma jkeys_map_values: "jkeys (map (\<lambda>(k, v). (k, f v)) m) = jkeys m"
  by (induction m) auto

lemma attributed_identities:
  "set (jkeys (la_tables (attribute_ledger tables headRows draftRows))) \<subseteq> tp_identity ` set tables"
proof -
  have "set (jkeys (ss_tables (sort_slots (identities_by_table_id tables HeadSide)
      (identities_by_table_id tables DraftSide) sos))) \<subseteq> tp_identity ` set tables" for sos
    using sort_slot_keys [of "identities_by_table_id tables HeadSide" "identities_by_table_id tables DraftSide" sos
        "\<lparr>ss_tables = [], ss_transient = [], ss_unattributable = []\<rparr>"]
      identities_values [of tables HeadSide] identities_values [of tables DraftSide]
    unfolding sort_slots_def by simp blast
  then show ?thesis
    unfolding attribute_ledger_def Let_def ledger_attribution.simps jkeys_map_values .
qed

lemma jmap_ok_attribution: "jmap_ok (la_tables (attribute_ledger tables headRows draftRows))"
proof -
  have "jmap_ok (ss_tables (fold (sort_slot h d) sos acc))" if "jmap_ok (ss_tables acc)" for h d sos acc
    using that by (induction sos arbitrary: acc) (simp_all add: sort_slot_step)
  then show ?thesis
    unfolding attribute_ledger_def Let_def ledger_attribution.simps sort_slots_def jmap_ok_def jkeys_map_values by (simp add: jmap_ok_def)
qed

text \<open>A table in both revisions with a pending migration differs in its structure.\<close>

lemma pending_table_differs:
  assumes "analyze_table_structure tk ids equal deq input = Inr s" "in_pendingMigrations input \<noteq> []"
  shows "st_differs s"
  using assms by (auto simp: analyze_table_structure_def Let_def structure_differs_def)

lemma pending_table_has_structure_change:
  assumes "read_compared_snapshot tk ids equal deq snapshot wholeDraft = Inr c"
    "distinct (map tp_identity (sn_tables snapshot))" "pair \<in> set (sn_tables snapshot)"
    "pending_migrations_of (cs_ledger c) (tp_identity pair) \<noteq> []"
  shows "structure_changed (catalogue_tables snapshot (cs_tables c)) pair"
proof (cases "is_on_both_sides pair")
  case False
  then show ?thesis by (auto simp: structure_changed_def has_structure_change_def is_on_both_sides_def)
next
  case True
  note compared = compared_pairs [OF assms(1)]
  have ids: "map tp_identity (filter is_on_both_sides (sn_tables snapshot)) = map co_identity (cs_tables c)"
    by (rule map_identities_compared [OF compared(2)])
  have "distinct (map co_identity (cs_tables c))"
    unfolding ids [symmetric] using assms(2) by (rule distinct_map_filter)
  then have dist: "distinct (map fst (map (\<lambda>t. (co_identity t, co_structure t)) (cs_tables c)))"
    by (simp add: comp_def)
  have "pair \<in> set (filter is_on_both_sides (sn_tables snapshot))" using True assms(3) by simp
  with compared(2) obtain table where table: "table \<in> set (cs_tables c)" "compares_pair tk ids equal deq c pair table"
    by (metis list_all2_conv_all_nth in_set_conv_nth)
  then have "(tp_identity pair, co_structure table) \<in> set (map (\<lambda>t. (co_identity t, co_structure t)) (cs_tables c))"
    by (force simp: compares_pair_def)
  then have "structure_of (catalogue_tables snapshot (cs_tables c)) pair = Inr (co_structure table)"
    using map_of_is_SomeI [OF dist] by (simp add: structure_of_def catalogue_tables_def jmap_of_distinct(1) [OF dist])
  moreover have "st_differs (co_structure table)"
    using table(2) assms(4) by (auto simp: compares_pair_def intro: pending_table_differs)
  ultimately show ?thesis
    using True by (simp add: structure_changed_def has_structure_change_def is_on_both_sides_def)
qed

subsection \<open>Properties\<close>

lemma not_isl_case: "\<not> isl r \<Longrightarrow> r = Inr (case r of Inr x \<Rightarrow> x | Inl e \<Rightarrow> d e)"
  by (cases r) simp_all

text \<open>A table created in the Draft, whose opening migration is pending.\<close>

definition example_created_version :: table_version where
  "example_created_version =
     \<lparr>tv_versionId = ''v'', tv_createdId = ''t1'', tv_id = ''users'', tv_readonly = False,
      tv_schema = JObj [], tv_history = []\<rparr>"

definition example_creation :: changes_snapshot where
  "example_creation =
     \<lparr>sn_tables = [\<lparr>tp_identity = ''t1'', tp_head = None, tp_draft = Some example_created_version\<rparr>],
      sn_systemRows =
        \<lparr>sy_schemas = \<lparr>rr_head = [], rr_draft = [example_schema_row ''users'' (JObj [])]\<rparr>,
         sy_migrations =
           \<lparr>rr_head = [],
            rr_draft = [example_migration_row ''a'' (InitMigration 0 ''1'' ''users'' ''h'' (JObj []))]\<rparr>,
         sy_views = \<lparr>rr_head = [], rr_draft = []\<rparr>, sy_sharedSchemas = \<lparr>rr_head = [], rr_draft = []\<rparr>\<rparr>\<rparr>"

definition example_created_ledger :: ledger_attribution where
  "example_created_ledger =
     (let entry = \<lparr>le_row = example_migration_row ''a'' (InitMigration 0 ''1'' ''users'' ''h'' (JObj [])),
          le_migration = InitMigration 0 ''1'' ''users'' ''h'' (JObj [])\<rparr>
      in \<lparr>la_published = [], la_pending = [entry],
          la_tables = [(''t1'', \<lparr>th_tableIds = [''users''], th_entries = [entry]\<rparr>)],
          la_transientGroups = [], la_unattributable = []\<rparr>)"

definition example_created :: compared_snapshot where
  "example_created =
     \<lparr>cs_snapshot = example_creation, cs_ledger = example_created_ledger,
      cs_headSchema =
        \<lparr>hs_refusedTables = [], hs_refusedTablesByIdentity = [], hs_replayedHeadSchemas = []\<rparr>,
      cs_tables = []\<rparr>"

definition example_structure_units :: "catalogue_unit list" where
  "example_structure_units =
     (case build_structure_units (catalogue_tables example_creation []) example_created_ledger of
        Inr us \<Rightarrow> us | Inl _ \<Rightarrow> [])"

lemma example_created_read:
  "read_compared_snapshot root_toolkit example_ids (=) (=) example_creation False = Inr example_created"
  by code_simp

lemma example_created_built:
  "build_structure_units (catalogue_tables example_creation []) example_created_ledger = Inr example_structure_units"
proof -
  have "\<not> isl (build_structure_units (catalogue_tables example_creation []) example_created_ledger)" by code_simp
  then show ?thesis unfolding example_structure_units_def by (rule not_isl_case)
qed

text \<open>
  Claim C32: the structure units share out the tables whose structure changed: the tables of the units together are
  those tables, each as often as it is among the compared tables, the tables of a unit that has any are a group that
  a recreation joins, and all are structure units without rows of their own.
\<close>

theorem structure_units_share_out_changes:
  assumes "build_structure_units tables ledger = Inr units"
  shows "mset (concat (map ca_tableIdentities units)) =
      mset (map tp_identity (filter (structure_changed tables) (cb_pairs tables))) \<and>
    list_all (\<lambda>u. cu_kind (ca_unit u) = StructureUnit \<and> ca_rowIdentities u = []) units \<and>
    (\<forall>u \<in> set units. ca_tableIdentities u \<noteq> [] \<longrightarrow>
       (\<exists>g \<in> set (group_recreations table_pair_ids (filter (structure_changed tables) (cb_pairs tables))).
          ca_tableIdentities u = map tp_identity g))"
proof -
  obtain us ts alone where parts:
    "units = map (catalogue_unit_of tables ledger) (us @ ts)"
    "mset (map sp_tables us) =
      mset (group_recreations table_pair_ids (filter (structure_changed tables) (cb_pairs tables)))"
    "list_all fresh_parts us" "list_all2 transient_parts ts alone"
    by (rule build_structure_units_facts [OF assms]) blast
  let ?groups = "group_recreations table_pair_ids (filter (structure_changed tables) (cb_pairs tables))"
  have transient: "sp_tables u = [] \<and> cu_kind (sp_unit u) = StructureUnit" if "u \<in> set ts" for u
    using parts(4) that by (induction rule: list_all2_induct) (auto simp: transient_parts_def)
  have "concat (map (map tp_identity) (map sp_tables ts)) = []" using transient by auto
  then have "mset (concat (map ca_tableIdentities units)) = mset (map tp_identity (concat (map sp_tables us)))"
    by (simp add: parts(1) catalogue_unit_of_def comp_def map_concat)
  also have "\<dots> = mset (map tp_identity (concat ?groups))"
    using parts(2) by (metis mset_concat mset_map sum_mset_sum_list)
  also have "\<dots> = mset (map tp_identity (filter (structure_changed tables) (cb_pairs tables)))"
    by (simp add: group_recreations_def mset_group_linked_pairs)
  finally have "mset (concat (map ca_tableIdentities units)) =
      mset (map tp_identity (filter (structure_changed tables) (cb_pairs tables)))" .
  moreover have "list_all (\<lambda>u. cu_kind (ca_unit u) = StructureUnit \<and> ca_rowIdentities u = []) units"
    using parts(3) transient by (auto simp: parts(1) catalogue_unit_of_def list_all_iff fresh_parts_def)
  moreover have "set (map sp_tables us) = set ?groups" using parts(2) by (metis set_mset_mset)
  then have "sp_tables u \<in> set ?groups" if "u \<in> set us" for u using that by auto
  then have "\<forall>u \<in> set units. ca_tableIdentities u \<noteq> [] \<longrightarrow> (\<exists>g \<in> set ?groups. ca_tableIdentities u = map tp_identity g)"
    using transient by (fastforce simp: parts(1) catalogue_unit_of_def)
  ultimately show ?thesis by blast
qed

theorem structure_units_share_out_changes_witness:
  "mset (concat (map ca_tableIdentities example_structure_units)) = {#''t1''#}"
proof -
  have "map tp_identity (filter (structure_changed (catalogue_tables example_creation []))
      (cb_pairs (catalogue_tables example_creation []))) = [''t1'']"
    by code_simp
  then show ?thesis using structure_units_share_out_changes [OF example_created_built] by simp
qed

text \<open>
  Claim C33: no pending migration escapes selection: the row of every pending entry of the ledger that is
  not reported as unattributable is owned by a structure unit, whether its table is in both
  revisions, in one of them, or lived inside the Draft only.
\<close>

theorem pending_migrations_belong_to_structure_units:
  assumes "read_compared_snapshot tk ids equal deq snapshot wholeDraft = Inr c"
    "distinct (map tp_identity (sn_tables snapshot))"
    "distinct (map row_data (rr_draft (sy_migrations (sn_systemRows snapshot))))"
    "build_structure_units (catalogue_tables snapshot (cs_tables c)) (cs_ledger c) = Inr units"
    "entry \<in> set (la_pending (cs_ledger c))" "entry \<notin> set (la_unattributable (cs_ledger c))"
  shows "\<exists>u \<in> set units. row_versionId (le_row entry) \<in> system_row_version ` set (ca_systemRows u)"
proof -
  let ?tables = "catalogue_tables snapshot (cs_tables c)" and ?ledger = "cs_ledger c"
  have ledger: "?ledger = attribute_ledger (sn_tables snapshot) (rr_head (sy_migrations (sn_systemRows snapshot)))
      (rr_draft (sy_migrations (sn_systemRows snapshot)))"
    using assms(1) by (auto simp: read_compared_snapshot_def Let_def)
  obtain us ts where parts:
    "units = map (catalogue_unit_of ?tables ?ledger) (us @ ts)"
    "mset (map sp_tables us) =
      mset (group_recreations table_pair_ids (filter (structure_changed ?tables) (cb_pairs ?tables)))"
    "mset (concat (map sp_transientEntries (us @ ts))) = mset (concat (map th_entries (la_transientGroups ?ledger)))"
    by (rule build_structure_units_facts [OF assms(4)]) blast
  have owned: "row_versionId (le_row entry) \<in> system_row_version ` set (owned_system_rows_of ?tables ?ledger u)"
    if "Some (MigrationRow (le_row entry)) \<in> set (concat (map (system_rows_of ?tables ?ledger) (sp_tables u)) @
       map (\<lambda>entry. Some (MigrationRow (le_row entry))) (sp_transientEntries u))" for u
    unfolding owned_system_rows_of_def distinct_rows_versions(1) using that by force
  have "entry \<in> set (concat (map th_entries (jvalues (la_tables ?ledger)))) \<union>
      set (concat (map th_entries (la_transientGroups ?ledger)))"
    using attribution_partition [OF assms(3), of "sn_tables snapshot" "rr_head (sy_migrations (sn_systemRows snapshot))"]
      assms(5,6) unfolding ledger by (metis Un_iff set_append set_mset_mset)
  then consider (table) history identity where "(identity, history) \<in> set (la_tables ?ledger)" "entry \<in> set (th_entries history)"
    | (transient) "entry \<in> set (concat (map th_entries (la_transientGroups ?ledger)))" by auto
  then show ?thesis
  proof cases
    case transient
    then have "entry \<in> set (concat (map sp_transientEntries (us @ ts)))" using parts(3) by (metis set_mset_mset)
    then obtain u where "u \<in> set (us @ ts)" "entry \<in> set (sp_transientEntries u)" by auto
    then have "catalogue_unit_of ?tables ?ledger u \<in> set units" "entry \<in> set (sp_transientEntries u)"
      by (auto simp: parts(1))
    with owned [of u] show ?thesis by (intro bexI [of _ "catalogue_unit_of ?tables ?ledger u"])
      (auto simp: catalogue_unit_of_def)
  next
    case table
    have ok: "jmap_ok (la_tables ?ledger)" unfolding ledger by (rule jmap_ok_attribution)
    then have history: "map_of (la_tables ?ledger) identity = Some history" using table(1) by (simp add: jmap_mem_iff)
    have "identity \<in> tp_identity ` set (sn_tables snapshot)"
      using table(1) attributed_identities unfolding ledger by force
    then obtain pair where pair: "pair \<in> set (sn_tables snapshot)" "tp_identity pair = identity" by auto
    have "pending_migrations_of ?ledger (tp_identity pair) \<noteq> []"
      using history table(2) by (auto simp: pending_migrations_of_def pair(2) migrations_of_def)
    from pending_table_has_structure_change [OF assms(1,2) pair(1) this]
    have "pair \<in> set (concat (group_recreations table_pair_ids (filter (structure_changed ?tables) (cb_pairs ?tables))))"
      unfolding set_group_recreations using pair(1) by (simp add: catalogue_tables_def)
    moreover have "set (group_recreations table_pair_ids (filter (structure_changed ?tables) (cb_pairs ?tables))) = set (map sp_tables us)"
      using parts(2) by (metis set_mset_mset)
    ultimately obtain u where u: "u \<in> set us" "pair \<in> set (sp_tables u)" by auto
    have "pending_history_of ?ledger pair = history" by (simp add: pending_history_of_def pair(2) history)
    then have "Some (MigrationRow (le_row entry)) \<in> set (system_rows_of ?tables ?ledger pair)"
      using table(2) by (simp add: system_rows_of_def Let_def)
    with u(2) have "row_versionId (le_row entry) \<in> system_row_version ` set (owned_system_rows_of ?tables ?ledger u)"
      by (intro owned) auto
    moreover have "catalogue_unit_of ?tables ?ledger u \<in> set units" using u(1) by (simp add: parts(1))
    ultimately show ?thesis by (intro bexI [of _ "catalogue_unit_of ?tables ?ledger u"])
      (simp_all add: catalogue_unit_of_def)
  qed
qed

theorem pending_migrations_belong_to_structure_units_witness:
  "\<exists>u \<in> set example_structure_units. ''a'' \<in> system_row_version ` set (ca_systemRows u)"
proof -
  let ?entry = "hd (la_pending (cs_ledger example_created))"
  have facts: "distinct (map tp_identity (sn_tables example_creation))"
    "distinct (map row_data (rr_draft (sy_migrations (sn_systemRows example_creation))))"
    "la_pending (cs_ledger example_created) \<noteq> []" "la_unattributable (cs_ledger example_created) = []"
    "row_versionId (le_row ?entry) = ''a''"
    by code_simp+
  have built: "build_structure_units (catalogue_tables example_creation (cs_tables example_created))
      (cs_ledger example_created) = Inr example_structure_units"
    using example_created_built by (simp add: example_created_def)
  from facts(4) have "?entry \<notin> set (la_unattributable (cs_ledger example_created))" by simp
  from pending_migrations_belong_to_structure_units [OF example_created_read facts(1,2) built
      hd_in_set [OF facts(3)] this] facts(5)
  show ?thesis by simp
qed

end
