(* ===== verification/Catalogue_Lookup.thy ===== *)
theory Catalogue_Lookup
  imports Row_Units
begin

section \<open>Looking units up\<close>

text \<open>
  \<^verbatim>\<open>partial-changes/catalogue/catalogue-lookup.ts\<close>: the units of a catalogue by key, by table and by
  row. The lists the code pushes to are values of the maps.
\<close>

definition is_table_unit_kind :: "unit_kind \<Rightarrow> bool" where
  "is_table_unit_kind kind \<longleftrightarrow> kind \<in> {StructureUnit, ViewsUnit}"

record addressed_row =
  ar_table :: table_pair
  ar_rowId :: string
  ar_side :: revision_side

record catalogue_lookup =
  lk_rows :: "(string, catalogue_row public_id_index) jmap"
  lk_unitsByKey :: "(string, catalogue_unit) jmap"
  lk_tableLevelUnits :: "(string, catalogue_unit list) jmap"
  lk_rowLevelUnits :: "(string, catalogue_unit list) jmap"
  lk_unitsWithoutTable :: "(string, catalogue_unit list) jmap"

definition add_to ::
  "string \<Rightarrow> catalogue_unit \<Rightarrow> (string, catalogue_unit list) jmap \<Rightarrow> (string, catalogue_unit list) jmap"
  where
  "add_to key u units =
     (case map_of units key of
        Some existing \<Rightarrow> AList.update key (existing @ [u]) units
      | None \<Rightarrow> AList.update key [u] units)"

definition index_unit :: "catalogue_unit \<Rightarrow> catalogue_lookup \<Rightarrow> catalogue_lookup" where
  "index_unit u lk =
     (let lk1 = lk\<lparr>lk_unitsByKey := AList.update (ca_key u) u (lk_unitsByKey lk)\<rparr>
      in if ca_tableIdentities u = []
         then lk1\<lparr>lk_unitsWithoutTable := add_to (cu_tableId (ca_unit u)) u (lk_unitsWithoutTable lk1)\<rparr>
         else if is_table_unit_kind (cu_kind (ca_unit u))
         then lk1\<lparr>lk_tableLevelUnits :=
             fold (\<lambda>identity. add_to identity u) (ca_tableIdentities u) (lk_tableLevelUnits lk1)\<rparr>
         else lk1\<lparr>lk_rowLevelUnits :=
             fold (\<lambda>identity. add_to identity u) (ca_tableIdentities u) (lk_rowLevelUnits lk1)\<rparr>)"

definition catalogue_lookup ::
  "catalogue_unit list \<Rightarrow> (string, catalogue_row list) jmap \<Rightarrow> catalogue_lookup" where
  "catalogue_lookup units rows =
     fold index_unit units
       \<lparr>lk_rows = jmap_of (map (\<lambda>(identity, tableRows).
            (identity, public_id_index (\<lambda>row. row_pair_ids (cr_pair row)) tableRows)) rows),
        lk_unitsByKey = [], lk_tableLevelUnits = [], lk_rowLevelUnits = [], lk_unitsWithoutTable = []\<rparr>"

definition units_under :: "(string, catalogue_unit list) jmap \<Rightarrow> string \<Rightarrow> catalogue_unit list" where
  "units_under m key = (case map_of m key of None \<Rightarrow> [] | Some us \<Rightarrow> us)"

definition table_unit_of :: "catalogue_lookup \<Rightarrow> unit_kind \<Rightarrow> table_pair \<Rightarrow> catalogue_unit option" where
  "table_unit_of lk kind pair =
     find (\<lambda>u. cu_kind (ca_unit u) = kind) (units_under (lk_tableLevelUnits lk) (tp_identity pair))"

definition unit_without_table :: "catalogue_lookup \<Rightarrow> unit_kind \<Rightarrow> string \<Rightarrow> catalogue_unit option" where
  "unit_without_table lk kind i =
     find (\<lambda>u. cu_kind (ca_unit u) = kind) (units_under (lk_unitsWithoutTable lk) i)"

definition row_level_units_of :: "catalogue_lookup \<Rightarrow> table_pair \<Rightarrow> catalogue_unit list" where
  "row_level_units_of lk pair = units_under (lk_rowLevelUnits lk) (tp_identity pair)"

definition unit_of_key :: "catalogue_lookup \<Rightarrow> string \<Rightarrow> catalogue_unit outcome" where
  "unit_of_key lk key =
     (case map_of (lk_unitsByKey lk) key of
        None \<Rightarrow> Inl (''The catalogue has no unit '' @ key)
      | Some u \<Rightarrow> Inr u)"

definition row_on :: "catalogue_lookup \<Rightarrow> addressed_row \<Rightarrow> catalogue_row option" where
  "row_on lk a =
     Option.bind (map_of (lk_rows lk) (tp_identity (ar_table a)))
       (\<lambda>index. index_on index (ar_side a) (ar_rowId a))"

definition units_of_row :: "catalogue_lookup \<Rightarrow> addressed_row \<Rightarrow> catalogue_unit list outcome" where
  "units_of_row lk a =
     (case row_on lk a of
        None \<Rightarrow> Inr []
      | Some row \<Rightarrow>
          (let keys = uniq (cr_existence row # map Some (jvalues (cr_columns row)) @
                 map Some (jvalues (cr_leaves row)))
           in try_bind (map_try (unit_of_key lk) (List.map_filter (\<lambda>key. key) keys)) (\<lambda>units.
             Inr (filter (\<lambda>u. cu_kind (ca_unit u) \<noteq> StructureUnit) units))))"

subsection \<open>What the maps of a lookup hold\<close>

lemma units_under_add_to [simp]:
  "units_under (add_to key u m) k = units_under m k @ (if k = key then [u] else [])"
  by (simp add: units_under_def add_to_def jmap_simps split: option.splits)

lemma units_under_fold_add_to:
  "distinct ks \<Longrightarrow> units_under (fold (\<lambda>identity. add_to identity u) ks m) k =
     units_under m k @ (if k \<in> set ks then [u] else [])"
  by (induction ks arbitrary: m) auto

text \<open>Where the lookup files a unit: under a table at the level of the table or of its rows, or under its
  table id when it has no table.\<close>

definition filed_under :: "(catalogue_unit \<Rightarrow> bool) \<Rightarrow> catalogue_unit list \<Rightarrow> string \<Rightarrow> catalogue_unit list" where
  "filed_under p units identity = filter (\<lambda>u. identity \<in> set (ca_tableIdentities u) \<and> p u) units"

definition is_table_level :: "catalogue_unit \<Rightarrow> bool" where
  "is_table_level u \<longleftrightarrow> is_table_unit_kind (cu_kind (ca_unit u))"

lemma catalogue_lookup_snoc:
  "catalogue_lookup (units @ [u]) rows = index_unit u (catalogue_lookup units rows)"
  by (simp add: catalogue_lookup_def)

lemma index_unit_rows [simp]: "lk_rows (index_unit u lk) = lk_rows lk"
  by (simp add: index_unit_def Let_def)

lemma index_unit_keys [simp]:
  "lk_unitsByKey (index_unit u lk) = AList.update (ca_key u) u (lk_unitsByKey lk)"
  by (simp add: index_unit_def Let_def)

lemma lookup_rows [simp]:
  "lk_rows (catalogue_lookup units rows) = jmap_of (map (\<lambda>(identity, tableRows).
     (identity, public_id_index (\<lambda>row. row_pair_ids (cr_pair row)) tableRows)) rows)"
proof (induction units rule: rev_induct)
  case Nil
  show ?case by (simp add: catalogue_lookup_def)
qed (simp add: catalogue_lookup_snoc)

lemma lookup_unitsByKey:
  "map_of (lk_unitsByKey (catalogue_lookup units rows)) key =
     find (\<lambda>u. ca_key u = key) (rev units)"
proof (induction units rule: rev_induct)
  case Nil
  show ?case by (simp add: catalogue_lookup_def)
qed (simp add: catalogue_lookup_snoc jmap_simps)

lemma lookup_maps:
  assumes "list_all (\<lambda>u. distinct (ca_tableIdentities u)) units"
  shows "units_under (lk_tableLevelUnits (catalogue_lookup units rows)) identity =
      filed_under is_table_level units identity"
    "units_under (lk_rowLevelUnits (catalogue_lookup units rows)) identity =
      filed_under (\<lambda>u. \<not> is_table_level u) units identity"
    "units_under (lk_unitsWithoutTable (catalogue_lookup units rows)) i =
      filter (\<lambda>u. ca_tableIdentities u = [] \<and> cu_tableId (ca_unit u) = i) units"
  using assms
proof (induction units rule: rev_induct)
  case Nil
  { case 1 show ?case by (simp add: catalogue_lookup_def units_under_def filed_under_def) }
  { case 2 show ?case by (simp add: catalogue_lookup_def units_under_def filed_under_def) }
  { case 3 show ?case by (simp add: catalogue_lookup_def units_under_def) }
next
  case (snoc u units)
  { case 1 with snoc show ?case
      by (auto simp: catalogue_lookup_snoc index_unit_def Let_def filed_under_def is_table_level_def
          units_under_fold_add_to) }
  { case 2 with snoc show ?case
      by (auto simp: catalogue_lookup_snoc index_unit_def Let_def filed_under_def is_table_level_def
          units_under_fold_add_to) }
  { case 3 with snoc show ?case
      by (auto simp: catalogue_lookup_snoc index_unit_def Let_def) }
qed

lemma find_distinct_key:
  "distinct (map f xs) \<Longrightarrow> x \<in> set xs \<Longrightarrow> find (\<lambda>y. f y = f x) (rev xs) = Some x"
  by (induction xs rule: rev_induct) (auto simp: image_iff)

lemma unit_of_key_lookup:
  "distinct (map ca_key units) \<Longrightarrow> u \<in> set units \<Longrightarrow>
     unit_of_key (catalogue_lookup units rows) (ca_key u) = Inr u"
  by (simp add: unit_of_key_def lookup_unitsByKey find_distinct_key)

lemma row_on_lookup:
  assumes "jmap_ok rows" "row_on (catalogue_lookup units rows) a = Some row"
  shows "\<exists>tableRows. map_of rows (tp_identity (ar_table a)) = Some tableRows \<and> row \<in> set tableRows"
proof -
  let ?index = "\<lambda>tableRows. public_id_index (\<lambda>row. row_pair_ids (cr_pair row)) tableRows"
  from assms(2) obtain index where index: "map_of (lk_rows (catalogue_lookup units rows)) (tp_identity (ar_table a)) = Some index"
    "index_on index (ar_side a) (ar_rowId a) = Some row"
    by (auto simp: row_on_def bind_eq_Some_conv)
  have "(tp_identity (ar_table a), index) \<in> set (map (\<lambda>(identity, tableRows). (identity, ?index tableRows)) rows)"
    using index(1) unfolding lookup_rows map_of_jmap_of by (metis map_of_SomeD set_rev)
  then obtain tableRows where t: "(tp_identity (ar_table a), tableRows) \<in> set rows" "index = ?index tableRows"
    by auto
  then have "map_of rows (tp_identity (ar_table a)) = Some tableRows"
    using assms(1) by (simp add: jmap_mem_iff)
  moreover have "row \<in> set tableRows"
    using index(2) unfolding t(2) index_on_find by (auto simp: find_Some_iff) (metis length_rev nth_mem set_rev)
  ultimately show ?thesis by blast
qed

lemma set_defined: "set (List.map_filter (\<lambda>key. key) xs) = {key. Some key \<in> set xs}"
  by (induction xs) (auto simp: map_filter_def)

lemma distinct_defined: "distinct xs \<Longrightarrow> distinct (List.map_filter (\<lambda>key. key) xs)"
  by (induction xs) (auto simp: map_filter_simps set_defined split: option.splits)

lemma Some_mem_map_Some: "Some x \<in> set (map Some xs) \<longleftrightarrow> x \<in> set xs"
  by auto

lemma units_of_row_lookup:
  assumes "distinct (map ca_key units)"
    "\<And>row key. row_on (catalogue_lookup units rows) a = Some row \<Longrightarrow> key \<in> set (row_unit_keys row) \<Longrightarrow>
       \<exists>u \<in> set units. ca_key u = key"
  shows "\<exists>us. units_of_row (catalogue_lookup units rows) a = Inr us \<and> distinct us \<and>
    set us = {u \<in> set units. cu_kind (ca_unit u) \<noteq> StructureUnit \<and>
      (\<exists>row. row_on (catalogue_lookup units rows) a = Some row \<and> ca_key u \<in> set (row_unit_keys row))}"
proof (cases "row_on (catalogue_lookup units rows) a")
  case None
  then show ?thesis by (simp add: units_of_row_def)
next
  case (Some row)
  define keys where "keys = List.map_filter (\<lambda>key. key) (uniq (cr_existence row # map Some (jvalues (cr_columns row)) @
                 map Some (jvalues (cr_leaves row))))"
  have keys: "set keys = set (row_unit_keys row)"
    unfolding keys_def row_unit_keys_def set_defined
    by (cases "cr_existence row") (auto simp: Some_mem_map_Some simp del: set_map map_map)
  have "distinct keys" unfolding keys_def by (rule distinct_defined) (rule distinct_uniq)
  from assms(2) [OF Some] keys obtain unitOf where unitOf: "\<And>key. key \<in> set keys \<Longrightarrow> unitOf key \<in> set units \<and> ca_key (unitOf key) = key"
    by metis
  then have "map_try (unit_of_key (catalogue_lookup units rows)) keys = Inr (map unitOf keys)"
    by (intro map_try_total) (metis assms(1) unit_of_key_lookup)
  then have "units_of_row (catalogue_lookup units rows) a = Inr (filter (\<lambda>u. cu_kind (ca_unit u) \<noteq> StructureUnit) (map unitOf keys))"
    by (simp add: units_of_row_def Some keys_def Let_def)
  moreover have "distinct (map unitOf keys)"
    using \<open>distinct keys\<close> unitOf by (auto simp: distinct_map inj_on_def) metis
  moreover have "unitOf ` set keys = {u \<in> set units. ca_key u \<in> set keys}"
  proof -
    have "u = unitOf (ca_key u)" if "u \<in> set units" "ca_key u \<in> set keys" for u
      using that unitOf assms(1) by (metis distinct_map inj_onD)
    with unitOf show ?thesis by force
  qed
  ultimately show ?thesis using Some keys by (auto simp: distinct_filter)
qed

end
