(* ===== verification/Change_Catalogue.thy ===== *)
theory Change_Catalogue
  imports Table_Units Catalogue_Lookup
begin

section \<open>The catalogue of changes\<close>

text \<open>
  \<^verbatim>\<open>partial-changes/catalogue/change-catalogue.ts\<close>, \<^verbatim>\<open>ledger-inconsistency.ts\<close> and
  \<^verbatim>\<open>structure-changes.ts\<close>. A catalogue source is a compared snapshot with the changed rows of each
  table; building throws when a part throws, so it returns an outcome.
\<close>

subsection \<open>Inconsistencies of the ledger\<close>

datatype ledger_inconsistency =
  UnattributableMigration (li_tableId: string) (li_migrationId: string)
| HistoryNotExtendingHead (li_tableId: string)

fun extends_head :: "pending_history \<Rightarrow> bool" where
  "extends_head (ExtendsHead _) = True"
| "extends_head NotExtendingHead = False"

definition history_does_not_extend_head :: "catalogue_tables \<Rightarrow> table_pair \<Rightarrow> bool outcome" where
  "history_does_not_extend_head tables pair =
     (if tp_head pair = None \<or> tp_draft pair = None then Inr False
      else try_bind (structure_of tables pair) (\<lambda>structure.
        Inr (\<not> extends_head (st_pendingHistory structure))))"

definition ledger_inconsistencies_of ::
  "catalogue_tables \<Rightarrow> ledger_attribution \<Rightarrow> ledger_inconsistency list outcome" where
  "ledger_inconsistencies_of tables ledger =
     try_bind (filter_outcome (history_does_not_extend_head tables) (cb_pairs tables)) (\<lambda>pairs.
     try_bind (map_try (\<lambda>pair. try_bind (public_table_id_of pair)
         (\<lambda>tableId. Inr (HistoryNotExtendingHead tableId))) pairs) (\<lambda>inconsistent.
       Inr (map (\<lambda>entry. UnattributableMigration (mig_table (le_migration entry))
              (mig_id (le_migration entry))) (la_unattributable ledger) @ inconsistent)))"

subsection \<open>Changes of structure\<close>

datatype table_change = TableCreated | TableRemoved | TableReplaced | TableTransient | TableChanged

record changed_field =
  cf_path :: string
  cf_change :: field_change
  cf_from :: "string option"

record structure_change =
  sg_table :: table_change
  sg_fields :: "changed_field list"

definition is_created :: "table_pair \<Rightarrow> bool" where
  "is_created pair \<longleftrightarrow> tp_head pair = None"

definition has_no_draft :: "table_pair \<Rightarrow> bool" where
  "has_no_draft pair \<longleftrightarrow> tp_draft pair = None"

definition changed_field_of :: "changed_leaf \<Rightarrow> changed_field" where
  "changed_field_of leaf =
     \<lparr>cf_path = pointer_string (cl_pointer leaf), cf_change = cl_change leaf,
      cf_from = map_option pointer_string (cl_from leaf)\<rparr>"

definition changed_fields_of :: "changed_leaf list \<Rightarrow> changed_field list" where
  "changed_fields_of leaves =
     js_sort (\<lambda>left right. compare_code_points (cf_path left) (cf_path right)) (map changed_field_of leaves)"

definition whole_table_change_of :: "table_pair list \<Rightarrow> table_change" where
  "whole_table_change_of pairs =
     (if length pairs = 0 then TableTransient
      else if list_all is_created pairs then TableCreated
      else TableRemoved)"

definition replaced_table_leaves_of ::
  "system_schema_ids \<Rightarrow> (json \<Rightarrow> json \<Rightarrow> bool) \<Rightarrow> table_pair \<Rightarrow> table_pair \<Rightarrow> catalogue_tables \<Rightarrow>
   changed_leaf list outcome" where
  "replaced_table_leaves_of ids equal removed created tables =
     try_bind (side_of tables removed HeadSide) (\<lambda>head.
     try_bind (side_of tables created DraftSide) (\<lambda>draft.
       Inr (changed_leaves_of_replaced_table ids equal head draft)))"

definition structure_change_of ::
  "system_schema_ids \<Rightarrow> (json \<Rightarrow> json \<Rightarrow> bool) \<Rightarrow> catalogue_unit \<Rightarrow> catalogue_tables \<Rightarrow>
   structure_change outcome" where
  "structure_change_of ids equal u tables =
     try_bind (map_try (pair_of tables) (ca_tableIdentities u)) (\<lambda>pairs.
       case find is_on_both_sides pairs of
         Some changedTable \<Rightarrow> try_bind (structure_of tables changedTable) (\<lambda>structure.
           Inr \<lparr>sg_table = TableChanged, sg_fields = changed_fields_of (st_changedLeaves structure)\<rparr>)
       | None \<Rightarrow>
           (case (find has_no_draft pairs, find is_created pairs) of
              (Some removed, Some created) \<Rightarrow>
                try_bind (replaced_table_leaves_of ids equal removed created tables) (\<lambda>leaves.
                  Inr \<lparr>sg_table = TableReplaced, sg_fields = changed_fields_of leaves\<rparr>)
            | _ \<Rightarrow> Inr \<lparr>sg_table = whole_table_change_of pairs, sg_fields = []\<rparr>))"

subsection \<open>Building the catalogue\<close>

record change_catalogue =
  ch_units :: "catalogue_unit list"
  ch_rows :: "(string, catalogue_row list) jmap"
  ch_lookup :: catalogue_lookup
  ch_tables :: catalogue_tables
  ch_ledgerInconsistencies :: "ledger_inconsistency list"
  ch_refusedTables :: "refused_table list"

record catalogue_source = compared_snapshot +
  cs_changedRows :: "(string, row_pair list) jmap"

definition draft_table_ids_of :: "changes_snapshot \<Rightarrow> (string, string) jmap" where
  "draft_table_ids_of snapshot =
     fold (\<lambda>pair tableIds. case tp_draft pair of
         None \<Rightarrow> tableIds
       | Some draft \<Rightarrow> AList.update (tp_identity pair) (tv_id draft) tableIds)
       (sn_tables snapshot) []"

definition draft_table_id_of :: "(string, string) jmap \<Rightarrow> string \<Rightarrow> string outcome" where
  "draft_table_id_of draftTableIds identity =
     (case map_of draftTableIds identity of
        None \<Rightarrow> Inl (''Table '' @ identity @ '' is not in the Draft'')
      | Some tableId \<Rightarrow> Inr tableId)"

definition is_refused :: "head_schema_check \<Rightarrow> string \<Rightarrow> bool" where
  "is_refused check identity \<longleftrightarrow> map_of (hs_refusedTablesByIdentity check) identity \<noteq> None"

definition tables_not_refused :: "'x compared_snapshot_scheme \<Rightarrow> compared_table list" where
  "tables_not_refused source =
     filter (\<lambda>t. \<not> is_refused (cs_headSchema source) (co_identity t)) (cs_tables source)"

definition holds_refused_table :: "catalogue_unit \<Rightarrow> head_schema_check \<Rightarrow> bool" where
  "holds_refused_table u check = list_ex (is_refused check) (ca_tableIdentities u)"

definition add_row_units_of_table ::
  "(json \<Rightarrow> json \<Rightarrow> bool) \<Rightarrow> catalogue_source \<Rightarrow> (string, string) jmap \<Rightarrow> compared_table \<Rightarrow>
   catalogue_unit list \<times> (string, catalogue_row list) jmap \<Rightarrow>
   (catalogue_unit list \<times> (string, catalogue_row list) jmap) outcome" where
  "add_row_units_of_table equal source draftTableIds t acc =
     (case map_of (cs_changedRows source) (co_identity t) of
        None \<Rightarrow> Inr acc
      | Some pairs \<Rightarrow>
          try_bind (draft_table_id_of draftTableIds (co_identity t)) (\<lambda>tableId.
          try_bind (build_row_units equal \<lparr>ct_identity = co_identity t, ct_tableId = tableId,
              ct_structure = co_structure t, ct_pairs = pairs\<rparr>) (\<lambda>rowUnits.
            Inr (fst acc @ ru_units rowUnits,
                 AList.update (co_identity t) (ru_rows rowUnits) (snd acc)))))"

definition build_row_units_of_changed_tables ::
  "(json \<Rightarrow> json \<Rightarrow> bool) \<Rightarrow> catalogue_source \<Rightarrow>
   (catalogue_unit list \<times> (string, catalogue_row list) jmap) outcome" where
  "build_row_units_of_changed_tables equal source =
     fold_try (add_row_units_of_table equal source (draft_table_ids_of (cs_snapshot source)))
       (tables_not_refused source) ([], [])"

definition catalogue_order :: "catalogue_unit \<Rightarrow> catalogue_unit \<Rightarrow> int" where
  "catalogue_order left right = compare_units (ca_key left, ca_unit left) (ca_key right, ca_unit right)"

definition build_change_catalogue ::
  "'st toolkit \<Rightarrow> (json \<Rightarrow> json \<Rightarrow> bool) \<Rightarrow> (table_views \<Rightarrow> table_views \<Rightarrow> bool) \<Rightarrow> catalogue_source \<Rightarrow>
   change_catalogue outcome" where
  "build_change_catalogue tk equal vequal source =
     (let tables = catalogue_tables (cs_snapshot source) (cs_tables source)
      in try_bind (build_row_units_of_changed_tables equal source) (\<lambda>(rowUnits, rows).
         try_bind (build_structure_units tables (cs_ledger source)) (\<lambda>structureUnits.
         try_bind (build_views_units tk vequal tables) (\<lambda>viewsUnits.
         try_bind (build_shared_schema_units equal (sy_sharedSchemas (sn_systemRows (cs_snapshot source))))
           (\<lambda>sharedUnits.
         let units = js_sort catalogue_order
               (filter (\<lambda>u. \<not> holds_refused_table u (cs_headSchema source)) (structureUnits @ viewsUnits) @
                sharedUnits @ rowUnits)
         in try_bind (ledger_inconsistencies_of tables (cs_ledger source)) (\<lambda>inconsistencies.
           Inr \<lparr>ch_units = units, ch_rows = rows, ch_lookup = catalogue_lookup units rows,
                ch_tables = tables, ch_ledgerInconsistencies = inconsistencies,
                ch_refusedTables = hs_refusedTables (cs_headSchema source)\<rparr>))))))"

text \<open>The source a catalogue is built from: a comparison with the changed rows read for it.\<close>

definition with_changed_rows ::
  "compared_snapshot \<Rightarrow> (string, row_pair list) jmap \<Rightarrow> catalogue_source" where
  "with_changed_rows c changedRows = compared_snapshot.extend c (catalogue_source.fields changedRows)"

lemma with_changed_rows_simps [simp]:
  "cs_snapshot (with_changed_rows c rows) = cs_snapshot c"
  "cs_ledger (with_changed_rows c rows) = cs_ledger c"
  "cs_headSchema (with_changed_rows c rows) = cs_headSchema c"
  "cs_tables (with_changed_rows c rows) = cs_tables c"
  "cs_changedRows (with_changed_rows c rows) = rows"
  by (simp_all add: with_changed_rows_def compared_snapshot.defs catalogue_source.defs)

subsection \<open>The keys of the parts\<close>

text \<open>What the parts of a catalogue share: different keys, all of one kind.\<close>

definition keys_of_kind :: "unit_kind set \<Rightarrow> catalogue_unit list \<Rightarrow> bool" where
  "keys_of_kind kinds units \<longleftrightarrow>
     distinct (map ca_key units) \<and>
     (\<forall>u \<in> set units. cu_kind (ca_unit u) \<in> kinds \<and> (\<exists>is. ca_key u = key_of (cu_kind (ca_unit u)) is))"

lemma keys_of_kind_append:
  assumes "keys_of_kind K us" "keys_of_kind L vs" "K \<inter> L = {}"
  shows "keys_of_kind (K \<union> L) (us @ vs)"
proof -
  have "ca_key u \<noteq> ca_key v" if "u \<in> set us" "v \<in> set vs" for u v
    using assms that unfolding keys_of_kind_def by (metis disjoint_iff key_of_inject)
  then have "set (map ca_key us) \<inter> set (map ca_key vs) = {}" by auto
  with assms show ?thesis by (auto simp: keys_of_kind_def)
qed

lemma keys_of_kind_filter: "keys_of_kind K us \<Longrightarrow> keys_of_kind K (filter P us)"
  by (auto simp: keys_of_kind_def distinct_map_filter)

lemma distinct_groups:
  "distinct (map f (concat gs)) \<Longrightarrow> [] \<notin> set gs \<Longrightarrow> distinct (map (map f) gs)"
proof (induction gs)
  case (Cons g gs)
  have "map f g \<noteq> map f h" if "h \<in> set gs" for h
  proof
    assume eq: "map f g = map f h"
    from Cons.prems(2) have "f (hd g) \<in> f ` set g" by (cases g) auto
    moreover from eq have "f ` set g = f ` set h" by (metis list.set_map)
    moreover have "f ` set h \<subseteq> f ` set (concat gs)" using that by auto
    moreover have "f ` set g \<inter> f ` set (concat gs) = {}" using Cons.prems(1) by simp
    ultimately show False by blast
  qed
  with Cons show ?case by auto
qed simp

lemma transient_groups_separate:
  "sorted_wrt (\<lambda>h h'. set (th_tableIds h) \<inter> set (th_tableIds h') = {}) (group_by_table_ids pending slots)"
proof -
  have "sorted_wrt (\<lambda>g h. \<forall>x \<in> set g. \<forall>y \<in> set h. \<not> shares_table_id x y) (linked_groups shares_table_id slots)"
    using transient_slots.separate_linked_groups [of slots] by (simp add: separate_groups_def)
  then show ?thesis
    unfolding group_by_table_ids_def sorted_wrt_map
    by (rule sorted_wrt_mono_rel [rotated]) (auto simp: history_of_slots_def shares_table_id_def)
qed

lemma groups_not_empty: "[] \<notin> set (group_recreations ids pairs)" "[] \<notin> set (group_by_shared_public_id ids pairs)"
  using separate_group_linked_pairs
  by (auto simp: group_recreations_def group_by_shared_public_id_def separate_groups_def)

lemma transient_keys_distinct:
  assumes "list_all2 transient_parts ts groups"
    "sorted_wrt (\<lambda>h h'. set (th_tableIds h) \<inter> set (th_tableIds h') = {}) groups"
  shows "distinct (map sp_key ts) \<and>
    (\<forall>u \<in> set ts. cu_kind (sp_unit u) = StructureUnit \<and>
       (\<exists>h \<in> set groups. th_tableIds h \<noteq> [] \<and> sp_key u = transient_structure_unit_key (hd (th_tableIds h))))"
  using assms
proof (induction rule: list_all2_induct)
  case (Cons u ts h groups)
  have "sp_key u \<noteq> sp_key v" if "v \<in> set ts" for v
  proof -
    from that Cons obtain h' where h': "h' \<in> set groups" "th_tableIds h' \<noteq> []"
      "sp_key v = transient_structure_unit_key (hd (th_tableIds h'))" by auto
    moreover from Cons.prems h'(1) have "set (th_tableIds h) \<inter> set (th_tableIds h') = {}" by simp
    ultimately show ?thesis using Cons.hyps(1)
      by (auto simp: transient_parts_def unit_key_defs transient_structure_unit_key_def disjoint_iff)
        (metis list.set_sel(1))
  qed
  with Cons show ?case by (auto simp: transient_parts_def)
qed simp

lemma sorted_wrt_subsequence: "subseq xs ys \<Longrightarrow> sorted_wrt R ys \<Longrightarrow> sorted_wrt R xs"
  by (induction rule: list_emb.induct) (auto elim: list_emb_set)

lemma structure_keys:
  assumes "build_structure_units tables ledger = Inr units"
    "distinct (map tp_identity (cb_pairs tables))" "'''' \<notin> tp_identity ` set (cb_pairs tables)"
    "sorted_wrt (\<lambda>h h'. set (th_tableIds h) \<inter> set (th_tableIds h') = {}) (la_transientGroups ledger)"
  shows "keys_of_kind {StructureUnit} units"
proof -
  let ?changed = "filter (structure_changed tables) (cb_pairs tables)"
  let ?groups = "group_recreations table_pair_ids ?changed"
  obtain us ts alone where parts:
    "units = map (catalogue_unit_of tables ledger) (us @ ts)"
    "mset (map sp_tables us) = mset ?groups"
    "list_all fresh_parts us" "subseq alone (la_transientGroups ledger)" "list_all2 transient_parts ts alone"
    by (rule build_structure_units_facts [OF assms(1)]) blast
  have members: "mset (concat ?groups) = mset ?changed"
    by (simp add: group_recreations_def mset_group_linked_pairs)
  have "mset (map tp_identity (concat ?groups)) = mset (map tp_identity ?changed)"
    using members by (metis mset_map)
  then have "distinct (map tp_identity (concat ?groups))"
    using assms(2) by (metis distinct_map_filter mset_eq_imp_distinct_iff)
  then have "distinct (map (map tp_identity) ?groups)" by (rule distinct_groups) (rule groups_not_empty)
  then have "distinct (map (map tp_identity) (map sp_tables us))"
    using parts(2) by (metis mset_eq_imp_distinct_iff mset_map)
  moreover have us: "sp_key u = structure_unit_key (map tp_identity (sp_tables u))"
    "cu_kind (sp_unit u) = StructureUnit" if "u \<in> set us" for u
    using parts(3) that by (auto simp: list_all_iff fresh_parts_def)
  ultimately have d1: "distinct (map sp_key us)"
    by (auto simp: distinct_map inj_on_def unit_key_defs)
  have "sorted_wrt (\<lambda>h h'. set (th_tableIds h) \<inter> set (th_tableIds h') = {}) alone"
    by (rule sorted_wrt_subsequence [OF parts(4) assms(4)])
  note ts = transient_keys_distinct [OF parts(5) this]
  have "sp_key u \<noteq> sp_key v" if "u \<in> set us" "v \<in> set ts" for u v
  proof
    assume same: "sp_key u = sp_key v"
    from ts that(2) obtain tableId where "sp_key v = transient_structure_unit_key tableId" by blast
    with same us(1) [OF that(1)] have "map tp_identity (sp_tables u) = ['''', tableId]"
      by (simp add: unit_key_defs transient_structure_unit_key_def)
    then have "'''' \<in> set (map tp_identity (sp_tables u))" by simp
    moreover have "sp_tables u \<in> set ?groups" using that(1) parts(2) by (metis image_eqI list.set_map set_mset_mset)
    then have "set (sp_tables u) \<subseteq> set (concat ?groups)" by auto
    then have "set (sp_tables u) \<subseteq> set (cb_pairs tables)" unfolding set_group_recreations by auto
    ultimately show False using assms(3) by auto
  qed
  with d1 ts have "distinct (map sp_key (us @ ts))" by auto
  moreover have "map ca_key units = map sp_key (us @ ts)"
    by (simp add: parts(1) catalogue_unit_of_def comp_def)
  moreover have "cu_kind (ca_unit u) = StructureUnit \<and> (\<exists>is. ca_key u = key_of StructureUnit is)"
    if "u \<in> set units" for u
    using that us ts by (auto simp: parts(1) catalogue_unit_of_def unit_key_defs transient_structure_unit_key_def)
  ultimately show ?thesis by (simp add: keys_of_kind_def)
qed

lemma views_keys:
  assumes "build_views_units tk vequal tables = Inr units" "distinct (map tp_identity (cb_pairs tables))"
  shows "keys_of_kind {ViewsUnit} units"
proof -
  from assms(1) obtain pairs where pairs:
    "pairs = filter (\<lambda>pair. has_independent_views_edit tk vequal tables pair = Inr True) (cb_pairs tables)"
    "map_try (views_unit_of tables) pairs = Inr units"
    by (auto simp: build_views_units_def dest: filter_outcome_Inr)
  have all: "list_all2 (\<lambda>pair u. ca_key u = views_unit_key (tp_identity pair) \<and> cu_kind (ca_unit u) = ViewsUnit)
      pairs units"
    by (rule list_all2_mono [OF pairs(2) [unfolded map_try_Inr_iff]])
      (auto simp: views_unit_of_def Let_def table_unit_def)
  from list_all2_mono [OF all, of "\<lambda>pair u. ca_key u = views_unit_key (tp_identity pair)"]
  have "map ca_key units = map (\<lambda>pair. views_unit_key (tp_identity pair)) pairs"
    by (induction rule: list_all2_induct) auto
  moreover have "distinct (map (\<lambda>pair. views_unit_key (tp_identity pair)) pairs)"
    using assms(2) by (auto simp: pairs(1) distinct_map views_unit_key_def inj_on_def)
  ultimately show ?thesis
    using list_all2_second [OF all] by (auto simp: keys_of_kind_def views_unit_key_def)
qed

lemma shared_schema_keys:
  assumes "build_shared_schema_units equal rows = Inr units"
  shows "keys_of_kind {SharedSchemaUnit} units \<and> (\<forall>u \<in> set units. ca_tableIdentities u = [])"
proof -
  let ?changed = "filter (\<lambda>pair. shared_schema_differs equal (rp_head pair) (rp_draft pair)) (row_pairs_by_identity rows)"
  let ?groups = "group_by_shared_public_id row_pair_ids ?changed"
  have all: "list_all2 (\<lambda>g u. ca_key u = shared_schema_unit_key (map rp_identity g) \<and>
      cu_kind (ca_unit u) = SharedSchemaUnit \<and> ca_tableIdentities u = []) ?groups units"
    by (rule list_all2_mono [OF assms [unfolded build_shared_schema_units_def map_try_Inr_iff]])
      (auto simp: shared_schema_unit_of_def table_unit_def)
  from list_all2_mono [OF all, of "\<lambda>g u. ca_key u = shared_schema_unit_key (map rp_identity g)"]
  have keys: "map ca_key units = map (\<lambda>g. shared_schema_unit_key (map rp_identity g)) ?groups"
    by (induction rule: list_all2_induct) auto
  have "mset (concat ?groups) = mset ?changed"
    by (simp add: group_by_shared_public_id_def mset_group_linked_pairs)
  then have "mset (map rp_identity (concat ?groups)) = mset (map rp_identity ?changed)"
    by (simp only: mset_map)
  moreover have "distinct (map rp_identity (row_pairs_by_identity rows))"
    by (simp add: row_pairs_by_identity_def Let_def comp_def)
  ultimately have "distinct (map rp_identity (concat ?groups))"
    by (metis distinct_map_filter mset_eq_imp_distinct_iff)
  then have "distinct (map (map rp_identity) ?groups)" by (rule distinct_groups) (rule groups_not_empty)
  then have "distinct (map ca_key units)"
    unfolding keys by (auto simp: distinct_map shared_schema_unit_key_def inj_on_def)
  then show ?thesis
    using list_all2_second [OF all] by (auto simp: keys_of_kind_def shared_schema_unit_key_def)
qed

subsection \<open>The rows of the catalogue\<close>

text \<open>The tables whose rows were read, each with the units of its rows.\<close>

definition row_units_built ::
  "(json \<Rightarrow> json \<Rightarrow> bool) \<Rightarrow> catalogue_source \<Rightarrow> compared_table \<times> row_units \<Rightarrow> bool" where
  "row_units_built equal source built \<longleftrightarrow>
     (\<exists>pairs tableId. map_of (cs_changedRows source) (co_identity (fst built)) = Some pairs \<and>
        draft_table_id_of (draft_table_ids_of (cs_snapshot source)) (co_identity (fst built)) = Inr tableId \<and>
        build_row_units equal \<lparr>ct_identity = co_identity (fst built), ct_tableId = tableId,
          ct_structure = co_structure (fst built), ct_pairs = pairs\<rparr> = Inr (snd built))"

definition rows_were_read :: "catalogue_source \<Rightarrow> compared_table \<Rightarrow> bool" where
  "rows_were_read source t \<longleftrightarrow> map_of (cs_changedRows source) (co_identity t) \<noteq> None"

lemma row_units_fold:
  assumes "fold_try (add_row_units_of_table equal source (draft_table_ids_of (cs_snapshot source))) ts (us, rows) =
      Inr (us', rows')"
  shows "\<exists>built. list_all (row_units_built equal source) built \<and>
    map fst built = filter (rows_were_read source) ts \<and>
    us' = us @ concat (map (\<lambda>b. ru_units (snd b)) built) \<and>
    rows' = fold (\<lambda>(k, v). AList.update k v) (map (\<lambda>b. (co_identity (fst b), ru_rows (snd b))) built) rows"
  using assms
proof (induction ts arbitrary: us rows)
  case Nil
  then show ?case by simp
next
  case (Cons t ts)
  show ?case
  proof (cases "map_of (cs_changedRows source) (co_identity t)")
    case None
    then have "fold_try (add_row_units_of_table equal source (draft_table_ids_of (cs_snapshot source))) ts (us, rows) =
        Inr (us', rows')"
      using Cons.prems by (simp add: add_row_units_of_table_def [of _ _ _ t])
    from Cons.IH [OF this] None show ?thesis by (auto simp: rows_were_read_def)
  next
    case (Some pairs)
    with Cons.prems obtain tableId ru where step:
      "draft_table_id_of (draft_table_ids_of (cs_snapshot source)) (co_identity t) = Inr tableId"
      "build_row_units equal \<lparr>ct_identity = co_identity t, ct_tableId = tableId,
          ct_structure = co_structure t, ct_pairs = pairs\<rparr> = Inr ru"
      "fold_try (add_row_units_of_table equal source (draft_table_ids_of (cs_snapshot source))) ts
        (us @ ru_units ru, AList.update (co_identity t) (ru_rows ru) rows) = Inr (us', rows')"
      by (auto simp: add_row_units_of_table_def [of _ _ _ t])
    have "row_units_built equal source (t, ru)"
      using Some step(1,2) by (auto simp: row_units_built_def)
    moreover from Cons.IH [OF step(3)] obtain built where "list_all (row_units_built equal source) built"
      "map fst built = filter (rows_were_read source) ts"
      "us' = (us @ ru_units ru) @ concat (map (\<lambda>b. ru_units (snd b)) built)"
      "rows' = fold (\<lambda>(k, v). AList.update k v) (map (\<lambda>b. (co_identity (fst b), ru_rows (snd b))) built)
         (AList.update (co_identity t) (ru_rows ru) rows)"
      by blast
    ultimately show ?thesis using Some
      by (intro exI [of _ "(t, ru) # built"]) (simp add: rows_were_read_def [of source t])
  qed
qed

definition row_kinds :: "unit_kind set" where
  "row_kinds = {FieldUnit, RowCreateUnit, RowDeleteUnit, RowReplaceUnit, RowRenameUnit, RowColumnsUnit}"

text \<open>Owners of leaves must have different pointers for the rows of a table to be told apart.\<close>

definition distinct_owners :: "compared_table \<Rightarrow> bool" where
  "distinct_owners t \<longleftrightarrow> distinct (map lw_pointer (leaf_owners_of (co_structure t)))"

lemma built_units:
  assumes "row_units_built equal source b" "distinct_owners (fst b)"
  shows "keys_of_kind row_kinds (ru_units (snd b))"
    "u \<in> set (ru_units (snd b)) \<Longrightarrow> ca_tableIdentities u = [co_identity (fst b)] \<and>
       (\<exists>kind is. ca_key u = key_of kind (co_identity (fst b) # is))"
proof -
  from assms(1) obtain t where t: "build_row_units equal t = Inr (snd b)"
    "ct_structure t = co_structure (fst b)" "ct_identity t = co_identity (fst b)"
    by (auto simp: row_units_built_def)
  have owners: "distinct (map lw_pointer (leaf_owners_of (ct_structure t)))"
    using assms(2) by (simp add: t(2) distinct_owners_def)
  note facts = build_row_units_facts [OF t(1) owners]
  show "keys_of_kind row_kinds (ru_units (snd b))"
    using facts(2,4) by (fastforce simp: keys_of_kind_def table_unit_ok_def unit_key_defs row_kinds_def)
  show "u \<in> set (ru_units (snd b)) \<Longrightarrow> ca_tableIdentities u = [co_identity (fst b)] \<and>
       (\<exists>kind is. ca_key u = key_of kind (co_identity (fst b) # is))"
    using facts(4) [of u] by (auto simp: table_unit_ok_def unit_key_defs t(3))
qed

lemma row_keys:
  assumes "list_all (row_units_built equal source) built" "list_all distinct_owners (map fst built)"
    "distinct (map (\<lambda>b. co_identity (fst b)) built)"
  shows "keys_of_kind row_kinds (concat (map (\<lambda>b. ru_units (snd b)) built))"
  using assms
proof (induction built)
  case Nil
  then show ?case by (simp add: keys_of_kind_def)
next
  case (Cons b built)
  have "ca_key u \<noteq> ca_key v"
    if "u \<in> set (ru_units (snd b))" "b' \<in> set built" "v \<in> set (ru_units (snd b'))" for u v b'
  proof -
    from Cons.prems that(2) have ok: "row_units_built equal source b" "distinct_owners (fst b)"
      "row_units_built equal source b'" "distinct_owners (fst b')"
      and other: "co_identity (fst b) \<noteq> co_identity (fst b')"
      by (auto simp: list_all_iff)
    from built_units(2) [OF ok(1,2) that(1)] built_units(2) [OF ok(3,4) that(3)] other show ?thesis
      by auto
  qed
  then have "set (map ca_key (ru_units (snd b))) \<inter> set (map ca_key (concat (map (\<lambda>b. ru_units (snd b)) built))) = {}"
    by auto
  moreover have "keys_of_kind row_kinds (ru_units (snd b))"
    by (rule built_units(1) [of equal source]) (use Cons.prems in simp_all)
  moreover have "keys_of_kind row_kinds (concat (map (\<lambda>b. ru_units (snd b)) built))"
    using Cons by simp
  ultimately show ?case by (auto simp: keys_of_kind_def)
qed

interpretation catalogue_order: js_comparator catalogue_order
  unfolding catalogue_order_def
  by unfold_locales (use unit_order.cmp_total unit_order.cmp_trans in blast)+

text \<open>
  Tables as a database holds them: every identity once and never empty, and no schema names a field
  twice.
\<close>

definition sound_pairs :: "table_pair list \<Rightarrow> bool" where
  "sound_pairs pairs \<longleftrightarrow>
     distinct (map tp_identity pairs) \<and> '''' \<notin> set (map tp_identity pairs) \<and>
     list_all (\<lambda>pair. list_all (\<lambda>v. unique_names (tv_schema v)) (versions_of pair)) pairs"

lemma compared_structures:
  assumes "read_compared_snapshot tk ids equal deq snapshot wholeDraft = Inr c" "sound_pairs (sn_tables snapshot)"
    "t \<in> set (cs_tables c)"
  obtains pair input where "pair \<in> set (sn_tables snapshot)" "tp_head pair \<noteq> None" "tp_draft pair \<noteq> None"
    "tp_identity pair = co_identity t" "analyze_table_structure tk ids equal deq input = Inr (co_structure t)"
    "unique_names (sd_schema (in_head input))" "unique_names (sd_schema (in_draft input))"
proof -
  from list_all2_second [OF compared_pairs(2) [OF assms(1)] assms(3)] obtain pair where pair:
    "pair \<in> set (sn_tables snapshot)" "compares_pair tk ids equal deq c pair t" by auto
  then obtain head draft where sides: "tp_head pair = Some head" "tp_draft pair = Some draft"
    "co_identity t = tp_identity pair"
    "analyze_table_structure tk ids equal deq
          \<lparr>in_head = table_side_of (sn_tables (cs_snapshot c)) head HeadSide,
           in_draft = table_side_of (sn_tables (cs_snapshot c)) draft DraftSide,
           in_pendingMigrations = pending_migrations_of (cs_ledger c) (tp_identity pair),
           in_replayedHeadSchema = map_of (hs_replayedHeadSchemas (cs_headSchema c)) (tp_identity pair)\<rparr> =
          Inr (co_structure t)"
    by (auto simp: compares_pair_def)
  from assms(2) pair(1) sides(1,2) have "unique_names (tv_schema head)" "unique_names (tv_schema draft)"
    by (auto simp: sound_pairs_def list_all_iff versions_of_def)
  then show ?thesis
    by (intro that [OF pair(1) _ _ sides(3) [symmetric] sides(4)]) (simp_all add: sides(1,2) table_side_of_def)
qed

lemma compared_owners_distinct:
  assumes "read_compared_snapshot tk ids equal deq snapshot wholeDraft = Inr c" "sound_pairs (sn_tables snapshot)"
  shows "list_all distinct_owners (cs_tables c)"
  unfolding list_all_iff distinct_owners_def
  by (meson analysed_owners_distinct compared_structures [OF assms])

subsection \<open>The catalogue of a comparison\<close>

lemma catalogue_parts:
  assumes "read_compared_snapshot tk ids equal deq snapshot wholeDraft = Inr c" "sound_pairs (sn_tables snapshot)"
    "build_change_catalogue tk equal vequal (with_changed_rows c changedRows) = Inr cat"
  obtains structureUnits viewsUnits sharedUnits built where
    "build_structure_units (catalogue_tables snapshot (cs_tables c)) (cs_ledger c) = Inr structureUnits"
    "keys_of_kind {StructureUnit} structureUnits"
    "build_views_units tk vequal (catalogue_tables snapshot (cs_tables c)) = Inr viewsUnits"
    "keys_of_kind {ViewsUnit} viewsUnits"
    "build_shared_schema_units equal (sy_sharedSchemas (sn_systemRows snapshot)) = Inr sharedUnits"
    "keys_of_kind {SharedSchemaUnit} sharedUnits" "\<forall>u \<in> set sharedUnits. ca_tableIdentities u = []"
    "list_all (row_units_built equal (with_changed_rows c changedRows)) built"
    "map fst built = filter (rows_were_read (with_changed_rows c changedRows))
       (tables_not_refused (with_changed_rows c changedRows))"
    "list_all distinct_owners (map fst built)" "distinct (map (\<lambda>b. co_identity (fst b)) built)"
    "keys_of_kind row_kinds (concat (map (\<lambda>b. ru_units (snd b)) built))"
    "ch_units cat = js_sort catalogue_order
       (filter (\<lambda>u. \<not> holds_refused_table u (cs_headSchema c)) (structureUnits @ viewsUnits) @ sharedUnits @
        concat (map (\<lambda>b. ru_units (snd b)) built))"
    "ch_rows cat = jmap_of (map (\<lambda>b. (co_identity (fst b), ru_rows (snd b))) built)"
    "ch_lookup cat = catalogue_lookup (ch_units cat) (ch_rows cat)"
proof -
  let ?source = "with_changed_rows c changedRows" and ?tables = "catalogue_tables snapshot (cs_tables c)"
  note c = compared_pairs [OF assms(1)]
  from assms(3) obtain rowUnits rows structureUnits viewsUnits sharedUnits where run:
    "build_row_units_of_changed_tables equal ?source = Inr (rowUnits, rows)"
    "build_structure_units ?tables (cs_ledger c) = Inr structureUnits"
    "build_views_units tk vequal ?tables = Inr viewsUnits"
    "build_shared_schema_units equal (sy_sharedSchemas (sn_systemRows snapshot)) = Inr sharedUnits"
    "ch_units cat = js_sort catalogue_order
       (filter (\<lambda>u. \<not> holds_refused_table u (cs_headSchema c)) (structureUnits @ viewsUnits) @ sharedUnits @ rowUnits)"
    "ch_rows cat = rows" "ch_lookup cat = catalogue_lookup (ch_units cat) (ch_rows cat)"
    by (auto simp: build_change_catalogue_def Let_def c(1))
  from row_units_fold [OF run(1) [unfolded build_row_units_of_changed_tables_def]] obtain built where built:
    "list_all (row_units_built equal ?source) built"
    "map fst built = filter (rows_were_read ?source) (tables_not_refused ?source)"
    "rowUnits = concat (map (\<lambda>b. ru_units (snd b)) built)"
    "rows = jmap_of (map (\<lambda>b. (co_identity (fst b), ru_rows (snd b))) built)"
    by (auto simp: jmap_of_def)
  have pairs: "cb_pairs ?tables = sn_tables snapshot" by (simp add: catalogue_tables_def)
  have owners: "list_all distinct_owners (map fst built)"
    using compared_owners_distinct [OF assms(1,2)]
    unfolding built(2) by (auto simp: list_all_iff tables_not_refused_def)
  have "distinct (map co_identity (cs_tables c))"
    using assms(2) unfolding map_identities_compared [OF c(2), symmetric]
    by (simp add: sound_pairs_def distinct_map_filter)
  then have "distinct (map co_identity (map fst built))"
    unfolding built(2) tables_not_refused_def by (simp add: distinct_map_filter)
  then have identities: "distinct (map (\<lambda>b. co_identity (fst b)) built)" by (simp add: comp_def)
  have "cs_ledger c = attribute_ledger (sn_tables snapshot) (rr_head (sy_migrations (sn_systemRows snapshot)))
      (rr_draft (sy_migrations (sn_systemRows snapshot)))"
    using assms(1) by (auto simp: read_compared_snapshot_def Let_def)
  then have "sorted_wrt (\<lambda>h h'. set (th_tableIds h) \<inter> set (th_tableIds h') = {}) (la_transientGroups (cs_ledger c))"
    by (simp add: attribute_ledger_def Let_def transient_groups_separate)
  with assms(2) have "keys_of_kind {StructureUnit} structureUnits"
    by (intro structure_keys [OF run(2)]) (auto simp: pairs sound_pairs_def)
  moreover have "keys_of_kind {ViewsUnit} viewsUnits"
    using views_keys [OF run(3)] assms(2) by (simp add: pairs sound_pairs_def)
  moreover note shared_schema_keys [OF run(4)]
  moreover have "keys_of_kind row_kinds rowUnits"
    unfolding built(3) by (rule row_keys [OF built(1) owners identities])
  ultimately show ?thesis
    using run built owners identities by (intro that) auto
qed

lemma catalogue_keys:
  assumes "read_compared_snapshot tk ids equal deq snapshot wholeDraft = Inr c" "sound_pairs (sn_tables snapshot)"
    "build_change_catalogue tk equal vequal (with_changed_rows c changedRows) = Inr cat"
  shows "distinct (map ca_key (ch_units cat))" "sorted_wrt (\<lambda>u v. catalogue_order u v < 0) (ch_units cat)"
proof -
  from catalogue_parts [OF assms] obtain structureUnits viewsUnits sharedUnits rowUnits where parts:
    "keys_of_kind {StructureUnit} structureUnits" "keys_of_kind {ViewsUnit} viewsUnits"
    "keys_of_kind {SharedSchemaUnit} sharedUnits" "keys_of_kind row_kinds rowUnits"
    "ch_units cat = js_sort catalogue_order
       (filter (\<lambda>u. \<not> holds_refused_table u (cs_headSchema c)) (structureUnits @ viewsUnits) @ sharedUnits @ rowUnits)"
    by metis
  from keys_of_kind_append [OF parts(1,2)] have "keys_of_kind {StructureUnit, ViewsUnit}
      (filter (\<lambda>u. \<not> holds_refused_table u (cs_headSchema c)) (structureUnits @ viewsUnits))"
    by (intro keys_of_kind_filter) (auto simp: insert_commute)
  from keys_of_kind_append [OF this keys_of_kind_append [OF parts(3,4)]]
  show distinct: "distinct (map ca_key (ch_units cat))"
    unfolding parts(5) distinct_map_js_sort by (simp add: keys_of_kind_def row_kinds_def)
  have order: "catalogue_order u v < 0" if "catalogue_order u v \<le> 0" "ca_key u \<noteq> ca_key v" for u v
  proof -
    from that(2) have "unit_rank (ca_key u, ca_unit u) \<noteq> unit_rank (ca_key v, ca_unit v)"
      by (simp add: unit_rank_def)
    with that(1) show ?thesis
      using compare_units_orders [of "(ca_key u, ca_unit u)" "(ca_key v, ca_unit v)"]
      by (auto simp: catalogue_order_def orders_def le_less)
  qed
  have sorted: "sorted_wrt (\<lambda>u v. catalogue_order u v \<le> 0) (ch_units cat)"
    unfolding parts(5) by (rule catalogue_order.sorted_js_sort)
  have "sorted_wrt (\<lambda>u v. catalogue_order u v \<le> 0) us \<Longrightarrow> distinct (map ca_key us) \<Longrightarrow>
      sorted_wrt (\<lambda>u v. catalogue_order u v < 0) us" for us
    by (induction us) (auto intro!: order simp: image_iff)
  from this [OF sorted distinct] show "sorted_wrt (\<lambda>u v. catalogue_order u v < 0) (ch_units cat)" .
qed

subsection \<open>The units of a row\<close>

lemma mentions_structure:
  assumes "structure_key (row_units_builder t) \<in> set (row_unit_keys (row_of_pair equal (row_units_builder t) pair))"
  shows "(\<exists>column. column_owner_of column (ct_structure t) = StructureOwner) \<or>
    (\<exists>leaf \<in> set (leaf_owners_of (ct_structure t)). lw_owner leaf = OwnedByStructure)"
  using assms structure_key_other [THEN not_sym] structure_key_not_field [THEN not_sym]
  by (auto simp: row_unit_keys_def row_of_pair_def existence_key_def Let_def owner_key_of_column_def
      owner_key_of_leaf_def owner_of_def differing_leaves_of_def
      split: option.splits column_owner.splits if_splits)

text \<open>A table on both sides whose structure differs has a structure unit of its own.\<close>

lemma own_structure_unit:
  assumes "build_structure_units tables ledger = Inr units"
    "pair \<in> set (cb_pairs tables)" "tp_head pair \<noteq> None" "tp_draft pair \<noteq> None" "structure_changed tables pair"
  shows "\<exists>u \<in> set units. ca_key u = structure_unit_key [tp_identity pair] \<and>
    ca_tableIdentities u = [tp_identity pair] \<and> cu_kind (ca_unit u) = StructureUnit"
proof -
  let ?changed = "filter (structure_changed tables) (cb_pairs tables)"
  obtain us ts alone where parts:
    "units = map (catalogue_unit_of tables ledger) (us @ ts)"
    "mset (map sp_tables us) = mset (group_recreations table_pair_ids ?changed)"
    "list_all fresh_parts us" "list_all2 transient_parts ts alone"
    by (rule build_structure_units_facts [OF assms(1)]) blast
  have "\<not> is_on_one_side (table_pair_ids pair)"
    using assms(3,4) by (auto simp: is_on_one_side_def table_pair_ids_def)
  then have "[pair] \<in> set (group_recreations table_pair_ids ?changed)"
    using assms(2,5) by (auto simp: group_recreations_def group_linked_pairs_def)
  with parts(2) obtain u where u: "u \<in> set us" "sp_tables u = [pair]"
    by (metis image_iff list.set_map set_mset_mset)
  with parts(3) have "fresh_parts u" by (simp add: list_all_iff)
  with u(2) have "ca_key (catalogue_unit_of tables ledger u) = structure_unit_key [tp_identity pair] \<and>
      ca_tableIdentities (catalogue_unit_of tables ledger u) = [tp_identity pair] \<and>
      cu_kind (ca_unit (catalogue_unit_of tables ledger u)) = StructureUnit"
    by (simp add: fresh_parts_def catalogue_unit_of_def)
  moreover have "catalogue_unit_of tables ledger u \<in> set units" using u(1) by (simp add: parts(1))
  ultimately show ?thesis by blast
qed

text \<open>Every key a row of the catalogue mentions is the key of one of its units.\<close>

lemma mentioned_units_exist:
  assumes "read_compared_snapshot tk ids equal deq snapshot wholeDraft = Inr c" "sound_pairs (sn_tables snapshot)"
    "build_change_catalogue tk equal vequal (with_changed_rows c changedRows) = Inr cat"
    "map_of (ch_rows cat) identity = Some rows" "row \<in> set rows" "key \<in> set (row_unit_keys row)"
  shows "\<exists>u \<in> set (ch_units cat). ca_key u = key"
proof -
  let ?tables = "catalogue_tables snapshot (cs_tables c)" and ?source = "with_changed_rows c changedRows"
  obtain structureUnits viewsUnits sharedUnits built where parts:
    "build_structure_units ?tables (cs_ledger c) = Inr structureUnits"
    "list_all (row_units_built equal ?source) built"
    "map fst built = filter (rows_were_read ?source) (tables_not_refused ?source)"
    "list_all distinct_owners (map fst built)" "distinct (map (\<lambda>b. co_identity (fst b)) built)"
    "ch_units cat = js_sort catalogue_order
       (filter (\<lambda>u. \<not> holds_refused_table u (cs_headSchema c)) (structureUnits @ viewsUnits) @ sharedUnits @
        concat (map (\<lambda>b. ru_units (snd b)) built))"
    "ch_rows cat = jmap_of (map (\<lambda>b. (co_identity (fst b), ru_rows (snd b))) built)"
    by (rule catalogue_parts [OF assms(1-3)]) blast
  have units: "set (ch_units cat) =
      {u \<in> set (structureUnits @ viewsUnits). \<not> holds_refused_table u (cs_headSchema c)} \<union> set sharedUnits \<union>
      (\<Union>b \<in> set built. set (ru_units (snd b)))"
    unfolding parts(6) by auto
  have "(identity, rows) \<in> set (map (\<lambda>b. (co_identity (fst b), ru_rows (snd b))) built)"
    using assms(4) unfolding parts(7) map_of_jmap_of by (auto dest: map_of_SomeD)
  then obtain b where b: "b \<in> set built" "rows = ru_rows (snd b)" by auto
  with parts(2,4) have ok: "row_units_built equal ?source b" "distinct_owners (fst b)"
    by (auto simp: list_all_iff)
  then obtain t where t: "build_row_units equal t = Inr (snd b)"
    "ct_structure t = co_structure (fst b)" "ct_identity t = co_identity (fst b)"
    by (auto simp: row_units_built_def)
  have owners: "distinct (map lw_pointer (leaf_owners_of (ct_structure t)))"
    using ok(2) by (simp add: t(2) distinct_owners_def)
  note facts = build_row_units_facts [OF t(1) owners]
  show ?thesis
  proof (cases "key = structure_key (row_units_builder t)")
    case False
    then have "key \<in> set (map ca_key (ru_units (snd b)))"
      using assms(5,6) b(2) unfolding facts(3) by auto
    with b(1) show ?thesis unfolding units by auto
  next
    case True
    from assms(5) b(2) obtain rowPair where "row = row_of_pair equal (row_units_builder t) rowPair"
      unfolding facts(1) by auto
    with assms(6) True have owns: "(\<exists>column. column_owner_of column (ct_structure t) = StructureOwner) \<or>
        (\<exists>leaf \<in> set (leaf_owners_of (ct_structure t)). lw_owner leaf = OwnedByStructure)"
      using mentions_structure by blast
    have "fst b \<in> set (map fst built)" using b(1) by simp
    then have mem: "fst b \<in> set (cs_tables c)" "\<not> is_refused (cs_headSchema c) (co_identity (fst b))"
      unfolding parts(3) by (auto simp: tables_not_refused_def)
    from compared_structures [OF assms(1,2) mem(1)] obtain pair input where pair:
      "pair \<in> set (sn_tables snapshot)" "tp_head pair \<noteq> None" "tp_draft pair \<noteq> None"
      "tp_identity pair = co_identity (fst b)"
      "analyze_table_structure tk ids equal deq input = Inr (co_structure (fst b))"
      "unique_names (sd_schema (in_head input))" "unique_names (sd_schema (in_draft input))" by metis
    have differs: "st_differs (co_structure (fst b))"
      using owns structure_owner_differs [OF pair(5-7)] unfolding t(2) by blast
    note c = compared_pairs [OF assms(1)]
    have "distinct (map co_identity (cs_tables c))"
      using assms(2) unfolding map_identities_compared [OF c(2), symmetric]
      by (simp add: sound_pairs_def distinct_map_filter)
    then have once: "distinct (map fst (map (\<lambda>t. (co_identity t, co_structure t)) (cs_tables c)))"
      by (simp add: comp_def)
    have "(co_identity (fst b), co_structure (fst b)) \<in> set (map (\<lambda>t. (co_identity t, co_structure t)) (cs_tables c))"
      using mem(1) by simp
    then have "map_of (cb_structures ?tables) (co_identity (fst b)) = Some (co_structure (fst b))"
      unfolding catalogue_tables_def catalogue_tables.simps jmap_of_distinct(1) [OF once]
      by (rule map_of_is_SomeI [OF once])
    then have "structure_changed ?tables pair"
      using pair(2-4) differs by (auto simp: structure_changed_def has_structure_change_def structure_of_def)
    from own_structure_unit [OF parts(1) _ pair(2,3) this] pair(1) obtain u where u: "u \<in> set structureUnits"
      "ca_key u = structure_unit_key [tp_identity pair]" "ca_tableIdentities u = [tp_identity pair]"
      by (auto simp: catalogue_tables_def)
    have "\<not> holds_refused_table u (cs_headSchema c)"
      using mem(2) by (simp add: holds_refused_table_def u(3) pair(4))
    with u(1) have "u \<in> set (ch_units cat)" unfolding units by simp
    moreover have "ca_key u = key" using u(2) pair(4) t(3) True by (simp add: structure_key_def)
    ultimately show ?thesis by blast
  qed
qed

text \<open>
  What a sound catalogue gives its clients: keys are different, the lookup is built from the listed units, every key
  a row mentions is listed, and units of rows can be addressed: they carry a row id, those of fields also
  the path of a pointer.
\<close>

definition addressable_unit :: "catalogue_unit \<Rightarrow> bool" where
  "addressable_unit u \<longleftrightarrow>
     (cu_kind (ca_unit u) \<in> row_kinds \<longrightarrow> cu_rowId (ca_unit u) \<noteq> None) \<and>
     (cu_kind (ca_unit u) = FieldUnit \<longrightarrow> (\<exists>p. cu_path (ca_unit u) = Some (pointer_string p)))"

definition sound_catalogue :: "change_catalogue \<Rightarrow> bool" where
  "sound_catalogue cat \<longleftrightarrow>
     distinct (map ca_key (ch_units cat)) \<and> ch_lookup cat = catalogue_lookup (ch_units cat) (ch_rows cat) \<and>
     jmap_ok (ch_rows cat) \<and>
     (\<forall>identity rows row key. map_of (ch_rows cat) identity = Some rows \<longrightarrow> row \<in> set rows \<longrightarrow>
        key \<in> set (row_unit_keys row) \<longrightarrow> (\<exists>u \<in> set (ch_units cat). ca_key u = key)) \<and>
     (\<forall>u \<in> set (ch_units cat). addressable_unit u)"

lemma row_units_addressable:
  assumes "row_units_built equal source b" "distinct_owners (fst b)" "u \<in> set (ru_units (snd b))"
  shows "addressable_unit u"
proof -
  from assms(1) obtain t where t: "build_row_units equal t = Inr (snd b)" "ct_structure t = co_structure (fst b)"
    by (auto simp: row_units_built_def)
  have "distinct (map lw_pointer (leaf_owners_of (ct_structure t)))"
    using assms(2) by (simp add: t(2) distinct_owners_def)
  from build_row_units_facts(4) [OF t(1) this assms(3)] show ?thesis
    by (auto simp: table_unit_ok_def addressable_unit_def)
qed

lemma built_catalogue_sound:
  assumes "read_compared_snapshot tk ids equal deq snapshot wholeDraft = Inr c" "sound_pairs (sn_tables snapshot)"
    "build_change_catalogue tk equal vequal (with_changed_rows c changedRows) = Inr cat"
  shows "sound_catalogue cat"
proof -
  obtain structureUnits viewsUnits sharedUnits built where parts:
    "keys_of_kind {StructureUnit} structureUnits" "keys_of_kind {ViewsUnit} viewsUnits"
    "keys_of_kind {SharedSchemaUnit} sharedUnits"
    "list_all (row_units_built equal (with_changed_rows c changedRows)) built"
    "list_all distinct_owners (map fst built)"
    "ch_units cat = js_sort catalogue_order
       (filter (\<lambda>u. \<not> holds_refused_table u (cs_headSchema c)) (structureUnits @ viewsUnits) @ sharedUnits @
        concat (map (\<lambda>b. ru_units (snd b)) built))"
    "ch_lookup cat = catalogue_lookup (ch_units cat) (ch_rows cat)" "jmap_ok (ch_rows cat)"
    by (rule catalogue_parts [OF assms]) simp
  have other: "addressable_unit u" if "keys_of_kind K us" "u \<in> set us" "K \<inter> row_kinds = {}" for K us u
    using that by (auto simp: keys_of_kind_def addressable_unit_def row_kinds_def)
  have "addressable_unit u" if "u \<in> set (ch_units cat)" for u
  proof -
    from that consider "u \<in> set structureUnits" | "u \<in> set viewsUnits" | "u \<in> set sharedUnits"
      | b where "b \<in> set built" "u \<in> set (ru_units (snd b))"
      unfolding parts(6) by auto
    then show ?thesis
      by cases (use other [OF parts(1)] other [OF parts(2)] other [OF parts(3)] parts(4,5)
        in \<open>auto simp: row_kinds_def list_all_iff intro: row_units_addressable\<close>)
  qed
  with catalogue_keys(1) [OF assms] parts(7,8) mentioned_units_exist [OF assms] show ?thesis
    unfolding sound_catalogue_def by blast
qed

lemma sound_units_of_row:
  assumes "sound_catalogue cat"
  shows "\<exists>us. units_of_row (ch_lookup cat) a = Inr us \<and> distinct us \<and>
    set us = {u \<in> set (ch_units cat). cu_kind (ca_unit u) \<noteq> StructureUnit \<and>
      (\<exists>row. row_on (ch_lookup cat) a = Some row \<and> ca_key u \<in> set (row_unit_keys row))}"
proof -
  from assms have lookup: "ch_lookup cat = catalogue_lookup (ch_units cat) (ch_rows cat)"
    and "jmap_ok (ch_rows cat)" by (simp_all add: sound_catalogue_def)
  then have "\<exists>rows. map_of (ch_rows cat) (tp_identity (ar_table a)) = Some rows \<and> row \<in> set rows"
    if "row_on (ch_lookup cat) a = Some row" for row
    using that unfolding lookup by (intro row_on_lookup)
  with assms show ?thesis
    unfolding lookup sound_catalogue_def by (intro units_of_row_lookup) blast+
qed

text \<open>A table in both revisions has been analysed.\<close>

lemma compared_pair_has_structure:
  assumes "read_compared_snapshot tk ids equal deq snapshot wholeDraft = Inr c"
    "pair \<in> set (sn_tables snapshot)" "tp_head pair \<noteq> None" "tp_draft pair \<noteq> None"
  shows "\<exists>structure. structure_of (catalogue_tables snapshot (cs_tables c)) pair = Inr structure"
proof -
  note c = compared_pairs [OF assms(1)]
  have "pair \<in> set (filter is_on_both_sides (sn_tables snapshot))"
    using assms(2-4) by (simp add: is_on_both_sides_def)
  then have "tp_identity pair \<in> set (map co_identity (cs_tables c))"
    unfolding map_identities_compared [OF c(2), symmetric] by simp
  then have "map_of (cb_structures (catalogue_tables snapshot (cs_tables c))) (tp_identity pair) \<noteq> None"
    by (auto simp: catalogue_tables_def map_of_jmap_of map_of_eq_None_iff image_image comp_def)
  then show ?thesis by (auto simp: structure_of_def)
qed

subsection \<open>Properties\<close>

text \<open>The table \<open>users\<close> renamed to \<open>people\<close>, with one row edited by hand and one created.\<close>

definition example_changed_rows :: "(string, row_pair list) jmap" where
  "example_changed_rows =
     [(''t1'',
       [\<lparr>rp_identity = ''1'', rp_head = Some (example_row ''a'' (JObj [])),
         rp_draft = Some ((example_row ''a'' (JObj []))\<lparr>row_publishedAt := 1, row_schemaHash := ''n''\<rparr>)\<rparr>,
        \<lparr>rp_identity = ''2'', rp_head = None, rp_draft = Some (example_row ''b'' (JObj []))\<rparr>])]"

definition example_renaming :: changes_snapshot where
  "example_renaming = example_snapshot\<lparr>sn_tables := [hd example_table_pairs]\<rparr>"

definition example_compared :: compared_snapshot where
  "example_compared =
     (let rename = \<lparr>le_row = example_migration_row ''b'' (RenameMigration 1 ''2'' ''users'' ''people''),
            le_migration = RenameMigration 1 ''2'' ''users'' ''people''\<rparr>;
          opening = InitMigration 0 ''1'' ''users'' ''h'' (JObj [])
      in \<lparr>cs_snapshot = example_renaming,
          cs_ledger = \<lparr>la_published = [\<lparr>le_row = example_migration_row ''a'' opening, le_migration = opening\<rparr>],
            la_pending = [rename],
            la_tables = [(''t1'', \<lparr>th_tableIds = [''users'', ''people''], th_entries = [rename]\<rparr>)],
            la_transientGroups = [], la_unattributable = []\<rparr>,
          cs_headSchema = \<lparr>hs_refusedTables = [], hs_refusedTablesByIdentity = [],
            hs_replayedHeadSchemas = [(''t1'', JObj [])]\<rparr>,
          cs_tables = [\<lparr>co_identity = ''t1'', co_headVersionId = ''v-users'', co_draftVersionId = ''v-people'',
            co_structure = \<lparr>st_pendingHistory = ExtendsHead [], st_recorded = True, st_differs = True,
              st_unchangedLeaves = [\<lparr>leaf_pointer = [], leaf_kind = ValueLeaf, leaf_schema = JObj []\<rparr>],
              st_changedPointers = [], st_changedLeaves = [], st_publishedAtOwner = RowColumnsOwner\<rparr>\<rparr>]\<rparr>)"

lemma example_compared_read:
  "read_compared_snapshot root_toolkit example_ids (=) (=) example_renaming False = Inr example_compared"
  "sound_pairs (sn_tables example_renaming)"
  by code_simp+

lemma row_units_total:
  "\<not> list_ex (\<lambda>p. rp_head p = None \<and> rp_draft p = None) (ct_pairs t) \<Longrightarrow> \<exists>r. build_row_units equal t = Inr r"
  using catalogue_rows_error [of equal "row_units_builder t" "ct_pairs t" "[]"]
  by (cases "catalogue_rows equal (row_units_builder t) (ct_pairs t) []")
    (auto simp: build_row_units_def list_ex_iff)

lemma example_catalogue_of_rows:
  assumes "build_row_units_of_changed_tables (=) (with_changed_rows example_compared changedRows) = Inr r"
  shows "\<exists>cat. build_change_catalogue root_toolkit (=) (=) (with_changed_rows example_compared changedRows) = Inr cat"
proof -
  let ?tables = "catalogue_tables example_renaming (cs_tables example_compared)"
  have snapshot: "cs_snapshot example_compared = example_renaming" by code_simp
  have part1: "\<not> isl (build_structure_units ?tables (cs_ledger example_compared))"
    by code_simp
  have part2: "\<not> isl (build_views_units root_toolkit (=) ?tables)"
    by code_simp
  have part3: "\<not> isl (build_shared_schema_units (=) (sy_sharedSchemas (sn_systemRows example_renaming)))"
    by code_simp
  have part4: "\<not> isl (ledger_inconsistencies_of ?tables (cs_ledger example_compared))"
    by code_simp
  obtain su vu sh li where "build_structure_units ?tables (cs_ledger example_compared) = Inr su"
    "build_views_units root_toolkit (=) ?tables = Inr vu"
    "build_shared_schema_units (=) (sy_sharedSchemas (sn_systemRows example_renaming)) = Inr sh"
    "ledger_inconsistencies_of ?tables (cs_ledger example_compared) = Inr li"
    using not_isl_case [OF part1] not_isl_case [OF part2] not_isl_case [OF part3] not_isl_case [OF part4] by blast
  with assms show ?thesis by (cases r) (auto simp: build_change_catalogue_def Let_def snapshot)
qed

lemma example_catalogue_built:
  "\<exists>cat. build_change_catalogue root_toolkit (=) (=) (with_changed_rows example_compared example_changed_rows) = Inr cat"
proof -
  let ?source = "with_changed_rows example_compared example_changed_rows"
  have t: "tables_not_refused ?source = cs_tables example_compared"
    "draft_table_ids_of example_renaming = [(''t1'', ''people'')]"
    "map co_identity (cs_tables example_compared) = [''t1'']" "cs_snapshot example_compared = example_renaming"
    by code_simp+
  then obtain only where only: "cs_tables example_compared = [only]" "co_identity only = ''t1''" by auto
  obtain pairs where pairs: "map_of example_changed_rows ''t1'' = Some pairs"
    "\<not> list_ex (\<lambda>p. rp_head p = None \<and> rp_draft p = None) pairs"
    by (simp add: example_changed_rows_def)
  from row_units_total [of "\<lparr>ct_identity = ''t1'', ct_tableId = ''people'', ct_structure = co_structure only,
      ct_pairs = pairs\<rparr>" "(=)"] pairs(2)
  have "\<exists>r. build_row_units_of_changed_tables (=) ?source = Inr r"
    by (auto simp: build_row_units_of_changed_tables_def t only add_row_units_of_table_def pairs(1)
        draft_table_id_of_def)
  then show ?thesis using example_catalogue_of_rows by blast
qed

text \<open>
  Claim C34: the catalogue of a comparison lists its units under different keys and in one strict order,
  whatever order tables and rows are read in: structure, views, shared schema and row units never
  share a key, and looking a key up gives the unit it was listed with.
\<close>

theorem catalogue_lists_units_once_in_order:
  assumes "read_compared_snapshot tk ids equal deq snapshot wholeDraft = Inr c" "sound_pairs (sn_tables snapshot)"
    "build_change_catalogue tk equal vequal (with_changed_rows c changedRows) = Inr cat"
  shows "distinct (map ca_key (ch_units cat)) \<and>
    sorted_wrt (\<lambda>u v. compare_units (ca_key u, ca_unit u) (ca_key v, ca_unit v) < 0) (ch_units cat) \<and>
    list_all (\<lambda>u. unit_of_key (ch_lookup cat) (ca_key u) = Inr u) (ch_units cat)"
proof -
  note keys = catalogue_keys [OF assms]
  have "ch_lookup cat = catalogue_lookup (ch_units cat) (ch_rows cat)"
    by (rule catalogue_parts [OF assms]) blast
  with keys show ?thesis
    by (simp add: list_all_iff catalogue_order_def unit_of_key_lookup)
qed

theorem catalogue_lists_units_once_in_order_witness:
  "\<exists>cat. build_change_catalogue root_toolkit (=) (=) (with_changed_rows example_compared example_changed_rows) = Inr cat \<and>
     distinct (map ca_key (ch_units cat))"
  using example_catalogue_built
    catalogue_lists_units_once_in_order [OF example_compared_read, of "(=)" example_changed_rows] by blast

text \<open>
  Claim C35: asking the catalogue for the units of a row never fails, and the answer is every unit that
  the changes of the row were given to, apart from the structure unit of its table, each once: a row
  only mentions units that the catalogue lists, the structure unit included.
\<close>

theorem units_of_row_are_the_mentioned:
  assumes "read_compared_snapshot tk ids equal deq snapshot wholeDraft = Inr c" "sound_pairs (sn_tables snapshot)"
    "build_change_catalogue tk equal vequal (with_changed_rows c changedRows) = Inr cat"
  shows "\<exists>us. units_of_row (ch_lookup cat) a = Inr us \<and> distinct us \<and>
    set us = {u \<in> set (ch_units cat). cu_kind (ca_unit u) \<noteq> StructureUnit \<and>
      (\<exists>row. row_on (ch_lookup cat) a = Some row \<and> ca_key u \<in> set (row_unit_keys row))}"
  by (rule sound_units_of_row [OF built_catalogue_sound [OF assms]])

theorem units_of_row_are_the_mentioned_witness:
  "\<exists>cat us. build_change_catalogue root_toolkit (=) (=) (with_changed_rows example_compared example_changed_rows) = Inr cat \<and>
     units_of_row (ch_lookup cat) \<lparr>ar_table = hd example_table_pairs, ar_rowId = ''a'', ar_side = DraftSide\<rparr> = Inr us"
  using example_catalogue_built
    units_of_row_are_the_mentioned [OF example_compared_read, of "(=)" example_changed_rows] by blast

end
