(* ===== verification/Selections.thy ===== *)
theory Selections
  imports Units
begin

section \<open>Selections\<close>

text \<open>
  \<^verbatim>\<open>partial-changes/selection/selection.ts\<close>. A field a selection leaves out is \<open>None\<close>, so that a selection
  of the whole Draft, which has no field but \<open>all\<close>, can be told from one with empty lists.
\<close>

datatype table_ref = TableNamed string | TableAt string "head_qualifier option"

record row_ref =
  wf_tableId :: string
  wf_rowId :: string
  wf_side :: "head_qualifier option"

record field_ref =
  fr_tableId :: string
  fr_rowId :: string
  fr_path :: string

record selection_items =
  it_tables :: "table_ref list option"
  it_tableData :: "string list option"
  it_views :: "string list option"
  it_sharedSchemas :: "string list option"
  it_rows :: "row_ref list option"
  it_renames :: "row_ref list option"
  it_rowColumns :: "row_ref list option"
  it_fields :: "field_ref list option"

record selection = selection_items +
  se_all :: "bool option"
  se_exclude :: "selection_items option"

datatype item_kind =
  TablesItem | TableDataItem | ViewsItem | SharedSchemasItem | RowsItem | RenamesItem | RowColumnsItem |
  FieldsItem

datatype item_selector =
  TableRefSelector table_ref | IdSelector string | RowRefSelector row_ref | FieldRefSelector field_ref

fun table_ref_of :: "table_ref \<Rightarrow> string \<times> head_qualifier option" where
  "table_ref_of (TableNamed tableId) = (tableId, None)"
| "table_ref_of (TableAt tableId side) = (tableId, side)"

text \<open>\<open>selection.items ?? []\<close>\<close>

definition listed :: "'a list option \<Rightarrow> 'a list" where
  "listed items = (case items of None \<Rightarrow> [] | Some xs \<Rightarrow> xs)"

lemma listed_simps [simp]: "listed None = []" "listed (Some xs) = xs"
  by (simp_all add: listed_def)

definition no_items :: selection_items where
  "no_items =
     \<lparr>it_tables = None, it_tableData = None, it_views = None, it_sharedSchemas = None, it_rows = None,
      it_renames = None, it_rowColumns = None, it_fields = None\<rparr>"

definition excluded_items :: "selection \<Rightarrow> selection_items" where
  "excluded_items selection = (case se_exclude selection of None \<Rightarrow> no_items | Some items \<Rightarrow> items)"

definition selects_all :: "selection \<Rightarrow> bool" where
  "selects_all selection \<longleftrightarrow> se_all selection = Some True"

definition is_whole_draft_selection :: "selection \<Rightarrow> bool" where
  "is_whole_draft_selection selection \<longleftrightarrow>
     se_all selection = Some True \<and>
     it_tables selection = None \<and> it_tableData selection = None \<and> it_views selection = None \<and>
     it_sharedSchemas selection = None \<and> it_rows selection = None \<and> it_renames selection = None \<and>
     it_rowColumns selection = None \<and> it_fields selection = None \<and> se_exclude selection = None"

definition selection_of_items :: "selection_items \<Rightarrow> selection" where
  "selection_of_items items = selection_items.extend items (selection.fields None None)"

lemma selection_of_items_simps [simp]:
  "selection_items.truncate (selection_of_items items) = items"
  "se_all (selection_of_items items) = None" "se_exclude (selection_of_items items) = None"
  by (simp_all add: selection_of_items_def selection_items.defs selection.defs)

end
