(* ===== verification/Table_Connections.thy ===== *)
theory Table_Connections
  imports Rev_Prelude
begin

section \<open>Tables connected by ids and references\<close>

text \<open>
  \<^verbatim>\<open>partial-changes/scope/table-connections.ts\<close>: the class \<open>TableConnections\<close> links the ids a table
  has and the ids it references, and searches the tables connected to a list of ids. The set of links
  of an id is a list in insertion order. The search pops the last of the array \<open>pending\<close>.
\<close>

record connected_table =
  cn_identity :: "string option"
  cn_tableIds :: "string list"
  cn_referencedTableIds :: "string list"

record table_connections =
  tc_identitiesByTableId :: "(string, string list) jmap"
  tc_links :: "(string, string list) jmap"

definition listed_at :: "(string, string list) jmap \<Rightarrow> string \<Rightarrow> string list" where
  "listed_at m tableId = (case map_of m tableId of None \<Rightarrow> [] | Some is \<Rightarrow> is)"

lemma listed_at_other: "tableId \<notin> set (jkeys m) \<Longrightarrow> listed_at m tableId = []"
  using map_of_eq_None_iff [of m tableId] by (simp add: listed_at_def)

lemma listed_at_update: "listed_at (AList.update k is m) a = (if a = k then is else listed_at m a)"
  by (simp add: listed_at_def jmap_simps)

definition identities_named :: "table_connections \<Rightarrow> string \<Rightarrow> string list" where
  "identities_named c tableId = listed_at (tc_identitiesByTableId c) tableId"

definition name_table :: "string \<Rightarrow> string list \<Rightarrow> table_connections \<Rightarrow> table_connections" where
  "name_table identity tableIds c =
     fold (\<lambda>tableId c. c\<lparr>tc_identitiesByTableId :=
         AList.update tableId (identities_named c tableId @ [identity]) (tc_identitiesByTableId c)\<rparr>)
       (uniq tableIds) c"

definition add_link :: "string \<Rightarrow> string \<Rightarrow> table_connections \<Rightarrow> table_connections" where
  "add_link source target c =
     (case map_of (tc_links c) source of
        Some links \<Rightarrow>
          c\<lparr>tc_links := AList.update source (if target \<in> set links then links else links @ [target]) (tc_links c)\<rparr>
      | None \<Rightarrow> c\<lparr>tc_links := AList.update source [target] (tc_links c)\<rparr>)"

definition link_ids :: "string list \<Rightarrow> table_connections \<Rightarrow> table_connections" where
  "link_ids tableIds c =
     (case tableIds of
        [] \<Rightarrow> c
      | first # others \<Rightarrow> fold (\<lambda>other c. add_link other first (add_link first other c)) others c)"

definition add_connected_table :: "connected_table \<Rightarrow> table_connections \<Rightarrow> table_connections" where
  "add_connected_table t c =
     link_ids (cn_tableIds t @ cn_referencedTableIds t)
       (case cn_identity t of None \<Rightarrow> c | Some identity \<Rightarrow> name_table identity (cn_tableIds t) c)"

definition table_connections :: "connected_table list \<Rightarrow> table_connections" where
  "table_connections tables =
     fold add_connected_table tables \<lparr>tc_identitiesByTableId = [], tc_links = []\<rparr>"

text \<open>
  The search ends: an id that has links is visited once, and an id without links only shortens the
  stack.
\<close>

lemma same_left: "x \<notin> A \<Longrightarrow> A - set (visited @ [x]) = A - set visited"
  by auto

lemma fewer: "x \<in> A \<Longrightarrow> x \<notin> set visited \<Longrightarrow> A - set (visited @ [x]) \<subset> A - set visited"
  by auto

function search_connected :: "(string, string list) jmap \<Rightarrow> string list \<Rightarrow> string list \<Rightarrow> string list" where
  "search_connected links pending visited =
     (if pending = [] then visited
      else let tableId = last pending; rest = butlast pending
           in if tableId \<notin> set visited
              then search_connected links (rest @ listed_at links tableId) (visited @ [tableId])
              else search_connected links rest visited)"
  by pat_completeness auto

termination
proof (relation "inv_image (less_than <*lex*> less_than)
    (\<lambda>(links, pending, visited). (card (set (jkeys links) - set visited), length pending))", goal_cases)
  case (2 links pending visited tableId rest)
  show ?case
  proof (cases "tableId \<in> set (jkeys links)")
    case True
    then have "set (jkeys links) - set (visited @ [tableId]) \<subset> set (jkeys links) - set visited"
      by (rule fewer) (rule 2(4))
    then have "card (set (jkeys links) - set (visited @ [tableId])) < card (set (jkeys links) - set visited)"
      by (rule psubset_card_mono [OF finite_Diff [OF finite_set]])
    then show ?thesis by simp
  next
    case False
    then have "listed_at links tableId = []" by (rule listed_at_other)
    moreover have "set (jkeys links) - set (visited @ [tableId]) = set (jkeys links) - set visited"
      by (rule same_left) (rule False)
    ultimately show ?thesis using 2(1,3) by simp
  qed
qed auto

declare search_connected.simps [simp del]

lemma search_connected_steps:
  "search_connected links [] visited = visited"
  "pending \<noteq> [] \<Longrightarrow> last pending \<in> set visited \<Longrightarrow>
     search_connected links pending visited = search_connected links (butlast pending) visited"
  "pending \<noteq> [] \<Longrightarrow> last pending \<notin> set visited \<Longrightarrow>
     search_connected links pending visited =
     search_connected links (butlast pending @ listed_at links (last pending)) (visited @ [last pending])"
  by (simp_all add: search_connected.simps [of links pending] search_connected.simps [of links "[]"] Let_def)

definition connected_to :: "table_connections \<Rightarrow> string list \<Rightarrow> string list" where
  "connected_to c tableIds =
     uniq (concat (map (identities_named c) (search_connected (tc_links c) tableIds [])))"

subsection \<open>The search finds what links reach\<close>

definition links_to :: "(string, string list) jmap \<Rightarrow> string \<Rightarrow> string \<Rightarrow> bool" where
  "links_to links a b \<longleftrightarrow> b \<in> set (listed_at links a)"

lemma last_or_butlast: "pending \<noteq> [] \<Longrightarrow> set pending = insert (last pending) (set (butlast pending))"
  by (metis append_butlast_last_id list.simps(15) rotate1.simps(2) set_rotate1)

lemma search_sound:
  "x \<in> set (search_connected links pending visited) \<Longrightarrow>
     x \<in> set visited \<or> (\<exists>p \<in> set pending. (links_to links)\<^sup>*\<^sup>* p x)"
proof (induction links pending visited rule: search_connected.induct)
  case (1 links pending visited)
  show ?case
  proof (cases "pending = []")
    case True
    with 1(3) show ?thesis by (simp add: search_connected.simps)
  next
    case False
    note split = last_or_butlast [OF False]
    show ?thesis
    proof (cases "last pending \<in> set visited")
      case True
      with 1(3) have "x \<in> set (search_connected links (butlast pending) visited)"
        by (simp add: search_connected_steps(2) [OF False])
      from 1(2) [OF False refl refl _ this] True split show ?thesis by auto
    next
      case new: False
      then have "x \<in> set (search_connected links (butlast pending @ listed_at links (last pending)) (visited @ [last pending]))"
        using 1(3) by (simp add: search_connected_steps(3) [OF False])
      from 1(1) [OF False refl refl new this] consider "x \<in> set visited" | "x = last pending"
        | p where "p \<in> set (butlast pending)" "(links_to links)\<^sup>*\<^sup>* p x"
        | p where "links_to links (last pending) p" "(links_to links)\<^sup>*\<^sup>* p x"
        by (auto simp: links_to_def [of links "last pending"])
      then show ?thesis
        by cases (use split in \<open>auto intro: converse_rtranclp_into_rtranclp\<close>)
    qed
  qed
qed

lemma search_complete:
  "\<forall>a \<in> set visited. \<forall>b. links_to links a b \<longrightarrow> b \<in> set visited \<union> set pending \<Longrightarrow>
     set visited \<union> set pending \<subseteq> set (search_connected links pending visited) \<and>
     (\<forall>a \<in> set (search_connected links pending visited). \<forall>b. links_to links a b \<longrightarrow>
        b \<in> set (search_connected links pending visited))"
proof (induction links pending visited rule: search_connected.induct)
  case (1 links pending visited)
  show ?case
  proof (cases "pending = []")
    case True
    with 1(3) show ?thesis by (simp add: search_connected.simps)
  next
    case False
    note split = last_or_butlast [OF False]
    show ?thesis
    proof (cases "last pending \<in> set visited")
      case True
      note same = search_connected_steps(2) [OF False True]
      have "\<forall>a \<in> set visited. \<forall>b. links_to links a b \<longrightarrow> b \<in> set visited \<union> set (butlast pending)"
        using 1(3) True split by auto
      from 1(2) [OF False refl refl _ this] True show ?thesis unfolding same split by auto
    next
      case new: False
      note same = search_connected_steps(3) [OF False new]
      have "\<forall>a \<in> set (visited @ [last pending]). \<forall>b. links_to links a b \<longrightarrow>
          b \<in> set (visited @ [last pending]) \<union> set (butlast pending @ listed_at links (last pending))"
        using 1(3) split by (auto simp: links_to_def)
      from 1(1) [OF False refl refl new this] show ?thesis unfolding same split by auto
    qed
  qed
qed

lemma search_reaches:
  "set (search_connected links pending []) = {x. \<exists>p \<in> set pending. (links_to links)\<^sup>*\<^sup>* p x}"
proof
  show "set (search_connected links pending []) \<subseteq> {x. \<exists>p \<in> set pending. (links_to links)\<^sup>*\<^sup>* p x}"
    using search_sound [of _ links pending "[]"] by auto
  have closed: "set pending \<subseteq> set (search_connected links pending [])"
    "\<And>a b. a \<in> set (search_connected links pending []) \<Longrightarrow> links_to links a b \<Longrightarrow>
       b \<in> set (search_connected links pending [])"
    using search_complete [of "[]" links pending] by simp_all
  have "(links_to links)\<^sup>*\<^sup>* p x \<Longrightarrow> p \<in> set pending \<Longrightarrow> x \<in> set (search_connected links pending [])" for p x
    by (induction rule: rtranclp_induct) (use closed in blast)+
  then show "{x. \<exists>p \<in> set pending. (links_to links)\<^sup>*\<^sup>* p x} \<subseteq> set (search_connected links pending [])"
    by auto
qed

subsection \<open>Links are shared tables\<close>

definition all_ids :: "connected_table \<Rightarrow> string list" where
  "all_ids t = cn_tableIds t @ cn_referencedTableIds t"

definition share_a_table :: "connected_table list \<Rightarrow> string \<Rightarrow> string \<Rightarrow> bool" where
  "share_a_table tables a b \<longleftrightarrow> (\<exists>t \<in> set tables. a \<in> set (all_ids t) \<and> b \<in> set (all_ids t))"

lemma add_link_links:
  "set (listed_at (tc_links (add_link source target c)) a) =
     set (listed_at (tc_links c) a) \<union> (if a = source then {target} else {})"
  by (cases "map_of (tc_links c) source")
    (auto simp: add_link_def listed_at_update listed_at_def [of "tc_links c" source])

lemma add_link_identities [simp]:
  "tc_identitiesByTableId (add_link source target c) = tc_identitiesByTableId c"
  by (simp add: add_link_def split: option.splits)

lemma link_ids_identities [simp]: "tc_identitiesByTableId (link_ids tableIds c) = tc_identitiesByTableId c"
proof -
  have "tc_identitiesByTableId (fold (\<lambda>other c. add_link other first (add_link first other c)) others c) =
      tc_identitiesByTableId c" for first others c
    by (induction others arbitrary: c) auto
  then show ?thesis by (simp add: link_ids_def split: list.splits)
qed

lemma link_ids_links:
  "links_to (tc_links (link_ids tableIds c)) a b \<longleftrightarrow> links_to (tc_links c) a b \<or>
     (tableIds \<noteq> [] \<and> (a = hd tableIds \<and> b \<in> set (tl tableIds) \<or> b = hd tableIds \<and> a \<in> set (tl tableIds)))"
proof -
  have "links_to (tc_links (fold (\<lambda>other c. add_link other first (add_link first other c)) others c)) a b \<longleftrightarrow>
      links_to (tc_links c) a b \<or> (a = first \<and> b \<in> set others \<or> b = first \<and> a \<in> set others)" for first others c
    by (induction others arbitrary: c) (auto simp: links_to_def add_link_links)
  then show ?thesis by (cases tableIds) (simp_all add: link_ids_def)
qed

lemma name_table_facts:
  "tc_links (name_table identity tableIds c) = tc_links c"
  "set (identities_named (name_table identity tableIds c) tableId) =
     set (identities_named c tableId) \<union> (if tableId \<in> set tableIds then {identity} else {})"
proof -
  let ?step = "\<lambda>tableId c. c\<lparr>tc_identitiesByTableId :=
         AList.update tableId (identities_named c tableId @ [identity]) (tc_identitiesByTableId c)\<rparr>"
  have "tc_links (fold ?step ids c) = tc_links c" for ids c
    by (induction ids arbitrary: c) auto
  then show "tc_links (name_table identity tableIds c) = tc_links c" by (simp add: name_table_def)
  have "set (identities_named (fold ?step ids c) tableId) =
     set (identities_named c tableId) \<union> (if tableId \<in> set ids then {identity} else {})" for ids c
    by (induction ids arbitrary: c) (auto simp: identities_named_def listed_at_update)
  then show "set (identities_named (name_table identity tableIds c) tableId) =
     set (identities_named c tableId) \<union> (if tableId \<in> set tableIds then {identity} else {})"
    by (simp add: name_table_def)
qed

lemma table_connections_facts:
  "links_to (tc_links (table_connections tables)) a b \<longleftrightarrow>
     (\<exists>t \<in> set tables. all_ids t \<noteq> [] \<and>
        (a = hd (all_ids t) \<and> b \<in> set (tl (all_ids t)) \<or> b = hd (all_ids t) \<and> a \<in> set (tl (all_ids t))))"
  "set (identities_named (table_connections tables) tableId) =
     {identity. \<exists>t \<in> set tables. cn_identity t = Some identity \<and> tableId \<in> set (cn_tableIds t)}"
proof -
  show "links_to (tc_links (table_connections tables)) a b \<longleftrightarrow>
     (\<exists>t \<in> set tables. all_ids t \<noteq> [] \<and>
        (a = hd (all_ids t) \<and> b \<in> set (tl (all_ids t)) \<or> b = hd (all_ids t) \<and> a \<in> set (tl (all_ids t))))"
  proof (induction tables rule: rev_induct)
    case (snoc t tables)
    then show ?case
      by (auto simp: table_connections_def add_connected_table_def link_ids_links name_table_facts
          all_ids_def split: option.splits)
  qed (simp add: table_connections_def links_to_def listed_at_def)
  show "set (identities_named (table_connections tables) tableId) =
     {identity. \<exists>t \<in> set tables. cn_identity t = Some identity \<and> tableId \<in> set (cn_tableIds t)}"
  proof (induction tables rule: rev_induct)
    case (snoc t tables)
    have "identities_named (link_ids ids c) tableId = identities_named c tableId" for ids c
      by (simp add: identities_named_def)
    with snoc show ?case
      by (auto simp: table_connections_def add_connected_table_def name_table_facts split: option.splits)
  qed (simp add: table_connections_def identities_named_def listed_at_def)
qed

lemma linked_is_shared: "(links_to (tc_links (table_connections tables)))\<^sup>*\<^sup>* = (share_a_table tables)\<^sup>*\<^sup>*"
proof (rule rtranclp_subset [symmetric])
  let ?l = "links_to (tc_links (table_connections tables))"
  have mem: "hd xs \<in> set xs \<and> set (tl xs) \<subseteq> set xs" if "xs \<noteq> []" for xs :: "string list"
    using that by (cases xs) auto
  show "?l \<le> share_a_table tables"
  proof (intro predicate2I)
    fix a b
    assume "?l a b"
    then obtain t where "t \<in> set tables" "all_ids t \<noteq> []"
      "a = hd (all_ids t) \<and> b \<in> set (tl (all_ids t)) \<or> b = hd (all_ids t) \<and> a \<in> set (tl (all_ids t))"
      unfolding table_connections_facts(1) by blast
    with mem [of "all_ids t"] have "t \<in> set tables \<and> a \<in> set (all_ids t) \<and> b \<in> set (all_ids t)" by blast
    then show "share_a_table tables a b" unfolding share_a_table_def by blast
  qed
  show "share_a_table tables \<le> ?l\<^sup>*\<^sup>*"
  proof (intro predicate2I)
    fix a b
    assume "share_a_table tables a b"
    then obtain t where t: "t \<in> set tables" "a \<in> set (all_ids t)" "b \<in> set (all_ids t)"
      by (auto simp: share_a_table_def)
    then obtain first others where ids: "all_ids t = first # others" by (cases "all_ids t") auto
    have star: "x = first \<or> ?l x first \<and> ?l first x" if "x \<in> set (all_ids t)" for x
      unfolding table_connections_facts(1) using that t(1) by (force simp: ids intro!: bexI [of _ t])
    have "?l\<^sup>*\<^sup>* a first" "?l\<^sup>*\<^sup>* first b" using star [OF t(2)] star [OF t(3)] by auto
    then show "?l\<^sup>*\<^sup>* a b" by (rule rtranclp_trans)
  qed
qed

lemma connected_to_shared:
  "set (connected_to (table_connections tables) tableIds) =
     {identity. \<exists>t \<in> set tables. cn_identity t = Some identity \<and>
        (\<exists>tableId \<in> set (cn_tableIds t). \<exists>start \<in> set tableIds. (share_a_table tables)\<^sup>*\<^sup>* start tableId)}"
  by (auto simp: connected_to_def search_reaches linked_is_shared table_connections_facts(2))

subsection \<open>Properties\<close>

text \<open>
  Claim C36: the search ends for every list of ids, and the tables it finds are exactly those one of whose
  ids is joined to a given id by a chain of tables that each have or reference two neighbours of the
  chain, whatever order the tables are linked in.
\<close>

theorem connected_tables_are_joined_by_shared_ids:
  "distinct (connected_to (table_connections tables) tableIds) \<and>
   set (connected_to (table_connections tables) tableIds) =
     {identity. \<exists>t \<in> set tables. cn_identity t = Some identity \<and>
        (\<exists>tableId \<in> set (cn_tableIds t). \<exists>start \<in> set tableIds. (share_a_table tables)\<^sup>*\<^sup>* start tableId)}"
  unfolding connected_to_shared by (simp add: connected_to_def)

end
