(* ===== verification/Read_Scope.thy ===== *)
theory Read_Scope
  imports Change_Catalogue Selections Table_Connections
begin

section \<open>What a selection makes the service read\<close>

text \<open>
  \<^verbatim>\<open>partial-changes/scope/read-scope.ts\<close>: the tables a selection can affect are those connected to the
  tables it names. Reading foreign keys runs the schema toolkit, which may throw.
\<close>

record table_scope =
  sk_affectedTables :: "compared_table list"
  sk_unreadTables :: nat

fun schemas_named_by :: "migration \<Rightarrow> json list" where
  "schemas_named_by (InitMigration _ _ _ _ schema) = [schema]"
| "schemas_named_by (UpdateMigration _ _ _ _ patches) = patch_values patches"
| "schemas_named_by (RenameMigration _ _ _ _) = []"
| "schemas_named_by (RemoveMigration _ _ _) = []"

definition table_ids_named_in :: "'x selection_items_scheme \<Rightarrow> string list" where
  "table_ids_named_in items =
     map (\<lambda>selector. fst (table_ref_of selector)) (listed (it_tables items)) @
     listed (it_tableData items) @ listed (it_views items) @
     map wf_tableId (listed (it_rows items) @ listed (it_renames items) @ listed (it_rowColumns items)) @
     map fr_tableId (listed (it_fields items))"

definition table_ids_named_by :: "selection \<Rightarrow> string list" where
  "table_ids_named_by selection = table_ids_named_in selection @ table_ids_named_in (excluded_items selection)"

definition foreign_keys_of_all :: "'st toolkit \<Rightarrow> json list \<Rightarrow> string list outcome" where
  "foreign_keys_of_all tk schemas = try_bind (map_try (foreign_keys_of tk) schemas) (\<lambda>keys. Inr (concat keys))"

definition connected_history_of :: "'st toolkit \<Rightarrow> table_history \<Rightarrow> connected_table outcome" where
  "connected_history_of tk history =
     try_bind (foreign_keys_of_all tk (concat (map (\<lambda>e. schemas_named_by (le_migration e)) (th_entries history))))
       (\<lambda>keys. Inr \<lparr>cn_identity = None, cn_tableIds = th_tableIds history, cn_referencedTableIds = keys\<rparr>)"

definition connected_table_of ::
  "'st toolkit \<Rightarrow> table_pair \<Rightarrow> table_history \<Rightarrow> connected_table outcome" where
  "connected_table_of tk pair history =
     try_bind (connected_history_of tk history) (\<lambda>connected.
     try_bind (foreign_keys_of_all tk (map tv_schema (versions_of pair))) (\<lambda>keys.
       Inr \<lparr>cn_identity = Some (tp_identity pair),
            cn_tableIds = public_ids_of (table_pair_ids pair) @ cn_tableIds connected,
            cn_referencedTableIds = keys @ cn_referencedTableIds connected\<rparr>))"

definition connected_tables_of :: "'st toolkit \<Rightarrow> compared_snapshot \<Rightarrow> connected_table list outcome" where
  "connected_tables_of tk c =
     try_bind (map_try (\<lambda>pair. connected_table_of tk pair (pending_history_of (cs_ledger c) pair))
         (sn_tables (cs_snapshot c))) (\<lambda>tables.
     try_bind (map_try (connected_history_of tk) (la_transientGroups (cs_ledger c))) (\<lambda>transient.
       Inr (tables @ transient)))"

definition affected_tables_of :: "'st toolkit \<Rightarrow> selection \<Rightarrow> compared_snapshot \<Rightarrow> string list outcome" where
  "affected_tables_of tk selection c =
     (if selects_all selection then Inr (uniq (map tp_identity (sn_tables (cs_snapshot c))))
      else try_bind (connected_tables_of tk c) (\<lambda>tables.
        Inr (connected_to (table_connections tables) (table_ids_named_by selection))))"

definition scope_of :: "'st toolkit \<Rightarrow> selection \<Rightarrow> compared_snapshot \<Rightarrow> table_scope outcome" where
  "scope_of tk selection c =
     try_bind (affected_tables_of tk selection c) (\<lambda>affected.
       Inr \<lparr>sk_affectedTables = filter (\<lambda>t. co_identity t \<in> set affected) (cs_tables c),
            sk_unreadTables = length (filter (\<lambda>t. has_different_versions t \<and> co_identity t \<notin> set affected)
              (cs_tables c))\<rparr>)"

subsection \<open>Properties\<close>

lemma connected_tables_unique:
  assumes "connected_tables_of tk c = Inr tables" "distinct (map tp_identity (sn_tables (cs_snapshot c)))"
    "t \<in> set tables" "u \<in> set tables" "cn_identity t = Some identity" "cn_identity u = Some identity"
  shows "t = u"
proof -
  let ?history = "pending_history_of (cs_ledger c)"
  from assms(1) obtain named transient where parts: "tables = named @ transient"
    "map_try (\<lambda>pair. connected_table_of tk pair (?history pair)) (sn_tables (cs_snapshot c)) = Inr named"
    "map_try (connected_history_of tk) (la_transientGroups (cs_ledger c)) = Inr transient"
    by (auto simp: connected_tables_of_def)
  have anonymous: "cn_identity h = None" if "h \<in> set transient" for h
    using list_all2_second [OF parts(3) [unfolded map_try_Inr_iff] that] by (auto simp: connected_history_of_def)
  have "list_all2 (\<lambda>pair t. cn_identity t = Some (tp_identity pair)) (sn_tables (cs_snapshot c)) named"
    by (rule list_all2_mono [OF parts(2) [unfolded map_try_Inr_iff]]) (auto simp: connected_table_of_def)
  then have "map cn_identity named = map (\<lambda>pair. Some (tp_identity pair)) (sn_tables (cs_snapshot c))"
    by (induction rule: list_all2_induct) auto
  moreover have "distinct (map (\<lambda>pair. Some (tp_identity pair)) (sn_tables (cs_snapshot c)))"
    using assms(2) by (auto simp: distinct_map inj_on_def)
  ultimately have "distinct (map cn_identity named)" by simp
  moreover have "t \<in> set named" "u \<in> set named"
    using assms(3-6) anonymous by (auto simp: parts(1))
  ultimately show ?thesis using assms(5,6) by (metis distinct_map inj_onD)
qed

text \<open>Two compared tables that nothing connects.\<close>

definition example_scope_source :: compared_snapshot where
  "example_scope_source =
     (let version = (\<lambda>identity i. \<lparr>tv_versionId = ''v'' @ i, tv_createdId = identity, tv_id = i,
            tv_readonly = False, tv_schema = JObj [], tv_history = []\<rparr>);
          pair = (\<lambda>identity i. \<lparr>tp_identity = identity, tp_head = Some (version identity i),
            tp_draft = Some (version identity i)\<rparr>);
          table = (\<lambda>identity. \<lparr>co_identity = identity, co_headVersionId = ''h'', co_draftVersionId = identity,
            co_structure = example_structure\<rparr>)
      in \<lparr>cs_snapshot = example_renaming\<lparr>sn_tables := [pair ''1'' ''a'', pair ''2'' ''b'']\<rparr>,
          cs_ledger = \<lparr>la_published = [], la_pending = [], la_tables = [], la_transientGroups = [],
            la_unattributable = []\<rparr>,
          cs_headSchema = \<lparr>hs_refusedTables = [], hs_refusedTablesByIdentity = [], hs_replayedHeadSchemas = []\<rparr>,
          cs_tables = [table ''1'', table ''2'']\<rparr>)"

definition example_scope_selection :: selection where
  "example_scope_selection = selection_of_items (no_items\<lparr>it_tableData := Some [''a'']\<rparr>)"

text \<open>
  What a selection makes the service read is closed: unless everything is selected, a table
  that is compared but not read has no table id in common with a table that is read, neither by its
  own ids in either revision or in its pending migrations nor by the ids its schemas refer to, so no
  change of the tables read can reach it.
\<close>

theorem unread_tables_are_unconnected:
  assumes "scope_of tk selection c = Inr scope" "\<not> selects_all selection"
    "connected_tables_of tk c = Inr tables"
    "t \<in> set tables" "cn_identity t = Some (co_identity a)" "a \<in> set (sk_affectedTables scope)"
    "u \<in> set tables" "cn_identity u = Some (co_identity b)" "b \<in> set (cs_tables c)"
    "b \<notin> set (sk_affectedTables scope)" "cn_tableIds u \<noteq> []"
    "distinct (map tp_identity (sn_tables (cs_snapshot c)))"
  shows "set (all_ids t) \<inter> set (all_ids u) = {}"
proof (rule ccontr)
  assume "set (all_ids t) \<inter> set (all_ids u) \<noteq> {}"
  then obtain x where x: "x \<in> set (all_ids t)" "x \<in> set (all_ids u)" by blast
  let ?reach = "(share_a_table tables)\<^sup>*\<^sup>*" and ?starts = "table_ids_named_by selection"
  let ?affected = "connected_to (table_connections tables) ?starts"
  have affected: "set ?affected = {identity. \<exists>t \<in> set tables. cn_identity t = Some identity \<and>
        (\<exists>tableId \<in> set (cn_tableIds t). \<exists>start \<in> set ?starts. ?reach start tableId)}"
    by (rule connected_to_shared)
  from assms(1-3) have scope: "sk_affectedTables scope = filter (\<lambda>t. co_identity t \<in> set ?affected) (cs_tables c)"
    by (auto simp: scope_of_def affected_tables_of_def)
  from assms(6) have "co_identity a \<in> set ?affected" by (simp add: scope)
  then obtain t' tableId start where t': "t' \<in> set tables" "cn_identity t' = Some (co_identity a)"
    "tableId \<in> set (cn_tableIds t')" "start \<in> set ?starts" "?reach start tableId"
    unfolding affected by blast
  have "t' = t" by (rule connected_tables_unique [OF assms(3,12) t'(1) assms(4) t'(2) assms(5)])
  have link: "share_a_table tables y z" if "v \<in> set tables" "y \<in> set (all_ids v)" "z \<in> set (all_ids v)" for v y z
    using that by (auto simp: share_a_table_def)
  have own: "set (cn_tableIds v) \<subseteq> set (all_ids v)" for v by (simp add: all_ids_def)
  obtain y where y: "y \<in> set (cn_tableIds u)" using assms(11) by (cases "cn_tableIds u") auto
  have "share_a_table tables tableId x"
    using link [OF assms(4) _ x(1)] t'(3) own [of t] unfolding \<open>t' = t\<close> by blast
  moreover have "share_a_table tables x y" using link [OF assms(7) x(2)] y own [of u] by blast
  ultimately have "?reach start y"
    using t'(5) by (meson rtranclp.rtrancl_into_rtrancl)
  then have "co_identity b \<in> set ?affected"
    unfolding affected using assms(7,8) y t'(4) by blast
  with assms(9,10) show False by (simp add: scope)
qed

theorem unread_tables_are_unconnected_witness:
  "\<exists>tables t u. connected_tables_of root_toolkit example_scope_source = Inr tables \<and> tables = [t, u] \<and>
     set (all_ids t) \<inter> set (all_ids u) = {} \<and> all_ids t = [''a'', ''a'']"
proof -
  let ?t = "\<lambda>i tableId. \<lparr>cn_identity = Some i, cn_tableIds = [tableId, tableId], cn_referencedTableIds = []\<rparr>"
  have tables: "connected_tables_of root_toolkit example_scope_source = Inr [?t ''1'' ''a'', ?t ''2'' ''b'']"
    by code_simp
  have scope: "affected_tables_of root_toolkit example_scope_selection example_scope_source = Inr [''1'']"
    "\<not> selects_all example_scope_selection"
    "map co_identity (cs_tables example_scope_source) = [''1'', ''2'']"
    "distinct (map tp_identity (sn_tables (cs_snapshot example_scope_source)))"
    by code_simp+
  from scope(3) obtain a b where ab: "cs_tables example_scope_source = [a, b]" "co_identity a = ''1''" "co_identity b = ''2''"
    by auto
  obtain scope where run: "scope_of root_toolkit example_scope_selection example_scope_source = Inr scope"
    "sk_affectedTables scope = [a]"
    using scope(1) ab by (simp add: scope_of_def)
  have "a \<noteq> b" using ab(2,3) by auto
  then have "set (all_ids (?t ''1'' ''a'')) \<inter> set (all_ids (?t ''2'' ''b'')) = {}"
    by (intro unread_tables_are_unconnected [OF run(1) scope(2) tables, of _ a _ b])
      (simp_all add: run(2) ab scope(4))
  then show ?thesis using tables by (auto simp: all_ids_def)
qed

end
