(* ===== verification/Table_Timeline.thy ===== *)
theory Table_Timeline
  imports Replay_Results
begin

section \<open>The timeline of table ids\<close>

text \<open>
  \<^verbatim>\<open>partial-changes/closure/table-id-timeline.ts\<close>: which table held an id before a step of a ledger. The tables
  are known by the migrations that opened their slots.
\<close>

record table_id_change =
  tc_migration :: migration
  tc_lineage :: "string option"
  tc_position :: nat

record table_id_timeline =
  tl_positions :: "(string, nat) jmap"
  tl_changes :: "(string, table_id_change list) jmap"

fun table_ids_named_by :: "migration \<Rightarrow> string list" where
  "table_ids_named_by (RenameMigration r i t n) = [t, n]"
| "table_ids_named_by m = [mig_table m]"

definition lineage_holding :: "table_slots \<Rightarrow> string \<Rightarrow> string option outcome" where
  "lineage_holding slots tableId =
     (case current_slot tableId slots of
        None \<Rightarrow> Inr None
      | Some i \<Rightarrow> try_bind (lineage_id_of (ts_slots slots ! i)) (\<lambda>lineage. Inr (Some lineage)))"

definition changes_of :: "table_id_timeline \<Rightarrow> string \<Rightarrow> table_id_change list" where
  "changes_of line tableId = (case map_of (tl_changes line) tableId of None \<Rightarrow> [] | Some changes \<Rightarrow> changes)"

definition last_lineage :: "table_id_change list \<Rightarrow> string option" where
  "last_lineage changes = (if changes = [] then None else tc_lineage (last changes))"

definition record_change :: "string \<Rightarrow> table_id_change \<Rightarrow> table_id_timeline \<Rightarrow> table_id_timeline" where
  "record_change tableId change line =
     (let changes = changes_of line tableId
      in if last_lineage changes = tc_lineage change then line
         else line\<lparr>tl_changes := AList.update tableId (changes @ [change]) (tl_changes line)\<rparr>)"

definition record_step ::
  "nat \<times> migration \<Rightarrow> table_slots \<times> table_id_timeline \<Rightarrow> (table_slots \<times> table_id_timeline) outcome" where
  "record_step = (\<lambda>(position, m) (slots, line).
     let after = snd (follow m slots)
     in try_bind (fold_try (\<lambda>tableId line. try_bind (lineage_holding after tableId) (\<lambda>lineage.
            Inr (record_change tableId \<lparr>tc_migration = m, tc_lineage = lineage, tc_position = position\<rparr> line)))
          (table_ids_named_by m) (line\<lparr>tl_positions := AList.update (mig_id m) position (tl_positions line)\<rparr>)) (\<lambda>line'.
        Inr (after, line')))"

definition table_id_timeline :: "migration list \<Rightarrow> table_id_timeline outcome" where
  "table_id_timeline ledger =
     try_bind (fold_try record_step (enumerate 0 ledger) (start_slots [], \<lparr>tl_positions = [], tl_changes = []\<rparr>))
       (\<lambda>(slots, line). Inr line)"

definition position_of :: "table_id_timeline \<Rightarrow> migration \<Rightarrow> nat outcome" where
  "position_of line step =
     (case map_of (tl_positions line) (mig_id step) of
        None \<Rightarrow> Inl (''The ledger has no migration '' @ mig_id step)
      | Some position \<Rightarrow> Inr position)"

subsection \<open>The last change before a position\<close>

definition is_before :: "table_id_change list \<Rightarrow> nat \<Rightarrow> nat \<Rightarrow> bool" where
  "is_before changes i position \<longleftrightarrow> i < length changes \<and> tc_position (changes ! i) < position"

function search_before :: "table_id_change list \<Rightarrow> nat \<Rightarrow> nat \<Rightarrow> nat \<Rightarrow> nat" where
  "search_before changes position low high =
     (if low < high
      then (let middle = (low + high) div 2
            in if is_before changes middle position then search_before changes position (middle + 1) high
               else search_before changes position low middle)
      else low)"
  by pat_completeness auto
termination
  by (relation "measure (\<lambda>(_, _, low, high). high - low)") auto

declare search_before.simps [simp del]

text \<open>The index is one less than the bound the search ends with; \<open>None\<close> is the index -1.\<close>

definition last_index_before :: "table_id_change list \<Rightarrow> nat \<Rightarrow> nat option" where
  "last_index_before changes position =
     (let low = search_before changes position 0 (length changes) in if low = 0 then None else Some (low - 1))"

definition last_change_before :: "table_id_timeline \<Rightarrow> migration \<Rightarrow> string \<Rightarrow> table_id_change option outcome" where
  "last_change_before line step tableId =
     (let changes = changes_of line tableId
      in try_bind (position_of line step) (\<lambda>position.
           Inr (case last_index_before changes position of None \<Rightarrow> None | Some i \<Rightarrow> Some (changes ! i))))"

subsection \<open>The search\<close>

lemma search_before_bound:
  assumes "low \<le> high" "high \<le> length changes" "sorted_wrt (<) (map tc_position changes)"
    "\<And>i. i < low \<Longrightarrow> is_before changes i position" "\<And>i. high \<le> i \<Longrightarrow> \<not> is_before changes i position"
  shows "\<forall>i. is_before changes i position \<longleftrightarrow> i < search_before changes position low high"
  using assms
proof (induction changes position low high rule: search_before.induct)
  case (1 changes position low high)
  let ?middle = "(low + high) div 2"
  have order: "tc_position (changes ! i) < tc_position (changes ! j)" if "i < j" "j < length changes" for i j
    using 1(5) that by (simp add: sorted_wrt_iff_nth_less)
  show ?case
  proof (cases "low < high")
    case True
    show ?thesis
    proof (cases "is_before changes ?middle position")
      case before: True
      have up: "is_before changes i position" if "i < ?middle + 1" for i
        using that before order [of i ?middle] by (cases "i = ?middle") (auto simp: is_before_def)
      have "\<forall>i. is_before changes i position \<longleftrightarrow> i < search_before changes position (?middle + 1) high"
        by (rule 1(1)) (use True before up 1(4,5,7) in auto)
      with True before show ?thesis by (subst search_before.simps) (simp add: Let_def)
    next
      case after: False
      have down: "\<not> is_before changes i position" if "?middle \<le> i" for i
      proof
        assume i: "is_before changes i position"
        with after have "i \<noteq> ?middle" by metis
        with that i order [of ?middle i] after True 1(4) show False by (auto simp: is_before_def)
      qed
      have "\<forall>i. is_before changes i position \<longleftrightarrow> i < search_before changes position low ?middle"
        by (rule 1(2)) (use True after down 1(4,5,6) in auto)
      with True after show ?thesis by (subst search_before.simps) (simp add: Let_def)
    qed
  next
    case False
    with 1(3) have "low = high" by simp
    then have "search_before changes position low high = high" by (subst search_before.simps) simp
    with 1(6,7) \<open>low = high\<close> show ?thesis by (metis not_le)
  qed
qed

lemma last_index_before_iff:
  assumes "sorted_wrt (<) (map tc_position changes)"
  shows "\<forall>i. is_before changes i position \<longleftrightarrow> (case last_index_before changes position of None \<Rightarrow> False | Some j \<Rightarrow> i \<le> j)"
proof -
  have "\<forall>i. is_before changes i position \<longleftrightarrow> i < search_before changes position 0 (length changes)"
    by (rule search_before_bound) (use assms in \<open>auto simp: is_before_def\<close>)
  then show ?thesis
    by (cases "search_before changes position 0 (length changes)") (simp_all add: last_index_before_def less_Suc_eq_le)
qed

lemma last_index_before_eq:
  assumes "sorted_wrt (<) (map tc_position changes)"
  shows "(case last_index_before changes position of None \<Rightarrow> None | Some i \<Rightarrow> tc_lineage (changes ! i)) =
    last_lineage (filter (\<lambda>c. tc_position c < position) changes)"
proof -
  note iff = last_index_before_iff [OF assms, of position, rule_format]
  show ?thesis
  proof (cases "last_index_before changes position")
    case None
    then have "filter (\<lambda>c. tc_position c < position) changes = []"
      unfolding filter_empty_conv by (metis iff in_set_conv_nth is_before_def option.simps(4))
    with None show ?thesis by (simp add: last_lineage_def)
  next
    case (Some j)
    then have j: "j < length changes" "tc_position (changes ! j) < position" using iff [of j] by (auto simp: is_before_def)
    have "filter (\<lambda>c. tc_position c < position) (drop (Suc j) changes) = []"
      unfolding filter_empty_conv
    proof
      fix c assume "c \<in> set (drop (Suc j) changes)"
      then obtain k where k: "c = changes ! (Suc j + k)" "Suc j + k < length changes"
        by (auto simp: in_set_conv_nth)
      with iff [of "Suc j + k"] Some show "\<not> tc_position c < position" by (simp add: is_before_def)
    qed
    then have "filter (\<lambda>c. tc_position c < position) changes = filter (\<lambda>c. tc_position c < position) (take (Suc j) changes)"
      by (metis append.right_neutral append_take_drop_id filter_append)
    also have "\<dots> = filter (\<lambda>c. tc_position c < position) (take j changes) @ [changes ! j]"
      using j by (simp add: take_Suc_conv_app_nth)
    finally show ?thesis using Some by (simp add: last_lineage_def)
  qed
qed

subsection \<open>What a step leaves as it is\<close>

abbreviation migrations_in :: "table_slots \<Rightarrow> migration list list" where
  "migrations_in st \<equiv> map slot_migrations (ts_slots st)"

text \<open>A step appends its migration to one slot or opens a new slot with it.\<close>

definition one_more :: "migration \<Rightarrow> migration list list \<Rightarrow> migration list list \<Rightarrow> bool" where
  "one_more m before after \<longleftrightarrow>
     after = before @ [[m]] \<or> (\<exists>i < length before. after = before[i := before ! i @ [m]])"

lemma append_one_more:
  assumes "slots_inv st"
  shows "one_more m (migrations_in st) (migrations_in (snd (append_to_slot m st)))"
proof (cases "map_of (ts_current st) (mig_table m)")
  case None
  then show ?thesis by (simp add: append_to_slot_def open_broken_slot_def new_slot_def one_more_def)
next
  case (Some i)
  with slots_inv_get [OF assms] have "i < length (ts_slots st)" by blast
  moreover have "migrations_in (snd (append_to_slot m st)) = (migrations_in st)[i := migrations_in st ! i @ [m]]"
    using Some \<open>i < length (ts_slots st)\<close> by (simp add: append_to_slot_def modify_slot_def map_update)
  ultimately show ?thesis unfolding one_more_def by auto
qed

lemma follow_one_more:
  assumes "slots_inv st"
  shows "one_more m (migrations_in st) (migrations_in (snd (follow m st)))"
proof (cases m)
  case (InitMigration r i t h s)
  then show ?thesis by (simp add: open_slot_def new_slot_def split_beta one_more_def)
qed (use append_one_more [OF assms, of m] in \<open>simp_all add: move_slot_def close_slot_def split_beta\<close>)

lemma get_vacate_current:
  "slots_inv st \<Longrightarrow> i < length (ts_slots st) \<Longrightarrow> slot_currentTableId (ts_slots st ! i) \<noteq> Some t \<Longrightarrow>
   map_of (ts_current (vacate i st)) t = map_of (ts_current st) t"
  by (simp add: get_vacate)

lemma occupy_current:
  assumes "slots_inv st" "i < length (ts_slots st)" "slot_currentTableId (ts_slots st ! i) \<noteq> Some t" "t \<noteq> u"
  shows "map_of (ts_current (snd (occupy i u m st))) t = map_of (ts_current st) t"
proof (cases "map_of (ts_current st) u")
  case None
  then show ?thesis using assms by (simp add: occupy_def Let_def jmap_simps get_vacate)
next
  case (Some d)
  then have d: "d < length (ts_slots st)" "slot_currentTableId (ts_slots st ! d) = Some u"
    using slots_inv_get [OF assms(1)] by blast+
  have "map_of (ts_current (vacate d (vacate i st))) t = map_of (ts_current (vacate i st)) t"
    using slots_inv_vacate [OF assms(1,2)] d assms(2,4) by (intro get_vacate_current) (auto simp: nth_vacate)
  with Some assms show ?thesis by (simp add: occupy_def Let_def jmap_simps get_vacate)
qed

lemma append_current:
  assumes "slots_inv st" "t \<noteq> mig_table m"
  shows "map_of (ts_current (snd (append_to_slot m st))) t = map_of (ts_current st) t"
  using assms(2) by (simp add: append_to_slot_def open_broken_slot_def new_slot_def jmap_simps split: option.splits)

lemma follow_current:
  assumes "slots_inv st" "t \<notin> set (table_ids_named_by m)"
  shows "map_of (ts_current (snd (follow m st))) t = map_of (ts_current st) t"
proof -
  have t: "t \<noteq> mig_table m" using assms(2) by (cases m) auto
  note append = slots_inv_append [OF assms(1), of m] append_current [OF assms(1) t] live_append(2) [OF assms(1), of m]
  show ?thesis
  proof (cases m)
    case (InitMigration r i u h s)
    have "slots_inv (st\<lparr>ts_slots := ts_slots st @ [empty_slot\<lparr>slot_migrations := [m]\<rparr>]\<rparr>)"
      by (rule slots_inv_new [OF assms(1)]) (simp add: empty_slot_def)
    from occupy_current [OF this, of "length (ts_slots st)" t u m] InitMigration t show ?thesis
      by (simp add: open_slot_def new_slot_def split_beta empty_slot_def)
  next
    case (RenameMigration r i u n)
    then have "t \<noteq> n" using assms(2) by simp
    with RenameMigration occupy_current [OF append(1,2), of t n m] append(3,4) t show ?thesis
      by (simp add: move_slot_def split_beta)
  next
    case (RemoveMigration r i u)
    with get_vacate_current [OF append(1,2), of t] append(3,4) t show ?thesis by (simp add: close_slot_def split_beta)
  qed (use append in simp)
qed

subsection \<open>The timeline follows the trace\<close>

definition opened_slots :: "table_slots \<Rightarrow> bool" where
  "opened_slots st \<longleftrightarrow> slots_inv st \<and> [] \<notin> set (migrations_in st)"

text \<open>The lineage of the slot that holds an id: the migration that opened it.\<close>

definition holder_lineage :: "table_slots \<Rightarrow> string \<Rightarrow> string option" where
  "holder_lineage st tableId = map_option (\<lambda>i. mig_id (hd (migrations_in st ! i))) (current_slot tableId st)"

lemma opened_follow:
  assumes "opened_slots st"
  shows "opened_slots (snd (follow m st))"
    "i < length (ts_slots st) \<Longrightarrow> hd (migrations_in (snd (follow m st)) ! i) = hd (migrations_in st ! i)"
proof -
  have inv: "slots_inv st" "[] \<notin> set (migrations_in st)" using assms by (auto simp: opened_slots_def)
  have more: "one_more m (migrations_in st) (migrations_in (snd (follow m st)))" by (rule follow_one_more [OF inv(1)])
  then have "[] \<notin> set (migrations_in (snd (follow m st)))"
    using inv(2) by (auto simp: one_more_def simp del: set_map dest!: subsetD [OF set_update_subset_insert])
  with slots_inv_follow [OF inv(1)] show "opened_slots (snd (follow m st))" by (simp add: opened_slots_def)
  assume i: "i < length (ts_slots st)"
  then have "migrations_in st ! i \<noteq> []" using inv(2) by (metis length_map nth_mem)
  then show "hd (migrations_in (snd (follow m st)) ! i) = hd (migrations_in st ! i)"
    using more i unfolding one_more_def by (auto simp: nth_append nth_list_update simp del: nth_map)
qed

lemma holder_unnamed:
  assumes "opened_slots st" "t \<notin> set (table_ids_named_by m)"
  shows "holder_lineage (snd (follow m st)) t = holder_lineage st t"
proof -
  have inv: "slots_inv st" using assms(1) by (simp add: opened_slots_def)
  have "i < length (ts_slots st)" if "map_of (ts_current st) t = Some i" for i
    using slots_inv_get [OF inv] that by blast
  with follow_current [OF inv assms(2)] opened_follow(2) [OF assms(1)] show ?thesis
    by (cases "map_of (ts_current st) t") (simp_all add: holder_lineage_def current_slot_def del: nth_map)
qed

lemma lineage_holding_holder:
  assumes "opened_slots st"
  shows "lineage_holding st t = Inr (holder_lineage st t)"
proof (cases "current_slot t st")
  case (Some i)
  then have "i < length (ts_slots st)" using assms by (auto simp: opened_slots_def current_slot_def slots_inv_get)
  moreover from this have "slot_migrations (ts_slots st ! i) \<noteq> []"
    using assms unfolding opened_slots_def by (metis length_map nth_map nth_mem)
  ultimately show ?thesis using Some
    by (cases "slot_migrations (ts_slots st ! i)") (simp_all add: lineage_holding_def holder_lineage_def lineage_id_of_def)
qed (simp add: lineage_holding_def holder_lineage_def)

lemma last_lineage_snoc [simp]: "last_lineage (changes @ [c]) = tc_lineage c" "last_lineage [] = None"
  by (simp_all add: last_lineage_def)

lemma changes_of_record:
  "changes_of (record_change u c line) t =
     (if t = u \<and> last_lineage (changes_of line t) \<noteq> tc_lineage c then changes_of line t @ [c] else changes_of line t)"
  "tl_positions (record_change u c line) = tl_positions line"
  by (auto simp: record_change_def Let_def changes_of_def jmap_simps)

definition change_at :: "table_slots \<Rightarrow> nat \<Rightarrow> migration \<Rightarrow> string \<Rightarrow> table_id_change" where
  "change_at after position m t = \<lparr>tc_migration = m, tc_lineage = holder_lineage after t, tc_position = position\<rparr>"

lemma change_at_simps [simp]:
  "tc_migration (change_at after position m t) = m" "tc_lineage (change_at after position m t) = holder_lineage after t"
  "tc_position (change_at after position m t) = position"
  by (simp_all add: change_at_def)

lemma record_named:
  "changes_of (fold (\<lambda>u. record_change u (change_at after position m u)) ids line) t =
     (if t \<in> set ids \<and> last_lineage (changes_of line t) \<noteq> holder_lineage after t
      then changes_of line t @ [change_at after position m t] else changes_of line t)"
  "tl_positions (fold (\<lambda>u. record_change u (change_at after position m u)) ids line) = tl_positions line"
  by (induction ids arbitrary: line) (auto simp: changes_of_record change_at_def)

lemma record_step_eq:
  assumes "opened_slots st"
  shows "record_step (position, m) (st, line) =
    Inr (snd (follow m st), fold (\<lambda>u. record_change u (change_at (snd (follow m st)) position m u)) (table_ids_named_by m)
      (line\<lparr>tl_positions := AList.update (mig_id m) position (tl_positions line)\<rparr>))"
proof -
  have "fold_try (\<lambda>tableId line. try_bind (lineage_holding (snd (follow m st)) tableId) (\<lambda>lineage.
          Inr (record_change tableId \<lparr>tc_migration = m, tc_lineage = lineage, tc_position = position\<rparr> line))) ids line =
      Inr (fold (\<lambda>u. record_change u (change_at (snd (follow m st)) position m u)) ids line)" for ids line
    by (induction ids arbitrary: line) (simp_all add: lineage_holding_holder [OF opened_follow(1) [OF assms]] change_at_def)
  then show ?thesis by (simp add: record_step_def Let_def)
qed

abbreviation trace_of :: "migration list \<Rightarrow> table_slots" where
  "trace_of ledger \<equiv> follow_all ledger (start_slots [])"

lemma opened_trace: "opened_slots (trace_of ledger)"
proof (induction ledger rule: rev_induct)
  case Nil
  show ?case by (simp add: opened_slots_def start_slots_def) (simp add: no_slots_def)
next
  case (snoc m ledger)
  then show ?case by (simp add: opened_follow(1))
qed

definition follows_ledger :: "migration list \<Rightarrow> table_id_timeline \<Rightarrow> bool" where
  "follows_ledger ledger line \<longleftrightarrow>
     (\<forall>t. sorted_wrt (<) (map tc_position (changes_of line t)) \<and>
        (\<forall>c \<in> set (changes_of line t). tc_position c < length ledger \<and> tc_migration c = ledger ! tc_position c \<and>
           t \<in> set (table_ids_named_by (tc_migration c))) \<and>
        (\<forall>p \<le> length ledger. last_lineage (filter (\<lambda>c. tc_position c < p) (changes_of line t)) =
           holder_lineage (trace_of (take p ledger)) t)) \<and>
     (distinct (map mig_id ledger) \<longrightarrow> (\<forall>p < length ledger. map_of (tl_positions line) (mig_id (ledger ! p)) = Some p))"

lemma follows_ledger_step:
  assumes "follows_ledger ledger line"
  shows "follows_ledger (ledger @ [m]) (fold (\<lambda>u. record_change u (change_at (trace_of (ledger @ [m])) (length ledger) m u))
    (table_ids_named_by m) (line\<lparr>tl_positions := AList.update (mig_id m) (length ledger) (tl_positions line)\<rparr>))"
    (is "follows_ledger _ ?line")
proof -
  let ?n = "length ledger"
  have each: "sorted_wrt (<) (map tc_position (changes_of line t))"
    "\<forall>c \<in> set (changes_of line t). tc_position c < ?n \<and> tc_migration c = ledger ! tc_position c \<and>
       t \<in> set (table_ids_named_by (tc_migration c))"
    "\<forall>p \<le> ?n. last_lineage (filter (\<lambda>c. tc_position c < p) (changes_of line t)) = holder_lineage (trace_of (take p ledger)) t"
    for t using assms unfolding follows_ledger_def by blast+
  have known: "last_lineage (changes_of line t) = holder_lineage (trace_of ledger) t" for t
    using each(3) [of t, rule_format, of ?n] each(2) [of t] by (simp add: filter_id_conv)
  have changes: "changes_of ?line t = (if t \<in> set (table_ids_named_by m) \<and>
        holder_lineage (trace_of ledger) t \<noteq> holder_lineage (trace_of (ledger @ [m])) t
      then changes_of line t @ [change_at (trace_of (ledger @ [m])) ?n m t] else changes_of line t)" for t
    using known [of t] by (simp add: record_named) (simp add: changes_of_def)
  have same: "holder_lineage (trace_of (ledger @ [m])) t = holder_lineage (trace_of ledger) t"
    if "t \<notin> set (table_ids_named_by m)" for t
    using holder_unnamed [OF opened_trace that] by simp
  have sorted: "sorted_wrt (<) (map tc_position (changes_of ?line t))" for t
    unfolding changes using each(1,2) [of t] by (auto simp: sorted_wrt_append)
  have members: "\<forall>c \<in> set (changes_of ?line t). tc_position c < length (ledger @ [m]) \<and>
      tc_migration c = (ledger @ [m]) ! tc_position c \<and> t \<in> set (table_ids_named_by (tc_migration c))" for t
    unfolding changes using each(2) [of t] by (auto simp: nth_append)
  have lineages: "last_lineage (filter (\<lambda>c. tc_position c < p) (changes_of ?line t)) =
      holder_lineage (trace_of (take p (ledger @ [m]))) t" if "p \<le> length (ledger @ [m])" for p t
  proof (cases "p \<le> ?n")
    case True
    have "filter (\<lambda>c. tc_position c < p) (changes_of ?line t) = filter (\<lambda>c. tc_position c < p) (changes_of line t)"
      unfolding changes using True by simp
    with each(3) [of t] True show ?thesis by simp
  next
    case False
    with that have p: "p = Suc ?n" by simp
    have "filter (\<lambda>c. tc_position c < p) (changes_of ?line t) = changes_of ?line t"
      using members [of t] p by (simp add: filter_id_conv)
    moreover have "last_lineage (changes_of ?line t) = holder_lineage (trace_of (ledger @ [m])) t"
      unfolding changes using known [of t] same [of t] by (auto simp del: follow_all_simps)
    ultimately show ?thesis using p by (simp del: follow_all_simps)
  qed
  have "map_of (tl_positions ?line) (mig_id ((ledger @ [m]) ! p)) = Some p"
    if "distinct (map mig_id (ledger @ [m]))" "p < length (ledger @ [m])" for p
  proof (cases "p = ?n")
    case False
    with that(2) have "p < ?n" by simp
    then have "mig_id (ledger ! p) \<in> mig_id ` set ledger" by simp
    moreover have "mig_id m \<notin> mig_id ` set ledger" "distinct (map mig_id ledger)" using that(1) by simp_all
    ultimately have "mig_id (ledger ! p) \<noteq> mig_id m" "distinct (map mig_id ledger)" by metis+
    with \<open>p < ?n\<close> show ?thesis using assms by (simp add: record_named jmap_simps nth_append follows_ledger_def)
  qed (simp add: record_named jmap_simps)
  then show ?thesis unfolding follows_ledger_def using sorted members lineages by blast
qed

lemma fold_try_append: "fold_try f (xs @ ys) s = try_bind (fold_try f xs s) (fold_try f ys)"
proof (induction xs arbitrary: s)
  case (Cons x xs)
  then show ?case by (cases "f x s") simp_all
qed simp

lemma timeline_built: "\<exists>line. table_id_timeline ledger = Inr line \<and> follows_ledger ledger line"
proof -
  have "\<exists>line. fold_try record_step (enumerate 0 ledger) (start_slots [], \<lparr>tl_positions = [], tl_changes = []\<rparr>) =
      Inr (trace_of ledger, line) \<and> follows_ledger ledger line"
  proof (induction ledger rule: rev_induct)
    case Nil
    have "holder_lineage (start_slots []) t = None" for t
      by (simp add: holder_lineage_def current_slot_def start_slots_def) (simp add: no_slots_def)
    then show ?case by (simp add: follows_ledger_def changes_of_def)
  next
    case (snoc m ledger)
    then obtain line where line: "fold_try record_step (enumerate 0 ledger) (start_slots [], \<lparr>tl_positions = [], tl_changes = []\<rparr>) =
        Inr (trace_of ledger, line)" "follows_ledger ledger line" by blast
    have "fold_try record_step (enumerate 0 (ledger @ [m])) (start_slots [], \<lparr>tl_positions = [], tl_changes = []\<rparr>) =
        record_step (length ledger, m) (trace_of ledger, line)"
      using line(1)
      by (cases "record_step (length ledger, m) (trace_of ledger, line)") (simp_all add: enumerate_append_eq fold_try_append)
    with record_step_eq [OF opened_trace] follows_ledger_step [OF line(2), of m] show ?case by simp
  qed
  then show ?thesis by (auto simp: table_id_timeline_def)
qed

subsection \<open>Properties\<close>

text \<open>
  Claim C15: the timeline of a ledger knows who held an id before each step. Building it never throws, and for a
  step of the ledger the binary search over the recorded changes finds the lineage of the slot that holds the id when the
  ledger before the step is traced, or none when no slot does.
\<close>

theorem timeline_follows_trace:
  assumes "distinct (map mig_id ledger)" "p < length ledger"
  shows "\<exists>line change. table_id_timeline ledger = Inr line \<and> last_change_before line (ledger ! p) tableId = Inr change \<and>
    Option.bind change tc_lineage = holder_lineage (trace_of (take p ledger)) tableId"
proof -
  obtain line where line: "table_id_timeline ledger = Inr line" "follows_ledger ledger line" using timeline_built by blast
  let ?changes = "changes_of line tableId"
  have sorted: "sorted_wrt (<) (map tc_position ?changes)" and lineage: "last_lineage (filter (\<lambda>c. tc_position c < p) ?changes) =
      holder_lineage (trace_of (take p ledger)) tableId" and position: "position_of line (ledger ! p) = Inr p"
    using line(2) assms by (auto simp: follows_ledger_def position_of_def)
  let ?change = "case last_index_before ?changes p of None \<Rightarrow> None | Some i \<Rightarrow> Some (?changes ! i)"
  have "last_change_before line (ledger ! p) tableId = Inr ?change"
    by (simp add: last_change_before_def position Let_def)
  moreover have "Option.bind ?change tc_lineage = holder_lineage (trace_of (take p ledger)) tableId"
    using last_index_before_eq [OF sorted, of p] lineage by (auto split: option.splits)
  ultimately show ?thesis using line(1) by blast
qed

text \<open>A table that took the id of a renamed one.\<close>

definition example_taking :: "migration list" where
  "example_taking =
     [InitMigration 0 ''1'' ''a'' '''' (JObj []), RenameMigration 1 ''2'' ''a'' ''b'',
      InitMigration 2 ''3'' ''a'' '''' (JObj []), UpdateMigration 3 ''4'' ''a'' '''' []]"

theorem timeline_follows_trace_witness:
  "\<exists>line change. table_id_timeline example_taking = Inr line \<and>
     last_change_before line (example_taking ! 3) ''a'' = Inr change \<and> Option.bind change tc_lineage = Some ''3''"
proof -
  have "distinct (map mig_id example_taking)" "3 < length example_taking" by (simp_all add: example_taking_def)
  moreover have "holder_lineage (trace_of (take 3 example_taking)) ''a'' = Some ''3''" by code_simp
  ultimately show ?thesis using timeline_follows_trace [of example_taking 3 "''a''"] by simp
qed

end
