(* ===== verification/Plan_Blockers.thy ===== *)
theory Plan_Blockers
  imports Change_Catalogue
begin

section \<open>Blockers and reasons of a plan\<close>

text \<open>
  \<^verbatim>\<open>partial-changes/plan/plan-blocker.ts\<close> and \<^verbatim>\<open>reason.ts\<close>. A plan with a blocker cannot be
  applied; a reason says why a unit is required. Blockers of the same code at the same address are
  reported once: the key of a blocker is the JSON text of its code and address, where an absent part
  is \<open>null\<close>.
\<close>

datatype required_reason_code =
  StructureBoundData | WholeRowUnit | AtomicValue | ReferencedRowMissing | ReferrerStillReferences |
  IdOccupied | ReferencedTableMissing | ViewsDoNotFitStructure

record reason =
  re_code :: required_reason_code
  re_tableId :: string
  re_rowId :: "string option"
  re_path :: "string option"
  re_because :: string

datatype blocker_code =
  NotSelectable | RequiredExcluded | DanglingInSource | InvalidViews | UnmatchedSelector | TooLarge |
  UnrecordedStructureChange | LedgerInconsistent | InvalidRow | MigrationInProgress |
  RefusalBlocker refusal_code

fun blocker_code_name :: "blocker_code \<Rightarrow> string" where
  "blocker_code_name NotSelectable = ''notSelectable''"
| "blocker_code_name RequiredExcluded = ''requiredExcluded''"
| "blocker_code_name DanglingInSource = ''danglingInSource''"
| "blocker_code_name InvalidViews = ''invalidViews''"
| "blocker_code_name UnmatchedSelector = ''unmatchedSelector''"
| "blocker_code_name TooLarge = ''tooLarge''"
| "blocker_code_name UnrecordedStructureChange = ''unrecordedStructureChange''"
| "blocker_code_name LedgerInconsistent = ''ledgerInconsistent''"
| "blocker_code_name InvalidRow = ''invalidRow''"
| "blocker_code_name MigrationInProgress = ''migrationInProgress''"
| "blocker_code_name (RefusalBlocker code) = refusal_code_name code"

record plan_blocker =
  pb_code :: blocker_code
  pb_tableId :: "string option"
  pb_rowId :: "string option"
  pb_path :: "string option"
  pb_message :: string
  pb_unitKey :: "string option"
  pb_reason :: "reason option"

definition blocker_at ::
  "blocker_code \<Rightarrow> string option \<Rightarrow> string option \<Rightarrow> string option \<Rightarrow> string \<Rightarrow> plan_blocker" where
  "blocker_at code tableId rowId path message =
     \<lparr>pb_code = code, pb_tableId = tableId, pb_rowId = rowId, pb_path = path, pb_message = message,
      pb_unitKey = None, pb_reason = None\<rparr>"

fun refusal_reason :: "refusal_code \<Rightarrow> string" where
  "refusal_reason HeadSchemaInconsistent = ''its Head schema does not match its Head ledger''"
| "refusal_reason UnledgeredTable = ''it has no intact ledger lineage''"

definition refusal_blocker :: "refused_table \<Rightarrow> plan_blocker" where
  "refusal_blocker refused =
     blocker_at (RefusalBlocker (rf_code refused)) (Some (rf_tableId refused)) None None
       (rf_tableId refused @ '' is refused: '' @ refusal_reason (rf_code refused))"

definition address_of :: "change_unit \<Rightarrow> string" where
  "address_of u =
     (case cu_rowId u of
        None \<Rightarrow> cu_tableId u
      | Some rowId \<Rightarrow> cu_tableId u @ ''/'' @ rowId @ (case cu_path u of None \<Rightarrow> [] | Some path \<Rightarrow> path))"

definition required_excluded :: "catalogue_unit \<Rightarrow> reason \<Rightarrow> plan_blocker" where
  "required_excluded u why =
     \<lparr>pb_code = RequiredExcluded, pb_tableId = Some (cu_tableId (ca_unit u)), pb_rowId = cu_rowId (ca_unit u),
      pb_path = cu_path (ca_unit u), pb_message = address_of (ca_unit u) @ '' is required but excluded'',
      pb_unitKey = Some (ca_key u), pb_reason = Some why\<rparr>"

definition unrecorded_structure_change_of :: "table_pair \<Rightarrow> plan_blocker" where
  "unrecorded_structure_change_of pair =
     (let tableId = public_id_or_identity_of pair
      in blocker_at UnrecordedStructureChange (Some tableId) None None
        (''The Draft structure of '' @ tableId @
         '' is not reproduced by its schema history and migrations: its commit is refused, and Head rows cannot be migrated into it''))"

fun inconsistency_message_of :: "ledger_inconsistency \<Rightarrow> string" where
  "inconsistency_message_of (UnattributableMigration tableId migrationId) =
     ''Pending migration '' @ migrationId @ '' of '' @ tableId @ '' cannot be attributed to a table''"
| "inconsistency_message_of (HistoryNotExtendingHead tableId) =
     ''The Draft schema history of '' @ tableId @ '' does not extend its Head history''"

definition ledger_inconsistent_blocker_of :: "ledger_inconsistency \<Rightarrow> plan_blocker" where
  "ledger_inconsistent_blocker_of inconsistency =
     blocker_at LedgerInconsistent (Some (li_tableId inconsistency)) None None
       (inconsistency_message_of inconsistency)"

fun json_nullable :: "string option \<Rightarrow> string" where
  "json_nullable None = ''null''"
| "json_nullable (Some s) = json_quote s"

definition blocker_key :: "plan_blocker \<Rightarrow> string" where
  "blocker_key blocker =
     CHR ''['' # js_join '','' (map json_nullable
       [Some (blocker_code_name (pb_code blocker)), pb_tableId blocker, pb_rowId blocker, pb_path blocker]) @ '']''"

definition add_blocker :: "plan_blocker \<Rightarrow> (string, plan_blocker) jmap \<Rightarrow> (string, plan_blocker) jmap" where
  "add_blocker blocker distinctBlockers =
     (if map_of distinctBlockers (blocker_key blocker) = None
      then AList.update (blocker_key blocker) blocker distinctBlockers
      else distinctBlockers)"

definition distinct_blockers :: "plan_blocker list \<Rightarrow> plan_blocker list" where
  "distinct_blockers blockers = jvalues (fold add_blocker blockers [])"

subsection \<open>Every address keeps a blocker\<close>

lemma update_new: "k \<notin> set (map fst m) \<Longrightarrow> AList.update k v m = m @ [(k, v)]"
  by (induction m) auto

lemma add_blocker_append:
  "add_blocker b m = (if blocker_key b \<in> set (jkeys m) then m else m @ [(blocker_key b, b)])"
  by (auto simp: add_blocker_def map_of_eq_None_iff update_new)

definition blockers_by_key :: "(string, plan_blocker) jmap \<Rightarrow> bool" where
  "blockers_by_key m \<longleftrightarrow> jkeys m = map blocker_key (jvalues m) \<and> distinct (jkeys m)"

lemma blockers_by_key_add: "blockers_by_key m \<Longrightarrow> blockers_by_key (add_blocker b m)"
  by (auto simp: blockers_by_key_def add_blocker_append)

lemma blockers_by_key_fold: "blockers_by_key m \<Longrightarrow> blockers_by_key (fold add_blocker bs m)"
  by (induction bs arbitrary: m) (simp_all add: blockers_by_key_add)

lemma blockers_of_fold:
  "set (jvalues (fold add_blocker bs m)) \<subseteq> set (jvalues m) \<union> set bs"
  "set (jkeys (fold add_blocker bs m)) = set (jkeys m) \<union> blocker_key ` set bs"
proof (induction bs arbitrary: m)
  case (Cons b bs)
  { case 1 show ?case using Cons.IH(1) [of "add_blocker b m"] by (auto simp: add_blocker_append split: if_splits) }
  { case 2 show ?case using Cons.IH(2) [of "add_blocker b m"] by (auto simp: add_blocker_append) }
qed simp_all

lemma distinct_blockers_facts:
  "distinct (map blocker_key (distinct_blockers blockers))"
  "set (distinct_blockers blockers) \<subseteq> set blockers"
  "blocker_key ` set (distinct_blockers blockers) = blocker_key ` set blockers"
proof -
  let ?m = "fold add_blocker blockers []"
  have "blockers_by_key ?m" by (rule blockers_by_key_fold) (simp add: blockers_by_key_def)
  then have keys: "jkeys ?m = map blocker_key (distinct_blockers blockers)" "distinct (jkeys ?m)"
    by (simp_all add: blockers_by_key_def distinct_blockers_def)
  then show "distinct (map blocker_key (distinct_blockers blockers))" by simp
  show "set (distinct_blockers blockers) \<subseteq> set blockers"
    using blockers_of_fold(1) [of blockers "[]"] by (simp add: distinct_blockers_def)
  have "set (jkeys ?m) = blocker_key ` set blockers" using blockers_of_fold(2) [of blockers "[]"] by simp
  then show "blocker_key ` set (distinct_blockers blockers) = blocker_key ` set blockers"
    unfolding keys(1) by simp
qed

end
