(* ===== verification/Selector_Matches.thy ===== *)
theory Selector_Matches
  imports Plan_Blockers Selections
begin

section \<open>What a selector matches\<close>

text \<open>
  \<^verbatim>\<open>partial-changes/selection/selector-match.ts\<close>: the units a selector selects or requires and the
  blockers it meets, and the class \<open>ItemsResolution\<close>, which gathers the matches of all selectors and
  remembers those that match nothing. Its state is a record passed through its methods.
\<close>

record required_addition =
  ra_key :: string
  ra_reason :: reason

record selector_match =
  sm_selected :: "string list"
  sm_required :: "required_addition list"
  sm_blockers :: "plan_blocker list"

definition no_match :: selector_match where
  "no_match = \<lparr>sm_selected = [], sm_required = [], sm_blockers = []\<rparr>"

definition selecting :: "catalogue_unit list \<Rightarrow> selector_match" where
  "selecting units = no_match\<lparr>sm_selected := map ca_key units\<rparr>"

definition selecting_unit :: "catalogue_unit option \<Rightarrow> selector_match" where
  "selecting_unit u = selecting (case u of None \<Rightarrow> [] | Some x \<Rightarrow> [x])"

definition requiring_unit :: "catalogue_unit option \<Rightarrow> reason \<Rightarrow> selector_match" where
  "requiring_unit u why =
     (case u of
        None \<Rightarrow> no_match
      | Some x \<Rightarrow> no_match\<lparr>sm_required := [\<lparr>ra_key = ca_key x, ra_reason = why\<rparr>]\<rparr>)"

definition blocked_by :: "plan_blocker list \<Rightarrow> selector_match" where
  "blocked_by blockers = no_match\<lparr>sm_blockers := blockers\<rparr>"

definition refusing :: "refused_table list \<Rightarrow> selector_match option" where
  "refusing refusals =
     (if length refusals = 0 then None else Some (blocked_by (map refusal_blocker refusals)))"

definition combined :: "selector_match \<Rightarrow> selector_match \<Rightarrow> selector_match" where
  "combined left right =
     \<lparr>sm_selected = sm_selected left @ sm_selected right, sm_required = sm_required left @ sm_required right,
      sm_blockers = sm_blockers left @ sm_blockers right\<rparr>"

definition is_matched :: "selector_match \<Rightarrow> bool" where
  "is_matched m \<longleftrightarrow> 0 < length (sm_selected m) \<or> 0 < length (sm_required m) \<or> 0 < length (sm_blockers m)"

subsection \<open>Gathering matches\<close>

record items_resolution =
  ir_selected :: "string list"
  ir_required :: "(string, reason) jmap"
  ir_blockers :: "plan_blocker list"
  ir_unmatched :: "(item_kind, item_selector list) jmap"

definition new_resolution :: items_resolution where
  "new_resolution = \<lparr>ir_selected = [], ir_required = [], ir_blockers = [], ir_unmatched = []\<rparr>"

definition has_unmatched :: "items_resolution \<Rightarrow> bool" where
  "has_unmatched r \<longleftrightarrow> 0 < length (ir_unmatched r)"

definition add_required :: "string \<Rightarrow> reason \<Rightarrow> (string, reason) jmap \<Rightarrow> (string, reason) jmap" where
  "add_required key why required =
     (if map_of required key = None then AList.update key why required else required)"

definition add_unmatched ::
  "item_kind \<Rightarrow> item_selector \<Rightarrow> (item_kind, item_selector list) jmap \<Rightarrow> (item_kind, item_selector list) jmap"
  where
  "add_unmatched item selector unmatched =
     (case map_of unmatched item of
        Some selectors \<Rightarrow> AList.update item (selectors @ [selector]) unmatched
      | None \<Rightarrow> AList.update item [selector] unmatched)"

definition add_match :: "item_kind \<Rightarrow> item_selector \<Rightarrow> selector_match \<Rightarrow> items_resolution \<Rightarrow> items_resolution" where
  "add_match item selector m r =
     (if \<not> is_matched m then r\<lparr>ir_unmatched := add_unmatched item selector (ir_unmatched r)\<rparr>
      else r\<lparr>ir_selected := fold (\<lambda>key keys. if key \<in> set keys then keys else keys @ [key]) (sm_selected m) (ir_selected r),
             ir_required := fold (\<lambda>a. add_required (ra_key a) (ra_reason a)) (sm_required m) (ir_required r),
             ir_blockers := ir_blockers r @ sm_blockers m\<rparr>)"

definition add_each ::
  "item_kind \<Rightarrow> ('s \<Rightarrow> item_selector) \<Rightarrow> 's list option \<Rightarrow> ('s \<Rightarrow> selector_match outcome) \<Rightarrow>
   items_resolution \<Rightarrow> items_resolution outcome" where
  "add_each item tag selectors match =
     fold_try (\<lambda>selector r. try_bind (match selector) (\<lambda>m. Inr (add_match item (tag selector) m r))) (listed selectors)"

text \<open>\<open>Object.fromEntries\<close>: a field is present when a selector of its kind is unmatched.\<close>

fun table_ref_selector :: "item_selector \<Rightarrow> table_ref option" where
  "table_ref_selector (TableRefSelector r) = Some r"
| "table_ref_selector _ = None"

fun id_selector :: "item_selector \<Rightarrow> string option" where
  "id_selector (IdSelector i) = Some i"
| "id_selector _ = None"

fun row_ref_selector :: "item_selector \<Rightarrow> row_ref option" where
  "row_ref_selector (RowRefSelector r) = Some r"
| "row_ref_selector _ = None"

fun field_ref_selector :: "item_selector \<Rightarrow> field_ref option" where
  "field_ref_selector (FieldRefSelector r) = Some r"
| "field_ref_selector _ = None"

definition unmatched_of :: "items_resolution \<Rightarrow> (item_selector \<Rightarrow> 's option) \<Rightarrow> item_kind \<Rightarrow> 's list option" where
  "unmatched_of r untag item = map_option (List.map_filter untag) (map_of (ir_unmatched r) item)"

definition unmatched_items :: "items_resolution \<Rightarrow> selection_items" where
  "unmatched_items r =
     \<lparr>it_tables = unmatched_of r table_ref_selector TablesItem,
      it_tableData = unmatched_of r id_selector TableDataItem,
      it_views = unmatched_of r id_selector ViewsItem,
      it_sharedSchemas = unmatched_of r id_selector SharedSchemasItem,
      it_rows = unmatched_of r row_ref_selector RowsItem,
      it_renames = unmatched_of r row_ref_selector RenamesItem,
      it_rowColumns = unmatched_of r row_ref_selector RowColumnsItem,
      it_fields = unmatched_of r field_ref_selector FieldsItem\<rparr>"

subsection \<open>What a resolution gathers\<close>

lemmas match_simps = no_match_def selecting_def selecting_unit_def requiring_unit_def blocked_by_def combined_def

text \<open>The keys of a match and of a resolution.\<close>

definition match_keys :: "selector_match \<Rightarrow> string set" where
  "match_keys m = set (sm_selected m) \<union> ra_key ` set (sm_required m)"

definition resolution_keys :: "items_resolution \<Rightarrow> string set" where
  "resolution_keys r = set (ir_selected r) \<union> set (jkeys (ir_required r))"

definition sound_resolution :: "items_resolution \<Rightarrow> bool" where
  "sound_resolution r \<longleftrightarrow> distinct (ir_selected r) \<and> jmap_ok (ir_required r)"

lemma match_keys_simps [simp]:
  "match_keys no_match = {}"
  "match_keys (selecting units) = ca_key ` set units"
  "match_keys (selecting_unit u) = ca_key ` set_option u"
  "match_keys (requiring_unit u why) = ca_key ` set_option u"
  "match_keys (blocked_by blockers) = {}"
  "match_keys (combined l m) = match_keys l \<union> match_keys m"
  by (auto simp: match_keys_def match_simps split: option.splits)

lemma fold_add_keys:
  "set (fold (\<lambda>key keys. if key \<in> set keys then keys else keys @ [key]) ks keys) = set keys \<union> set ks"
  "distinct keys \<Longrightarrow> distinct (fold (\<lambda>key keys. if key \<in> set keys then keys else keys @ [key]) ks keys)"
  by (induction ks arbitrary: keys) auto

lemma add_required_keys: "set (jkeys (add_required key why m)) = insert key (set (jkeys m))"
  by (auto simp: add_required_def map_of_eq_None_iff jmap_keys_set [unfolded set_map] simp flip: not_None_eq)

lemma jmap_ok_add_required: "jmap_ok m \<Longrightarrow> jmap_ok (add_required key why m)"
  by (simp add: add_required_def jmap_ok_set)

lemma fold_add_required:
  "set (jkeys (fold (\<lambda>a. add_required (ra_key a) (ra_reason a)) as m)) = set (jkeys m) \<union> ra_key ` set as"
  "jmap_ok m \<Longrightarrow> jmap_ok (fold (\<lambda>a. add_required (ra_key a) (ra_reason a)) as m)"
proof (induction as arbitrary: m)
  case (Cons a as)
  { case 1 show ?case
      unfolding fold.simps comp_def Cons.IH(1) add_required_keys by auto }
  { case 2 then show ?case
      unfolding fold.simps comp_def by (intro Cons.IH(2) jmap_ok_add_required) }
qed simp_all

lemma resolution_keys_add_match:
  "resolution_keys (add_match item selector m r) = resolution_keys r \<union> match_keys m"
proof (cases "is_matched m")
  case True
  then have "ir_selected (add_match item selector m r) =
      fold (\<lambda>key keys. if key \<in> set keys then keys else keys @ [key]) (sm_selected m) (ir_selected r)"
    "ir_required (add_match item selector m r) =
      fold (\<lambda>a. add_required (ra_key a) (ra_reason a)) (sm_required m) (ir_required r)"
    by (simp_all add: add_match_def)
  then show ?thesis unfolding resolution_keys_def match_keys_def by (simp only: fold_add_keys fold_add_required) blast
next
  case False
  then show ?thesis by (simp add: add_match_def resolution_keys_def match_keys_def is_matched_def)
qed

lemma sound_add_match: "sound_resolution r \<Longrightarrow> sound_resolution (add_match item selector m r)"
  by (simp add: add_match_def sound_resolution_def fold_add_keys(2) fold_add_required(2))

text \<open>A property of the keys of matches holds of the keys of what they are added to.\<close>

definition keeps_keys :: "string set \<Rightarrow> (items_resolution \<Rightarrow> items_resolution outcome) \<Rightarrow> bool" where
  "keeps_keys K step \<longleftrightarrow>
     (\<forall>r r'. step r = Inr r' \<longrightarrow> sound_resolution r \<longrightarrow> resolution_keys r \<subseteq> K \<longrightarrow>
        sound_resolution r' \<and> resolution_keys r' \<subseteq> K)"

lemma keeps_keys_add_each:
  assumes "\<And>selector m. match selector = Inr m \<Longrightarrow> match_keys m \<subseteq> K"
  shows "keeps_keys K (add_each item tag selectors match)"
proof -
  have "fold_try (\<lambda>selector r. try_bind (match selector) (\<lambda>m. Inr (add_match item (tag selector) m r))) ss r = Inr r' \<Longrightarrow>
      sound_resolution r \<Longrightarrow> resolution_keys r \<subseteq> K \<Longrightarrow> sound_resolution r' \<and> resolution_keys r' \<subseteq> K" for ss r r'
  proof (induction ss arbitrary: r)
    case (Cons s ss)
    from Cons.prems(1) obtain m where m: "match s = Inr m" by (auto simp: try_bind_Inr_iff)
    with Cons.prems(1) have "fold_try (\<lambda>selector r. try_bind (match selector)
        (\<lambda>m. Inr (add_match item (tag selector) m r))) ss (add_match item (tag s) m r) = Inr r'" by simp
    from Cons.IH [OF this] show ?case
      using Cons.prems(2,3) assms [OF m] by (auto simp: resolution_keys_add_match sound_add_match)
  qed simp
  then show ?thesis by (simp add: keeps_keys_def add_each_def)
qed

lemma keeps_keys_bind:
  "keeps_keys K f \<Longrightarrow> keeps_keys K g \<Longrightarrow> keeps_keys K (\<lambda>r. try_bind (f r) g)"
  unfolding keeps_keys_def try_bind_Inr_iff by meson

lemma add_each_returns:
  assumes "\<And>selector. selector \<in> set (listed selectors) \<Longrightarrow> \<exists>m. match selector = Inr m"
  shows "\<exists>r'. add_each item tag selectors match r = Inr r'"
proof -
  have "\<forall>s \<in> set ss. \<exists>m. match s = Inr m \<Longrightarrow>
     \<exists>r'. fold_try (\<lambda>selector r. try_bind (match selector) (\<lambda>m. Inr (add_match item (tag selector) m r))) ss r = Inr r'"
    for ss by (induction ss arbitrary: r) (auto)
  with assms show ?thesis by (simp add: add_each_def)
qed

end
