(* ===== verification/Selection_Targets.thy ===== *)
theory Selection_Targets
  imports Selector_Matches
begin

section \<open>What a selection addresses\<close>

text \<open>
  \<^verbatim>\<open>partial-changes/selection/addressed-rows.ts\<close>, \<^verbatim>\<open>selection-targets.ts\<close>, \<^verbatim>\<open>created-or-removed-tables.ts\<close> and
  the source in \<^verbatim>\<open>selection-resolution.ts\<close>. Which of some row ids exist in a version of a table is read from
  the database: the argument \<open>reader\<close>. The leaves of a version are a function of its schema, so the cache of
  \<open>SelectionTargets\<close> by version id is left out.
\<close>

subsection \<open>Rows that are addressed\<close>

type_synonym addressed_rows = "(string, string list) jmap"

definition version_holds_row :: "addressed_rows \<Rightarrow> table_version option \<Rightarrow> string \<Rightarrow> bool" where
  "version_holds_row existing version rowId =
     (case version of
        None \<Rightarrow> False
      | Some v \<Rightarrow> (case map_of existing (tv_versionId v) of None \<Rightarrow> False | Some rowIds \<Rightarrow> rowId \<in> set rowIds))"

definition side_of_row :: "addressed_rows \<Rightarrow> table_pair \<Rightarrow> string \<Rightarrow> head_qualifier option \<Rightarrow> revision_side option" where
  "side_of_row existing table rowId side =
     resolve_side side (\<lambda>revisionSide. version_holds_row existing (version_on_side revisionSide table) rowId)"

definition distinct_tables :: "table_pair option list \<Rightarrow> table_pair list" where
  "distinct_tables tables =
     jvalues (fold (\<lambda>table byIdentity.
         case table of
           None \<Rightarrow> byIdentity
         | Some t \<Rightarrow> if map_of byIdentity (tp_identity t) = None
                    then AList.update (tp_identity t) t byIdentity else byIdentity) tables [])"

definition tables_of_row ::
  "table_pair public_id_index \<Rightarrow> string \<Rightarrow> head_qualifier option \<Rightarrow> table_pair list" where
  "tables_of_row tables tableId side =
     (if side = Some HeadQualified
      then distinct_tables [index_on tables HeadSide tableId, index_on tables DraftSide tableId]
      else distinct_tables [resolve_id tables tableId None])"

definition field_row_ref :: "field_ref \<Rightarrow> row_ref" where
  "field_row_ref f = \<lparr>wf_tableId = fr_tableId f, wf_rowId = fr_rowId f, wf_side = None\<rparr>"

definition addressed_rows_in :: "'x selection_items_scheme \<Rightarrow> row_ref list" where
  "addressed_rows_in items =
     listed (it_rows items) @ listed (it_renames items) @ listed (it_rowColumns items) @
     map field_row_ref (listed (it_fields items))"

definition addressed_row_ids_of :: "selection \<Rightarrow> row_ref list" where
  "addressed_row_ids_of selection = addressed_rows_in selection @ addressed_rows_in (excluded_items selection)"

definition add_row_id :: "string \<Rightarrow> string \<Rightarrow> (string, string list) jmap \<Rightarrow> (string, string list) jmap" where
  "add_row_id versionId rowId rowIds =
     (let existing = (case map_of rowIds versionId of None \<Rightarrow> [] | Some is \<Rightarrow> is)
      in AList.update versionId (if rowId \<in> set existing then existing else existing @ [rowId]) rowIds)"

definition row_ids_by_table_version :: "changes_snapshot \<Rightarrow> selection \<Rightarrow> (string, string list) jmap" where
  "row_ids_by_table_version snapshot selection =
     (let tables = public_id_index table_pair_ids (sn_tables snapshot)
      in fold (\<lambda>r rowIds.
           fold (\<lambda>version. add_row_id (tv_versionId version) (wf_rowId r))
             (concat (map versions_of (tables_of_row tables (wf_tableId r) (wf_side r)))) rowIds)
         (addressed_row_ids_of selection) [])"

definition read_addressed_rows ::
  "(string \<Rightarrow> string list \<Rightarrow> string list outcome) \<Rightarrow> changes_snapshot \<Rightarrow> selection \<Rightarrow> addressed_rows outcome" where
  "read_addressed_rows reader snapshot selection =
     fold_try (\<lambda>(versionId, rowIds) existing.
         try_bind (reader versionId rowIds) (\<lambda>found. Inr (AList.update versionId (uniq found) existing)))
       (row_ids_by_table_version snapshot selection) []"

subsection \<open>Targets\<close>

record selection_source =
  su_snapshot :: changes_snapshot
  su_headSchema :: head_schema_check
  su_tables :: "compared_table list"
  su_catalogue :: change_catalogue
  su_addressedRows :: addressed_rows

record selection_targets =
  sx_source :: selection_source
  sx_tables :: "table_pair public_id_index"
  sx_recreations :: "(string, table_pair list) jmap"

definition selection_targets :: "selection_source \<Rightarrow> selection_targets" where
  "selection_targets source =
     \<lparr>sx_source = source,
      sx_tables = public_id_index table_pair_ids (sn_tables (su_snapshot source)),
      sx_recreations =
        fold (\<lambda>members recreations. fold (\<lambda>pair. AList.update (tp_identity pair) members) members recreations)
          (group_recreations table_pair_ids (sn_tables (su_snapshot source))) []\<rparr>"

definition table_named :: "selection_targets \<Rightarrow> string \<Rightarrow> head_qualifier option \<Rightarrow> table_pair option" where
  "table_named targets tableId side = resolve_id (sx_tables targets) tableId side"

definition holds_row :: "selection_targets \<Rightarrow> table_pair \<Rightarrow> string \<Rightarrow> head_qualifier option \<Rightarrow> bool" where
  "holds_row targets table rowId side \<longleftrightarrow>
     side_of_row (su_addressedRows (sx_source targets)) table rowId side \<noteq> None"

definition table_of_row :: "selection_targets \<Rightarrow> row_ref \<Rightarrow> table_pair option" where
  "table_of_row targets r =
     (let tables = tables_of_row (sx_tables targets) (wf_tableId r) (wf_side r)
      in case find (\<lambda>table. holds_row targets table (wf_rowId r) (wf_side r)) tables of
           Some table \<Rightarrow> Some table
         | None \<Rightarrow> (case tables of [] \<Rightarrow> None | first # _ \<Rightarrow> Some first))"

definition row_named ::
  "selection_targets \<Rightarrow> table_pair \<Rightarrow> string \<Rightarrow> head_qualifier option \<Rightarrow> addressed_row option" where
  "row_named targets table rowId side =
     (case side_of_row (su_addressedRows (sx_source targets)) table rowId side of
        None \<Rightarrow> None
      | Some rowSide \<Rightarrow> Some \<lparr>ar_table = table, ar_rowId = rowId, ar_side = rowSide\<rparr>)"

definition refusals_of_table :: "selection_targets \<Rightarrow> table_pair \<Rightarrow> refused_table list" where
  "refusals_of_table targets pair =
     (case map_of (hs_refusedTablesByIdentity (su_headSchema (sx_source targets))) (tp_identity pair) of
        None \<Rightarrow> []
      | Some refused \<Rightarrow> [refused])"

definition refusals_of_structure :: "selection_targets \<Rightarrow> table_pair \<Rightarrow> refused_table list" where
  "refusals_of_structure targets table =
     concat (map (refusals_of_table targets)
       (case map_of (sx_recreations targets) (tp_identity table) of
          None \<Rightarrow> [table]
        | Some members \<Rightarrow> members))"

definition structure_of_target :: "selection_targets \<Rightarrow> table_pair \<Rightarrow> table_structure outcome" where
  "structure_of_target targets table = structure_of (ch_tables (su_catalogue (sx_source targets))) table"

definition version_of_row :: "addressed_row \<Rightarrow> table_version outcome" where
  "version_of_row row =
     (case version_on_side (ar_side row) (ar_table row) of
        None \<Rightarrow> Inl (''Table '' @ tp_identity (ar_table row) @ '' has no '' @ side_name (ar_side row) @ '' version'')
      | Some version \<Rightarrow> Inr version)"

definition leaf_at_or_above ::
  "system_schema_ids \<Rightarrow> addressed_row \<Rightarrow> json_pointer \<Rightarrow> schema_leaf option outcome" where
  "leaf_at_or_above ids row path =
     try_bind (version_of_row row) (\<lambda>version.
       Inr (find (\<lambda>leaf. is_at_or_above (leaf_pointer leaf) path) (leaves_of ids (tv_schema version))))"

subsection \<open>Tables that are created or removed\<close>

record reason_subject =
  rj_tableId :: string
  rj_rowId :: "string option"
  rj_path :: "string option"

definition is_created_or_removed :: "table_pair \<Rightarrow> bool" where
  "is_created_or_removed pair \<longleftrightarrow> tp_head pair = None \<or> tp_draft pair = None"

definition require_structure_of_created_or_removed ::
  "selection_targets \<Rightarrow> catalogue_lookup \<Rightarrow> table_pair \<Rightarrow> reason_subject \<Rightarrow> selector_match" where
  "require_structure_of_created_or_removed targets units table subject =
     (case refusing (refusals_of_structure targets table) of
        Some refused \<Rightarrow> refused
      | None \<Rightarrow> requiring_unit (table_unit_of units StructureUnit table)
          \<lparr>re_code = StructureBoundData, re_tableId = rj_tableId subject, re_rowId = rj_rowId subject,
           re_path = rj_path subject,
           re_because = ''the rows of '' @ rj_tableId subject @
             '' exist only with its structure (created or removed table)''\<rparr>)"

subsection \<open>A row that is addressed has a version\<close>

lemma resolve_side_holds: "resolve_side side holds = Some found \<Longrightarrow> holds found"
  by (auto simp: resolve_side_def split: if_splits)

lemma row_named_version:
  assumes "row_named targets table rowId side = Some row"
  shows "ar_table row = table" "\<exists>version. version_of_row row = Inr version"
proof -
  let ?existing = "su_addressedRows (sx_source targets)"
  from assms obtain found where found: "side_of_row ?existing table rowId side = Some found"
    and row: "row = \<lparr>ar_table = table, ar_rowId = rowId, ar_side = found\<rparr>"
    by (auto simp: row_named_def split: option.splits)
  then show "ar_table row = table" by simp
  have "version_holds_row ?existing (version_on_side found table) rowId"
    by (rule resolve_side_holds [OF found [unfolded side_of_row_def]])
  then show "\<exists>version. version_of_row row = Inr version"
    by (auto simp: version_holds_row_def version_of_row_def row split: option.splits)
qed

lemma index_on_member: "index_on (public_id_index ids entries) side i = Some entry \<Longrightarrow> entry \<in> set entries"
  by (auto simp: index_on_find find_Some_iff) (metis length_rev nth_mem set_rev)

lemma resolve_id_member: "resolve_id (public_id_index ids entries) i side = Some entry \<Longrightarrow> entry \<in> set entries"
  by (auto simp: resolve_id_index dest: index_on_member split: if_splits option.splits)

lemma distinct_tables_members: "set (distinct_tables tables) \<subseteq> {t. Some t \<in> set tables}"
proof -
  let ?step = "\<lambda>table byIdentity.
         case table of
           None \<Rightarrow> byIdentity
         | Some t \<Rightarrow> if map_of byIdentity (tp_identity t) = None
                    then AList.update (tp_identity t) t byIdentity else byIdentity"
  have "set (jvalues (fold ?step ts m)) \<subseteq> set (jvalues m) \<union> {t. Some t \<in> set ts}" for ts m
  proof (induction ts arbitrary: m)
    case (Cons t ts)
    have "set (jvalues (?step t m)) \<subseteq> set (jvalues m) \<union> {x. Some x = t}"
      using jmap_entries_set [of "tp_identity (the t)" "the t" m] by (auto split: option.splits)
    with Cons.IH [of "?step t m"] show ?case by (auto simp only: fold.simps comp_def set_simps)
  qed simp
  from this [of tables "[]"] show ?thesis by (simp add: distinct_tables_def)
qed

lemma table_of_row_member:
  assumes "table_of_row (selection_targets source) r = Some table"
  shows "table \<in> set (sn_tables (su_snapshot source))"
proof -
  let ?tables = "public_id_index table_pair_ids (sn_tables (su_snapshot source))"
  have "table \<in> set (tables_of_row ?tables (wf_tableId r) (wf_side r))"
    using assms by (auto simp: table_of_row_def Let_def selection_targets_def find_Some_iff split: option.splits list.splits)
  then show ?thesis
    by (auto simp: tables_of_row_def dest!: subsetD [OF distinct_tables_members] split: if_splits
        dest: index_on_member [OF sym] resolve_id_member [OF sym])
qed

lemma table_named_member:
  "table_named (selection_targets source) tableId side = Some table \<Longrightarrow> table \<in> set (sn_tables (su_snapshot source))"
  by (auto simp: table_named_def selection_targets_def dest: resolve_id_member)

end
