(* ===== verification/Field_Selections.thy ===== *)
theory Field_Selections
  imports Selection_Targets
begin

section \<open>Selecting fields\<close>

text \<open>
  \<^verbatim>\<open>partial-changes/selection/field-normalisation.ts\<close>: what a selector of a field of a row selects. The
  object \<open>FieldNormalisation\<close> is a record of what its constructor computes; parsing the path of the
  selector may throw.
\<close>

record field_normalisation =
  fn_targets :: selection_targets
  fn_units :: catalogue_lookup
  fn_row :: addressed_row
  fn_selector :: field_ref
  fn_path :: json_pointer
  fn_leaf :: "schema_leaf option"
  fn_address :: string

definition field_normalisation ::
  "system_schema_ids \<Rightarrow> selection_targets \<Rightarrow> catalogue_lookup \<Rightarrow> addressed_row \<Rightarrow> field_ref \<Rightarrow>
   field_normalisation outcome" where
  "field_normalisation ids targets units row selector =
     try_bind (parse_pointer (fr_path selector)) (\<lambda>path.
     try_bind (leaf_at_or_above ids row path) (\<lambda>leaf.
       Inr \<lparr>fn_targets = targets, fn_units = units, fn_row = row, fn_selector = selector, fn_path = path,
            fn_leaf = leaf, fn_address = fr_tableId selector @ ''/'' @ fr_rowId selector\<rparr>))"

definition field_reason :: "field_normalisation \<Rightarrow> required_reason_code \<Rightarrow> string \<Rightarrow> reason" where
  "field_reason f code because =
     \<lparr>re_code = code, re_tableId = fr_tableId (fn_selector f), re_rowId = Some (fr_rowId (fn_selector f)),
      re_path = Some (fr_path (fn_selector f)), re_because = because\<rparr>"

definition not_selectable :: "field_normalisation \<Rightarrow> plan_blocker" where
  "not_selectable f =
     blocker_at NotSelectable (Some (fr_tableId (fn_selector f))) (Some (fr_rowId (fn_selector f)))
       (Some (fr_path (fn_selector f)))
       (fn_address f @ fr_path (fn_selector f) @ '' is a computed value that follows its inputs'')"

definition is_existence :: "catalogue_unit \<Rightarrow> bool" where
  "is_existence u \<longleftrightarrow>
     cu_kind (ca_unit u) = RowCreateUnit \<or> cu_kind (ca_unit u) = RowDeleteUnit \<or>
     cu_kind (ca_unit u) = RowReplaceUnit"

definition pointer_of_unit :: "catalogue_unit \<Rightarrow> json_pointer outcome" where
  "pointer_of_unit u = parse_pointer (case cu_path (ca_unit u) of None \<Rightarrow> [] | Some path \<Rightarrow> path)"

definition points_inside :: "field_normalisation \<Rightarrow> schema_leaf \<Rightarrow> bool" where
  "points_inside f leaf \<longleftrightarrow> \<not> is_at_or_above (fn_path f) (leaf_pointer leaf)"

definition require_existence :: "field_normalisation \<Rightarrow> catalogue_unit \<Rightarrow> selector_match" where
  "require_existence f existence =
     requiring_unit (Some existence) (field_reason f WholeRowUnit
       (fn_address f @ '' is created, deleted or replaced as a whole row''))"

definition require_atomic_value :: "field_normalisation \<Rightarrow> schema_leaf \<Rightarrow> catalogue_unit list \<Rightarrow> selector_match" where
  "require_atomic_value f leaf units =
     (if leaf_kind leaf \<noteq> AtomicLeaf then no_match
      else let value = pointer_string (leaf_pointer leaf)
           in requiring_unit (find (\<lambda>u. cu_path (ca_unit u) = Some value) units)
                (field_reason f AtomicValue
                  (fr_path (fn_selector f) @ '' is inside the atomic value '' @ value @ '' of '' @ fn_address f)))"

definition match_units_of_row :: "field_normalisation \<Rightarrow> selector_match outcome" where
  "match_units_of_row f =
     try_bind (units_of_row (fn_units f) (fn_row f)) (\<lambda>units.
       case find is_existence units of
         Some existence \<Rightarrow> Inr (require_existence f existence)
       | None \<Rightarrow>
           (let fieldUnits = filter (\<lambda>u. cu_kind (ca_unit u) = FieldUnit) units;
                selectBelow = try_bind
                  (filter_outcome (\<lambda>u. try_bind (pointer_of_unit u) (\<lambda>p. Inr (is_at_or_above (fn_path f) p))) fieldUnits)
                  (\<lambda>below. Inr (selecting below))
            in case fn_leaf f of
                 None \<Rightarrow> selectBelow
               | Some leaf \<Rightarrow>
                   if points_inside f leaf then Inr (require_atomic_value f leaf fieldUnits) else selectBelow))"

definition require_structure_of_changed_fields :: "field_normalisation \<Rightarrow> selector_match outcome" where
  "require_structure_of_changed_fields f =
     try_bind (structure_of_target (fn_targets f) (ar_table (fn_row f))) (\<lambda>structure.
       if \<not> list_ex (\<lambda>pointer. is_at_or_above pointer (fn_path f) \<or> is_at_or_above (fn_path f) pointer)
              (st_changedPointers structure)
       then Inr no_match
       else Inr (requiring_unit (table_unit_of (fn_units f) StructureUnit (ar_table (fn_row f)))
         (field_reason f StructureBoundData
           (fn_address f @ fr_path (fn_selector f) @
            '' touches a new or changed field; its values belong to the structure of '' @
            fr_tableId (fn_selector f)))))"

definition match_field :: "field_normalisation \<Rightarrow> selector_match outcome" where
  "match_field f =
     (if map_option leaf_kind (fn_leaf f) = Some ComputedLeaf then Inr (blocked_by [not_selectable f])
      else if is_created_or_removed (ar_table (fn_row f))
      then Inr (require_structure_of_created_or_removed (fn_targets f) (fn_units f) (ar_table (fn_row f))
        \<lparr>rj_tableId = fr_tableId (fn_selector f), rj_rowId = Some (fr_rowId (fn_selector f)),
         rj_path = Some (fr_path (fn_selector f))\<rparr>)
      else try_bind (match_units_of_row f) (\<lambda>units.
           try_bind (require_structure_of_changed_fields f) (\<lambda>structure.
             Inr (combined units structure))))"

end
