(* ===== verification/Selection_Resolution.thy ===== *)
theory Selection_Resolution
  imports Field_Selections
begin

section \<open>Resolving a selection\<close>

text \<open>
  \<^verbatim>\<open>partial-changes/selection/selector-matcher.ts\<close>, \<^verbatim>\<open>selection-resolver.ts\<close> and the resolution in
  \<^verbatim>\<open>selection-resolution.ts\<close>. Resolving a selection gives the units it selects, those it leaves out and those it
  requires, the blockers it meets and the selectors that match no unit.
\<close>

subsection \<open>Matching selectors\<close>

record selector_matcher =
  mx_ids :: system_schema_ids
  mx_targets :: selection_targets
  mx_units :: catalogue_lookup

definition in_table ::
  "selector_matcher \<Rightarrow> table_pair option \<Rightarrow> (table_pair \<Rightarrow> selector_match outcome) \<Rightarrow> selector_match outcome" where
  "in_table m table match =
     (case table of
        None \<Rightarrow> Inr no_match
      | Some t \<Rightarrow> (case refusing (refusals_of_table (mx_targets m) t) of
            Some refused \<Rightarrow> Inr refused
          | None \<Rightarrow> match t))"

definition at_table ::
  "selector_matcher \<Rightarrow> string \<Rightarrow> (table_pair \<Rightarrow> selector_match outcome) \<Rightarrow> selector_match outcome" where
  "at_table m tableId match = in_table m (table_named (mx_targets m) tableId None) match"

definition at_row ::
  "selector_matcher \<Rightarrow> row_ref \<Rightarrow> (addressed_row \<Rightarrow> selector_match outcome) \<Rightarrow> selector_match outcome" where
  "at_row m selector match =
     in_table m (table_of_row (mx_targets m) selector) (\<lambda>table.
       case row_named (mx_targets m) table (wf_rowId selector) (wf_side selector) of
         None \<Rightarrow> Inr no_match
       | Some row \<Rightarrow> match row)"

definition match_structure :: "selector_matcher \<Rightarrow> table_ref \<Rightarrow> selector_match" where
  "match_structure m selector =
     (let (tableId, side) = table_ref_of selector
      in case table_named (mx_targets m) tableId side of
           Some table \<Rightarrow>
             (case refusing (refusals_of_structure (mx_targets m) table) of
                Some refused \<Rightarrow> refused
              | None \<Rightarrow> selecting_unit (table_unit_of (mx_units m) StructureUnit table))
         | None \<Rightarrow>
             if side = Some HeadQualified then no_match
             else selecting_unit (unit_without_table (mx_units m) StructureUnit tableId))"

definition match_table_data :: "selector_matcher \<Rightarrow> table_pair \<Rightarrow> string \<Rightarrow> selector_match" where
  "match_table_data m table tableId =
     (if is_created_or_removed table
      then require_structure_of_created_or_removed (mx_targets m) (mx_units m) table
        \<lparr>rj_tableId = tableId, rj_rowId = None, rj_path = None\<rparr>
      else selecting (row_level_units_of (mx_units m) table))"

definition match_row :: "selector_matcher \<Rightarrow> addressed_row \<Rightarrow> row_ref \<Rightarrow> selector_match outcome" where
  "match_row m row selector =
     (if is_created_or_removed (ar_table row)
      then Inr (require_structure_of_created_or_removed (mx_targets m) (mx_units m) (ar_table row)
        \<lparr>rj_tableId = wf_tableId selector, rj_rowId = Some (wf_rowId selector), rj_path = None\<rparr>)
      else try_bind (units_of_row (mx_units m) row) (\<lambda>units. Inr (selecting units)))"

definition match_row_unit :: "selector_matcher \<Rightarrow> unit_kind \<Rightarrow> addressed_row \<Rightarrow> selector_match outcome" where
  "match_row_unit m kind row =
     try_bind (units_of_row (mx_units m) row) (\<lambda>units.
       Inr (selecting (filter (\<lambda>u. cu_kind (ca_unit u) = kind) units)))"

definition match_items :: "selector_matcher \<Rightarrow> 'x selection_items_scheme \<Rightarrow> items_resolution outcome" where
  "match_items m items =
     try_bind (add_each TablesItem TableRefSelector (it_tables items) (\<lambda>s. Inr (match_structure m s)) new_resolution)
       (\<lambda>r. try_bind (add_each TableDataItem IdSelector (it_tableData items)
          (\<lambda>tableId. at_table m tableId (\<lambda>table. Inr (match_table_data m table tableId))) r)
       (\<lambda>r. try_bind (add_each ViewsItem IdSelector (it_views items)
          (\<lambda>tableId. at_table m tableId (\<lambda>table. Inr (selecting_unit (table_unit_of (mx_units m) ViewsUnit table)))) r)
       (\<lambda>r. try_bind (add_each SharedSchemasItem IdSelector (it_sharedSchemas items)
          (\<lambda>i. Inr (selecting_unit (unit_without_table (mx_units m) SharedSchemaUnit i))) r)
       (\<lambda>r. try_bind (add_each RowsItem RowRefSelector (it_rows items)
          (\<lambda>s. at_row m s (\<lambda>row. match_row m row s)) r)
       (\<lambda>r. try_bind (add_each RenamesItem RowRefSelector (it_renames items)
          (\<lambda>s. at_row m s (match_row_unit m RowRenameUnit)) r)
       (\<lambda>r. try_bind (add_each RowColumnsItem RowRefSelector (it_rowColumns items)
          (\<lambda>s. at_row m s (match_row_unit m RowColumnsUnit)) r)
       (\<lambda>r. add_each FieldsItem FieldRefSelector (it_fields items)
          (\<lambda>s. at_row m (field_row_ref s) (\<lambda>row.
             try_bind (field_normalisation (mx_ids m) (mx_targets m) (mx_units m) row s) match_field)) r)))))))"

subsection \<open>The resolution\<close>

record unmatched_selection = selection_items +
  um_exclude :: "selection_items option"

record selection_resolution =
  sr_selected :: "string list"
  sr_excluded :: "string list"
  sr_required :: "(string, reason) jmap"
  sr_blockers :: "plan_blocker list"
  sr_unmatched :: unmatched_selection

definition has_unmatched_selectors :: "unmatched_selection \<Rightarrow> bool" where
  "has_unmatched_selectors u \<longleftrightarrow>
     it_tables u \<noteq> None \<or> it_tableData u \<noteq> None \<or> it_views u \<noteq> None \<or> it_sharedSchemas u \<noteq> None \<or>
     it_rows u \<noteq> None \<or> it_renames u \<noteq> None \<or> it_rowColumns u \<noteq> None \<or> it_fields u \<noteq> None \<or>
     um_exclude u \<noteq> None"

record selection_resolver =
  sv_selection :: selection
  sv_source :: selection_source
  sv_included :: items_resolution
  sv_exclusions :: items_resolution
  sv_excluded :: "string list"

definition selection_resolver ::
  "system_schema_ids \<Rightarrow> selection \<Rightarrow> selection_source \<Rightarrow> selection_resolver outcome" where
  "selection_resolver ids selection source =
     (let m = \<lparr>mx_ids = ids, mx_targets = selection_targets source, mx_units = ch_lookup (su_catalogue source)\<rparr>
      in try_bind (match_items m selection) (\<lambda>included.
         try_bind (match_items m (excluded_items selection)) (\<lambda>exclusions.
           Inr \<lparr>sv_selection = selection, sv_source = source, sv_included = included,
                sv_exclusions = exclusions,
                sv_excluded = uniq (ir_selected exclusions @ jkeys (ir_required exclusions))\<rparr>)))"

definition candidate_keys :: "selection_resolver \<Rightarrow> string list" where
  "candidate_keys v =
     (if selects_all (sv_selection v) then map ca_key (ch_units (su_catalogue (sv_source v)))
      else ir_selected (sv_included v))"

definition selected_keys :: "selection_resolver \<Rightarrow> string list" where
  "selected_keys v = uniq (filter (\<lambda>key. key \<notin> set (sv_excluded v)) (candidate_keys v))"

definition required_additions :: "selection_resolver \<Rightarrow> string list \<Rightarrow> (string, reason) jmap" where
  "required_additions v selected =
     filter (\<lambda>(key, _). key \<notin> set selected \<and> key \<notin> set (sv_excluded v)) (ir_required (sv_included v))"

definition refusals_of_every_table :: "selection_resolver \<Rightarrow> plan_blocker list" where
  "refusals_of_every_table v =
     (if \<not> selects_all (sv_selection v) \<or> is_whole_draft_selection (sv_selection v) then []
      else map refusal_blocker (ch_refusedTables (su_catalogue (sv_source v))))"

definition excluded_required_units :: "selection_resolver \<Rightarrow> plan_blocker list outcome" where
  "excluded_required_units v =
     map_try (\<lambda>(key, why). try_bind (unit_of_key (ch_lookup (su_catalogue (sv_source v))) key)
         (\<lambda>u. Inr (required_excluded u why)))
       (filter (\<lambda>(key, _). key \<in> set (sv_excluded v)) (ir_required (sv_included v)))"

definition any_selector_unmatched :: "selection_resolver \<Rightarrow> bool" where
  "any_selector_unmatched v \<longleftrightarrow> has_unmatched (sv_included v) \<or> has_unmatched (sv_exclusions v)"

definition unmatched_selectors :: "selection_resolver \<Rightarrow> nat \<Rightarrow> plan_blocker list" where
  "unmatched_selectors v appliedUnits =
     (if \<not> any_selector_unmatched v \<or> appliedUnits = 0 then []
      else [blocker_at UnmatchedSelector None None None ''Some selectors match no unit; see unmatched''])"

definition unmatched_selection :: "selection_resolver \<Rightarrow> unmatched_selection" where
  "unmatched_selection v =
     selection_items.extend (unmatched_items (sv_included v)) (unmatched_selection.fields
       (if has_unmatched (sv_exclusions v) then Some (unmatched_items (sv_exclusions v)) else None))"

definition resolve_units :: "selection_resolver \<Rightarrow> selection_resolution outcome" where
  "resolve_units v =
     (let selected = selected_keys v;
          required = required_additions v selected
      in try_bind (excluded_required_units v) (\<lambda>excludedRequired.
        Inr \<lparr>sr_selected = selected, sr_excluded = sv_excluded v, sr_required = required,
             sr_blockers = distinct_blockers (refusals_of_every_table v @ ir_blockers (sv_included v) @
               ir_blockers (sv_exclusions v) @ excludedRequired @
               unmatched_selectors v (length selected + length required)),
             sr_unmatched = unmatched_selection v\<rparr>))"

definition resolve_selection ::
  "system_schema_ids \<Rightarrow> selection \<Rightarrow> selection_source \<Rightarrow> selection_resolution outcome" where
  "resolve_selection ids selection source = try_bind (selection_resolver ids selection source) resolve_units"

subsection \<open>Only listed units are matched\<close>

lemma lookup_listed:
  "set (units_under (lk_tableLevelUnits (catalogue_lookup units rows)) k) \<subseteq> set units"
  "set (units_under (lk_rowLevelUnits (catalogue_lookup units rows)) k) \<subseteq> set units"
  "set (units_under (lk_unitsWithoutTable (catalogue_lookup units rows)) k) \<subseteq> set units"
proof -
  have add: "set (units_under (add_to key u m) k) \<subseteq> insert u (set (units_under m k))" for key u m k
    by auto
  have add_all: "set (units_under (fold (\<lambda>identity. add_to identity u) ks m) k) \<subseteq> insert u (set (units_under m k))" for ks u m k
  proof (induction ks arbitrary: m)
    case (Cons i ks)
    from Cons.IH [of "add_to i u m"] add [of i u m k] show ?case by auto
  qed auto
  have "set (units_under (lk_tableLevelUnits (catalogue_lookup units rows)) k) \<subseteq> set units \<and>
      set (units_under (lk_rowLevelUnits (catalogue_lookup units rows)) k) \<subseteq> set units \<and>
      set (units_under (lk_unitsWithoutTable (catalogue_lookup units rows)) k) \<subseteq> set units" for k
  proof (induction units rule: rev_induct)
    case (snoc u units)
    then show ?case
      unfolding catalogue_lookup_snoc
      by (auto simp: index_unit_def Let_def dest!: subsetD [OF add_all] split: if_splits)
  qed (simp add: catalogue_lookup_def units_under_def)
  then show "set (units_under (lk_tableLevelUnits (catalogue_lookup units rows)) k) \<subseteq> set units"
    "set (units_under (lk_rowLevelUnits (catalogue_lookup units rows)) k) \<subseteq> set units"
    "set (units_under (lk_unitsWithoutTable (catalogue_lookup units rows)) k) \<subseteq> set units" by simp_all
qed

lemma find_member: "find p xs = Some x \<Longrightarrow> x \<in> set xs"
  by (auto simp: find_Some_iff)

lemma set_find: "set_option (find p xs) \<subseteq> set xs"
  by (auto dest: find_member)

text \<open>The keys the units of a catalogue have.\<close>

abbreviation listed_keys :: "change_catalogue \<Rightarrow> string set" where
  "listed_keys cat \<equiv> ca_key ` set (ch_units cat)"

lemma sound_lookup: "sound_catalogue cat \<Longrightarrow> ch_lookup cat = catalogue_lookup (ch_units cat) (ch_rows cat)"
  by (simp add: sound_catalogue_def)

lemma found_units_listed:
  assumes "sound_catalogue cat"
  shows "table_unit_of (ch_lookup cat) kind pair = Some u \<Longrightarrow> ca_key u \<in> listed_keys cat"
    "unit_without_table (ch_lookup cat) kind i = Some u \<Longrightarrow> ca_key u \<in> listed_keys cat"
    "u \<in> set (row_level_units_of (ch_lookup cat) pair) \<Longrightarrow> ca_key u \<in> listed_keys cat"
    "units_of_row (ch_lookup cat) a = Inr us \<Longrightarrow> u \<in> set us \<Longrightarrow> ca_key u \<in> listed_keys cat"
proof -
  note lookup = sound_lookup [OF assms]
  show "table_unit_of (ch_lookup cat) kind pair = Some u \<Longrightarrow> ca_key u \<in> listed_keys cat"
    "unit_without_table (ch_lookup cat) kind i = Some u \<Longrightarrow> ca_key u \<in> listed_keys cat"
    "u \<in> set (row_level_units_of (ch_lookup cat) pair) \<Longrightarrow> ca_key u \<in> listed_keys cat"
    unfolding lookup table_unit_of_def unit_without_table_def row_level_units_of_def
    using lookup_listed [of "ch_units cat" "ch_rows cat"] by (blast dest: find_member)+
  show "ca_key u \<in> listed_keys cat" if "units_of_row (ch_lookup cat) a = Inr us" "u \<in> set us"
    using sound_units_of_row [OF assms, of a] that by auto
qed

definition listed_match :: "change_catalogue \<Rightarrow> selector_match \<Rightarrow> bool" where
  "listed_match cat m \<longleftrightarrow> match_keys m \<subseteq> listed_keys cat"

lemma found_keys_listed:
  assumes "sound_catalogue cat"
  shows "listed_match cat (requiring_unit (table_unit_of (ch_lookup cat) kind pair) why)"
    "listed_match cat (selecting_unit (table_unit_of (ch_lookup cat) kind pair))"
    "listed_match cat (selecting_unit (unit_without_table (ch_lookup cat) kind i))"
    "listed_match cat (selecting (row_level_units_of (ch_lookup cat) pair))"
    "units_of_row (ch_lookup cat) a = Inr us \<Longrightarrow> listed_match cat (selecting (filter p us))"
    "units_of_row (ch_lookup cat) a = Inr us \<Longrightarrow> listed_match cat (selecting us)"
  unfolding listed_match_def match_keys_simps using found_units_listed [OF assms] by (auto simp del: image_iff)

lemma listed_match_simps [simp]:
  "listed_match cat no_match" "listed_match cat (blocked_by blockers)"
  "listed_match cat (combined l m) \<longleftrightarrow> listed_match cat l \<and> listed_match cat m"
  by (auto simp: listed_match_def)

lemma refusing_listed: "refusing refusals = Some m \<Longrightarrow> listed_match cat m"
  by (auto simp: refusing_def split: if_splits)

lemma required_structure_listed:
  assumes "sound_catalogue cat"
  shows "listed_match cat (require_structure_of_created_or_removed targets (ch_lookup cat) table subject)"
  unfolding require_structure_of_created_or_removed_def
  by (auto intro: found_keys_listed [OF assms] dest: refusing_listed split: option.splits)

lemma match_units_of_row_listed:
  assumes "sound_catalogue cat" "fn_units f = ch_lookup cat" "match_units_of_row f = Inr l"
  shows "listed_match cat l"
proof -
  from assms(3) obtain us where us: "units_of_row (ch_lookup cat) (fn_row f) = Inr us"
    by (auto simp: match_units_of_row_def assms(2))
  have "match_keys (require_atomic_value f leaf (filter p us)) \<subseteq> ca_key ` set us" for leaf p
    by (auto simp: require_atomic_value_def Let_def dest: find_member)
  with assms(3) us have "match_keys l \<subseteq> ca_key ` set us"
    by (auto simp: match_units_of_row_def assms(2) Let_def require_existence_def
        dest!: filter_outcome_Inr dest: find_member split: option.splits if_splits)
  with found_units_listed(4) [OF assms(1) us] show ?thesis unfolding listed_match_def by blast
qed

lemma match_field_listed:
  assumes "sound_catalogue cat" "fn_units f = ch_lookup cat" "match_field f = Inr m"
  shows "listed_match cat m"
proof -
  have "listed_match cat l" if "require_structure_of_changed_fields f = Inr l" for l
    using that found_keys_listed(1) [OF assms(1)]
    unfolding require_structure_of_changed_fields_def assms(2) by (auto simp del: append_Cons split: if_splits)
  then show ?thesis
    using assms(3) match_units_of_row_listed [OF assms(1,2)] required_structure_listed [OF assms(1)]
    unfolding match_field_def assms(2) by (auto split: if_splits)
qed

lemma in_table_listed:
  assumes "in_table m table match = Inr l" "\<And>t l. match t = Inr l \<Longrightarrow> listed_match cat l"
  shows "listed_match cat l"
  using assms by (auto simp: in_table_def dest: refusing_listed split: option.splits)

lemma at_row_listed:
  assumes "at_row m selector match = Inr l" "\<And>row l. match row = Inr l \<Longrightarrow> listed_match cat l"
  shows "listed_match cat l"
  using assms(1) unfolding at_row_def
  by (rule in_table_listed) (auto dest: assms(2) split: option.splits)

lemma match_items_listed:
  assumes "sound_catalogue cat" "mx_units m = ch_lookup cat" "match_items m items = Inr r"
  shows "sound_resolution r \<and> resolution_keys r \<subseteq> listed_keys cat"
proof -
  note found = found_keys_listed [OF assms(1)] and needed = required_structure_listed [OF assms(1)]
  have bound: "listed_match cat (match_structure m s)" for s
    by (auto simp: match_structure_def assms(2) Let_def found dest: refusing_listed split: prod.splits option.splits)
  have data: "listed_match cat (match_table_data m table tableId)" for table tableId
    by (simp add: match_table_data_def assms(2) found needed)
  have row: "listed_match cat l" if "match_row m row s = Inr l" for row s l
    using that by (auto simp: match_row_def assms(2) found needed split: if_splits)
  have unit: "listed_match cat l" if "match_row_unit m kind row = Inr l" for kind row l
    using that by (auto simp: match_row_unit_def assms(2) found)
  have field: "listed_match cat l"
    if "try_bind (field_normalisation (mx_ids m) (mx_targets m) (mx_units m) row s) match_field = Inr l" for row s l
    using that by (auto simp: field_normalisation_def assms(2) intro!: match_field_listed [OF assms(1)])
  let ?good = "\<lambda>r. sound_resolution r \<and> resolution_keys r \<subseteq> listed_keys cat"
  have step: "?good r'" if "?good r" "add_each item tag ss match r = Inr r'"
    "\<And>s l. match s = Inr l \<Longrightarrow> listed_match cat l" for item and tag :: "'s \<Rightarrow> item_selector" and ss match r r'
  proof -
    have "keeps_keys (listed_keys cat) (add_each item tag ss match)"
      by (rule keeps_keys_add_each) (use that(3) in \<open>simp add: listed_match_def\<close>)
    with that(1,2) show ?thesis unfolding keeps_keys_def by blast
  qed
  from assms(3) obtain r1 r2 r3 r4 r5 r6 r7 where run:
    "add_each TablesItem TableRefSelector (it_tables items) (\<lambda>s. Inr (match_structure m s)) new_resolution = Inr r1"
    "add_each TableDataItem IdSelector (it_tableData items)
       (\<lambda>tableId. at_table m tableId (\<lambda>table. Inr (match_table_data m table tableId))) r1 = Inr r2"
    "add_each ViewsItem IdSelector (it_views items)
       (\<lambda>tableId. at_table m tableId (\<lambda>table. Inr (selecting_unit (table_unit_of (mx_units m) ViewsUnit table)))) r2 = Inr r3"
    "add_each SharedSchemasItem IdSelector (it_sharedSchemas items)
       (\<lambda>i. Inr (selecting_unit (unit_without_table (mx_units m) SharedSchemaUnit i))) r3 = Inr r4"
    "add_each RowsItem RowRefSelector (it_rows items) (\<lambda>s. at_row m s (\<lambda>row. match_row m row s)) r4 = Inr r5"
    "add_each RenamesItem RowRefSelector (it_renames items) (\<lambda>s. at_row m s (match_row_unit m RowRenameUnit)) r5 = Inr r6"
    "add_each RowColumnsItem RowRefSelector (it_rowColumns items) (\<lambda>s. at_row m s (match_row_unit m RowColumnsUnit)) r6 = Inr r7"
    "add_each FieldsItem FieldRefSelector (it_fields items)
       (\<lambda>s. at_row m (field_row_ref s) (\<lambda>row.
          try_bind (field_normalisation (mx_ids m) (mx_targets m) (mx_units m) row s) match_field)) r7 = Inr r"
    unfolding match_items_def by auto
  have "?good new_resolution"
    by (simp add: new_resolution_def sound_resolution_def resolution_keys_def jmap_ok_def)
  then have "?good r1" by (rule step [OF _ run(1)]) (use bound in auto)
  then have "?good r2" by (rule step [OF _ run(2)]) (auto simp: at_table_def data elim!: in_table_listed)
  then have "?good r3"
    by (rule step [OF _ run(3)]) (auto simp: at_table_def assms(2) found elim!: in_table_listed)
  then have "?good r4" by (rule step [OF _ run(4)]) (auto simp: assms(2) found)
  then have "?good r5" by (rule step [OF _ run(5)]) (erule at_row_listed, erule row)
  then have "?good r6" by (rule step [OF _ run(6)]) (erule at_row_listed, erule unit)
  then have "?good r7" by (rule step [OF _ run(7)]) (erule at_row_listed, erule unit)
  then show ?thesis by (rule step [OF _ run(8)]) (erule at_row_listed, erule field)
qed

subsection \<open>Resolving never fails\<close>

text \<open>What a source must be for a resolution: its parts are those of one comparison.\<close>

definition source_of_comparison ::
  "changes_snapshot \<Rightarrow> compared_snapshot \<Rightarrow> change_catalogue \<Rightarrow> addressed_rows \<Rightarrow> selection_source" where
  "source_of_comparison snapshot c cat existing =
     \<lparr>su_snapshot = snapshot, su_headSchema = cs_headSchema c, su_tables = cs_tables c, su_catalogue = cat,
      su_addressedRows = existing\<rparr>"

definition paths_valid :: "'x selection_items_scheme \<Rightarrow> bool" where
  "paths_valid items \<longleftrightarrow> list_all (\<lambda>f. is_valid_pointer (fr_path f)) (listed (it_fields items))"

definition structures_known :: "selection_source \<Rightarrow> bool" where
  "structures_known source \<longleftrightarrow>
     (\<forall>pair \<in> set (sn_tables (su_snapshot source)). \<not> is_created_or_removed pair \<longrightarrow>
        (\<exists>s. structure_of (ch_tables (su_catalogue source)) pair = Inr s))"

lemma comparison_structures_known:
  assumes "read_compared_snapshot tk ids equal deq snapshot wholeDraft = Inr c"
    "build_change_catalogue tk equal vequal (with_changed_rows c changedRows) = Inr cat"
  shows "structures_known (source_of_comparison snapshot c cat existing)"
proof -
  have "ch_tables cat = catalogue_tables snapshot (cs_tables c)"
    using assms(2) compared_pairs(1) [OF assms(1)] by (auto simp: build_change_catalogue_def Let_def)
  with compared_pair_has_structure [OF assms(1)] show ?thesis
    by (auto simp: structures_known_def source_of_comparison_def is_created_or_removed_def)
qed

lemma field_pointers_parse:
  assumes "sound_catalogue cat" "units_of_row (ch_lookup cat) a = Inr us" "u \<in> set us"
    "cu_kind (ca_unit u) = FieldUnit"
  shows "\<exists>p. pointer_of_unit u = Inr p"
proof -
  have "u \<in> set (ch_units cat)" using sound_units_of_row [OF assms(1), of a] assms(2,3) by auto
  with assms(1,4) obtain p where "cu_path (ca_unit u) = Some (pointer_string p)"
    by (auto simp: sound_catalogue_def addressable_unit_def)
  then show ?thesis by (simp add: pointer_of_unit_def parse_pointer_string)
qed

lemma filter_outcome_returns: "(\<And>x. x \<in> set xs \<Longrightarrow> \<exists>b. p x = Inr b) \<Longrightarrow> \<exists>ys. filter_outcome p xs = Inr ys"
proof (induction xs)
  case (Cons x xs)
  then obtain b ys where "p x = Inr b" "filter_outcome p xs = Inr ys" by (metis list.set_intros)
  then show ?case by simp
qed simp

lemma match_field_returns:
  assumes "sound_catalogue cat" "fn_units f = ch_lookup cat"
    "\<not> is_created_or_removed (ar_table (fn_row f)) \<Longrightarrow> \<exists>s. structure_of_target (fn_targets f) (ar_table (fn_row f)) = Inr s"
  shows "\<exists>m. match_field f = Inr m"
proof -
  obtain us where us: "units_of_row (ch_lookup cat) (fn_row f) = Inr us"
    using sound_units_of_row [OF assms(1)] by blast
  have "\<exists>b. try_bind (pointer_of_unit u) (\<lambda>p. Inr (is_at_or_above (fn_path f) p)) = Inr b"
    if "u \<in> set (filter (\<lambda>u. cu_kind (ca_unit u) = FieldUnit) us)" for u
    using field_pointers_parse [OF assms(1) us, of u] that by auto
  then obtain below where "filter_outcome (\<lambda>u. try_bind (pointer_of_unit u) (\<lambda>p. Inr (is_at_or_above (fn_path f) p)))
      (filter (\<lambda>u. cu_kind (ca_unit u) = FieldUnit) us) = Inr below"
    using filter_outcome_returns [where xs = "filter (\<lambda>u. cu_kind (ca_unit u) = FieldUnit) us"
        and p = "\<lambda>u. try_bind (pointer_of_unit u) (\<lambda>p. Inr (is_at_or_above (fn_path f) p))"] by blast
  then have "\<exists>m. match_units_of_row f = Inr m"
    by (auto simp: match_units_of_row_def assms(2) us Let_def simp del: is_at_or_above_prefix split: option.splits)
  moreover have "\<exists>m. require_structure_of_changed_fields f = Inr m" if "\<not> is_created_or_removed (ar_table (fn_row f))"
  proof -
    from assms(3) [OF that] obtain s where s: "structure_of_target (fn_targets f) (ar_table (fn_row f)) = Inr s" by blast
    have "\<exists>m. (if c then Inr a else Inr b) = (Inr m :: selector_match outcome)" for c a b by simp
    then show ?thesis unfolding require_structure_of_changed_fields_def s try_bind.simps .
  qed
  ultimately show ?thesis by (auto simp: match_field_def)
qed

lemma in_table_returns:
  "(\<And>t. table = Some t \<Longrightarrow> \<exists>l. match t = Inr l) \<Longrightarrow> \<exists>l. in_table m table match = Inr l"
  by (auto simp: in_table_def split: option.splits)

lemma match_items_returns:
  fixes source :: selection_source and ids :: system_schema_ids
  defines "m \<equiv> \<lparr>mx_ids = ids, mx_targets = selection_targets source, mx_units = ch_lookup (su_catalogue source)\<rparr>"
  assumes "sound_catalogue (su_catalogue source)" "structures_known source" "paths_valid items"
  shows "\<exists>r. match_items m items = Inr r"
proof -
  have units: "\<exists>us. units_of_row (mx_units m) row = Inr us" for row
    using sound_units_of_row [OF assms(2), of row] by (auto simp: m_def)
  have table: "\<exists>l. at_table m tableId match = Inr l" if "\<And>t. \<exists>l. match t = Inr l" for tableId match
    unfolding at_table_def by (rule in_table_returns) (rule that)
  have row: "\<exists>l. at_row m s match = Inr l"
    if "\<And>row. ar_table row \<in> set (sn_tables (su_snapshot source)) \<Longrightarrow> \<exists>v. version_of_row row = Inr v \<Longrightarrow>
      \<exists>l. match row = Inr l" for s match
    unfolding at_row_def
  proof (rule in_table_returns)
    fix t assume "table_of_row (mx_targets m) s = Some t"
    then have "t \<in> set (sn_tables (su_snapshot source))" by (simp add: m_def table_of_row_member)
    with row_named_version [of "mx_targets m" t "wf_rowId s" "wf_side s"] that
    show "\<exists>l. (case row_named (mx_targets m) t (wf_rowId s) (wf_side s) of None \<Rightarrow> Inr no_match | Some row \<Rightarrow> match row) = Inr l"
      by (auto split: option.splits)
  qed
  have field: "\<exists>l. at_row m (field_row_ref s) (\<lambda>row.
      try_bind (field_normalisation (mx_ids m) (mx_targets m) (mx_units m) row s) match_field) = Inr l"
    if "is_valid_pointer (fr_path s)" for s
  proof (rule row)
    fix a assume a: "ar_table a \<in> set (sn_tables (su_snapshot source))" "\<exists>v. version_of_row a = Inr v"
    from that obtain path where "parse_pointer (fr_path s) = Inr path" by (cases "fr_path s = []") (auto simp: parse_pointer_def)
    with a(2) obtain f where f: "field_normalisation (mx_ids m) (mx_targets m) (mx_units m) a s = Inr f"
      by (auto simp: field_normalisation_def leaf_at_or_above_def)
    then have parts: "fn_units f = ch_lookup (su_catalogue source)" "fn_targets f = selection_targets source" "fn_row f = a"
      by (auto simp: field_normalisation_def m_def)
    have "\<exists>s. structure_of_target (fn_targets f) (ar_table (fn_row f)) = Inr s"
      if "\<not> is_created_or_removed (ar_table (fn_row f))"
      using that a(1) assms(3) by (auto simp: parts structures_known_def structure_of_target_def selection_targets_def)
    from match_field_returns [OF assms(2) parts(1) this] f
    show "\<exists>l. try_bind (field_normalisation (mx_ids m) (mx_targets m) (mx_units m) a s) match_field = Inr l" by simp
  qed
  note step = add_each_returns
  have then_next: "\<exists>y. try_bind r f = Inr y" if "\<exists>x. r = Inr x" "\<And>x. \<exists>y. f x = Inr y"
    for r :: "items_resolution outcome" and f :: "items_resolution \<Rightarrow> items_resolution outcome"
    using that by auto
  show ?thesis
    unfolding match_items_def
  proof (intro then_next step)
    fix s assume "s \<in> set (listed (it_fields items))"
    with assms(4) have "is_valid_pointer (fr_path s)" by (simp add: paths_valid_def list_all_iff)
    then show "\<exists>l. at_row m (field_row_ref s) (\<lambda>row.
      try_bind (field_normalisation (mx_ids m) (mx_targets m) (mx_units m) row s) match_field) = Inr l"
      by (rule field)
  qed (use units in \<open>auto intro!: table row simp: match_row_def match_row_unit_def\<close>)
qed

lemma resolver_facts:
  assumes "sound_catalogue (su_catalogue source)" "selection_resolver ids selection source = Inr v"
  shows "sv_selection v = selection" "sv_source v = source"
    "sound_resolution (sv_included v)" "resolution_keys (sv_included v) \<subseteq> listed_keys (su_catalogue source)"
    "set (sv_excluded v) \<subseteq> listed_keys (su_catalogue source)" "distinct (sv_excluded v)"
    "set (candidate_keys v) \<subseteq> listed_keys (su_catalogue source)"
proof -
  let ?m = "\<lparr>mx_ids = ids, mx_targets = selection_targets source, mx_units = ch_lookup (su_catalogue source)\<rparr>"
  from assms(2) have run: "match_items ?m selection = Inr (sv_included v)"
    "match_items ?m (excluded_items selection) = Inr (sv_exclusions v)"
    and parts: "sv_selection v = selection" "sv_source v = source"
    "sv_excluded v = uniq (ir_selected (sv_exclusions v) @ jkeys (ir_required (sv_exclusions v)))"
    by (auto simp: selection_resolver_def Let_def)
  show "sv_selection v = selection" "sv_source v = source" by (rule parts)+
  note listed = match_items_listed [OF assms(1) _ run(1)] match_items_listed [OF assms(1) _ run(2)]
  from listed(1) show included: "sound_resolution (sv_included v)"
    "resolution_keys (sv_included v) \<subseteq> listed_keys (su_catalogue source)" by simp_all
  from listed(2) show "set (sv_excluded v) \<subseteq> listed_keys (su_catalogue source)"
    by (simp add: parts(3) resolution_keys_def)
  show "distinct (sv_excluded v)" by (simp add: parts(3))
  show "set (candidate_keys v) \<subseteq> listed_keys (su_catalogue source)"
    using included(2) by (auto simp: candidate_keys_def parts resolution_keys_def)
qed

lemma list_all2_first: "list_all2 P xs ys \<Longrightarrow> x \<in> set xs \<Longrightarrow> \<exists>y \<in> set ys. P x y"
  by (induction rule: list_all2_induct) auto

lemma map_try_returns: "(\<And>x. x \<in> set xs \<Longrightarrow> \<exists>y. f x = Inr y) \<Longrightarrow> \<exists>ys. map_try f xs = Inr ys"
proof (induction xs)
  case (Cons x xs)
  then obtain y ys where "f x = Inr y" "map_try f xs = Inr ys" by (metis list.set_intros)
  then show ?case by simp
qed simp

lemma unit_of_listed_key:
  "sound_catalogue cat \<Longrightarrow> key \<in> listed_keys cat \<Longrightarrow> \<exists>u. unit_of_key (ch_lookup cat) key = Inr u \<and> ca_key u = key"
  by (auto simp: sound_catalogue_def unit_of_key_lookup)

lemma excluded_required_return:
  assumes "sound_catalogue (su_catalogue source)" "selection_resolver ids selection source = Inr v"
  shows "\<exists>bs. excluded_required_units v = Inr bs"
proof -
  note facts = resolver_facts [OF assms]
  have "\<exists>b. (case kw of (key, why) \<Rightarrow> try_bind (unit_of_key (ch_lookup (su_catalogue (sv_source v))) key)
         (\<lambda>u. Inr (required_excluded u why))) = Inr b" if "kw \<in> set (ir_required (sv_included v))" for kw
  proof -
    have "fst kw \<in> listed_keys (su_catalogue source)" using facts(4) that by (force simp: resolution_keys_def)
    from unit_of_listed_key [OF assms(1) this] show ?thesis by (auto simp: facts(2) case_prod_beta')
  qed
  then show ?thesis unfolding excluded_required_units_def by (intro map_try_returns) auto
qed

lemma resolver_returns:
  assumes "sound_catalogue (su_catalogue source)" "structures_known source" "paths_valid selection"
    "paths_valid (excluded_items selection)"
  shows "\<exists>v r. selection_resolver ids selection source = Inr v \<and> resolve_units v = Inr r"
proof -
  from match_items_returns [OF assms(1-3)] match_items_returns [OF assms(1,2,4)]
  obtain v where v: "selection_resolver ids selection source = Inr v"
    by (fastforce simp: selection_resolver_def Let_def)
  with excluded_required_return [OF assms(1) v] show ?thesis by (auto simp: resolve_units_def Let_def)
qed

subsection \<open>Properties\<close>

text \<open>The selection of a field of the row edited by hand, with the rest of the row left out.\<close>

definition example_source :: "change_catalogue \<Rightarrow> selection_source" where
  "example_source cat = source_of_comparison example_renaming example_compared cat [(''v-people'', [''a''])]"

definition example_selection :: selection where
  "example_selection =
     selection_of_items (no_items\<lparr>it_rows := Some [\<lparr>wf_tableId = ''people'', wf_rowId = ''a'', wf_side = None\<rparr>],
       it_fields := Some [\<lparr>fr_tableId = ''people'', fr_rowId = ''a'', fr_path = ''/name''\<rparr>]\<rparr>)"

text \<open>
  Claim C38: resolving a selection whose field paths are JSON pointers never throws on the catalogue of
  a comparison, whatever the selectors name: every unit, table, row version and structure that the
  resolution looks up exists.
\<close>

theorem resolving_a_selection_returns:
  assumes "read_compared_snapshot tk ids equal deq snapshot wholeDraft = Inr c" "sound_pairs (sn_tables snapshot)"
    "build_change_catalogue tk equal vequal (with_changed_rows c changedRows) = Inr cat"
    "paths_valid selection" "paths_valid (excluded_items selection)"
  shows "\<exists>r. resolve_selection ids' selection (source_of_comparison snapshot c cat existing) = Inr r"
proof -
  have "sound_catalogue (su_catalogue (source_of_comparison snapshot c cat existing))"
    using built_catalogue_sound [OF assms(1-3)] by (simp add: source_of_comparison_def)
  from resolver_returns [OF this comparison_structures_known [OF assms(1,3)] assms(4,5)] show ?thesis
    by (fastforce simp: resolve_selection_def)
qed

theorem resolving_a_selection_returns_witness:
  "\<exists>cat r. build_change_catalogue root_toolkit (=) (=) (with_changed_rows example_compared example_changed_rows) = Inr cat \<and>
     resolve_selection example_ids example_selection (example_source cat) = Inr r"
proof -
  have "paths_valid example_selection" "paths_valid (excluded_items example_selection)" by code_simp+
  with example_catalogue_built resolving_a_selection_returns [OF example_compared_read] show ?thesis
    unfolding example_source_def by blast
qed

text \<open>
  Claim C37: a resolution divides what the selectors name: every unit that the selection selects or
  requires is listed in the catalogue and is exactly one of selected, required and left out, a
  selection of everything starts from the whole catalogue, and a required unit that is left out is
  reported by a blocker.
\<close>

theorem resolution_divides_named_units:
  assumes "read_compared_snapshot tk ids equal deq snapshot wholeDraft = Inr c" "sound_pairs (sn_tables snapshot)"
    "build_change_catalogue tk equal vequal (with_changed_rows c changedRows) = Inr cat"
    "su_catalogue source = cat" "selection_resolver ids' selection source = Inr v" "resolve_units v = Inr r"
  shows "set (sr_selected r) \<union> set (jkeys (sr_required r)) \<union> set (sr_excluded r) \<subseteq> ca_key ` set (ch_units cat) \<and>
    set (candidate_keys v) \<union> set (jkeys (ir_required (sv_included v))) \<subseteq>
      set (sr_selected r) \<union> set (jkeys (sr_required r)) \<union> set (sr_excluded r) \<and>
    distinct (sr_selected r @ jkeys (sr_required r) @ sr_excluded r) \<and>
    candidate_keys v = (if selects_all selection then map ca_key (ch_units cat) else ir_selected (sv_included v)) \<and>
    blocker_key ` {required_excluded u why |u why. u \<in> set (ch_units cat) \<and>
        (ca_key u, why) \<in> set (ir_required (sv_included v)) \<and> ca_key u \<in> set (sr_excluded r)} \<subseteq>
      blocker_key ` set (sr_blockers r)"
proof -
  have sound: "sound_catalogue (su_catalogue source)"
    using built_catalogue_sound [OF assms(1-3)] by (simp add: assms(4))
  note facts = resolver_facts [OF sound assms(5)]
  from assms(6) obtain excludedRequired where run: "excluded_required_units v = Inr excludedRequired"
    "sr_selected r = selected_keys v" "sr_excluded r = sv_excluded v"
    "sr_required r = required_additions v (selected_keys v)"
    "sr_blockers r = distinct_blockers (refusals_of_every_table v @ ir_blockers (sv_included v) @
       ir_blockers (sv_exclusions v) @ excludedRequired @
       unmatched_selectors v (length (selected_keys v) + length (required_additions v (selected_keys v))))"
    by (auto simp: resolve_units_def Let_def)
  have reported: "blocker_key ` set excludedRequired \<subseteq> blocker_key ` set (sr_blockers r)"
    unfolding run(5) distinct_blockers_facts(3) by auto
  let ?required = "ir_required (sv_included v)"
  have required: "set (jkeys (sr_required r)) = set (jkeys ?required) - set (sr_selected r) - set (sr_excluded r)"
    by (auto simp: run required_additions_def)
  have selected: "set (sr_selected r) = set (candidate_keys v) - set (sr_excluded r)"
    by (auto simp: run selected_keys_def)
  have "distinct (jkeys (sr_required r))"
    using facts(3) by (auto simp: run(4) required_additions_def sound_resolution_def jmap_ok_def distinct_map_filter)
  moreover have "blocker_key (required_excluded u why) \<in> blocker_key ` set (sr_blockers r)"
    if "u \<in> set (ch_units cat)" "(ca_key u, why) \<in> set ?required" "ca_key u \<in> set (sr_excluded r)" for u why
  proof -
    have "unit_of_key (ch_lookup cat) (ca_key u) = Inr u"
      using sound that(1) by (simp add: assms(4) sound_catalogue_def unit_of_key_lookup)
    moreover have "(ca_key u, why) \<in> set (filter (\<lambda>(key, _). key \<in> set (sv_excluded v)) ?required)"
      using that(2,3) by (simp add: run(3))
    ultimately have "required_excluded u why \<in> set excludedRequired"
      using list_all2_first [OF run(1) [unfolded excluded_required_units_def map_try_Inr_iff]]
      by (force simp: facts(2) assms(4))
    with reported show ?thesis by blast
  qed
  moreover have "set (sr_selected r) \<union> set (jkeys (sr_required r)) \<union> set (sr_excluded r) \<subseteq> listed_keys cat"
    using facts(4,5,7) unfolding required selected run(3) by (auto simp: resolution_keys_def assms(4))
  moreover have "set (candidate_keys v) \<union> set (jkeys ?required) \<subseteq>
      set (sr_selected r) \<union> set (jkeys (sr_required r)) \<union> set (sr_excluded r)"
    unfolding required selected by blast
  moreover have "distinct (sr_selected r)" by (simp add: run(2) selected_keys_def)
  moreover have "distinct (sr_excluded r)" using facts(6) by (simp add: run(3))
  moreover have "candidate_keys v =
      (if selects_all selection then map ca_key (ch_units cat) else ir_selected (sv_included v))"
    by (simp add: candidate_keys_def facts(1,2) assms(4))
  ultimately show ?thesis using required selected by auto
qed

theorem resolution_divides_named_units_witness:
  "\<exists>cat v r. build_change_catalogue root_toolkit (=) (=) (with_changed_rows example_compared example_changed_rows) = Inr cat \<and>
     selection_resolver example_ids example_selection (example_source cat) = Inr v \<and> resolve_units v = Inr r \<and>
     distinct (sr_selected r @ jkeys (sr_required r) @ sr_excluded r)"
proof -
  obtain cat where cat: "build_change_catalogue root_toolkit (=) (=)
      (with_changed_rows example_compared example_changed_rows) = Inr cat"
    using example_catalogue_built by blast
  have paths: "paths_valid example_selection" "paths_valid (excluded_items example_selection)" by code_simp+
  have source: "su_catalogue (example_source cat) = cat" "structures_known (example_source cat)"
    using comparison_structures_known [OF example_compared_read(1) cat]
    by (simp_all add: example_source_def source_of_comparison_def)
  have "sound_catalogue (su_catalogue (example_source cat))"
    using built_catalogue_sound [OF example_compared_read cat] by (simp add: source(1))
  from resolver_returns [OF this source(2) paths] obtain v r where
    run: "selection_resolver example_ids example_selection (example_source cat) = Inr v" "resolve_units v = Inr r"
    by blast
  from resolution_divides_named_units [OF example_compared_read cat source(1) run]
  have "distinct (sr_selected r @ jkeys (sr_required r) @ sr_excluded r)" by (elim conjE)
  with cat run show ?thesis by (intro exI conjI)
qed

end
