(* ===== verification/Unit_Refs.thy ===== *)
theory Unit_Refs
  imports Selection_Resolution
begin

section \<open>References to units\<close>

text \<open>
  \<^verbatim>\<open>partial-changes/selection/unit-refs.ts\<close>: a unit as it is reported, with the selection that names it.
  The code throws when a unit lacks the row id or the path that its kind needs.
\<close>

record unit_ref =
  ux_unit :: change_unit
  ux_side :: "head_qualifier option"
  ux_selector :: selection

record described_unit_ref = unit_ref +
  ux_structureChange :: "structure_change option"

record required_unit =
  ry_unit :: described_unit_ref
  ry_reason :: reason

definition required_part_of :: "change_unit \<Rightarrow> string option \<Rightarrow> string \<Rightarrow> string outcome" where
  "required_part_of u part name =
     (case part of
        None \<Rightarrow> Inl (''A '' @ unit_kind_name (cu_kind u) @ '' unit of '' @ cu_tableId u @ '' has no '' @ name)
      | Some value \<Rightarrow> Inr value)"

definition row_id_of_unit :: "change_unit \<Rightarrow> string outcome" where
  "row_id_of_unit u = required_part_of u (cu_rowId u) ''rowId''"

definition row_ref_of :: "change_unit \<Rightarrow> head_qualifier option \<Rightarrow> row_ref outcome" where
  "row_ref_of u side =
     try_bind (row_id_of_unit u) (\<lambda>rowId. Inr \<lparr>wf_tableId = cu_tableId u, wf_rowId = rowId, wf_side = side\<rparr>)"

definition table_ref_of_unit :: "change_unit \<Rightarrow> head_qualifier option \<Rightarrow> table_ref" where
  "table_ref_of_unit u side =
     (if side = None then TableNamed (cu_tableId u) else TableAt (cu_tableId u) side)"

definition selector_of :: "change_unit \<Rightarrow> head_qualifier option \<Rightarrow> selection outcome" where
  "selector_of u side =
     (case cu_kind u of
        FieldUnit \<Rightarrow>
          try_bind (row_id_of_unit u) (\<lambda>rowId.
          try_bind (required_part_of u (cu_path u) ''path'') (\<lambda>path.
            Inr (selection_of_items (no_items\<lparr>it_fields :=
              Some [\<lparr>fr_tableId = cu_tableId u, fr_rowId = rowId, fr_path = path\<rparr>]\<rparr>))))
      | RowCreateUnit \<Rightarrow> try_bind (row_ref_of u side) (\<lambda>r. Inr (selection_of_items (no_items\<lparr>it_rows := Some [r]\<rparr>)))
      | RowDeleteUnit \<Rightarrow> try_bind (row_ref_of u side) (\<lambda>r. Inr (selection_of_items (no_items\<lparr>it_rows := Some [r]\<rparr>)))
      | RowReplaceUnit \<Rightarrow> try_bind (row_ref_of u side) (\<lambda>r. Inr (selection_of_items (no_items\<lparr>it_rows := Some [r]\<rparr>)))
      | RowRenameUnit \<Rightarrow> try_bind (row_ref_of u side) (\<lambda>r. Inr (selection_of_items (no_items\<lparr>it_renames := Some [r]\<rparr>)))
      | RowColumnsUnit \<Rightarrow>
          try_bind (row_ref_of u side) (\<lambda>r. Inr (selection_of_items (no_items\<lparr>it_rowColumns := Some [r]\<rparr>)))
      | StructureUnit \<Rightarrow> Inr (selection_of_items (no_items\<lparr>it_tables := Some [table_ref_of_unit u side]\<rparr>))
      | ViewsUnit \<Rightarrow> Inr (selection_of_items (no_items\<lparr>it_views := Some [cu_tableId u]\<rparr>))
      | SharedSchemaUnit \<Rightarrow> Inr (selection_of_items (no_items\<lparr>it_sharedSchemas := Some [cu_tableId u]\<rparr>)))"

definition unit_ref_of :: "catalogue_unit \<Rightarrow> unit_ref outcome" where
  "unit_ref_of u =
     try_bind (selector_of (ca_unit u) (ca_side u)) (\<lambda>selector.
       Inr \<lparr>ux_unit = ca_unit u, ux_side = ca_side u, ux_selector = selector\<rparr>)"

definition described_unit_ref_of ::
  "system_schema_ids \<Rightarrow> (json \<Rightarrow> json \<Rightarrow> bool) \<Rightarrow> catalogue_unit \<Rightarrow> catalogue_tables \<Rightarrow> described_unit_ref outcome" where
  "described_unit_ref_of ids equal u tables =
     try_bind (unit_ref_of u) (\<lambda>r.
       if cu_kind (ca_unit u) \<noteq> StructureUnit then Inr (unit_ref.extend r (described_unit_ref.fields None))
       else try_bind (structure_change_of ids equal u tables) (\<lambda>change.
         Inr (unit_ref.extend r (described_unit_ref.fields (Some change)))))"

definition required_units_of ::
  "system_schema_ids \<Rightarrow> (json \<Rightarrow> json \<Rightarrow> bool) \<Rightarrow> change_catalogue \<Rightarrow> (string, reason) jmap \<Rightarrow>
   required_unit list outcome" where
  "required_units_of ids equal catalogue required =
     try_bind (map_try (\<lambda>u. case map_of required (ca_key u) of
         None \<Rightarrow> Inr []
       | Some why \<Rightarrow> try_bind (described_unit_ref_of ids equal u (ch_tables catalogue)) (\<lambda>r.
           Inr [\<lparr>ry_unit = r, ry_reason = why\<rparr>])) (ch_units catalogue))
       (\<lambda>units. Inr (concat units))"

subsection \<open>Units are named by their selectors\<close>

lemma unit_ref_returns: "addressable_unit u \<Longrightarrow> \<exists>r. unit_ref_of u = Inr r"
  by (cases "cu_kind (ca_unit u)")
    (auto simp: addressable_unit_def row_kinds_def unit_ref_of_def selector_of_def row_ref_of_def
      row_id_of_unit_def required_part_of_def)

text \<open>The units a lookup files at the level of a table are those that name it.\<close>

lemma filed_table_units:
  "set (units_under (lk_tableLevelUnits (catalogue_lookup units rows)) identity) = set (filed_under is_table_level units identity)"
proof (induction units rule: rev_induct)
  case (snoc u units)
  have "set (units_under (fold (\<lambda>identity. add_to identity u) ks m) identity) =
      set (units_under m identity) \<union> (if identity \<in> set ks then {u} else {})" for ks m
    by (induction ks arbitrary: m) auto
  note added = this
  let ?lk = "catalogue_lookup units rows"
  have "set (units_under (lk_tableLevelUnits (index_unit u ?lk)) identity) =
      set (units_under (lk_tableLevelUnits ?lk) identity) \<union>
      (if is_table_level u \<and> identity \<in> set (ca_tableIdentities u) then {u} else {})"
    by (simp add: index_unit_def Let_def is_table_level_def added)
  with snoc show ?case by (simp add: catalogue_lookup_snoc filed_under_def)
qed (simp add: catalogue_lookup_def units_under_def filed_under_def)

lemma find_only: "x \<in> set xs \<Longrightarrow> p x \<Longrightarrow> (\<And>y. y \<in> set xs \<Longrightarrow> p y \<Longrightarrow> y = x) \<Longrightarrow> find p xs = Some x"
proof (cases "find p xs")
  case (Some y)
  assume only: "\<And>y. y \<in> set xs \<Longrightarrow> p y \<Longrightarrow> y = x"
  from Some have "y \<in> set xs" "p y" by (auto simp: find_Some_iff)
  from only [OF this] Some show ?thesis by simp
next
  case None
  assume "x \<in> set xs" "p x"
  with None show ?thesis unfolding find_None_iff by blast
qed

lemma only_table_unit:
  assumes "u \<in> set units" "is_table_level u" "tp_identity pair \<in> set (ca_tableIdentities u)" "cu_kind (ca_unit u) = kind"
    "\<And>v. v \<in> set units \<Longrightarrow> cu_kind (ca_unit v) = kind \<Longrightarrow> tp_identity pair \<in> set (ca_tableIdentities v) \<Longrightarrow> v = u"
  shows "table_unit_of (catalogue_lookup units rows) kind pair = Some u"
  unfolding table_unit_of_def
proof (rule find_only)
  show "u \<in> set (units_under (lk_tableLevelUnits (catalogue_lookup units rows)) (tp_identity pair))"
    unfolding filed_table_units filed_under_def using assms(1-3) by simp
  show "v = u" if "v \<in> set (units_under (lk_tableLevelUnits (catalogue_lookup units rows)) (tp_identity pair))"
    "cu_kind (ca_unit v) = kind" for v
    using that assms(5) [of v] unfolding filed_table_units filed_under_def by simp
qed (rule assms(4))

lemma draft_id_names_pair:
  assumes "distinct (List.map_filter (\<lambda>p. map_option tv_id (tp_draft p)) pairs)" "pair \<in> set pairs"
    "tp_draft pair = Some draft" "tv_id draft = tableId"
  shows "resolve_id (public_id_index table_pair_ids pairs) tableId None = Some pair"
proof -
  have "find (\<lambda>p. side_id DraftSide (table_pair_ids p) = Some tableId) (rev pairs) = Some pair"
    using assms(1,2)
  proof (induction pairs rule: rev_induct)
    case (snoc p pairs)
    show ?case
    proof (cases "side_id DraftSide (table_pair_ids p) = Some tableId")
      case True
      have "p = pair"
      proof (rule ccontr)
        assume "p \<noteq> pair"
        with snoc.prems(2) have "pair \<in> set pairs" by simp
        then have "tableId \<in> set (List.map_filter (\<lambda>p. map_option tv_id (tp_draft p)) pairs)"
          using assms(3,4) by (force simp: List.map_filter_def)
        moreover have "List.map_filter (\<lambda>p. map_option tv_id (tp_draft p)) [p] = [tableId]"
          using True by (auto simp: side_id_def table_pair_ids_def List.map_filter_def)
        ultimately show False using snoc.prems(1) by (simp add: List.map_filter_def)
      qed
      with True show ?thesis by simp
    next
      case False
      then have "p \<noteq> pair" using assms(3,4) by (auto simp: side_id_def table_pair_ids_def)
      with False snoc show ?thesis by (auto simp: List.map_filter_def)
    qed
  qed simp
  then show ?thesis by (simp add: resolve_id_index index_on_find)
qed

lemma other_kind: "keys_of_kind K us \<Longrightarrow> cu_kind (ca_unit u) \<notin> K \<Longrightarrow> u \<notin> set us"
  by (auto simp: keys_of_kind_def)

text \<open>What the views units of a catalogue are.\<close>

lemma views_units_of_catalogue:
  assumes "read_compared_snapshot tk ids equal deq snapshot wholeDraft = Inr c" "sound_pairs (sn_tables snapshot)"
    "build_change_catalogue tk equal vequal (with_changed_rows c changedRows) = Inr cat"
    "u \<in> set (ch_units cat)" "cu_kind (ca_unit u) = ViewsUnit"
  shows "\<exists>pair draft. pair \<in> set (sn_tables snapshot) \<and> tp_draft pair = Some draft \<and>
    ca_key u = views_unit_key (tp_identity pair) \<and> ca_tableIdentities u = [tp_identity pair] \<and>
    cu_tableId (ca_unit u) = tv_id draft \<and> \<not> is_refused (cs_headSchema c) (tp_identity pair)"
proof -
  let ?tables = "catalogue_tables snapshot (cs_tables c)"
  obtain structureUnits viewsUnits sharedUnits and built :: "(compared_table \<times> row_units) list" where parts:
    "keys_of_kind {StructureUnit} structureUnits" "build_views_units tk vequal ?tables = Inr viewsUnits"
    "keys_of_kind {SharedSchemaUnit} sharedUnits" "keys_of_kind row_kinds (concat (map (\<lambda>b. ru_units (snd b)) built))"
    "ch_units cat = js_sort catalogue_order
       (filter (\<lambda>u. \<not> holds_refused_table u (cs_headSchema c)) (structureUnits @ viewsUnits) @ sharedUnits @
        concat (map (\<lambda>b. ru_units (snd b)) built))"
    by (rule catalogue_parts [OF assms(1-3)]) blast
  have "u \<notin> set structureUnits" "u \<notin> set sharedUnits" "u \<notin> set (concat (map (\<lambda>b. ru_units (snd b)) built))"
    using other_kind [OF parts(1)] other_kind [OF parts(3)] other_kind [OF parts(4)] assms(5)
    by (simp_all add: row_kinds_def)
  with assms(4) have u: "u \<in> set viewsUnits" "\<not> holds_refused_table u (cs_headSchema c)"
    unfolding parts(5) by auto
  from parts(2) obtain pairs where pairs:
    "pairs = filter (\<lambda>pair. has_independent_views_edit tk vequal ?tables pair = Inr True) (cb_pairs ?tables)"
    "map_try (views_unit_of ?tables) pairs = Inr viewsUnits"
    by (auto simp: build_views_units_def dest: filter_outcome_Inr)
  from list_all2_second [OF pairs(2) [unfolded map_try_Inr_iff] u(1)] obtain pair where
    pair: "pair \<in> set pairs" "views_unit_of ?tables pair = Inr u" by auto
  then have mem: "pair \<in> set (cb_pairs ?tables)" "has_independent_views_edit tk vequal ?tables pair = Inr True"
    unfolding pairs(1) by simp_all
  from mem(2) have "tp_draft pair \<noteq> None"
    by (cases "tp_draft pair = None") (simp_all add: has_independent_views_edit_def)
  moreover from mem(1) have "pair \<in> set (sn_tables snapshot)" by (simp add: catalogue_tables_def)
  moreover from \<open>tp_draft pair \<noteq> None\<close> pair(2) have "ca_key u = views_unit_key (tp_identity pair)"
    "ca_tableIdentities u = [tp_identity pair]" "cu_tableId (ca_unit u) = tv_id (the (tp_draft pair))"
    by (auto simp: views_unit_of_def Let_def table_unit_def public_table_id_of_def version_of_def either_version_def
        split: option.splits)
  ultimately show ?thesis using u(2) by (auto simp: holds_refused_table_def)
qed

text \<open>A selection of one views unit.\<close>

lemma resolve_views_selection:
  assumes "table_named (selection_targets source) tableId None = Some pair"
    "refusals_of_table (selection_targets source) pair = []"
    "table_unit_of (ch_lookup (su_catalogue source)) ViewsUnit pair = Some u"
  shows "\<exists>r. resolve_selection ids (selection_of_items (no_items\<lparr>it_views := Some [tableId]\<rparr>)) source = Inr r \<and>
    sr_selected r = [ca_key u] \<and> sr_required r = [] \<and> sr_excluded r = [] \<and> sr_blockers r = [] \<and>
    \<not> has_unmatched_selectors (sr_unmatched r)"
proof -
  let ?m = "\<lparr>mx_ids = ids, mx_targets = selection_targets source, mx_units = ch_lookup (su_catalogue source)\<rparr>"
  let ?selection = "selection_of_items (no_items\<lparr>it_views := Some [tableId]\<rparr>)"
  have items: "it_tables ?selection = None" "it_tableData ?selection = None" "it_views ?selection = Some [tableId]"
    "it_sharedSchemas ?selection = None" "it_rows ?selection = None" "it_renames ?selection = None"
    "it_rowColumns ?selection = None" "it_fields ?selection = None"
    by (simp_all add: selection_of_items_def no_items_def selection_items.defs selection.defs)
  have empty: "add_each item tag None match r = Inr r" for item tag match r by (simp add: add_each_def)
  have "at_table ?m tableId (\<lambda>table. Inr (selecting_unit (table_unit_of (mx_units ?m) ViewsUnit table))) =
      Inr (selecting_unit (Some u))"
    using assms by (simp add: at_table_def in_table_def refusing_def)
  then have "match_items ?m ?selection = Inr (new_resolution\<lparr>ir_selected := [ca_key u]\<rparr>)"
    by (simp add: match_items_def items empty add_each_def [of ViewsItem] add_match_def is_matched_def
        selecting_unit_def selecting_def no_match_def new_resolution_def)
  moreover have "match_items ?m (excluded_items ?selection) = Inr new_resolution"
    by (simp add: match_items_def excluded_items_def no_items_def empty)
  ultimately show ?thesis
    by (auto simp: resolve_selection_def selection_resolver_def Let_def resolve_units_def selected_keys_def
        candidate_keys_def selects_all_def required_additions_def excluded_required_units_def refusals_of_every_table_def
        unmatched_selectors_def any_selector_unmatched_def has_unmatched_def new_resolution_def distinct_blockers_def
        unmatched_selection_def unmatched_items_def unmatched_of_def has_unmatched_selectors_def selection_items.defs
        unmatched_selection.defs)
qed

subsection \<open>Properties\<close>

text \<open>The table \<open>people\<close> given views in the Draft.\<close>

definition example_views_row :: "table_views row" where
  "example_views_row =
     \<lparr>row_versionId = ''w'', row_createdId = ''w'', row_id = ''people'', row_readonly = False, row_createdAt = 0,
      row_updatedAt = 0, row_publishedAt = 0,
      row_data = \<lparr>tw_version = 1, tw_defaultViewId = ''default'', tw_views = []\<rparr>, row_meta = JNull, row_hash = ''h'',
      row_schemaHash = ''s''\<rparr>"

definition example_viewed :: changes_snapshot where
  "example_viewed = example_renaming\<lparr>sn_systemRows := (sn_systemRows example_renaming)
     \<lparr>sy_views := \<lparr>rr_head = [], rr_draft = [example_views_row]\<rparr>\<rparr>\<rparr>"

definition example_viewed_compared :: compared_snapshot where
  "example_viewed_compared = example_compared\<lparr>cs_snapshot := example_viewed\<rparr>"

lemma example_viewed_read:
  "read_compared_snapshot root_toolkit example_ids (=) (=) example_viewed False = Inr example_viewed_compared"
  "sound_pairs (sn_tables example_viewed)"
  by code_simp+

lemma example_viewed_built:
  "\<exists>cat u. build_change_catalogue root_toolkit (=) (=) (with_changed_rows example_viewed_compared []) = Inr cat \<and>
     u \<in> set (ch_units cat) \<and> cu_kind (ca_unit u) = ViewsUnit"
proof -
  let ?tables = "catalogue_tables example_viewed (cs_tables example_viewed_compared)"
  let ?source = "with_changed_rows example_viewed_compared []"
  have t: "cs_snapshot example_viewed_compared = example_viewed" by code_simp
  have rows: "build_row_units_of_changed_tables (=) ?source = Inr ([], [])" by code_simp
  have parts: "\<not> isl (build_structure_units ?tables (cs_ledger example_viewed_compared))"
    "\<not> isl (build_shared_schema_units (=) (sy_sharedSchemas (sn_systemRows example_viewed)))"
    "\<not> isl (ledger_inconsistencies_of ?tables (cs_ledger example_viewed_compared))"
    by code_simp+
  have "map_sum id (map (\<lambda>u. (cu_kind (ca_unit u), ca_tableIdentities u))) (build_views_units root_toolkit (=) ?tables) =
      Inr [(ViewsUnit, [''t1''])]" by code_simp
  then obtain u where u: "build_views_units root_toolkit (=) ?tables = Inr [u]" "cu_kind (ca_unit u) = ViewsUnit"
    "ca_tableIdentities u = [''t1'']"
    by (cases "build_views_units root_toolkit (=) ?tables") auto
  have "\<not> is_refused (cs_headSchema example_viewed_compared) ''t1''" by code_simp
  then have "\<not> holds_refused_table u (cs_headSchema example_viewed_compared)"
    by (simp add: holds_refused_table_def u(3))
  moreover obtain su sh li where "build_structure_units ?tables (cs_ledger example_viewed_compared) = Inr su"
    "build_shared_schema_units (=) (sy_sharedSchemas (sn_systemRows example_viewed)) = Inr sh"
    "ledger_inconsistencies_of ?tables (cs_ledger example_viewed_compared) = Inr li"
    using not_isl_case [OF parts(1)] not_isl_case [OF parts(2)] not_isl_case [OF parts(3)] by blast
  ultimately show ?thesis using u(1,2) rows by (simp add: build_change_catalogue_def Let_def t) blast
qed

text \<open>
  A views unit is selected by the reference it is reported with: the reference can always be
  made, and resolving its selector selects the unit alone, with nothing required, left out, blocked or
  unmatched, when the ids of the tables of the Draft are different.
\<close>

theorem views_selectors_name_their_units:
  assumes "read_compared_snapshot tk ids equal deq snapshot wholeDraft = Inr c" "sound_pairs (sn_tables snapshot)"
    "build_change_catalogue tk equal vequal (with_changed_rows c changedRows) = Inr cat"
    "distinct (List.map_filter (\<lambda>p. map_option tv_id (tp_draft p)) (sn_tables snapshot))"
    "u \<in> set (ch_units cat)" "cu_kind (ca_unit u) = ViewsUnit"
  shows "\<exists>ref r. unit_ref_of u = Inr ref \<and>
    resolve_selection ids' (ux_selector ref) (source_of_comparison snapshot c cat existing) = Inr r \<and>
    sr_selected r = [ca_key u] \<and> sr_required r = [] \<and> sr_excluded r = [] \<and> sr_blockers r = [] \<and>
    \<not> has_unmatched_selectors (sr_unmatched r)"
proof -
  let ?source = "source_of_comparison snapshot c cat existing"
  from views_units_of_catalogue [OF assms(1-3,5,6)] obtain pair draft where
    pair: "pair \<in> set (sn_tables snapshot)" "tp_draft pair = Some draft" "cu_tableId (ca_unit u) = tv_id draft" and
    u: "ca_key u = views_unit_key (tp_identity pair)" "ca_tableIdentities u = [tp_identity pair]"
    "\<not> is_refused (cs_headSchema c) (tp_identity pair)" by blast
  have "sound_catalogue cat" by (rule built_catalogue_sound [OF assms(1-3)])
  have "table_unit_of (catalogue_lookup (ch_units cat) (ch_rows cat)) ViewsUnit pair = Some u"
  proof (rule only_table_unit)
    fix v assume v: "v \<in> set (ch_units cat)" "cu_kind (ca_unit v) = ViewsUnit" "tp_identity pair \<in> set (ca_tableIdentities v)"
    with views_units_of_catalogue [OF assms(1-3) v(1,2)] u(1) have "ca_key v = ca_key u" by auto
    with \<open>sound_catalogue cat\<close> v(1) assms(5) show "v = u" by (auto simp: sound_catalogue_def distinct_map inj_on_def)
  qed (use assms(5,6) u(2) in \<open>simp_all add: is_table_level_def is_table_unit_kind_def\<close>)
  with sound_lookup [OF \<open>sound_catalogue cat\<close>]
  have found: "table_unit_of (ch_lookup (su_catalogue ?source)) ViewsUnit pair = Some u"
    by (simp add: source_of_comparison_def)
  have named: "table_named (selection_targets ?source) (tv_id draft) None = Some pair"
    using draft_id_names_pair [OF assms(4) pair(1,2)]
    by (simp add: table_named_def selection_targets_def source_of_comparison_def)
  have refused: "refusals_of_table (selection_targets ?source) pair = []"
    using u(3) by (simp add: refusals_of_table_def selection_targets_def source_of_comparison_def is_refused_def)
  have "unit_ref_of u = Inr \<lparr>ux_unit = ca_unit u, ux_side = ca_side u,
      ux_selector = selection_of_items (no_items\<lparr>it_views := Some [tv_id draft]\<rparr>)\<rparr>"
    by (simp add: unit_ref_of_def selector_of_def assms(6) pair(3))
  with resolve_views_selection [OF named refused found] show ?thesis by auto
qed

theorem views_selectors_name_their_units_witness:
  "\<exists>cat u ref r. build_change_catalogue root_toolkit (=) (=) (with_changed_rows example_viewed_compared []) = Inr cat \<and>
     u \<in> set (ch_units cat) \<and> unit_ref_of u = Inr ref \<and>
     resolve_selection example_ids (ux_selector ref) (source_of_comparison example_viewed example_viewed_compared cat []) = Inr r \<and>
     sr_selected r = [ca_key u]"
proof -
  have ids: "distinct (List.map_filter (\<lambda>p. map_option tv_id (tp_draft p)) (sn_tables example_viewed))" by code_simp
  from example_viewed_built obtain cat u where cat:
    "build_change_catalogue root_toolkit (=) (=) (with_changed_rows example_viewed_compared []) = Inr cat"
    "u \<in> set (ch_units cat)" "cu_kind (ca_unit u) = ViewsUnit" by blast
  from views_selectors_name_their_units [OF example_viewed_read cat(1) ids cat(2,3), of example_ids "[]"] cat(1,2)
  show ?thesis by blast
qed

end
