(* ===== verification/Listing_Pages.thy ===== *)
theory Listing_Pages
  imports Unit_Refs
begin

section \<open>Pages of a listing\<close>

text \<open>
  \<^verbatim>\<open>partial-changes/listing/listing-page.ts\<close>, \<^verbatim>\<open>listing-cursor.ts\<close>, \<^verbatim>\<open>listing-request.ts\<close>, \<^verbatim>\<open>listing-tables.ts\<close>,
  \<^verbatim>\<open>listed-units.ts\<close> and \<^verbatim>\<open>unit-listing.ts\<close>. The object \<open>ListingPage\<close> is a record passed through its methods.
  The changed rows of a table are read from the database from a bound on: the argument \<open>reader\<close>. The text of a
  cursor, base64 of its JSON, is left out: cursors are encoded to and decoded from JSON values.
\<close>

record row_bound =
  bd_rowId :: string
  bd_inclusive :: bool

record changed_rows_keyset =
  kx_from :: "row_bound option"
  kx_rowLimit :: nat

record listed_position =
  po_key :: string
  po_unit :: change_unit

record listing_cursor =
  lc_tableId :: string
  lc_rows :: "row_bound option"
  lc_last :: "listed_position option"

subsection \<open>Cursors\<close>

definition sort_key_of :: "change_unit \<Rightarrow> change_unit" where
  "sort_key_of u =
     \<lparr>cu_kind = cu_kind u, cu_tableId = cu_tableId u, cu_previousTableId = cu_previousTableId u,
      cu_rowId = cu_rowId u, cu_previousRowId = cu_previousRowId u, cu_path = cu_path u, cu_columns = None\<rparr>"

definition sort_key_position_of :: "listed_position option \<Rightarrow> listed_position option" where
  "sort_key_position_of position =
     (case position of None \<Rightarrow> None | Some p \<Rightarrow> Some \<lparr>po_key = po_key p, po_unit = sort_key_of (po_unit p)\<rparr>)"

text \<open>\<open>JSON.stringify\<close> leaves out the fields that are \<open>undefined\<close>.\<close>

definition optional_field :: "string \<Rightarrow> json option \<Rightarrow> (string \<times> json) list" where
  "optional_field name v = (case v of None \<Rightarrow> [] | Some x \<Rightarrow> [(name, x)])"

definition json_of_sort_key :: "change_unit \<Rightarrow> json" where
  "json_of_sort_key u =
     JObj ([(''kind'', JStr (unit_kind_name (cu_kind u))), (''tableId'', JStr (cu_tableId u))] @
       optional_field ''rowId'' (map_option JStr (cu_rowId u)) @ optional_field ''path'' (map_option JStr (cu_path u)) @
       optional_field ''previousTableId'' (map_option JStr (cu_previousTableId u)) @
       optional_field ''previousRowId'' (map_option JStr (cu_previousRowId u)))"

definition json_of_position :: "listed_position \<Rightarrow> json" where
  "json_of_position p = JObj [(''key'', JStr (po_key p)), (''unit'', json_of_sort_key (po_unit p))]"

definition json_of_bound :: "row_bound \<Rightarrow> json" where
  "json_of_bound bound = JObj [(''rowId'', JStr (bd_rowId bound)), (''inclusive'', JBool (bd_inclusive bound))]"

definition cursor_version :: rat where
  "cursor_version = 1"

definition cursor_payload :: "listing_cursor \<Rightarrow> json" where
  "cursor_payload cursor =
     JObj ([(''v'', JNum cursor_version), (''tableId'', JStr (lc_tableId cursor))] @
       optional_field ''rows'' (map_option json_of_bound (lc_rows cursor)) @
       optional_field ''last'' (map_option json_of_position (sort_key_position_of (lc_last cursor))))"

definition unit_kinds :: "unit_kind list" where
  "unit_kinds =
     [FieldUnit, RowCreateUnit, RowDeleteUnit, RowReplaceUnit, RowRenameUnit, RowColumnsUnit, StructureUnit,
      ViewsUnit, SharedSchemaUnit]"

definition unit_kind_named :: "string \<Rightarrow> unit_kind option" where
  "unit_kind_named name = find (\<lambda>kind. unit_kind_name kind = name) unit_kinds"

fun json_text :: "json option \<Rightarrow> string option" where
  "json_text (Some (JStr s)) = Some s"
| "json_text _ = None"

fun is_fields :: "json \<Rightarrow> bool" where
  "is_fields (JObj _) = True"
| "is_fields _ = False"

fun is_optional_text :: "json option \<Rightarrow> bool" where
  "is_optional_text None = True"
| "is_optional_text (Some (JStr _)) = True"
| "is_optional_text _ = False"

definition optional_sort_parts :: "string list" where
  "optional_sort_parts = [''rowId'', ''path'', ''previousTableId'', ''previousRowId'']"

definition is_unit_json :: "json \<Rightarrow> bool" where
  "is_unit_json v \<longleftrightarrow>
     is_fields v \<and> Option.bind (json_text (jfield v ''kind'')) unit_kind_named \<noteq> None \<and>
     json_text (jfield v ''tableId'') \<noteq> None \<and> list_all (\<lambda>part. is_optional_text (jfield v part)) optional_sort_parts"

definition is_position :: "json \<Rightarrow> bool" where
  "is_position v \<longleftrightarrow>
     is_fields v \<and> json_text (jfield v ''key'') \<noteq> None \<and>
     (case jfield v ''unit'' of None \<Rightarrow> False | Some u \<Rightarrow> is_unit_json u)"

fun is_bool_json :: "json option \<Rightarrow> bool" where
  "is_bool_json (Some (JBool _)) = True"
| "is_bool_json _ = False"

definition is_row_bound :: "json \<Rightarrow> bool" where
  "is_row_bound v \<longleftrightarrow> is_fields v \<and> json_text (jfield v ''rowId'') \<noteq> None \<and> is_bool_json (jfield v ''inclusive'')"

definition is_cursor_payload :: "json \<Rightarrow> bool" where
  "is_cursor_payload v \<longleftrightarrow>
     is_fields v \<and> jfield v ''v'' = Some (JNum cursor_version) \<and> json_text (jfield v ''tableId'') \<noteq> None \<and>
     (case jfield v ''rows'' of None \<Rightarrow> True | Some rows \<Rightarrow> is_row_bound rows) \<and>
     (case jfield v ''last'' of None \<Rightarrow> True | Some position \<Rightarrow> is_position position)"

text \<open>The fields of a checked payload.\<close>

definition unit_of_json :: "json \<Rightarrow> change_unit" where
  "unit_of_json v =
     \<lparr>cu_kind = the (Option.bind (json_text (jfield v ''kind'')) unit_kind_named),
      cu_tableId = the (json_text (jfield v ''tableId'')), cu_previousTableId = json_text (jfield v ''previousTableId''),
      cu_rowId = json_text (jfield v ''rowId''), cu_previousRowId = json_text (jfield v ''previousRowId''),
      cu_path = json_text (jfield v ''path''), cu_columns = None\<rparr>"

definition decode_cursor_payload :: "json \<Rightarrow> listing_cursor outcome" where
  "decode_cursor_payload payload =
     (if \<not> is_cursor_payload payload then Inl ''cursor is malformed''
      else Inr
        \<lparr>lc_tableId = the (json_text (jfield payload ''tableId'')),
         lc_rows = map_option (\<lambda>rows. \<lparr>bd_rowId = the (json_text (jfield rows ''rowId'')),
             bd_inclusive = (jfield rows ''inclusive'' = Some (JBool True))\<rparr>) (jfield payload ''rows''),
         lc_last = map_option (\<lambda>position. \<lparr>po_key = the (json_text (jfield position ''key'')),
             po_unit = unit_of_json (the (jfield position ''unit''))\<rparr>) (jfield payload ''last'')\<rparr>)"

subsection \<open>Requests\<close>

record listing_request =
  lr_tableId :: "string option"
  lr_cursor :: "listing_cursor option"
  lr_pageSize :: nat

definition default_page_size :: rat where
  "default_page_size = 500"

definition max_page_size :: rat where
  "max_page_size = 5000"

text \<open>The arguments of a request may be \<open>null\<close> or absent, both \<open>None\<close>.\<close>

definition listing_request_of ::
  "string option \<Rightarrow> json option \<Rightarrow> rat option \<Rightarrow> listing_request outcome" where
  "listing_request_of tableId cursor pageSize =
     (let size = (case pageSize of None \<Rightarrow> default_page_size | Some n \<Rightarrow> n)
      in if snd (quotient_of size) \<noteq> 1 \<or> size < 1 \<or> max_page_size < size
         then Inl ''pageSize must be an integer from 1 to 5000''
         else try_bind (case cursor of None \<Rightarrow> Inr None
             | Some payload \<Rightarrow> try_bind (decode_cursor_payload payload) (\<lambda>c. Inr (Some c))) (\<lambda>decoded.
           Inr \<lparr>lr_tableId = tableId, lr_cursor = decoded, lr_pageSize = nat \<lfloor>size\<rfloor>\<rparr>))"

subsection \<open>The page\<close>

record row_read =
  rd_tableId :: string
  rd_rowId :: string

record listing_page =
  lp_pageSize :: nat
  lp_cursor :: "listing_cursor option"
  lp_listed :: "catalogue_unit list"
  lp_lastRowContinues :: bool
  lp_rowIdsRead :: nat
  lp_lastRowRead :: "row_read option"

definition new_page :: "nat \<Rightarrow> listing_cursor option \<Rightarrow> listing_page" where
  "new_page pageSize cursor =
     \<lparr>lp_pageSize = pageSize, lp_cursor = cursor, lp_listed = [], lp_lastRowContinues = False, lp_rowIdsRead = 0,
      lp_lastRowRead = None\<rparr>"

definition has_all_units :: "listing_page \<Rightarrow> bool" where
  "has_all_units page \<longleftrightarrow> lp_pageSize page \<le> length (lp_listed page)"

definition has_read_all_rows :: "listing_page \<Rightarrow> bool" where
  "has_read_all_rows page \<longleftrightarrow> lp_pageSize page \<le> lp_rowIdsRead page"

definition is_full :: "listing_page \<Rightarrow> bool" where
  "is_full page \<longleftrightarrow> has_all_units page \<or> has_read_all_rows page"

text \<open>Only read while the page is not full, so neither difference is negative.\<close>

definition rows_to_read :: "listing_page \<Rightarrow> nat" where
  "rows_to_read page = min (lp_pageSize page - length (lp_listed page)) (lp_pageSize page - lp_rowIdsRead page)"

definition last_of :: "'a list \<Rightarrow> 'a option" where
  "last_of xs = (if xs = [] then None else Some (last xs))"

definition is_after_cursor :: "listing_page \<Rightarrow> catalogue_unit \<Rightarrow> bool" where
  "is_after_cursor page u =
     (case Option.bind (lp_cursor page) lc_last of
        None \<Rightarrow> True
      | Some position \<Rightarrow> compare_units (ca_key u, ca_unit u) (po_key position, po_unit position) > 0)"

definition continues_row :: "catalogue_unit \<Rightarrow> catalogue_unit option \<Rightarrow> bool" where
  "continues_row u next =
     (case next of None \<Rightarrow> False | Some n \<Rightarrow> cu_rowId (ca_unit n) = cu_rowId (ca_unit u))"

definition add_units :: "catalogue_unit list \<Rightarrow> listing_page \<Rightarrow> listing_page" where
  "add_units unitsInListingOrder page =
     (let unlisted = filter (is_after_cursor page) unitsInListingOrder;
          room = lp_pageSize page - length (lp_listed page);
          taken = take room unlisted
      in case last_of taken of
           None \<Rightarrow> page
         | Some u \<Rightarrow>
             page\<lparr>lp_listed := lp_listed page @ taken,
                  lp_lastRowContinues := continues_row u
                    (if length taken < length unlisted then Some (unlisted ! length taken) else None)\<rparr>)"

definition add_rows_read :: "string \<Rightarrow> string list \<Rightarrow> catalogue_unit list \<Rightarrow> listing_page \<Rightarrow> listing_page" where
  "add_rows_read tableId rowIds unitsInListingOrder page =
     add_units unitsInListingOrder
       (case last_of rowIds of
          None \<Rightarrow> page
        | Some lastRowId \<Rightarrow>
            page\<lparr>lp_rowIdsRead := lp_rowIdsRead page + length rowIds,
                 lp_lastRowRead := Some \<lparr>rd_tableId = tableId, rd_rowId = lastRowId\<rparr>\<rparr>)"

definition position_of :: "catalogue_unit \<Rightarrow> listed_position" where
  "position_of u = \<lparr>po_key = ca_key u, po_unit = ca_unit u\<rparr>"

definition rows_after :: "listing_page \<Rightarrow> catalogue_unit \<Rightarrow> row_bound option" where
  "rows_after page u =
     map_option (\<lambda>rowId. \<lparr>bd_rowId = rowId, bd_inclusive = lp_lastRowContinues page\<rparr>) (cu_rowId (ca_unit u))"

definition last_listed_position :: "listing_page \<Rightarrow> listed_position option" where
  "last_listed_position page =
     (case last_of (lp_listed page) of
        None \<Rightarrow> Option.bind (lp_cursor page) lc_last
      | Some u \<Rightarrow> Some (position_of u))"

definition next_cursor :: "listing_page \<Rightarrow> listing_cursor option" where
  "next_cursor page =
     (case (has_all_units page, last_of (lp_listed page)) of
        (True, Some u) \<Rightarrow>
          Some \<lparr>lc_tableId = cu_tableId (ca_unit u), lc_rows = rows_after page u, lc_last = Some (position_of u)\<rparr>
      | _ \<Rightarrow>
          (case (has_read_all_rows page, lp_lastRowRead page) of
             (True, Some row) \<Rightarrow>
               Some \<lparr>lc_tableId = rd_tableId row, lc_rows = Some \<lparr>bd_rowId = rd_rowId row, bd_inclusive = False\<rparr>,
                     lc_last = last_listed_position page\<rparr>
           | _ \<Rightarrow> None))"

subsection \<open>The tables of a listing\<close>

record listing_table =
  lt_tableId :: string
  lt_units :: "catalogue_unit list"
  lt_changedRows :: "compared_table option"

definition tables_from_cursor :: "listing_page \<Rightarrow> listing_table list \<Rightarrow> listing_table list" where
  "tables_from_cursor page tables =
     (case lp_cursor page of
        None \<Rightarrow> tables
      | Some cursor \<Rightarrow> filter (\<lambda>t. compare_code_points (lt_tableId t) (lc_tableId cursor) \<ge> 0) tables)"

definition rows_from_cursor_in :: "listing_page \<Rightarrow> string \<Rightarrow> row_bound option" where
  "rows_from_cursor_in page tableId =
     (case lp_cursor page of
        None \<Rightarrow> None
      | Some cursor \<Rightarrow> if lc_tableId cursor \<noteq> tableId then None else lc_rows cursor)"

definition identity_named :: "changes_snapshot \<Rightarrow> string \<Rightarrow> string outcome" where
  "identity_named snapshot tableId =
     (case either_version (find (\<lambda>p. map_option tv_id (tp_draft p) = Some tableId) (sn_tables snapshot))
             (find (\<lambda>p. map_option tv_id (tp_head p) = Some tableId) (sn_tables snapshot)) of
        None \<Rightarrow> Inl (''tableId \"'' @ tableId @ ''\" names no Head or Draft table'')
      | Some pair \<Rightarrow> Inr (tp_identity pair))"

definition identity_filter_of :: "changes_snapshot \<Rightarrow> string option \<Rightarrow> (string list \<Rightarrow> bool) outcome" where
  "identity_filter_of snapshot tableId =
     (case tableId of
        None \<Rightarrow> Inr (\<lambda>_. True)
      | Some i \<Rightarrow> try_bind (identity_named snapshot i) (\<lambda>identity. Inr (\<lambda>identities. identity \<in> set identities)))"

definition tables_with_changed_rows :: "compared_snapshot \<Rightarrow> (string, compared_table) jmap" where
  "tables_with_changed_rows c =
     jmap_of (map (\<lambda>t. (co_identity t, t))
       (filter (\<lambda>t. has_different_versions t \<and> \<not> is_refused (cs_headSchema c) (co_identity t)) (cs_tables c)))"

type_synonym listing_tables = "(string, listing_table) jmap"

definition table_at :: "listing_tables \<Rightarrow> string \<Rightarrow> listing_table" where
  "table_at tables tableId =
     (case map_of tables tableId of
        None \<Rightarrow> \<lparr>lt_tableId = tableId, lt_units = [], lt_changedRows = None\<rparr>
      | Some t \<Rightarrow> t)"

definition add_unit_to_table :: "catalogue_unit \<Rightarrow> listing_tables \<Rightarrow> listing_tables" where
  "add_unit_to_table u tables =
     (let t = table_at tables (cu_tableId (ca_unit u))
      in AList.update (cu_tableId (ca_unit u)) (t\<lparr>lt_units := lt_units t @ [u]\<rparr>) tables)"

definition add_changed_rows :: "string \<Rightarrow> compared_table \<Rightarrow> listing_tables \<Rightarrow> listing_tables" where
  "add_changed_rows tableId table tables =
     AList.update tableId ((table_at tables tableId)\<lparr>lt_changedRows := Some table\<rparr>) tables"

definition in_listing_order :: "listing_tables \<Rightarrow> listing_table list" where
  "in_listing_order tables =
     js_sort (\<lambda>left right. compare_code_points (lt_tableId left) (lt_tableId right)) (jvalues tables)"

definition listing_tables_of ::
  "compared_snapshot \<Rightarrow> catalogue_unit list \<Rightarrow> string option \<Rightarrow> listing_table list outcome" where
  "listing_tables_of c tableUnits tableId =
     try_bind (identity_filter_of (cs_snapshot c) tableId) (\<lambda>isListed.
       let tables = fold add_unit_to_table (filter (\<lambda>u. isListed (ca_tableIdentities u)) tableUnits) [];
           changed = tables_with_changed_rows c
       in Inr (in_listing_order
            (fold (\<lambda>pair tables.
                case (tp_draft pair, map_of changed (tp_identity pair)) of
                  (Some draft, Some table) \<Rightarrow>
                    if isListed [tp_identity pair] then add_changed_rows (tv_id draft) table tables else tables
                | _ \<Rightarrow> tables) (sn_tables (cs_snapshot c)) tables)))"

subsection \<open>Listing\<close>

type_synonym rows_reader = "compared_table \<Rightarrow> changed_rows_keyset \<Rightarrow> row_pair list outcome"

definition row_units_of ::
  "(json \<Rightarrow> json \<Rightarrow> bool) \<Rightarrow> string \<Rightarrow> compared_table \<Rightarrow> row_pair list \<Rightarrow> catalogue_unit list outcome" where
  "row_units_of equal tableId table pairs =
     try_bind (build_row_units equal \<lparr>ct_identity = co_identity table, ct_tableId = tableId,
         ct_structure = co_structure table, ct_pairs = pairs\<rparr>)
       (\<lambda>rowUnits. Inr (js_sort catalogue_order (ru_units rowUnits)))"

definition distinct_row_ids_of :: "row_pair list \<Rightarrow> string list outcome" where
  "distinct_row_ids_of pairs = try_bind (map_try unit_row_id_of pairs) (\<lambda>rowIds. Inr (uniq rowIds))"

text \<open>
  One turn of the loop of \<open>listChangedRows\<close>: the page after it and, when the loop goes on, the bound it goes on
  from.
\<close>

definition read_rows_once ::
  "(json \<Rightarrow> json \<Rightarrow> bool) \<Rightarrow> rows_reader \<Rightarrow> string \<Rightarrow> compared_table \<Rightarrow> row_bound option \<Rightarrow> listing_page \<Rightarrow>
   (listing_page \<times> row_bound option) outcome" where
  "read_rows_once equal reader tableId table bound page =
     (let rowLimit = rows_to_read page
      in try_bind (reader table \<lparr>kx_from = bound, kx_rowLimit = rowLimit\<rparr>) (\<lambda>pairs.
         try_bind (distinct_row_ids_of pairs) (\<lambda>rowIds.
         try_bind (row_units_of equal tableId table pairs) (\<lambda>units.
           let page' = add_rows_read tableId rowIds units page
           in Inr (page', case last_of rowIds of
                None \<Rightarrow> None
              | Some lastRowId \<Rightarrow>
                  if length pairs < rowLimit then None else Some \<lparr>bd_rowId = lastRowId, bd_inclusive = False\<rparr>)))))"

text \<open>The loop ends: a turn that does not end it reads a row id, and a page that has read its size in row ids is
  full.\<close>

lemma add_units_simps [simp]:
  "lp_pageSize (add_units us page) = lp_pageSize page" "lp_cursor (add_units us page) = lp_cursor page"
  "lp_rowIdsRead (add_units us page) = lp_rowIdsRead page" "lp_lastRowRead (add_units us page) = lp_lastRowRead page"
  by (simp_all add: add_units_def Let_def split: option.splits)

lemma read_rows_once_progress:
  assumes "read_rows_once equal reader tableId table bound page = Inr (page', Some bound')"
  shows "lp_pageSize page' = lp_pageSize page \<and> lp_rowIdsRead page < lp_rowIdsRead page'"
proof -
  from assms obtain rowIds units where rows: "rowIds \<noteq> []" "page' = add_rows_read tableId rowIds units page"
    by (auto simp: read_rows_once_def Let_def last_of_def split: option.splits if_splits)
  then show ?thesis
    by (simp add: add_rows_read_def last_of_def)
qed

function list_changed_rows ::
  "(json \<Rightarrow> json \<Rightarrow> bool) \<Rightarrow> rows_reader \<Rightarrow> string \<Rightarrow> compared_table \<Rightarrow> row_bound option \<Rightarrow> listing_page \<Rightarrow>
   listing_page outcome" where
  "list_changed_rows equal reader tableId table bound page =
     (if is_full page then Inr page
      else case read_rows_once equal reader tableId table bound page of
             Inl e \<Rightarrow> Inl e
           | Inr (page', None) \<Rightarrow> Inr page'
           | Inr (page', Some bound') \<Rightarrow> list_changed_rows equal reader tableId table (Some bound') page')"
  by pat_completeness auto

termination
  by (relation "measure (\<lambda>(equal, reader, tableId, table, bound, page). lp_pageSize page - lp_rowIdsRead page)")
    (auto dest!: read_rows_once_progress simp: is_full_def has_read_all_rows_def)

declare list_changed_rows.simps [simp del]

definition list_table ::
  "(json \<Rightarrow> json \<Rightarrow> bool) \<Rightarrow> rows_reader \<Rightarrow> listing_table \<Rightarrow> listing_page \<Rightarrow> listing_page outcome" where
  "list_table equal reader table page =
     (let page1 = add_units (lt_units table) page
      in case lt_changedRows table of
           None \<Rightarrow> Inr page1
         | Some rows \<Rightarrow>
             list_changed_rows equal reader (lt_tableId table) rows (rows_from_cursor_in page1 (lt_tableId table)) page1)"

fun list_tables ::
  "(json \<Rightarrow> json \<Rightarrow> bool) \<Rightarrow> rows_reader \<Rightarrow> listing_table list \<Rightarrow> listing_page \<Rightarrow> listing_page outcome" where
  "list_tables equal reader [] page = Inr page"
| "list_tables equal reader (table # tables) page =
     try_bind (list_table equal reader table page) (\<lambda>page'.
       if is_full page' then Inr page' else list_tables equal reader tables page')"

subsection \<open>Listed units\<close>

record listed_unit = described_unit_ref +
  li_structure :: "unit_ref option"

definition structures_by_table_of :: "catalogue_unit list \<Rightarrow> (string, catalogue_unit) jmap" where
  "structures_by_table_of tableUnits =
     fold (\<lambda>u structures.
         if cu_kind (ca_unit u) \<noteq> StructureUnit then structures
         else fold (\<lambda>identity. AList.update identity u) (ca_tableIdentities u) structures) tableUnits []"

definition structure_of_same_table :: "catalogue_unit \<Rightarrow> (string, catalogue_unit) jmap \<Rightarrow> catalogue_unit option" where
  "structure_of_same_table u structures =
     Option.bind (find (\<lambda>s. s \<noteq> None) (map (map_of structures) (ca_tableIdentities u))) (\<lambda>s. s)"

definition listed_unit_of ::
  "system_schema_ids \<Rightarrow> (json \<Rightarrow> json \<Rightarrow> bool) \<Rightarrow> catalogue_unit \<Rightarrow> (string, catalogue_unit) jmap \<Rightarrow> catalogue_tables \<Rightarrow>
   listed_unit outcome" where
  "listed_unit_of ids equal u structures tables =
     (if cu_kind (ca_unit u) = StructureUnit
      then try_bind (described_unit_ref_of ids equal u tables) (\<lambda>r.
        Inr (described_unit_ref.extend r (listed_unit.fields None)))
      else try_bind (unit_ref_of u) (\<lambda>r.
           let listed = unit_ref.extend r (described_unit_ref.fields None)
           in case structure_of_same_table u structures of
                None \<Rightarrow> Inr (described_unit_ref.extend listed (listed_unit.fields None))
              | Some s \<Rightarrow> try_bind (unit_ref_of s) (\<lambda>structureRef.
                  Inr (described_unit_ref.extend listed (listed_unit.fields (Some structureRef))))))"

definition listed_units_of ::
  "system_schema_ids \<Rightarrow> (json \<Rightarrow> json \<Rightarrow> bool) \<Rightarrow> catalogue_unit list \<Rightarrow> change_catalogue \<Rightarrow> listed_unit list outcome" where
  "listed_units_of ids equal units tableLevel =
     (let structures = structures_by_table_of (ch_units tableLevel)
      in map_try (\<lambda>u. listed_unit_of ids equal u structures (ch_tables tableLevel)) units)"

record list_changes_result =
  lg_units :: "listed_unit list"
  lg_nextCursor :: "json option"
  lg_refusedTables :: "refused_table list"

definition list_page ::
  "'st toolkit \<Rightarrow> system_schema_ids \<Rightarrow> (json \<Rightarrow> json \<Rightarrow> bool) \<Rightarrow> (table_views \<Rightarrow> table_views \<Rightarrow> bool) \<Rightarrow>
   rows_reader \<Rightarrow> compared_snapshot \<Rightarrow> listing_request \<Rightarrow> list_changes_result outcome" where
  "list_page tk ids equal vequal reader c request =
     try_bind (build_change_catalogue tk equal vequal (with_changed_rows c [])) (\<lambda>tableLevel.
     try_bind (listing_tables_of c (ch_units tableLevel) (lr_tableId request)) (\<lambda>tables.
     let page = new_page (lr_pageSize request) (lr_cursor request)
     in try_bind (list_tables equal reader (tables_from_cursor page tables) page) (\<lambda>page'.
        try_bind (listed_units_of ids equal (lp_listed page') tableLevel) (\<lambda>units.
          Inr \<lparr>lg_units = units, lg_nextCursor = map_option cursor_payload (next_cursor page'),
               lg_refusedTables = ch_refusedTables tableLevel\<rparr>))))"

subsection \<open>Properties\<close>

lemma unit_kind_named_name: "unit_kind_named (unit_kind_name kind) = Some kind"
  by (cases kind) (simp_all add: unit_kind_named_def unit_kinds_def)

lemma sort_key_json:
  "is_unit_json (json_of_sort_key u)" "unit_of_json (json_of_sort_key u) = sort_key_of u"
  by (cases "cu_rowId u"; cases "cu_path u"; cases "cu_previousTableId u"; cases "cu_previousRowId u";
      simp add: is_unit_json_def unit_of_json_def json_of_sort_key_def jfield_def optional_field_def
        optional_sort_parts_def unit_kind_named_name sort_key_of_def)+

lemma position_json:
  "is_position (json_of_position p)" "json_text (jfield (json_of_position p) ''key'') = Some (po_key p)"
  "jfield (json_of_position p) ''unit'' = Some (json_of_sort_key (po_unit p))"
  by (simp_all add: is_position_def json_of_position_def jfield_def sort_key_json(1))

lemma decode_payload:
  "decode_cursor_payload (cursor_payload cursor) = Inr (cursor\<lparr>lc_last := sort_key_position_of (lc_last cursor)\<rparr>)"
proof -
  have idem: "sort_key_of (sort_key_of v) = sort_key_of v" for v by (simp add: sort_key_of_def)
  have "is_cursor_payload (cursor_payload cursor)"
    by (cases "lc_rows cursor"; cases "lc_last cursor")
      (simp_all add: is_cursor_payload_def cursor_payload_def jfield_def optional_field_def is_row_bound_def
        json_of_bound_def position_json sort_key_position_of_def)
  moreover have "json_text (jfield (cursor_payload cursor) ''tableId'') = Some (lc_tableId cursor)"
    "jfield (cursor_payload cursor) ''rows'' = map_option json_of_bound (lc_rows cursor)"
    "jfield (cursor_payload cursor) ''last'' = map_option json_of_position (sort_key_position_of (lc_last cursor))"
    by (cases "lc_rows cursor"; cases "lc_last cursor";
        simp add: cursor_payload_def jfield_def optional_field_def sort_key_position_of_def)+
  moreover have "map_option ((\<lambda>position. \<lparr>po_key = the (json_text (jfield position ''key'')),
      po_unit = unit_of_json (the (jfield position ''unit''))\<rparr>) \<circ> json_of_position) (sort_key_position_of (lc_last cursor)) =
      sort_key_position_of (lc_last cursor)"
    by (cases "lc_last cursor") (simp_all add: position_json sort_key_json sort_key_position_of_def idem)
  moreover have "map_option ((\<lambda>rows. \<lparr>bd_rowId = the (json_text (jfield rows ''rowId'')),
      bd_inclusive = (jfield rows ''inclusive'' = Some (JBool True))\<rparr>) \<circ> json_of_bound) (lc_rows cursor) = lc_rows cursor"
    by (cases "lc_rows cursor") (simp_all add: json_of_bound_def jfield_def)
  ultimately show ?thesis
    by (simp add: decode_cursor_payload_def option.map_comp)
qed

text \<open>
  Claim C39: a cursor survives its payload: decoding the payload of a cursor gives back its table, its
  bound on rows and the part of its last unit that units are ordered by, so units are after the decoded
  cursor exactly when they are after the cursor.
\<close>

theorem decoded_cursor_is_encoded:
  "decode_cursor_payload (cursor_payload cursor) = Inr (cursor\<lparr>lc_last := sort_key_position_of (lc_last cursor)\<rparr>) \<and>
   is_after_cursor (new_page n (Some (cursor\<lparr>lc_last := sort_key_position_of (lc_last cursor)\<rparr>))) u =
     is_after_cursor (new_page n (Some cursor)) u"
proof -
  have "compare_units l (k, sort_key_of v) = compare_units l (k, v)" for l k v
    by (simp add: compare_units_def sort_key_of_def)
  then show ?thesis
    by (cases "lc_last cursor") (simp_all add: decode_payload is_after_cursor_def new_page_def sort_key_position_of_def)
qed

end
