(* ===== verification/Listing_Rows.thy ===== *)
theory Listing_Rows
  imports Listing_Pages
begin

section \<open>Rows read in parts\<close>

text \<open>
  The listing builds the units of the rows of a table from the part of its changed rows that it read. The
  lemmas show that this gives the units of all its rows, part by part: the units of a row are the first of each
  key among its candidates, and what a row contributes depends only on the rows with its public id.
\<close>

subsection \<open>Candidates\<close>

definition row_candidate ::
  "row_units_builder \<Rightarrow> string \<Rightarrow> string list \<Rightarrow> change_unit \<Rightarrow> head_qualifier option \<Rightarrow> catalogue_unit" where
  "row_candidate b key rowIdentities u side =
     \<lparr>ca_key = key, ca_tableIdentities = rb_tableIdentities b, ca_rowIdentities = rowIdentities,
      ca_systemRows = [], ca_side = side, ca_unit = u\<rparr>"

definition add_new :: "catalogue_unit \<Rightarrow> unit_map \<Rightarrow> unit_map" where
  "add_new u units = (if map_of units (ca_key u) = None then AList.update (ca_key u) u units else units)"

definition kind_candidate ::
  "row_units_builder \<Rightarrow> unit_kind \<Rightarrow> string list \<Rightarrow> (change_unit \<Rightarrow> change_unit) \<Rightarrow> head_qualifier option \<Rightarrow>
   catalogue_unit" where
  "kind_candidate b kind rowIdentities setFields side =
     row_candidate b (row_unit_key kind (ct_identity (rb_table b)) rowIdentities) rowIdentities
       (setFields (table_unit kind (changed_table.ct_tableId (rb_table b)))) side"

definition field_candidate :: "row_units_builder \<Rightarrow> row_on_both_sides \<Rightarrow> json_pointer \<Rightarrow> catalogue_unit" where
  "field_candidate b row pointer =
     row_candidate b (field_unit_key (ct_identity (rb_table b)) (rw_identity row) pointer) [rw_identity row]
       ((table_unit FieldUnit (changed_table.ct_tableId (rb_table b)))
          \<lparr>cu_rowId := Some (row_id (rw_draft row)), cu_path := Some (pointer_string pointer)\<rparr>) None"

definition column_candidates ::
  "row_units_builder \<Rightarrow> row_on_both_sides \<Rightarrow> whole_column list \<Rightarrow> whole_column \<Rightarrow> catalogue_unit list" where
  "column_candidates b row rowColumns column =
     (case owner_of b column of
        RowRenameOwner \<Rightarrow> [kind_candidate b RowRenameUnit [rw_identity row]
          (\<lambda>u. u\<lparr>cu_rowId := Some (row_id (rw_draft row)), cu_previousRowId := Some (row_id (rw_head row))\<rparr>) None]
      | FieldOwner pointer \<Rightarrow> [field_candidate b row pointer]
      | RowColumnsOwner \<Rightarrow> [kind_candidate b RowColumnsUnit [rw_identity row]
          (\<lambda>u. u\<lparr>cu_rowId := Some (row_id (rw_draft row)), cu_columns := Some rowColumns\<rparr>) None]
      | StructureOwner \<Rightarrow> [])"

definition leaf_candidates :: "row_units_builder \<Rightarrow> row_on_both_sides \<Rightarrow> leaf_owner \<Rightarrow> catalogue_unit list" where
  "leaf_candidates b row leaf =
     (if lw_owner leaf = OwnedByStructure then [] else [field_candidate b row (lw_pointer leaf)])"

definition replace_candidate :: "row_units_builder \<Rightarrow> row_pair \<Rightarrow> row_pair \<Rightarrow> string \<Rightarrow> catalogue_unit" where
  "replace_candidate b deleted created rowId =
     kind_candidate b RowReplaceUnit [rp_identity deleted, rp_identity created] (\<lambda>u. u\<lparr>cu_rowId := Some rowId\<rparr>) None"

definition pair_candidates :: "(json \<Rightarrow> json \<Rightarrow> bool) \<Rightarrow> row_units_builder \<Rightarrow> row_pair \<Rightarrow> catalogue_unit list" where
  "pair_candidates equal b pair =
     (case (rp_head pair, rp_draft pair) of
        (Some head, Some draft) \<Rightarrow>
          (let row = \<lparr>rw_identity = rp_identity pair, rw_head = head, rw_draft = draft\<rparr>;
               columns = differing_columns_of equal head draft
           in concat (map (column_candidates b row (row_columns_among b columns)) columns) @
              concat (map (leaf_candidates b row) (differing_leaves_of equal head draft (rb_ownedLeaves b))))
      | (None, Some draft) \<Rightarrow>
          [case map_of (rb_headOnlyRows b) (row_id draft) of
             Some replaced \<Rightarrow> replace_candidate b replaced pair (row_id draft)
           | None \<Rightarrow> kind_candidate b RowCreateUnit [rp_identity pair] (\<lambda>u. u\<lparr>cu_rowId := Some (row_id draft)\<rparr>) None]
      | (Some head, None) \<Rightarrow>
          [case map_of (rb_draftOnlyRows b) (row_id head) of
             Some replacement \<Rightarrow> replace_candidate b pair replacement (row_id head)
           | None \<Rightarrow> kind_candidate b RowDeleteUnit [rp_identity pair] (\<lambda>u. u\<lparr>cu_rowId := Some (row_id head)\<rparr>)
               (side_of_deleted_row b (row_id head))]
      | (None, None) \<Rightarrow> [])"

lemma add_unit_new: "add_unit b key is u side units = (key, add_new (row_candidate b key is u side) units)"
  by (simp add: add_unit_def add_new_def row_candidate_def)

lemmas candidate_defs = kind_candidate_def field_candidate_def add_row_unit_def add_field_unit_def add_unit_new

lemma add_owner_of_column_new:
  "snd (add_owner_of_column b row column rowColumns units) = fold add_new (column_candidates b row rowColumns column) units"
  by (simp add: add_owner_of_column_def column_candidates_def add_rename_unit_def add_row_columns_unit_def
      candidate_defs split: column_owner.splits)

lemma add_owner_of_leaf_new:
  "snd (add_owner_of_leaf b row leaf units) = fold add_new (leaf_candidates b row leaf) units"
  by (simp add: add_owner_of_leaf_def leaf_candidates_def candidate_defs)

lemma fold_owners_new:
  assumes "\<And>x units. snd (add x units) = fold add_new (candidates x) units"
  shows "snd (fold (\<lambda>x (owners, units). let (key, units') = add x units in (AList.update (name x) key owners, units'))
      xs (owners, units)) = fold add_new (concat (map candidates xs)) units"
proof (induction xs arbitrary: owners units)
  case (Cons x xs)
  have "(let (key, units') = add x units in (AList.update (name x) key owners, units')) =
      (AList.update (name x) (fst (add x units)) owners, snd (add x units))"
    by (simp add: Let_def split: prod.splits)
  with Cons.IH [of "AList.update (name x) (fst (add x units)) owners" "snd (add x units)"]
  show ?case by (simp add: assms)
qed simp

lemma catalogue_row_of_new:
  assumes "catalogue_row_of equal b pair units = Inr (row, units')"
  shows "units' = fold add_new (pair_candidates equal b pair) units"
proof (cases "rp_head pair"; cases "rp_draft pair")
  fix head draft
  assume both: "rp_head pair = Some head" "rp_draft pair = Some draft"
  let ?row = "\<lparr>rw_identity = rp_identity pair, rw_head = head, rw_draft = draft\<rparr>"
  let ?columns = "differing_columns_of equal head draft"
  have "units' = snd (row_with_both_sides equal b pair ?row units)"
    using assms both by (simp add: catalogue_row_of_def)
  also have "\<dots> = snd (fold (\<lambda>leaf (owners, units). let (key, units') = add_owner_of_leaf b ?row leaf units
        in (AList.update (pointer_string (lw_pointer leaf)) key owners, units'))
      (differing_leaves_of equal head draft (rb_ownedLeaves b))
      ([], snd (fold (\<lambda>column (owners, units).
          let (key, units') = add_owner_of_column b ?row column (row_columns_among b ?columns) units
          in (AList.update column key owners, units')) ?columns ([], units))))"
    by (simp add: row_with_both_sides_def Let_def split: prod.splits)
  also have "\<dots> = fold add_new (pair_candidates equal b pair) units"
    unfolding fold_owners_new [of "add_owner_of_leaf b ?row", OF add_owner_of_leaf_new]
      fold_owners_new [of "\<lambda>column. add_owner_of_column b ?row column (row_columns_among b ?columns)",
        OF add_owner_of_column_new]
    by (simp add: pair_candidates_def both Let_def)
  finally show ?thesis .
qed (use assms in \<open>auto simp: catalogue_row_of_def existence_row_def pair_candidates_def add_creation_unit_def
      add_deletion_unit_def add_replace_unit_def replace_candidate_def candidate_defs split: option.splits\<close>)

lemma catalogue_rows_new:
  "catalogue_rows equal b pairs units = Inr (rows, units') \<Longrightarrow>
     units' = fold add_new (concat (map (pair_candidates equal b) pairs)) units"
proof (induction pairs arbitrary: units rows)
  case (Cons pair pairs)
  then obtain row units1 rest where "catalogue_row_of equal b pair units = Inr (row, units1)"
    "catalogue_rows equal b pairs units1 = Inr (rest, units')" by auto
  with Cons.IH show ?case by (auto dest: catalogue_row_of_new)
qed simp

subsection \<open>The first of each key\<close>

definition first_units :: "catalogue_unit list \<Rightarrow> catalogue_unit list" where
  "first_units candidates = jvalues (fold add_new candidates [])"

definition keyed_units :: "unit_map \<Rightarrow> bool" where
  "keyed_units m \<longleftrightarrow> jkeys m = map ca_key (jvalues m) \<and> distinct (jkeys m)"

lemma add_new_append: "add_new u m = (if ca_key u \<in> set (jkeys m) then m else m @ [(ca_key u, u)])"
  by (auto simp: add_new_def map_of_eq_None_iff update_new)

lemma fold_add_new_apart:
  "set (map ca_key us) \<inter> set (jkeys m) = {} \<Longrightarrow> fold add_new us (m @ n) = m @ fold add_new us n"
proof (induction us arbitrary: n)
  case (Cons u us)
  then have "add_new u (m @ n) = m @ add_new u n" by (auto simp: add_new_append)
  with Cons show ?case by auto
qed simp

lemma fold_add_new_facts:
  "keyed_units m \<Longrightarrow> keyed_units (fold add_new us m)"
  "set (jvalues (fold add_new us m)) \<subseteq> set (jvalues m) \<union> set us"
  "set (jkeys (fold add_new us m)) = set (jkeys m) \<union> ca_key ` set us"
proof (induction us arbitrary: m)
  case (Cons u us)
  { case 1
    have "keyed_units (add_new u m)" using 1 by (auto simp: keyed_units_def add_new_append)
    then show ?case by (simp add: Cons.IH(1)) }
  { case 2 show ?case using Cons.IH(2) [of "add_new u m"] by (auto simp: add_new_append split: if_splits) }
  { case 3 show ?case using Cons.IH(3) [of "add_new u m"] by (auto simp: add_new_append) }
qed simp_all

lemma first_units_facts:
  "set (first_units us) \<subseteq> set us" "ca_key ` set (first_units us) = ca_key ` set us"
  "distinct (map ca_key (first_units us))"
proof -
  have "keyed_units (fold add_new us [])" by (rule fold_add_new_facts(1)) (simp add: keyed_units_def)
  then have keys: "jkeys (fold add_new us []) = map ca_key (first_units us)" "distinct (jkeys (fold add_new us []))"
    by (simp_all add: keyed_units_def first_units_def)
  then show "distinct (map ca_key (first_units us))" by simp
  show "set (first_units us) \<subseteq> set us" using fold_add_new_facts(2) [of us "[]"] by (simp add: first_units_def)
  have "set (jkeys (fold add_new us [])) = ca_key ` set us" using fold_add_new_facts(3) [of us "[]"] by simp
  then show "ca_key ` set (first_units us) = ca_key ` set us" unfolding keys(1) by simp
qed

lemma first_units_append:
  assumes "ca_key ` set us \<inter> ca_key ` set vs = {}"
  shows "first_units (us @ vs) = first_units us @ first_units vs"
proof -
  have "set (map ca_key vs) \<inter> set (jkeys (fold add_new us [])) = {}"
    using assms fold_add_new_facts(3) [of us "[]"] by auto
  from fold_add_new_apart [OF this, of "[]"] show ?thesis by (simp add: first_units_def)
qed

subsection \<open>What a row contributes\<close>

definition listed_row_id :: "row_pair \<Rightarrow> string option" where
  "listed_row_id pair = map_option row_id (either_version (rp_draft pair) (rp_head pair))"

lemma unit_row_id_of_listed: "unit_row_id_of pair = Inr i \<longleftrightarrow> listed_row_id pair = Some i"
  by (auto simp: unit_row_id_of_def listed_row_id_def split: option.splits)

definition rows_table :: "string \<Rightarrow> compared_table \<Rightarrow> row_pair list \<Rightarrow> changed_table" where
  "rows_table tableId table pairs =
     \<lparr>ct_identity = co_identity table, ct_tableId = tableId, ct_structure = co_structure table, ct_pairs = pairs\<rparr>"

lemma builder_parts [simp]:
  "ct_identity (rows_table tableId table pairs) = co_identity table"
  "changed_table.ct_tableId (rows_table tableId table pairs) = tableId"
  "ct_structure (rows_table tableId table pairs) = co_structure table"
  "ct_pairs (rows_table tableId table pairs) = pairs"
  "rb_tableIdentities (row_units_builder (rows_table tableId table pairs)) = [co_identity table]"
  "rb_idsTakenByRenames (row_units_builder (rows_table tableId table pairs)) = ids_taken_by_renames_of pairs"
  by (simp_all add: row_units_builder_def rows_table_def)

lemma only_row_listed:
  "map_option row_id (head_only_row_of q) = Some i \<Longrightarrow> listed_row_id q = Some i"
  "map_option row_id (draft_only_row_of q) = Some i \<Longrightarrow> listed_row_id q = Some i"
  by (auto simp: head_only_row_of_def draft_only_row_of_def listed_row_id_def either_version_def split: if_splits option.splits)

lemma find_filter: "(\<And>x. p x \<Longrightarrow> q x) \<Longrightarrow> find p (filter q xs) = find p xs"
  by (induction xs) auto

lemma rows_by_id_local:
  assumes "\<And>q. map_option row_id (rowOf q) = Some i \<Longrightarrow> listed_row_id q = Some i"
  shows "map_of (rows_by_id pairs rowOf) i = map_of (rows_by_id (filter (\<lambda>q. listed_row_id q = Some i) pairs) rowOf) i"
  unfolding rows_by_id_find rev_filter by (rule find_filter [OF assms, symmetric])

lemma ids_taken_mem:
  "i \<in> set (ids_taken_by_renames_of pairs) \<longleftrightarrow>
     (\<exists>q \<in> set pairs. \<exists>head draft. rp_head q = Some head \<and> rp_draft q = Some draft \<and> row_id head \<noteq> row_id draft \<and>
        row_id draft = i)"
proof -
  let ?step = "\<lambda>pair ids. case (rp_head pair, rp_draft pair) of
         (Some head, Some draft) \<Rightarrow>
           if row_id head \<noteq> row_id draft then List.insert (row_id draft) ids else ids
       | _ \<Rightarrow> ids"
  have "i \<in> set (fold ?step pairs ids) \<longleftrightarrow> i \<in> set ids \<or>
     (\<exists>q \<in> set pairs. \<exists>head draft. rp_head q = Some head \<and> rp_draft q = Some draft \<and> row_id head \<noteq> row_id draft \<and>
        row_id draft = i)" for ids
    by (induction pairs arbitrary: ids) (auto split: option.splits)
  then show ?thesis by (simp add: ids_taken_by_renames_of_def)
qed

lemma ids_taken_local:
  "i \<in> set (ids_taken_by_renames_of pairs) \<longleftrightarrow>
     i \<in> set (ids_taken_by_renames_of (filter (\<lambda>q. listed_row_id q = Some i) pairs))"
  unfolding ids_taken_mem by (auto simp: listed_row_id_def either_version_def)

lemma pair_candidates_local:
  assumes "listed_row_id pair = Some i"
    "filter (\<lambda>q. listed_row_id q = Some i) pairs = filter (\<lambda>q. listed_row_id q = Some i) pairs'"
  shows "pair_candidates equal (row_units_builder (rows_table tableId table pairs)) pair =
    pair_candidates equal (row_units_builder (rows_table tableId table pairs')) pair"
proof -
  let ?b = "row_units_builder (rows_table tableId table pairs)"
  let ?b' = "row_units_builder (rows_table tableId table pairs')"
  have head: "map_of (rows_by_id pairs head_only_row_of) i = map_of (rows_by_id pairs' head_only_row_of) i"
    using rows_by_id_local [of head_only_row_of i pairs] rows_by_id_local [of head_only_row_of i pairs'] assms(2)
    by (simp add: only_row_listed)
  have draft: "map_of (rows_by_id pairs draft_only_row_of) i = map_of (rows_by_id pairs' draft_only_row_of) i"
    using rows_by_id_local [of draft_only_row_of i pairs] rows_by_id_local [of draft_only_row_of i pairs'] assms(2)
    by (simp add: only_row_listed)
  have taken: "i \<in> set (ids_taken_by_renames_of pairs) \<longleftrightarrow> i \<in> set (ids_taken_by_renames_of pairs')"
    using ids_taken_local [of i pairs] ids_taken_local [of i pairs'] assms(2) by simp
  have same: "row_candidate ?b = row_candidate ?b'" "kind_candidate ?b = kind_candidate ?b'"
    "field_candidate ?b = field_candidate ?b'" "owner_of ?b = owner_of ?b'"
    by (intro ext; simp add: row_candidate_def kind_candidate_def field_candidate_def Row_Units.owner_of_def)+
  have also_same: "column_candidates ?b = column_candidates ?b'" "leaf_candidates ?b = leaf_candidates ?b'"
    "row_columns_among ?b = row_columns_among ?b'" "replace_candidate ?b = replace_candidate ?b'"
    unfolding fun_eq_iff column_candidates_def leaf_candidates_def row_columns_among_def replace_candidate_def same
    by (rule allI | rule refl)+
  show ?thesis
    using assms(1) head draft taken
    by (auto simp: same also_same pair_candidates_def side_of_deleted_row_def listed_row_id_def either_version_def
        split: option.splits)
qed

lemma changed_row_candidate:
  assumes "u \<in> set (column_candidates b row rowColumns column) \<union> set (leaf_candidates b row leaf)"
  shows "cu_rowId (ca_unit u) = Some (row_id (rw_draft row))"
    "cu_tableId (ca_unit u) = changed_table.ct_tableId (rb_table b)"
    "\<exists>kind rest. ca_key u = key_of kind (ct_identity (rb_table b) # rw_identity row # rest)"
proof -
  from assms have "cu_rowId (ca_unit u) = Some (row_id (rw_draft row)) \<and>
      cu_tableId (ca_unit u) = changed_table.ct_tableId (rb_table b) \<and>
      (\<exists>kind rest. ca_key u = key_of kind (ct_identity (rb_table b) # rw_identity row # rest))"
    by (cases "Row_Units.owner_of b column")
      (auto simp: column_candidates_def leaf_candidates_def kind_candidate_def field_candidate_def row_candidate_def
        table_unit_def row_unit_key_def field_unit_key_def split: if_splits)
  then show "cu_rowId (ca_unit u) = Some (row_id (rw_draft row))"
    "cu_tableId (ca_unit u) = changed_table.ct_tableId (rb_table b)"
    "\<exists>kind rest. ca_key u = key_of kind (ct_identity (rb_table b) # rw_identity row # rest)" by blast+
qed

lemma candidate_facts:
  assumes "u \<in> set (pair_candidates equal (row_units_builder (rows_table tableId table pairs)) pair)" "pair \<in> set pairs"
  shows "cu_rowId (ca_unit u) = listed_row_id pair" "cu_tableId (ca_unit u) = tableId"
    "\<exists>q \<in> set pairs. listed_row_id q = listed_row_id pair \<and>
      (\<exists>kind rest. ca_key u = key_of kind (co_identity table # rp_identity q # rest))"
proof -
  have replaced: "q \<in> set pairs \<and> listed_row_id q = Some i"
    if "map_of (rows_by_id pairs head_only_row_of) i = Some q" for q i
  proof
    show "q \<in> set pairs" by (rule rows_by_id_mem [OF that])
    from that have "map_option row_id (head_only_row_of q) = Some i" by (auto simp: rows_by_id_find find_Some_iff)
    then show "listed_row_id q = Some i" by (rule only_row_listed)
  qed
  show "cu_rowId (ca_unit u) = listed_row_id pair" "cu_tableId (ca_unit u) = tableId"
    using assms(1)
    by (auto simp: pair_candidates_def Let_def replace_candidate_def kind_candidate_def row_candidate_def table_unit_def
        listed_row_id_def either_version_def dest: changed_row_candidate(1,2) [OF UnI1] changed_row_candidate(1,2) [OF UnI2]
        split: option.splits)
  show "\<exists>q \<in> set pairs. listed_row_id q = listed_row_id pair \<and>
      (\<exists>kind rest. ca_key u = key_of kind (co_identity table # rp_identity q # rest))"
  proof (cases "\<exists>draft q. rp_head pair = None \<and> rp_draft pair = Some draft \<and>
      map_of (rows_by_id pairs head_only_row_of) (row_id draft) = Some q")
    case True
    then obtain draft q where q: "rp_head pair = None" "rp_draft pair = Some draft"
      "map_of (rows_by_id pairs head_only_row_of) (row_id draft) = Some q" by blast
    with assms(1) have "ca_key u = key_of RowReplaceUnit (co_identity table # rp_identity q # [rp_identity pair])"
      by (simp add: pair_candidates_def replace_candidate_def kind_candidate_def row_candidate_def row_unit_key_def)
    with replaced [OF q(3)] q(1,2) show ?thesis by (auto simp: listed_row_id_def either_version_def)
  next
    case False
    then have "\<exists>kind rest. ca_key u = key_of kind (co_identity table # rp_identity pair # rest)"
      using assms(1)
      by (auto simp: pair_candidates_def Let_def replace_candidate_def kind_candidate_def row_candidate_def
          row_unit_key_def dest: changed_row_candidate(3) [OF UnI1] changed_row_candidate(3) [OF UnI2]
          split: option.splits)
    with assms(2) show ?thesis by blast
  qed
qed

subsection \<open>The units of rows, part by part\<close>

definition candidates_of_rows ::
  "(json \<Rightarrow> json \<Rightarrow> bool) \<Rightarrow> string \<Rightarrow> compared_table \<Rightarrow> row_pair list \<Rightarrow> catalogue_unit list" where
  "candidates_of_rows equal tableId table pairs =
     concat (map (pair_candidates equal (row_units_builder (rows_table tableId table pairs))) pairs)"

definition units_of_rows ::
  "(json \<Rightarrow> json \<Rightarrow> bool) \<Rightarrow> string \<Rightarrow> compared_table \<Rightarrow> row_pair list \<Rightarrow> catalogue_unit list" where
  "units_of_rows equal tableId table pairs = js_sort catalogue_order (first_units (candidates_of_rows equal tableId table pairs))"

lemma row_units_of_rows:
  assumes "list_all (\<lambda>p. listed_row_id p \<noteq> None) pairs"
  shows "row_units_of equal tableId table pairs = Inr (units_of_rows equal tableId table pairs)"
proof -
  let ?t = "rows_table tableId table pairs"
  have "\<not> list_ex (\<lambda>p. rp_head p = None \<and> rp_draft p = None) (ct_pairs ?t)"
    using assms by (auto simp: rows_table_def list_ex_iff list_all_iff listed_row_id_def either_version_def)
  from row_units_total [OF this, of equal] obtain rows units where
    run: "catalogue_rows equal (row_units_builder ?t) pairs [] = Inr (rows, units)"
    "build_row_units equal ?t = Inr \<lparr>ru_units = jvalues units, ru_rows = rows\<rparr>"
    by (auto simp: build_row_units_def rows_table_def)
  from catalogue_rows_new [OF run(1)] run(2) show ?thesis
    by (simp add: row_units_of_def units_of_rows_def candidates_of_rows_def first_units_def rows_table_def)
qed

lemma units_of_rows_facts:
  "u \<in> set (units_of_rows equal tableId table pairs) \<Longrightarrow> u \<in> set (candidates_of_rows equal tableId table pairs)"
  "distinct (map ca_key (units_of_rows equal tableId table pairs))"
  "sorted_wrt (\<lambda>u v. catalogue_order u v \<le> 0) (units_of_rows equal tableId table pairs)"
proof -
  let ?us = "first_units (candidates_of_rows equal tableId table pairs)"
  show "u \<in> set (units_of_rows equal tableId table pairs) \<Longrightarrow> u \<in> set (candidates_of_rows equal tableId table pairs)"
    using first_units_facts(1) by (auto simp: units_of_rows_def)
  show "distinct (map ca_key (units_of_rows equal tableId table pairs))"
    unfolding units_of_rows_def distinct_map_js_sort by (rule first_units_facts(3))
  show "sorted_wrt (\<lambda>u v. catalogue_order u v \<le> 0) (units_of_rows equal tableId table pairs)"
    unfolding units_of_rows_def by (rule catalogue_order.sorted_js_sort)
qed

lemma units_of_rows_row:
  assumes "u \<in> set (units_of_rows equal tableId table pairs)"
  shows "\<exists>p \<in> set pairs. cu_rowId (ca_unit u) = listed_row_id p" "cu_tableId (ca_unit u) = tableId"
  using units_of_rows_facts(1) [OF assms] candidate_facts(1,2) [of u equal tableId table pairs]
  by (auto simp: candidates_of_rows_def)

lemma order_ranks:
  "catalogue_order u v < 0 \<longleftrightarrow> unit_rank (ca_key u, ca_unit u) < unit_rank (ca_key v, ca_unit v)"
  "catalogue_order u v \<le> 0 \<longleftrightarrow> unit_rank (ca_key u, ca_unit u) \<le> unit_rank (ca_key v, ca_unit v)"
  using compare_units_orders [of "(ca_key u, ca_unit u)" "(ca_key v, ca_unit v)"]
  by (auto simp: catalogue_order_def orders_def le_less)

lemma strictly_ordered:
  assumes "sorted_wrt (\<lambda>u v. catalogue_order u v \<le> 0) us" "distinct (map ca_key us)"
  shows "sorted_wrt (\<lambda>u v. catalogue_order u v < 0) us"
  using assms
proof (induction us)
  case (Cons u us)
  have "catalogue_order u v < 0" if "v \<in> set us" for v
  proof -
    have "ca_key u \<noteq> ca_key v" "catalogue_order u v \<le> 0" using Cons.prems that by auto
    then show ?thesis unfolding order_ranks by (auto simp: le_less unit_rank_def)
  qed
  with Cons show ?case by simp
qed simp

lemma sorted_parts:
  assumes "distinct (map ca_key (us @ vs))" "\<And>u v. u \<in> set us \<Longrightarrow> v \<in> set vs \<Longrightarrow> catalogue_order u v < 0"
  shows "js_sort catalogue_order (us @ vs) = js_sort catalogue_order us @ js_sort catalogue_order vs"
proof (rule catalogue_order.sorted_same_mset)
  show "sorted_wrt (\<lambda>u v. catalogue_order u v \<le> 0) (js_sort catalogue_order us @ js_sort catalogue_order vs)"
    using assms(2) by (auto simp: sorted_wrt_append catalogue_order.sorted_js_sort less_imp_le)
  show "u = v" if "u \<in> set (js_sort catalogue_order (us @ vs))" "v \<in> set (js_sort catalogue_order (us @ vs))"
    "catalogue_order u v \<le> 0" "catalogue_order v u \<le> 0" for u v
  proof -
    from that(3,4) have "unit_rank (ca_key u, ca_unit u) = unit_rank (ca_key v, ca_unit v)"
      unfolding order_ranks by (rule order_antisym)
    then have "ca_key u = ca_key v" by (simp add: unit_rank_def)
    with that(1,2) assms(1) show ?thesis
      unfolding set_js_sort by (metis distinct_map inj_onD)
  qed
qed (simp_all add: catalogue_order.sorted_js_sort)

text \<open>Rows in the order of the ids they are listed under.\<close>

definition listed_before :: "row_pair \<Rightarrow> row_pair \<Rightarrow> bool" where
  "listed_before p q \<longleftrightarrow> listed_row_id p < listed_row_id q"

lemma units_of_rows_append:
  assumes "distinct (map rp_identity (ps @ qs))" "\<And>p q. p \<in> set ps \<Longrightarrow> q \<in> set qs \<Longrightarrow> listed_before p q"
    "list_all (\<lambda>p. listed_row_id p \<noteq> None) (ps @ qs)"
  shows "units_of_rows equal tableId table (ps @ qs) = units_of_rows equal tableId table ps @ units_of_rows equal tableId table qs"
proof -
  let ?b = "\<lambda>pairs. row_units_builder (rows_table tableId table pairs)"
  have apart: "listed_row_id p \<noteq> listed_row_id q" if "p \<in> set ps" "q \<in> set qs" for p q
    using assms(2) [OF that] by (auto simp: listed_before_def)
  have left: "pair_candidates equal (?b (ps @ qs)) p = pair_candidates equal (?b ps) p" if p: "p \<in> set ps" for p
  proof -
    obtain i where i: "listed_row_id p = Some i" using assms(3) p by (auto simp: list_all_iff)
    have "filter (\<lambda>q. listed_row_id q = Some i) qs = []" using apart [OF p] i by (fastforce simp: filter_empty_conv)
    then show ?thesis by (intro pair_candidates_local [OF i]) simp
  qed
  have right: "pair_candidates equal (?b (ps @ qs)) q = pair_candidates equal (?b qs) q" if q: "q \<in> set qs" for q
  proof -
    obtain i where i: "listed_row_id q = Some i" using assms(3) q by (auto simp: list_all_iff)
    have "filter (\<lambda>q. listed_row_id q = Some i) ps = []" using apart [OF _ q] i by (fastforce simp: filter_empty_conv)
    then show ?thesis by (intro pair_candidates_local [OF i]) simp
  qed
  have candidates: "candidates_of_rows equal tableId table (ps @ qs) =
      candidates_of_rows equal tableId table ps @ candidates_of_rows equal tableId table qs"
    using left right by (simp add: candidates_of_rows_def cong: map_cong)
  have names: "\<exists>q \<in> set pairs. \<exists>kind rest. ca_key u = key_of kind (co_identity table # rp_identity q # rest)"
    if "u \<in> set (candidates_of_rows equal tableId table pairs)" for pairs u
    using that candidate_facts(3) [of u equal tableId table pairs] by (fastforce simp: candidates_of_rows_def)
  have keys: "ca_key ` set (candidates_of_rows equal tableId table ps) \<inter>
      ca_key ` set (candidates_of_rows equal tableId table qs) = {}"
  proof -
    have "rp_identity p \<noteq> rp_identity q" if "p \<in> set ps" "q \<in> set qs" for p q
      using assms(1) that by auto
    with names [of _ ps] names [of _ qs] show ?thesis by (fastforce simp: disjoint_iff)
  qed
  have "distinct (map ca_key (first_units (candidates_of_rows equal tableId table ps) @
      first_units (candidates_of_rows equal tableId table qs)))"
    using keys by (simp add: first_units_facts disjoint_iff)
  moreover have "catalogue_order u v < 0" if "u \<in> set (first_units (candidates_of_rows equal tableId table ps))"
    "v \<in> set (first_units (candidates_of_rows equal tableId table qs))" for u v
  proof -
    have mem: "u \<in> set (units_of_rows equal tableId table ps)" "v \<in> set (units_of_rows equal tableId table qs)"
      using that by (simp_all add: units_of_rows_def)
    from units_of_rows_row [OF mem(1)] units_of_rows_row [OF mem(2)] assms(2)
    have "cu_rowId (ca_unit u) < cu_rowId (ca_unit v)" "cu_tableId (ca_unit u) = cu_tableId (ca_unit v)"
      by (auto simp: listed_before_def)
    then show ?thesis unfolding order_ranks(1) by (simp add: unit_rank_def)
  qed
  ultimately show ?thesis
    unfolding units_of_rows_def candidates first_units_append [OF keys] by (rule sorted_parts)
qed

end
