(* ===== verification/Listing_Reader.thy ===== *)
theory Listing_Reader
  imports Listing_Rows
begin

section \<open>Reading the changed rows of a table\<close>

text \<open>
  What the reader of changed rows promises, as its SQL states it: the changed rows of the table from the bound
  on, in the order of the ids they are listed under, the first \<open>rowLimit\<close> of them with ties; and what the loop
  of \<open>unit-listing.ts\<close> that reads them adds to a page.
\<close>

subsection \<open>Reading rows\<close>

definition bound_admits :: "row_bound \<Rightarrow> string \<Rightarrow> bool" where
  "bound_admits bound i \<longleftrightarrow> bd_rowId bound < i \<or> (bd_inclusive bound \<and> i = bd_rowId bound)"

definition within_bound :: "row_bound option \<Rightarrow> row_pair \<Rightarrow> bool" where
  "within_bound bound p =
     (case (bound, listed_row_id p) of (Some b, Some i) \<Rightarrow> bound_admits b i | (None, _) \<Rightarrow> True | _ \<Rightarrow> False)"

definition rows_from :: "row_bound option \<Rightarrow> row_pair list \<Rightarrow> row_pair list" where
  "rows_from bound rows = filter (within_bound bound) rows"

definition with_ties :: "nat \<Rightarrow> row_pair list \<Rightarrow> row_pair list" where
  "with_ties n rows =
     (if n = 0 then []
      else take n rows @ takeWhile (\<lambda>p. listed_row_id p = listed_row_id (last (take n rows))) (drop n rows))"

definition reads_rows :: "rows_reader \<Rightarrow> compared_table \<Rightarrow> row_pair list \<Rightarrow> bool" where
  "reads_rows reader table rows \<longleftrightarrow>
     (\<forall>keyset. reader table keyset = Inr (with_ties (kx_rowLimit keyset) (rows_from (kx_from keyset) rows)))"

definition rows_sound :: "row_pair list \<Rightarrow> bool" where
  "rows_sound rows \<longleftrightarrow>
     distinct (map rp_identity rows) \<and> list_all (\<lambda>p. listed_row_id p \<noteq> None) rows \<and>
     sorted_wrt (\<lambda>p q. listed_row_id p \<le> listed_row_id q) rows"

definition rows_apart :: "row_pair list \<Rightarrow> row_pair list \<Rightarrow> bool" where
  "rows_apart ps qs \<longleftrightarrow> (\<forall>p \<in> set ps. \<forall>q \<in> set qs. listed_before p q)"

lemma uniq_append: "uniq (xs @ [x]) = (if x \<in> set xs then uniq xs else uniq xs @ [x])"
  by (induction xs) auto

lemma sorted_before_last: "sorted_wrt P xs \<Longrightarrow> x \<in> set xs \<Longrightarrow> x = last xs \<or> P x (last xs)"
  by (induction xs rule: rev_induct) (auto simp: sorted_wrt_append)

lemma rows_sound_append: "rows_sound (ps @ qs) \<Longrightarrow> rows_sound ps \<and> rows_sound qs"
  by (simp add: rows_sound_def sorted_wrt_append)

lemma units_of_rows_apart:
  "rows_sound (ps @ qs) \<Longrightarrow> rows_apart ps qs \<Longrightarrow>
     units_of_rows equal tableId table (ps @ qs) = units_of_rows equal tableId table ps @ units_of_rows equal tableId table qs"
  by (rule units_of_rows_append) (simp_all add: rows_sound_def rows_apart_def)

lemma units_of_no_rows [simp]: "units_of_rows equal tableId table [] = []"
  by (simp add: units_of_rows_def candidates_of_rows_def first_units_def)

text \<open>The rows read are a beginning of those left, and end where an id ends.\<close>

lemma with_ties_split:
  assumes "rows_sound rows" "0 < n"
  shows "\<exists>rest. rows = with_ties n rows @ rest \<and> rows_apart (with_ties n rows) rest \<and>
    (length (with_ties n rows) < n \<longrightarrow> rest = [])"
proof -
  let ?same = "\<lambda>p. listed_row_id p = listed_row_id (last (take n rows))"
  let ?rest = "dropWhile ?same (drop n rows)"
  have split: "rows = with_ties n rows @ ?rest" using assms(2) by (simp add: with_ties_def)
  have "listed_before p q" if p: "p \<in> set (with_ties n rows)" and q: "q \<in> set ?rest" for p q
  proof -
    have some: "take n rows \<noteq> []" using q assms(2) by (cases rows) (auto dest: set_dropWhileD)
    have sorted: "sorted_wrt (\<lambda>p q. listed_row_id p \<le> listed_row_id q) (take n rows @ takeWhile ?same (drop n rows) @ ?rest)"
      using assms(1) by (simp add: rows_sound_def)
    obtain x xs where rest: "?rest = x # xs" using q by (cases ?rest) auto
    have "\<not> ?same x" using hd_dropWhile [of ?same "drop n rows"] rest by simp
    moreover have "listed_row_id (last (take n rows)) \<le> listed_row_id x"
      using sorted last_in_set [OF some] unfolding rest by (auto simp: sorted_wrt_append)
    ultimately have less: "listed_row_id (last (take n rows)) < listed_row_id x" by auto
    have "listed_row_id p \<le> listed_row_id (last (take n rows))"
    proof (cases "p \<in> set (take n rows)")
      case True
      then show ?thesis
        using sorted_before_last [OF _ True, of "\<lambda>p q. listed_row_id p \<le> listed_row_id q"] sorted
        by (auto simp: sorted_wrt_append)
    next
      case False
      then have "p \<in> set (takeWhile ?same (drop n rows))" using p assms(2) by (simp add: with_ties_def)
      then show ?thesis by (auto dest: set_takeWhileD)
    qed
    moreover have "listed_row_id x \<le> listed_row_id q"
      using sorted q unfolding rest by (auto simp: sorted_wrt_append)
    ultimately show ?thesis using less by (simp add: listed_before_def)
  qed
  moreover have "?rest = []" if "length (with_ties n rows) < n"
  proof -
    from that assms(2) have "length rows < n" by (simp add: with_ties_def split: if_splits)
    then show ?thesis by simp
  qed
  ultimately show ?thesis using split unfolding rows_apart_def by blast
qed

text \<open>The rows left after a bound are an end of the rows.\<close>

lemma rows_from_split:
  assumes "rows_sound rows"
  shows "\<exists>before. rows = before @ rows_from bound rows \<and> rows_apart before (rows_from bound rows) \<and>
    (\<forall>p \<in> set before. \<not> within_bound bound p)"
proof (cases bound)
  case None
  then have "rows_from bound rows = rows" by (simp add: rows_from_def within_bound_def)
  then show ?thesis by (simp add: rows_apart_def)
next
  case (Some b)
  have up: "within_bound bound q" if "within_bound bound p" "listed_row_id p \<le> listed_row_id q" "listed_row_id q \<noteq> None" for p q
    using that by (auto simp: within_bound_def Some bound_admits_def split: option.splits)
  have "rows = filter (\<lambda>p. \<not> within_bound bound p) rows @ filter (within_bound bound) rows"
    using assms
  proof (induction rows)
    case (Cons p rows)
    show ?case
    proof (cases "within_bound bound p")
      case True
      with up [OF True] Cons.prems have "filter (\<lambda>p. \<not> within_bound bound p) rows = []" "filter (within_bound bound) rows = rows"
        by (auto simp: filter_empty_conv filter_id_conv rows_sound_def list_all_iff)
      with True show ?thesis by simp
    next
      case False
      moreover have "rows_sound rows" using Cons.prems by (simp add: rows_sound_def)
      ultimately show ?thesis using Cons.IH by simp
    qed
  qed simp
  moreover have "listed_before p q" if "p \<in> set rows" "\<not> within_bound bound p" "q \<in> set rows" "within_bound bound q" for p q
  proof -
    have "listed_row_id p \<noteq> None" using assms that(1) by (simp add: rows_sound_def list_all_iff)
    with up [of q p] that show ?thesis unfolding listed_before_def by (meson linorder_not_le)
  qed
  ultimately show ?thesis
    by (intro exI [of _ "filter (\<lambda>p. \<not> within_bound bound p) rows"]) (auto simp: rows_from_def rows_apart_def)
qed

lemma rows_from_sound: "rows_sound rows \<Longrightarrow> rows_sound (rows_from bound rows)"
  by (metis rows_from_split rows_sound_append)

text \<open>Going on after the last id read leaves the rest.\<close>

lemma rows_from_last:
  assumes "rows_sound (before @ ps @ qs)" "rows_apart before (ps @ qs)" "rows_apart ps qs" "ps \<noteq> []"
    "listed_row_id (last ps) = Some i"
  shows "rows_from (Some \<lparr>bd_rowId = i, bd_inclusive = False\<rparr>) (before @ ps @ qs) = qs"
proof -
  have after: "within_bound (Some \<lparr>bd_rowId = i, bd_inclusive = False\<rparr>) p \<longleftrightarrow> Some i < listed_row_id p" for p
    by (cases "listed_row_id p") (auto simp: within_bound_def bound_admits_def)
  have "\<not> Some i < listed_row_id p" if "p \<in> set ps" for p
    using sorted_before_last [OF _ that, of "\<lambda>p q. listed_row_id p \<le> listed_row_id q"] assms(1,5)
    by (auto simp: rows_sound_def sorted_wrt_append)
  moreover have "\<not> Some i < listed_row_id p" if "p \<in> set before" for p
    using assms(2,5) that last_in_set [OF assms(4)] unfolding rows_apart_def listed_before_def
    by (metis UnI1 less_asym set_append)
  moreover have "Some i < listed_row_id q" if "q \<in> set qs" for q
    using assms(3,5) that last_in_set [OF assms(4)] by (auto simp: rows_apart_def listed_before_def)
  ultimately show ?thesis by (auto simp: rows_from_def after filter_empty_conv filter_id_conv)
qed

lemma last_uniq: "sorted xs \<Longrightarrow> xs \<noteq> [] \<Longrightarrow> uniq xs \<noteq> [] \<and> last (uniq xs) = last (xs :: string list)"
proof (induction xs rule: rev_induct)
  case (snoc x xs)
  show ?case
  proof (cases "x \<in> set xs")
    case True
    then have "xs \<noteq> []" by auto
    with snoc have IH: "uniq xs \<noteq> [] \<and> last (uniq xs) = last xs" by (simp add: sorted_append)
    have "last xs \<le> x" using snoc.prems(1) \<open>xs \<noteq> []\<close> by (simp add: sorted_append)
    moreover have "x \<le> last xs"
      using sorted_before_last [OF _ True, of "(\<le>)"] snoc.prems(1) by (auto simp: sorted_append)
    ultimately have "last xs = x" by (rule antisym)
    with IH True show ?thesis by (simp add: uniq_append)
  next
    case False
    then show ?thesis by (simp add: uniq_append)
  qed
qed simp


subsection \<open>What a page lists\<close>

text \<open>A page that was given the units \<open>X\<close>: it lists the first of them, and says whether the row of the last
  one goes on.\<close>

definition page_shows :: "listing_page \<Rightarrow> catalogue_unit list \<Rightarrow> bool" where
  "page_shows page X \<longleftrightarrow>
     lp_listed page = take (lp_pageSize page) X \<and>
     (if length X \<le> lp_pageSize page then \<not> lp_lastRowContinues page
      else lp_lastRowContinues page =
        (cu_rowId (ca_unit (X ! lp_pageSize page)) = cu_rowId (ca_unit (last (lp_listed page)))))"

definition feed_of :: "listing_page \<Rightarrow> catalogue_unit list \<Rightarrow> catalogue_unit list" where
  "feed_of page us = filter (is_after_cursor page) us"

lemma feed_of_append [simp]: "feed_of page (us @ vs) = feed_of page us @ feed_of page vs"
  by (simp add: feed_of_def)

lemma feed_of_nil [simp]: "feed_of page [] = []"
  by (simp add: feed_of_def)

lemma feed_of_cursor: "lp_cursor page = lp_cursor page' \<Longrightarrow> feed_of page = feed_of page'"
proof -
  assume "lp_cursor page = lp_cursor page'"
  then have "is_after_cursor page = is_after_cursor page'" by (simp add: is_after_cursor_def fun_eq_iff)
  then show ?thesis by (intro ext) (simp only: feed_of_def)
qed

lemma shows_new: "page_shows (new_page n c) []"
  by (simp add: page_shows_def new_page_def)

lemma has_all_units_shows: "page_shows page X \<Longrightarrow> has_all_units page \<longleftrightarrow> lp_pageSize page \<le> length X"
  by (auto simp: page_shows_def has_all_units_def)

lemma shows_add_units:
  assumes "page_shows page X" "\<not> has_all_units page"
  shows "page_shows (add_units us page) (X @ feed_of page us)"
proof -
  let ?n = "lp_pageSize page"
  have small: "length X < ?n" using assms has_all_units_shows by auto
  then have listed: "lp_listed page = X" "\<not> lp_lastRowContinues page" using assms(1) by (simp_all add: page_shows_def)
  show ?thesis
  proof (cases "feed_of page us")
    case Nil
    then have "add_units us page = page" by (simp add: add_units_def feed_of_def last_of_def)
    with assms(1) Nil show ?thesis by simp
  next
    case (Cons v vs)
    let ?taken = "take (?n - length X) (v # vs)"
    have some: "?taken \<noteq> []" using small by simp
    then have "add_units us page = page\<lparr>lp_listed := X @ ?taken,
        lp_lastRowContinues := continues_row (last ?taken)
          (if length ?taken < length (v # vs) then Some ((v # vs) ! length ?taken) else None)\<rparr>"
      using Cons unfolding add_units_def feed_of_def listed by (simp add: last_of_def Let_def del: take_Cons')
    moreover have "last (X @ ?taken) = last ?taken" using some by simp
    moreover have "(X @ v # vs) ! ?n = (v # vs) ! (?n - length X)" using small by (simp add: nth_append)
    ultimately show ?thesis using small Cons
      by (auto simp: page_shows_def continues_row_def min_def simp del: take_Cons' last_append)
  qed
qed

subsection \<open>The loop over changed rows\<close>

definition same_settings :: "listing_page \<Rightarrow> listing_page \<Rightarrow> bool" where
  "same_settings page page' \<longleftrightarrow> lp_pageSize page' = lp_pageSize page \<and> lp_cursor page' = lp_cursor page"

text \<open>What the page has read: the rows \<open>A\<close> of those that were left.\<close>

definition rows_read_by :: "string \<Rightarrow> row_pair list \<Rightarrow> listing_page \<Rightarrow> listing_page \<Rightarrow> bool" where
  "rows_read_by tableId A page page' \<longleftrightarrow>
     same_settings page page' \<and>
     (if A = [] then lp_lastRowRead page' = lp_lastRowRead page \<and> lp_rowIdsRead page' = lp_rowIdsRead page
      else \<exists>i. listed_row_id (last A) = Some i \<and>
        lp_lastRowRead page' = Some \<lparr>rd_tableId = tableId, rd_rowId = i\<rparr>)"

lemma row_ids_of_rows:
  assumes "list_all (\<lambda>p. listed_row_id p \<noteq> None) rows"
  shows "distinct_row_ids_of rows = Inr (uniq (map (the \<circ> listed_row_id) rows))"
proof -
  have "map_try unit_row_id_of rows = Inr (map (the \<circ> listed_row_id) rows)"
    using assms by (induction rows) (auto simp: unit_row_id_of_listed)
  then show ?thesis by (simp add: distinct_row_ids_of_def)
qed

lemma last_row_id:
  assumes "rows_sound rows" "rows \<noteq> []"
  shows "last_of (uniq (map (the \<circ> listed_row_id) rows)) = listed_row_id (last rows)"
proof -
  have "sorted (map (the \<circ> listed_row_id) rows)"
  proof -
    have "the (listed_row_id p) \<le> the (listed_row_id q)"
      if "p \<in> set rows" "q \<in> set rows" "listed_row_id p \<le> listed_row_id q" for p q
      using that assms(1) by (cases "listed_row_id p"; cases "listed_row_id q") (auto simp: rows_sound_def list_all_iff)
    with assms(1) show ?thesis
      unfolding rows_sound_def sorted_map comp_def by (blast intro: sorted_wrt_mono_rel [rotated])
  qed
  moreover have "last rows \<in> set rows" using assms(2) by simp
  then have "listed_row_id (last rows) \<noteq> None" using assms(1) unfolding rows_sound_def list_all_iff by blast
  ultimately show ?thesis using last_uniq assms(2) by (auto simp: last_of_def last_map)
qed

lemma rows_to_read_pos: "\<not> is_full page \<Longrightarrow> 0 < rows_to_read page"
  by (auto simp: is_full_def has_all_units_def has_read_all_rows_def rows_to_read_def)

lemma read_rows_once_reads:
  assumes "reads_rows reader table rows" "rows_sound rows" "\<not> is_full page" "page_shows page X"
  shows "\<exists>A B page' go_on. rows_from bound rows = A @ B \<and> rows_apart A B \<and>
    read_rows_once equal reader tableId table bound page = Inr (page', go_on) \<and>
    page_shows page' (X @ feed_of page (units_of_rows equal tableId table A)) \<and> rows_read_by tableId A page page' \<and>
    (case go_on of None \<Rightarrow> B = []
     | Some b \<Rightarrow> A \<noteq> [] \<and> rows_from (Some b) rows = B)"
proof -
  let ?left = "rows_from bound rows" and ?n = "rows_to_read page"
  let ?A = "with_ties ?n ?left"
  have sound: "rows_sound ?left" using assms(2) by (rule rows_from_sound)
  obtain B where B: "?left = ?A @ B" "rows_apart ?A B" "length ?A < ?n \<longrightarrow> B = []"
    using with_ties_split [OF sound rows_to_read_pos [OF assms(3)]] by blast
  have A_sound: "rows_sound ?A" using sound B(1) rows_sound_append by metis
  then have ids: "list_all (\<lambda>p. listed_row_id p \<noteq> None) ?A" by (simp add: rows_sound_def)
  let ?ids = "uniq (map (the \<circ> listed_row_id) ?A)"
  let ?page = "add_rows_read tableId ?ids (units_of_rows equal tableId table ?A) page"
  let ?next = "case last_of ?ids of None \<Rightarrow> None
    | Some i \<Rightarrow> if length ?A < ?n then None else Some \<lparr>bd_rowId = i, bd_inclusive = False\<rparr>"
  have read: "read_rows_once equal reader tableId table bound page = Inr (?page, ?next)"
    using assms(1) unfolding read_rows_once_def reads_rows_def Let_def
    by (simp add: row_ids_of_rows [OF ids] row_units_of_rows [OF ids])
  show ?thesis
  proof (cases "?A = []")
    case True
    then have "rows_apart [] B" "B = []" using B rows_to_read_pos [OF assms(3)] by auto
    moreover have "?page = page" using True by (simp add: add_rows_read_def last_of_def add_units_def)
    ultimately show ?thesis using read True assms(4) B
      by (intro exI [of _ "[]"] exI [of _ page] exI [of _ None]) (simp add: last_of_def rows_read_by_def same_settings_def)
  next
    case False
    obtain i where i: "listed_row_id (last ?A) = Some i"
      using ids last_in_set [OF False] unfolding list_all_iff by blast
    then have last: "last_of ?ids = Some i" using last_row_id [OF A_sound False] by simp
    define read_page where "read_page = page\<lparr>lp_rowIdsRead := lp_rowIdsRead page + length ?ids,
        lp_lastRowRead := Some \<lparr>rd_tableId = tableId, rd_rowId = i\<rparr>\<rparr>"
    have page: "?page = add_units (units_of_rows equal tableId table ?A) read_page"
      by (simp add: add_rows_read_def last read_page_def)
    have "page_shows read_page X" "\<not> has_all_units read_page" "feed_of read_page = feed_of page"
      using assms(3,4) feed_of_cursor [of read_page page]
      by (simp_all add: read_page_def page_shows_def is_full_def has_all_units_def)
    then have "page_shows ?page (X @ feed_of page (units_of_rows equal tableId table ?A))"
      unfolding page using shows_add_units by metis
    moreover have "rows_read_by tableId ?A page ?page"
      unfolding page using False i by (simp add: rows_read_by_def same_settings_def read_page_def)
    moreover obtain before where "rows = before @ ?left" "rows_apart before ?left"
      using rows_from_split [OF assms(2)] by blast
    with B assms(2) rows_from_last [of before ?A B i] False i
    have "rows_from (Some \<lparr>bd_rowId = i, bd_inclusive = False\<rparr>) rows = B" by metis
    ultimately show ?thesis using read B False unfolding last option.case
      by (intro exI [of _ ?A] exI [of _ B] exI [of _ ?page]) (auto split: if_splits)
  qed
qed


lemma list_changed_rows_lists:
  assumes "reads_rows reader table rows" "rows_sound rows" "page_shows page X"
  shows "\<exists>A B page'. rows_from bound rows = A @ B \<and> rows_apart A B \<and>
    list_changed_rows equal reader tableId table bound page = Inr page' \<and>
    page_shows page' (X @ feed_of page (units_of_rows equal tableId table A)) \<and> rows_read_by tableId A page page' \<and>
    (is_full page' \<or> B = [])"
  using assms
proof (induction equal reader tableId table bound page arbitrary: X rule: list_changed_rows.induct)
  case (1 equal reader tableId table bound page)
  show ?case
  proof (cases "is_full page")
    case True
    with "1.prems" show ?thesis
      by (intro exI [of _ "[]"] exI [of _ "rows_from bound rows"] exI [of _ page])
        (simp add: list_changed_rows.simps [of equal] rows_apart_def rows_read_by_def same_settings_def)
  next
    case False
    from read_rows_once_reads [OF "1.prems"(1,2) False "1.prems"(3), of bound equal tableId]
    obtain A B page1 go_on where once: "rows_from bound rows = A @ B" "rows_apart A B"
      "read_rows_once equal reader tableId table bound page = Inr (page1, go_on)"
      "page_shows page1 (X @ feed_of page (units_of_rows equal tableId table A))" "rows_read_by tableId A page page1"
      "case go_on of None \<Rightarrow> B = [] | Some b \<Rightarrow> A \<noteq> [] \<and> rows_from (Some b) rows = B"
      by blast
    show ?thesis
    proof (cases go_on)
      case None
      with once False show ?thesis
        by (intro exI [of _ A] exI [of _ B] exI [of _ page1]) (simp add: list_changed_rows.simps [of equal])
    next
      case (Some b)
      from "1.IH" [OF False once(3) refl Some "1.prems"(1,2) once(4)]
      obtain A2 B2 page2 where rest: "rows_from (Some b) rows = A2 @ B2" "rows_apart A2 B2"
        "list_changed_rows equal reader tableId table (Some b) page1 = Inr page2"
        "page_shows page2 ((X @ feed_of page (units_of_rows equal tableId table A)) @
           feed_of page1 (units_of_rows equal tableId table A2))"
        "rows_read_by tableId A2 page1 page2" "is_full page2 \<or> B2 = []" by blast
      have left: "B = A2 @ B2" "A \<noteq> []" using once(6) rest(1) Some by simp_all
      have "rows_sound (A @ A2)" "rows_apart A A2"
        using rows_from_sound [OF "1.prems"(2), of bound] once(1,2) rows_sound_append [of "A @ A2" B2]
        unfolding left rows_apart_def by simp_all
      then have units: "units_of_rows equal tableId table (A @ A2) =
          units_of_rows equal tableId table A @ units_of_rows equal tableId table A2" by (rule units_of_rows_apart)
      have "feed_of page1 = feed_of page"
        using once(5) by (intro feed_of_cursor) (simp add: rows_read_by_def same_settings_def)
      with rest(4) units have "page_shows page2 (X @ feed_of page (units_of_rows equal tableId table (A @ A2)))" by simp
      moreover have "rows_read_by tableId (A @ A2) page page2"
        using once(5) rest(5) left(2) by (auto simp: rows_read_by_def same_settings_def split: if_splits)
      moreover have "rows_apart (A @ A2) B2" using once(2) rest(2) unfolding left rows_apart_def by auto
      ultimately show ?thesis using rest(3,6) once(1,3) Some False left(1)
        by (intro exI [of _ "A @ A2"] exI [of _ B2] exI [of _ page2]) (simp add: list_changed_rows.simps [of equal _ _ _ bound])
    qed
  qed
qed

end
