(* ===== verification/Listing_Paging.thy ===== *)
theory Listing_Paging
  imports Listing_Reader
begin

section \<open>Pages list every unit once\<close>

text \<open>
  Following the cursors of the pages from the first one lists the whole listing, each unit once and in order,
  and ends: a page that is not the last one lists a unit or reads a row that no page read before.
\<close>

subsection \<open>The listing\<close>

type_synonym rows_of_tables = "compared_table \<Rightarrow> row_pair list"

definition table_rows :: "rows_of_tables \<Rightarrow> listing_table \<Rightarrow> row_pair list" where
  "table_rows rowsOf t = (case lt_changedRows t of None \<Rightarrow> [] | Some table \<Rightarrow> rowsOf table)"

definition units_among :: "(json \<Rightarrow> json \<Rightarrow> bool) \<Rightarrow> listing_table \<Rightarrow> row_pair list \<Rightarrow> catalogue_unit list" where
  "units_among equal t rows =
     (case lt_changedRows t of None \<Rightarrow> [] | Some table \<Rightarrow> units_of_rows equal (lt_tableId t) table rows)"

definition table_listing :: "(json \<Rightarrow> json \<Rightarrow> bool) \<Rightarrow> rows_of_tables \<Rightarrow> listing_table \<Rightarrow> catalogue_unit list" where
  "table_listing equal rowsOf t = lt_units t @ units_among equal t (table_rows rowsOf t)"

definition listing :: "(json \<Rightarrow> json \<Rightarrow> bool) \<Rightarrow> rows_of_tables \<Rightarrow> listing_table list \<Rightarrow> catalogue_unit list" where
  "listing equal rowsOf ts = concat (map (table_listing equal rowsOf) ts)"

definition table_ok :: "rows_reader \<Rightarrow> rows_of_tables \<Rightarrow> listing_table \<Rightarrow> bool" where
  "table_ok reader rowsOf t \<longleftrightarrow>
     list_all (\<lambda>u. cu_tableId (ca_unit u) = lt_tableId t \<and> cu_rowId (ca_unit u) = None) (lt_units t) \<and>
     sorted_wrt (\<lambda>u v. catalogue_order u v < 0) (lt_units t) \<and>
     (case lt_changedRows t of
        None \<Rightarrow> True
      | Some table \<Rightarrow> rows_sound (rowsOf table) \<and> reads_rows reader table (rowsOf table))"

definition tables_ok :: "rows_reader \<Rightarrow> rows_of_tables \<Rightarrow> listing_table list \<Rightarrow> bool" where
  "tables_ok reader rowsOf ts \<longleftrightarrow> list_all (table_ok reader rowsOf) ts \<and> sorted_wrt (<) (map lt_tableId ts)"

lemma table_rows_sound: "table_ok reader rowsOf t \<Longrightarrow> rows_sound (table_rows rowsOf t)"
  by (auto simp: table_ok_def table_rows_def rows_sound_def split: option.splits)

lemma units_among_row:
  "u \<in> set (units_among equal t rows) \<Longrightarrow>
     cu_tableId (ca_unit u) = lt_tableId t \<and> (\<exists>p \<in> set rows. cu_rowId (ca_unit u) = listed_row_id p)"
  by (auto simp: units_among_def dest: units_of_rows_row split: option.splits)

lemma units_among_append:
  "rows_sound (A @ B) \<Longrightarrow> rows_apart A B \<Longrightarrow>
     units_among equal t (A @ B) = units_among equal t A @ units_among equal t B"
  by (simp add: units_among_def units_of_rows_apart split: option.splits)

lemma table_listing_table:
  "table_ok reader rowsOf t \<Longrightarrow> u \<in> set (table_listing equal rowsOf t) \<Longrightarrow> cu_tableId (ca_unit u) = lt_tableId t"
  by (auto simp: table_listing_def table_ok_def list_all_iff dest: units_among_row)

lemma order_by_table: "cu_tableId (ca_unit u) < cu_tableId (ca_unit v) \<Longrightarrow> catalogue_order u v < 0"
  by (simp add: order_ranks unit_rank_def)

lemma order_facts:
  assumes "catalogue_order u v < 0"
  shows "cu_tableId (ca_unit u) \<le> cu_tableId (ca_unit v)"
    "cu_tableId (ca_unit u) = cu_tableId (ca_unit v) \<Longrightarrow> cu_rowId (ca_unit u) \<le> cu_rowId (ca_unit v)"
  using assms by (auto simp: order_ranks unit_rank_def less_imp_le)

lemma table_listing_ordered:
  assumes "table_ok reader rowsOf t"
  shows "sorted_wrt (\<lambda>u v. catalogue_order u v < 0) (table_listing equal rowsOf t)"
proof -
  have "sorted_wrt (\<lambda>u v. catalogue_order u v < 0) (units_among equal t (table_rows rowsOf t))"
    by (auto simp: units_among_def units_of_rows_facts strictly_ordered split: option.splits)
  moreover have "catalogue_order u v < 0" if "u \<in> set (lt_units t)" "v \<in> set (units_among equal t (table_rows rowsOf t))" for u v
  proof -
    have "cu_rowId (ca_unit v) \<noteq> None"
      using units_among_row [OF that(2)] table_rows_sound [OF assms] by (auto simp: rows_sound_def list_all_iff)
    then show ?thesis using assms that(1) units_among_row [OF that(2)]
      by (auto simp: order_ranks unit_rank_def table_ok_def list_all_iff)
  qed
  ultimately show ?thesis using assms by (auto simp: table_listing_def sorted_wrt_append table_ok_def)
qed

lemma listing_ordered:
  assumes "tables_ok reader rowsOf ts"
  shows "sorted_wrt (\<lambda>u v. catalogue_order u v < 0) (listing equal rowsOf ts)"
  using assms
proof (induction ts)
  case (Cons t ts)
  have "catalogue_order u v < 0" if mem: "u \<in> set (table_listing equal rowsOf t)" "v \<in> set (listing equal rowsOf ts)" for u v
  proof (rule order_by_table)
    obtain s where s: "s \<in> set ts" "v \<in> set (table_listing equal rowsOf s)" using mem(2) by (auto simp: listing_def)
    have "table_ok reader rowsOf t" "table_ok reader rowsOf s" "lt_tableId t < lt_tableId s"
      using Cons.prems s(1) by (auto simp: tables_ok_def list_all_iff)
    then show "cu_tableId (ca_unit u) < cu_tableId (ca_unit v)"
      using table_listing_table [OF _ mem(1)] table_listing_table [OF _ s(2)] by simp
  qed
  moreover have "tables_ok reader rowsOf ts" "table_ok reader rowsOf t" using Cons.prems by (simp_all add: tables_ok_def)
  ultimately show ?case using Cons.IH table_listing_ordered by (auto simp: listing_def sorted_wrt_append)
qed (simp add: listing_def)

subsection \<open>What a page is given\<close>

definition units_from :: "(json \<Rightarrow> json \<Rightarrow> bool) \<Rightarrow> rows_of_tables \<Rightarrow> listing_page \<Rightarrow> listing_table \<Rightarrow> catalogue_unit list" where
  "units_from equal rowsOf page t =
     lt_units t @ units_among equal t (rows_from (rows_from_cursor_in page (lt_tableId t)) (table_rows rowsOf t))"

lemma units_from_cursor: "same_settings page page' \<Longrightarrow> units_from equal rowsOf page' = units_from equal rowsOf page"
  by (simp add: fun_eq_iff units_from_def rows_from_cursor_in_def same_settings_def)

text \<open>A page that became full while it read the rows of the table \<open>t\<close>, of which it read \<open>A\<close>.\<close>

definition full_in ::
  "(json \<Rightarrow> json \<Rightarrow> bool) \<Rightarrow> rows_of_tables \<Rightarrow> listing_page \<Rightarrow> listing_table \<Rightarrow> row_pair list \<Rightarrow> row_pair list \<Rightarrow>
   listing_page \<Rightarrow> bool" where
  "full_in equal rowsOf page t A B page' \<longleftrightarrow>
     same_settings page page' \<and> is_full page' \<and>
     rows_from (rows_from_cursor_in page (lt_tableId t)) (table_rows rowsOf t) = A @ B \<and> rows_apart A B \<and>
     (has_read_all_rows page' \<longrightarrow>
       (\<exists>i. A \<noteq> [] \<and> listed_row_id (last A) = Some i \<and>
          lp_lastRowRead page' = Some \<lparr>rd_tableId = lt_tableId t, rd_rowId = i\<rparr>))"

lemma list_table_lists:
  assumes "table_ok reader rowsOf t" "page_shows page X" "\<not> is_full page"
  shows "\<exists>A B page'. list_table equal reader t page = Inr page' \<and> same_settings page page' \<and>
    page_shows page' (X @ feed_of page (lt_units t @ units_among equal t A)) \<and>
    (if is_full page' then full_in equal rowsOf page t A B page'
     else A = rows_from (rows_from_cursor_in page (lt_tableId t)) (table_rows rowsOf t))"
proof -
  let ?page = "add_units (lt_units t) page" and ?bound = "rows_from_cursor_in page (lt_tableId t)"
  have units: "page_shows ?page (X @ feed_of page (lt_units t))"
    using assms(2,3) by (intro shows_add_units) (simp_all add: is_full_def)
  have settings: "same_settings page ?page" "rows_from_cursor_in ?page = rows_from_cursor_in page"
    "lp_rowIdsRead ?page = lp_rowIdsRead page"
    by (simp_all add: same_settings_def rows_from_cursor_in_def fun_eq_iff)
  show ?thesis
  proof (cases "lt_changedRows t")
    case None
    then have "table_rows rowsOf t = []" "units_among equal t [] = []"
      by (simp_all add: table_rows_def units_among_def)
    with None units settings assms(3) show ?thesis
      by (intro exI [of _ "[]"] exI [of _ ?page])
        (auto simp: list_table_def Let_def full_in_def rows_from_def rows_apart_def is_full_def has_read_all_rows_def)
  next
    case (Some table)
    then have rows: "rows_sound (rowsOf table)" "reads_rows reader table (rowsOf table)" "table_rows rowsOf t = rowsOf table"
      using assms(1) by (simp_all add: table_ok_def table_rows_def)
    from list_changed_rows_lists [OF rows(2,1) units, of ?bound equal "lt_tableId t"]
    obtain A B page' where read: "rows_from ?bound (rowsOf table) = A @ B" "rows_apart A B"
      "list_changed_rows equal reader (lt_tableId t) table ?bound ?page = Inr page'"
      "page_shows page' ((X @ feed_of page (lt_units t)) @ feed_of ?page (units_of_rows equal (lt_tableId t) table A))"
      "rows_read_by (lt_tableId t) A ?page page'" "is_full page' \<or> B = []" by blast
    have "feed_of ?page = feed_of page" by (rule feed_of_cursor) simp
    moreover have "A \<noteq> []" if "has_read_all_rows page'"
      using that read(5) settings(3) assms(3)
      by (auto simp: rows_read_by_def same_settings_def is_full_def has_read_all_rows_def)
    moreover have "same_settings page page'" using read(5) settings(1) by (simp add: rows_read_by_def same_settings_def)
    ultimately show ?thesis using read settings(2) Some rows(3)
      by (intro exI [of _ A] exI [of _ B] exI [of _ page'])
        (auto simp: list_table_def Let_def units_among_def full_in_def rows_read_by_def)
  qed
qed

lemma list_tables_lists:
  assumes "list_all (table_ok reader rowsOf) ts" "page_shows page X" "\<not> is_full page"
  shows "\<exists>page'. list_tables equal reader ts page = Inr page' \<and>
    (if is_full page'
     then \<exists>earlier t later A B. ts = earlier @ t # later \<and> full_in equal rowsOf page t A B page' \<and>
       page_shows page' (X @ feed_of page (concat (map (units_from equal rowsOf page) earlier) @ lt_units t @ units_among equal t A))
     else same_settings page page' \<and> page_shows page' (X @ feed_of page (concat (map (units_from equal rowsOf page) ts))))"
  using assms
proof (induction ts arbitrary: page X)
  case Nil
  then show ?case by (simp add: same_settings_def)
next
  case (Cons t ts)
  then have t: "table_ok reader rowsOf t" by simp
  from list_table_lists [OF t Cons.prems(2,3), of equal] obtain A B page1 where one:
    "list_table equal reader t page = Inr page1" "same_settings page page1"
    "page_shows page1 (X @ feed_of page (lt_units t @ units_among equal t A))"
    "if is_full page1 then full_in equal rowsOf page t A B page1
     else A = rows_from (rows_from_cursor_in page (lt_tableId t)) (table_rows rowsOf t)" by blast
  show ?case
  proof (cases "is_full page1")
    case True
    with one have "t # ts = [] @ t # ts \<and> full_in equal rowsOf page t A B page1 \<and> page_shows page1
        (X @ feed_of page (concat (map (units_from equal rowsOf page) []) @ lt_units t @ units_among equal t A))"
      by simp
    then have "\<exists>earlier t' later A B. t # ts = earlier @ t' # later \<and> full_in equal rowsOf page t' A B page1 \<and>
        page_shows page1 (X @ feed_of page (concat (map (units_from equal rowsOf page) earlier) @ lt_units t' @ units_among equal t' A))"
      by (intro exI)
    with one(1) True show ?thesis by simp
  next
    case False
    have feeds: "feed_of page1 = feed_of page" "units_from equal rowsOf page1 = units_from equal rowsOf page"
      using one(2) by (auto intro: feed_of_cursor units_from_cursor simp: same_settings_def)
    have stream: "lt_units t @ units_among equal t A = units_from equal rowsOf page t"
      using one(4) False by (simp add: units_from_def)
    from Cons.IH [OF _ one(3) False] Cons.prems(1) obtain page2 where two:
      "list_tables equal reader ts page1 = Inr page2"
      "if is_full page2
       then \<exists>earlier t' later A B. ts = earlier @ t' # later \<and> full_in equal rowsOf page1 t' A B page2 \<and>
         page_shows page2 ((X @ feed_of page (units_from equal rowsOf page t)) @
           feed_of page (concat (map (units_from equal rowsOf page) earlier) @ lt_units t' @ units_among equal t' A))
       else same_settings page1 page2 \<and>
         page_shows page2 ((X @ feed_of page (units_from equal rowsOf page t)) @
           feed_of page (concat (map (units_from equal rowsOf page) ts)))"
      unfolding feeds stream by auto
    have same: "full_in equal rowsOf page1 t' A B page2 = full_in equal rowsOf page t' A B page2"
      "same_settings page1 page2 = same_settings page page2" for t' A B
      using one(2) by (auto simp: full_in_def same_settings_def rows_from_cursor_in_def)
    show ?thesis
    proof (cases "is_full page2")
      case True
      with two(2) obtain earlier t' later A B where found: "ts = earlier @ t' # later" "full_in equal rowsOf page t' A B page2"
        "page_shows page2 (X @ feed_of page (concat (map (units_from equal rowsOf page) (t # earlier)) @
           lt_units t' @ units_among equal t' A))" unfolding same by auto
      then have "\<exists>earlier t' later A B. t # ts = earlier @ t' # later \<and> full_in equal rowsOf page t' A B page2 \<and>
          page_shows page2 (X @ feed_of page (concat (map (units_from equal rowsOf page) earlier) @ lt_units t' @ units_among equal t' A))"
        by (intro exI [of _ "t # earlier"] exI [of _ t'] exI [of _ later] exI [of _ A] exI [of _ B]) simp
      with one(1) two(1) True False show ?thesis by simp
    next
      case not_full: False
      with one(1) two same False show ?thesis by (intro exI [of _ page2]) auto
    qed
  qed
qed


subsection \<open>Positions in the listing\<close>

definition rank_of :: "catalogue_unit \<Rightarrow> string \<times> string option \<times> string \<times> string option \<times> string option \<times> string option \<times> string" where
  "rank_of u = unit_rank (ca_key u, ca_unit u)"

definition position_rank :: "listed_position \<Rightarrow> string \<times> string option \<times> string \<times> string option \<times> string option \<times> string option \<times> string" where
  "position_rank p = unit_rank (po_key p, po_unit p)"

definition row_admitted :: "row_bound option \<Rightarrow> string option \<Rightarrow> bool" where
  "row_admitted bound rowId = (case (bound, rowId) of (None, _) \<Rightarrow> True | (Some b, Some i) \<Rightarrow> bound_admits b i | _ \<Rightarrow> False)"

definition in_range :: "listing_cursor option \<Rightarrow> string \<Rightarrow> string option \<Rightarrow> bool" where
  "in_range cursor tableId rowId =
     (case cursor of None \<Rightarrow> True
      | Some c \<Rightarrow> lc_tableId c < tableId \<or> lc_tableId c = tableId \<and> row_admitted (lc_rows c) rowId)"

text \<open>The cursor stands between the units \<open>P\<close>, already listed, and \<open>S\<close>.\<close>

definition stands_at :: "listing_cursor option \<Rightarrow> catalogue_unit list \<Rightarrow> catalogue_unit list \<Rightarrow> bool" where
  "stands_at cursor P S \<longleftrightarrow>
     map_option position_rank (Option.bind cursor lc_last) = map_option rank_of (last_of P) \<and>
     (\<forall>v \<in> set S. in_range cursor (cu_tableId (ca_unit v)) (cu_rowId (ca_unit v)))"

lemma within_admitted: "within_bound bound p = row_admitted bound (listed_row_id p)"
  by (simp add: within_bound_def row_admitted_def split: option.splits)

lemma rank_order: "catalogue_order u v < 0 \<longleftrightarrow> rank_of u < rank_of v"
  by (simp add: order_ranks rank_of_def)

lemma is_after_rank:
  "is_after_cursor (new_page n cursor) u =
     (case Option.bind cursor lc_last of None \<Rightarrow> True | Some p \<Rightarrow> position_rank p < rank_of u)"
  using compare_units_orders [of "(ca_key u, ca_unit u)"]
  by (auto simp: is_after_cursor_def new_page_def position_rank_def rank_of_def orders_def split: option.splits)
    (metis not_less_iff_gr_or_eq)+

lemma feed_is_rest:
  assumes "sorted_wrt (\<lambda>u v. catalogue_order u v < 0) (P @ S)" "stands_at cursor P S"
  shows "feed_of (new_page n cursor) (P @ S) = S"
proof (cases "P = []")
  case True
  then have "Option.bind cursor lc_last = None" using assms(2) by (simp add: stands_at_def last_of_def)
  then have "is_after_cursor (new_page n cursor) = (\<lambda>_. True)" by (simp add: fun_eq_iff is_after_rank)
  with True show ?thesis by (simp add: feed_of_def)
next
  case False
  then obtain p where p: "Option.bind cursor lc_last = Some p" "position_rank p = rank_of (last P)"
    using assms(2) by (auto simp: stands_at_def last_of_def)
  have "rank_of u \<le> rank_of (last P)" if "u \<in> set P" for u
    using sorted_before_last [OF _ that, of "\<lambda>u v. rank_of u < rank_of v"] assms(1)
    by (auto simp: sorted_wrt_append rank_order less_imp_le)
  moreover have "rank_of (last P) < rank_of v" if "v \<in> set S" for v
    using assms(1) that False by (simp add: sorted_wrt_append rank_order)
  ultimately show ?thesis by (auto simp: feed_of_def is_after_rank p filter_empty_conv filter_id_conv leD)
qed

text \<open>The tables and rows that a cursor leaves out have none of the units after it.\<close>

lemma feed_of_none: "(\<And>u. u \<in> set us \<Longrightarrow> \<not> is_after_cursor page u) \<Longrightarrow> feed_of page us = []"
  by (simp add: feed_of_def)

lemma feed_of_streams:
  assumes "tables_ok reader rowsOf ts" "listing equal rowsOf ts = P @ S" "stands_at cursor P S"
  shows "feed_of (new_page n cursor) (concat (map (units_from equal rowsOf (new_page n cursor))
    (tables_from_cursor (new_page n cursor) ts))) = S"
proof -
  let ?page = "new_page n cursor"
  have rest: "feed_of ?page (listing equal rowsOf ts) = S"
    using feed_is_rest [OF _ assms(3)] listing_ordered [OF assms(1)] assms(2) by metis
  have in_rest: "u \<in> set S" if "u \<in> set (listing equal rowsOf ts)" "is_after_cursor ?page u" for u
    using that unfolding rest [symmetric] by (simp add: feed_of_def)
  have ranged: "in_range cursor (cu_tableId (ca_unit u)) (cu_rowId (ca_unit u))"
    if "t \<in> set ts" "u \<in> set (table_listing equal rowsOf t)" "is_after_cursor ?page u" for t u
    using in_rest [of u] that assms(3) by (auto simp: stands_at_def listing_def)
  have one: "feed_of ?page (table_listing equal rowsOf t) =
      (if t \<in> set (tables_from_cursor ?page ts) then feed_of ?page (units_from equal rowsOf ?page t) else [])"
    if t: "t \<in> set ts" for t
  proof -
    have ok: "table_ok reader rowsOf t" using assms(1) t by (simp add: tables_ok_def list_all_iff)
    let ?bound = "rows_from_cursor_in ?page (lt_tableId t)"
    obtain before where split: "table_rows rowsOf t = before @ rows_from ?bound (table_rows rowsOf t)"
      "rows_apart before (rows_from ?bound (table_rows rowsOf t))" "\<forall>p \<in> set before. \<not> within_bound ?bound p"
      using rows_from_split [OF table_rows_sound [OF ok]] by blast
    have units: "table_listing equal rowsOf t = lt_units t @ units_among equal t before @
        units_among equal t (rows_from ?bound (table_rows rowsOf t))"
      using units_among_append [of before "rows_from ?bound (table_rows rowsOf t)" equal t] split(1,2)
        table_rows_sound [OF ok] by (metis table_listing_def)
    have "feed_of ?page (units_among equal t before) = []"
    proof (rule feed_of_none, rule notI)
      fix u assume u: "u \<in> set (units_among equal t before)" "is_after_cursor ?page u"
      have "in_range cursor (cu_tableId (ca_unit u)) (cu_rowId (ca_unit u))"
        by (rule ranged [OF t _ u(2)]) (use u(1) units in simp)
      with units_among_row [OF u(1)] split(3) show False
        by (auto simp: in_range_def rows_from_cursor_in_def new_page_def within_admitted row_admitted_def split: option.splits if_splits)
    qed
    moreover have "feed_of ?page (table_listing equal rowsOf t) = []" if "t \<notin> set (tables_from_cursor ?page ts)"
    proof (rule feed_of_none, rule notI)
      fix u assume u: "u \<in> set (table_listing equal rowsOf t)" "is_after_cursor ?page u"
      from ranged [OF t u] table_listing_table [OF ok u(1)] that t show False
        by (auto simp: in_range_def tables_from_cursor_def new_page_def not_le compare_code_points_less split: option.splits)
    qed
    ultimately show ?thesis using units by (simp add: units_from_def)
  qed
  have "feed_of ?page (concat (map f us)) = concat (map (feed_of ?page \<circ> f) us)" for f :: "listing_table \<Rightarrow> _" and us
    by (induction us) simp_all
  note feeds = this
  have kept: "set us \<subseteq> set ts \<Longrightarrow> concat (map (feed_of ?page \<circ> table_listing equal rowsOf) us) =
      concat (map (feed_of ?page \<circ> units_from equal rowsOf ?page) (filter (\<lambda>t. t \<in> set (tables_from_cursor ?page ts)) us))" for us
    by (induction us) (simp_all add: one)
  have "tables_from_cursor ?page ts = filter (\<lambda>t. t \<in> set (tables_from_cursor ?page ts)) ts"
    by (simp add: tables_from_cursor_def filter_id_conv cong: filter_cong split: option.splits)
  with kept [of ts] rest show ?thesis by (simp add: feeds listing_def)
qed

subsection \<open>The position after a page\<close>

lemma in_range_up:
  "in_range cursor a x \<Longrightarrow> a < b \<or> (a = b \<and> x \<le> y) \<Longrightarrow> in_range cursor b y"
  by (cases x; cases y) (auto simp: in_range_def row_admitted_def bound_admits_def split: option.splits)

text \<open>The next cursor leaves the units \<open>S'\<close>, and lets no row in that was left out before.\<close>

definition goes_on_with ::
  "listing_cursor option \<Rightarrow> listing_page \<Rightarrow> catalogue_unit list \<Rightarrow> catalogue_unit list \<Rightarrow> catalogue_unit list \<Rightarrow> bool" where
  "goes_on_with cursor page' P S S' \<longleftrightarrow>
     (\<exists>c a x. next_cursor page' = Some c \<and> S = lp_listed page' @ S' \<and> stands_at (Some c) (P @ lp_listed page') S' \<and>
        in_range cursor a x \<and> (\<forall>b y. in_range (Some c) b y \<longrightarrow> a < b \<or> (a = b \<and> x \<le> y)))"

lemma last_of_append: "last_of (P @ Y) = (if Y = [] then last_of P else last_of Y)"
  by (simp add: last_of_def)

lemma last_of_nil: "last_of [] = None"
  by (simp add: last_of_def)

lemma goes_on_after_units:
  assumes "sorted_wrt (\<lambda>u v. catalogue_order u v < 0) (P @ Y @ Z)" "stands_at cursor P (Y @ Z)"
    "page_shows page' Y" "has_all_units page'" "0 < lp_pageSize page'"
    "\<forall>u \<in> set Y. \<forall>v \<in> set Z. cu_tableId (ca_unit u) = cu_tableId (ca_unit v) \<longrightarrow> cu_rowId (ca_unit u) \<noteq> None \<longrightarrow>
       cu_rowId (ca_unit u) < cu_rowId (ca_unit v)"
  shows "\<exists>S'. lp_listed page' \<noteq> [] \<and> goes_on_with cursor page' P (Y @ Z) S'"
proof -
  let ?n = "lp_pageSize page'" and ?S' = "drop (lp_pageSize page') Y @ Z"
  have enough: "?n \<le> length Y" using assms(3,4) has_all_units_shows by blast
  have listed: "lp_listed page' = take ?n Y" "take ?n Y \<noteq> []" using assms(3,5) enough by (auto simp: page_shows_def)
  define u where "u = last (take ?n Y)"
  have u: "last_of (lp_listed page') = Some u" "u \<in> set (take ?n Y)" "u \<in> set Y"
    using listed last_in_set [of "take ?n Y"] in_set_takeD [of u ?n Y] by (auto simp: last_of_def u_def)
  define c where "c = \<lparr>lc_tableId = cu_tableId (ca_unit u), lc_rows = rows_after page' u, lc_last = Some (position_of u)\<rparr>"
  have "take ?n Y @ drop ?n Y = Y" by simp
  then have sorted: "sorted_wrt (\<lambda>u v. catalogue_order u v < 0) (take ?n Y @ ?S')"
    using assms(1) by (metis append.assoc sorted_wrt_append)
  have next_c: "next_cursor page' = Some c" using assms(4) u(1) by (simp add: next_cursor_def c_def)
  have admits: "in_range (Some c) (cu_tableId (ca_unit v)) (cu_rowId (ca_unit v))" if v: "v \<in> set ?S'" for v
  proof -
    have uv: "catalogue_order u v < 0" using sorted u(2) v unfolding sorted_wrt_append by blast
    have "row_admitted (rows_after page' u) (cu_rowId (ca_unit v))" if same: "cu_tableId (ca_unit u) = cu_tableId (ca_unit v)"
    proof (cases "cu_rowId (ca_unit u)")
      case None
      then show ?thesis by (simp add: rows_after_def row_admitted_def)
    next
      case (Some i)
      then obtain r where r: "cu_rowId (ca_unit v) = Some r" "i \<le> r"
        using order_facts(2) [OF uv same] by (cases "cu_rowId (ca_unit v)") auto
      have differ: "i \<noteq> r" if flag: "\<not> lp_lastRowContinues page'"
      proof (cases "v \<in> set Z")
        case True
        with assms(6) u(3) same Some r show ?thesis by fastforce
      next
        case False
        then have mem: "v \<in> set (drop ?n Y)" using v by simp
        then have less: "?n < length Y" by (metis drop_all empty_iff list.set(1) not_le)
        then have w: "drop ?n Y = Y ! ?n # drop (Suc ?n) Y" by (simp add: Cons_nth_drop_Suc)
        let ?w = "Y ! ?n"
        have differs: "cu_rowId (ca_unit ?w) \<noteq> cu_rowId (ca_unit u)"
          using assms(3) flag less listed(1) by (simp add: page_shows_def u_def)
        have uw: "catalogue_order u ?w < 0" using sorted u(2) unfolding w by (simp add: sorted_wrt_append)
        have "v = ?w \<or> catalogue_order ?w v < 0" using sorted mem unfolding w by (auto simp: sorted_wrt_append)
        then show ?thesis using differs order_facts [OF uw] order_facts [of ?w v] same Some r
          by (metis order_antisym)
      qed
      show ?thesis using Some r differ
        by (cases "lp_lastRowContinues page'") (auto simp: rows_after_def row_admitted_def bound_admits_def)
    qed
    with order_facts(1) [OF uv] show ?thesis by (auto simp: in_range_def c_def)
  qed
  have "stands_at (Some c) (P @ lp_listed page') ?S'"
    using admits u(1) listed by (simp add: stands_at_def last_of_append c_def position_rank_def position_of_def rank_of_def)
  moreover have "in_range cursor (cu_tableId (ca_unit u)) (cu_rowId (ca_unit u))"
    using assms(2) u(3) by (simp add: stands_at_def)
  moreover have "\<forall>b y. in_range (Some c) b y \<longrightarrow>
      cu_tableId (ca_unit u) < b \<or> (cu_tableId (ca_unit u) = b \<and> cu_rowId (ca_unit u) \<le> y)"
  proof (intro allI impI)
    fix b y assume "in_range (Some c) b y"
    then show "cu_tableId (ca_unit u) < b \<or> (cu_tableId (ca_unit u) = b \<and> cu_rowId (ca_unit u) \<le> y)"
      by (cases "cu_rowId (ca_unit u)"; cases y)
        (auto simp: in_range_def c_def rows_after_def row_admitted_def bound_admits_def)
  qed
  ultimately show ?thesis using listed next_c unfolding goes_on_with_def by (intro exI [of _ ?S'] conjI exI) simp_all
qed

lemma goes_on_after_rows:
  assumes "stands_at cursor P (Y @ Z)" "page_shows page' Y" "\<not> has_all_units page'" "has_read_all_rows page'"
    "lp_cursor page' = cursor" "lp_lastRowRead page' = Some \<lparr>rd_tableId = a, rd_rowId = i\<rparr>" "in_range cursor a (Some i)"
    "\<forall>v \<in> set Z. a < cu_tableId (ca_unit v) \<or> (a = cu_tableId (ca_unit v) \<and> Some i < cu_rowId (ca_unit v))"
  shows "goes_on_with cursor page' P (Y @ Z) Z" "\<exists>c. next_cursor page' = Some c \<and> \<not> in_range (Some c) a (Some i)"
proof -
  have "length Y < lp_pageSize page'" using assms(2,3) has_all_units_shows not_le by blast
  then have listed: "lp_listed page' = Y" using assms(2) by (simp add: page_shows_def)
  define c where "c = \<lparr>lc_tableId = a, lc_rows = Some \<lparr>bd_rowId = i, bd_inclusive = False\<rparr>, lc_last = last_listed_position page'\<rparr>"
  have next_c: "next_cursor page' = Some c" using assms(3,4,6) by (simp add: next_cursor_def c_def split: option.splits)
  have range: "in_range (Some c) b y \<longleftrightarrow> a < b \<or> (a = b \<and> Some i < y)" for b y
    by (cases y) (auto simp: in_range_def c_def row_admitted_def bound_admits_def)
  have "map_option position_rank (Option.bind (Some c) lc_last) = map_option rank_of (last_of (P @ Y))"
  proof (cases "Y = []")
    case True
    then show ?thesis using assms(1,5) listed by (simp add: c_def last_listed_position_def last_of_nil stands_at_def)
  next
    case False
    then show ?thesis using listed
      by (simp add: c_def last_listed_position_def last_of_def position_rank_def position_of_def rank_of_def)
  qed
  then have "stands_at (Some c) (P @ Y) Z" using assms(8) by (simp add: stands_at_def range)
  then show "goes_on_with cursor page' P (Y @ Z) Z"
    using next_c listed assms(7) unfolding goes_on_with_def
    by (intro exI [of _ c] exI [of _ a] exI [of _ "Some i"]) (auto simp: range less_imp_le)
  show "\<exists>c. next_cursor page' = Some c \<and> \<not> in_range (Some c) a (Some i)" using next_c range by auto
qed

subsection \<open>Following the cursors\<close>

definition all_rows :: "rows_of_tables \<Rightarrow> listing_table list \<Rightarrow> (string \<times> row_pair) list" where
  "all_rows rowsOf ts = concat (map (\<lambda>t. map (Pair (lt_tableId t)) (table_rows rowsOf t)) ts)"

definition rows_left :: "rows_of_tables \<Rightarrow> listing_table list \<Rightarrow> listing_cursor option \<Rightarrow> (string \<times> row_pair) list" where
  "rows_left rowsOf ts cursor = filter (\<lambda>(i, p). in_range cursor i (listed_row_id p)) (all_rows rowsOf ts)"

lemma length_filter_mono: "(\<And>x. p x \<Longrightarrow> q x) \<Longrightarrow> length (filter p xs) \<le> length (filter q xs)"
  by (induction xs) (auto intro: le_SucI)

lemma length_filter_strict:
  "(\<And>x. p x \<Longrightarrow> q x) \<Longrightarrow> x \<in> set xs \<Longrightarrow> q x \<Longrightarrow> \<not> p x \<Longrightarrow> length (filter p xs) < length (filter q xs)"
proof (induction xs)
  case (Cons y ys)
  then show ?case using length_filter_mono [of p q ys] by (cases "x = y") (auto intro: le_imp_less_Suc)
qed simp

lemma goes_on_rows:
  assumes "goes_on_with cursor page' P S S'" "next_cursor page' = Some c"
  shows "in_range (Some c) b y \<Longrightarrow> in_range cursor b y"
  using assms in_range_up unfolding goes_on_with_def by (metis option.inject)

text \<open>One page: it ends the listing, or leaves less of it.\<close>

definition size_left :: "rows_of_tables \<Rightarrow> listing_table list \<Rightarrow> catalogue_unit list \<Rightarrow> listing_cursor option \<Rightarrow> nat" where
  "size_left rowsOf ts S cursor = length S + length (rows_left rowsOf ts cursor)"

lemma units_from_table:
  assumes "table_ok reader rowsOf t" "u \<in> set (lt_units t) \<union> set (units_among equal t rows)"
  shows "cu_tableId (ca_unit u) = lt_tableId t"
  using assms units_among_row by (auto simp: table_ok_def list_all_iff)

lemma full_page_goes_on:
  assumes "tables_ok reader rowsOf ts" "listing equal rowsOf ts = P @ S" "stands_at cursor P S" "0 < n"
    "tables_from_cursor (new_page n cursor) ts = earlier @ t # later"
    "full_in equal rowsOf (new_page n cursor) t A B page'"
    "page_shows page' (feed_of (new_page n cursor)
       (concat (map (units_from equal rowsOf (new_page n cursor)) earlier) @ lt_units t @ units_among equal t A))"
  shows "\<exists>S'. goes_on_with cursor page' P S S' \<and>
    size_left rowsOf ts S' (next_cursor page') < size_left rowsOf ts S cursor"
proof -
  let ?page = "new_page n cursor"
  let ?streams = "\<lambda>ts. concat (map (units_from equal rowsOf ?page) ts)"
  let ?D = "?streams earlier @ lt_units t @ units_among equal t A" and ?E = "units_among equal t B @ ?streams later"
  let ?Y = "feed_of ?page ?D" and ?Z = "feed_of ?page ?E"
  have "t \<in> set (tables_from_cursor ?page ts)" using assms(5) by simp
  then have t: "t \<in> set ts" and in_range_t: "cursor = Some c \<Longrightarrow> lc_tableId c \<le> lt_tableId t" for c
    by (auto simp: tables_from_cursor_def new_page_def compare_code_points_less not_less [symmetric] split: option.splits)
  have oks: "list_all (table_ok reader rowsOf) (earlier @ t # later)" "sorted_wrt (<) (map lt_tableId (earlier @ t # later))"
    using assms(1) unfolding assms(5) [symmetric] tables_ok_def tables_from_cursor_def
    by (auto simp: list_all_iff sorted_wrt_map intro: sorted_wrt_filter split: option.splits)
  have rows: "rows_from (rows_from_cursor_in ?page (lt_tableId t)) (table_rows rowsOf t) = A @ B" "rows_apart A B"
    "is_full page'" "lp_pageSize page' = n" "lp_cursor page' = cursor"
    using assms(6) by (simp_all add: full_in_def same_settings_def new_page_def)
  have AB: "rows_sound (A @ B)"
  proof -
    have "table_ok reader rowsOf t" using oks(1) by simp
    from rows_from_sound [OF table_rows_sound [OF this], of "rows_from_cursor_in ?page (lt_tableId t)"]
    show ?thesis unfolding rows(1) .
  qed
  have S: "S = ?Y @ ?Z"
    using feed_of_streams [OF assms(1-3), of n] unfolding assms(5)
    by (simp add: units_from_def rows(1) units_among_append [OF AB rows(2)])
  have of_table: "cu_tableId (ca_unit v) = lt_tableId s" if "s \<in> set (earlier @ t # later)" "v \<in> set (units_from equal rowsOf ?page s)" for s v
    using that oks(1) by (intro units_from_table) (auto simp: units_from_def list_all_iff)
  have later: "lt_tableId t < cu_tableId (ca_unit v)" if mem: "v \<in> set (?streams later)" for v
  proof -
    obtain s where s: "s \<in> set later" "v \<in> set (units_from equal rowsOf ?page s)"
      using mem by auto
    then have "cu_tableId (ca_unit v) = lt_tableId s" by (intro of_table) auto
    with s(1) oks(2) show ?thesis by (auto simp: sorted_wrt_append)
  qed
  have earlier: "cu_tableId (ca_unit u) < lt_tableId t" if mem: "u \<in> set (?streams earlier)" for u
  proof -
    obtain s where s: "s \<in> set earlier" "u \<in> set (units_from equal rowsOf ?page s)"
      using mem by auto
    then have "cu_tableId (ca_unit u) = lt_tableId s" by (intro of_table) auto
    with s(1) oks(2) show ?thesis by (auto simp: sorted_wrt_append)
  qed
  have at_t: "cu_tableId (ca_unit u) = lt_tableId t" if "u \<in> set (lt_units t) \<union> set (units_among equal t rows)" for u rows
  proof -
    have "table_ok reader rowsOf t" using oks(1) by simp
    then show ?thesis using that by (rule units_from_table)
  qed
  have "cu_rowId (ca_unit u) < cu_rowId (ca_unit v)"
    if "u \<in> set ?D" "v \<in> set ?E" "cu_tableId (ca_unit u) = cu_tableId (ca_unit v)" "cu_rowId (ca_unit u) \<noteq> None" for u v
  proof -
    have "v \<in> set (units_among equal t B) \<or> v \<in> set (?streams later)" using that(2) by simp
    then have v: "lt_tableId t < cu_tableId (ca_unit v) \<or> v \<in> set (units_among equal t B)"
      using later [of v] by blast
    then have "lt_tableId t \<le> cu_tableId (ca_unit v)" using at_t [of v B] by auto
    moreover have "u \<in> set (?streams earlier) \<or> u \<in> set (lt_units t) \<union> set (units_among equal t A)" using that(1) by simp
    then have "cu_tableId (ca_unit u) < lt_tableId t \<or> u \<in> set (lt_units t) \<union> set (units_among equal t A)"
      using earlier [of u] by blast
    ultimately have u: "u \<in> set (lt_units t) \<union> set (units_among equal t A)" using that(3) by auto
    with v that(3) at_t [of u A] have v: "v \<in> set (units_among equal t B)" by auto
    have "u \<in> set (units_among equal t A)" using u that(4) oks(1) by (auto simp: table_ok_def list_all_iff)
    with v rows(2) units_among_row show ?thesis unfolding rows_apart_def listed_before_def by metis
  qed
  then have apart: "\<forall>u \<in> set ?Y. \<forall>v \<in> set ?Z. cu_tableId (ca_unit u) = cu_tableId (ca_unit v) \<longrightarrow>
      cu_rowId (ca_unit u) \<noteq> None \<longrightarrow> cu_rowId (ca_unit u) < cu_rowId (ca_unit v)"
    unfolding feed_of_def set_filter by blast
  show ?thesis
  proof (cases "has_all_units page'")
    case True
    have "sorted_wrt (\<lambda>u v. catalogue_order u v < 0) (P @ ?Y @ ?Z)"
      using listing_ordered [OF assms(1), of equal] unfolding assms(2) S .
    from goes_on_after_units [OF this _ assms(7) True _ apart] assms(3,4) S rows(4)
    obtain S' where S': "lp_listed page' \<noteq> []" "goes_on_with cursor page' P S S'" by auto
    then obtain c where c: "next_cursor page' = Some c" "S = lp_listed page' @ S'" by (auto simp: goes_on_with_def)
    have "length (rows_left rowsOf ts (Some c)) \<le> length (rows_left rowsOf ts cursor)"
      unfolding rows_left_def using goes_on_rows [OF S'(2) c(1)] by (intro length_filter_mono) auto
    moreover have "0 < length (lp_listed page')" using S'(1) by simp
    ultimately have "size_left rowsOf ts S' (Some c) < size_left rowsOf ts S cursor"
      unfolding size_left_def c(2) length_append by linarith
    with S'(2) c(1) show ?thesis by auto
  next
    case False
    then have "has_read_all_rows page'" using rows(3) by (simp add: is_full_def)
    then obtain i where i: "A \<noteq> []" "listed_row_id (last A) = Some i"
      "lp_lastRowRead page' = Some \<lparr>rd_tableId = lt_tableId t, rd_rowId = i\<rparr>"
      using assms(6) by (auto simp: full_in_def)
    have "last A \<in> set (rows_from (rows_from_cursor_in ?page (lt_tableId t)) (table_rows rowsOf t))"
      unfolding rows(1) using i(1) by simp
    then have read: "last A \<in> set (table_rows rowsOf t)" "within_bound (rows_from_cursor_in ?page (lt_tableId t)) (last A)"
      by (simp_all add: rows_from_def)
    have reached: "in_range cursor (lt_tableId t) (Some i)"
    proof (cases cursor)
      case None
      then show ?thesis by (simp add: in_range_def)
    next
      case (Some c)
      with read(2) i(2) in_range_t [OF Some] show ?thesis
        by (auto simp: in_range_def within_admitted rows_from_cursor_in_def new_page_def)
    qed
    have beyond: "\<forall>v \<in> set ?Z. lt_tableId t < cu_tableId (ca_unit v) \<or>
        (lt_tableId t = cu_tableId (ca_unit v) \<and> Some i < cu_rowId (ca_unit v))"
    proof
      fix v assume "v \<in> set ?Z"
      then have "v \<in> set (units_among equal t B) \<or> v \<in> set (?streams later)" by (auto simp: feed_of_def)
      then show "lt_tableId t < cu_tableId (ca_unit v) \<or>
          (lt_tableId t = cu_tableId (ca_unit v) \<and> Some i < cu_rowId (ca_unit v))"
      proof
        assume v: "v \<in> set (units_among equal t B)"
        then obtain q where "q \<in> set B" "cu_rowId (ca_unit v) = listed_row_id q" using units_among_row by blast
        with rows(2) last_in_set [OF i(1)] i(2) at_t [of v B] v show ?thesis
          unfolding rows_apart_def listed_before_def by auto
      qed (simp add: later)
    qed
    from goes_on_after_rows [OF assms(3) [unfolded S] assms(7) False \<open>has_read_all_rows page'\<close> rows(5) i(3) reached beyond]
    obtain c where c: "goes_on_with cursor page' P S ?Z" "next_cursor page' = Some c"
      "\<not> in_range (Some c) (lt_tableId t) (Some i)" unfolding S by blast
    have "(lt_tableId t, last A) \<in> set (all_rows rowsOf ts)" using t read(1) by (auto simp: all_rows_def)
    then have "length (rows_left rowsOf ts (Some c)) < length (rows_left rowsOf ts cursor)"
      unfolding rows_left_def using goes_on_rows [OF c(1,2)] c(3) reached i(2)
      by (intro length_filter_strict [of _ _ "(lt_tableId t, last A)"]) auto
    with c show ?thesis by (intro exI [of _ ?Z]) (simp add: size_left_def S)
  qed
qed

lemma one_page:
  assumes "tables_ok reader rowsOf ts" "listing equal rowsOf ts = P @ S" "stands_at cursor P S" "0 < n"
  shows "\<exists>page'. list_tables equal reader (tables_from_cursor (new_page n cursor) ts) (new_page n cursor) = Inr page' \<and>
    (case next_cursor page' of
       None \<Rightarrow> lp_listed page' = S
     | Some c \<Rightarrow> \<exists>S'. S = lp_listed page' @ S' \<and> stands_at (Some c) (P @ lp_listed page') S' \<and>
         size_left rowsOf ts S' (Some c) < size_left rowsOf ts S cursor)"
proof -
  let ?page = "new_page n cursor" and ?ts = "tables_from_cursor (new_page n cursor) ts"
  have kept: "list_all (table_ok reader rowsOf) ?ts"
    using assms(1) by (auto simp: tables_ok_def tables_from_cursor_def list_all_iff split: option.splits)
  have empty: "\<not> is_full ?page" using assms(4)
    by (simp add: is_full_def has_all_units_def has_read_all_rows_def new_page_def)
  from list_tables_lists [OF kept shows_new empty, unfolded append_Nil, of equal] obtain page' where run: "list_tables equal reader ?ts ?page = Inr page'"
    "if is_full page'
     then \<exists>earlier t later A B. ?ts = earlier @ t # later \<and> full_in equal rowsOf ?page t A B page' \<and>
       page_shows page' (feed_of ?page (concat (map (units_from equal rowsOf ?page) earlier) @ lt_units t @ units_among equal t A))
     else same_settings ?page page' \<and> page_shows page' (feed_of ?page (concat (map (units_from equal rowsOf ?page) ?ts)))"
    by blast
  show ?thesis
  proof (cases "is_full page'")
    case True
    with run(2) obtain earlier t later A B where "?ts = earlier @ t # later" "full_in equal rowsOf ?page t A B page'"
      "page_shows page' (feed_of ?page (concat (map (units_from equal rowsOf ?page) earlier) @ lt_units t @ units_among equal t A))"
      by auto
    from full_page_goes_on [OF assms this] run(1) show ?thesis by (fastforce simp: goes_on_with_def)
  next
    case False
    then have "page_shows page' S" using run(2) feed_of_streams [OF assms(1-3), of n] by simp
    moreover have "\<not> has_all_units page'" "\<not> has_read_all_rows page'" using False by (simp_all add: is_full_def)
    ultimately have "next_cursor page' = None" "lp_listed page' = S"
      using has_all_units_shows [of page' S] by (simp_all add: next_cursor_def page_shows_def)
    with run(1) show ?thesis by simp
  qed
qed

text \<open>
  The units of at most \<open>fuel\<close> pages, each asked for with the cursor that the page before it returned, as its
  payload; \<open>None\<close> when that many pages do not end the listing. The pages are of one snapshot.
\<close>

fun units_of_pages ::
  "(json \<Rightarrow> json \<Rightarrow> bool) \<Rightarrow> rows_reader \<Rightarrow> listing_table list \<Rightarrow> nat \<Rightarrow> nat \<Rightarrow> listing_cursor option \<Rightarrow>
   catalogue_unit list option outcome" where
  "units_of_pages equal reader ts n 0 cursor = Inr None"
| "units_of_pages equal reader ts n (Suc fuel) cursor =
     (let page = new_page n cursor
      in try_bind (list_tables equal reader (tables_from_cursor page ts) page) (\<lambda>page'.
         case next_cursor page' of
           None \<Rightarrow> Inr (Some (lp_listed page'))
         | Some c \<Rightarrow>
             try_bind (decode_cursor_payload (cursor_payload c)) (\<lambda>c'.
             try_bind (units_of_pages equal reader ts n fuel (Some c')) (\<lambda>units.
               Inr (map_option (append (lp_listed page')) units)))))"

lemma decoded_stands:
  "decode_cursor_payload (cursor_payload c) = Inr (c\<lparr>lc_last := sort_key_position_of (lc_last c)\<rparr>)"
  "stands_at (Some (c\<lparr>lc_last := sort_key_position_of (lc_last c)\<rparr>)) P S = stands_at (Some c) P S"
  "size_left rowsOf ts S (Some (c\<lparr>lc_last := sort_key_position_of (lc_last c)\<rparr>)) = size_left rowsOf ts S (Some c)"
proof -
  have "map_option position_rank (sort_key_position_of p) = map_option position_rank p" for p
    by (cases p) (simp_all add: sort_key_position_of_def position_rank_def sort_key_of_def unit_rank_def)
  moreover have "in_range (Some (c\<lparr>lc_last := x\<rparr>)) = in_range (Some c)" for x
    by (simp add: in_range_def fun_eq_iff)
  ultimately show "stands_at (Some (c\<lparr>lc_last := sort_key_position_of (lc_last c)\<rparr>)) P S = stands_at (Some c) P S"
    "size_left rowsOf ts S (Some (c\<lparr>lc_last := sort_key_position_of (lc_last c)\<rparr>)) = size_left rowsOf ts S (Some c)"
    by (simp_all add: stands_at_def size_left_def rows_left_def)
qed (rule decode_payload)

lemma pages_from:
  assumes "tables_ok reader rowsOf ts" "0 < n"
  shows "listing equal rowsOf ts = P @ S \<Longrightarrow> stands_at cursor P S \<Longrightarrow> size_left rowsOf ts S cursor < fuel \<Longrightarrow>
    units_of_pages equal reader ts n fuel cursor = Inr (Some S)"
proof (induction fuel arbitrary: P S cursor)
  case (Suc fuel)
  from one_page [OF assms(1) Suc.prems(1,2) assms(2)] obtain page' where page:
    "list_tables equal reader (tables_from_cursor (new_page n cursor) ts) (new_page n cursor) = Inr page'"
    "case next_cursor page' of
       None \<Rightarrow> lp_listed page' = S
     | Some c \<Rightarrow> \<exists>S'. S = lp_listed page' @ S' \<and> stands_at (Some c) (P @ lp_listed page') S' \<and>
         size_left rowsOf ts S' (Some c) < size_left rowsOf ts S cursor" by blast
  show ?case
  proof (cases "next_cursor page'")
    case None
    with page show ?thesis by simp
  next
    case (Some c)
    with page(2) obtain S' where S': "S = lp_listed page' @ S'" "stands_at (Some c) (P @ lp_listed page') S'"
      "size_left rowsOf ts S' (Some c) < size_left rowsOf ts S cursor" by auto
    let ?c = "c\<lparr>lc_last := sort_key_position_of (lc_last c)\<rparr>"
    have "units_of_pages equal reader ts n fuel (Some ?c) = Inr (Some S')"
      using Suc.IH [of "P @ lp_listed page'" S' "Some ?c"] Suc.prems(1,3) S' by (simp add: decoded_stands)
    with page(1) Some S'(1) show ?thesis by (simp add: Let_def decoded_stands(1))
  qed
qed simp

subsection \<open>The tables of a comparison\<close>

lemma table_level_units:
  assumes "read_compared_snapshot tk ids equal deq snapshot wholeDraft = Inr c" "sound_pairs (sn_tables snapshot)"
    "build_change_catalogue tk equal vequal (with_changed_rows c []) = Inr cat"
  shows "list_all (\<lambda>u. cu_rowId (ca_unit u) = None) (ch_units cat)"
proof -
  obtain structureUnits viewsUnits sharedUnits built where parts:
    "build_structure_units (catalogue_tables snapshot (cs_tables c)) (cs_ledger c) = Inr structureUnits"
    "build_views_units tk vequal (catalogue_tables snapshot (cs_tables c)) = Inr viewsUnits"
    "build_shared_schema_units equal (sy_sharedSchemas (sn_systemRows snapshot)) = Inr sharedUnits"
    "list_all (row_units_built equal (with_changed_rows c [])) built"
    "ch_units cat = js_sort catalogue_order
       (filter (\<lambda>u. \<not> holds_refused_table u (cs_headSchema c)) (structureUnits @ viewsUnits) @ sharedUnits @
        concat (map (\<lambda>b. ru_units (snd b)) built))"
    by (rule catalogue_parts [OF assms]) blast
  from parts(4) have none: "built = []" by (cases built) (simp_all add: row_units_built_def)
  have "list_all (\<lambda>u. cu_rowId (ca_unit u) = None) structureUnits"
  proof (rule build_structure_units_facts [OF parts(1)])
    fix us ts alone
    assume "structureUnits = map (catalogue_unit_of (catalogue_tables snapshot (cs_tables c)) (cs_ledger c)) (us @ ts)"
      and "list_all fresh_parts us" and "list_all2 transient_parts ts alone"
    then show ?thesis
      using list_all2_first [of transient_parts ts alone]
      by (fastforce simp: list_all_iff catalogue_unit_of_def fresh_parts_def transient_parts_def)
  qed
  moreover have "list_all (\<lambda>u. cu_rowId (ca_unit u) = None) viewsUnits"
    using parts(2) by (auto simp: build_views_units_def list_all_iff views_unit_of_def table_unit_def Let_def
        map_try_Inr_iff dest!: list_all2_second)
  moreover have "list_all (\<lambda>u. cu_rowId (ca_unit u) = None) sharedUnits"
    using parts(3) by (auto simp: build_shared_schema_units_def list_all_iff shared_schema_unit_of_def table_unit_def
        map_try_Inr_iff dest!: list_all2_second)
  ultimately show ?thesis unfolding parts(5) none by (auto simp: list_all_iff)
qed

text \<open>Every table holds the units added to it, in order, and changed rows of a compared table.\<close>

definition collected :: "catalogue_unit list \<Rightarrow> compared_table list \<Rightarrow> listing_tables \<Rightarrow> bool" where
  "collected units compared tables \<longleftrightarrow>
     distinct (jkeys tables) \<and>
     (\<forall>i. lt_tableId (table_at tables i) = i \<and>
        lt_units (table_at tables i) = filter (\<lambda>u. cu_tableId (ca_unit u) = i) units \<and>
        (\<forall>table. lt_changedRows (table_at tables i) = Some table \<longrightarrow> table \<in> set compared))"

lemma table_at_update: "table_at (AList.update k t m) i = (if i = k then t else table_at m i)"
  by (simp add: table_at_def update_conv')

lemma collected_add_unit: "collected units compared tables \<Longrightarrow> collected (units @ [u]) compared (add_unit_to_table u tables)"
  by (simp add: collected_def add_unit_to_table_def Let_def table_at_update distinct_update)

lemma collected_add_rows:
  "collected units compared tables \<Longrightarrow> table \<in> set compared \<Longrightarrow> collected units compared (add_changed_rows i table tables)"
  by (simp add: collected_def add_changed_rows_def table_at_update distinct_update)

lemma collected_units: "collected us compared tables \<Longrightarrow> collected (us @ vs) compared (fold add_unit_to_table vs tables)"
proof (induction vs arbitrary: us tables)
  case (Cons v vs)
  from Cons.IH [OF collected_add_unit [OF Cons.prems]] show ?case by simp
qed simp

lemma collected_fold:
  "collected us compared tables \<Longrightarrow> (\<And>pair tables. collected us compared tables \<Longrightarrow> collected us compared (step pair tables)) \<Longrightarrow>
     collected us compared (fold step pairs tables)"
  by (induction pairs arbitrary: tables) auto

lemma jmap_of_mem: "map_of (jmap_of kvs) k = Some v \<Longrightarrow> (k, v) \<in> set kvs"
  by (induction kvs rule: rev_induct) (auto simp: jmap_of_def update_conv' split: if_splits)

definition table_id_order :: "listing_table \<Rightarrow> listing_table \<Rightarrow> int" where
  "table_id_order left right = compare_code_points (lt_tableId left) (lt_tableId right)"

lemma table_id_order_le: "table_id_order l r \<le> 0 \<longleftrightarrow> lt_tableId l \<le> lt_tableId r"
  by (auto simp: table_id_order_def orders_le [OF orders_code_points])

interpretation table_id_order: js_comparator table_id_order
  by unfold_locales (auto simp: table_id_order_le)

lemma table_at_entry: "distinct (jkeys m) \<Longrightarrow> (i, t) \<in> set m \<Longrightarrow> table_at m i = t"
  by (simp add: table_at_def)

lemma collected_at: "collected units compared tables \<Longrightarrow> t \<in> set (jvalues tables) \<Longrightarrow> \<exists>i. t = table_at tables i"
  unfolding collected_def using table_at_entry [of tables] by fastforce

lemma listing_tables_ok:
  assumes "listing_tables_of c tableUnits tableId = Inr ts"
    "sorted_wrt (\<lambda>u v. catalogue_order u v < 0) tableUnits" "list_all (\<lambda>u. cu_rowId (ca_unit u) = None) tableUnits"
    "\<And>table. table \<in> set (cs_tables c) \<Longrightarrow> has_different_versions table \<Longrightarrow>
       rows_sound (rowsOf table) \<and> reads_rows reader table (rowsOf table)"
  shows "tables_ok reader rowsOf ts"
proof -
  let ?compared = "filter has_different_versions (cs_tables c)"
  define step :: "table_pair \<Rightarrow> listing_tables \<Rightarrow> listing_tables" where "step = (\<lambda>pair tables. case (tp_draft pair, map_of (tables_with_changed_rows c) (tp_identity pair)) of
      (Some draft, Some table) \<Rightarrow> add_changed_rows (tv_id draft) table tables | _ \<Rightarrow> tables)"
  from assms(1) obtain isListed where listed: "identity_filter_of (cs_snapshot c) tableId = Inr isListed"
    by (auto simp: listing_tables_of_def)
  define us where "us = filter (\<lambda>u. isListed (ca_tableIdentities u)) tableUnits"
  define tables where "tables = fold (\<lambda>pair tables. if isListed [tp_identity pair] then step pair tables else tables)
      (sn_tables (cs_snapshot c)) (fold add_unit_to_table us [])"
  have "(\<lambda>pair tables. case (tp_draft pair, map_of (tables_with_changed_rows c) (tp_identity pair)) of
      (Some draft, Some table) \<Rightarrow>
        if isListed [tp_identity pair] then add_changed_rows (tv_id draft) table tables else tables
      | _ \<Rightarrow> tables) = (\<lambda>pair tables. if isListed [tp_identity pair] then step pair tables else tables)"
    by (auto simp: step_def fun_eq_iff split: option.splits)
  then have ts: "ts = in_listing_order tables"
    using assms(1) listed by (simp add: listing_tables_of_def tables_def us_def Let_def)
  have changed: "table \<in> set ?compared" if "map_of (tables_with_changed_rows c) i = Some table" for i table
    using that by (auto simp: tables_with_changed_rows_def dest!: jmap_of_mem)
  have "collected us ?compared (fold add_unit_to_table us [])"
    using collected_units [of "[]" ?compared "[]" us] by (simp add: collected_def table_at_def)
  then have all: "collected us ?compared tables"
    unfolding tables_def by (rule collected_fold) (auto simp: step_def dest: changed intro: collected_add_rows split: option.splits)
  have ids: "distinct (map lt_tableId (jvalues tables))"
  proof -
    have "lt_tableId t = i" if "(i, t) \<in> set tables" for i t
      using all table_at_entry [OF _ that] by (auto simp: collected_def)
    then have ids: "map lt_tableId (jvalues tables) = jkeys tables" by auto
    show ?thesis unfolding ids using all by (simp add: collected_def)
  qed
  have "table_ok reader rowsOf t" if "t \<in> set ts" for t
  proof -
    from that obtain i where "t = table_at tables i"
      using collected_at [OF all] by (auto simp: ts in_listing_order_def)
    then have "lt_tableId t = i" "lt_units t = filter (\<lambda>u. cu_tableId (ca_unit u) = i) us"
      "lt_changedRows t = Some table \<Longrightarrow> table \<in> set ?compared" for table
      using all by (auto simp: collected_def)
    then show ?thesis
      using assms(2-4) by (auto simp: table_ok_def us_def list_all_iff intro: sorted_wrt_filter split: option.splits)
  qed
  moreover have "sorted_wrt (\<lambda>l r. lt_tableId l \<le> lt_tableId r) ts"
    using table_id_order.sorted_js_sort [of "jvalues tables"]
    by (simp add: ts in_listing_order_def table_id_order_le table_id_order_def [abs_def, symmetric])
  then have "sorted (map lt_tableId ts)" by (simp add: sorted_map)
  moreover have "distinct (map lt_tableId ts)" using ids unfolding ts in_listing_order_def by (simp add: distinct_map_js_sort)
  ultimately show ?thesis by (simp add: tables_ok_def list_all_iff strict_sorted_iff)
qed

subsection \<open>Properties\<close>

text \<open>
  Claim C40: following the cursors lists every change once: from the first page on, asking each
  next page with the cursor the page before it returned, the pages list the units of all tables and rows of
  the listing, in its strict order, whatever the size of a page, and the last page comes: there are at most as many
  pages as units and changed rows, and one. It holds when the reader of rows returns the changed rows from
  the bound on, in the order of their ids and with ties, and no one edits between the pages.
\<close>

theorem pages_list_every_unit_once:
  assumes "read_compared_snapshot tk ids equal deq snapshot wholeDraft = Inr c" "sound_pairs (sn_tables snapshot)"
    "build_change_catalogue tk equal vequal (with_changed_rows c []) = Inr cat"
    "listing_tables_of c (ch_units cat) tableId = Inr ts" "0 < n"
    "\<forall>table \<in> set (cs_tables c). rows_sound (rowsOf table) \<and> reads_rows reader table (rowsOf table)"
  shows "units_of_pages equal reader ts n (Suc (length (listing equal rowsOf ts) + length (all_rows rowsOf ts))) None =
      Inr (Some (listing equal rowsOf ts)) \<and>
    sorted_wrt (\<lambda>u v. compare_units (ca_key u, ca_unit u) (ca_key v, ca_unit v) < 0) (listing equal rowsOf ts)"
proof -
  have ok: "tables_ok reader rowsOf ts"
    using assms(6) by (intro listing_tables_ok [OF assms(4) catalogue_keys(2) [OF assms(1-3)] table_level_units [OF assms(1-3)]]) blast
  have "stands_at None [] (listing equal rowsOf ts)" by (simp add: stands_at_def in_range_def last_of_nil)
  moreover have "size_left rowsOf ts (listing equal rowsOf ts) None <
      Suc (length (listing equal rowsOf ts) + length (all_rows rowsOf ts))"
    by (simp add: size_left_def rows_left_def le_imp_less_Suc)
  ultimately have pages: "units_of_pages equal reader ts n (Suc (length (listing equal rowsOf ts) + length (all_rows rowsOf ts))) None =
      Inr (Some (listing equal rowsOf ts))"
    by (intro pages_from [OF ok assms(5), of equal "[]"]) simp_all
  show ?thesis using pages listing_ordered [OF ok, of equal] unfolding catalogue_order_def by (rule conjI)
qed

text \<open>A reader of the rows of the renamed table: one row edited, one created.\<close>

definition example_rows :: "row_pair list" where
  "example_rows = the (map_of example_changed_rows ''t1'')"

definition example_reader :: rows_reader where
  "example_reader table keyset = Inr (with_ties (kx_rowLimit keyset) (rows_from (kx_from keyset) example_rows))"

theorem pages_list_every_unit_once_witness:
  "\<exists>cat ts. build_change_catalogue root_toolkit (=) (=) (with_changed_rows example_compared []) = Inr cat \<and>
     listing_tables_of example_compared (ch_units cat) None = Inr ts \<and>
     units_of_pages (=) example_reader ts 1
       (Suc (length (listing (=) (\<lambda>_. example_rows) ts) + length (all_rows (\<lambda>_. example_rows) ts))) None =
       Inr (Some (listing (=) (\<lambda>_. example_rows) ts))"
proof -
  have none: "fold_try (add_row_units_of_table (=) (with_changed_rows example_compared []) ids) tables acc = Inr acc"
    for ids tables acc
    by (induction tables) (simp_all add: add_row_units_of_table_def split: prod.splits)
  then obtain cat where cat: "build_change_catalogue root_toolkit (=) (=) (with_changed_rows example_compared []) = Inr cat"
    using example_catalogue_of_rows [of "[]"] by (auto simp: build_row_units_of_changed_tables_def none)
  have "\<exists>ts. listing_tables_of example_compared (ch_units cat) None = Inr ts"
    by (simp add: listing_tables_of_def identity_filter_of_def Let_def)
  then obtain ts where ts: "listing_tables_of example_compared (ch_units cat) None = Inr ts" ..
  have rows: "\<forall>table \<in> set (cs_tables example_compared). rows_sound example_rows \<and> reads_rows example_reader table example_rows"
  proof -
    have "rows_sound example_rows" by (simp add: rows_sound_def example_rows_def example_changed_rows_def
        listed_row_id_def either_version_def example_row_def)
    then show ?thesis by (simp add: reads_rows_def example_reader_def)
  qed
  from pages_list_every_unit_once [OF example_compared_read cat ts zero_less_one rows] cat ts show ?thesis by blast
qed

end
