(* ===== verification/Outcome_Rules.thy ===== *)
theory Outcome_Rules
  imports Listing_Paging
begin

section \<open>Outcomes of an operation\<close>

text \<open>
  \<^verbatim>\<open>partial-changes/plan/change-operation.ts\<close>, \<^verbatim>\<open>assembly/outcome-rules.ts\<close> and \<^verbatim>\<open>assembly/read-tables.ts\<close>: which
  side a commit or a revert of the applied units takes the parts of the target from. The class \<open>OutcomeRules\<close>
  holds its choice and the base side it computes from it, so it is the choice; \<open>TableOutcomeRules\<close> is the record of its
  two fields. The frozen constant outcomes of the code are the constructors.
\<close>

datatype change_operation = CommitOp | RevertOp

record applied_units =
  ap_operation :: change_operation
  ap_applied :: "string list"
  ap_wholeDraft :: bool

record side_names =
  sd_target :: string
  sd_other :: string

fun side_names_of :: "change_operation \<Rightarrow> side_names" where
  "side_names_of CommitOp = \<lparr>sd_target = ''new Head'', sd_other = ''the Draft''\<rparr>"
| "side_names_of RevertOp = \<lparr>sd_target = ''reverted Draft'', sd_other = ''Head''\<rparr>"

fun opposite_of :: "revision_side \<Rightarrow> revision_side" where
  "opposite_of HeadSide = DraftSide"
| "opposite_of DraftSide = HeadSide"

fun row_on_side :: "revision_side \<Rightarrow> row_pair \<Rightarrow> json row option" where
  "row_on_side HeadSide pair = rp_head pair"
| "row_on_side DraftSide pair = rp_draft pair"

subsection \<open>The rules of an operation\<close>

fun base_side_of :: "change_operation \<Rightarrow> revision_side" where
  "base_side_of CommitOp = HeadSide"
| "base_side_of RevertOp = DraftSide"

abbreviation base_side :: "applied_units \<Rightarrow> revision_side" where
  "base_side rules \<equiv> base_side_of (ap_operation rules)"

definition unitless_side :: "applied_units \<Rightarrow> revision_side" where
  "unitless_side rules = (if ap_wholeDraft rules then opposite_of (base_side rules) else base_side rules)"

definition takes_every_table_of :: "applied_units \<Rightarrow> revision_side \<Rightarrow> bool" where
  "takes_every_table_of rules side \<longleftrightarrow> ap_wholeDraft rules \<and> side = unitless_side rules"

definition is_applied :: "applied_units \<Rightarrow> string \<Rightarrow> bool" where
  "is_applied rules key \<longleftrightarrow> key \<in> set (ap_applied rules)"

definition is_taken_from_draft :: "applied_units \<Rightarrow> string \<Rightarrow> bool" where
  "is_taken_from_draft rules key \<longleftrightarrow> is_applied rules key = (base_side rules = HeadSide)"

definition side_taken_by :: "applied_units \<Rightarrow> string \<Rightarrow> revision_side" where
  "side_taken_by rules key = (if is_taken_from_draft rules key then DraftSide else HeadSide)"

definition structure_side_of :: "applied_units \<Rightarrow> string option \<Rightarrow> revision_side" where
  "structure_side_of rules structure =
     (case structure of None \<Rightarrow> base_side rules | Some key \<Rightarrow> side_taken_by rules key)"

text \<open>The version, if any, by its flag \<open>readonly\<close>.\<close>

definition is_mutable :: "bool option \<Rightarrow> bool" where
  "is_mutable version \<longleftrightarrow> version = Some False"

definition edits_draft_in_place :: "applied_units \<Rightarrow> revision_side \<Rightarrow> bool option \<Rightarrow> bool" where
  "edits_draft_in_place rules structureSide draft \<longleftrightarrow>
     ap_operation rules = RevertOp \<and> structureSide = DraftSide \<and> is_mutable draft"

subsection \<open>The rules of a table\<close>

record other_side_parts =
  os_id :: bool
  os_paths :: "string list"
  os_columns :: "whole_column list"

datatype row_outcome =
    RowAbsent
  | RowStructureSide
  | RowOtherSide
  | RowMove
  | RowMerge other_side_parts

datatype row_outcome_kind = AbsentKind | StructureSideKind | OtherSideKind | MoveKind | MergeKind

datatype table_outcome = TableUnchanged | TableBase | TableOther | TableMixed | TablePresent | TableAbsent

record table_unit_keys =
  tk_structure :: "string option"
  tk_rows :: "string list"

record outcome_table =
  ot_units :: table_unit_keys
  ot_structureDiffers :: bool

record table_rules =
  tr_rules :: applied_units
  tr_table :: outcome_table

definition rules_for_table :: "applied_units \<Rightarrow> outcome_table \<Rightarrow> table_rules" where
  "rules_for_table rules t = \<lparr>tr_rules = rules, tr_table = t\<rparr>"

definition structure_side :: "table_rules \<Rightarrow> revision_side" where
  "structure_side r = structure_side_of (tr_rules r) (tk_structure (ot_units (tr_table r)))"

definition other_side :: "table_rules \<Rightarrow> revision_side" where
  "other_side r = opposite_of (structure_side r)"

definition row_columns :: "whole_column list" where
  "row_columns = [PublishedAtColumn, MetaColumn, SchemaHashColumn]"

definition takes_other_side :: "table_rules \<Rightarrow> string \<Rightarrow> bool" where
  "takes_other_side r key \<longleftrightarrow> is_taken_from_draft (tr_rules r) key \<noteq> (structure_side r = DraftSide)"

definition takes_owner_other_side :: "table_rules \<Rightarrow> string option \<Rightarrow> bool" where
  "takes_owner_other_side r owner = (case owner of None \<Rightarrow> False | Some key \<Rightarrow> takes_other_side r key)"

definition parts_from_other_side :: "table_rules \<Rightarrow> catalogue_row \<Rightarrow> other_side_parts" where
  "parts_from_other_side r row =
     \<lparr>os_id = takes_owner_other_side r (map_of (cr_columns row) IdColumn),
      os_paths = map fst (filter (\<lambda>(path, owner). takes_other_side r owner) (cr_leaves row)),
      os_columns = filter (\<lambda>column. takes_owner_other_side r (map_of (cr_columns row) column)) row_columns\<rparr>"

definition other_side_existence_of :: "table_rules \<Rightarrow> row_pair \<Rightarrow> row_outcome" where
  "other_side_existence_of r pair =
     (if row_on_side (other_side r) pair = None then RowAbsent
      else if ot_structureDiffers (tr_table r) then RowMove else RowOtherSide)"

definition outcome_of_differences :: "table_rules \<Rightarrow> catalogue_row \<Rightarrow> row_outcome" where
  "outcome_of_differences r row =
     (let owners = uniq (jvalues (cr_columns row) @ jvalues (cr_leaves row));
          taking = filter (takes_other_side r) owners
      in if length taking = 0 then RowStructureSide
         else if length taking = length owners \<and> \<not> ot_structureDiffers (tr_table r) then RowOtherSide
         else RowMerge (parts_from_other_side r row))"

definition row_outcome_of :: "table_rules \<Rightarrow> catalogue_row \<Rightarrow> row_outcome" where
  "row_outcome_of r row =
     (if (case cr_existence row of None \<Rightarrow> False | Some key \<Rightarrow> takes_other_side r key)
      then other_side_existence_of r (cr_pair row)
      else if row_on_side (structure_side r) (cr_pair row) = None then RowAbsent
      else if row_on_side (other_side r) (cr_pair row) = None then RowStructureSide
      else outcome_of_differences r row)"

definition unit_keys_of :: "table_rules \<Rightarrow> string list" where
  "unit_keys_of r =
     (let units = ot_units (tr_table r)
      in case tk_structure units of None \<Rightarrow> tk_rows units | Some key \<Rightarrow> key # tk_rows units)"

definition outcome_without_units :: "table_rules \<Rightarrow> table_outcome" where
  "outcome_without_units r = (if ap_wholeDraft (tr_rules r) then TableOther else TableUnchanged)"

definition keeps_structure_side_link :: "table_rules \<Rightarrow> row_pair \<times> row_outcome_kind \<Rightarrow> bool" where
  "keeps_structure_side_link r row \<longleftrightarrow>
     snd row = StructureSideKind \<or> (snd row = AbsentKind \<and> row_on_side (structure_side r) (fst row) = None)"

definition takes_other_side_version :: "table_rules \<Rightarrow> (row_pair \<times> row_outcome_kind) list \<Rightarrow> bool" where
  "takes_other_side_version r rows \<longleftrightarrow>
     tk_structure (ot_units (tr_table r)) = None \<and>
     list_all (takes_other_side r) (tk_rows (ot_units (tr_table r))) \<and>
     list_all (\<lambda>row. snd row = OtherSideKind \<or> snd row = AbsentKind) rows"

definition table_outcome_of :: "table_rules \<Rightarrow> (row_pair \<times> row_outcome_kind) list \<Rightarrow> table_outcome" where
  "table_outcome_of r rows =
     (if length (unit_keys_of r) = 0 then outcome_without_units r
      else if list_all (keeps_structure_side_link r) rows then TableBase
      else if takes_other_side_version r rows then TableOther
      else TableMixed)"

definition is_relink_candidate :: "table_rules \<Rightarrow> bool" where
  "is_relink_candidate r \<longleftrightarrow> list_all (is_applied (tr_rules r)) (unit_keys_of r)"

definition outcome_of_one_sided_table :: "table_rules \<Rightarrow> table_pair \<Rightarrow> table_outcome" where
  "outcome_of_one_sided_table r pair =
     (if version_on_side (structure_side r) pair = None then TableAbsent else TablePresent)"

definition table_edits_draft_in_place :: "table_rules \<Rightarrow> table_pair \<Rightarrow> bool" where
  "table_edits_draft_in_place r pair =
     edits_draft_in_place (tr_rules r) (structure_side r) (map_option tv_readonly (tp_draft pair))"

subsection \<open>The tables that were read\<close>

text \<open>
  The snapshot of the code also holds the ids of the two revisions and, with the rows of each system table, its
  versions: here they are fields of the source.
\<close>

record stored_version =
  sr_versionId :: string
  sr_readonly :: bool

record system_table_versions =
  sv_head :: "stored_version option"
  sv_draft :: "stored_version option"

record system_versions =
  sm_schemas :: system_table_versions
  sm_migrations :: system_table_versions
  sm_views :: system_table_versions
  sm_sharedSchemas :: system_table_versions

record assembly_source =
  as_headRevisionId :: string
  as_draftRevisionId :: string
  as_systemVersions :: system_versions
  as_snapshot :: changes_snapshot
  as_tables :: "compared_table list"
  as_catalogue :: change_catalogue

record read_table =
  re_pair :: table_pair
  re_structure :: table_structure
  re_units :: table_unit_keys
  re_rows :: "catalogue_row list"

definition required_pair :: "table_pair list \<Rightarrow> string \<Rightarrow> table_pair outcome" where
  "required_pair pairs identity =
     (case find (\<lambda>pair. tp_identity pair = identity) pairs of
        None \<Rightarrow> Inl (''Table '' @ identity @ '' is not in the compared snapshot'')
      | Some pair \<Rightarrow> Inr pair)"

definition required_table :: "compared_table list \<Rightarrow> string \<Rightarrow> compared_table outcome" where
  "required_table tables identity =
     (case find (\<lambda>t. co_identity t = identity) tables of
        None \<Rightarrow> Inl (''Table '' @ identity @ '' is not in the compared snapshot'')
      | Some t \<Rightarrow> Inr t)"

definition unit_keys_in :: "table_pair \<Rightarrow> catalogue_lookup \<Rightarrow> table_unit_keys" where
  "unit_keys_in pair lookup =
     \<lparr>tk_structure = map_option ca_key (table_unit_of lookup StructureUnit pair),
      tk_rows = map ca_key (row_level_units_of lookup pair)\<rparr>"

definition read_tables_of :: "assembly_source \<Rightarrow> read_table list outcome" where
  "read_tables_of source =
     map_try (\<lambda>(identity, rows).
       try_bind (required_pair (sn_tables (as_snapshot source)) identity) (\<lambda>pair.
       try_bind (required_table (as_tables source) identity) (\<lambda>t.
         Inr \<lparr>re_pair = pair, re_structure = co_structure t,
              re_units = unit_keys_in pair (ch_lookup (as_catalogue source)), re_rows = rows\<rparr>)))
       (ch_rows (as_catalogue source))"

definition table_rules_of :: "applied_units \<Rightarrow> read_table \<Rightarrow> table_rules" where
  "table_rules_of rules t =
     rules_for_table rules \<lparr>ot_units = re_units t, ot_structureDiffers = st_differs (re_structure t)\<rparr>"

subsection \<open>Sides\<close>

lemma opposite_of_opposite [simp]: "opposite_of (opposite_of s) = s"
  by (cases s) auto

lemma opposite_of_neq [simp]: "opposite_of s \<noteq> s" "s \<noteq> opposite_of s"
  by (cases s; simp)+

lemma takes_other_side_iff: "takes_other_side r key \<longleftrightarrow> side_taken_by (tr_rules r) key = other_side r"
  by (cases "structure_side r") (auto simp: takes_other_side_def side_taken_by_def other_side_def)

lemma side_taken_by_not_other: "\<not> takes_other_side r key \<longleftrightarrow> side_taken_by (tr_rules r) key = structure_side r"
  by (cases "structure_side r") (auto simp: takes_other_side_def side_taken_by_def)

lemma structure_never_other: "tk_structure (ot_units (tr_table r)) = Some key \<Longrightarrow> \<not> takes_other_side r key"
  by (simp add: side_taken_by_not_other structure_side_def structure_side_of_def)

text \<open>
  A commit takes an applied unit from the Draft and another from Head; a revert the other way round. So committing some
  units takes the sides that reverting the rest takes.
\<close>

lemma side_taken_by_cases:
  "ap_operation rules = CommitOp \<Longrightarrow> side_taken_by rules key = (if is_applied rules key then DraftSide else HeadSide)"
  "ap_operation rules = RevertOp \<Longrightarrow> side_taken_by rules key = (if is_applied rules key then HeadSide else DraftSide)"
  by (simp_all add: side_taken_by_def is_taken_from_draft_def)

end
