(* ===== verification/Row_Merging.thy ===== *)
theory Row_Merging
  imports Outcome_Rules
begin

section \<open>Merging rows\<close>

text \<open>
  \<^verbatim>\<open>partial-changes/assembly/row-merger.ts\<close> and \<open>assignIn\<close> of \<^verbatim>\<open>structure/json-pointer.ts\<close>. The services a merge
  calls are the arguments of \<open>row_tools\<close>: the recomputation of computed fields by plugins (the data of the rows
  after it), the hashes of data and schemas, and of the schema toolkit the default value of a schema and the
  application of patches to a table of rows.
\<close>

subsection \<open>Assigning at a pointer\<close>

text \<open>
  \<open>holder[name] = value\<close>. A property that is \<open>undefined\<close> is like an absent one to every reader of the data. What
  is not JSON, an array with holes or with properties of its own, is an error of the model; pointers of leaves lead
  through objects only.
\<close>

fun assign_own :: "json \<Rightarrow> string \<Rightarrow> json option \<Rightarrow> json outcome" where
  "assign_own (JObj fs) name (Some v) = Inr (JObj (AList.update name v fs))"
| "assign_own (JObj fs) name None = Inr (JObj (AList.delete name fs))"
| "assign_own (JArr xs) name (Some v) =
     (case find (\<lambda>i. decimal i = name) [0..<Suc (length xs)] of
        Some i \<Rightarrow> Inr (JArr (if i < length xs then xs[i := v] else xs @ [v]))
      | None \<Rightarrow> Inl ''not JSON'')"
| "assign_own (JArr xs) name None = Inl ''not JSON''"
| "assign_own _ name value = Inl ''no object''"

fun assign_at :: "json_pointer \<Rightarrow> json \<Rightarrow> json option \<Rightarrow> json outcome" where
  "assign_at [] data value = Inl ''no name''"
| "assign_at [name] data value = assign_own data name value"
| "assign_at (segment # p) data value =
     (case own_property_of (Some data) segment of
        None \<Rightarrow> Inl ''no object''
      | Some inner \<Rightarrow> try_bind (assign_at p inner value) (\<lambda>inner'. assign_own data segment (Some inner')))"

fun is_object_value :: "json option \<Rightarrow> bool" where
  "is_object_value (Some (JObj _)) = True"
| "is_object_value (Some (JArr _)) = True"
| "is_object_value _ = False"

definition assign_in :: "json_pointer \<Rightarrow> json option \<Rightarrow> json option \<Rightarrow> json option outcome" where
  "assign_in p data value =
     (if p = [] then Inr value
      else if \<not> is_object_value (value_in (butlast p) data) then Inl (''No object holds \"'' @ pointer_string p @ ''\"'')
      else try_bind (assign_at p (the data) value) (\<lambda>data'. Inr (Some data')))"

subsection \<open>Rows and their versions\<close>

record 'd new_row_version =
  nr_createdId :: string
  nr_createdAt :: int
  nr_id :: string
  nr_data :: 'd
  nr_hash :: string
  nr_schemaHash :: string
  nr_publishedAt :: int
  nr_meta :: json

type_synonym merged_row = "json new_row_version"

record row_merge =
  rm_structureSide :: "json row"
  rm_otherSide :: "json row"
  rm_fromOtherSide :: other_side_parts

record merge_target =
  mt_revisionId :: string
  mt_tableId :: string
  mt_schema :: json

record draft_structure_migration =
  dm_headSchema :: json
  dm_pendingHistory :: "history_patches list"

record new_version =
  nv_row :: "json row"
  nv_otherSideSchemaHash :: "string option"

record row_tools =
  rt_recompute :: "merge_target \<Rightarrow> json row list \<Rightarrow> json list outcome"
  rt_hash :: "json \<Rightarrow> string"
  rt_schemaHash :: "json \<Rightarrow> string"
  rt_default :: "json \<Rightarrow> json"
  rt_patchTable :: "json \<Rightarrow> (string \<times> json) list \<Rightarrow> json_patch list \<Rightarrow> (json \<times> (string \<Rightarrow> json)) outcome"

subsection \<open>Versions that take parts of the other side\<close>

definition side_taking :: "row_merge \<Rightarrow> bool \<Rightarrow> json row" where
  "side_taking m takesOtherSide = (if takesOtherSide then rm_otherSide m else rm_structureSide m)"

definition side_taking_column :: "row_merge \<Rightarrow> whole_column \<Rightarrow> json row" where
  "side_taking_column m column = side_taking m (column \<in> set (os_columns (rm_fromOtherSide m)))"

definition other_side_schema_hash_of :: "row_merge \<Rightarrow> string option" where
  "other_side_schema_hash_of m =
     (if SchemaHashColumn \<notin> set (os_columns (rm_fromOtherSide m)) then None
      else Some (row_schemaHash (rm_otherSide m)))"

definition take_path :: "json row \<Rightarrow> string \<Rightarrow> json option \<Rightarrow> json option outcome" where
  "take_path source path data =
     try_bind (parse_pointer path) (\<lambda>p. assign_in p data (value_in p (Some (row_data source))))"

definition data_taking_other_side_paths :: "row_merge \<Rightarrow> json option outcome" where
  "data_taking_other_side_paths m =
     fold_try (take_path (rm_otherSide m)) (os_paths (rm_fromOtherSide m)) (Some (row_data (rm_structureSide m)))"

text \<open>A row's data is a value: \<open>undefined\<close>, which taking the root path would give, is an error of the model.\<close>

definition defined_data :: "json option \<Rightarrow> json outcome" where
  "defined_data data = (case data of None \<Rightarrow> Inl ''no data'' | Some d \<Rightarrow> Inr d)"

definition version_taking_other_side_parts :: "row_merge \<Rightarrow> new_version outcome" where
  "version_taking_other_side_parts m =
     try_bind (data_taking_other_side_paths m) (\<lambda>taken. try_bind (defined_data taken) (\<lambda>data.
       Inr \<lparr>nv_row = (rm_structureSide m)
              \<lparr>row_id := row_id (side_taking m (os_id (rm_fromOtherSide m))), row_data := data,
               row_publishedAt := row_publishedAt (side_taking_column m PublishedAtColumn),
               row_meta := row_meta (side_taking_column m MetaColumn)\<rparr>,
            nv_otherSideSchemaHash = other_side_schema_hash_of m\<rparr>))"

definition version_of_row :: "json row \<Rightarrow> new_version" where
  "version_of_row r = \<lparr>nv_row = r, nv_otherSideSchemaHash = None\<rparr>"

subsection \<open>The merger\<close>

definition merged_row_of :: "row_tools \<Rightarrow> json row \<Rightarrow> string \<Rightarrow> merged_row" where
  "merged_row_of tools r schemaHash =
     \<lparr>nr_createdId = row_createdId r, nr_createdAt = row_createdAt r, nr_id = row_id r, nr_data = row_data r,
      nr_hash = rt_hash tools (row_data r), nr_schemaHash = schemaHash, nr_publishedAt = row_publishedAt r,
      nr_meta = row_meta r\<rparr>"

definition recompute_computed_leaves :: "row_tools \<Rightarrow> json row list \<Rightarrow> merge_target \<Rightarrow> json row list outcome" where
  "recompute_computed_leaves tools rows target =
     try_bind (rt_recompute tools target rows) (\<lambda>datas.
       Inr (map2 (\<lambda>r data. r\<lparr>row_data := data\<rparr>) rows datas))"

definition new_versions_of :: "row_tools \<Rightarrow> new_version list \<Rightarrow> merge_target \<Rightarrow> merged_row list outcome" where
  "new_versions_of tools versions target =
     (if length versions = 0 then Inr []
      else try_bind (recompute_computed_leaves tools (map nv_row versions) target) (\<lambda>rows.
        let targetSchemaHash = rt_schemaHash tools (mt_schema target)
        in Inr (map2 (\<lambda>r version. merged_row_of tools r
             (case nv_otherSideSchemaHash version of None \<Rightarrow> targetSchemaHash | Some h \<Rightarrow> h)) rows versions)))"

definition merge_rows :: "row_tools \<Rightarrow> row_merge list \<Rightarrow> merge_target \<Rightarrow> merged_row list outcome" where
  "merge_rows tools merges target =
     try_bind (map_try version_taking_other_side_parts merges) (\<lambda>versions. new_versions_of tools versions target)"

definition migrate_through_entry ::
  "row_tools \<Rightarrow> history_patches \<Rightarrow> json \<times> json row list \<Rightarrow> (json \<times> json row list) outcome" where
  "migrate_through_entry tools entry = (\<lambda>(schema, rows).
     try_bind (rt_patchTable tools schema (map (\<lambda>r. (row_id r, row_data r)) rows) (hp_patches entry))
       (\<lambda>(schema', rowOf). Inr (schema', map (\<lambda>r. r\<lparr>row_data := rowOf (row_id r)\<rparr>) rows)))"

definition migrated_through_pending_history ::
  "row_tools \<Rightarrow> json row list \<Rightarrow> draft_structure_migration \<Rightarrow> json row list outcome" where
  "migrated_through_pending_history tools rows m =
     try_bind (fold_try (migrate_through_entry tools) (dm_pendingHistory m) (dm_headSchema m, rows)) (\<lambda>(_, migrated).
       Inr migrated)"

definition migrate_into_draft_structure ::
  "row_tools \<Rightarrow> json row list \<Rightarrow> draft_structure_migration \<Rightarrow> merge_target \<Rightarrow> merged_row list outcome" where
  "migrate_into_draft_structure tools headRows m target =
     try_bind (migrated_through_pending_history tools headRows m) (\<lambda>rows.
       new_versions_of tools (map version_of_row rows) target)"

definition with_head_defaults :: "row_tools \<Rightarrow> schema_leaf list \<Rightarrow> json \<Rightarrow> json row \<Rightarrow> json row outcome" where
  "with_head_defaults tools unchangedLeaves headSchema r =
     try_bind (fold_try (\<lambda>leaf data. assign_in (leaf_pointer leaf) data (value_in (leaf_pointer leaf) (Some (row_data r))))
         (filter stores_value_in_data unchangedLeaves) (Some (rt_default tools headSchema)))
       (\<lambda>taken. try_bind (defined_data taken) (\<lambda>data. Inr (r\<lparr>row_data := data\<rparr>)))"

definition map_into_head_structure ::
  "row_tools \<Rightarrow> json row list \<Rightarrow> schema_leaf list \<Rightarrow> merge_target \<Rightarrow> merged_row list outcome" where
  "map_into_head_structure tools draftRows unchangedLeaves target =
     try_bind (map_try (with_head_defaults tools unchangedLeaves (mt_schema target)) draftRows) (\<lambda>rows.
       new_versions_of tools (map version_of_row rows) target)"

subsection \<open>Reading what was assigned\<close>

text \<open>The values above a pointer are objects.\<close>

fun objects_above :: "json_pointer \<Rightarrow> json \<Rightarrow> bool" where
  "objects_above [] data = True"
| "objects_above (segment # p) (JObj fs) \<longleftrightarrow>
     p = [] \<or> (case map_of fs segment of None \<Rightarrow> False | Some inner \<Rightarrow> objects_above p inner)"
| "objects_above (segment # p) _ = False"

definition separate_pointers :: "json_pointer \<Rightarrow> json_pointer \<Rightarrow> bool" where
  "separate_pointers p q \<longleftrightarrow> \<not> prefix p q \<and> \<not> prefix q p"

lemma value_in_simps [simp]:
  "value_in [] data = data" "value_in (segment # p) data = value_in p (own_property_of data segment)"
  by (simp_all add: value_in_def)

lemma own_property_object [simp]: "own_property_of (Some (JObj fs)) name = map_of fs name"
  by (simp add: own_property_of_def)

lemma value_in_none [simp]: "value_in p None = None"
  by (induction p) (simp_all add: own_property_of_def)

lemma map_of_delete: "map_of (AList.delete k m) = (map_of m)(k := None)"
  by (rule delete_conv')

lemma assign_at_defined:
  "objects_above p data \<Longrightarrow> p \<noteq> [] \<Longrightarrow> \<exists>fs fs'. data = JObj fs \<and> assign_at p data v = Inr (JObj fs')"
proof (induction p arbitrary: data)
  case (Cons segment p)
  then obtain fs where data: "data = JObj fs" by (cases data) auto
  show ?case
  proof (cases p)
    case Nil
    with data show ?thesis by (cases v) auto
  next
    case (Cons s q)
    with Cons.prems data obtain inner where inner: "map_of fs segment = Some inner" "objects_above p inner"
      by (auto split: option.splits)
    with Cons.IH [OF inner(2)] Cons data show ?thesis by auto
  qed
qed simp

lemma value_assigned:
  "objects_above p data \<Longrightarrow> assign_at p data v = Inr data' \<Longrightarrow> value_in p (Some data') = v"
proof (induction p data v arbitrary: data' rule: assign_at.induct)
  case (2 name data v)
  then show ?case by (cases data; cases v) (auto simp: update_conv' map_of_delete)
next
  case (3 segment s p data v)
  then obtain fs inner where fs: "data = JObj fs" "map_of fs segment = Some inner" "objects_above (s # p) inner"
    by (cases data) (auto split: option.splits)
  with 3 show ?case by (auto simp: update_conv' split: sum.splits)
qed simp

lemma value_not_assigned:
  "objects_above p data \<Longrightarrow> assign_at p data v = Inr data' \<Longrightarrow> separate_pointers p q \<Longrightarrow>
     value_in q (Some data') = value_in q (Some data)"
proof (induction p data v arbitrary: data' q rule: assign_at.induct)
  case (2 name data v)
  then show ?case by (cases data; cases v; cases q) (auto simp: update_conv' map_of_delete separate_pointers_def)
next
  case (3 segment s p data v)
  obtain fs inner inner' where fs: "data = JObj fs" "map_of fs segment = Some inner" "objects_above (s # p) inner"
    "assign_at (s # p) inner v = Inr inner'" "data' = JObj (AList.update segment inner' fs)"
    using "3.prems"(1,2) by (cases data) (auto split: option.splits)
  show ?case
  proof (cases q)
    case Nil
    with "3.prems"(3) show ?thesis by (simp add: separate_pointers_def)
  next
    case (Cons r q')
    have "value_in q' (Some inner') = value_in q' (Some inner)" if "r = segment"
      using "3.IH" [of inner inner' q'] fs Cons that "3.prems"(3) by (auto simp: separate_pointers_def)
    with fs Cons show ?thesis by (auto simp: update_conv')
  qed
qed simp

lemma objects_above_assigned:
  "objects_above p data \<Longrightarrow> assign_at p data v = Inr data' \<Longrightarrow> objects_above q data \<Longrightarrow> \<not> prefix p q \<Longrightarrow>
     objects_above q data'"
proof (induction p data v arbitrary: data' q rule: assign_at.induct)
  case (2 name data v)
  then show ?case
    by (cases data; cases v; cases q) (auto simp: update_conv' map_of_delete split: option.splits)
next
  case (3 segment s p data v)
  obtain fs inner inner' where fs: "data = JObj fs" "map_of fs segment = Some inner" "objects_above (s # p) inner"
    "assign_at (s # p) inner v = Inr inner'" "data' = JObj (AList.update segment inner' fs)"
    using "3.prems"(1,2) by (cases data) (auto split: option.splits)
  show ?case
  proof (cases q)
    case (Cons r q')
    show ?thesis
    proof (cases "r = segment \<and> q' \<noteq> []")
      case True
      then have "objects_above q' inner" "\<not> prefix (s # p) q'" using "3.prems"(3,4) fs(1,2) Cons by auto
      with "3.IH" [OF _ fs(3,4)] fs(1,2) have "objects_above q' inner'" by simp
      with True show ?thesis by (simp add: Cons fs(5) update_conv')
    next
      case False
      with "3.prems"(3) show ?thesis by (auto simp: Cons fs(1,5) update_conv')
    qed
  qed simp
qed simp

lemma objects_above_holder: "objects_above p data \<Longrightarrow> p \<noteq> [] \<Longrightarrow> is_object_value (value_in (butlast p) (Some data))"
proof (induction p arbitrary: data)
  case (Cons segment p)
  then obtain fs where data: "data = JObj fs" by (cases data) auto
  with Cons show ?case by (cases p) (auto split: option.splits)
qed simp

text \<open>One assignment, with what it reads and leaves.\<close>

lemma assigned:
  assumes "objects_above p data" "p \<noteq> []"
  obtains data' where "assign_in p (Some data) v = Inr (Some data')" "value_in p (Some data') = v"
    "\<And>q. separate_pointers p q \<Longrightarrow> value_in q (Some data') = value_in q (Some data)"
    "\<And>q. objects_above q data \<Longrightarrow> \<not> prefix p q \<Longrightarrow> objects_above q data'"
proof -
  obtain data' where run: "assign_at p data v = Inr data'" using assign_at_defined [OF assms] by blast
  show ?thesis
  proof (rule that)
    show "assign_in p (Some data) v = Inr (Some data')"
      using run objects_above_holder [OF assms] assms(2) by (simp add: assign_in_def)
  qed (use value_assigned [OF assms(1) run] value_not_assigned [OF assms(1) run]
      objects_above_assigned [OF assms(1) run] in blast)+
qed

lemma paths_taken:
  assumes "sorted_wrt separate_pointers ps" "\<forall>p \<in> set ps. objects_above p data \<and> p \<noteq> []"
  shows "\<exists>data'. fold_try (take_path source) (map pointer_string ps) (Some data) = Inr (Some data') \<and>
    (\<forall>p \<in> set ps. value_in p (Some data') = value_in p (Some (row_data source))) \<and>
    (\<forall>q. (\<forall>p \<in> set ps. separate_pointers p q) \<longrightarrow> value_in q (Some data') = value_in q (Some data))"
  using assms
proof (induction ps arbitrary: data)
  case (Cons p ps)
  from Cons.prems(2) have p: "objects_above p data" "p \<noteq> []" by simp_all
  from assigned [OF p, of "value_in p (Some (row_data source))"] obtain d where
    d: "assign_in p (Some data) (value_in p (Some (row_data source))) = Inr (Some d)"
    "value_in p (Some d) = value_in p (Some (row_data source))"
    "\<And>q. separate_pointers p q \<Longrightarrow> value_in q (Some d) = value_in q (Some data)"
    "\<And>q. objects_above q data \<Longrightarrow> \<not> prefix p q \<Longrightarrow> objects_above q d" by blast
  have "\<forall>q \<in> set ps. objects_above q d \<and> q \<noteq> []"
    using Cons.prems d(4) by (auto simp: separate_pointers_def)
  with Cons.IH [of d] Cons.prems(1) obtain d' where d': "fold_try (take_path source) (map pointer_string ps) (Some d) = Inr (Some d')"
    "\<forall>p \<in> set ps. value_in p (Some d') = value_in p (Some (row_data source))"
    "\<forall>q. (\<forall>p \<in> set ps. separate_pointers p q) \<longrightarrow> value_in q (Some d') = value_in q (Some d)" by auto
  have "\<forall>r \<in> set ps. separate_pointers r p" using Cons.prems(1) by (auto simp: separate_pointers_def)
  with d'(3) d(2) have "value_in p (Some d') = value_in p (Some (row_data source))" by simp
  moreover have "take_path source (pointer_string p) (Some data) = Inr (Some d)"
    by (simp add: take_path_def parse_pointer_string d(1))
  ultimately show ?case
    using d' d(3) by (intro exI [of _ d']) auto
qed simp

end
