(* ===== verification/Target_Assembly.thy ===== *)
theory Target_Assembly
  imports Row_Merging
begin

section \<open>Assembling the user tables of a target\<close>

text \<open>
  The part of \<^verbatim>\<open>partial-changes/assembly/target-assembler.ts\<close> that assembles user tables, with
  \<^verbatim>\<open>link-changes.ts\<close>. The object \<open>ReadTableAssembly\<close> is the record of its fields.
\<close>

record 'd row_link_changes =
  lk_removed :: "string list"
  lk_added :: "string list"
  lk_new :: "'d new_row_version list"

definition no_link_changes :: "'d row_link_changes" where
  "no_link_changes = \<lparr>lk_removed = [], lk_added = [], lk_new = []\<rparr>"

datatype target_kind = TargetAbsent | TargetStructureSide | TargetOtherSide | TargetMerged merged_row

record target_row =
  tg_pair :: row_pair
  tg_kind :: target_kind

record table_plan =
  pl_identity :: string
  pl_outcome :: table_outcome
  pl_structureSide :: revision_side
  pl_versionId :: "string option"
  pl_editInPlace :: bool
  pl_relinkCandidate :: bool
  pl_rows :: "target_row list"
  pl_links :: "json row_link_changes"

record deferred_values =
  dv_unitKey :: string
  dv_paths :: "string list"
  dv_structureKey :: string

record assembled_table =
  ab_plan :: table_plan
  ab_blockers :: "plan_blocker list"
  ab_deferred :: "deferred_values list"

record decided_row =
  de_row :: catalogue_row
  de_outcome :: row_outcome

record read_table_assembly =
  ra_table :: read_table
  ra_rules :: table_rules
  ra_operation :: change_operation
  ra_target :: merge_target
  ra_decided :: "decided_row list"
  ra_draftStructure :: "draft_structure_migration option"

subsection \<open>Versions\<close>

definition row_version_on :: "row_pair \<Rightarrow> revision_side \<Rightarrow> json row outcome" where
  "row_version_on pair side =
     (case row_on_side side pair of
        None \<Rightarrow> Inl ((case either_version (rp_draft pair) (rp_head pair) of None \<Rightarrow> rp_identity pair | Some r \<Rightarrow> row_id r) @
            '' has no '' @ side_name side @ '' version'')
      | Some r \<Rightarrow> Inr r)"

definition version_ids_on :: "row_pair \<Rightarrow> revision_side \<Rightarrow> string list" where
  "version_ids_on pair side = (case row_on_side side pair of None \<Rightarrow> [] | Some r \<Rightarrow> [row_versionId r])"

definition recorded_draft_structure_of :: "read_table \<Rightarrow> draft_structure_migration option outcome" where
  "recorded_draft_structure_of t =
     (case st_pendingHistory (re_structure t) of
        ExtendsHead entries \<Rightarrow>
          if \<not> st_recorded (re_structure t) then Inr None
          else try_bind (version_on (re_pair t) HeadSide) (\<lambda>head.
            Inr (Some \<lparr>dm_headSchema = tv_schema head, dm_pendingHistory = entries\<rparr>))
      | NotExtendingHead \<Rightarrow> Inr None)"

definition read_table_assembly :: "read_table \<Rightarrow> table_rules \<Rightarrow> change_operation \<Rightarrow> merge_target \<Rightarrow> read_table_assembly outcome" where
  "read_table_assembly t rules operation target =
     try_bind (recorded_draft_structure_of t) (\<lambda>draftStructure.
       Inr \<lparr>ra_table = t, ra_rules = rules, ra_operation = operation, ra_target = target,
            ra_decided = map (\<lambda>row. \<lparr>de_row = row, de_outcome = row_outcome_of rules row\<rparr>) (re_rows t),
            ra_draftStructure = draftStructure\<rparr>)"

subsection \<open>New versions of rows\<close>

definition row_merges_of :: "table_rules \<Rightarrow> decided_row \<Rightarrow> row_merge list outcome" where
  "row_merges_of rules decided =
     (case de_outcome decided of
        RowMerge parts \<Rightarrow>
          try_bind (row_version_on (cr_pair (de_row decided)) (structure_side rules)) (\<lambda>structureSide.
          try_bind (row_version_on (cr_pair (de_row decided)) (other_side rules)) (\<lambda>otherSide.
            Inr [\<lparr>rm_structureSide = structureSide, rm_otherSide = otherSide, rm_fromOtherSide = parts\<rparr>]))
      | _ \<Rightarrow> Inr [])"

definition merged_rows :: "row_tools \<Rightarrow> read_table_assembly \<Rightarrow> merged_row list outcome" where
  "merged_rows tools a =
     try_bind (map_try (row_merges_of (ra_rules a)) (ra_decided a)) (\<lambda>merges.
       merge_rows tools (concat merges) (ra_target a))"

definition rows_moving :: "read_table_assembly \<Rightarrow> decided_row list" where
  "rows_moving a = filter (\<lambda>decided. de_outcome decided = RowMove) (ra_decided a)"

definition moved_rows :: "row_tools \<Rightarrow> read_table_assembly \<Rightarrow> merged_row list outcome" where
  "moved_rows tools a =
     try_bind (map_try (\<lambda>decided. row_version_on (cr_pair (de_row decided)) (other_side (ra_rules a))) (rows_moving a)) (\<lambda>rows.
       if length rows = 0 then Inr []
       else if structure_side (ra_rules a) = HeadSide
       then map_into_head_structure tools rows (st_unchangedLeaves (re_structure (ra_table a))) (ra_target a)
       else case ra_draftStructure a of
              None \<Rightarrow> Inr []
            | Some m \<Rightarrow> migrate_into_draft_structure tools rows m (ra_target a))"

definition new_versions :: "row_tools \<Rightarrow> read_table_assembly \<Rightarrow> (string, merged_row) jmap outcome" where
  "new_versions tools a =
     try_bind (merged_rows tools a) (\<lambda>merged. try_bind (moved_rows tools a) (\<lambda>moved.
       Inr (jmap_of (map (\<lambda>r. (nr_createdId r, r)) (merged @ moved)))))"

subsection \<open>The rows of the target\<close>

text \<open>What \<open>differInContent\<close> reads of a new version; the other columns of the row are not read.\<close>

definition content_row :: "merged_row \<Rightarrow> json row" where
  "content_row r =
     \<lparr>row_versionId = '''', row_createdId = nr_createdId r, row_id = nr_id r, row_readonly = False,
      row_createdAt = nr_createdAt r, row_updatedAt = 0, row_publishedAt = nr_publishedAt r, row_data = nr_data r,
      row_meta = nr_meta r, row_hash = nr_hash r, row_schemaHash = nr_schemaHash r\<rparr>"

definition collapsed_row_of :: "(json \<Rightarrow> json \<Rightarrow> bool) \<Rightarrow> row_pair \<Rightarrow> merged_row \<Rightarrow> table_rules \<Rightarrow> target_row" where
  "collapsed_row_of equal pair newVersion rules =
     \<lparr>tg_pair = pair, tg_kind =
        (case row_on_side (other_side rules) pair of
           None \<Rightarrow> TargetMerged newVersion
         | Some other \<Rightarrow>
             if \<not> differ_in_content equal (content_row newVersion) other then TargetOtherSide
             else TargetMerged newVersion)\<rparr>"

definition target_row_of ::
  "(json \<Rightarrow> json \<Rightarrow> bool) \<Rightarrow> row_pair \<Rightarrow> row_outcome \<Rightarrow> merged_row option \<Rightarrow> table_rules \<Rightarrow> target_row outcome" where
  "target_row_of equal pair decided newVersion rules =
     (case decided of
        RowAbsent \<Rightarrow> Inr \<lparr>tg_pair = pair, tg_kind = TargetAbsent\<rparr>
      | RowStructureSide \<Rightarrow> Inr \<lparr>tg_pair = pair, tg_kind = TargetStructureSide\<rparr>
      | RowOtherSide \<Rightarrow> Inr \<lparr>tg_pair = pair, tg_kind = TargetOtherSide\<rparr>
      | RowMove \<Rightarrow>
          (case newVersion of
             None \<Rightarrow> Inr \<lparr>tg_pair = pair, tg_kind = TargetAbsent\<rparr>
           | Some r \<Rightarrow> Inr (collapsed_row_of equal pair r rules))
      | RowMerge _ \<Rightarrow>
          (case newVersion of
             None \<Rightarrow> Inl (''Row '' @ (case either_version (rp_draft pair) (rp_head pair) of None \<Rightarrow> rp_identity pair
                 | Some r \<Rightarrow> row_id r) @ '' was not merged'')
           | Some r \<Rightarrow> Inr (collapsed_row_of equal pair r rules)))"

definition target_rows :: "row_tools \<Rightarrow> (json \<Rightarrow> json \<Rightarrow> bool) \<Rightarrow> read_table_assembly \<Rightarrow> target_row list outcome" where
  "target_rows tools equal a =
     try_bind (new_versions tools a) (\<lambda>newVersions.
       map_try (\<lambda>decided. let pair = cr_pair (de_row decided)
         in target_row_of equal pair (de_outcome decided) (map_of newVersions (rp_identity pair)) (ra_rules a))
         (ra_decided a))"

subsection \<open>The plan of a table\<close>

fun kind_of_target :: "target_kind \<Rightarrow> row_outcome_kind" where
  "kind_of_target TargetAbsent = AbsentKind"
| "kind_of_target TargetStructureSide = StructureSideKind"
| "kind_of_target TargetOtherSide = OtherSideKind"
| "kind_of_target (TargetMerged _) = MergeKind"

fun new_rows_of :: "target_kind \<Rightarrow> merged_row list" where
  "new_rows_of (TargetMerged r) = [r]"
| "new_rows_of _ = []"

definition link_changes_of :: "table_outcome \<Rightarrow> target_row list \<Rightarrow> table_rules \<Rightarrow> json row_link_changes" where
  "link_changes_of decided rows rules =
     (if decided \<noteq> TableMixed then no_link_changes
      else \<lparr>lk_removed = concat (map (\<lambda>r. version_ids_on (tg_pair r) (structure_side rules))
                (filter (\<lambda>r. tg_kind r \<noteq> TargetStructureSide) rows)),
            lk_added = concat (map (\<lambda>r. version_ids_on (tg_pair r) (other_side rules))
                (filter (\<lambda>r. tg_kind r = TargetOtherSide) rows)),
            lk_new = concat (map (\<lambda>r. new_rows_of (tg_kind r)) rows)\<rparr>)"

definition linked_version_of :: "table_pair \<Rightarrow> table_outcome \<Rightarrow> table_rules \<Rightarrow> table_version outcome" where
  "linked_version_of pair decided rules =
     version_on pair (if decided = TableOther then other_side rules else structure_side rules)"

definition takes_unrecorded_draft_structure :: "read_table_assembly \<Rightarrow> bool" where
  "takes_unrecorded_draft_structure a \<longleftrightarrow>
     structure_side (ra_rules a) = DraftSide \<and> ra_draftStructure a = None \<and> 0 < length (rows_moving a)"

definition unrecorded_structure_blockers :: "read_table_assembly \<Rightarrow> plan_blocker list" where
  "unrecorded_structure_blockers a =
     (if \<not> takes_unrecorded_draft_structure a then [] else [unrecorded_structure_change_of (re_pair (ra_table a))])"

definition commits_without_structure :: "read_table_assembly \<Rightarrow> bool" where
  "commits_without_structure a \<longleftrightarrow> ra_operation a = CommitOp \<and> structure_side (ra_rules a) = HeadSide"

definition has_input_leaf_at :: "schema_leaf list \<Rightarrow> json_pointer \<Rightarrow> bool" where
  "has_input_leaf_at leaves p =
     (case leaves_at leaves p of None \<Rightarrow> False | Some leaf \<Rightarrow> leaf_kind leaf \<noteq> ComputedLeaf)"

definition changed_fields_of_table :: "system_schema_ids \<Rightarrow> read_table \<Rightarrow> string list outcome" where
  "changed_fields_of_table ids t =
     try_bind (version_on (re_pair t) HeadSide) (\<lambda>head. try_bind (version_on (re_pair t) DraftSide) (\<lambda>draft.
       Inr (map pointer_string (filter (\<lambda>p.
           has_input_leaf_at (leaves_of ids (tv_schema head)) p \<or> has_input_leaf_at (leaves_of ids (tv_schema draft)) p)
         (st_changedPointers (re_structure t))))))"

definition deferred_values_of :: "catalogue_row \<Rightarrow> string list \<Rightarrow> string \<Rightarrow> deferred_values list" where
  "deferred_values_of row paths structureKey =
     (case cr_existence row of
        None \<Rightarrow> []
      | Some key \<Rightarrow>
          if length paths = 0 then [] else [\<lparr>dv_unitKey = key, dv_paths = paths, dv_structureKey = structureKey\<rparr>])"

definition deferred_values :: "system_schema_ids \<Rightarrow> read_table_assembly \<Rightarrow> deferred_values list outcome" where
  "deferred_values ids a =
     (case tk_structure (re_units (ra_table a)) of
        None \<Rightarrow> Inr []
      | Some structureKey \<Rightarrow>
          if \<not> commits_without_structure a then Inr []
          else try_bind (changed_fields_of_table ids (ra_table a)) (\<lambda>paths.
            Inr (concat (map (\<lambda>decided. deferred_values_of (de_row decided) paths structureKey) (rows_moving a)))))"

definition assemble_table ::
  "row_tools \<Rightarrow> system_schema_ids \<Rightarrow> (json \<Rightarrow> json \<Rightarrow> bool) \<Rightarrow> read_table_assembly \<Rightarrow> assembled_table outcome" where
  "assemble_table tools ids equal a =
     (let pair = re_pair (ra_table a); rules = ra_rules a
      in try_bind (target_rows tools equal a) (\<lambda>rows.
         let decided = table_outcome_of rules (map (\<lambda>r. (tg_pair r, kind_of_target (tg_kind r))) rows)
         in try_bind (linked_version_of pair decided rules) (\<lambda>linked.
            try_bind (deferred_values ids a) (\<lambda>deferred.
              Inr \<lparr>ab_plan =
                     \<lparr>pl_identity = tp_identity pair, pl_outcome = decided, pl_structureSide = structure_side rules,
                      pl_versionId = Some (tv_versionId linked), pl_editInPlace = table_edits_draft_in_place rules pair,
                      pl_relinkCandidate = is_relink_candidate rules, pl_rows = rows,
                      pl_links = link_changes_of decided rows rules\<rparr>,
                   ab_blockers = unrecorded_structure_blockers a, ab_deferred = deferred\<rparr>))))"

subsection \<open>The tables of the target\<close>

definition revision_id_of :: "assembly_source \<Rightarrow> revision_side \<Rightarrow> string" where
  "revision_id_of source side =
     (if side = HeadSide then as_headRevisionId source else as_draftRevisionId source)"

definition merge_target_of :: "assembly_source \<Rightarrow> table_pair \<Rightarrow> revision_side \<Rightarrow> merge_target outcome" where
  "merge_target_of source pair side =
     try_bind (version_on pair side) (\<lambda>v.
       Inr \<lparr>mt_revisionId = revision_id_of source side, mt_tableId = tv_id v, mt_schema = tv_schema v\<rparr>)"

definition assemble_read_table ::
  "row_tools \<Rightarrow> system_schema_ids \<Rightarrow> (json \<Rightarrow> json \<Rightarrow> bool) \<Rightarrow> assembly_source \<Rightarrow> applied_units \<Rightarrow> read_table \<Rightarrow>
   assembled_table outcome" where
  "assemble_read_table tools ids equal source choice t =
     (let rules = table_rules_of choice t
      in try_bind (merge_target_of source (re_pair t) (structure_side rules)) (\<lambda>target.
         try_bind (read_table_assembly t rules (ap_operation choice) target) (assemble_table tools ids equal)))"

definition one_sided_table_plan :: "applied_units \<Rightarrow> table_pair \<Rightarrow> string \<Rightarrow> table_plan" where
  "one_sided_table_plan choice pair structure =
     (let rules = rules_for_table choice \<lparr>ot_units = \<lparr>tk_structure = Some structure, tk_rows = []\<rparr>, ot_structureDiffers = True\<rparr>
      in \<lparr>pl_identity = tp_identity pair, pl_outcome = outcome_of_one_sided_table rules pair,
          pl_structureSide = structure_side rules,
          pl_versionId = map_option tv_versionId (version_on_side (structure_side rules) pair), pl_editInPlace = False,
          pl_relinkCandidate = False, pl_rows = [], pl_links = no_link_changes\<rparr>)"

definition assemble_one_sided_tables :: "assembly_source \<Rightarrow> applied_units \<Rightarrow> assembled_table list" where
  "assemble_one_sided_tables source choice =
     concat (map (\<lambda>pair.
         case table_unit_of (ch_lookup (as_catalogue source)) StructureUnit pair of
           None \<Rightarrow> []
         | Some structure \<Rightarrow>
             if is_on_both_sides pair then []
             else [\<lparr>ab_plan = one_sided_table_plan choice pair (ca_key structure), ab_blockers = [], ab_deferred = []\<rparr>])
       (sn_tables (as_snapshot source)))"

definition assemble_user_tables ::
  "row_tools \<Rightarrow> system_schema_ids \<Rightarrow> (json \<Rightarrow> json \<Rightarrow> bool) \<Rightarrow> assembly_source \<Rightarrow> applied_units \<Rightarrow>
   assembled_table list outcome" where
  "assemble_user_tables tools ids equal source choice =
     try_bind (read_tables_of source) (\<lambda>tables.
     try_bind (map_try (assemble_read_table tools ids equal source choice) tables) (\<lambda>assembled.
       Inr (assembled @ assemble_one_sided_tables source choice)))"

end
