(* ===== verification/System_Targets.thy ===== *)
theory System_Targets
  imports Target_Assembly
begin

section \<open>The system tables of a target\<close>

text \<open>
  \<^verbatim>\<open>partial-changes/assembly/system-table-targets.ts\<close> and \<^verbatim>\<open>system-target-assembler.ts\<close>: which rows of
  the system tables a target holds, and the plan of each. The rows of a system table hold JSON, migrations or views,
  and only those of views are ever rewritten, so the new rows of every plan are rows of views. \<open>vhash\<close> is
  the hash of a views document and \<open>vequal\<close> is \<open>deepEqual\<close> on views.
\<close>

datatype system_table = SchemaTable | MigrationTable | ViewsTable | SharedSchemasTable

fun system_table_id :: "system_table \<Rightarrow> string" where
  "system_table_id SchemaTable = ''revisium_schema_table''"
| "system_table_id MigrationTable = ''revisium_migration_table''"
| "system_table_id SharedSchemasTable = ''revisium_shared_schemas_table''"
| "system_table_id ViewsTable = ''revisium_views_table''"

record views_of_table =
  vt_pair :: table_pair
  vt_tableId :: string
  vt_tableSide :: revision_side
  vt_viewsSide :: revision_side
  vt_source :: "table_views row"

text \<open>The rows of a system table and its versions are one object in the code, \<open>rows\<close>.\<close>

record 'd system_table_target =
  yt_tableId :: system_table
  yt_rows :: "'d revision_rows"
  yt_stored :: system_table_versions
  yt_linkSide :: revision_side
  yt_keptWhenEmpty :: bool
  yt_editInPlace :: bool
  yt_versions :: "'d row list"
  yt_rewrites :: "views_of_table list"
  yt_ownerKinds :: "unit_kind list"

fun stored_on :: "revision_side \<Rightarrow> system_table_versions \<Rightarrow> stored_version option" where
  "stored_on HeadSide stored = sv_head stored"
| "stored_on DraftSide stored = sv_draft stored"

definition version_ids_of :: "'d row list \<Rightarrow> string list" where
  "version_ids_of rows = uniq (map row_versionId rows)"

definition distinct_versions :: "'d row list \<Rightarrow> 'd row list" where
  "distinct_versions rows = jvalues (jmap_of (map (\<lambda>row. (row_versionId row, row)) rows))"

subsection \<open>Outcomes\<close>

definition holds_exactly :: "'d row list \<Rightarrow> 'd row list \<Rightarrow> bool" where
  "holds_exactly rows versions \<longleftrightarrow>
     length rows = length (version_ids_of versions) \<and>
     list_all (\<lambda>row. row_versionId row \<in> set (version_ids_of versions)) rows"

definition exists_on_either_side :: "system_table_versions \<Rightarrow> bool" where
  "exists_on_either_side stored \<longleftrightarrow> sv_head stored \<noteq> None \<or> sv_draft stored \<noteq> None"

definition system_table_outcome_of :: "'d system_table_target \<Rightarrow> 'd row list \<Rightarrow> bool \<Rightarrow> table_outcome" where
  "system_table_outcome_of target versions hasNewRows =
     (let otherSide = opposite_of (yt_linkSide target);
          onBothSides = stored_on otherSide (yt_stored target) \<noteq> None
      in if \<not> onBothSides \<and> \<not> yt_keptWhenEmpty target \<and> length versions = 0 \<and> \<not> hasNewRows then TableAbsent
         else if hasNewRows then TableMixed
         else if holds_exactly (rows_on (yt_linkSide target) (yt_rows target)) versions then TableBase
         else if onBothSides \<and> holds_exactly (rows_on otherSide (yt_rows target)) versions then TableOther
         else TableMixed)"

subsection \<open>Targets\<close>

definition owners_by_version_id :: "catalogue_unit list \<Rightarrow> unit_kind \<Rightarrow> (string, string) jmap" where
  "owners_by_version_id units kind =
     jmap_of (concat (map (\<lambda>u. map (\<lambda>row. (system_row_version row, ca_key u)) (ca_systemRows u))
       (filter (\<lambda>u. cu_kind (ca_unit u) = kind) units)))"

definition side_taken_for :: "applied_units \<Rightarrow> string option \<Rightarrow> revision_side" where
  "side_taken_for rules owner =
     (case owner of None \<Rightarrow> unitless_side rules | Some key \<Rightarrow> side_taken_by rules key)"

definition link_side_of :: "applied_units \<Rightarrow> system_table_versions \<Rightarrow> revision_side" where
  "link_side_of rules stored =
     (if stored_on (base_side rules) stored = None then opposite_of (base_side rules) else base_side rules)"

text \<open>\<open>linkOf\<close> is spread into each target, with its three fields.\<close>

definition target_linking ::
  "applied_units \<Rightarrow> system_table \<Rightarrow> 'd revision_rows \<Rightarrow> system_table_versions \<Rightarrow> 'd row list \<Rightarrow> views_of_table list \<Rightarrow>
   unit_kind list \<Rightarrow> 'd system_table_target" where
  "target_linking rules tableId rows stored versions rewrites ownerKinds =
     (let linkSide = link_side_of rules stored
      in \<lparr>yt_tableId = tableId, yt_rows = rows, yt_stored = stored, yt_linkSide = linkSide,
          yt_keptWhenEmpty = takes_every_table_of rules linkSide,
          yt_editInPlace = edits_draft_in_place rules linkSide (map_option sr_readonly (sv_draft stored)),
          yt_versions = versions, yt_rewrites = rewrites, yt_ownerKinds = ownerKinds\<rparr>)"

definition rows_following_owners ::
  "assembly_source \<Rightarrow> applied_units \<Rightarrow> system_table \<Rightarrow> 'd revision_rows \<Rightarrow> system_table_versions \<Rightarrow> unit_kind \<Rightarrow>
   'd system_table_target" where
  "rows_following_owners source rules tableId rows stored kind =
     (let owners = owners_by_version_id (ch_units (as_catalogue source)) kind;
          sideOf = (\<lambda>row. side_taken_for rules (map_of owners (row_versionId row)))
      in target_linking rules tableId rows stored
           (distinct_versions (filter (\<lambda>row. sideOf row = HeadSide) (rr_head rows) @
              filter (\<lambda>row. sideOf row = DraftSide) (rr_draft rows)))
           [] [kind])"

definition views_side_of :: "assembly_source \<Rightarrow> applied_units \<Rightarrow> table_pair \<Rightarrow> revision_side \<Rightarrow> revision_side" where
  "views_side_of source rules pair tableSide =
     (case table_unit_of (ch_lookup (as_catalogue source)) ViewsUnit pair of
        None \<Rightarrow> tableSide
      | Some viewsUnit \<Rightarrow> side_taken_by rules (ca_key viewsUnit))"

fun views_row_on :: "revision_side \<Rightarrow> table_views sided_rows \<Rightarrow> table_views row option" where
  "views_row_on HeadSide rows = si_head rows"
| "views_row_on DraftSide rows = si_draft rows"

definition views_of_pair :: "assembly_source \<Rightarrow> applied_units \<Rightarrow> table_pair \<Rightarrow> views_of_table list" where
  "views_of_pair source rules pair =
     (let tableSide = side_taken_for rules
            (map_option ca_key (table_unit_of (ch_lookup (as_catalogue source)) StructureUnit pair));
          viewsSide = views_side_of source rules pair tableSide
      in case (version_on_side tableSide pair, views_row_on viewsSide (views_rows_of (ch_tables (as_catalogue source)) pair)) of
           (Some t, Some views) \<Rightarrow>
             [\<lparr>vt_pair = pair, vt_tableId = tv_id t, vt_tableSide = tableSide, vt_viewsSide = viewsSide, vt_source = views\<rparr>]
         | _ \<Rightarrow> [])"

definition table_views_of :: "assembly_source \<Rightarrow> applied_units \<Rightarrow> views_of_table list" where
  "table_views_of source rules = concat (map (views_of_pair source rules) (sn_tables (as_snapshot source)))"

definition follows_structure :: "views_of_table \<Rightarrow> bool" where
  "follows_structure views \<longleftrightarrow> vt_viewsSide views = vt_tableSide views"

definition views_target ::
  "assembly_source \<Rightarrow> applied_units \<Rightarrow> table_views revision_rows \<Rightarrow> system_table_versions \<Rightarrow>
   table_views system_table_target" where
  "views_target source rules rows stored =
     (let views = table_views_of source rules
      in target_linking rules ViewsTable rows stored (map vt_source (filter follows_structure views))
           (filter (\<lambda>v. \<not> follows_structure v) views) [StructureUnit, ViewsUnit])"

definition ledger_target :: "assembly_source \<Rightarrow> applied_units \<Rightarrow> migration system_table_target" where
  "ledger_target source rules =
     rows_following_owners source rules MigrationTable (sy_migrations (sn_systemRows (as_snapshot source)))
       (sm_migrations (as_systemVersions source)) StructureUnit"

definition target_ledger_rows_of :: "assembly_source \<Rightarrow> applied_units \<Rightarrow> migration row list" where
  "target_ledger_rows_of source rules = yt_versions (ledger_target source rules)"

subsection \<open>Plans\<close>

record system_table_plan =
  yp_tableId :: system_table
  yp_headVersionId :: "string option"
  yp_draftVersionId :: "string option"
  yp_outcome :: table_outcome
  yp_linkSide :: revision_side
  yp_versionId :: "string option"
  yp_editInPlace :: bool
  yp_relinkCandidate :: bool
  yp_links :: "table_views row_link_changes"

record target_views = views_of_table +
  vt_document :: table_views

record 'd desired_rows =
  dr_versions :: "'d row list"
  dr_newRows :: "table_views new_row_version list"

definition document_of :: "'st toolkit \<Rightarrow> assembly_source \<Rightarrow> views_of_table \<Rightarrow> table_views outcome" where
  "document_of tk source views =
     (let document = row_data (vt_source views)
      in case tp_head (vt_pair views) of
           None \<Rightarrow> Inr document
         | Some head \<Rightarrow>
             if vt_viewsSide views = vt_tableSide views \<or> vt_viewsSide views = DraftSide then Inr document
             else try_bind (structure_of (ch_tables (as_catalogue source)) (vt_pair views)) (\<lambda>structure.
               Inr (case migrate_head_views tk document (tv_schema head) (st_pendingHistory structure) of
                 None \<Rightarrow> document
               | Some migrated \<Rightarrow> migrated)))"

definition rewritten_views_of ::
  "'st toolkit \<Rightarrow> (table_views \<Rightarrow> string) \<Rightarrow> (table_views \<Rightarrow> table_views \<Rightarrow> bool) \<Rightarrow> assembly_source \<Rightarrow> views_of_table \<Rightarrow>
   table_views desired_rows outcome" where
  "rewritten_views_of tk vhash vequal source rewrite =
     try_bind (document_of tk source rewrite) (\<lambda>document.
       let r = vt_source rewrite
       in Inr (if row_id r = vt_tableId rewrite \<and> vequal (row_data r) document
          then \<lparr>dr_versions = [r], dr_newRows = []\<rparr>
          else \<lparr>dr_versions = [],
                dr_newRows =
                  [\<lparr>nr_createdId = row_createdId r, nr_createdAt = row_createdAt r, nr_id = vt_tableId rewrite,
                    nr_data = document, nr_hash = vhash document, nr_schemaHash = row_schemaHash r,
                    nr_publishedAt = row_publishedAt r, nr_meta = row_meta r\<rparr>]\<rparr>))"

definition desired_views_of ::
  "'st toolkit \<Rightarrow> (table_views \<Rightarrow> string) \<Rightarrow> (table_views \<Rightarrow> table_views \<Rightarrow> bool) \<Rightarrow> assembly_source \<Rightarrow>
   table_views system_table_target \<Rightarrow> table_views desired_rows outcome" where
  "desired_views_of tk vhash vequal source target =
     try_bind (map_try (rewritten_views_of tk vhash vequal source) (yt_rewrites target)) (\<lambda>rewritten.
       Inr \<lparr>dr_versions = yt_versions target @ concat (map dr_versions rewritten),
            dr_newRows = concat (map dr_newRows rewritten)\<rparr>)"

text \<open>Tables that nothing rewrites.\<close>

definition desired_rows_of :: "'d system_table_target \<Rightarrow> 'd desired_rows" where
  "desired_rows_of target = \<lparr>dr_versions = yt_versions target, dr_newRows = []\<rparr>"

definition system_link_changes_of ::
  "table_outcome \<Rightarrow> 'd row list \<Rightarrow> 'd desired_rows \<Rightarrow> table_views row_link_changes" where
  "system_link_changes_of decided linked desired =
     (if decided \<noteq> TableMixed then no_link_changes
      else let linkedIds = version_ids_of linked; desiredIds = version_ids_of (dr_versions desired)
           in \<lparr>lk_removed = filter (\<lambda>i. i \<notin> set desiredIds) linkedIds,
               lk_added = filter (\<lambda>i. i \<notin> set linkedIds) desiredIds, lk_new = dr_newRows desired\<rparr>)"

definition linked_version_id_of :: "system_table_versions \<Rightarrow> table_outcome \<Rightarrow> revision_side \<Rightarrow> string option" where
  "linked_version_id_of stored decided linkSide =
     (if decided = TableAbsent then None
      else map_option sr_versionId (stored_on (if decided = TableOther then opposite_of linkSide else linkSide) stored))"

definition keeps_no_units_of :: "assembly_source \<Rightarrow> applied_units \<Rightarrow> unit_kind list \<Rightarrow> bool" where
  "keeps_no_units_of source rules kinds \<longleftrightarrow>
     list_all (\<lambda>u. is_applied rules (ca_key u))
       (filter (\<lambda>u. cu_kind (ca_unit u) \<in> set kinds) (ch_units (as_catalogue source)))"

definition system_plan_of ::
  "assembly_source \<Rightarrow> applied_units \<Rightarrow> 'd system_table_target \<Rightarrow> 'd desired_rows \<Rightarrow> system_table_plan" where
  "system_plan_of source rules target desired =
     (let decided = system_table_outcome_of target (dr_versions desired) (0 < length (dr_newRows desired))
      in \<lparr>yp_tableId = yt_tableId target,
          yp_headVersionId = map_option sr_versionId (sv_head (yt_stored target)),
          yp_draftVersionId = map_option sr_versionId (sv_draft (yt_stored target)),
          yp_outcome = decided, yp_linkSide = yt_linkSide target,
          yp_versionId = linked_version_id_of (yt_stored target) decided (yt_linkSide target),
          yp_editInPlace = yt_editInPlace target,
          yp_relinkCandidate = keeps_no_units_of source rules (yt_ownerKinds target),
          yp_links = system_link_changes_of decided (rows_on (yt_linkSide target) (yt_rows target)) desired\<rparr>)"

text \<open>The plan of a target whose table exists, of rows that nothing rewrites.\<close>

definition plan_if_exists ::
  "assembly_source \<Rightarrow> applied_units \<Rightarrow> 'd system_table_target \<Rightarrow> system_table_plan list" where
  "plan_if_exists source rules target =
     (if exists_on_either_side (yt_stored target) then [system_plan_of source rules target (desired_rows_of target)] else [])"

definition plan_system_tables ::
  "'st toolkit \<Rightarrow> (table_views \<Rightarrow> string) \<Rightarrow> (table_views \<Rightarrow> table_views \<Rightarrow> bool) \<Rightarrow> assembly_source \<Rightarrow> applied_units \<Rightarrow>
   system_table_plan list outcome" where
  "plan_system_tables tk vhash vequal source rules =
     (let rows = sn_systemRows (as_snapshot source); stored = as_systemVersions source;
          views = views_target source rules (sy_views rows) (sm_views stored)
      in try_bind (if exists_on_either_side (sm_views stored)
            then try_bind (desired_views_of tk vhash vequal source views) (\<lambda>desired.
              Inr [system_plan_of source rules views desired])
            else Inr []) (\<lambda>viewsPlan.
         Inr (plan_if_exists source rules
                (rows_following_owners source rules SchemaTable (sy_schemas rows) (sm_schemas stored) StructureUnit) @
              plan_if_exists source rules (ledger_target source rules) @ viewsPlan @
              plan_if_exists source rules
                (rows_following_owners source rules SharedSchemasTable (sy_sharedSchemas rows) (sm_sharedSchemas stored)
                   SharedSchemaUnit))))"

definition target_views_of ::
  "'st toolkit \<Rightarrow> assembly_source \<Rightarrow> applied_units \<Rightarrow> target_views list outcome" where
  "target_views_of tk source rules =
     map_try (\<lambda>views. try_bind (document_of tk source views) (\<lambda>document.
         Inr (views_of_table.extend views (target_views.fields document))))
       (table_views_of source rules)"

subsection \<open>What the plans lead to\<close>

lemma set_version_ids [simp]: "set (version_ids_of rows) = row_versionId ` set rows"
  by (simp add: version_ids_of_def)

lemma distinct_version_ids [simp]: "distinct (version_ids_of rows)"
  by (simp add: version_ids_of_def)

lemma holds_exactly_iff:
  assumes "distinct (map row_versionId rows)"
  shows "holds_exactly rows versions \<longleftrightarrow> row_versionId ` set rows = row_versionId ` set versions"
proof
  assume "holds_exactly rows versions"
  then have same: "card (row_versionId ` set rows) = card (set (version_ids_of versions))"
    "row_versionId ` set rows \<subseteq> set (version_ids_of versions)"
    using distinct_card [OF assms] distinct_card [OF distinct_version_ids [of versions]]
    by (auto simp: holds_exactly_def list_all_iff)
  have "row_versionId ` set rows = set (version_ids_of versions)"
    by (rule card_subset_eq [OF _ same(2,1)]) simp
  then show "row_versionId ` set rows = row_versionId ` set versions" by simp
next
  assume eq: "row_versionId ` set rows = row_versionId ` set versions"
  have "length rows = card (row_versionId ` set rows)" using distinct_card [OF assms] by simp
  also have "\<dots> = length (version_ids_of versions)"
    unfolding eq using distinct_card [OF distinct_version_ids [of versions]] by simp
  finally show "holds_exactly rows versions" using eq by (auto simp: holds_exactly_def list_all_iff)
qed

text \<open>
  Carrying a plan out: \<open>held\<close> gives the version ids of the rows that a stored version of the table holds; the links of
  the plan are taken off and put on the version it names, or on an empty table when it names none.
\<close>

definition system_versions_after :: "(string \<Rightarrow> string set) \<Rightarrow> system_table_plan \<Rightarrow> string set" where
  "system_versions_after held plan =
     (case yp_versionId plan of None \<Rightarrow> {} | Some i \<Rightarrow> held i) - set (lk_removed (yp_links plan)) \<union>
       set (lk_added (yp_links plan))"

lemma system_table_outcome_cases:
  assumes "system_table_outcome_of target versions new = decided"
  obtains "decided = TableAbsent" "versions = []" "\<not> new" | "decided = TableMixed"
  | "decided = TableBase" "\<not> new" "holds_exactly (rows_on (yt_linkSide target) (yt_rows target)) versions"
  | "decided = TableOther" "\<not> new" "holds_exactly (rows_on (opposite_of (yt_linkSide target)) (yt_rows target)) versions"
  using assms by (auto simp: system_table_outcome_of_def Let_def split: if_splits)

subsection \<open>Properties\<close>

text \<open>
  Claim C16: the plan of a system table leads to the rows wanted of it. Removing and adding the links it says on the
  stored version that it names gives exactly the wanted versions of rows, and the
  rows it writes are those that were rewritten: also when the table is dropped or a version is taken as it is. The
  stored version of a side is taken to hold the rows of that side, a side without one to have no rows,
  and the rows of a side to have ids of their own.
\<close>

theorem system_plan_leads_to_desired_rows:
  assumes "distinct (map row_versionId (rr_head (yt_rows target)))" "distinct (map row_versionId (rr_draft (yt_rows target)))"
    "\<And>side v. stored_on side (yt_stored target) = Some v \<Longrightarrow>
       held (sr_versionId v) = row_versionId ` set (rows_on side (yt_rows target))"
    "\<And>side. stored_on side (yt_stored target) = None \<Longrightarrow> rows_on side (yt_rows target) = []"
  shows "system_versions_after held (system_plan_of source rules target desired) =
      row_versionId ` set (dr_versions desired) \<and>
    lk_new (yp_links (system_plan_of source rules target desired)) = dr_newRows desired"
proof -
  let ?decided = "system_table_outcome_of target (dr_versions desired) (0 < length (dr_newRows desired))"
  let ?side = "\<lambda>decided. if decided = TableOther then opposite_of (yt_linkSide target) else yt_linkSide target"
  have ids: "distinct (map row_versionId (rows_on side (yt_rows target)))" for side using assms(1,2) by (cases side) auto
  have plan: "yp_versionId (system_plan_of source rules target desired) =
      linked_version_id_of (yt_stored target) ?decided (yt_linkSide target)"
    "yp_links (system_plan_of source rules target desired) =
       system_link_changes_of ?decided (rows_on (yt_linkSide target) (yt_rows target)) desired"
    by (simp_all add: system_plan_of_def Let_def)
  have held: "(case linked_version_id_of (yt_stored target) decided (yt_linkSide target) of None \<Rightarrow> {} | Some i \<Rightarrow> held i) =
      (if decided = TableAbsent then {} else row_versionId ` set (rows_on (?side decided) (yt_rows target)))" for decided
    using assms(3) [of "?side decided"] assms(4) [of "?side decided"]
    by (cases "stored_on (?side decided) (yt_stored target)") (simp_all add: linked_version_id_of_def)
  show ?thesis
    by (rule system_table_outcome_cases [OF refl, of target "dr_versions desired" "0 < length (dr_newRows desired)"])
      (auto simp: system_versions_after_def plan held system_link_changes_of_def no_link_changes_def holds_exactly_iff [OF ids])
qed

text \<open>A ledger whose second migration the Draft added, and a target that replaces both by a third.\<close>

definition example_ledger_target :: "migration system_table_target" where
  "example_ledger_target =
     target_linking \<lparr>ap_operation = CommitOp, ap_applied = [], ap_wholeDraft = False\<rparr> MigrationTable
       \<lparr>rr_head = [example_migration_row ''a'' (RenameMigration 0 ''1'' ''users'' ''people'')],
        rr_draft = [example_migration_row ''a'' (RenameMigration 0 ''1'' ''users'' ''people''),
          example_migration_row ''b'' (RemoveMigration 2 ''3'' ''people'')]\<rparr>
       \<lparr>sv_head = Some \<lparr>sr_versionId = ''h'', sr_readonly = True\<rparr>, sv_draft = Some \<lparr>sr_versionId = ''d'', sr_readonly = False\<rparr>\<rparr>
       [example_migration_row ''b'' (RemoveMigration 2 ''3'' ''people'')] [] [StructureUnit]"

definition example_empty_source :: assembly_source where
  "example_empty_source =
     \<lparr>as_headRevisionId = ''H'', as_draftRevisionId = ''D'',
      as_systemVersions = (let none = \<lparr>sv_head = None, sv_draft = None\<rparr>
        in \<lparr>sm_schemas = none, sm_migrations = none, sm_views = none, sm_sharedSchemas = none\<rparr>),
      as_snapshot = example_snapshot, as_tables = [],
      as_catalogue = \<lparr>ch_units = [], ch_rows = [], ch_lookup = catalogue_lookup [] [],
        ch_tables = catalogue_tables example_snapshot [], ch_ledgerInconsistencies = [], ch_refusedTables = []\<rparr>\<rparr>"

theorem system_plan_leads_to_desired_rows_witness:
  "system_versions_after ((\<lambda>_. {})(''h'' := {''a''}, ''d'' := {''a'', ''b''})) (system_plan_of example_empty_source
     \<lparr>ap_operation = CommitOp, ap_applied = [], ap_wholeDraft = False\<rparr> example_ledger_target
     (desired_rows_of example_ledger_target)) = {''b''} \<and>
   lk_removed (yp_links (system_plan_of example_empty_source
     \<lparr>ap_operation = CommitOp, ap_applied = [], ap_wholeDraft = False\<rparr> example_ledger_target
     (desired_rows_of example_ledger_target))) = [''a'']"
proof -
  have d: "distinct (map row_versionId (rr_head (yt_rows example_ledger_target)))"
    "distinct (map row_versionId (rr_draft (yt_rows example_ledger_target)))" by code_simp+
  have versions: "row_versionId ` set (dr_versions (desired_rows_of example_ledger_target)) = {''b''}"
    by (simp add: desired_rows_of_def example_ledger_target_def target_linking_def Let_def example_migration_row_def)
  let ?held = "(\<lambda>_. {})(''h'' := {''a''}, ''d'' := {''a'', ''b''})"
  have stored: "?held (sr_versionId v) = row_versionId ` set (rows_on side (yt_rows example_ledger_target))"
    if "stored_on side (yt_stored example_ledger_target) = Some v" for side v
    using that by (cases side) (auto simp: example_ledger_target_def target_linking_def Let_def example_migration_row_def)
  have none: "stored_on side (yt_stored example_ledger_target) \<noteq> None" for side
    by (cases side) (simp_all add: example_ledger_target_def target_linking_def Let_def)
  have "lk_removed (yp_links (system_plan_of example_empty_source
     \<lparr>ap_operation = CommitOp, ap_applied = [], ap_wholeDraft = False\<rparr> example_ledger_target
     (desired_rows_of example_ledger_target))) = [''a'']" by code_simp
  with system_plan_leads_to_desired_rows [OF d, of ?held example_empty_source
      "\<lparr>ap_operation = CommitOp, ap_applied = [], ap_wholeDraft = False\<rparr>" "desired_rows_of example_ledger_target"]
    versions stored none
  show ?thesis by simp
qed

end
