(* ===== verification/Target_Tables.thy ===== *)
theory Target_Tables
  imports System_Targets
begin

section \<open>The tables of an assembled target\<close>

text \<open>
  \<^verbatim>\<open>partial-changes/closure/target-tables.ts\<close>, \<^verbatim>\<open>check-context.ts\<close> and \<^verbatim>\<open>findings.ts\<close>: the target of
  an operation as its checks see it. The classes \<open>TargetTable\<close>, \<open>TargetTables\<close> and \<open>CheckContext\<close> are records of
  what their constructors compute. A check compares rows of the catalogue, and tables of the target, by identity of
  the objects: the model compares the values, in which the identities of rows and tables are part.
\<close>

subsection \<open>Assembled targets\<close>

record renumbered_migration =
  rm_source :: ledger_entry
  rm_row :: "migration new_row_version"

type_synonym ledger_plan = "renumbered_migration list"

record assembled_target =
  at_tables :: "table_plan list"
  at_systemTables :: "system_table_plan list"
  at_views :: "target_views list"
  at_ledger :: ledger_plan
  at_blockers :: "plan_blocker list"
  at_deferred :: "deferred_values list"

definition assemble_target ::
  "row_tools \<Rightarrow> 'st toolkit \<Rightarrow> system_schema_ids \<Rightarrow> (json \<Rightarrow> json \<Rightarrow> bool) \<Rightarrow> (table_views \<Rightarrow> string) \<Rightarrow>
   (table_views \<Rightarrow> table_views \<Rightarrow> bool) \<Rightarrow> (assembly_source \<Rightarrow> applied_units \<Rightarrow> ledger_plan outcome) \<Rightarrow>
   assembly_source \<Rightarrow> applied_units \<Rightarrow> assembled_target outcome" where
  "assemble_target tools tk ids equal vhash vequal planLedger source rules =
     try_bind (assemble_user_tables tools ids equal source rules) (\<lambda>tables.
     try_bind (plan_system_tables tk vhash vequal source rules) (\<lambda>systemTables.
     try_bind (target_views_of tk source rules) (\<lambda>views.
     try_bind (planLedger source rules) (\<lambda>ledger.
       Inr \<lparr>at_tables = map ab_plan tables, at_systemTables = systemTables, at_views = views, at_ledger = ledger,
            at_blockers = concat (map ab_blockers tables), at_deferred = concat (map ab_deferred tables)\<rparr>))))"

subsection \<open>Findings\<close>

datatype finding = Requires string reason | Blocks plan_blocker

record check_source = assembly_source +
  ck_headSchema :: head_schema_check

record site =
  ts_tableId :: string
  ts_rowId :: "string option"
  ts_path :: "string option"

definition site_of_reason :: "reason \<Rightarrow> site" where
  "site_of_reason why = \<lparr>ts_tableId = re_tableId why, ts_rowId = re_rowId why, ts_path = re_path why\<rparr>"

definition refused_by :: "refused_table \<Rightarrow> finding" where
  "refused_by refusal = Blocks (refusal_blocker refusal)"

definition dangling_in_source :: "string \<Rightarrow> site \<Rightarrow> string option \<Rightarrow> plan_blocker" where
  "dangling_in_source because site unitKey =
     (blocker_at DanglingInSource (Some (ts_tableId site)) (ts_rowId site) (ts_path site)
        (''No unit can restore consistency: '' @ because))\<lparr>pb_unitKey := unitKey\<rparr>"

definition requiring_or_dangling :: "string option \<Rightarrow> reason \<Rightarrow> string option \<Rightarrow> finding" where
  "requiring_or_dangling unitKey why culprit =
     (case unitKey of
        Some key \<Rightarrow> Requires key why
      | None \<Rightarrow> Blocks (dangling_in_source (re_because why) (site_of_reason why) culprit))"

subsection \<open>A table of the target\<close>

record held_row =
  hl_row :: catalogue_row
  hl_id :: string
  hl_data :: json

record target_table =
  tt_pair :: table_pair
  tt_structureSide :: revision_side
  tt_heldRows :: "held_row list"
  tt_loaded :: "catalogue_row list"
  tt_changedPointers :: "json_pointer list"
  tt_baseSide :: revision_side
  tt_refusal :: "refused_table option"
  tt_version :: table_version
  tt_holdersById :: "(string, held_row list) jmap"
  tt_byBaseId :: "(string, catalogue_row) jmap"
  tt_byOtherId :: "(string, catalogue_row) jmap"

definition catalogue_rows_by_id :: "catalogue_row list \<Rightarrow> revision_side \<Rightarrow> (string, catalogue_row) jmap" where
  "catalogue_rows_by_id rows side =
     fold (\<lambda>row byId. case row_on_side side (cr_pair row) of
         None \<Rightarrow> byId
       | Some version \<Rightarrow> AList.update (row_id version) row byId) rows []"

definition file_under :: "('x \<Rightarrow> string) \<Rightarrow> 'x list \<Rightarrow> (string, 'x list) jmap" where
  "file_under key xs =
     fold (\<lambda>x m. AList.update (key x) ((case map_of m (key x) of None \<Rightarrow> [] | Some held \<Rightarrow> held) @ [x]) m) xs []"

definition target_table ::
  "table_pair \<Rightarrow> revision_side \<Rightarrow> held_row list \<Rightarrow> catalogue_row list \<Rightarrow> json_pointer list \<Rightarrow> revision_side \<Rightarrow>
   refused_table option \<Rightarrow> target_table outcome" where
  "target_table pair structureSide heldRows loaded changedPointers baseSide refusal =
     try_bind (version_on pair structureSide) (\<lambda>version.
       Inr \<lparr>tt_pair = pair, tt_structureSide = structureSide, tt_heldRows = heldRows, tt_loaded = loaded,
            tt_changedPointers = changedPointers, tt_baseSide = baseSide, tt_refusal = refusal, tt_version = version,
            tt_holdersById = file_under hl_id heldRows, tt_byBaseId = catalogue_rows_by_id loaded baseSide,
            tt_byOtherId = catalogue_rows_by_id loaded (opposite_of baseSide)\<rparr>)"

definition tt_tableId :: "target_table \<Rightarrow> string" where
  "tt_tableId t = tv_id (tt_version t)"

definition tt_loadedIdentities :: "target_table \<Rightarrow> string list" where
  "tt_loadedIdentities t = map (\<lambda>row. rp_identity (cr_pair row)) (tt_loaded t)"

definition holds :: "target_table \<Rightarrow> string \<Rightarrow> bool" where
  "holds t i \<longleftrightarrow> map_of (tt_holdersById t) i \<noteq> None"

definition touches :: "target_table \<Rightarrow> string \<Rightarrow> bool" where
  "touches t i \<longleftrightarrow> map_of (tt_byBaseId t) i \<noteq> None \<or> map_of (tt_byOtherId t) i \<noteq> None"

definition touched_ids :: "target_table \<Rightarrow> string list" where
  "touched_ids t = uniq (jkeys (tt_byBaseId t) @ jkeys (tt_byOtherId t))"

definition keeps_base_id :: "target_table \<Rightarrow> bool" where
  "keeps_base_id t \<longleftrightarrow> map_option tv_id (version_on_side (tt_baseSide t) (tt_pair t)) = Some (tt_tableId t)"

definition takes_other_side_structure :: "target_table \<Rightarrow> bool" where
  "takes_other_side_structure t \<longleftrightarrow> tt_structureSide t \<noteq> tt_baseSide t"

definition is_changed_field :: "target_table \<Rightarrow> json_pointer \<Rightarrow> bool" where
  "is_changed_field t p \<longleftrightarrow> list_ex (\<lambda>changed. is_at_or_above changed p) (tt_changedPointers t)"

definition collisions :: "target_table \<Rightarrow> (string \<times> held_row list) list" where
  "collisions t = filter (\<lambda>(i, holders). 1 < length holders) (tt_holdersById t)"

definition id_unit_of :: "catalogue_row \<Rightarrow> string option" where
  "id_unit_of row =
     (case map_of (cr_columns row) IdColumn of Some key \<Rightarrow> Some key | None \<Rightarrow> cr_existence row)"

definition lost_ids :: "target_table \<Rightarrow> string list" where
  "lost_ids t = filter (\<lambda>i. \<not> holds t i) (jkeys (tt_byBaseId t))"

definition losable_ids :: "target_table \<Rightarrow> string list" where
  "losable_ids t = map fst (filter (\<lambda>(i, row). id_unit_of row \<noteq> None) (tt_byBaseId t))"

definition versions_brought_by :: "target_table \<Rightarrow> string \<Rightarrow> catalogue_row \<Rightarrow> json row list" where
  "versions_brought_by t unitKey row =
     concat (map (\<lambda>candidate. case row_on_side (opposite_of (tt_baseSide t)) (cr_pair candidate) of
         None \<Rightarrow> [] | Some version \<Rightarrow> [version])
       (filter (\<lambda>candidate. candidate = row \<or> cr_existence candidate = Some unitKey) (tt_loaded t)))"

definition provider_of :: "target_table \<Rightarrow> string \<Rightarrow> string option" where
  "provider_of t i =
     (case map_of (tt_byOtherId t) i of
        None \<Rightarrow> None
      | Some row \<Rightarrow>
          if map_option row_id (row_on_side (tt_baseSide t) (cr_pair row)) = Some i then None else id_unit_of row)"

definition unit_losing :: "target_table \<Rightarrow> string \<Rightarrow> string option" where
  "unit_losing t i = Option.bind (map_of (tt_byBaseId t) i) id_unit_of"

definition is_brought_wholesale :: "target_table \<Rightarrow> bool" where
  "is_brought_wholesale t \<longleftrightarrow> version_on_side (tt_baseSide t) (tt_pair t) = None"

subsection \<open>All tables of the target\<close>

record target_tables =
  ta_source :: check_source
  ta_rules :: applied_units
  ta_all :: "target_table list"
  ta_byTableId :: "(string, target_table) jmap"
  ta_identities :: "string list"
  ta_headPairsById :: "(string, table_pair) jmap"
  ta_draftPairsById :: "(string, table_pair) jmap"

fun target_version_of :: "target_row \<Rightarrow> revision_side \<Rightarrow> (string \<times> json) option outcome" where
  "target_version_of row structureSide =
     (case tg_kind row of
        TargetAbsent \<Rightarrow> Inr None
      | TargetStructureSide \<Rightarrow>
          try_bind (row_version_on (tg_pair row) structureSide) (\<lambda>v. Inr (Some (row_id v, row_data v)))
      | TargetOtherSide \<Rightarrow>
          try_bind (row_version_on (tg_pair row) (opposite_of structureSide)) (\<lambda>v. Inr (Some (row_id v, row_data v)))
      | TargetMerged merged \<Rightarrow> Inr (Some (nr_id merged, nr_data merged)))"

definition held_row_of :: "(string, catalogue_row) jmap \<Rightarrow> revision_side \<Rightarrow> target_row \<Rightarrow> held_row list outcome" where
  "held_row_of rows structureSide targetRow =
     try_bind (target_version_of targetRow structureSide) (\<lambda>version.
       Inr (case (map_of rows (rp_identity (tg_pair targetRow)), version) of
         (Some row, Some (i, data)) \<Rightarrow> [\<lparr>hl_row = row, hl_id = i, hl_data = data\<rparr>]
       | _ \<Rightarrow> []))"

definition held_rows_of :: "table_plan option \<Rightarrow> catalogue_row list \<Rightarrow> revision_side \<Rightarrow> held_row list outcome" where
  "held_rows_of plan loaded structureSide =
     (let rows = jmap_of (map (\<lambda>row. (rp_identity (cr_pair row), row)) loaded)
      in try_bind (map_try (held_row_of rows structureSide) (case plan of None \<Rightarrow> [] | Some p \<Rightarrow> pl_rows p)) (\<lambda>held.
           Inr (concat held)))"

definition pairs_by_id_on :: "table_pair list \<Rightarrow> revision_side \<Rightarrow> (string, table_pair) jmap" where
  "pairs_by_id_on pairs side =
     fold (\<lambda>pair byId. case version_on_side side pair of
         None \<Rightarrow> byId
       | Some version \<Rightarrow> AList.update (tv_id version) pair byId) pairs []"

definition refusal_of_pair :: "check_source \<Rightarrow> table_pair \<Rightarrow> refused_table option" where
  "refusal_of_pair source pair = map_of (hs_refusedTablesByIdentity (ck_headSchema source)) (tp_identity pair)"

definition changed_pointers_of :: "check_source \<Rightarrow> table_pair \<Rightarrow> json_pointer list" where
  "changed_pointers_of source pair =
     (if tp_head pair = None \<or> tp_draft pair = None then [[]]
      else case map_of (jmap_of (map (\<lambda>t. (co_identity t, st_changedPointers (co_structure t))) (as_tables source)))
             (tp_identity pair) of
             None \<Rightarrow> []
           | Some pointers \<Rightarrow> pointers)"

definition target_tables_of_pair ::
  "check_source \<Rightarrow> assembled_target \<Rightarrow> applied_units \<Rightarrow> table_pair \<Rightarrow> target_table list outcome" where
  "target_tables_of_pair source target rules pair =
     (let structureSide = structure_side_of rules
            (map_option ca_key (table_unit_of (ch_lookup (as_catalogue source)) StructureUnit pair))
      in if version_on_side structureSide pair = None then Inr []
         else let loaded = (case map_of (ch_rows (as_catalogue source)) (tp_identity pair) of None \<Rightarrow> [] | Some rows \<Rightarrow> rows);
                  plans = jmap_of (map (\<lambda>plan. (pl_identity plan, plan)) (at_tables target))
           in try_bind (held_rows_of (map_of plans (tp_identity pair)) loaded structureSide) (\<lambda>heldRows.
              try_bind (target_table pair structureSide heldRows loaded (changed_pointers_of source pair)
                  (base_side rules) (refusal_of_pair source pair)) (\<lambda>t. Inr [t])))"

definition target_tables :: "check_source \<Rightarrow> assembled_target \<Rightarrow> applied_units \<Rightarrow> target_tables outcome" where
  "target_tables source target rules =
     try_bind (map_try (target_tables_of_pair source target rules) (sn_tables (as_snapshot source))) (\<lambda>tables.
       let every = concat tables
       in Inr \<lparr>ta_source = source, ta_rules = rules, ta_all = every,
            ta_byTableId = jmap_of (map (\<lambda>t. (tt_tableId t, t)) every),
            ta_identities = map (\<lambda>t. tp_identity (tt_pair t)) every,
            ta_headPairsById = pairs_by_id_on (sn_tables (as_snapshot source)) HeadSide,
            ta_draftPairsById = pairs_by_id_on (sn_tables (as_snapshot source)) DraftSide\<rparr>)"

definition table_named :: "target_tables \<Rightarrow> string \<Rightarrow> target_table option" where
  "table_named ts tableId = map_of (ta_byTableId ts) tableId"

definition contains_pair :: "target_tables \<Rightarrow> table_pair \<Rightarrow> bool" where
  "contains_pair ts pair \<longleftrightarrow> tp_identity pair \<in> set (ta_identities ts)"

definition table_meant_by :: "target_tables \<Rightarrow> target_table \<Rightarrow> string \<Rightarrow> table_pair option" where
  "table_meant_by ts referrer tableId =
     map_of (case tt_structureSide referrer of HeadSide \<Rightarrow> ta_headPairsById ts | DraftSide \<Rightarrow> ta_draftPairsById ts) tableId"

definition referenced_by :: "target_tables \<Rightarrow> target_table \<Rightarrow> string \<Rightarrow> target_table option" where
  "referenced_by ts referrer tableId =
     (let holder = table_named ts tableId
      in case table_meant_by ts referrer tableId of
           None \<Rightarrow> holder
         | Some meant \<Rightarrow>
             if map_option (\<lambda>t. tp_identity (tt_pair t)) holder \<noteq> Some (tp_identity meant) then None else holder)"

definition refusal_of_reference :: "target_tables \<Rightarrow> target_table \<Rightarrow> string \<Rightarrow> refused_table option" where
  "refusal_of_reference ts referrer tableId =
     (case tt_refusal referrer of
        Some refusal \<Rightarrow> Some refusal
      | None \<Rightarrow> Option.bind (table_meant_by ts referrer tableId) (refusal_of_pair (ta_source ts)))"

subsection \<open>The context of a check\<close>

text \<open>The schemas of tables are read through the toolkit, by the arguments of the checks that read them.\<close>

record check_context =
  cx_source :: check_source
  cx_target :: assembled_target
  cx_choice :: applied_units
  cx_tables :: target_tables
  cx_names :: side_names

definition check_context :: "check_source \<Rightarrow> assembled_target \<Rightarrow> applied_units \<Rightarrow> check_context outcome" where
  "check_context source target choice =
     try_bind (target_tables source target choice) (\<lambda>tables.
       Inr \<lparr>cx_source = source, cx_target = target, cx_choice = choice, cx_tables = tables,
            cx_names = side_names_of (ap_operation choice)\<rparr>)"

definition structure_key_of :: "check_context \<Rightarrow> table_pair \<Rightarrow> string option" where
  "structure_key_of context pair =
     map_option ca_key (table_unit_of (ch_lookup (as_catalogue (cx_source context))) StructureUnit pair)"

definition unapplied_structure_holding :: "check_context \<Rightarrow> target_table \<Rightarrow> json_pointer \<Rightarrow> string option" where
  "unapplied_structure_holding context referrer p =
     (case structure_key_of context (tt_pair referrer) of
        None \<Rightarrow> None
      | Some key \<Rightarrow>
          if is_applied (cx_choice context) key \<or> \<not> is_changed_field referrer p then None else Some key)"

subsection \<open>The choice of sides\<close>

text \<open>
  What the checks rely on of the rules of an operation: an applied unit takes the other side, and any other one the
  base side.
\<close>

locale choice_of_sides =
  fixes base :: "'r \<Rightarrow> revision_side"
    and taken :: "'r \<Rightarrow> string \<Rightarrow> revision_side"
    and applied :: "'r \<Rightarrow> string \<Rightarrow> bool"
  assumes applied_takes_other: "taken r key = (if applied r key then opposite_of (base r) else base r)"
begin

lemma takes_base_iff: "taken r key = base r \<longleftrightarrow> \<not> applied r key"
  by (simp add: applied_takes_other)

text \<open>
  Two things that hold the same id, each from the side its unit takes or, without a unit, from the base side, where
  ids are unique on each side: one of them keeps the id of the base side, and its unit, if any, is not applied.
\<close>

lemma one_keeps_base_id:
  assumes "x \<noteq> y" "\<And>side. \<not> (id_on side x = Some i \<and> id_on side y = Some i)"
    "\<And>z. z \<in> {x, y} \<Longrightarrow> id_on (case unit z of None \<Rightarrow> base r | Some key \<Rightarrow> taken r key) z = Some i"
  shows "\<exists>z \<in> {x, y}. id_on (base r) z = Some i \<and> (case unit z of None \<Rightarrow> True | Some key \<Rightarrow> \<not> applied r key)"
proof (rule ccontr)
  assume none: "\<not> ?thesis"
  have "id_on (opposite_of (base r)) z = Some i" if "z \<in> {x, y}" for z
    using assms(3) [OF that] none that by (cases "unit z") (auto simp: applied_takes_other split: if_splits)
  with assms(2) show False by blast
qed

end

interpretation outcome_rules: choice_of_sides "\<lambda>rules. base_side rules" side_taken_by is_applied
proof
  show "side_taken_by rules key = (if is_applied rules key then opposite_of (base_side rules) else base_side rules)"
    for rules key
    by (cases "ap_operation rules") (simp_all add: side_taken_by_cases)
qed

end
