(* ===== verification/Id_Collisions.thy ===== *)
theory Id_Collisions
  imports Target_Tables
begin

section \<open>Ids held twice\<close>

text \<open>
  \<^verbatim>\<open>partial-changes/closure/table-id-collisions.ts\<close> and \<^verbatim>\<open>row-id-collisions.ts\<close>: the checks that no two
  tables, and no two rows of a table, hold the same id in a target. Where two do, the one that keeps the id it has on
  the base side has to move.
\<close>

definition keeps_base_table_id :: "check_context \<Rightarrow> target_table \<Rightarrow> bool" where
  "keeps_base_table_id context t \<longleftrightarrow>
     keeps_base_id t \<and>
     (case structure_key_of context (tt_pair t) of None \<Rightarrow> True | Some key \<Rightarrow> \<not> is_applied (cx_choice context) key)"

definition move_from_occupied_table_id :: "check_context \<Rightarrow> target_table \<Rightarrow> finding" where
  "move_from_occupied_table_id context t =
     (case tt_refusal t of
        Some refusal \<Rightarrow> refused_by refusal
      | None \<Rightarrow>
          requiring_or_dangling (structure_key_of context (tt_pair t))
            \<lparr>re_code = IdOccupied, re_tableId = tt_tableId t, re_rowId = None, re_path = None,
             re_because = ''the table id '' @ tt_tableId t @ '' would be held by two tables in the '' @
               sd_target (cx_names context)\<rparr> None)"

definition table_id_collisions :: "check_context \<Rightarrow> finding list" where
  "table_id_collisions context =
     concat (map (\<lambda>holders. map (move_from_occupied_table_id context) (filter (keeps_base_table_id context) holders))
       (filter (\<lambda>holders. 1 < length holders) (jvalues (file_under tt_tableId (ta_all (cx_tables context))))))"

definition keeps_base_row_id :: "check_context \<Rightarrow> catalogue_row \<Rightarrow> string \<Rightarrow> bool" where
  "keeps_base_row_id context row i \<longleftrightarrow>
     map_option row_id (row_on_side (base_side (cx_choice context)) (cr_pair row)) = Some i \<and>
     (case id_unit_of row of None \<Rightarrow> True | Some key \<Rightarrow> \<not> is_applied (cx_choice context) key)"

definition move_from_occupied_row_id :: "check_context \<Rightarrow> target_table \<Rightarrow> catalogue_row \<Rightarrow> string \<Rightarrow> finding" where
  "move_from_occupied_row_id context t row rowId =
     requiring_or_dangling (id_unit_of row)
       \<lparr>re_code = IdOccupied, re_tableId = tt_tableId t, re_rowId = Some rowId, re_path = None,
        re_because = tt_tableId t @ ''/'' @ rowId @ '' would be held by two rows in the '' @
          sd_target (cx_names context)\<rparr> None"

definition row_id_collisions :: "check_context \<Rightarrow> finding list" where
  "row_id_collisions context =
     concat (map (\<lambda>t. concat (map (\<lambda>(i, rows).
         map (\<lambda>held. move_from_occupied_row_id context t (hl_row held) i)
           (filter (\<lambda>held. keeps_base_row_id context (hl_row held) i) rows)) (collisions t)))
       (ta_all (cx_tables context)))"

subsection \<open>Filing under a key\<close>

lemma file_under_ok: "jmap_ok (file_under key xs)"
proof -
  have "jmap_ok m \<Longrightarrow>
      jmap_ok (fold (\<lambda>x m. AList.update (key x) ((case map_of m (key x) of None \<Rightarrow> [] | Some held \<Rightarrow> held) @ [x]) m) xs m)" for m
    by (induction xs arbitrary: m) auto
  then show ?thesis by (simp add: file_under_def)
qed

lemma map_of_file_under:
  "map_of (file_under key xs) k = (if filter (\<lambda>x. key x = k) xs = [] then None else Some (filter (\<lambda>x. key x = k) xs))"
proof -
  have "map_of (fold (\<lambda>x m. AList.update (key x) ((case map_of m (key x) of None \<Rightarrow> [] | Some held \<Rightarrow> held) @ [x]) m) xs m) k =
      (if filter (\<lambda>x. key x = k) xs = [] then map_of m k
       else Some ((case map_of m k of None \<Rightarrow> [] | Some h \<Rightarrow> h) @ filter (\<lambda>x. key x = k) xs))" for m
    by (induction xs arbitrary: m) (auto simp: jmap_simps)
  then show ?thesis by (simp add: file_under_def)
qed

lemma file_under_mem:
  "(k, held) \<in> set (file_under key xs) \<longleftrightarrow> held = filter (\<lambda>x. key x = k) xs \<and> held \<noteq> []"
proof -
  have "distinct (map fst (file_under key xs))" using file_under_ok by (simp add: jmap_ok_def)
  then have "(k, held) \<in> set (file_under key xs) \<longleftrightarrow> map_of (file_under key xs) k = Some held" by simp
  then show ?thesis by (auto simp: map_of_file_under)
qed

lemma filed_holders:
  assumes "z \<in> set (filter (\<lambda>x. key x = k) xs)"
  shows "filter (\<lambda>x. key x = k) xs \<in> set (jvalues (file_under key xs))"
proof -
  have "filter (\<lambda>x. key x = k) xs \<noteq> []" using assms by force
  then have "(k, filter (\<lambda>x. key x = k) xs) \<in> set (file_under key xs)" by (simp add: file_under_mem)
  then show ?thesis by force
qed

text \<open>Two elements with the same key, in order, when not every key is used once.\<close>

lemma two_with_same_key:
  assumes "distinct xs" "\<not> distinct (map key xs)"
  obtains x y where "x \<in> set xs" "y \<in> set xs" "x \<noteq> y" "key x = key y" "1 < length (filter (\<lambda>z. key z = key x) xs)"
proof -
  from assms obtain x y where xy: "x \<in> set xs" "y \<in> set xs" "x \<noteq> y" "key x = key y"
    by (auto simp: distinct_map inj_on_def)
  let ?same = "filter (\<lambda>z. key z = key x) xs"
  have "{x, y} \<subseteq> set ?same" using xy by auto
  then have "card {x, y} \<le> card (set ?same)" by (rule card_mono [OF finite_set])
  then have "1 < length ?same" using xy(3) card_length [of ?same] by simp
  with xy show ?thesis by (rule that)
qed

lemma single_holder:
  "distinct (map key xs) \<Longrightarrow> length (filter (\<lambda>x. key x = k) xs) \<le> 1"
proof (induction xs)
  case (Cons x xs)
  then have "filter (\<lambda>z. key z = key x) xs = []" by (simp add: filter_empty_conv) (metis imageI)
  with Cons show ?case by auto
qed simp

lemma no_two_holders: "distinct (map key xs) \<Longrightarrow> \<not> Suc 0 < length (filter (\<lambda>x. key x = k) xs)"
  using single_holder [of key xs k] by simp

subsection \<open>Tables that hold an id twice\<close>

definition unique_table_ids :: "table_pair list \<Rightarrow> bool" where
  "unique_table_ids pairs \<longleftrightarrow>
     distinct (concat (map (\<lambda>pair. map tv_id (case tp_head pair of None \<Rightarrow> [] | Some v \<Rightarrow> [v])) pairs)) \<and>
     distinct (concat (map (\<lambda>pair. map tv_id (case tp_draft pair of None \<Rightarrow> [] | Some v \<Rightarrow> [v])) pairs))"

lemma unique_in_concat:
  assumes "distinct (concat (map f xs))" "x \<in> set xs" "y \<in> set xs" "i \<in> set (f x)" "i \<in> set (f y)"
  shows "x = y"
  using assms by (induction xs) auto

lemma unique_table_id:
  assumes "unique_table_ids pairs" "p \<in> set pairs" "q \<in> set pairs"
    "map_option tv_id (version_on_side side p) = Some i" "map_option tv_id (version_on_side side q) = Some i"
  shows "p = q"
proof (cases side)
  case HeadSide
  show ?thesis
    by (rule unique_in_concat [OF assms(1) [unfolded unique_table_ids_def, THEN conjunct1] assms(2,3), of i])
      (use assms(4,5) HeadSide in auto)
next
  case DraftSide
  show ?thesis
    by (rule unique_in_concat [OF assms(1) [unfolded unique_table_ids_def, THEN conjunct2] assms(2,3), of i])
      (use assms(4,5) DraftSide in auto)
qed

lemma target_tables_of_pair_facts:
  assumes "target_tables_of_pair source target rules pair = Inr ts" "t \<in> set ts"
  shows "ts = [t]" "tt_pair t = pair" "tt_baseSide t = base_side rules"
    "tt_structureSide t = structure_side_of rules
       (map_option ca_key (table_unit_of (ch_lookup (as_catalogue source)) StructureUnit pair))"
    "version_on_side (tt_structureSide t) pair = Some (tt_version t)"
    "tt_holdersById t = file_under hl_id (tt_heldRows t)"
  using assms by (auto simp: target_tables_of_pair_def target_table_def version_on_def Let_def split: if_splits option.splits)

lemma target_tables_facts:
  assumes "target_tables source target rules = Inr ts" "t \<in> set (ta_all ts)"
  obtains pair found where "pair \<in> set (sn_tables (as_snapshot source))"
    "target_tables_of_pair source target rules pair = Inr found" "t \<in> set found"
proof -
  obtain tables where "map_try (target_tables_of_pair source target rules) (sn_tables (as_snapshot source)) = Inr tables"
    "ta_all ts = concat tables" using assms(1) by (auto simp: target_tables_def Let_def)
  with assms(2) that show ?thesis by (auto simp: map_try_Inr_iff dest!: list_all2_second)
qed

lemma concat_distinct:
  assumes "list_all2 (\<lambda>p ts. \<forall>t \<in> set ts. ts = [t] \<and> f t = p) ps tables" "distinct ps"
  shows "distinct (concat tables)"
  using assms
proof (induction rule: list_all2_induct)
  case (Cons p ps ts tables)
  have "f t \<in> set ps" if "t \<in> set (concat tables)" for t
    using that Cons(2) by (fastforce dest: list_all2_second)
  with Cons show ?case by (cases ts) fastforce+
qed simp

lemma target_tables_distinct:
  assumes "target_tables source target rules = Inr ts" "distinct (sn_tables (as_snapshot source))"
  shows "distinct (ta_all ts)"
proof -
  obtain tables where tables: "map_try (target_tables_of_pair source target rules) (sn_tables (as_snapshot source)) = Inr tables"
    "ta_all ts = concat tables" using assms(1) by (auto simp: target_tables_def Let_def)
  have "list_all2 (\<lambda>p ts. \<forall>t \<in> set ts. ts = [t] \<and> tt_pair t = p) (sn_tables (as_snapshot source)) tables"
    using tables(1) unfolding map_try_Inr_iff
    by (rule list_all2_mono) (auto dest: target_tables_of_pair_facts(1,2))
  with assms(2) show ?thesis unfolding tables(2) by (rule concat_distinct [rotated])
qed

text \<open>
  Claim C11: where the tables of each side have ids of their own, the check of table ids reports nothing exactly when
  no two tables of the target hold the same id, so a target it accepts can be written.
\<close>

theorem table_ids_checked:
  assumes "check_context source target choice = Inr context" "distinct (sn_tables (as_snapshot source))"
    "unique_table_ids (sn_tables (as_snapshot source))"
  shows "table_id_collisions context = [] \<longleftrightarrow> distinct (map tt_tableId (ta_all (cx_tables context)))"
proof -
  obtain ts where ts: "target_tables source target choice = Inr ts" "cx_tables context = ts" "cx_source context = source"
    "cx_choice context = choice" using assms(1) by (auto simp: check_context_def)
  let ?unit = "\<lambda>t. structure_key_of context (tt_pair t)"
  let ?id_on = "\<lambda>side t. map_option tv_id (version_on_side side (tt_pair t))"
  note d = target_tables_distinct [OF ts(1) assms(2)]
  have table: "tt_pair t \<in> set (sn_tables (as_snapshot source)) \<and> tt_baseSide t = base_side choice \<and>
      ?id_on (case ?unit t of None \<Rightarrow> base_side choice | Some key \<Rightarrow> side_taken_by choice key) t = Some (tt_tableId t)"
    if mem: "t \<in> set (ta_all ts)" for t
  proof -
    obtain p f where pf: "p \<in> set (sn_tables (as_snapshot source))" "target_tables_of_pair source target choice p = Inr f"
      "t \<in> set f" by (rule target_tables_facts [OF ts(1) mem])
    note facts = target_tables_of_pair_facts [OF pf(2,3)]
    have "tt_structureSide t = (case ?unit t of None \<Rightarrow> base_side choice | Some key \<Rightarrow> side_taken_by choice key)"
      using facts(4) by (simp add: structure_key_of_def ts(3) facts(2) structure_side_of_def)
    then show ?thesis using facts(2,3,5) pf(1) by (simp add: tt_tableId_def)
  qed
  have "table_id_collisions context = []" if "distinct (map tt_tableId (ta_all ts))"
    by (auto simp: table_id_collisions_def ts(2) file_under_mem no_two_holders [OF that])
  moreover have "table_id_collisions context \<noteq> []" if twice: "\<not> distinct (map tt_tableId (ta_all ts))"
  proof -
    obtain x y where xy: "x \<in> set (ta_all ts)" "y \<in> set (ta_all ts)" "x \<noteq> y" "tt_tableId x = tt_tableId y"
      "1 < length (filter (\<lambda>z. tt_tableId z = tt_tableId x) (ta_all ts))" by (rule two_with_same_key [OF d twice])
    have pairs: "tt_pair x \<noteq> tt_pair y"
    proof
      assume eq: "tt_pair x = tt_pair y"
      obtain p f where "target_tables_of_pair source target choice p = Inr f" "x \<in> set f"
        by (rule target_tables_facts [OF ts(1) xy(1)])
      moreover obtain q g where "target_tables_of_pair source target choice q = Inr g" "y \<in> set g"
        by (rule target_tables_facts [OF ts(1) xy(2)])
      ultimately have "p = q" "f = [x]" "g = [y]" "f = g"
        using target_tables_of_pair_facts(1,2) eq by (metis sum.inject(2))+
      with xy(3) show False by simp
    qed
    have apart: "\<not> (?id_on side x = Some (tt_tableId x) \<and> ?id_on side y = Some (tt_tableId x))" for side
      using unique_table_id [OF assms(3)] table xy(1,2) pairs by blast
    have each: "?id_on (case ?unit z of None \<Rightarrow> base_side choice | Some key \<Rightarrow> side_taken_by choice key) z = Some (tt_tableId x)"
      if "z \<in> {x, y}" for z
      using that table [of z] xy(1,2,4) by auto
    obtain z where z: "z \<in> {x, y}" "?id_on (base_side choice) z = Some (tt_tableId x)"
      "case ?unit z of None \<Rightarrow> True | Some key \<Rightarrow> \<not> is_applied choice key"
      using outcome_rules.one_keeps_base_id [where id_on = ?id_on and i = "tt_tableId x" and unit = ?unit and r = choice,
          OF xy(3) apart each] by blast
    have zt: "z \<in> set (ta_all ts)" "tt_tableId z = tt_tableId x" using z(1) xy(1,2,4) by auto
    have keeps: "keeps_base_table_id context z" "z \<in> set (filter (\<lambda>t. tt_tableId t = tt_tableId x) (ta_all ts))"
      unfolding keeps_base_table_id_def keeps_base_id_def ts(4) using z(2,3) zt table [OF zt(1)] by simp_all
    have "filter (\<lambda>t. tt_tableId t = tt_tableId x) (ta_all ts) \<in> set (jvalues (file_under tt_tableId (ta_all ts)))"
      by (rule filed_holders [OF keeps(2)])
    with keeps xy(5) show ?thesis by (force simp: table_id_collisions_def ts(2) filter_empty_conv)
  qed
  ultimately show ?thesis unfolding ts(2) by blast
qed

text \<open>A table renamed away from an id that a created table takes: the creation is applied, the rename is not.\<close>

definition example_structure_unit :: "string \<Rightarrow> string \<Rightarrow> catalogue_unit" where
  "example_structure_unit identity tableId =
     \<lparr>ca_key = structure_unit_key [identity], ca_tableIdentities = [identity], ca_rowIdentities = [], ca_systemRows = [],
      ca_side = None, ca_unit = table_unit StructureUnit tableId\<rparr>"

definition example_taken_over :: check_source where
  "example_taken_over =
     (let units = [example_structure_unit ''T'' ''b'', example_structure_unit ''U'' ''a''];
          snapshot = example_snapshot\<lparr>sn_tables :=
            [\<lparr>tp_identity = ''T'', tp_head = Some (example_table ''a''), tp_draft = Some (example_table ''b'')\<rparr>,
             \<lparr>tp_identity = ''U'', tp_head = None, tp_draft = Some (example_table ''a'')\<rparr>]\<rparr>
      in \<lparr>as_headRevisionId = ''H'', as_draftRevisionId = ''D'', as_systemVersions = as_systemVersions example_empty_source,
          as_snapshot = snapshot, as_tables = [],
          as_catalogue = \<lparr>ch_units = units, ch_rows = [], ch_lookup = catalogue_lookup units [],
            ch_tables = catalogue_tables snapshot [], ch_ledgerInconsistencies = [], ch_refusedTables = []\<rparr>,
          ck_headSchema = \<lparr>hs_refusedTables = [], hs_refusedTablesByIdentity = [], hs_replayedHeadSchemas = []\<rparr>\<rparr>)"

definition example_no_target :: assembled_target where
  "example_no_target =
     \<lparr>at_tables = [], at_systemTables = [], at_views = [], at_ledger = [], at_blockers = [], at_deferred = []\<rparr>"

definition example_creation_commit :: applied_units where
  "example_creation_commit =
     \<lparr>ap_operation = CommitOp, ap_applied = [structure_unit_key [''U'']], ap_wholeDraft = False\<rparr>"

definition example_context :: check_context where
  "example_context =
     (case check_context example_taken_over example_no_target example_creation_commit of
        Inr context \<Rightarrow> context
      | Inl _ \<Rightarrow> \<lparr>cx_source = example_taken_over, cx_target = example_no_target, cx_choice = example_creation_commit,
          cx_tables = \<lparr>ta_source = example_taken_over, ta_rules = example_creation_commit, ta_all = [], ta_byTableId = [],
            ta_identities = [], ta_headPairsById = [], ta_draftPairsById = []\<rparr>, cx_names = side_names_of CommitOp\<rparr>)"

lemma example_context_built:
  "check_context example_taken_over example_no_target example_creation_commit = Inr example_context"
  "distinct (sn_tables (as_snapshot example_taken_over))" "unique_table_ids (sn_tables (as_snapshot example_taken_over))"
  "map tt_tableId (ta_all (cx_tables example_context)) = [''a'', ''a'']"
proof -
  have facts: "map_sum id (\<lambda>context. map tt_tableId (ta_all (cx_tables context)))
       (check_context example_taken_over example_no_target example_creation_commit) = Inr [''a'', ''a''] \<and>
     distinct (sn_tables (as_snapshot example_taken_over)) \<and> unique_table_ids (sn_tables (as_snapshot example_taken_over))"
    by code_simp
  then obtain context' where "check_context example_taken_over example_no_target example_creation_commit = Inr context'"
    "map tt_tableId (ta_all (cx_tables context')) = [''a'', ''a'']"
    by (cases "check_context example_taken_over example_no_target example_creation_commit") auto
  then show "check_context example_taken_over example_no_target example_creation_commit = Inr example_context"
    "map tt_tableId (ta_all (cx_tables example_context)) = [''a'', ''a'']"
    by (simp_all add: example_context_def)
  show "distinct (sn_tables (as_snapshot example_taken_over))" "unique_table_ids (sn_tables (as_snapshot example_taken_over))"
    using facts by blast+
qed

theorem table_ids_checked_witness:
  "check_context example_taken_over example_no_target example_creation_commit = Inr example_context \<and>
   table_id_collisions example_context \<noteq> []"
  using table_ids_checked [OF example_context_built(1-3)] example_context_built(1,4) by simp

end
