(* ===== verification/Target_Rows.thy ===== *)
theory Target_Rows
  imports Target_Assembly
begin

section \<open>What a target takes from which side\<close>

text \<open>
  The rows of a target hold what the applied units give them: each difference of a row comes from the side its
  unit takes, and the changes of links of a plan lead from the linked version of a table to exactly the rows
  of the target.
\<close>

subsection \<open>Whether a row is kept\<close>

lemma row_kept_iff:
  assumes "cr_existence row = Some key"
  shows "row_outcome_of r row = RowAbsent \<longleftrightarrow> row_on_side (side_taken_by (tr_rules r) key) (cr_pair row) = None"
proof (cases "takes_other_side r key")
  case True
  then have "side_taken_by (tr_rules r) key = other_side r" by (simp add: takes_other_side_iff)
  with True assms show ?thesis by (simp add: row_outcome_of_def other_side_existence_of_def)
next
  case False
  then have "side_taken_by (tr_rules r) key = structure_side r" by (simp add: side_taken_by_not_other)
  with False assms show ?thesis by (simp add: row_outcome_of_def outcome_of_differences_def Let_def)
qed

subsection \<open>Rows of a plan\<close>

text \<open>The version ids a version of the table holds: those that both versions hold, and the rows of the pairs on its side.\<close>

definition versions_on_side :: "string set \<Rightarrow> row_pair list \<Rightarrow> revision_side \<Rightarrow> string set" where
  "versions_on_side common pairs side = common \<union> (\<Union>pair \<in> set pairs. set (version_ids_on pair side))"

definition versions_after :: "string set \<Rightarrow> row_pair list \<Rightarrow> table_rules \<Rightarrow> table_plan \<Rightarrow> string set" where
  "versions_after common pairs r plan =
     versions_on_side common pairs (if pl_outcome plan = TableOther then other_side r else structure_side r) -
       set (lk_removed (pl_links plan)) \<union> set (lk_added (pl_links plan))"

fun kept_version_ids :: "table_rules \<Rightarrow> row_pair \<Rightarrow> target_kind \<Rightarrow> string list" where
  "kept_version_ids r pair TargetStructureSide = version_ids_on pair (structure_side r)"
| "kept_version_ids r pair TargetOtherSide = version_ids_on pair (other_side r)"
| "kept_version_ids r pair _ = []"

definition versions_wanted :: "string set \<Rightarrow> table_rules \<Rightarrow> target_row list \<Rightarrow> string set" where
  "versions_wanted common r rows = common \<union> (\<Union>row \<in> set rows. set (kept_version_ids r (tg_pair row) (tg_kind row)))"

text \<open>Versions of rows are told apart by their ids.\<close>

definition versions_distinct :: "string set \<Rightarrow> row_pair list \<Rightarrow> bool" where
  "versions_distinct common pairs \<longleftrightarrow>
     distinct (concat (map (\<lambda>pair. version_ids_on pair HeadSide @ version_ids_on pair DraftSide) pairs)) \<and>
     common \<inter> (\<Union>pair \<in> set pairs. set (version_ids_on pair HeadSide @ version_ids_on pair DraftSide)) = {}"

text \<open>What the catalogue gives of the rows of a table: keys of its own units, and the unit of a row on one side only.\<close>

definition rows_accounted :: "table_rules \<Rightarrow> catalogue_row list \<Rightarrow> bool" where
  "rows_accounted r rows \<longleftrightarrow>
     list_all (\<lambda>row. set (row_unit_keys row) \<subseteq> set (unit_keys_of r) \<and>
       ((rp_head (cr_pair row) = None \<or> rp_draft (cr_pair row) = None) \<longrightarrow> cr_existence row \<noteq> None)) rows"

lemma side_none: "row_on_side side pair = None \<Longrightarrow> rp_head pair = None \<or> rp_draft pair = None"
  by (cases side) auto

lemma distinct_concat_map:
  assumes "distinct (concat (map f ps))"
  shows "p \<in> set ps \<Longrightarrow> q \<in> set ps \<Longrightarrow> j \<in> set (f p) \<Longrightarrow> j \<in> set (f q) \<Longrightarrow> p = q" "p \<in> set ps \<Longrightarrow> distinct (f p)"
  using assms by (induction ps) auto

lemma versions_apart:
  assumes "versions_distinct common (map tg_pair rows)" "row \<in> set rows" "i \<in> set (version_ids_on (tg_pair row) side)"
  shows "i \<notin> common" "row' \<in> set rows \<Longrightarrow> i \<in> set (version_ids_on (tg_pair row') side') \<Longrightarrow> row' = row \<and> side' = side"
proof -
  let ?ids = "\<lambda>row. version_ids_on (tg_pair row) HeadSide @ version_ids_on (tg_pair row) DraftSide"
  have mem: "j \<in> set (version_ids_on (tg_pair p) s) \<Longrightarrow> j \<in> set (?ids p)" for j p s by (cases s) auto
  have "set (?ids row) \<subseteq> (\<Union>pair \<in> set (map tg_pair rows). set (version_ids_on pair HeadSide @ version_ids_on pair DraftSide))"
    using assms(2) by auto
  then show "i \<notin> common" using assms(1) mem [OF assms(3)] unfolding versions_distinct_def by blast
  assume other: "row' \<in> set rows" "i \<in> set (version_ids_on (tg_pair row') side')"
  have d: "distinct (concat (map ?ids rows))" using assms(1) by (simp add: versions_distinct_def comp_def)
  have eq: "row' = row" by (rule distinct_concat_map(1) [OF d other(1) assms(2) mem [OF other(2)] mem [OF assms(3)]])
  have "distinct (?ids row)" by (rule distinct_concat_map(2) [OF d assms(2)])
  with other(2) assms(3) have "side' = side" unfolding eq by (cases side; cases side') auto
  with eq show "row' = row \<and> side' = side" ..
qed

text \<open>Kinds of target rows and what they say of the row.\<close>

lemma target_row_kinds:
  assumes "target_row_of equal (cr_pair row) (row_outcome_of r row) v r = Inr t"
  shows "tg_pair t = cr_pair row"
    "tg_kind t = TargetStructureSide \<Longrightarrow> row_outcome_of r row = RowStructureSide"
    "tg_kind t = TargetAbsent \<Longrightarrow> row_outcome_of r row = RowAbsent \<or> row_outcome_of r row = RowMove"
  using assms
  by (auto simp: target_row_of_def collapsed_row_of_def split: row_outcome.splits option.splits if_splits)

lemma owners_mentioned: "set (jvalues (cr_columns row)) \<union> set (jvalues (cr_leaves row)) \<subseteq> set (row_unit_keys row)"
  by (auto simp: row_unit_keys_def)

lemma target_rows_mem:
  assumes "target_rows tools equal a = Inr rows" "read_table_assembly t r operation target = Inr a"
  shows "map tg_pair rows = map cr_pair (re_rows t)"
    "row \<in> set rows \<Longrightarrow> \<exists>c \<in> set (re_rows t). \<exists>v. target_row_of equal (cr_pair c) (row_outcome_of r c) v r = Inr row"
proof -
  obtain vs where run: "map_try (\<lambda>decided. target_row_of equal (cr_pair (de_row decided)) (de_outcome decided)
      (map_of vs (rp_identity (cr_pair (de_row decided)))) (ra_rules a)) (ra_decided a) = Inr rows"
    using assms(1) by (auto simp: target_rows_def Let_def)
  have a: "ra_rules a = r" "ra_decided a = map (\<lambda>row. \<lparr>de_row = row, de_outcome = row_outcome_of r row\<rparr>) (re_rows t)"
    using assms(2) by (auto simp: read_table_assembly_def)
  have all: "list_all2 (\<lambda>c row. \<exists>v. target_row_of equal (cr_pair c) (row_outcome_of r c) v r = Inr row) (re_rows t) rows"
    using run unfolding a map_try_Inr_iff list.rel_map by (auto elim: list_all2_mono)
  show "map tg_pair rows = map cr_pair (re_rows t)"
    using all by (induction rule: list_all2_induct) (auto dest: target_row_kinds(1))
  show "row \<in> set rows \<Longrightarrow> \<exists>c \<in> set (re_rows t). \<exists>v. target_row_of equal (cr_pair c) (row_outcome_of r c) v r = Inr row"
    using list_all2_second [OF all] by blast
qed

lemma table_outcome_cases:
  assumes "table_outcome_of r rows = decided"
  shows "decided = TableBase \<Longrightarrow> list_all (keeps_structure_side_link r) rows"
    "decided = TableUnchanged \<Longrightarrow> unit_keys_of r = []"
    "decided = TableOther \<Longrightarrow> unit_keys_of r = [] \<and> ap_wholeDraft (tr_rules r) \<or> takes_other_side_version r rows"
    "decided \<in> {TableUnchanged, TableBase, TableOther, TableMixed}"
  using assms by (auto simp: table_outcome_of_def outcome_without_units_def split: if_splits)

lemma accounted_row:
  assumes "rows_accounted r rows" "c \<in> set rows"
  shows "set (row_unit_keys c) \<subseteq> set (unit_keys_of r)" "cr_existence c = None \<Longrightarrow> row_on_side side (cr_pair c) \<noteq> None"
    "cr_existence c = Some key \<Longrightarrow> key \<in> set (unit_keys_of r)"
proof -
  have c: "set (row_unit_keys c) \<subseteq> set (unit_keys_of r)"
    "(rp_head (cr_pair c) = None \<or> rp_draft (cr_pair c) = None) \<longrightarrow> cr_existence c \<noteq> None"
    using assms by (auto simp: rows_accounted_def list_all_iff)
  show "set (row_unit_keys c) \<subseteq> set (unit_keys_of r)" by (rule c(1))
  show "cr_existence c = None \<Longrightarrow> row_on_side side (cr_pair c) \<noteq> None" by (cases side) (use c(2) in auto)
  show "cr_existence c = Some key \<Longrightarrow> key \<in> set (unit_keys_of r)" using c(1) by (auto simp: row_unit_keys_def)
qed

lemma row_without_units:
  assumes "rows_accounted r rows" "c \<in> set rows" "unit_keys_of r = []"
  shows "row_outcome_of r c = RowStructureSide"
proof -
  note c = accounted_row [OF assms(1,2)]
  have none: "cr_existence c = None" using c(3) assms(3) by (cases "cr_existence c") auto
  have "jvalues (cr_columns c) = []" "jvalues (cr_leaves c) = []"
    using c(1) assms(3) owners_mentioned [of c] by auto
  then have "outcome_of_differences r c = RowStructureSide" by (simp add: outcome_of_differences_def)
  then show ?thesis using none c(2) [OF none] by (simp add: row_outcome_of_def)
qed

lemma absent_row_of_other_version:
  assumes "rows_accounted r rows" "c \<in> set rows" "takes_other_side_version r rs"
    "ot_structureDiffers (tr_table r) \<longrightarrow> tk_structure (ot_units (tr_table r)) \<noteq> None"
    "row_outcome_of r c = RowAbsent \<or> row_outcome_of r c = RowMove"
  shows "row_on_side (other_side r) (cr_pair c) = None"
proof -
  have other: "tk_structure (ot_units (tr_table r)) = None" "list_all (takes_other_side r) (tk_rows (ot_units (tr_table r)))"
    using assms(3) by (simp_all add: takes_other_side_version_def)
  show ?thesis
  proof (cases "cr_existence c")
    case None
    with accounted_row(2) [OF assms(1,2) None, of "structure_side r"]
      accounted_row(2) [OF assms(1,2) None, of "other_side r"] assms(5) show ?thesis
      by (auto simp: row_outcome_of_def outcome_of_differences_def Let_def split: if_splits)
  next
    case (Some key)
    from accounted_row(3) [OF assms(1,2) Some] other have taken: "takes_other_side r key"
      by (simp add: unit_keys_of_def list_all_iff)
    with Some other(1) assms(4) have "row_outcome_of r c \<noteq> RowMove"
      by (auto simp: row_outcome_of_def other_side_existence_of_def)
    with assms(5) row_kept_iff [OF Some] taken show ?thesis by (simp add: takes_other_side_iff)
  qed
qed

lemma exchanged_ids: "A \<inter> N = {} \<Longrightarrow> C \<inter> N = {} \<Longrightarrow> (C \<union> (A \<union> N) - N) \<union> B = C \<union> A \<union> B"
  by blast

text \<open>
  The links of the plan lead to the rows that are kept, and the plan creates the merged ones. A table without units
  taken whole in an operation on the whole draft is left out: there the versions hold equal rows.
\<close>

lemma links_lead_to_rows:
  assumes "target_rows tools equal a = Inr rows" "read_table_assembly t r operation target = Inr a"
    "versions_distinct common (map cr_pair (re_rows t))" "rows_accounted r (re_rows t)"
    "ot_structureDiffers (tr_table r) \<longrightarrow> tk_structure (ot_units (tr_table r)) \<noteq> None"
    "unit_keys_of r = [] \<longrightarrow> \<not> ap_wholeDraft (tr_rules r)"
    "decided = table_outcome_of r (map (\<lambda>row. (tg_pair row, kind_of_target (tg_kind row))) rows)"
    "pl_outcome plan = decided" "pl_links plan = link_changes_of decided rows r"
  shows "versions_after common (map cr_pair (re_rows t)) r plan = versions_wanted common r rows"
    "lk_new (pl_links plan) = concat (map (\<lambda>row. new_rows_of (tg_kind row)) rows)"
proof -
  let ?pairs = "map cr_pair (re_rows t)"
  have pairs: "map tg_pair rows = ?pairs" by (rule target_rows_mem(1) [OF assms(1,2)])
  have on_side: "versions_on_side common ?pairs side = common \<union> (\<Union>row \<in> set rows. set (version_ids_on (tg_pair row) side))" for side
    unfolding versions_on_side_def pairs [symmetric] by auto
  have origin: "\<exists>c \<in> set (re_rows t). tg_pair row = cr_pair c \<and>
      (tg_kind row = TargetAbsent \<longrightarrow> row_outcome_of r c = RowAbsent \<or> row_outcome_of r c = RowMove) \<and>
      (tg_kind row \<noteq> TargetStructureSide \<longrightarrow> row_outcome_of r c \<noteq> RowStructureSide)" if "row \<in> set rows" for row
  proof -
    from target_rows_mem(2) [OF assms(1,2) that] obtain c v where c: "c \<in> set (re_rows t)"
      "target_row_of equal (cr_pair c) (row_outcome_of r c) v r = Inr row" by blast
    have "tg_kind row = TargetStructureSide" if "row_outcome_of r c = RowStructureSide"
      using c(2) that by (auto simp: target_row_of_def)
    with c target_row_kinds [OF c(2)] show ?thesis by blast
  qed
  have linked: "versions_after common ?pairs r plan = versions_wanted common r rows \<and>
      lk_new (pl_links plan) = concat (map (\<lambda>row. new_rows_of (tg_kind row)) rows)"
    if "decided \<noteq> TableMixed" "side = (if decided = TableOther then other_side r else structure_side r)"
      "\<And>row. row \<in> set rows \<Longrightarrow> kept_version_ids r (tg_pair row) (tg_kind row) = version_ids_on (tg_pair row) side \<and>
         new_rows_of (tg_kind row) = []" for side
    using that by (simp add: versions_after_def versions_wanted_def on_side assms(8,9) link_changes_of_def no_link_changes_def)
  have both: "versions_after common ?pairs r plan = versions_wanted common r rows \<and>
      lk_new (pl_links plan) = concat (map (\<lambda>row. new_rows_of (tg_kind row)) rows)"
  proof -
    note cases = table_outcome_cases [OF assms(7) [symmetric]]
    consider "decided = TableUnchanged" | "decided = TableBase" | "decided = TableOther" | "decided = TableMixed"
      using cases(4) by blast
    then show ?thesis
    proof cases
      case 1
      have "tg_kind row = TargetStructureSide" if "row \<in> set rows" for row
        using origin [OF that] row_without_units [OF assms(4) _ cases(2) [OF 1]] by auto
      then show ?thesis by (intro linked [OF _ refl]) (simp_all add: 1)
    next
      case 2
      have "kept_version_ids r (tg_pair row) (tg_kind row) = version_ids_on (tg_pair row) (structure_side r) \<and>
          new_rows_of (tg_kind row) = []" if "row \<in> set rows" for row
        using cases(1) [OF 2] that
        by (cases "tg_kind row") (auto simp: list_all_iff keeps_structure_side_link_def version_ids_on_def)
      then show ?thesis by (intro linked [OF _ refl]) (simp_all add: 2)
    next
      case 3
      have version: "takes_other_side_version r (map (\<lambda>row. (tg_pair row, kind_of_target (tg_kind row))) rows)"
        using cases(3) [OF 3] assms(6) by auto
      have "kept_version_ids r (tg_pair row) (tg_kind row) = version_ids_on (tg_pair row) (other_side r) \<and>
          new_rows_of (tg_kind row) = []" if row: "row \<in> set rows" for row
      proof -
        from version row have kind: "tg_kind row = TargetOtherSide \<or> tg_kind row = TargetAbsent"
          by (cases "tg_kind row") (auto simp: takes_other_side_version_def list_all_iff)
        obtain c where c: "c \<in> set (re_rows t)" "tg_pair row = cr_pair c"
          "tg_kind row = TargetAbsent \<longrightarrow> row_outcome_of r c = RowAbsent \<or> row_outcome_of r c = RowMove"
          using origin [OF row] by blast
        from absent_row_of_other_version [OF assms(4) c(1) version assms(5)] c(2,3) kind show ?thesis
          by (auto simp: version_ids_on_def)
      qed
      then show ?thesis by (intro linked [OF _ refl]) (simp_all add: 3)
    next
      case 4
      let ?ids = "\<lambda>side P. \<Union>row \<in> {row \<in> set rows. P row}. set (version_ids_on (tg_pair row) side)"
      have d: "versions_distinct common (map tg_pair rows)" using assms(3) unfolding pairs .
      have links: "set (lk_removed (pl_links plan)) = ?ids (structure_side r) (\<lambda>row. tg_kind row \<noteq> TargetStructureSide)"
        "set (lk_added (pl_links plan)) = ?ids (other_side r) (\<lambda>row. tg_kind row = TargetOtherSide)"
        "lk_new (pl_links plan) = concat (map (\<lambda>row. new_rows_of (tg_kind row)) rows)"
        by (simp_all add: assms(9) link_changes_of_def 4)
      have split: "(\<Union>row \<in> set rows. set (version_ids_on (tg_pair row) (structure_side r))) =
          ?ids (structure_side r) (\<lambda>row. tg_kind row = TargetStructureSide) \<union>
          ?ids (structure_side r) (\<lambda>row. tg_kind row \<noteq> TargetStructureSide)" by blast
      have "?ids (structure_side r) (\<lambda>row. tg_kind row = TargetStructureSide) \<inter>
          ?ids (structure_side r) (\<lambda>row. tg_kind row \<noteq> TargetStructureSide) = {}"
      proof (intro equals0I)
        fix i assume "i \<in> ?ids (structure_side r) (\<lambda>row. tg_kind row = TargetStructureSide) \<inter>
          ?ids (structure_side r) (\<lambda>row. tg_kind row \<noteq> TargetStructureSide)"
        then obtain row row' where rows: "row \<in> set rows" "tg_kind row = TargetStructureSide"
          "i \<in> set (version_ids_on (tg_pair row) (structure_side r))" "row' \<in> set rows" "tg_kind row' \<noteq> TargetStructureSide"
          "i \<in> set (version_ids_on (tg_pair row') (structure_side r))" by blast
        with versions_apart(2) [OF d rows(1,3,4,6)] show False by simp
      qed
      moreover have "common \<inter> ?ids (structure_side r) (\<lambda>row. tg_kind row \<noteq> TargetStructureSide) = {}"
        using versions_apart(1) [OF d] by blast
      moreover have "versions_wanted common r rows = common \<union> ?ids (structure_side r) (\<lambda>row. tg_kind row = TargetStructureSide) \<union>
          ?ids (other_side r) (\<lambda>row. tg_kind row = TargetOtherSide)"
      proof -
        have "(\<Union>row \<in> set rows. set (kept_version_ids r (tg_pair row) (tg_kind row))) =
            ?ids (structure_side r) (\<lambda>row. tg_kind row = TargetStructureSide) \<union>
            ?ids (other_side r) (\<lambda>row. tg_kind row = TargetOtherSide)"
        proof (intro equalityI subsetI)
          fix i assume "i \<in> (\<Union>row \<in> set rows. set (kept_version_ids r (tg_pair row) (tg_kind row)))"
          then obtain row where "row \<in> set rows" "i \<in> set (kept_version_ids r (tg_pair row) (tg_kind row))" by blast
          then show "i \<in> ?ids (structure_side r) (\<lambda>row. tg_kind row = TargetStructureSide) \<union>
            ?ids (other_side r) (\<lambda>row. tg_kind row = TargetOtherSide)" by (cases "tg_kind row") auto
        next
          fix i assume "i \<in> ?ids (structure_side r) (\<lambda>row. tg_kind row = TargetStructureSide) \<union>
            ?ids (other_side r) (\<lambda>row. tg_kind row = TargetOtherSide)"
          then obtain row where row: "row \<in> set rows"
            "tg_kind row = TargetStructureSide \<and> i \<in> set (version_ids_on (tg_pair row) (structure_side r)) \<or>
             tg_kind row = TargetOtherSide \<and> i \<in> set (version_ids_on (tg_pair row) (other_side r))" by blast
          then have "i \<in> set (kept_version_ids r (tg_pair row) (tg_kind row))" by auto
          with row(1) show "i \<in> (\<Union>row \<in> set rows. set (kept_version_ids r (tg_pair row) (tg_kind row)))" by blast
        qed
        then show ?thesis unfolding versions_wanted_def by (simp only: Un_assoc)
      qed
      moreover have not_other: "decided \<noteq> TableOther" using 4 by simp
      have "versions_after common ?pairs r plan =
          (common \<union> (?ids (structure_side r) (\<lambda>row. tg_kind row = TargetStructureSide) \<union>
             ?ids (structure_side r) (\<lambda>row. tg_kind row \<noteq> TargetStructureSide)) -
             ?ids (structure_side r) (\<lambda>row. tg_kind row \<noteq> TargetStructureSide)) \<union>
          ?ids (other_side r) (\<lambda>row. tg_kind row = TargetOtherSide)"
        unfolding versions_after_def assms(8) links(1,2) on_side split if_not_P [OF not_other] ..
      ultimately have "versions_after common ?pairs r plan = versions_wanted common r rows"
        by (simp only: exchanged_ids)
      with links(3) show ?thesis by blast
    qed
  qed
  then show "versions_after common ?pairs r plan = versions_wanted common r rows"
    "lk_new (pl_links plan) = concat (map (\<lambda>row. new_rows_of (tg_kind row)) rows)" by blast+
qed

end
