(* ===== verification/Merge_Results.thy ===== *)
theory Merge_Results
  imports Target_Rows
begin

section \<open>What the rows of a target hold\<close>

text \<open>
  A row of a target that takes parts of both versions has each part from the side the owner of the part takes,
  a row on one side only is kept when its unit takes that side, and the links of a plan lead to the rows of the target.
\<close>

subsection \<open>Owners of leaves are apart\<close>

lemma field_owned_apart:
  assumes "analyze_table_structure tk ids equal deq input = Inr s"
    "unique_names (sd_schema (in_head input))" "unique_names (sd_schema (in_draft input))"
    "l \<in> set (leaf_owners_of s)" "lw_owner l = OwnedByField" "l' \<in> set (leaf_owners_of s)" "l \<noteq> l'"
  shows "separate_pointers (lw_pointer l) (lw_pointer l')"
proof -
  obtain c where c: "lc_headLeaves c = leaves_of ids (sd_schema (in_head input))"
    "lc_draftLeaves c = leaves_of ids (sd_schema (in_draft input))"
    "st_unchangedLeaves s = unchanged_leaves equal c" "st_changedPointers s = changed_pointers equal c"
    by (rule analysis_parts [OF assms(1-3)]) blast
  have owned: "lw_pointer l \<in> leaf_pointer ` set (unchanged_leaves equal c)"
    using assms(4,5) by (auto simp: leaf_owners_of_def c(3))
  have head: "leaf_pointer u \<in> leaf_pointer ` set (lc_headLeaves c)" if "is_unchanged equal c u" for u
    using that leaves_at_None [of "lc_headLeaves c" "leaf_pointer u"] by (auto simp: is_unchanged_def split: option.splits)
  have both: "lw_pointer l \<in> leaf_pointer ` set (lc_headLeaves c)" "lw_pointer l \<in> leaf_pointer ` set (lc_draftLeaves c)"
    using owned head by (auto simp: unchanged_leaves_def)
  have "lw_pointer l' \<in> leaf_pointer ` set (unchanged_leaves equal c) \<union> set (changed_pointers equal c)"
    using assms(6) by (auto simp: leaf_owners_of_def c(3,4))
  then have other: "lw_pointer l' \<in> leaf_pointer ` set (lc_headLeaves c) \<union> leaf_pointer ` set (lc_draftLeaves c)"
    by (auto simp: changed_pointers_facts unchanged_leaves_def)
  have neq: "lw_pointer l \<noteq> lw_pointer l'"
    using analysed_owners_distinct [OF assms(1-3)] assms(4,6,7) by (auto simp: distinct_map inj_on_def)
  have apart: "separate_pointers p q" if "unique_names schema" "p \<noteq> q"
    "p \<in> leaf_pointer ` set (leaves_of ids schema)" "q \<in> leaf_pointer ` set (leaves_of ids schema)" for p q schema
    using that leaves_antichain [OF that(1)] by (auto simp: separate_pointers_def)
  from other show ?thesis
    using apart [OF assms(2) neq] apart [OF assms(3) neq] both c(1,2) by auto
qed

subsection \<open>Merging\<close>

text \<open>The version of a row that a row of the target holds.\<close>

fun version_in_target :: "table_rules \<Rightarrow> target_row \<Rightarrow> json row option" where
  "version_in_target r row =
     (case tg_kind row of
        TargetAbsent \<Rightarrow> None
      | TargetStructureSide \<Rightarrow> row_on_side (structure_side r) (tg_pair row)
      | TargetOtherSide \<Rightarrow> row_on_side (other_side r) (tg_pair row)
      | TargetMerged m \<Rightarrow> Some (content_row m))"

text \<open>
  A version that has each differing leaf and column of its row from the side that the unit owning it takes. A leaf
  that is computed, one outside \<open>stored\<close>, may have been computed anew; a schema hash that is that of the structure side
  may be that of the schema of the target instead.
\<close>

definition version_by_owners :: "json_pointer set \<Rightarrow> string \<Rightarrow> table_rules \<Rightarrow> catalogue_row \<Rightarrow> json row \<Rightarrow> bool" where
  "version_by_owners stored targetSchemaHash r row v \<longleftrightarrow>
     (\<forall>(path, key) \<in> set (cr_leaves row). \<exists>p from. parse_pointer path = Inr p \<and>
        row_on_side (side_taken_by (tr_rules r) key) (cr_pair row) = Some from \<and>
        (p \<in> stored \<longrightarrow> value_in p (Some (row_data v)) = value_in p (Some (row_data from)))) \<and>
     (\<forall>(column, key) \<in> set (cr_columns row). \<exists>from.
        row_on_side (side_taken_by (tr_rules r) key) (cr_pair row) = Some from \<and>
        (whole_column_equality (=) column v from \<or>
         column = SchemaHashColumn \<and> \<not> takes_other_side r key \<and> row_schemaHash v = targetSchemaHash))"

lemma version_by_ownersD:
  assumes "version_by_owners stored h r row v"
  shows "(path, key) \<in> set (cr_leaves row) \<Longrightarrow> \<exists>p from. parse_pointer path = Inr p \<and>
      row_on_side (side_taken_by (tr_rules r) key) (cr_pair row) = Some from \<and>
      (p \<in> stored \<longrightarrow> value_in p (Some (row_data v)) = value_in p (Some (row_data from)))"
    "(column, key) \<in> set (cr_columns row) \<Longrightarrow> \<exists>from.
      row_on_side (side_taken_by (tr_rules r) key) (cr_pair row) = Some from \<and>
      (whole_column_equality (=) column v from \<or>
       column = SchemaHashColumn \<and> \<not> takes_other_side r key \<and> row_schemaHash v = h)"
  using assms unfolding version_by_owners_def by blast+

lemma equal_values_sym: "(\<And>x y. equal x y \<Longrightarrow> equal y x) \<Longrightarrow> equal_values equal v w \<Longrightarrow> equal_values equal w v"
  by (cases v; cases w) auto

lemma whole_column_equality_sym:
  "(\<And>x y. equal x y \<Longrightarrow> equal y x) \<Longrightarrow> whole_column_equality equal column v w \<Longrightarrow> whole_column_equality equal column w v"
  by (cases column) auto

lemma equal_values_refl: "equal_values (=) v v"
  by (cases v) simp_all

lemma same_columns: "whole_column_equality (=) column v v"
  by (cases column) simp_all

text \<open>What agrees with a version by owners in all that the owners decide is one too.\<close>

lemma version_by_owners_agree:
  assumes "version_by_owners UNIV h r row v" "\<forall>p \<in> stored. value_in p (Some (row_data w)) = value_in p (Some (row_data v))"
    "row_id w = row_id v" "row_publishedAt w = row_publishedAt v" "row_meta w = row_meta v" "row_schemaHash w = row_schemaHash v"
  shows "version_by_owners stored h r row w"
proof -
  have column: "whole_column_equality (=) column w from" if "whole_column_equality (=) column v from" for column "from"
    using that assms(3-6) by (cases column) simp_all
  show ?thesis
    unfolding version_by_owners_def
  proof (intro conjI ballI, clarify)
    fix path key assume "(path, key) \<in> set (cr_leaves row)"
    from version_by_ownersD(1) [OF assms(1) this] assms(2) show "\<exists>p from. parse_pointer path = Inr p \<and>
        row_on_side (side_taken_by (tr_rules r) key) (cr_pair row) = Some from \<and>
        (p \<in> stored \<longrightarrow> value_in p (Some (row_data w)) = value_in p (Some (row_data from)))"
      by (metis UNIV_I)
  next
    fix x assume x: "x \<in> set (cr_columns row)"
    show "case x of (column, key) \<Rightarrow> \<exists>from. row_on_side (side_taken_by (tr_rules r) key) (cr_pair row) = Some from \<and>
        (whole_column_equality (=) column w from \<or>
         column = SchemaHashColumn \<and> \<not> takes_other_side r key \<and> row_schemaHash w = h)"
      using version_by_ownersD(2) [OF assms(1), of "fst x" "snd x"] x column assms(6) by (cases x) fastforce
  qed
qed

lemma version_on_sides:
  assumes "rp_head pair = Some head" "rp_draft pair = Some draft"
  obtains own other where "row_on_side (structure_side r) pair = Some own" "row_on_side (other_side r) pair = Some other"
    "row_version_on pair (structure_side r) = Inr own" "row_version_on pair (other_side r) = Inr other"
proof (cases "structure_side r")
  case HeadSide
  then show ?thesis using assms by (intro that [of head draft]) (simp_all add: other_side_def row_version_on_def)
next
  case DraftSide
  then show ?thesis using assms by (intro that [of draft head]) (simp_all add: other_side_def row_version_on_def)
qed

lemma distinct_sorted_wrt: "distinct xs \<Longrightarrow> sorted_wrt (\<noteq>) xs"
  by (induction xs) auto

text \<open>A row on both sides, as the catalogue describes it: what owns its leaves and columns.\<close>

definition schema_hash_of_version :: "string \<Rightarrow> new_version \<Rightarrow> string" where
  "schema_hash_of_version targetSchemaHash v =
     (case nv_otherSideSchemaHash v of None \<Rightarrow> targetSchemaHash | Some h \<Rightarrow> h)"

lemma merged_version:
  fixes leaves :: "leaf_owner list"
  assumes sides: "row_on_side (structure_side r) (cr_pair row) = Some own" "row_on_side (other_side r) (cr_pair row) = Some other"
    and leaves: "cr_leaves row = map (\<lambda>l. (pointer_string (lw_pointer l), key l)) leaves" "distinct leaves"
    and columns: "distinct (jkeys (cr_columns row))"
    and apart: "\<And>l l'. l \<in> set leaves \<Longrightarrow> l' \<in> set leaves \<Longrightarrow> takes_other_side r (key l) \<Longrightarrow> l \<noteq> l' \<Longrightarrow>
      separate_pointers (lw_pointer l) (lw_pointer l')"
    and objects: "\<And>l. l \<in> set leaves \<Longrightarrow> takes_other_side r (key l) \<Longrightarrow>
      objects_above (lw_pointer l) (row_data own) \<and> lw_pointer l \<noteq> []"
    and taken: "version_taking_other_side_parts
      \<lparr>rm_structureSide = own, rm_otherSide = other, rm_fromOtherSide = parts_from_other_side r row\<rparr> = Inr v"
  shows "version_by_owners UNIV h r row ((nv_row v)\<lparr>row_schemaHash := schema_hash_of_version h v\<rparr>)"
proof -
  let ?parts = "parts_from_other_side r row"
  let ?taken = "filter (\<lambda>l. takes_other_side r (key l)) leaves"
  let ?ps = "map lw_pointer ?taken"
  let ?m = "\<lparr>rm_structureSide = own, rm_otherSide = other, rm_fromOtherSide = ?parts\<rparr>"
  have paths: "os_paths ?parts = map pointer_string ?ps"
    by (simp add: parts_from_other_side_def leaves(1) filter_map comp_def)
  have "sorted_wrt separate_pointers ?ps"
    unfolding sorted_wrt_map
    by (rule sorted_wrt_mono_rel [OF _ distinct_sorted_wrt]) (use apart leaves(2) in auto)
  moreover have "\<forall>p \<in> set ?ps. objects_above p (row_data own) \<and> p \<noteq> []" using objects by auto
  ultimately obtain d where d: "fold_try (take_path other) (os_paths ?parts) (Some (row_data own)) = Inr (Some d)"
    "\<forall>p \<in> set ?ps. value_in p (Some d) = value_in p (Some (row_data other))"
    "\<forall>q. (\<forall>p \<in> set ?ps. separate_pointers p q) \<longrightarrow> value_in q (Some d) = value_in q (Some (row_data own))"
    using paths_taken [of ?ps "row_data own" other] unfolding paths by blast
  have v: "row_data (nv_row v) = d" "row_id (nv_row v) = row_id (side_taking ?m (os_id ?parts))"
    "row_publishedAt (nv_row v) = row_publishedAt (side_taking_column ?m PublishedAtColumn)"
    "row_meta (nv_row v) = row_meta (side_taking_column ?m MetaColumn)"
    "nv_otherSideSchemaHash v = other_side_schema_hash_of ?m"
    using taken d(1) by (auto simp: version_taking_other_side_parts_def data_taking_other_side_paths_def defined_data_def)
  have side: "row_on_side (side_taken_by (tr_rules r) k) (cr_pair row) = Some (if takes_other_side r k then other else own)" for k
    using sides takes_other_side_iff [of r k] side_taken_by_not_other [of r k] by auto
  show ?thesis
    unfolding version_by_owners_def
  proof (intro conjI ballI, clarify)
    fix path k assume "(path, k) \<in> set (cr_leaves row)"
    then obtain l where l: "l \<in> set leaves" "path = pointer_string (lw_pointer l)" "k = key l" by (auto simp: leaves(1))
    have "value_in (lw_pointer l) (Some d) = value_in (lw_pointer l) (Some (row_data (if takes_other_side r k then other else own)))"
    proof (cases "takes_other_side r k")
      case True
      with l d(2) show ?thesis by simp
    next
      case False
      then have "\<forall>p \<in> set ?ps. separate_pointers p (lw_pointer l)" using apart l by auto
      with False d(3) show ?thesis by simp
    qed
    then show "\<exists>p from. parse_pointer path = Inr p \<and> row_on_side (side_taken_by (tr_rules r) k) (cr_pair row) = Some from \<and>
        (p \<in> UNIV \<longrightarrow> value_in p (Some (row_data ((nv_row v)\<lparr>row_schemaHash := schema_hash_of_version h v\<rparr>))) =
           value_in p (Some (row_data from)))"
      unfolding side by (auto simp: v(1) l(2) parse_pointer_string)
  next
    fix x assume mem: "x \<in> set (cr_columns row)"
    obtain column k where x: "x = (column, k)" by (cases x)
    with mem columns have owner: "map_of (cr_columns row) column = Some k" by simp
    have "whole_column_equality (=) column ((nv_row v)\<lparr>row_schemaHash := schema_hash_of_version h v\<rparr>)
        (if takes_other_side r k then other else own) \<or>
      column = SchemaHashColumn \<and> \<not> takes_other_side r k \<and> schema_hash_of_version h v = h"
      using owner
      by (cases column) (simp_all add: v(2-5) schema_hash_of_version_def other_side_schema_hash_of_def side_taking_def
          side_taking_column_def parts_from_other_side_def takes_owner_other_side_def row_columns_def)
    then show "case x of (column, k) \<Rightarrow> \<exists>from. row_on_side (side_taken_by (tr_rules r) k) (cr_pair row) = Some from \<and>
        (whole_column_equality (=) column ((nv_row v)\<lparr>row_schemaHash := schema_hash_of_version h v\<rparr>) from \<or>
         column = SchemaHashColumn \<and> \<not> takes_other_side r k \<and>
         row_schemaHash ((nv_row v)\<lparr>row_schemaHash := schema_hash_of_version h v\<rparr>) = h)"
      unfolding x side by simp
  qed
qed

text \<open>
  A merged row that reads like the other side's version is taken as that version. Then no leaf and no column is owned by
  a unit of the structure side, as it would have to differ on the two sides and not.
\<close>

definition hash_tells_values :: "row_tools \<Rightarrow> (json \<Rightarrow> json \<Rightarrow> bool) \<Rightarrow> json row \<Rightarrow> bool" where
  "hash_tells_values tools equal v \<longleftrightarrow> (\<forall>data p. rt_hash tools data = row_hash v \<longrightarrow>
     equal_values equal (value_in p (Some data)) (value_in p (Some (row_data v))))"

lemma collapsed_version:
  assumes sides: "row_on_side (structure_side r) (cr_pair row) = Some own" "row_on_side (other_side r) (cr_pair row) = Some other"
    and merged: "version_by_owners stored h r row v" "\<not> differ_in_content equal v other" "row_hash v = rt_hash tools (row_data v)"
    and "hash_tells_values tools equal other"
    and leaves: "\<And>path key p. (path, key) \<in> set (cr_leaves row) \<Longrightarrow> parse_pointer path = Inr p \<Longrightarrow>
      \<not> equal_values equal (value_in p (Some (row_data own))) (value_in p (Some (row_data other)))"
    and columns: "\<And>column key. (column, key) \<in> set (cr_columns row) \<Longrightarrow> \<not> whole_column_equality equal column own other"
  shows "version_by_owners stored h r row other"
proof -
  have same: "equal_values equal (value_in p (Some (row_data v))) (value_in p (Some (row_data other)))" for p
    using merged(2,3) assms(6) by (simp add: differ_in_content_def hash_tells_values_def)
  have column: "whole_column_equality equal column v other" for column
  proof -
    have "column \<in> set whole_columns" by (cases column) (simp_all add: whole_columns_def)
    with merged(2) show ?thesis by (auto simp: differ_in_content_def differing_columns_of_def filter_empty_conv)
  qed
  have side: "row_on_side (side_taken_by (tr_rules r) k) (cr_pair row) = Some (if takes_other_side r k then other else own)" for k
    using sides takes_other_side_iff [of r k] side_taken_by_not_other [of r k] by auto
  show ?thesis
    unfolding version_by_owners_def side
  proof (intro conjI ballI, clarify)
    fix path key assume mem: "(path, key) \<in> set (cr_leaves row)"
    from version_by_ownersD(1) [OF merged(1) mem] obtain p where p: "parse_pointer path = Inr p"
      "p \<in> stored \<Longrightarrow> value_in p (Some (row_data v)) = value_in p (Some (row_data (if takes_other_side r key then other else own)))"
      unfolding side by auto
    have "takes_other_side r key" if "p \<in> stored"
    proof (rule ccontr)
      assume "\<not> takes_other_side r key"
      with p(2) that have "value_in p (Some (row_data v)) = value_in p (Some (row_data own))" by simp
      with same [of p] leaves [OF mem p(1)] show False by simp
    qed
    with p(1) show "\<exists>p from. parse_pointer path = Inr p \<and> Some (if takes_other_side r key then other else own) = Some from \<and>
        (p \<in> stored \<longrightarrow> value_in p (Some (row_data other)) = value_in p (Some (row_data from)))" by auto
  next
    fix x assume mem: "x \<in> set (cr_columns row)"
    obtain col key where x: "x = (col, key)" by (cases x)
    note mem = mem [unfolded x]
    from version_by_ownersD(2) [OF merged(1) mem]
    have v: "whole_column_equality (=) col v (if takes_other_side r key then other else own) \<or>
        col = SchemaHashColumn \<and> \<not> takes_other_side r key \<and> row_schemaHash v = h" unfolding side by simp
    have "whole_column_equality (=) col other (if takes_other_side r key then other else own) \<or>
        col = SchemaHashColumn \<and> \<not> takes_other_side r key \<and> row_schemaHash other = h"
    proof (cases "takes_other_side r key")
      case True
      then show ?thesis by (simp add: same_columns)
    next
      case False
      have "\<not> whole_column_equality (=) col v own"
        using column [of col] columns [OF mem] by (cases col) auto
      with v False column [of col] show ?thesis by auto
    qed
    then show "case x of (column, key) \<Rightarrow> \<exists>from. Some (if takes_other_side r key then other else own) = Some from \<and>
        (whole_column_equality (=) column other from \<or>
         column = SchemaHashColumn \<and> \<not> takes_other_side r key \<and> row_schemaHash other = h)" unfolding x by simp
  qed
qed

lemma outcome_of_differences_cases:
  fixes r :: table_rules and row :: catalogue_row
  defines "owners \<equiv> uniq (jvalues (cr_columns row) @ jvalues (cr_leaves row))"
  defines "taking \<equiv> filter (takes_other_side r) owners"
  obtains "taking = []" | "length taking = length owners" "outcome_of_differences r row = RowOtherSide"
  | "outcome_of_differences r row = RowMerge (parts_from_other_side r row)"
proof -
  have eq: "outcome_of_differences r row = (if length taking = 0 then RowStructureSide
      else if length taking = length owners \<and> \<not> ot_structureDiffers (tr_table r) then RowOtherSide
      else RowMerge (parts_from_other_side r row))"
    unfolding outcome_of_differences_def Let_def owners_def taking_def ..
  show ?thesis
  proof (cases "length taking = 0")
    case False
    note eq = eq [unfolded if_not_P [OF False]]
    show ?thesis
    proof (cases "length taking = length owners \<and> \<not> ot_structureDiffers (tr_table r)")
      case True
      with eq [unfolded if_P [OF True]] show ?thesis by (intro that(2)) blast+
    next
      case False
      show ?thesis by (rule that(3)) (rule eq [unfolded if_not_P [OF False]])
    qed
  qed (simp add: that(1))
qed

subsection \<open>New versions are those of the rows\<close>

text \<open>Recomputing computed fields gives data for each row.\<close>

definition recomputes_every_row :: "row_tools \<Rightarrow> bool" where
  "recomputes_every_row tools \<longleftrightarrow> (\<forall>target rows datas. rt_recompute tools target rows = Inr datas \<longrightarrow> length datas = length rows)"

text \<open>It keeps what is at the pointers in \<open>stored\<close>, those of the fields that are not computed.\<close>

definition recomputes_keeping :: "row_tools \<Rightarrow> json_pointer set \<Rightarrow> bool" where
  "recomputes_keeping tools stored \<longleftrightarrow> (\<forall>target rows datas. rt_recompute tools target rows = Inr datas \<longrightarrow>
     list_all2 (\<lambda>data row. \<forall>p \<in> stored. value_in p (Some data) = value_in p (Some (row_data row))) datas rows)"

lemma recomputes_keeping_nothing: "recomputes_keeping tools {} \<longleftrightarrow> recomputes_every_row tools"
  by (simp add: recomputes_keeping_def recomputes_every_row_def list_all2_conv_all_nth)

lemma recomputes_keeping_every_row: "recomputes_keeping tools stored \<Longrightarrow> recomputes_every_row tools"
  unfolding recomputes_keeping_def recomputes_every_row_def by (blast dest: list_all2_lengthD)

text \<open>A new version is made of a version: its identity, id and columns, and the data at \<open>stored\<close>.\<close>

definition version_made_of :: "row_tools \<Rightarrow> merge_target \<Rightarrow> json_pointer set \<Rightarrow> merged_row \<Rightarrow> new_version \<Rightarrow> bool" where
  "version_made_of tools target stored m v \<longleftrightarrow>
     nr_createdId m = row_createdId (nv_row v) \<and> nr_id m = row_id (nv_row v) \<and>
     nr_publishedAt m = row_publishedAt (nv_row v) \<and> nr_meta m = row_meta (nv_row v) \<and>
     nr_schemaHash m = schema_hash_of_version (rt_schemaHash tools (mt_schema target)) v \<and>
     nr_hash m = rt_hash tools (nr_data m) \<and>
     (\<forall>p \<in> stored. value_in p (Some (nr_data m)) = value_in p (Some (row_data (nv_row v))))"

lemma new_versions_made:
  assumes "recomputes_keeping tools stored" "new_versions_of tools vs target = Inr ms"
  shows "list_all2 (version_made_of tools target stored) ms vs"
proof (cases "vs = []")
  case False
  with assms(2) obtain datas where datas: "rt_recompute tools target (map nv_row vs) = Inr datas"
    and ms: "ms = map2 (\<lambda>r v. merged_row_of tools r (schema_hash_of_version (rt_schemaHash tools (mt_schema target)) v))
      (map2 (\<lambda>r data. r\<lparr>row_data := data\<rparr>) (map nv_row vs) datas) vs"
    by (auto simp: new_versions_of_def recompute_computed_leaves_def Let_def schema_hash_of_version_def)
  from assms(1) datas have "list_all2 (\<lambda>data row. \<forall>p \<in> stored. value_in p (Some data) = value_in p (Some (row_data row)))
      datas (map nv_row vs)" by (simp add: recomputes_keeping_def)
  then show ?thesis
    unfolding ms list_all2_conv_all_nth by (simp add: version_made_of_def merged_row_of_def)
qed (use assms(2) in \<open>simp add: new_versions_of_def\<close>)

lemma list_all2_maps_agree: "list_all2 P xs ys \<Longrightarrow> (\<And>x y. P x y \<Longrightarrow> f x = g y) \<Longrightarrow> map f xs = map g ys"
  by (induction rule: list_all2_induct) auto

lemma new_versions_of_ids:
  assumes "recomputes_every_row tools" "new_versions_of tools vs target = Inr ms"
  shows "map (\<lambda>m. (nr_createdId m, nr_id m)) ms = map (\<lambda>v. (row_createdId (nv_row v), row_id (nv_row v))) vs"
  by (rule list_all2_maps_agree [OF new_versions_made [OF assms(1) [folded recomputes_keeping_nothing] assms(2)]])
    (simp add: version_made_of_def)

lemma map_try_same:
  "map_try f xs = Inr ys \<Longrightarrow> (\<And>x y. x \<in> set xs \<Longrightarrow> f x = Inr y \<Longrightarrow> h y = k x) \<Longrightarrow> map h ys = map k xs"
  by (induction xs arbitrary: ys) auto

text \<open>The identity and the id of a version, and what a moving row takes of the other side.\<close>

definition version_ids_pair :: "json row \<Rightarrow> string \<times> string" where
  "version_ids_pair r = (row_createdId r, row_id r)"

definition moved_ids :: "table_rules \<Rightarrow> decided_row \<Rightarrow> string \<times> string" where
  "moved_ids r d = (rp_identity (cr_pair (de_row d)), row_id (the (row_on_side (other_side r) (cr_pair (de_row d)))))"

lemma migrated_ids:
  "fold_try (migrate_through_entry tools) entries (schema, rows) = Inr (schema', rows') \<Longrightarrow>
     map version_ids_pair rows' = map version_ids_pair rows"
  by (induction entries arbitrary: schema rows) (force simp: migrate_through_entry_def comp_def version_ids_pair_def)+

lemma new_versions_of_rows:
  assumes "recomputes_every_row tools" "new_versions_of tools (map version_of_row rs) target = Inr ms"
    "map version_ids_pair rs = ids"
  shows "map (\<lambda>m. (nr_createdId m, nr_id m)) ms = ids"
  unfolding new_versions_of_ids [OF assms(1,2)] assms(3) [symmetric]
  by (simp add: version_of_row_def version_ids_pair_def)

lemma moved_rows_ids:
  assumes "recomputes_every_row tools" "moved_rows tools a = Inr ms"
    "\<And>d v side. d \<in> set (ra_decided a) \<Longrightarrow> row_on_side side (cr_pair (de_row d)) = Some v \<Longrightarrow>
       row_createdId v = rp_identity (cr_pair (de_row d))"
  shows "ms = [] \<and> takes_unrecorded_draft_structure a \<or>
    map (\<lambda>m. (nr_createdId m, nr_id m)) ms = map (moved_ids (ra_rules a)) (rows_moving a)"
proof -
  obtain rows where rows: "map_try (\<lambda>d. row_version_on (cr_pair (de_row d)) (other_side (ra_rules a))) (rows_moving a) = Inr rows"
    and ms: "(if length rows = 0 then Inr []
       else if structure_side (ra_rules a) = HeadSide
       then map_into_head_structure tools rows (st_unchangedLeaves (re_structure (ra_table a))) (ra_target a)
       else case ra_draftStructure a of None \<Rightarrow> Inr [] | Some m \<Rightarrow> migrate_into_draft_structure tools rows m (ra_target a)) = Inr ms"
    using assms(2) by (auto simp: moved_rows_def)
  have created: "map version_ids_pair rows = map (moved_ids (ra_rules a)) (rows_moving a)"
    by (rule map_try_same [OF rows])
      (auto simp: row_version_on_def rows_moving_def version_ids_pair_def moved_ids_def intro: assms(3) split: option.splits)
  have len: "length rows = length (rows_moving a)" by (rule map_try_Inr_length [OF rows])
  consider "rows = []" "ms = []" | "ms = []" "takes_unrecorded_draft_structure a"
    | "map_into_head_structure tools rows (st_unchangedLeaves (re_structure (ra_table a))) (ra_target a) = Inr ms"
    | m where "migrate_into_draft_structure tools rows m (ra_target a) = Inr ms"
  proof (cases "rows = []")
    case True
    then show ?thesis using ms by (intro that(1)) simp_all
  next
    case False
    show ?thesis
    proof (cases "structure_side (ra_rules a)")
      case HeadSide
      then show ?thesis using ms False by (intro that(3)) simp
    next
      case DraftSide
      show ?thesis
      proof (cases "ra_draftStructure a")
        case None
        have "ms = []" using ms False DraftSide None by simp
        moreover have "takes_unrecorded_draft_structure a"
          using False DraftSide None len by (simp add: takes_unrecorded_draft_structure_def flip: length_greater_0_conv)
        ultimately show ?thesis by (rule that(2))
      next
        case (Some m)
        then show ?thesis using ms False DraftSide by (intro that(4) [of m]) simp
      qed
    qed
  qed
  then show ?thesis
  proof cases
    case 1
    then show ?thesis using created by simp
  next
    case 2
    then show ?thesis by blast
  next
    case 3
    then obtain rs where rs: "map_try (with_head_defaults tools (st_unchangedLeaves (re_structure (ra_table a)))
        (mt_schema (ra_target a))) rows = Inr rs" "new_versions_of tools (map version_of_row rs) (ra_target a) = Inr ms"
      by (auto simp: map_into_head_structure_def)
    have "map version_ids_pair rs = map version_ids_pair rows"
      by (rule map_try_same [OF rs(1)]) (auto simp: with_head_defaults_def version_ids_pair_def)
    then show ?thesis using new_versions_of_rows [OF assms(1) rs(2)] created by simp
  next
    case 4
    then obtain rs where rs: "migrated_through_pending_history tools rows m = Inr rs"
      "new_versions_of tools (map version_of_row rs) (ra_target a) = Inr ms"
      by (auto simp: migrate_into_draft_structure_def)
    have "map version_ids_pair rs = map version_ids_pair rows"
      using rs(1) migrated_ids by (fastforce simp: migrated_through_pending_history_def)
    then show ?thesis using new_versions_of_rows [OF assms(1) rs(2)] created by simp
  qed
qed

lemma moved_rows_created:
  assumes "recomputes_every_row tools" "moved_rows tools a = Inr ms" "\<not> takes_unrecorded_draft_structure a"
    "\<And>d v side. d \<in> set (ra_decided a) \<Longrightarrow> row_on_side side (cr_pair (de_row d)) = Some v \<Longrightarrow>
       row_createdId v = rp_identity (cr_pair (de_row d))"
  shows "map nr_createdId ms = map (\<lambda>d. rp_identity (cr_pair (de_row d))) (rows_moving a)"
proof -
  have "map (\<lambda>m. (nr_createdId m, nr_id m)) ms = map (moved_ids (ra_rules a)) (rows_moving a)"
    by (rule disjE [OF moved_rows_ids [OF assms(1,2)]]) (use assms(3,4) in auto)
  from arg_cong [OF this, of "map fst"] show ?thesis by (simp add: comp_def moved_ids_def)
qed

text \<open>Versions of a row carry the identity of the row.\<close>

definition identified :: "catalogue_row \<Rightarrow> bool" where
  "identified row \<longleftrightarrow>
     list_all (\<lambda>side. case row_on_side side (cr_pair row) of None \<Rightarrow> True
       | Some v \<Rightarrow> row_createdId v = rp_identity (cr_pair row)) [HeadSide, DraftSide]"

lemma decided_rows:
  assumes "read_table_assembly t r operation target = Inr a"
  shows "ra_rules a = r" "ra_decided a = map (\<lambda>row. \<lparr>de_row = row, de_outcome = row_outcome_of r row\<rparr>) (re_rows t)"
    "ra_target a = target"
  using assms by (auto simp: read_table_assembly_def)

lemma merged_row_made:
  assumes "recomputes_keeping tools stored" "read_table_assembly t r operation target = Inr a" "merged_rows tools a = Inr ms"
    "m \<in> set ms"
  obtains c parts own other v where "c \<in> set (re_rows t)" "row_outcome_of r c = RowMerge parts"
    "row_on_side (structure_side r) (cr_pair c) = Some own" "row_on_side (other_side r) (cr_pair c) = Some other"
    "version_taking_other_side_parts \<lparr>rm_structureSide = own, rm_otherSide = other, rm_fromOtherSide = parts\<rparr> = Inr v"
    "version_made_of tools target stored m v"
proof -
  note a = decided_rows [OF assms(2)]
  obtain merges versions where run: "map_try (row_merges_of r) (ra_decided a) = Inr merges"
    "map_try version_taking_other_side_parts (concat merges) = Inr versions"
    "new_versions_of tools versions target = Inr ms"
    using assms(3) by (auto simp: merged_rows_def merge_rows_def a(1,3))
  from list_all2_first [OF new_versions_made [OF assms(1) run(3)] assms(4)]
  obtain v where v: "v \<in> set versions" "version_made_of tools target stored m v" by blast
  from v(1) run(2) obtain merge where merge: "merge \<in> set (concat merges)" "version_taking_other_side_parts merge = Inr v"
    unfolding map_try_Inr_iff by (blast dest: list_all2_second)
  from merge(1) obtain ms' where "merge \<in> set ms'" "ms' \<in> set merges" by auto
  with run(1) obtain d where d: "d \<in> set (ra_decided a)" "row_merges_of r d = Inr ms'" "merge \<in> set ms'"
    unfolding map_try_Inr_iff by (blast dest: list_all2_second)
  from d(1) obtain c where c: "c \<in> set (re_rows t)" "de_row d = c" "de_outcome d = row_outcome_of r c" by (auto simp: a(2))
  from d(2,3) c(2,3) obtain parts own other where parts: "row_outcome_of r c = RowMerge parts"
    "row_version_on (cr_pair c) (structure_side r) = Inr own" "row_version_on (cr_pair c) (other_side r) = Inr other"
    "merge = \<lparr>rm_structureSide = own, rm_otherSide = other, rm_fromOtherSide = parts\<rparr>"
    by (auto simp: row_merges_of_def split: row_outcome.splits)
  have "row_on_side (structure_side r) (cr_pair c) = Some own" "row_on_side (other_side r) (cr_pair c) = Some other"
    using parts(2,3) by (simp_all add: row_version_on_def split: option.splits)
  from that [OF c(1) parts(1) this merge(2) [unfolded parts(4)] v(2)] show ?thesis .
qed

lemma moved_row_ids:
  assumes "recomputes_every_row tools" "read_table_assembly t r operation target = Inr a" "moved_rows tools a = Inr ms"
    "m \<in> set ms" "list_all identified (re_rows t)"
  obtains c v where "c \<in> set (re_rows t)" "row_outcome_of r c = RowMove" "nr_createdId m = rp_identity (cr_pair c)"
    "row_on_side (other_side r) (cr_pair c) = Some v" "nr_id m = row_id v"
proof -
  note a = decided_rows [OF assms(2)]
  have created: "row_createdId v = rp_identity (cr_pair (de_row d))"
    if "d \<in> set (ra_decided a)" "row_on_side side (cr_pair (de_row d)) = Some v" for d v side
    using that assms(5) by (cases side) (auto simp: a(2) identified_def list_all_iff)
  have ids: "map (\<lambda>m. (nr_createdId m, nr_id m)) ms = map (moved_ids r) (rows_moving a)"
    by (rule disjE [OF moved_rows_ids [OF assms(1,3) created]]) (use assms(4) a(1) in auto)
  have "(nr_createdId m, nr_id m) \<in> set (map (\<lambda>m. (nr_createdId m, nr_id m)) ms)" using assms(4) by force
  then have "(nr_createdId m, nr_id m) \<in> set (map (moved_ids r) (rows_moving a))" unfolding ids .
  then obtain d where d: "d \<in> set (ra_decided a)" "de_outcome d = RowMove" "(nr_createdId m, nr_id m) = moved_ids r d"
    by (auto simp: rows_moving_def)
  obtain rows where "map_try (\<lambda>d. row_version_on (cr_pair (de_row d)) (other_side r)) (rows_moving a) = Inr rows"
    using assms(3) a(1) by (auto simp: moved_rows_def)
  moreover have "d \<in> set (rows_moving a)" using d by (simp add: rows_moving_def)
  ultimately obtain v where "row_version_on (cr_pair (de_row d)) (other_side r) = Inr v"
    unfolding map_try_Inr_iff by (blast dest: list_all2_first)
  with d show ?thesis
    by (intro that [of "de_row d" v]) (auto simp: a(2) moved_ids_def row_version_on_def split: option.splits)
qed

subsection \<open>Properties\<close>

text \<open>A row both versions hold, as the catalogue describes it.\<close>

lemma differing_row:
  assumes "analyze_table_structure tk ids equal deq input = Inr (ct_structure ct)"
    "unique_names (sd_schema (in_head input))" "unique_names (sd_schema (in_draft input))"
    "build_row_units equal ct = Inr units" "row \<in> set (ru_rows units)"
    "rp_head (cr_pair row) = Some head" "rp_draft (cr_pair row) = Some draft"
  defines "leaves \<equiv> differing_leaves_of equal head draft (leaf_owners_of (ct_structure ct))"
    and "key \<equiv> owner_key_of_leaf (row_units_builder ct) (rp_identity (cr_pair row))"
  shows "cr_existence row = None" "cr_leaves row = map (\<lambda>l. (pointer_string (lw_pointer l), key l)) leaves" "distinct leaves"
    "jkeys (cr_columns row) = differing_columns_of equal head draft"
proof -
  note distinct = analysed_owners_distinct [OF assms(1-3)]
  obtain pair where row: "row = row_of_pair equal (row_units_builder ct) pair" "pair = cr_pair row"
    using assms(5) build_row_units_facts(1) [OF assms(4) distinct] by auto
  then have row: "row = row_of_pair equal (row_units_builder ct) (cr_pair row)" by simp
  show "cr_existence row = None" "cr_leaves row = map (\<lambda>l. (pointer_string (lw_pointer l), key l)) leaves"
    "jkeys (cr_columns row) = differing_columns_of equal head draft"
    using arg_cong [OF row, of cr_existence] arg_cong [OF row, of cr_leaves] arg_cong [OF row, of cr_columns] assms(6,7)
    by (simp_all add: row_of_pair_def comp_def leaves_def key_def)
  show "distinct leaves" using distinct by (simp add: leaves_def differing_leaves_of_def distinct_map)
qed

lemma merged_row_by_owners:
  assumes "analyze_table_structure tk ids equal deq input = Inr (ct_structure ct)"
    "unique_names (sd_schema (in_head input))" "unique_names (sd_schema (in_draft input))"
    "build_row_units equal ct = Inr units" "row \<in> set (ru_rows units)"
    "rp_head (cr_pair row) = Some head" "rp_draft (cr_pair row) = Some draft"
    "st_differs (ct_structure ct) \<longrightarrow> tk_structure (ot_units (tr_table r)) = Some (structure_unit_key [ct_identity ct])"
    "\<And>leaf. leaf \<in> set (leaf_owners_of (ct_structure ct)) \<Longrightarrow> lw_owner leaf = OwnedByField \<Longrightarrow>
       lw_pointer leaf \<noteq> [] \<and> objects_above (lw_pointer leaf) (row_data own)"
    "row_on_side (structure_side r) (cr_pair row) = Some own" "row_on_side (other_side r) (cr_pair row) = Some other"
    "version_taking_other_side_parts
      \<lparr>rm_structureSide = own, rm_otherSide = other, rm_fromOtherSide = parts_from_other_side r row\<rparr> = Inr v"
  shows "version_by_owners UNIV h r row ((nv_row v)\<lparr>row_schemaHash := schema_hash_of_version h v\<rparr>)"
proof -
  let ?leaves = "differing_leaves_of equal head draft (leaf_owners_of (ct_structure ct))"
  let ?key = "owner_key_of_leaf (row_units_builder ct) (rp_identity (cr_pair row))"
  note parts = differing_row [OF assms(1-7)]
  have owners: "set ?leaves \<subseteq> set (leaf_owners_of (ct_structure ct))" by (auto simp: differing_leaves_of_def)
  have field: "lw_owner l = OwnedByField" if "l \<in> set ?leaves" "takes_other_side r (?key l)" for l
  proof (rule ccontr)
    assume "lw_owner l \<noteq> OwnedByField"
    then have owner: "lw_owner l = OwnedByStructure" by (cases "lw_owner l") simp_all
    with that(1) have "st_differs (ct_structure ct)"
      by (intro structure_owner_differs(1) [OF assms(1-3), of l]) (simp_all add: differing_leaves_of_def)
    with assms(8) structure_never_other that(2) owner show False by (simp add: owner_key_of_leaf_def)
  qed
  show ?thesis
  proof (rule merged_version [OF assms(10,11) parts(2,3)])
    show "distinct (jkeys (cr_columns row))" by (simp add: parts(4) differing_columns_of_def whole_columns_def)
    show "separate_pointers (lw_pointer l) (lw_pointer l')"
      if "l \<in> set ?leaves" "l' \<in> set ?leaves" "takes_other_side r (?key l)" "l \<noteq> l'" for l l'
      using field_owned_apart [OF assms(1-3) _ field [OF that(1,3)] _ that(4)] that(1,2) owners by blast
    show "objects_above (lw_pointer l) (row_data own) \<and> lw_pointer l \<noteq> []"
      if "l \<in> set ?leaves" "takes_other_side r (?key l)" for l
      using assms(9) field [OF that] that(1) owners by blast
  qed (rule assms(12))
qed

text \<open>A version that is taken whole is by owners when every owner takes its side.\<close>

lemma whole_version_by_owners:
  assumes "\<And>k. k \<in> set (uniq (jvalues (cr_columns row) @ jvalues (cr_leaves row))) \<Longrightarrow>
      row_on_side (side_taken_by (tr_rules r) k) (cr_pair row) = Some v"
    and "cr_leaves row = map (\<lambda>l. (pointer_string (pointer l), key l)) leaves"
  shows "version_by_owners stored h r row v"
proof -
  have "row_on_side (side_taken_by (tr_rules r) k) (cr_pair row) = Some v" if "(path, k) \<in> set (cr_leaves row)" for path k
    using that by (intro assms(1)) force
  moreover have "row_on_side (side_taken_by (tr_rules r) k) (cr_pair row) = Some v" if "(column, k) \<in> set (cr_columns row)" for column k
    using that by (intro assms(1)) force
  ultimately show ?thesis
    unfolding version_by_owners_def assms(2) by (auto simp: parse_pointer_string same_columns)
qed

text \<open>The new version of a row that is merged.\<close>

lemma new_version_of_merged_row:
  assumes "recomputes_keeping tools stored" "read_table_assembly t r operation target = Inr a"
    "new_versions tools a = Inr vs" "list_all identified (re_rows t)" "distinct (map (\<lambda>row. rp_identity (cr_pair row)) (re_rows t))"
    "row \<in> set (re_rows t)" "row_outcome_of r row = RowMerge parts" "map_of vs (rp_identity (cr_pair row)) = Some m"
    "row_on_side (structure_side r) (cr_pair row) = Some own" "row_on_side (other_side r) (cr_pair row) = Some other"
  obtains v where
    "version_taking_other_side_parts \<lparr>rm_structureSide = own, rm_otherSide = other, rm_fromOtherSide = parts\<rparr> = Inr v"
    "version_made_of tools target stored m v"
proof -
  have same: "d = row" if "d \<in> set (re_rows t)" "rp_identity (cr_pair d) = rp_identity (cr_pair row)" for d
    using assms(5,6) that by (auto simp: distinct_map inj_on_def)
  obtain merged moved where run: "merged_rows tools a = Inr merged" "moved_rows tools a = Inr moved"
    "vs = jmap_of (map (\<lambda>r. (nr_createdId r, r)) (merged @ moved))"
    using assms(3) by (auto simp: new_versions_def)
  from assms(8) have m: "m \<in> set merged \<or> m \<in> set moved" "nr_createdId m = rp_identity (cr_pair row)"
    by (auto simp: run(3) map_of_jmap_of dest!: map_of_SomeD)
  have "m \<notin> set moved"
  proof
    assume "m \<in> set moved"
    from moved_row_ids [OF recomputes_keeping_every_row [OF assms(1)] assms(2) run(2) this assms(4)] obtain d where
      "d \<in> set (re_rows t)" "row_outcome_of r d = RowMove" "nr_createdId m = rp_identity (cr_pair d)" by metis
    with m(2) same [of d] assms(7) show False by simp
  qed
  with m(1) have "m \<in> set merged" by blast
  from merged_row_made [OF assms(1,2) run(1) this] obtain c parts' own' other' v where c: "c \<in> set (re_rows t)"
    "row_outcome_of r c = RowMerge parts'" "row_on_side (structure_side r) (cr_pair c) = Some own'"
    "row_on_side (other_side r) (cr_pair c) = Some other'"
    "version_taking_other_side_parts \<lparr>rm_structureSide = own', rm_otherSide = other', rm_fromOtherSide = parts'\<rparr> = Inr v"
    "version_made_of tools target stored m v" by metis
  have "row_createdId own' = rp_identity (cr_pair c)"
    using assms(4) c(1,3) by (cases "structure_side r") (auto simp: list_all_iff identified_def)
  moreover have "nr_createdId m = row_createdId own'"
    using c(5,6) by (auto simp: version_made_of_def version_taking_other_side_parts_def)
  ultimately have "c = row" using m(2) same c(1) by simp
  with c assms(7,9,10) show ?thesis by (intro that [of v]) simp_all
qed

text \<open>
  Claim C8: in the target that is assembled of a table, a row both versions hold has each of its differing leaves and each of
  its differing columns from the side that the unit owning it takes, whether the target keeps a version, takes
  the other one, writes a merged one, or takes the other one because the merged one reads like it. A hash of the schema
  that is not taken from the other side may be that of the target's schema, which a written version gets; leaves that
  the services compute anew, those outside \<open>stored\<close>, are theirs. The services are taken to compute nothing
  else, \<^verbatim>\<open>deepEqual\<close> to be symmetric, equal hashes of data to mean equal values, the rows to carry identities of
  their own, the schemas to name a property once, a table whose structure differs to have its structure unit, and the data
  of the row to be of the shape the schema gives it, with objects above each field.
\<close>

theorem row_parts_come_from_owners_sides:
  assumes "analyze_table_structure tk ids equal deq input = Inr (ct_structure ct)"
    "unique_names (sd_schema (in_head input))" "unique_names (sd_schema (in_draft input))"
    "build_row_units equal ct = Inr units" "row \<in> set (ru_rows units)"
    "rp_head (cr_pair row) = Some head" "rp_draft (cr_pair row) = Some draft"
    "re_rows t = ru_rows units" "list_all identified (re_rows t)" "distinct (map (\<lambda>row. rp_identity (cr_pair row)) (re_rows t))"
    "st_differs (ct_structure ct) \<Longrightarrow> tk_structure (ot_units (tr_table r)) = Some (structure_unit_key [ct_identity ct])"
    "\<And>leaf. leaf \<in> set (leaf_owners_of (ct_structure ct)) \<Longrightarrow> lw_owner leaf = OwnedByField \<Longrightarrow>
       lw_pointer leaf \<noteq> [] \<and> objects_above (lw_pointer leaf) (row_data head) \<and> objects_above (lw_pointer leaf) (row_data draft)"
    "read_table_assembly t r operation target = Inr a" "assemble_table tools ids' equal a = Inr assembled"
    "recomputes_keeping tools stored" "\<And>x y. equal x y \<Longrightarrow> equal y x"
    "hash_tells_values tools equal head" "hash_tells_values tools equal draft"
  shows "\<exists>targetRow \<in> set (pl_rows (ab_plan assembled)). tg_pair targetRow = cr_pair row \<and>
    (\<exists>v. version_in_target r targetRow = Some v \<and>
       version_by_owners stored (rt_schemaHash tools (mt_schema target)) r row v)"
proof -
  note parts = differing_row [OF assms(1-7)]
  note a = decided_rows [OF assms(13)]
  let ?h = "rt_schemaHash tools (mt_schema target)"
  obtain own other where sides: "row_on_side (structure_side r) (cr_pair row) = Some own"
    "row_on_side (other_side r) (cr_pair row) = Some other"
    by (rule version_on_sides [OF assms(6,7)])
  have which: "own = head \<and> other = draft \<or> own = draft \<and> other = head"
    using sides assms(6,7) by (cases "structure_side r") (simp_all add: other_side_def)
  obtain rows vs where rows: "pl_rows (ab_plan assembled) = rows" "new_versions tools a = Inr vs"
    "map_try (\<lambda>d. target_row_of equal (cr_pair (de_row d)) (de_outcome d) (map_of vs (rp_identity (cr_pair (de_row d)))) r)
       (ra_decided a) = Inr rows"
    using assms(14) by (auto simp: assemble_table_def target_rows_def Let_def a(1))
  have mem: "row \<in> set (re_rows t)" using assms(5,8) by simp
  then have "\<lparr>de_row = row, de_outcome = row_outcome_of r row\<rparr> \<in> set (ra_decided a)" by (simp add: a(2))
  from list_all2_first [OF rows(3) [unfolded map_try_Inr_iff] this] obtain targetRow where
    found: "targetRow \<in> set rows" "target_row_of equal (cr_pair row) (row_outcome_of r row) (map_of vs (rp_identity (cr_pair row))) r = Inr targetRow"
    by auto
  have pair: "tg_pair targetRow = cr_pair row" by (rule target_row_kinds(1) [OF found(2)])
  have decided: "row_outcome_of r row = outcome_of_differences r row"
    using sides by (simp add: row_outcome_of_def parts(1))
  let ?owners = "uniq (jvalues (cr_columns row) @ jvalues (cr_leaves row))"
  have "\<exists>v. version_in_target r targetRow = Some v \<and> version_by_owners stored ?h r row v"
  proof (rule outcome_of_differences_cases [of r row])
    assume none: "filter (takes_other_side r) ?owners = []"
    then have "outcome_of_differences r row = RowStructureSide" by (simp add: outcome_of_differences_def Let_def)
    with found(2) decided have "tg_kind targetRow = TargetStructureSide" by (auto simp: target_row_of_def)
    moreover have "version_by_owners stored ?h r row own"
      using none sides(1) by (intro whole_version_by_owners [OF _ parts(2)]) (simp add: filter_empty_conv side_taken_by_not_other)
    ultimately show ?thesis using sides(1) pair by simp
  next
    assume all: "length (filter (takes_other_side r) ?owners) = length ?owners" and "outcome_of_differences r row = RowOtherSide"
    with found(2) decided have "tg_kind targetRow = TargetOtherSide" by (auto simp: target_row_of_def)
    moreover have "\<forall>k \<in> set ?owners. takes_other_side r k" using all by (blast intro: all_kept_by_filter)
    then have "version_by_owners stored ?h r row other"
      using sides(2) by (intro whole_version_by_owners [OF _ parts(2)]) (simp add: takes_other_side_iff)
    ultimately show ?thesis using sides(2) pair by simp
  next
    assume merge: "outcome_of_differences r row = RowMerge (parts_from_other_side r row)"
    with found(2) decided obtain m where m: "map_of vs (rp_identity (cr_pair row)) = Some m"
      "targetRow = collapsed_row_of equal (cr_pair row) m r" by (auto simp: target_row_of_def split: option.splits)
    obtain v where v: "version_taking_other_side_parts
        \<lparr>rm_structureSide = own, rm_otherSide = other, rm_fromOtherSide = parts_from_other_side r row\<rparr> = Inr v"
      "version_made_of tools target stored m v"
      by (rule new_version_of_merged_row [OF assms(15,13) rows(2) assms(9,10) mem decided [unfolded merge] m(1) sides])
    have merged: "version_by_owners stored ?h r row (content_row m)"
    proof (rule version_by_owners_agree)
      show "version_by_owners UNIV ?h r row ((nv_row v)\<lparr>row_schemaHash := schema_hash_of_version ?h v\<rparr>)"
        by (rule merged_row_by_owners [OF assms(1-7) _ _ sides v(1)]) (use assms(11,12) which in auto)
    qed (use v(2) in \<open>simp_all add: content_row_def version_made_of_def\<close>)
    have collapsed: "version_by_owners stored ?h r row other" if "\<not> differ_in_content equal (content_row m) other"
    proof (rule collapsed_version [OF sides merged that])
      show "row_hash (content_row m) = rt_hash tools (row_data (content_row m))"
        using v(2) by (simp add: content_row_def version_made_of_def)
      show "hash_tells_values tools equal other" using which assms(17,18) by blast
      show "\<not> equal_values equal (value_in p (Some (row_data own))) (value_in p (Some (row_data other)))"
        if "(path, key) \<in> set (cr_leaves row)" "parse_pointer path = Inr p" for path key p
        using that which equal_values_sym [of equal, OF assms(16)]
        by (auto simp: parts(2) differing_leaves_of_def parse_pointer_string)
      show "\<not> whole_column_equality equal column own other" if "(column, key) \<in> set (cr_columns row)" for column key
      proof -
        have "column \<in> set (jkeys (cr_columns row))" using that by force
        then have "\<not> whole_column_equality equal column head draft" by (simp add: parts(4) differing_columns_of_def)
        with which whole_column_equality_sym [of equal, OF assms(16)] show ?thesis by blast
      qed
    qed
    show ?thesis
      using merged collapsed sides(2) by (auto simp: m(2) collapsed_row_of_def)
  qed
  with found(1) pair show ?thesis unfolding rows(1) by blast
qed

text \<open>A post whose title and body differ; a commit of its title alone.\<close>

definition example_post_schema :: json where
  "example_post_schema = object_schema [(''body'', string_schema), (''title'', string_schema)]"

definition example_post_input :: table_structure_input where
  "example_post_input =
     \<lparr>in_head = example_side example_post_schema, in_draft = example_side example_post_schema,
      in_pendingMigrations = [], in_replayedHeadSchema = None\<rparr>"

definition example_post_structure :: table_structure where
  "example_post_structure =
     (let leaf = (\<lambda>name. \<lparr>leaf_pointer = [name], leaf_kind = ValueLeaf, leaf_schema = string_schema\<rparr>)
      in \<lparr>st_pendingHistory = ExtendsHead [], st_recorded = True, st_differs = False,
          st_unchangedLeaves = [leaf ''body'', leaf ''title''], st_changedPointers = [], st_changedLeaves = [],
          st_publishedAtOwner = RowColumnsOwner\<rparr>)"

definition example_posts :: changed_table where
  "example_posts =
     \<lparr>ct_identity = ''T'', ct_tableId = ''posts'', ct_structure = example_post_structure,
      ct_pairs =
        [\<lparr>rp_identity = ''c-a'', rp_head = Some ((example_row ''a'' (JObj [(''body'', JStr ''old''), (''title'', JStr ''Old'')]))\<lparr>row_hash := ''old''\<rparr>),
          rp_draft = Some ((example_row ''a'' (JObj [(''body'', JStr ''new''), (''title'', JStr ''New'')]))
            \<lparr>row_versionId := ''v-draft'', row_hash := ''new''\<rparr>)\<rparr>]\<rparr>"

definition example_post_units :: row_units where
  "example_post_units =
     (let unit = (\<lambda>name. \<lparr>ca_key = field_unit_key ''T'' ''c-a'' [name], ca_tableIdentities = [''T''], ca_rowIdentities = [''c-a''],
            ca_systemRows = [], ca_side = None,
            ca_unit = \<lparr>cu_kind = FieldUnit, cu_tableId = ''posts'', cu_previousTableId = None, cu_rowId = Some ''a'',
              cu_previousRowId = None, cu_path = Some (CHR ''/'' # name), cu_columns = None\<rparr>\<rparr>)
      in \<lparr>ru_units = [unit ''body'', unit ''title''],
          ru_rows = [\<lparr>cr_pair = hd (ct_pairs example_posts), cr_existence = None, cr_columns = [],
            cr_leaves = [(''/body'', field_unit_key ''T'' ''c-a'' [''body'']), (''/title'', field_unit_key ''T'' ''c-a'' [''title''])]\<rparr>]\<rparr>)"

definition example_title_rules :: table_rules where
  "example_title_rules = rules_for_table
     \<lparr>ap_operation = CommitOp, ap_applied = [field_unit_key ''T'' ''c-a'' [''title'']], ap_wholeDraft = False\<rparr>
     \<lparr>ot_units = \<lparr>tk_structure = None, tk_rows = map ca_key (ru_units example_post_units)\<rparr>, ot_structureDiffers = False\<rparr>"

lemma example_post_computed:
  "analyze_table_structure root_toolkit example_ids (=) (=) example_post_input = Inr (ct_structure example_posts) \<and>
   unique_names example_post_schema \<and> \<not> st_differs (ct_structure example_posts) \<and>
   build_row_units (=) example_posts = Inr example_post_units \<and> length (ru_rows example_post_units) = 1 \<and>
   cr_pair (ru_rows example_post_units ! 0) = ct_pairs example_posts ! 0 \<and>
   map lw_pointer (leaf_owners_of (ct_structure example_posts)) = [[''body''], [''title'']]"
  by code_simp

lemmas example_post_facts =
  example_post_computed [THEN conjunct1]
  example_post_computed [THEN conjunct2, THEN conjunct1]
  example_post_computed [THEN conjunct2, THEN conjunct2, THEN conjunct1]
  example_post_computed [THEN conjunct2, THEN conjunct2, THEN conjunct2, THEN conjunct1]
  example_post_computed [THEN conjunct2, THEN conjunct2, THEN conjunct2, THEN conjunct2, THEN conjunct1]
  example_post_computed [THEN conjunct2, THEN conjunct2, THEN conjunct2, THEN conjunct2, THEN conjunct2, THEN conjunct1]
  example_post_computed [THEN conjunct2, THEN conjunct2, THEN conjunct2, THEN conjunct2, THEN conjunct2, THEN conjunct2]

text \<open>
  Claim C7: when nothing blocks the plan of a table, a row that is on one side only, or whose existence a unit decides,
  is in the target exactly when the side its unit takes has it: nothing is lost on the way to another structure.
\<close>

theorem unblocked_target_keeps_taken_rows:
  assumes "recomputes_every_row tools" "read_table_assembly t r operation target = Inr a"
    "assemble_table tools ids equal a = Inr assembled" "ab_blockers assembled = []"
    "\<And>row side v. row \<in> set (re_rows t) \<Longrightarrow> row_on_side side (cr_pair row) = Some v \<Longrightarrow> row_createdId v = rp_identity (cr_pair row)"
    "row \<in> set (re_rows t)" "cr_existence row = Some key"
  shows "\<exists>targetRow \<in> set (pl_rows (ab_plan assembled)). tg_pair targetRow = cr_pair row \<and>
    (tg_kind targetRow = TargetAbsent \<longleftrightarrow> row_on_side (side_taken_by (tr_rules r) key) (cr_pair row) = None)"
proof -
  let ?d = "\<lparr>de_row = row, de_outcome = row_outcome_of r row\<rparr>"
  have a: "ra_rules a = r" "ra_table a = t" "ra_decided a = map (\<lambda>row. \<lparr>de_row = row, de_outcome = row_outcome_of r row\<rparr>) (re_rows t)"
    using assms(2) by (auto simp: read_table_assembly_def)
  obtain rows where rows: "target_rows tools equal a = Inr rows" "pl_rows (ab_plan assembled) = rows"
    "ab_blockers assembled = unrecorded_structure_blockers a"
    using assms(3) by (auto simp: assemble_table_def Let_def)
  obtain merged moved where vs: "moved_rows tools a = Inr moved"
    "map_try (\<lambda>d. target_row_of equal (cr_pair (de_row d)) (de_outcome d)
       (map_of (jmap_of (map (\<lambda>r. (nr_createdId r, r)) (merged @ moved))) (rp_identity (cr_pair (de_row d)))) r) (ra_decided a) = Inr rows"
    using rows(1) by (auto simp: target_rows_def new_versions_def Let_def a(1))
  let ?new = "map_of (jmap_of (map (\<lambda>r. (nr_createdId r, r)) (merged @ moved))) (rp_identity (cr_pair row))"
  have recorded: "\<not> takes_unrecorded_draft_structure a" using rows(3) assms(4) by (auto simp: unrecorded_structure_blockers_def)
  have created: "map nr_createdId moved = map (\<lambda>d. rp_identity (cr_pair (de_row d))) (rows_moving a)"
    by (rule moved_rows_created [OF assms(1) vs(1) recorded]) (use assms(5) in \<open>auto simp: a(3)\<close>)
  have new: "?new \<noteq> None" if "row_outcome_of r row = RowMove"
  proof -
    have "?d \<in> set (rows_moving a)" using that assms(6) by (simp add: rows_moving_def a(3) image_iff)
    then have "rp_identity (cr_pair row) \<in> set (map nr_createdId moved)" unfolding created by force
    then have "rp_identity (cr_pair row) \<in> fst ` set (map (\<lambda>r. (nr_createdId r, r)) (merged @ moved))" by force
    then show ?thesis unfolding map_of_jmap_of by (simp only: map_of_eq_None_iff set_rev) blast
  qed
  have "\<exists>targetRow \<in> set rows. target_row_of equal (cr_pair row) (row_outcome_of r row) ?new r = Inr targetRow"
    using list_all2_first [OF vs(2) [unfolded map_try_Inr_iff], of ?d] assms(6) by (auto simp: a(3))
  then obtain targetRow where found: "targetRow \<in> set rows"
    "target_row_of equal (cr_pair row) (row_outcome_of r row) ?new r = Inr targetRow" by blast
  have "tg_kind targetRow = TargetAbsent \<longleftrightarrow> row_outcome_of r row = RowAbsent"
    using found(2) new by (auto simp: target_row_of_def collapsed_row_of_def split: row_outcome.splits option.splits if_splits)
  with row_kept_iff [OF assms(7), of r] target_row_kinds(1) [OF found(2)] show ?thesis
    unfolding rows(2) by (intro bexI [OF _ found(1)]) simp
qed

text \<open>A row of the Draft, created after its table's field moved, in a commit of the row without the move.\<close>

definition example_tools :: row_tools where
  "example_tools =
     \<lparr>rt_recompute = \<lambda>_ rows. Inr (map row_data rows), rt_hash = \<lambda>_. ''hash'', rt_schemaHash = \<lambda>_. ''schema'',
      rt_default = \<lambda>_. JObj [(''a'', JStr ''''), (''b'', JObj [])], rt_patchTable = \<lambda>schema rows patches. Inl ''no patches''\<rparr>"

definition example_table_pair :: table_pair where
  "example_table_pair =
     \<lparr>tp_identity = ''T'', tp_head = Some (example_table ''posts''),
      tp_draft = Some ((example_table ''posts'')\<lparr>tv_versionId := ''v-new''\<rparr>)\<rparr>"

definition example_created_row :: row_pair where
  "example_created_row = \<lparr>rp_identity = ''c-n'', rp_head = None, rp_draft = Some (example_row ''n'' (JObj [(''b'', JObj [])]))\<rparr>"

definition example_moved_table :: read_table where
  "example_moved_table =
     \<lparr>re_pair = example_table_pair, re_structure = example_structure,
      re_units = \<lparr>tk_structure = Some (structure_unit_key [''T'']), tk_rows = [''new'']\<rparr>,
      re_rows = [\<lparr>cr_pair = example_created_row, cr_existence = Some ''new'', cr_columns = [], cr_leaves = []\<rparr>]\<rparr>"

definition example_row_commit :: table_rules where
  "example_row_commit = table_rules_of \<lparr>ap_operation = CommitOp, ap_applied = [''new''], ap_wholeDraft = False\<rparr> example_moved_table"

definition example_assembly :: "table_rules \<Rightarrow> read_table \<Rightarrow> read_table_assembly" where
  "example_assembly r t =
     (case read_table_assembly t r CommitOp \<lparr>mt_revisionId = ''head'', mt_tableId = ''posts'', mt_schema = JObj []\<rparr> of
        Inr a \<Rightarrow> a
      | Inl _ \<Rightarrow> \<lparr>ra_table = t, ra_rules = r, ra_operation = CommitOp,
          ra_target = \<lparr>mt_revisionId = '''', mt_tableId = '''', mt_schema = JNull\<rparr>, ra_decided = [], ra_draftStructure = None\<rparr>)"

definition example_assembled :: "table_rules \<Rightarrow> read_table \<Rightarrow> assembled_table" where
  "example_assembled r t =
     (case assemble_table example_tools example_ids (=) (example_assembly r t) of
        Inr assembled \<Rightarrow> assembled
      | Inl _ \<Rightarrow> \<lparr>ab_plan = one_sided_table_plan (tr_rules r) example_table_pair '''', ab_blockers = [], ab_deferred = []\<rparr>)"

lemma recomputes_example: "recomputes_every_row example_tools"
  by (simp add: recomputes_every_row_def example_tools_def)

lemma example_move_assembled:
  "read_table_assembly example_moved_table example_row_commit CommitOp
     \<lparr>mt_revisionId = ''head'', mt_tableId = ''posts'', mt_schema = JObj []\<rparr> = Inr (example_assembly example_row_commit example_moved_table)"
  "assemble_table example_tools example_ids (=) (example_assembly example_row_commit example_moved_table) =
     Inr (example_assembled example_row_commit example_moved_table)"
  "ab_blockers (example_assembled example_row_commit example_moved_table) = []"
  "side_taken_by (tr_rules example_row_commit) ''new'' = DraftSide"
proof -
  have facts: "\<not> isl (read_table_assembly example_moved_table example_row_commit CommitOp
       \<lparr>mt_revisionId = ''head'', mt_tableId = ''posts'', mt_schema = JObj []\<rparr>) \<and>
     map_sum id ab_blockers (assemble_table example_tools example_ids (=) (example_assembly example_row_commit example_moved_table)) = Inr [] \<and>
     side_taken_by (tr_rules example_row_commit) ''new'' = DraftSide"
    by code_simp
  from facts show "read_table_assembly example_moved_table example_row_commit CommitOp
     \<lparr>mt_revisionId = ''head'', mt_tableId = ''posts'', mt_schema = JObj []\<rparr> = Inr (example_assembly example_row_commit example_moved_table)"
    unfolding example_assembly_def by (intro not_isl_case) blast
  from facts obtain assembled where "assemble_table example_tools example_ids (=)
      (example_assembly example_row_commit example_moved_table) = Inr assembled" "ab_blockers assembled = []"
    by (cases "assemble_table example_tools example_ids (=) (example_assembly example_row_commit example_moved_table)") auto
  then show "assemble_table example_tools example_ids (=) (example_assembly example_row_commit example_moved_table) =
      Inr (example_assembled example_row_commit example_moved_table)"
    "ab_blockers (example_assembled example_row_commit example_moved_table) = []"
    by (simp_all add: example_assembled_def)
  show "side_taken_by (tr_rules example_row_commit) ''new'' = DraftSide" using facts by blast
qed

theorem unblocked_target_keeps_taken_rows_witness:
  "\<exists>targetRow \<in> set (pl_rows (ab_plan (example_assembled example_row_commit example_moved_table))).
     tg_pair targetRow = example_created_row \<and> tg_kind targetRow \<noteq> TargetAbsent"
proof -
  have row: "re_rows example_moved_table = [\<lparr>cr_pair = example_created_row, cr_existence = Some ''new'', cr_columns = [], cr_leaves = []\<rparr>]"
    by (simp add: example_moved_table_def)
  have pair: "row_on_side DraftSide example_created_row \<noteq> None" by (simp add: example_created_row_def)
  have identity: "row_createdId v = rp_identity example_created_row"
    if "row_on_side side example_created_row = Some v" for side v
    using that by (cases side) (auto simp: example_created_row_def example_row_def)
  show ?thesis
    using unblocked_target_keeps_taken_rows [OF recomputes_example example_move_assembled(1-3), of "hd (re_rows example_moved_table)" "''new''"]
      pair identity example_move_assembled(4) by (auto simp: row)
qed

definition example_posts_read :: read_table where
  "example_posts_read =
     \<lparr>re_pair = example_table_pair, re_structure = ct_structure example_posts,
      re_units = ot_units (tr_table example_title_rules), re_rows = ru_rows example_post_units\<rparr>"

lemma example_posts_assembled:
  "read_table_assembly example_posts_read example_title_rules CommitOp
     \<lparr>mt_revisionId = ''head'', mt_tableId = ''posts'', mt_schema = JObj []\<rparr> = Inr (example_assembly example_title_rules example_posts_read)"
  "assemble_table example_tools example_ids (=) (example_assembly example_title_rules example_posts_read) =
     Inr (example_assembled example_title_rules example_posts_read)"
  "rows_accounted example_title_rules (re_rows example_posts_read)" "unit_keys_of example_title_rules \<noteq> []"
proof -
  have facts: "\<not> isl (read_table_assembly example_posts_read example_title_rules CommitOp
       \<lparr>mt_revisionId = ''head'', mt_tableId = ''posts'', mt_schema = JObj []\<rparr>) \<and>
     \<not> isl (assemble_table example_tools example_ids (=) (example_assembly example_title_rules example_posts_read)) \<and>
     rows_accounted example_title_rules (re_rows example_posts_read) \<and> unit_keys_of example_title_rules \<noteq> []"
    by code_simp
  from facts show "read_table_assembly example_posts_read example_title_rules CommitOp
     \<lparr>mt_revisionId = ''head'', mt_tableId = ''posts'', mt_schema = JObj []\<rparr> = Inr (example_assembly example_title_rules example_posts_read)"
    unfolding example_assembly_def by (intro not_isl_case) blast
  from facts show "assemble_table example_tools example_ids (=) (example_assembly example_title_rules example_posts_read) =
      Inr (example_assembled example_title_rules example_posts_read)"
    unfolding example_assembled_def by (intro not_isl_case) blast
  show "rows_accounted example_title_rules (re_rows example_posts_read)" "unit_keys_of example_title_rules \<noteq> []"
    using facts by blast+
qed

text \<open>
  Carrying a plan out: \<open>held\<close> gives the version ids of the rows that a stored version of the table holds; the links of the
  plan are taken off and put on the version it names.
\<close>

definition versions_after_links :: "(string \<Rightarrow> string set) \<Rightarrow> table_plan \<Rightarrow> string set" where
  "versions_after_links held plan =
     (case pl_versionId plan of None \<Rightarrow> {} | Some i \<Rightarrow> held i) - set (lk_removed (pl_links plan)) \<union>
       set (lk_added (pl_links plan))"

text \<open>
  Claim C9: the plan of a table is carried out by its changes of links. On the stored version of the table that the
  plan names, removing and adding the links it says leads to exactly the versions of rows that the target keeps, and the
  new versions it writes are those of the merged rows of the target, in order: the shortcuts of taking a version as it is
  lose and duplicate nothing. The stored version of a side is taken to hold the rows both sides share and the
  rows of the pairs on that side, and versions of rows to have ids of their own; the rows are those of the catalogue, whose
  units own all their differences, and a table whose structure differs to have its structure unit. A table without any unit, in an operation on the whole draft, is left
  out: the plan takes the other version there, whose rows are equal and not the same.
\<close>

theorem plan_links_lead_to_target_rows:
  assumes "read_table_assembly t r operation target = Inr a" "assemble_table tools ids equal a = Inr assembled"
    "versions_distinct common (map cr_pair (re_rows t))" "rows_accounted r (re_rows t)"
    "ot_structureDiffers (tr_table r) \<Longrightarrow> tk_structure (ot_units (tr_table r)) \<noteq> None"
    "unit_keys_of r = [] \<Longrightarrow> \<not> ap_wholeDraft (tr_rules r)"
    "\<And>side v. version_on (re_pair t) side = Inr v \<Longrightarrow>
       held (tv_versionId v) = versions_on_side common (map cr_pair (re_rows t)) side"
  shows "versions_after_links held (ab_plan assembled) = versions_wanted common r (pl_rows (ab_plan assembled)) \<and>
    lk_new (pl_links (ab_plan assembled)) = concat (map (\<lambda>row. new_rows_of (tg_kind row)) (pl_rows (ab_plan assembled)))"
proof -
  have a: "ra_rules a = r" "ra_table a = t" using assms(1) by (auto simp: read_table_assembly_def)
  obtain rows linked where rows: "target_rows tools equal a = Inr rows" "pl_rows (ab_plan assembled) = rows"
    "pl_outcome (ab_plan assembled) = table_outcome_of r (map (\<lambda>row. (tg_pair row, kind_of_target (tg_kind row))) rows)"
    "pl_links (ab_plan assembled) =
       link_changes_of (table_outcome_of r (map (\<lambda>row. (tg_pair row, kind_of_target (tg_kind row))) rows)) rows r"
    "linked_version_of (re_pair t) (pl_outcome (ab_plan assembled)) r = Inr linked"
    "pl_versionId (ab_plan assembled) = Some (tv_versionId linked)"
    using assms(2) by (auto simp: assemble_table_def Let_def a)
  have differs: "ot_structureDiffers (tr_table r) \<longrightarrow> tk_structure (ot_units (tr_table r)) \<noteq> None"
    and whole: "unit_keys_of r = [] \<longrightarrow> \<not> ap_wholeDraft (tr_rules r)" using assms(5,6) by blast+
  have "versions_after_links held (ab_plan assembled) = versions_after common (map cr_pair (re_rows t)) r (ab_plan assembled)"
    using assms(7) [OF rows(5) [unfolded linked_version_of_def]] by (simp add: versions_after_links_def versions_after_def rows(6))
  with links_lead_to_rows [OF rows(1) assms(1,3,4) differs whole refl rows(3,4)] rows(2) show ?thesis by simp
qed

theorem plan_links_lead_to_target_rows_witness:
  "versions_after_links ((\<lambda>_. {})(''v'' := {''v-other'', ''v-a''}, ''v-new'' := {''v-other'', ''v-draft''}))
     (ab_plan (example_assembled example_title_rules example_posts_read)) = {''v-other''} \<and>
   map nr_data (lk_new (pl_links (ab_plan (example_assembled example_title_rules example_posts_read)))) =
     [JObj [(''body'', JStr ''old''), (''title'', JStr ''New'')]]"
proof -
  let ?plan = "ab_plan (example_assembled example_title_rules example_posts_read)"
  let ?held = "(\<lambda>_. {})(''v'' := {''v-other'', ''v-a''}, ''v-new'' := {''v-other'', ''v-draft''})"
  have pairs: "map cr_pair (re_rows example_posts_read) = [ct_pairs example_posts ! 0]"
    using example_post_facts(5,6) by (cases "ru_rows example_post_units") (auto simp: example_posts_read_def)
  have apart: "versions_distinct {''v-other''} [ct_pairs example_posts ! 0]"
    by (simp add: versions_distinct_def version_ids_on_def example_posts_def example_row_def)
  have held: "?held (tv_versionId v) = versions_on_side {''v-other''} [ct_pairs example_posts ! 0] side"
    if "version_on (re_pair example_posts_read) side = Inr v" for side v
    using that
    by (cases side) (auto simp: version_on_def example_posts_read_def example_table_pair_def example_table_def
        versions_on_side_def version_ids_on_def example_posts_def example_row_def)
  have both: "map (\<lambda>row. (map nr_data (new_rows_of (tg_kind row)), kept_version_ids example_title_rules (tg_pair row) (tg_kind row)))
      (pl_rows ?plan) = [([JObj [(''body'', JStr ''old''), (''title'', JStr ''New'')]], [])]"
    by code_simp
  have data: "map (\<lambda>row. map nr_data (new_rows_of (tg_kind row))) (pl_rows ?plan) =
      [[JObj [(''body'', JStr ''old''), (''title'', JStr ''New'')]]]"
    "list_all (\<lambda>row. kept_version_ids example_title_rules (tg_pair row) (tg_kind row) = []) (pl_rows ?plan)"
    using arg_cong [OF both, of "map fst"] arg_cong [OF both, of "map snd"]
    by (auto simp: comp_def list_all_iff map_eq_Cons_conv)
  have differs: "\<not> ot_structureDiffers (tr_table example_title_rules)"
    by (simp add: example_title_rules_def rules_for_table_def)
  from plan_links_lead_to_target_rows [OF example_posts_assembled(1,2), of "{''v-other''}" ?held] apart differs held
    example_posts_assembled(3,4)
  have "versions_after_links ?held ?plan = versions_wanted {''v-other''} example_title_rules (pl_rows ?plan)"
    "lk_new (pl_links ?plan) = concat (map (\<lambda>row. new_rows_of (tg_kind row)) (pl_rows ?plan))"
    unfolding pairs by blast+
  moreover from data(2) have "versions_wanted {''v-other''} example_title_rules (pl_rows ?plan) = {''v-other''}"
    by (auto simp: versions_wanted_def list_all_iff)
  moreover have "map nr_data (concat (map (\<lambda>row. new_rows_of (tg_kind row)) (pl_rows ?plan))) =
      [JObj [(''body'', JStr ''old''), (''title'', JStr ''New'')]]"
    using arg_cong [OF data(1), of concat] by (simp add: map_concat comp_def)
  ultimately show ?thesis by simp
qed

text \<open>Tools whose hash tells the data of the two versions of the post from each other and from all other data.\<close>

definition example_hashing_tools :: row_tools where
  "example_hashing_tools = example_tools\<lparr>rt_hash := \<lambda>data.
     if data = JObj [(''body'', JStr ''old''), (''title'', JStr ''Old'')] then ''old''
     else if data = JObj [(''body'', JStr ''new''), (''title'', JStr ''New'')] then ''new'' else ''merged''\<rparr>"

definition example_title_target :: "target_row list" where
  "example_title_target =
     (case assemble_table example_hashing_tools example_ids (=) (example_assembly example_title_rules example_posts_read) of
        Inr assembled \<Rightarrow> pl_rows (ab_plan assembled)
      | Inl _ \<Rightarrow> [])"

theorem row_parts_come_from_owners_sides_witness:
  "\<exists>targetRow \<in> set example_title_target. \<exists>v. version_in_target example_title_rules targetRow = Some v \<and>
     version_by_owners {[''body''], [''title'']} ''schema'' example_title_rules (ru_rows example_post_units ! 0) v \<and>
     row_data v = JObj [(''body'', JStr ''old''), (''title'', JStr ''New'')]"
proof -
  let ?row = "ru_rows example_post_units ! 0"
  let ?pair = "ct_pairs example_posts ! 0"
  let ?target = "\<lparr>mt_revisionId = ''head'', mt_tableId = ''posts'', mt_schema = JObj []\<rparr>"
  let ?run = "assemble_table example_hashing_tools example_ids (=) (example_assembly example_title_rules example_posts_read)"
  have sides: "rp_head ?pair = Some (the (rp_head ?pair))" "rp_draft ?pair = Some (the (rp_draft ?pair))"
    by (simp_all add: example_posts_def)
  have unique: "unique_names (sd_schema (in_head example_post_input))" "unique_names (sd_schema (in_draft example_post_input))"
    using example_post_facts(2) by (simp_all add: example_post_input_def example_side_def)
  have row: "?row \<in> set (ru_rows example_post_units)" "re_rows example_posts_read = ru_rows example_post_units"
    "re_rows example_posts_read = [?row]"
    using example_post_facts(5) by (simp_all add: example_posts_read_def) (cases "ru_rows example_post_units"; simp)
  have "list_all identified (re_rows example_posts_read) \<and>
    distinct (map (\<lambda>row. rp_identity (cr_pair row)) (re_rows example_posts_read)) \<and>
    map_sum id (\<lambda>assembled. map (\<lambda>row. (map_option row_data (version_in_target example_title_rules row)))
       (pl_rows (ab_plan assembled))) ?run = Inr [Some (JObj [(''body'', JStr ''old''), (''title'', JStr ''New'')])]"
    by code_simp
  then have pair: "list_all identified (re_rows example_posts_read)"
    "distinct (map (\<lambda>row. rp_identity (cr_pair row)) (re_rows example_posts_read))"
    "map_sum id (\<lambda>assembled. map (\<lambda>row. (map_option row_data (version_in_target example_title_rules row)))
       (pl_rows (ab_plan assembled))) ?run = Inr [Some (JObj [(''body'', JStr ''old''), (''title'', JStr ''New'')])]"
    by blast+
  then obtain assembled where run: "?run = Inr assembled" by (cases ?run) auto
  have hashes: "hash_tells_values example_hashing_tools (=) (the (rp_head ?pair))"
    "hash_tells_values example_hashing_tools (=) (the (rp_draft ?pair))"
    by (auto simp: hash_tells_values_def example_hashing_tools_def example_posts_def example_row_def equal_values_refl)
  have kept: "recomputes_keeping example_hashing_tools {[''body''], [''title'']}"
    by (auto simp: recomputes_keeping_def example_hashing_tools_def example_tools_def list_all2_conv_all_nth)
  have objects: "lw_pointer leaf \<noteq> [] \<and> objects_above (lw_pointer leaf) (row_data (the (rp_head ?pair))) \<and>
      objects_above (lw_pointer leaf) (row_data (the (rp_draft ?pair)))"
    if "leaf \<in> set (leaf_owners_of (ct_structure example_posts))" for leaf
  proof -
    have "lw_pointer leaf \<in> {[''body''], [''title'']}"
      using imageI [OF that, of lw_pointer] example_post_facts(7) by (simp flip: set_map)
    then show ?thesis by (auto simp: example_posts_def example_row_def)
  qed
  obtain targetRow v where found: "targetRow \<in> set (pl_rows (ab_plan assembled))"
    "version_in_target example_title_rules targetRow = Some v"
    "version_by_owners {[''body''], [''title'']} (rt_schemaHash example_hashing_tools (mt_schema ?target)) example_title_rules ?row v"
    using row_parts_come_from_owners_sides [OF example_post_facts(1) unique example_post_facts(4) row(1) _ _ row(2) pair(1,2) _ _
        example_posts_assembled(1) run kept _ hashes] example_post_facts(3,6) sides objects by auto
  moreover have "rt_schemaHash example_hashing_tools (mt_schema ?target) = ''schema''"
    by (simp add: example_hashing_tools_def example_tools_def)
  moreover have "map_option row_data (version_in_target example_title_rules targetRow) =
      Some (JObj [(''body'', JStr ''old''), (''title'', JStr ''New'')])"
    using pair(3) found(1) by (auto simp: run map_eq_Cons_conv)
  ultimately show ?thesis by (auto simp: example_title_target_def run)
qed

end
