(* ===== verification/Row_Id_Checks.thy ===== *)
theory Row_Id_Checks
  imports Id_Collisions Merge_Results
begin

section \<open>The ids of the rows of a target\<close>

text \<open>
  A row of an assembled target has the id of the side that the unit owning its id takes. So the check of row ids
  misses no two rows that hold the same id.
\<close>

subsection \<open>Catalogue rows\<close>

text \<open>What the catalogue says of the id of a row: a unit owns it when the two sides differ in it.\<close>

definition id_accounted :: "catalogue_row \<Rightarrow> bool" where
  "id_accounted row \<longleftrightarrow>
     (case cr_existence row of
        Some _ \<Rightarrow> cr_columns row = [] \<and> cr_leaves row = []
      | None \<Rightarrow>
          (case (rp_head (cr_pair row), rp_draft (cr_pair row)) of
             (Some head, Some draft) \<Rightarrow> map_of (cr_columns row) IdColumn = None \<longrightarrow> row_id head = row_id draft
           | _ \<Rightarrow> False))"

definition ids_on :: "catalogue_row list \<Rightarrow> revision_side \<Rightarrow> string list" where
  "ids_on rows side = concat (map (\<lambda>row. case row_on_side side (cr_pair row) of None \<Rightarrow> [] | Some v \<Rightarrow> [row_id v]) rows)"

definition sound_rows :: "catalogue_row list \<Rightarrow> bool" where
  "sound_rows rows \<longleftrightarrow>
     list_all id_accounted rows \<and> list_all identified rows \<and> distinct (map (\<lambda>row. rp_identity (cr_pair row)) rows) \<and>
     distinct (ids_on rows HeadSide) \<and> distinct (ids_on rows DraftSide)"

text \<open>The rows the catalogue builds account for their ids.\<close>

lemma row_of_pair_id_accounted:
  assumes "rp_head pair \<noteq> None \<or> rp_draft pair \<noteq> None"
  shows "id_accounted (row_of_pair equal b pair)"
proof -
  have columns: "map_of (map (\<lambda>c. (c, f c)) cs) x = None \<longleftrightarrow> x \<notin> set cs" for f :: "whole_column \<Rightarrow> string" and cs x
    by (induction cs) auto
  show ?thesis
    using assms
    by (auto simp: id_accounted_def row_of_pair_def existence_key_def Let_def columns differing_columns_of_def
        whole_columns_def split: option.splits)
qed

subsection \<open>The id a row takes\<close>

definition id_side :: "applied_units \<Rightarrow> catalogue_row \<Rightarrow> revision_side" where
  "id_side rules row = (case id_unit_of row of None \<Rightarrow> base_side rules | Some key \<Rightarrow> side_taken_by rules key)"

definition takes_id :: "applied_units \<Rightarrow> catalogue_row \<Rightarrow> string \<Rightarrow> bool" where
  "takes_id rules row i \<longleftrightarrow> map_option row_id (row_on_side (id_side rules row) (cr_pair row)) = Some i"

lemma id_of_both_sides:
  assumes "id_accounted row" "id_unit_of row = None" "row_on_side side (cr_pair row) = Some v"
  shows "takes_id rules row (row_id v)"
proof -
  from assms(1,2) obtain head draft where "rp_head (cr_pair row) = Some head" "rp_draft (cr_pair row) = Some draft"
    "row_id head = row_id draft"
    by (auto simp: id_accounted_def id_unit_of_def split: option.splits)
  with assms(2,3) show ?thesis
    by (cases side; cases "base_side rules") (auto simp: takes_id_def id_side_def)
qed

lemma id_of_unit_side:
  "id_unit_of row = Some key \<Longrightarrow> side_taken_by rules key = side \<Longrightarrow> row_on_side side (cr_pair row) = Some v \<Longrightarrow>
     takes_id rules row (row_id v)"
  by (simp add: takes_id_def id_side_def)

text \<open>The outcome of a row tells which side its id comes from.\<close>

lemma outcome_takes_id:
  assumes "id_accounted row"
  shows "row_outcome_of r row = RowStructureSide \<Longrightarrow> row_on_side (structure_side r) (cr_pair row) = Some v \<Longrightarrow>
      takes_id (tr_rules r) row (row_id v)"
    "row_outcome_of r row \<in> {RowOtherSide, RowMove} \<Longrightarrow> row_on_side (other_side r) (cr_pair row) = Some v \<Longrightarrow>
      takes_id (tr_rules r) row (row_id v)"
    "row_outcome_of r row = RowMerge parts \<Longrightarrow>
      row_on_side (if os_id parts then other_side r else structure_side r) (cr_pair row) = Some v \<Longrightarrow>
      takes_id (tr_rules r) row (row_id v)"
proof -
  let ?owners = "uniq (jvalues (cr_columns row) @ jvalues (cr_leaves row))"
  have owner: "map_of (cr_columns row) IdColumn = Some key \<Longrightarrow> key \<in> set ?owners" for key
    by (force dest: map_of_SomeD)
  have differences: "cr_existence row = None \<and> row_outcome_of r row = outcome_of_differences r row"
    if "cr_existence row = None"
    using that assms
    by (cases "structure_side r") (auto simp: id_accounted_def row_outcome_of_def other_side_def split: option.splits)
  have existing: "id_unit_of row = cr_existence row" if "cr_existence row \<noteq> None"
    using that assms by (auto simp: id_accounted_def id_unit_of_def split: option.splits)
  show "takes_id (tr_rules r) row (row_id v)" if kept: "row_outcome_of r row = RowStructureSide"
    "row_on_side (structure_side r) (cr_pair row) = Some v"
  proof (cases "id_unit_of row")
    case None
    with id_of_both_sides [OF assms _ kept(2)] show ?thesis by blast
  next
    case (Some key)
    have "\<not> takes_other_side r key"
    proof (cases "cr_existence row")
      case None
      with Some have "key \<in> set ?owners" by (intro owner) (simp add: id_unit_of_def split: option.splits)
      moreover have "filter (takes_other_side r) ?owners = []"
        using differences [OF None] kept(1) by (cases rule: outcome_of_differences_cases [of r row]) simp_all
      ultimately show ?thesis by (simp add: filter_empty_conv)
    next
      case (Some k)
      with existing \<open>id_unit_of row = Some key\<close> have "k = key" by simp
      with Some kept(1) show ?thesis by (auto simp: row_outcome_of_def other_side_existence_of_def split: if_splits)
    qed
    then show ?thesis using id_of_unit_side [OF Some _ kept(2)] by (simp add: side_taken_by_not_other)
  qed
  show "takes_id (tr_rules r) row (row_id v)" if kept: "row_outcome_of r row \<in> {RowOtherSide, RowMove}"
    "row_on_side (other_side r) (cr_pair row) = Some v"
  proof (cases "id_unit_of row")
    case None
    with id_of_both_sides [OF assms _ kept(2)] show ?thesis by blast
  next
    case (Some key)
    have "takes_other_side r key"
    proof (cases "cr_existence row")
      case None
      with Some have key: "key \<in> set ?owners" by (intro owner) (simp add: id_unit_of_def split: option.splits)
      have "length (filter (takes_other_side r) ?owners) = length ?owners"
        using differences [OF None] kept(1) outcome_of_differences_def [of r row, unfolded Let_def]
        by (cases rule: outcome_of_differences_cases [of r row]) (auto split: if_splits)
      then show ?thesis using key by (rule all_kept_by_filter)
    next
      case (Some k)
      with existing \<open>id_unit_of row = Some key\<close> have "k = key" by simp
      with Some kept(1) assms show ?thesis
        by (auto simp: row_outcome_of_def id_accounted_def outcome_of_differences_def Let_def split: if_splits)
    qed
    then show ?thesis using id_of_unit_side [OF Some _ kept(2)] by (simp add: takes_other_side_iff)
  qed
  show "takes_id (tr_rules r) row (row_id v)" if kept: "row_outcome_of r row = RowMerge parts"
    "row_on_side (if os_id parts then other_side r else structure_side r) (cr_pair row) = Some v"
  proof -
    have merge: "cr_existence row = None"
    proof (rule ccontr)
      assume "cr_existence row \<noteq> None"
      with kept(1) assms show False
        by (auto simp: row_outcome_of_def other_side_existence_of_def id_accounted_def outcome_of_differences_def Let_def
            split: if_splits option.splits)
    qed
    have parts: "parts = parts_from_other_side r row"
      using kept(1) differences [OF merge] by (auto simp: outcome_of_differences_def Let_def split: if_splits)
    show ?thesis
    proof (cases "map_of (cr_columns row) IdColumn")
      case None
      then have "id_unit_of row = None" by (simp add: id_unit_of_def merge)
      with id_of_both_sides [OF assms _ kept(2)] show ?thesis by blast
    next
      case (Some key)
      then have "side_taken_by (tr_rules r) key = (if os_id parts then other_side r else structure_side r)"
        by (simp add: parts parts_from_other_side_def takes_owner_other_side_def takes_other_side_iff
            side_taken_by_not_other [symmetric])
      with Some show ?thesis using id_of_unit_side [OF _ _ kept(2)] by (simp add: id_unit_of_def)
    qed
  qed
qed

subsection \<open>The ids of new versions\<close>

lemma merged_row_ids:
  assumes "recomputes_every_row tools" "read_table_assembly t r operation target = Inr a" "merged_rows tools a = Inr ms"
    "m \<in> set ms"
  obtains c parts own v where "c \<in> set (re_rows t)" "row_outcome_of r c = RowMerge parts"
    "row_on_side (structure_side r) (cr_pair c) = Some own" "nr_createdId m = row_createdId own"
    "row_on_side (if os_id parts then other_side r else structure_side r) (cr_pair c) = Some v" "nr_id m = row_id v"
proof (rule merged_row_made [OF assms(1) [folded recomputes_keeping_nothing] assms(2-4)])
  fix c parts own other v
  assume c: "c \<in> set (re_rows t)" "row_outcome_of r c = RowMerge parts"
    and sides: "row_on_side (structure_side r) (cr_pair c) = Some own" "row_on_side (other_side r) (cr_pair c) = Some other"
    and v: "version_taking_other_side_parts \<lparr>rm_structureSide = own, rm_otherSide = other, rm_fromOtherSide = parts\<rparr> = Inr v"
      "version_made_of tools target {} m v"
  have row: "row_createdId (nv_row v) = row_createdId own" "row_id (nv_row v) = row_id (if os_id parts then other else own)"
    using v(1) by (auto simp: version_taking_other_side_parts_def side_taking_def)
  show ?thesis
  proof (rule that [OF c sides(1)])
    show "nr_createdId m = row_createdId own" using v(2) row(1) by (simp add: version_made_of_def)
    show "row_on_side (if os_id parts then other_side r else structure_side r) (cr_pair c) =
        Some (if os_id parts then other else own)"
      by (cases "os_id parts") (simp_all only: sides if_True if_False)
    show "nr_id m = row_id (if os_id parts then other else own)" using v(2) row(2) by (simp add: version_made_of_def)
  qed
qed

lemma new_version_takes_id:
  assumes "recomputes_every_row tools" "read_table_assembly t r operation target = Inr a" "new_versions tools a = Inr vs"
    "sound_rows (re_rows t)" "c \<in> set (re_rows t)" "map_of vs (rp_identity (cr_pair c)) = Some m"
  shows "takes_id (tr_rules r) c (nr_id m)"
proof -
  have sound: "list_all id_accounted (re_rows t)" "list_all identified (re_rows t)"
    "distinct (map (\<lambda>row. rp_identity (cr_pair row)) (re_rows t))" using assms(4) by (auto simp: sound_rows_def)
  have same: "d = c" if "d \<in> set (re_rows t)" "rp_identity (cr_pair d) = rp_identity (cr_pair c)" for d
    using sound(3) that assms(5) by (auto simp: distinct_map inj_on_def)
  obtain merged moved where run: "merged_rows tools a = Inr merged" "moved_rows tools a = Inr moved"
    "vs = jmap_of (map (\<lambda>r. (nr_createdId r, r)) (merged @ moved))"
    using assms(3) by (auto simp: new_versions_def)
  from assms(6) have m: "m \<in> set merged \<or> m \<in> set moved" "nr_createdId m = rp_identity (cr_pair c)"
    by (auto simp: run(3) map_of_jmap_of dest!: map_of_SomeD)
  have ida: "id_accounted c" using sound(1) assms(5) by (simp add: list_all_iff)
  from m(1) show ?thesis
  proof
    assume "m \<in> set merged"
    from merged_row_ids [OF assms(1,2) run(1) this] obtain d parts own v where d: "d \<in> set (re_rows t)"
      "row_outcome_of r d = RowMerge parts" "row_on_side (structure_side r) (cr_pair d) = Some own"
      "nr_createdId m = row_createdId own"
      "row_on_side (if os_id parts then other_side r else structure_side r) (cr_pair d) = Some v" "nr_id m = row_id v" .
    have "row_createdId own = rp_identity (cr_pair d)"
      using sound(2) d(1,3) by (cases "structure_side r") (auto simp: list_all_iff identified_def)
    with d(1,4) m(2) same have "d = c" by simp
    with d outcome_takes_id(3) [OF ida] show ?thesis by simp
  next
    assume "m \<in> set moved"
    from moved_row_ids [OF assms(1,2) run(2) this sound(2)] obtain d v where d: "d \<in> set (re_rows t)"
      "row_outcome_of r d = RowMove" "nr_createdId m = rp_identity (cr_pair d)"
      "row_on_side (other_side r) (cr_pair d) = Some v" "nr_id m = row_id v" .
    with m(2) same have "d = c" by simp
    with d outcome_takes_id(2) [OF ida] show ?thesis by simp
  qed
qed

subsection \<open>The rows a target table holds\<close>

lemma same_content_same_id: "\<not> differ_in_content equal left right \<Longrightarrow> row_id left = row_id right"
  by (auto simp: differ_in_content_def differing_columns_of_def whole_columns_def split: if_splits)

lemma target_row_takes_id:
  assumes "recomputes_every_row tools" "read_table_assembly t r operation target = Inr a" "target_rows tools equal a = Inr rows"
    "sound_rows (re_rows t)" "row \<in> set rows" "target_version_of row (structure_side r) = Inr (Some (i, data))"
  obtains c where "c \<in> set (re_rows t)" "tg_pair row = cr_pair c" "takes_id (tr_rules r) c i"
proof -
  note a = decided_rows [OF assms(2)]
  obtain vs where vs: "new_versions tools a = Inr vs"
    "map_try (\<lambda>d. target_row_of equal (cr_pair (de_row d)) (de_outcome d) (map_of vs (rp_identity (cr_pair (de_row d)))) r)
       (ra_decided a) = Inr rows"
    using assms(3) by (auto simp: target_rows_def Let_def a(1))
  from vs(2) assms(5) obtain d where d: "d \<in> set (ra_decided a)"
    "target_row_of equal (cr_pair (de_row d)) (de_outcome d) (map_of vs (rp_identity (cr_pair (de_row d)))) r = Inr row"
    unfolding map_try_Inr_iff by (blast dest: list_all2_second)
  from d(1) obtain c where c: "c \<in> set (re_rows t)" "d = \<lparr>de_row = c, de_outcome = row_outcome_of r c\<rparr>" by (auto simp: a(2))
  have ida: "id_accounted c" using assms(4) c(1) by (simp add: sound_rows_def list_all_iff)
  have run: "target_row_of equal (cr_pair c) (row_outcome_of r c) (map_of vs (rp_identity (cr_pair c))) r = Inr row"
    using d(2) by (simp add: c(2))
  note pair = target_row_kinds(1) [OF run]
  note new = new_version_takes_id [OF assms(1,2) vs(1) assms(4) c(1)]
  have "takes_id (tr_rules r) c i"
  proof (cases "tg_kind row")
    case TargetAbsent
    with assms(6) show ?thesis by simp
  next
    case TargetStructureSide
    then have "row_outcome_of r c = RowStructureSide" by (rule target_row_kinds(2) [OF run])
    moreover obtain v where "row_on_side (structure_side r) (cr_pair c) = Some v" "i = row_id v"
      using assms(6) TargetStructureSide by (auto simp: pair row_version_on_def split: option.splits)
    ultimately show ?thesis using outcome_takes_id(1) [OF ida] by simp
  next
    case TargetOtherSide
    obtain v where v: "row_on_side (other_side r) (cr_pair c) = Some v" "i = row_id v"
      using assms(6) TargetOtherSide by (auto simp: pair other_side_def row_version_on_def split: option.splits)
    have "row_outcome_of r c = RowOtherSide \<or>
        (\<exists>m. map_of vs (rp_identity (cr_pair c)) = Some m \<and> \<not> differ_in_content equal (content_row m) v)"
      using run TargetOtherSide v(1)
      by (auto simp: target_row_of_def collapsed_row_of_def split: row_outcome.splits option.splits if_splits)
    then show ?thesis
    proof
      assume "row_outcome_of r c = RowOtherSide"
      then show ?thesis using outcome_takes_id(2) [OF ida] v by simp
    next
      assume "\<exists>m. map_of vs (rp_identity (cr_pair c)) = Some m \<and> \<not> differ_in_content equal (content_row m) v"
      then obtain m where m: "map_of vs (rp_identity (cr_pair c)) = Some m" "\<not> differ_in_content equal (content_row m) v" by blast
      have "nr_id m = i" using same_content_same_id [OF m(2)] v(2) by (simp add: content_row_def)
      with new [OF m(1)] show ?thesis by simp
    qed
  next
    case (TargetMerged m)
    then have "map_of vs (rp_identity (cr_pair c)) = Some m"
      using run by (auto simp: target_row_of_def collapsed_row_of_def split: row_outcome.splits option.splits if_splits)
    with new assms(6) TargetMerged show ?thesis by simp
  qed
  with c(1) pair show ?thesis by (rule that)
qed

definition sound_source :: "check_source \<Rightarrow> bool" where
  "sound_source source \<longleftrightarrow>
     distinct (map tp_identity (sn_tables (as_snapshot source))) \<and> jmap_ok (ch_rows (as_catalogue source)) \<and>
     list_all (\<lambda>(identity, rows). sound_rows rows) (ch_rows (as_catalogue source))"

text \<open>The plans of an assembled target: of a table that was read, or of one on one side, without rows.\<close>

lemma assembled_plan:
  assumes "assemble_target tools tk ids equal vhash vequal planLedger (assembly_source.truncate source) choice = Inr target"
    "sound_source source" "plan \<in> set (at_tables target)" "pair \<in> set (sn_tables (as_snapshot source))"
    "pl_identity plan = tp_identity pair" "pl_rows plan \<noteq> []"
  obtains t operation mergeTarget a where
    "map_of (ch_rows (as_catalogue source)) (tp_identity pair) = Some (re_rows t)"
    "read_table_assembly t (table_rules_of choice t) operation mergeTarget = Inr a"
    "target_rows tools equal a = Inr (pl_rows plan)"
    "structure_side (table_rules_of choice t) = structure_side_of choice
       (map_option ca_key (table_unit_of (ch_lookup (as_catalogue source)) StructureUnit pair))"
proof -
  let ?source = "assembly_source.truncate source"
  have same: "as_snapshot ?source = as_snapshot source" "as_catalogue ?source = as_catalogue source"
    by (simp_all add: assembly_source.defs)
  obtain read assembled where run: "read_tables_of ?source = Inr read"
    "map_try (assemble_read_table tools ids equal ?source choice) read = Inr assembled"
    "at_tables target = map ab_plan (assembled @ assemble_one_sided_tables ?source choice)"
    using assms(1) by (auto simp: assemble_target_def assemble_user_tables_def)
  have "pl_rows (ab_plan x) = []" if "x \<in> set (assemble_one_sided_tables ?source choice)" for x
    using that by (auto simp: assemble_one_sided_tables_def one_sided_table_plan_def Let_def split: option.splits if_splits)
  then obtain x where x: "x \<in> set assembled" "plan = ab_plan x" using assms(3,6) run(3) by auto
  with run(2) obtain t where t: "t \<in> set read" "assemble_read_table tools ids equal ?source choice t = Inr x"
    unfolding map_try_Inr_iff by (blast dest: list_all2_second)
  from t(2) obtain mergeTarget a where a: "read_table_assembly t (table_rules_of choice t) (ap_operation choice) mergeTarget = Inr a"
    "assemble_table tools ids equal a = Inr x"
    by (auto simp: assemble_read_table_def Let_def)
  have rows: "target_rows tools equal a = Inr (pl_rows plan)" "pl_identity plan = tp_identity (re_pair t)"
    using a(2) decided_rows(1,2) [OF a(1)] a(1) by (auto simp: x(2) assemble_table_def Let_def read_table_assembly_def)
  from run(1) t(1) obtain identity where identity: "(identity, re_rows t) \<in> set (ch_rows (as_catalogue source))"
    "required_pair (sn_tables (as_snapshot source)) identity = Inr (re_pair t)"
    "re_units t = unit_keys_in (re_pair t) (ch_lookup (as_catalogue source))"
    unfolding read_tables_of_def map_try_Inr_iff same by (fastforce dest: list_all2_second)
  have found: "re_pair t \<in> set (sn_tables (as_snapshot source))" "tp_identity (re_pair t) = identity"
    using identity(2) by (auto simp: required_pair_def find_Some_iff split: option.splits)
  have pair: "re_pair t = pair"
    using assms(2,4,5) found(1) rows(2) by (auto simp: sound_source_def distinct_map inj_on_def)
  have "map_of (ch_rows (as_catalogue source)) (tp_identity pair) = Some (re_rows t)"
    using identity(1) assms(2) found(2) pair by (simp add: sound_source_def jmap_mem_iff)
  moreover have "structure_side (table_rules_of choice t) = structure_side_of choice
       (map_option ca_key (table_unit_of (ch_lookup (as_catalogue source)) StructureUnit pair))"
    by (simp add: structure_side_def table_rules_of_def rules_for_table_def identity(3) unit_keys_in_def pair)
  ultimately show ?thesis using a(1) rows(1) by (intro that [of t "ap_operation choice" mergeTarget a])
qed

lemma held_row_of_facts:
  assumes "held_row_of rows side row = Inr hs" "h \<in> set hs"
  shows "hs = [h]" "map_of rows (rp_identity (tg_pair row)) = Some (hl_row h)"
    "target_version_of row side = Inr (Some (hl_id h, hl_data h))"
proof -
  obtain version where run: "target_version_of row side = Inr version"
    "hs = (case (map_of rows (rp_identity (tg_pair row)), version) of
       (Some row, Some (i, data)) \<Rightarrow> [\<lparr>hl_row = row, hl_id = i, hl_data = data\<rparr>]
     | _ \<Rightarrow> [])"
    using assms(1) by (auto simp: held_row_of_def simp del: target_version_of.simps)
  obtain found where found: "map_of rows (rp_identity (tg_pair row)) = Some found"
    using run(2) assms(2) by (cases "map_of rows (rp_identity (tg_pair row))") auto
  obtain i data where "version = Some (i, data)" using run(2) assms(2) by (cases version) (auto simp: found)
  with run assms(2) found show "hs = [h]" "map_of rows (rp_identity (tg_pair row)) = Some (hl_row h)"
    "target_version_of row side = Inr (Some (hl_id h, hl_data h))"
    by (simp_all del: target_version_of.simps)
qed

lemma held_rows_run:
  assumes "held_rows_of plan loaded side = Inr held"
  obtains helds where "held = concat helds"
    "list_all2 (\<lambda>row hs. held_row_of (jmap_of (map (\<lambda>row. (rp_identity (cr_pair row), row)) loaded)) side row = Inr hs)
       (case plan of None \<Rightarrow> [] | Some p \<Rightarrow> pl_rows p) helds"
  using assms by (auto simp: held_rows_of_def Let_def map_try_Inr_iff)

lemma row_of_identity:
  "map_of (jmap_of (map (\<lambda>row. (rp_identity (cr_pair row), row)) loaded)) i = Some row \<Longrightarrow>
     row \<in> set loaded \<and> rp_identity (cr_pair row) = i"
  by (auto simp: map_of_jmap_of dest!: map_of_SomeD)

lemma held_row_origin:
  assumes "held_rows_of plan loaded side = Inr held" "h \<in> set held" "distinct (map (\<lambda>row. rp_identity (cr_pair row)) loaded)"
    "\<And>p row. plan = Some p \<Longrightarrow> row \<in> set (pl_rows p) \<Longrightarrow> tg_pair row \<in> cr_pair ` set loaded"
  obtains p row where "plan = Some p" "row \<in> set (pl_rows p)" "hl_row h \<in> set loaded" "cr_pair (hl_row h) = tg_pair row"
    "target_version_of row side = Inr (Some (hl_id h, hl_data h))"
proof -
  obtain helds where helds: "held = concat helds"
    "list_all2 (\<lambda>row hs. held_row_of (jmap_of (map (\<lambda>row. (rp_identity (cr_pair row), row)) loaded)) side row = Inr hs)
       (case plan of None \<Rightarrow> [] | Some p \<Rightarrow> pl_rows p) helds" by (rule held_rows_run [OF assms(1)])
  from assms(2) obtain hs where hs: "hs \<in> set helds" "h \<in> set hs" by (auto simp: helds(1))
  from list_all2_second [OF helds(2) hs(1)] obtain row where row: "row \<in> set (case plan of None \<Rightarrow> [] | Some p \<Rightarrow> pl_rows p)"
    "held_row_of (jmap_of (map (\<lambda>row. (rp_identity (cr_pair row), row)) loaded)) side row = Inr hs" by blast
  from row(1) obtain p where p: "plan = Some p" "row \<in> set (pl_rows p)" by (cases plan) auto
  note facts = held_row_of_facts [OF row(2) hs(2)]
  note found = row_of_identity [OF facts(2)]
  from assms(4) [OF p] obtain c where "c \<in> set loaded" "tg_pair row = cr_pair c" by auto
  with found assms(3) have "cr_pair (hl_row h) = tg_pair row" by (auto simp: distinct_map inj_on_def)
  with p found facts(3) show ?thesis by (intro that [of p row]) simp_all
qed

lemma concat_distinct_map:
  assumes "list_all2 (\<lambda>p ts. \<forall>t \<in> set ts. ts = [t] \<and> f t = p) ps tables" "distinct ps"
  shows "distinct (map f (concat tables))"
  using assms
proof (induction rule: list_all2_induct)
  case (Cons p ps ts tables)
  have "f t \<in> set ps" if "t \<in> set (concat tables)" for t
    using that Cons(2) by (fastforce dest: list_all2_second)
  with Cons show ?case by (cases ts) fastforce+
qed simp

lemma held_rows_distinct:
  assumes "held_rows_of plan loaded side = Inr held" "distinct (map (\<lambda>row. rp_identity (cr_pair row)) loaded)"
    "\<And>p. plan = Some p \<Longrightarrow> map tg_pair (pl_rows p) = map cr_pair loaded"
  shows "distinct (map (\<lambda>h. rp_identity (cr_pair (hl_row h))) held)"
proof -
  obtain helds where helds: "held = concat helds"
    "list_all2 (\<lambda>row hs. held_row_of (jmap_of (map (\<lambda>row. (rp_identity (cr_pair row), row)) loaded)) side row = Inr hs)
       (case plan of None \<Rightarrow> [] | Some p \<Rightarrow> pl_rows p) helds" by (rule held_rows_run [OF assms(1)])
  have "list_all2 (\<lambda>i hs. \<forall>h \<in> set hs. hs = [h] \<and> rp_identity (cr_pair (hl_row h)) = i)
      (map (\<lambda>row. rp_identity (tg_pair row)) (case plan of None \<Rightarrow> [] | Some p \<Rightarrow> pl_rows p)) helds"
    unfolding list.rel_map
    by (rule list_all2_mono [OF helds(2)]) (auto dest: held_row_of_facts row_of_identity)
  moreover have "distinct (map (\<lambda>row. rp_identity (tg_pair row)) (case plan of None \<Rightarrow> [] | Some p \<Rightarrow> pl_rows p))"
  proof (cases plan)
    case (Some p)
    have "map (\<lambda>row. rp_identity (tg_pair row)) (pl_rows p) = map (\<lambda>row. rp_identity (cr_pair row)) loaded"
      using arg_cong [OF assms(3) [OF Some], of "map rp_identity"] by (simp add: comp_def)
    with assms(2) Some show ?thesis by simp
  qed simp
  ultimately show ?thesis unfolding helds(1) by (rule concat_distinct_map)
qed

lemma unique_row_id:
  assumes "sound_rows rows" "x \<in> set rows" "y \<in> set rows"
    "map_option row_id (row_on_side side (cr_pair x)) = Some i" "map_option row_id (row_on_side side (cr_pair y)) = Some i"
  shows "x = y"
proof -
  have "distinct (ids_on rows side)" using assms(1) by (cases side) (simp_all add: sound_rows_def)
  then show ?thesis
    unfolding ids_on_def by (rule unique_in_concat [OF _ assms(2,3), of _ i]) (use assms(4,5) in auto)
qed

text \<open>The rows a table of an assembled target holds: rows of the catalogue, each once, with the ids they take.\<close>

lemma target_table_rows:
  assumes "assemble_target tools tk ids equal vhash vequal planLedger (assembly_source.truncate source) choice = Inr target"
    "target_tables source target choice = Inr ts" "recomputes_every_row tools" "sound_source source" "t \<in> set (ta_all ts)"
  obtains loaded where "sound_rows loaded" "distinct (tt_heldRows t)" "tt_holdersById t = file_under hl_id (tt_heldRows t)"
    "\<forall>h \<in> set (tt_heldRows t). hl_row h \<in> set loaded \<and> takes_id choice (hl_row h) (hl_id h)"
    "inj_on hl_row (set (tt_heldRows t))"
proof -
  obtain pair f where pf: "pair \<in> set (sn_tables (as_snapshot source))" "target_tables_of_pair source target choice pair = Inr f"
    "t \<in> set f" by (rule target_tables_facts [OF assms(2,5)])
  note facts = target_tables_of_pair_facts [OF pf(2,3)]
  let ?loaded = "case map_of (ch_rows (as_catalogue source)) (tp_identity pair) of None \<Rightarrow> [] | Some rows \<Rightarrow> rows"
  let ?plan = "map_of (jmap_of (map (\<lambda>plan. (pl_identity plan, plan)) (at_tables target))) (tp_identity pair)"
  have held: "held_rows_of ?plan ?loaded (tt_structureSide t) = Inr (tt_heldRows t)"
    using pf(2,3) by (auto simp: target_tables_of_pair_def target_table_def Let_def split: if_splits)
  have "sound_rows ?loaded"
  proof (cases "map_of (ch_rows (as_catalogue source)) (tp_identity pair)")
    case None
    then show ?thesis by (simp add: sound_rows_def ids_on_def)
  next
    case (Some rows)
    from map_of_SomeD [OF Some] assms(4) have "sound_rows rows" by (auto simp: sound_source_def list_all_iff)
    with Some show ?thesis by simp
  qed
  note sound = this
  have identities: "distinct (map (\<lambda>row. rp_identity (cr_pair row)) ?loaded)" using sound by (simp add: sound_rows_def)
  have plan: "p \<in> set (at_tables target)" "pl_identity p = tp_identity pair" if "?plan = Some p" for p
    using that by (auto simp: map_of_jmap_of dest!: map_of_SomeD)
  show ?thesis
  proof (cases "\<exists>p. ?plan = Some p \<and> pl_rows p \<noteq> []")
    case False
    then have "tt_heldRows t = []" using held by (cases ?plan) (auto simp: held_rows_of_def)
    then show ?thesis by (intro that [OF sound]) (simp_all add: facts(6))
  next
    case True
    then obtain p where p: "?plan = Some p" "pl_rows p \<noteq> []" by blast
    from assembled_plan [OF assms(1,4) plan(1) [OF p(1)] pf(1) plan(2) [OF p(1)] p(2)] obtain rt operation mergeTarget a where
      rt: "map_of (ch_rows (as_catalogue source)) (tp_identity pair) = Some (re_rows rt)"
      "read_table_assembly rt (table_rules_of choice rt) operation mergeTarget = Inr a"
      "target_rows tools equal a = Inr (pl_rows p)"
      "structure_side (table_rules_of choice rt) = tt_structureSide t" unfolding facts(4) .
    have loaded: "?loaded = re_rows rt" by (simp add: rt(1))
    have pairs: "map tg_pair (pl_rows p) = map cr_pair ?loaded" unfolding loaded by (rule target_rows_mem(1) [OF rt(3,2)])
    have in_loaded: "tg_pair row \<in> cr_pair ` set ?loaded" if "row \<in> set (pl_rows p)" for row
      using imageI [OF that, of tg_pair] by (metis list.set_map pairs)
    have once: "distinct (map (\<lambda>h. rp_identity (cr_pair (hl_row h))) (tt_heldRows t))"
      by (rule held_rows_distinct [OF held identities]) (use pairs p(1) in auto)
    then have d: "distinct (tt_heldRows t)" by (simp add: distinct_map)
    have each: "hl_row h \<in> set ?loaded \<and> takes_id choice (hl_row h) (hl_id h)" if h: "h \<in> set (tt_heldRows t)" for h
    proof -
      obtain q row where row: "?plan = Some q" "row \<in> set (pl_rows q)" "hl_row h \<in> set ?loaded"
        "cr_pair (hl_row h) = tg_pair row" "target_version_of row (tt_structureSide t) = Inr (Some (hl_id h, hl_data h))"
        by (rule held_row_origin [OF held h identities]) (use p(1) in_loaded in auto)
      have "row \<in> set (pl_rows p)" using row(1,2) p(1) by simp
      from target_row_takes_id [OF assms(3) rt(2,3) sound [unfolded loaded] this row(5) [folded rt(4)]] obtain c where
        c: "c \<in> set ?loaded" "tg_pair row = cr_pair c" "takes_id (tr_rules (table_rules_of choice rt)) c (hl_id h)"
        unfolding loaded .
      have "c = hl_row h" using identities c(1,2) row(3,4) by (auto simp: distinct_map inj_on_def)
      with c(3) row(3) show ?thesis by (simp add: table_rules_of_def rules_for_table_def)
    qed
    have same: "h = h'" if "h \<in> set (tt_heldRows t)" "h' \<in> set (tt_heldRows t)" "hl_row h = hl_row h'" for h h'
      using once that by (auto simp: distinct_map inj_on_def)
    show ?thesis by (rule that [OF sound d facts(6)]) (use same each in \<open>auto simp: inj_on_def\<close>)
  qed
qed

subsection \<open>Properties\<close>

text \<open>
  Claim C10: where the rows of each side have ids of their own, the check of row ids reports nothing exactly when, in
  every table of an assembled target, no two rows hold the same id. This needs what the assembly does: a row has the id
  of the side that the unit owning its id takes, be it kept, taken over, merged or moved to another structure.
\<close>

theorem row_ids_checked:
  assumes "assemble_target tools tk ids equal vhash vequal planLedger (assembly_source.truncate source) choice = Inr target"
    "check_context source target choice = Inr context" "recomputes_every_row tools" "sound_source source"
  shows "row_id_collisions context = [] \<longleftrightarrow>
    list_all (\<lambda>t. distinct (map hl_id (tt_heldRows t))) (ta_all (cx_tables context))"
proof -
  obtain ts where ts: "target_tables source target choice = Inr ts" "cx_tables context = ts" "cx_choice context = choice"
    using assms(2) by (auto simp: check_context_def)
  note rows = target_table_rows [OF assms(1) ts(1) assms(3,4)]
  have "row_id_collisions context = []" if none: "list_all (\<lambda>t. distinct (map hl_id (tt_heldRows t))) (ta_all ts)"
  proof -
    have "collisions t = []" if t: "t \<in> set (ta_all ts)" for t
    proof -
      have d: "distinct (map hl_id (tt_heldRows t))" using none t by (simp add: list_all_iff)
      obtain loaded where "tt_holdersById t = file_under hl_id (tt_heldRows t)" by (rule rows [OF t])
      then show ?thesis by (auto simp: collisions_def filter_empty_conv file_under_mem no_two_holders [OF d])
    qed
    then show ?thesis by (simp add: row_id_collisions_def ts(2))
  qed
  moreover have "row_id_collisions context \<noteq> []"
    if t: "t \<in> set (ta_all ts)" and twice: "\<not> distinct (map hl_id (tt_heldRows t))" for t
  proof -
    obtain loaded where loaded: "sound_rows loaded" "distinct (tt_heldRows t)"
      "tt_holdersById t = file_under hl_id (tt_heldRows t)"
      "\<forall>h \<in> set (tt_heldRows t). hl_row h \<in> set loaded \<and> takes_id choice (hl_row h) (hl_id h)"
      "inj_on hl_row (set (tt_heldRows t))"
      by (rule rows [OF t])
    obtain x y where xy: "x \<in> set (tt_heldRows t)" "y \<in> set (tt_heldRows t)" "x \<noteq> y" "hl_id x = hl_id y"
      "1 < length (filter (\<lambda>z. hl_id z = hl_id x) (tt_heldRows t))" by (rule two_with_same_key [OF loaded(2) twice])
    let ?id_on = "\<lambda>side h. map_option row_id (row_on_side side (cr_pair (hl_row h)))"
    let ?unit = "\<lambda>h. id_unit_of (hl_row h)"
    have apart: "\<not> (?id_on side x = Some (hl_id x) \<and> ?id_on side y = Some (hl_id x))" for side
      using unique_row_id [OF loaded(1)] loaded(4) inj_onD [OF loaded(5)] xy(1,2,3) by blast
    have each: "?id_on (case ?unit z of None \<Rightarrow> base_side choice | Some key \<Rightarrow> side_taken_by choice key) z = Some (hl_id x)"
      if "z \<in> {x, y}" for z
      using that bspec [OF loaded(4), of z] xy(1,2,4) by (auto simp: takes_id_def id_side_def)
    obtain z where z: "z \<in> {x, y}" "?id_on (base_side choice) z = Some (hl_id x)"
      "case ?unit z of None \<Rightarrow> True | Some key \<Rightarrow> \<not> is_applied choice key"
      using outcome_rules.one_keeps_base_id [where id_on = ?id_on and i = "hl_id x" and unit = ?unit and r = choice,
          OF xy(3) apart each] by blast
    let ?same = "filter (\<lambda>z. hl_id z = hl_id x) (tt_heldRows t)"
    have keeps: "keeps_base_row_id context (hl_row z) (hl_id x)"
      unfolding keeps_base_row_id_def ts(3) using z(2,3) by simp
    have "z \<in> set ?same" using z(1) xy(1,2,4) by auto
    moreover have "(hl_id x, ?same) \<in> set (collisions t)"
      using xy(1,5) by (auto simp: collisions_def loaded(3) file_under_mem filter_empty_conv)
    ultimately have "move_from_occupied_row_id context t (hl_row z) (hl_id x) \<in> set (row_id_collisions context)"
      unfolding row_id_collisions_def ts(2) using t keeps
      by (auto intro!: bexI [of _ t] bexI [of _ "(hl_id x, ?same)"] image_eqI [of _ _ z])
    then show ?thesis by force
  qed
  ultimately show ?thesis unfolding ts(2) list_all_iff by blast
qed

text \<open>A row renamed away from an id that a created row takes: the creation is applied, the rename is not.\<close>

definition example_renamed_rows :: changed_table where
  "example_renamed_rows =
     \<lparr>ct_identity = ''T'', ct_tableId = ''posts'', ct_structure = ct_structure example_posts,
      ct_pairs =
        [\<lparr>rp_identity = ''c-a'', rp_head = Some (example_row ''a'' (JObj [])),
          rp_draft = Some ((example_row ''a'' (JObj []))\<lparr>row_versionId := ''v-2'', row_id := ''b''\<rparr>)\<rparr>,
         \<lparr>rp_identity = ''c-n'', rp_head = None,
          rp_draft = Some ((example_row ''n'' (JObj []))\<lparr>row_versionId := ''v-3'', row_id := ''a''\<rparr>)\<rparr>]\<rparr>"

definition example_renamed_source :: check_source where
  "example_renamed_source =
     (let built = (case build_row_units (=) example_renamed_rows of Inr r \<Rightarrow> r | Inl _ \<Rightarrow> \<lparr>ru_units = [], ru_rows = []\<rparr>);
          rows = [(''T'', ru_rows built)];
          snapshot = example_snapshot\<lparr>sn_tables := [example_table_pair]\<rparr>;
          compared = [\<lparr>co_identity = ''T'', co_headVersionId = ''v'', co_draftVersionId = ''w'',
            co_structure = ct_structure example_posts\<rparr>]
      in \<lparr>as_headRevisionId = ''H'', as_draftRevisionId = ''D'', as_systemVersions = as_systemVersions example_empty_source,
          as_snapshot = snapshot, as_tables = compared,
          as_catalogue = \<lparr>ch_units = ru_units built, ch_rows = rows, ch_lookup = catalogue_lookup (ru_units built) rows,
            ch_tables = catalogue_tables snapshot compared, ch_ledgerInconsistencies = [], ch_refusedTables = []\<rparr>,
          ck_headSchema = \<lparr>hs_refusedTables = [], hs_refusedTablesByIdentity = [], hs_replayedHeadSchemas = []\<rparr>\<rparr>)"

definition example_row_creation :: applied_units where
  "example_row_creation =
     \<lparr>ap_operation = CommitOp, ap_applied = [row_unit_key RowCreateUnit ''T'' [''c-n'']], ap_wholeDraft = False\<rparr>"

definition example_renamed_target :: assembled_target where
  "example_renamed_target =
     (case assemble_target example_tools root_toolkit example_ids (=) (\<lambda>_. '''') (=) (\<lambda>_ _. Inr [])
        (assembly_source.truncate example_renamed_source) example_row_creation of
        Inr target \<Rightarrow> target | Inl _ \<Rightarrow> example_no_target)"

definition example_renamed_context :: check_context where
  "example_renamed_context =
     (case check_context example_renamed_source example_renamed_target example_row_creation of
        Inr context \<Rightarrow> context | Inl _ \<Rightarrow> example_context)"

lemma example_renamed_facts:
  "assemble_target example_tools root_toolkit example_ids (=) (\<lambda>_. '''') (=) (\<lambda>_ _. Inr [])
     (assembly_source.truncate example_renamed_source) example_row_creation = Inr example_renamed_target"
  "check_context example_renamed_source example_renamed_target example_row_creation = Inr example_renamed_context"
  "sound_source example_renamed_source"
  "map (\<lambda>t. map hl_id (tt_heldRows t)) (ta_all (cx_tables example_renamed_context)) = [[''a'', ''a'']]"
proof -
  let ?held = "\<lambda>context. map (\<lambda>t. map hl_id (tt_heldRows t)) (ta_all (cx_tables context))"
  let ?target = "assemble_target example_tools root_toolkit example_ids (=) (\<lambda>_. '''') (=) (\<lambda>_ _. Inr [])
     (assembly_source.truncate example_renamed_source) example_row_creation"
  have facts: "map_sum id ?held (try_bind ?target (\<lambda>target. check_context example_renamed_source target example_row_creation)) =
      Inr [[''a'', ''a'']] \<and> sound_source example_renamed_source"
    by code_simp
  then obtain target' context' where runs: "?target = Inr target'"
    "check_context example_renamed_source target' example_row_creation = Inr context'" "?held context' = [[''a'', ''a'']]"
    by (cases ?target; cases "try_bind ?target (\<lambda>target. check_context example_renamed_source target example_row_creation)")
      auto
  have target: "example_renamed_target = target'" by (simp add: example_renamed_target_def runs(1))
  have context': "example_renamed_context = context'" by (simp add: example_renamed_context_def target runs(2))
  show "?target = Inr example_renamed_target" "?held example_renamed_context = [[''a'', ''a'']]"
    "check_context example_renamed_source example_renamed_target example_row_creation = Inr example_renamed_context"
    using runs by (simp_all only: target context')
  show "sound_source example_renamed_source" using facts by blast
qed

theorem row_ids_checked_witness:
  "check_context example_renamed_source example_renamed_target example_row_creation = Inr example_renamed_context \<and>
   row_id_collisions example_renamed_context \<noteq> []"
proof -
  obtain t where t: "ta_all (cx_tables example_renamed_context) = [t]" "map hl_id (tt_heldRows t) = [''a'', ''a'']"
    using example_renamed_facts(4) by (auto simp: map_eq_Cons_conv)
  then show ?thesis
    using row_ids_checked [OF example_renamed_facts(1,2) recomputes_example example_renamed_facts(3)] example_renamed_facts(2)
    by simp
qed

end
