(* ===== verification/Estimates.thy ===== *)
theory Estimates
  imports System_Targets Merge_Results
begin

section \<open>Estimating an operation\<close>

text \<open>
  \<^verbatim>\<open>partial-changes/limits/operation-estimator.ts\<close> and \<^verbatim>\<open>too-large-blockers.ts\<close>: how much work an
  operation would be, before its target is assembled, and the limits it must stay within. \<open>countRowLinks\<close> is the
  database's count of the rows a version of a table links, which the code caches by version.
\<close>

record mixed_table_estimate =
  me_tableId :: string
  me_linksCopied :: int
  me_linksAdded :: nat

record estimate =
  es_changedRows :: nat
  es_mergedRows :: nat
  es_perRowWorkRows :: nat
  es_mixedTables :: "mixed_table_estimate list"

record partial_changes_limits =
  pm_maxChangedRows :: nat
  pm_maxPerRowWork :: nat
  pm_maxMixedTableLinks :: nat

datatype guarded_estimate = WithinLimits estimate | EstimateTooLarge estimate "plan_blocker list"

definition changed_rows_too_large :: "nat \<Rightarrow> nat \<Rightarrow> plan_blocker" where
  "changed_rows_too_large changedRowCount maxChangedRows =
     blocker_at TooLarge None None None
       (''The affected tables hold '' @ decimal changedRowCount @
        '' changed rows; the limit for one operation is '' @ decimal maxChangedRows)"

definition estimate_too_large :: "estimate \<Rightarrow> partial_changes_limits \<Rightarrow> plan_blocker list" where
  "estimate_too_large e limits =
     (let blockers = map (\<lambda>t. blocker_at TooLarge (Some (me_tableId t)) None None
              (''Assembling '' @ me_tableId t @ '' copies up to '' @ decimal (nat (me_linksCopied t)) @
               '' row links; the limit for one table is '' @ decimal (pm_maxMixedTableLinks limits)))
            (filter (\<lambda>t. int (pm_maxMixedTableLinks limits) < me_linksCopied t) (es_mixedTables e))
      in if es_perRowWorkRows e \<le> pm_maxPerRowWork limits then blockers
         else blocker_at TooLarge None None None
           (''The operation merges '' @ decimal (es_perRowWorkRows e) @
            '' rows that need per-row work (formula fields or file registration); the limit for one operation is '' @
            decimal (pm_maxPerRowWork limits)) # blockers)"

subsection \<open>Planned tables\<close>

record planned_table =
  pt_version :: table_version
  pt_structureSide :: revision_side
  pt_editInPlace :: bool
  pt_rows :: "(row_pair \<times> row_outcome_kind) list"
  pt_outcome :: table_outcome

fun outcome_kind :: "row_outcome \<Rightarrow> row_outcome_kind" where
  "outcome_kind RowAbsent = AbsentKind"
| "outcome_kind RowStructureSide = StructureSideKind"
| "outcome_kind RowOtherSide = OtherSideKind"
| "outcome_kind RowMove = MoveKind"
| "outcome_kind (RowMerge _) = MergeKind"

definition converted_rows :: "row_outcome_kind list" where
  "converted_rows = [MergeKind, MoveKind]"

definition rows_leaving_structure_side :: "row_outcome_kind list" where
  "rows_leaving_structure_side = [AbsentKind, OtherSideKind]"

definition rows_linked_from_other_side :: "row_outcome_kind list" where
  "rows_linked_from_other_side = [OtherSideKind, MergeKind, MoveKind]"

definition planned_table_of :: "applied_units \<Rightarrow> read_table \<Rightarrow> planned_table outcome" where
  "planned_table_of choice t =
     (let rules = table_rules_of choice t;
          rows = map (\<lambda>row. (cr_pair row, outcome_kind (row_outcome_of rules row))) (re_rows t)
      in try_bind (version_on (re_pair t) (structure_side rules)) (\<lambda>version.
         Inr \<lparr>pt_version = version, pt_structureSide = structure_side rules,
              pt_editInPlace = table_edits_draft_in_place rules (re_pair t), pt_rows = rows,
              pt_outcome = table_outcome_of rules rows\<rparr>))"

definition converted_rows_in :: "planned_table list \<Rightarrow> nat" where
  "converted_rows_in tables =
     sum_list (map (\<lambda>t. length (filter (\<lambda>row. snd row \<in> set converted_rows) (pt_rows t))) tables)"

definition links_copied_into :: "(string \<Rightarrow> nat outcome) \<Rightarrow> planned_table \<Rightarrow> int outcome" where
  "links_copied_into countRowLinks t =
     (if pt_editInPlace t then Inr 0
      else let leaving = filter (\<lambda>(pair, kind). kind \<in> set rows_leaving_structure_side \<and>
              row_on_side (pt_structureSide t) pair \<noteq> None) (pt_rows t)
           in try_bind (countRowLinks (tv_versionId (pt_version t))) (\<lambda>count. Inr (int count - int (length leaving))))"

definition mixed_table_estimate_of :: "(string \<Rightarrow> nat outcome) \<Rightarrow> planned_table \<Rightarrow> mixed_table_estimate outcome" where
  "mixed_table_estimate_of countRowLinks t =
     try_bind (links_copied_into countRowLinks t) (\<lambda>copied.
       Inr \<lparr>me_tableId = tv_id (pt_version t), me_linksCopied = copied,
            me_linksAdded = length (filter (\<lambda>row. snd row \<in> set rows_linked_from_other_side) (pt_rows t))\<rparr>)"

definition needs_per_row_work :: "system_schema_ids \<Rightarrow> planned_table \<Rightarrow> bool" where
  "needs_per_row_work ids t = has_formula_or_file_fields ids (tv_schema (pt_version t))"

subsection \<open>System tables\<close>

definition may_be_mixed :: "'d system_table_target \<Rightarrow> bool" where
  "may_be_mixed target \<longleftrightarrow>
     system_table_outcome_of target (yt_versions target) (0 < length (yt_rewrites target)) = TableMixed"

text \<open>The versions a rewrite may keep, of the rows that it rewrites: \<open>rewritten\<close> reads them from a target.\<close>

definition system_links_copied :: "'d system_table_target \<Rightarrow> int" where
  "system_links_copied target =
     (if yt_editInPlace target then 0
      else let possiblyKept = map row_versionId (yt_versions target) @ map (\<lambda>r. row_versionId (vt_source r)) (yt_rewrites target)
           in int (length (filter (\<lambda>row. row_versionId row \<in> set possiblyKept)
                (rows_on (yt_linkSide target) (yt_rows target)))))"

definition system_table_estimate_of :: "'d system_table_target \<Rightarrow> mixed_table_estimate" where
  "system_table_estimate_of target =
     (let linkedIds = map row_versionId (rows_on (yt_linkSide target) (yt_rows target))
      in \<lparr>me_tableId = system_table_id (yt_tableId target), me_linksCopied = system_links_copied target,
          me_linksAdded = length (filter (\<lambda>row. row_versionId row \<notin> set linkedIds) (yt_versions target)) +
            length (yt_rewrites target)\<rparr>)"

definition estimate_if_mixed :: "'d system_table_target \<Rightarrow> mixed_table_estimate list" where
  "estimate_if_mixed target =
     (if exists_on_either_side (yt_stored target) \<and> may_be_mixed target then [system_table_estimate_of target] else [])"

definition mixed_system_tables :: "assembly_source \<Rightarrow> applied_units \<Rightarrow> mixed_table_estimate list" where
  "mixed_system_tables source rules =
     (let rows = sn_systemRows (as_snapshot source); stored = as_systemVersions source
      in estimate_if_mixed
           (rows_following_owners source rules SchemaTable (sy_schemas rows) (sm_schemas stored) StructureUnit) @
         estimate_if_mixed (ledger_target source rules) @
         estimate_if_mixed (views_target source rules (sy_views rows) (sm_views stored)) @
         estimate_if_mixed
           (rows_following_owners source rules SharedSchemasTable (sy_sharedSchemas rows) (sm_sharedSchemas stored)
              SharedSchemaUnit))"

subsection \<open>The estimate\<close>

definition in_table_id_order :: "mixed_table_estimate list \<Rightarrow> mixed_table_estimate list" where
  "in_table_id_order tables = js_sort (\<lambda>l r. compare_code_points (me_tableId l) (me_tableId r)) tables"

definition estimate_of ::
  "system_schema_ids \<Rightarrow> (string \<Rightarrow> nat outcome) \<Rightarrow> assembly_source \<Rightarrow> nat \<Rightarrow> read_table list \<Rightarrow> applied_units \<Rightarrow>
   estimate outcome" where
  "estimate_of ids countRowLinks source changedRowCount tables choice =
     try_bind (map_try (planned_table_of choice) tables) (\<lambda>planned.
       let mixed = filter (\<lambda>t. pt_outcome t = TableMixed) planned
       in try_bind (map_try (mixed_table_estimate_of countRowLinks) mixed) (\<lambda>mixedTables.
          Inr \<lparr>es_changedRows = changedRowCount, es_mergedRows = converted_rows_in mixed,
               es_perRowWorkRows = converted_rows_in (filter (needs_per_row_work ids) mixed),
               es_mixedTables = in_table_id_order (mixedTables @ mixed_system_tables source choice)\<rparr>))"

definition estimate_and_guard ::
  "system_schema_ids \<Rightarrow> (string \<Rightarrow> nat outcome) \<Rightarrow> partial_changes_limits \<Rightarrow> assembly_source \<Rightarrow> nat \<Rightarrow> applied_units \<Rightarrow>
   guarded_estimate outcome" where
  "estimate_and_guard ids countRowLinks limits source changedRowCount choice =
     try_bind (read_tables_of source) (\<lambda>tables.
     try_bind (estimate_of ids countRowLinks source changedRowCount tables choice) (\<lambda>e.
       Inr (if estimate_too_large e limits = [] then WithinLimits e
            else EstimateTooLarge e (estimate_too_large e limits))))"

subsection \<open>Plans within their estimates\<close>

text \<open>How a row may end in the target, by the outcome that the rules give it.\<close>

fun ends_as :: "row_outcome_kind \<Rightarrow> row_outcome_kind \<Rightarrow> bool" where
  "ends_as AbsentKind k = (k = AbsentKind)"
| "ends_as StructureSideKind k = (k = StructureSideKind)"
| "ends_as OtherSideKind k = (k = OtherSideKind)"
| "ends_as MoveKind k = (k \<in> {AbsentKind, OtherSideKind, MergeKind})"
| "ends_as MergeKind k = (k \<in> {OtherSideKind, MergeKind})"

definition same_row_ends :: "row_pair \<times> row_outcome_kind \<Rightarrow> target_row \<Rightarrow> bool" where
  "same_row_ends planned row \<longleftrightarrow> tg_pair row = fst planned \<and> ends_as (snd planned) (kind_of_target (tg_kind row))"

lemma target_row_ends:
  "target_row_of equal pair decided new r = Inr row \<Longrightarrow> same_row_ends (pair, outcome_kind decided) row"
  by (auto simp: target_row_of_def same_row_ends_def collapsed_row_of_def split: row_outcome.splits option.splits if_splits)

lemma ends_as_kept: "ends_as k k' \<Longrightarrow> k = StructureSideKind \<or> k = AbsentKind \<Longrightarrow> k' = k"
  by auto

lemma keeps_ends:
  assumes "list_all2 same_row_ends planned rows" "list_all (keeps_structure_side_link r) planned"
  shows "list_all (keeps_structure_side_link r) (map (\<lambda>row. (tg_pair row, kind_of_target (tg_kind row))) rows)"
  using assms by (induction rule: list_all2_induct) (auto simp: same_row_ends_def keeps_structure_side_link_def)

lemma takes_other_ends:
  assumes "list_all2 same_row_ends planned rows" "takes_other_side_version r planned"
  shows "takes_other_side_version r (map (\<lambda>row. (tg_pair row, kind_of_target (tg_kind row))) rows)"
proof -
  have "list_all (\<lambda>row. snd row = OtherSideKind \<or> snd row = AbsentKind) planned"
    using assms(2) by (simp add: takes_other_side_version_def)
  with assms(1) have "list_all (\<lambda>row. snd row = OtherSideKind \<or> snd row = AbsentKind)
      (map (\<lambda>row. (tg_pair row, kind_of_target (tg_kind row))) rows)"
    by (induction rule: list_all2_induct) (auto simp: same_row_ends_def)
  with assms(2) show ?thesis by (simp add: takes_other_side_version_def)
qed

text \<open>A table that is not planned as mixed is not assembled as one.\<close>

lemma mixed_was_planned:
  assumes "list_all2 same_row_ends planned rows"
    "table_outcome_of r (map (\<lambda>row. (tg_pair row, kind_of_target (tg_kind row))) rows) = TableMixed"
  shows "table_outcome_of r planned = TableMixed"
  using assms(2) keeps_ends [OF assms(1), of r] takes_other_ends [OF assms(1), of r]
  by (auto simp: table_outcome_of_def outcome_without_units_def split: if_splits)

lemma length_concat_le:
  assumes "list_all2 R xs ys" "\<And>x y. R x y \<Longrightarrow> length (g y) \<le> length (filter P [x])"
  shows "length (concat (map g ys)) \<le> length (filter P xs)"
  using assms(1) by (induction rule: list_all2_induct) (use assms(2) in fastforce)+

lemma new_rows_planned:
  assumes "list_all2 same_row_ends planned rows"
  shows "length (concat (map (\<lambda>row. new_rows_of (tg_kind row)) rows)) \<le>
    length (filter (\<lambda>row. snd row \<in> set converted_rows) planned)"
proof (rule length_concat_le [OF assms])
  fix x y assume "same_row_ends x y"
  then show "length (new_rows_of (tg_kind y)) \<le> length (filter (\<lambda>row. snd row \<in> set converted_rows) [x])"
    by (cases "tg_kind y"; cases "snd x") (auto simp: same_row_ends_def converted_rows_def)
qed

lemma length_filter_le_of:
  assumes "list_all2 R xs ys" "\<And>x y. R x y \<Longrightarrow> P y \<Longrightarrow> Q x"
  shows "length (filter P ys) \<le> length (filter Q xs)"
  using assms(1) by (induction rule: list_all2_induct) (use assms(2) in fastforce)+

lemma length_version_ids_on: "length (version_ids_on pair side) = (if row_on_side side pair = None then 0 else 1)"
  by (auto simp: version_ids_on_def split: option.splits)

lemma length_concat_ids:
  "length (concat (map (\<lambda>row. version_ids_on (tg_pair row) side) (filter P rows))) =
     length (filter (\<lambda>row. P row \<and> row_on_side side (tg_pair row) \<noteq> None) rows)"
  by (induction rows) (auto simp: length_version_ids_on)

lemma length_new_rows:
  "length (concat (map (\<lambda>row. new_rows_of (tg_kind row)) rows)) = length (filter (\<lambda>row. kind_of_target (tg_kind row) = MergeKind) rows)"
proof (induction rows)
  case (Cons row rows)
  then show ?case by (cases "tg_kind row") auto
qed simp

lemma added_links_planned:
  assumes "list_all2 same_row_ends planned rows"
  shows "length (concat (map (\<lambda>row. version_ids_on (tg_pair row) side) (filter (\<lambda>row. tg_kind row = TargetOtherSide) rows))) +
      length (concat (map (\<lambda>row. new_rows_of (tg_kind row)) rows)) \<le>
    length (filter (\<lambda>row. snd row \<in> set rows_linked_from_other_side) planned)"
  using assms unfolding length_concat_ids length_new_rows
proof (induction rule: list_all2_induct)
  case (Cons x xs y ys)
  then show ?case
    by (cases "tg_kind y"; cases "snd x") (auto simp: same_row_ends_def rows_linked_from_other_side_def)
qed simp

lemma removed_links_planned:
  assumes "list_all2 same_row_ends planned rows"
  shows "length (filter (\<lambda>(pair, kind). kind \<in> set rows_leaving_structure_side \<and> row_on_side side pair \<noteq> None) planned) \<le>
    length (concat (map (\<lambda>row. version_ids_on (tg_pair row) side) (filter (\<lambda>row. tg_kind row \<noteq> TargetStructureSide) rows)))"
  using assms unfolding length_concat_ids
proof (induction rule: list_all2_induct)
  case (Cons x xs y ys)
  then show ?case
    by (cases "tg_kind y"; cases "snd x") (auto simp: same_row_ends_def rows_leaving_structure_side_def split: prod.splits)
qed simp

text \<open>A plan within what was planned for its table.\<close>

definition plan_within :: "planned_table \<Rightarrow> table_plan \<Rightarrow> bool" where
  "plan_within planned plan \<longleftrightarrow>
     length (lk_new (pl_links plan)) \<le> length (filter (\<lambda>row. snd row \<in> set converted_rows) (pt_rows planned)) \<and>
     (pl_outcome plan \<noteq> TableMixed \<longrightarrow> lk_new (pl_links plan) = []) \<and>
     (pl_outcome plan = TableMixed \<longrightarrow> pt_outcome planned = TableMixed \<and>
        pl_versionId plan = Some (tv_versionId (pt_version planned)) \<and> pl_editInPlace plan = pt_editInPlace planned \<and>
        length (lk_added (pl_links plan)) + length (lk_new (pl_links plan)) \<le>
          length (filter (\<lambda>row. snd row \<in> set rows_linked_from_other_side) (pt_rows planned)) \<and>
        length (filter (\<lambda>(pair, kind). kind \<in> set rows_leaving_structure_side \<and>
            row_on_side (pt_structureSide planned) pair \<noteq> None) (pt_rows planned)) \<le> length (lk_removed (pl_links plan)))"

lemma assembled_plan_within:
  assumes "assemble_read_table tools ids equal source choice t = Inr ab" "planned_table_of choice t = Inr planned"
  shows "plan_within planned (ab_plan ab)"
proof -
  let ?r = "table_rules_of choice t"
  obtain target a where a: "read_table_assembly t ?r (ap_operation choice) target = Inr a"
    "assemble_table tools ids equal a = Inr ab"
    using assms(1) by (auto simp: assemble_read_table_def Let_def)
  have rules: "ra_rules a = ?r" "ra_table a = t" "ra_decided a = map (\<lambda>row. \<lparr>de_row = row, de_outcome = row_outcome_of ?r row\<rparr>) (re_rows t)"
    using a(1) by (auto simp: read_table_assembly_def)
  obtain rows linked where rows: "target_rows tools equal a = Inr rows"
    "linked_version_of (re_pair t) (pl_outcome (ab_plan ab)) ?r = Inr linked"
    "pl_outcome (ab_plan ab) = table_outcome_of ?r (map (\<lambda>row. (tg_pair row, kind_of_target (tg_kind row))) rows)"
    "pl_links (ab_plan ab) = link_changes_of (pl_outcome (ab_plan ab)) rows ?r"
    "pl_versionId (ab_plan ab) = Some (tv_versionId linked)" "pl_editInPlace (ab_plan ab) = table_edits_draft_in_place ?r (re_pair t)"
    using a(2) by (auto simp: assemble_table_def Let_def rules)
  obtain vs where "map_try (\<lambda>decided. target_row_of equal (cr_pair (de_row decided)) (de_outcome decided)
      (map_of vs (rp_identity (cr_pair (de_row decided)))) ?r) (ra_decided a) = Inr rows"
    using rows(1) by (auto simp: target_rows_def Let_def rules)
  then have "list_all2 (\<lambda>row. same_row_ends (cr_pair row, outcome_kind (row_outcome_of ?r row))) (re_rows t) rows"
    unfolding rules map_try_Inr_iff list.rel_map by (auto elim!: list_all2_mono dest: target_row_ends)
  then have ends: "list_all2 same_row_ends (map (\<lambda>row. (cr_pair row, outcome_kind (row_outcome_of ?r row))) (re_rows t)) rows"
    by (simp add: list.rel_map)
  obtain version where planned: "version_on (re_pair t) (structure_side ?r) = Inr version"
    "planned = \<lparr>pt_version = version, pt_structureSide = structure_side ?r, pt_editInPlace = table_edits_draft_in_place ?r (re_pair t),
       pt_rows = map (\<lambda>row. (cr_pair row, outcome_kind (row_outcome_of ?r row))) (re_rows t),
       pt_outcome = table_outcome_of ?r (map (\<lambda>row. (cr_pair row, outcome_kind (row_outcome_of ?r row))) (re_rows t))\<rparr>"
    using assms(2) by (auto simp: planned_table_of_def Let_def)
  have version: "linked = version" if "pl_outcome (ab_plan ab) = TableMixed"
    using that rows(2) planned(1) by (simp add: linked_version_of_def)
  have mixed: "table_outcome_of ?r (map (\<lambda>row. (cr_pair row, outcome_kind (row_outcome_of ?r row))) (re_rows t)) = TableMixed"
    if "pl_outcome (ab_plan ab) = TableMixed" by (rule mixed_was_planned [OF ends]) (use that rows(3) in simp)
  show ?thesis
    using new_rows_planned [OF ends] added_links_planned [OF ends, of "other_side ?r"] removed_links_planned [OF ends, of "structure_side ?r"]
      version mixed
    by (auto simp: plan_within_def planned(2) rows(4-6) link_changes_of_def no_link_changes_def)
qed

subsection \<open>Properties\<close>

definition new_rows_in :: "assembled_table \<Rightarrow> nat" where
  "new_rows_in assembled = length (lk_new (pl_links (ab_plan assembled)))"

definition works_per_row :: "system_schema_ids \<Rightarrow> applied_units \<Rightarrow> read_table \<Rightarrow> bool" where
  "works_per_row ids choice t =
     (case version_on (re_pair t) (structure_side (table_rules_of choice t)) of
        Inl _ \<Rightarrow> False
      | Inr version \<Rightarrow> has_formula_or_file_fields ids (tv_schema version))"

lemma sum_of_planned:
  assumes "list_all2 (\<lambda>planned ab. plan_within planned (ab_plan ab)) planned assembled"
  shows "sum_list (map new_rows_in assembled) \<le> converted_rows_in (filter (\<lambda>t. pt_outcome t = TableMixed) planned)"
  using assms
proof (induction rule: list_all2_induct)
  case (Cons x xs y ys)
  then show ?case by (cases "pl_outcome (ab_plan y) = TableMixed") (auto simp: plan_within_def converted_rows_in_def new_rows_in_def)
qed (simp add: converted_rows_in_def)

lemma work_of_planned:
  assumes "list_all2 (\<lambda>planned t. needs_per_row_work ids planned = works_per_row ids choice t) planned tables"
    "list_all2 (\<lambda>planned ab. plan_within planned (ab_plan ab)) planned assembled"
  shows "sum_list (map2 (\<lambda>t ab. if works_per_row ids choice t then new_rows_in ab else 0) tables assembled) \<le>
    converted_rows_in (filter (needs_per_row_work ids) (filter (\<lambda>t. pt_outcome t = TableMixed) planned))"
  using assms
proof (induction planned arbitrary: tables assembled)
  case (Cons x xs)
  then obtain t ts y ys where lists: "tables = t # ts" "assembled = y # ys" by (auto simp: list_all2_Cons1)
  have "sum_list (map2 (\<lambda>t ab. if works_per_row ids choice t then new_rows_in ab else 0) ts ys) \<le>
      converted_rows_in (filter (needs_per_row_work ids) (filter (\<lambda>t. pt_outcome t = TableMixed) xs))"
    using Cons.prems lists by (intro Cons.IH) auto
  then show ?case using Cons.prems unfolding lists
    by (cases "pl_outcome (ab_plan y) = TableMixed") (auto simp: plan_within_def converted_rows_in_def new_rows_in_def)
qed (simp add: converted_rows_in_def)

lemma one_sided_tables_unmixed:
  "ab \<in> set (assemble_one_sided_tables source choice) \<Longrightarrow> pl_outcome (ab_plan ab) \<noteq> TableMixed \<and> lk_new (pl_links (ab_plan ab)) = []"
  by (auto simp: assemble_one_sided_tables_def one_sided_table_plan_def outcome_of_one_sided_table_def no_link_changes_def Let_def
      split: option.splits if_splits)

lemma set_in_table_id_order [simp]: "set (in_table_id_order tables) = set tables"
  by (simp add: in_table_id_order_def)

text \<open>
  Claim C14: an operation that is estimated to be within the limits is within them when its target is assembled: the new
  versions of rows are at most the estimated ones, those that need work row by row at most the limit, and for every mixed
  table there is an estimate that bounds the links its plan adds and the links it copies, which are those of the version
  it starts from without the removed ones; the latter is within the limit for one table.
\<close>

theorem estimate_bounds_the_assembly:
  assumes "estimate_and_guard ids countRowLinks limits source changedRowCount choice = Inr (WithinLimits e)"
    "read_tables_of source = Inr tables" "assemble_user_tables tools ids equal source choice = Inr assembled"
  shows "sum_list (map new_rows_in assembled) \<le> es_mergedRows e \<and>
    sum_list (map2 (\<lambda>t ab. if works_per_row ids choice t then new_rows_in ab else 0) tables assembled) \<le> pm_maxPerRowWork limits \<and>
    (\<forall>ab \<in> set assembled. pl_outcome (ab_plan ab) = TableMixed \<longrightarrow>
      (\<exists>m \<in> set (es_mixedTables e). length (lk_added (pl_links (ab_plan ab))) + new_rows_in ab \<le> me_linksAdded m \<and>
        me_linksCopied m \<le> int (pm_maxMixedTableLinks limits) \<and>
        (\<not> pl_editInPlace (ab_plan ab) \<longrightarrow> (\<exists>versionId count. pl_versionId (ab_plan ab) = Some versionId \<and>
           countRowLinks versionId = Inr count \<and>
           int count - int (length (lk_removed (pl_links (ab_plan ab)))) \<le> me_linksCopied m))))"
proof -
  obtain planned mixedTables where e: "map_try (planned_table_of choice) tables = Inr planned"
    "map_try (mixed_table_estimate_of countRowLinks) (filter (\<lambda>t. pt_outcome t = TableMixed) planned) = Inr mixedTables"
    "e = \<lparr>es_changedRows = changedRowCount, es_mergedRows = converted_rows_in (filter (\<lambda>t. pt_outcome t = TableMixed) planned),
       es_perRowWorkRows = converted_rows_in (filter (needs_per_row_work ids) (filter (\<lambda>t. pt_outcome t = TableMixed) planned)),
       es_mixedTables = in_table_id_order (mixedTables @ mixed_system_tables source choice)\<rparr>"
    "estimate_too_large e limits = []"
    using assms(1) unfolding estimate_and_guard_def assms(2) by (auto simp: estimate_of_def Let_def split: if_splits)
  obtain read where both: "map_try (assemble_read_table tools ids equal source choice) tables = Inr read"
    "assembled = read @ assemble_one_sided_tables source choice"
    using assms(3) unfolding assemble_user_tables_def assms(2) by auto
  have tables: "list_all2 (\<lambda>planned t. planned_table_of choice t = Inr planned) planned tables"
    using e(1) unfolding map_try_Inr_iff by (simp add: list_all2_conv_all_nth)
  have within: "list_all2 (\<lambda>planned ab. plan_within planned (ab_plan ab)) planned read"
    by (rule list_all2_trans [OF _ tables both(1) [unfolded map_try_Inr_iff]]) (rule assembled_plan_within)
  have work: "list_all2 (\<lambda>planned t. needs_per_row_work ids planned = works_per_row ids choice t) planned tables"
    using tables by (rule list_all2_mono) (auto simp: planned_table_of_def needs_per_row_work_def works_per_row_def Let_def)
  have sum: "sum_list (map new_rows_in assembled) = sum_list (map new_rows_in read)"
    unfolding both(2) by (simp add: sum_list_eq_0_iff new_rows_in_def one_sided_tables_unmixed)
  have len: "length tables = length read" using map_try_Inr_length [OF both(1)] by simp
  then have zipped: "zip tables assembled = zip tables read" by (simp add: both(2) zip_append2)
  have limits: "es_perRowWorkRows e \<le> pm_maxPerRowWork limits"
    "m \<in> set (es_mixedTables e) \<Longrightarrow> me_linksCopied m \<le> int (pm_maxMixedTableLinks limits)" for m
    using e(4) by (auto simp: estimate_too_large_def Let_def filter_empty_conv split: if_splits)
  have "\<exists>m \<in> set (es_mixedTables e). length (lk_added (pl_links (ab_plan ab))) + new_rows_in ab \<le> me_linksAdded m \<and>
      me_linksCopied m \<le> int (pm_maxMixedTableLinks limits) \<and>
      (\<not> pl_editInPlace (ab_plan ab) \<longrightarrow> (\<exists>versionId count. pl_versionId (ab_plan ab) = Some versionId \<and>
         countRowLinks versionId = Inr count \<and> int count - int (length (lk_removed (pl_links (ab_plan ab)))) \<le> me_linksCopied m))"
    if ab: "ab \<in> set assembled" "pl_outcome (ab_plan ab) = TableMixed" for ab
  proof -
    have "ab \<in> set read" using ab one_sided_tables_unmixed both(2) by auto
    then obtain p where p: "p \<in> set planned" "plan_within p (ab_plan ab)" using list_all2_second [OF within] by blast
    then have "p \<in> set (filter (\<lambda>t. pt_outcome t = TableMixed) planned)" using ab(2) by (simp add: plan_within_def)
    then obtain m where m: "m \<in> set mixedTables" "mixed_table_estimate_of countRowLinks p = Inr m"
      using list_all2_first [OF e(2) [unfolded map_try_Inr_iff]] by blast
    then have "m \<in> set (es_mixedTables e)" by (simp add: e(3))
    with limits(2) show ?thesis
      using p(2) m(2) ab(2)
      by (intro bexI [of _ m]) (auto simp: plan_within_def mixed_table_estimate_of_def links_copied_into_def new_rows_in_def Let_def
          split: if_splits)
  qed
  moreover have "sum_list (map2 (\<lambda>t ab. if works_per_row ids choice t then new_rows_in ab else 0) tables assembled) \<le> pm_maxPerRowWork limits"
    using work_of_planned [OF work within] limits(1) by (simp add: zipped e(3))
  ultimately show ?thesis using sum_of_planned [OF within] by (simp add: sum e(3))
qed

definition example_posts_source :: assembly_source where
  "example_posts_source = example_empty_source
     \<lparr>as_snapshot := example_snapshot\<lparr>sn_tables := [example_table_pair]\<rparr>,
      as_tables := [\<lparr>co_identity = ''T'', co_headVersionId = ''h'', co_draftVersionId = ''d'', co_structure = ct_structure example_posts\<rparr>],
      as_catalogue := (as_catalogue example_empty_source)
        \<lparr>ch_units := ru_units example_post_units, ch_rows := [(''T'', ru_rows example_post_units)],
         ch_lookup := catalogue_lookup (ru_units example_post_units) [(''T'', ru_rows example_post_units)]\<rparr>\<rparr>"

definition example_title_commit :: applied_units where
  "example_title_commit = \<lparr>ap_operation = CommitOp, ap_applied = [field_unit_key ''T'' ''c-a'' [''title'']], ap_wholeDraft = False\<rparr>"

definition example_limits :: partial_changes_limits where
  "example_limits = \<lparr>pm_maxChangedRows = 10, pm_maxPerRowWork = 0, pm_maxMixedTableLinks = 5\<rparr>"

lemma example_posts_estimate:
  "map_sum id (\<lambda>g. case g of WithinLimits e \<Rightarrow> Some (es_mergedRows e, map (\<lambda>m. (me_linksCopied m, me_linksAdded m)) (es_mixedTables e))
      | EstimateTooLarge _ _ \<Rightarrow> None)
     (estimate_and_guard example_ids (\<lambda>_. Inr 5) example_limits example_posts_source 1 example_title_commit) = Inr (Some (1, [(5, 1)])) \<and>
   map_sum id length (read_tables_of example_posts_source) = Inr 1 \<and>
   map_sum id (map (\<lambda>ab. (pl_outcome (ab_plan ab), new_rows_in ab)))
     (assemble_user_tables example_tools example_ids (=) example_posts_source example_title_commit) = Inr [(TableMixed, 1)]"
  by code_simp

theorem estimate_bounds_the_assembly_witness:
  "\<exists>e assembled. estimate_and_guard example_ids (\<lambda>_. Inr 5) example_limits example_posts_source 1 example_title_commit =
       Inr (WithinLimits e) \<and>
     assemble_user_tables example_tools example_ids (=) example_posts_source example_title_commit = Inr assembled \<and>
     sum_list (map new_rows_in assembled) = 1 \<and> sum_list (map new_rows_in assembled) \<le> es_mergedRows e"
proof -
  obtain e tables assembled where runs:
    "estimate_and_guard example_ids (\<lambda>_. Inr 5) example_limits example_posts_source 1 example_title_commit = Inr (WithinLimits e)"
    "read_tables_of example_posts_source = Inr tables"
    "assemble_user_tables example_tools example_ids (=) example_posts_source example_title_commit = Inr assembled"
    using example_posts_estimate
    by (cases "estimate_and_guard example_ids (\<lambda>_. Inr 5) example_limits example_posts_source 1 example_title_commit";
        cases "read_tables_of example_posts_source";
        cases "assemble_user_tables example_tools example_ids (=) example_posts_source example_title_commit")
      (auto split: guarded_estimate.splits)
  moreover have "map new_rows_in assembled = [1]" using example_posts_estimate runs(3) by auto
  ultimately show ?thesis using estimate_bounds_the_assembly [OF runs] by (intro exI [of _ e] exI [of _ assembled]) simp
qed

end
