(* ===== verification/Table_References.thy ===== *)
theory Table_References
  imports Row_Id_Checks Estimates
begin

section \<open>References between tables and rows of a target\<close>

text \<open>
  The checks \<^verbatim>\<open>partial-changes/closure/table-references.ts\<close>, \<^verbatim>\<open>dangling-row-references.ts\<close>,
  \<^verbatim>\<open>wholesale-row-references.ts\<close> and \<^verbatim>\<open>unchanged-referrers-of-lost-ids.ts\<close>, with \<^verbatim>\<open>table-schemas.ts\<close>,
  \<^verbatim>\<open>row-reference.ts\<close>, \<^verbatim>\<open>unresolved-references.ts\<close>, \<^verbatim>\<open>lost-id-referrers.ts\<close> and
  \<^verbatim>\<open>share/foreign-key-references.ts\<close>.

  Parameters: the schema stores of the toolkit, of which the code reads the kind of a node, its foreign key, its
  properties and its items, with what the toolkit finds in them; and the queries of the snapshot reader. The stores and
  the reads are cached by the code under all that they depend on in one closure, so the caches are not in the model.
\<close>

subsection \<open>Stores of schemas\<close>

datatype schema_store =
    StringStore "string option"
  | ObjectStore "(string \<times> schema_store) list"
  | ArrayStore schema_store
  | OtherStore

record traversed_item =
  ti_isString :: bool
  ti_foreignKey :: "string option"
  ti_jsonPath :: string
  ti_schemaPath :: string

record schema_reading =
  sx_store :: "json \<Rightarrow> schema_store outcome"
  sx_referencedTables :: "schema_store \<Rightarrow> string list"
  sx_items :: "schema_store \<Rightarrow> traversed_item list"

record foreign_key_leaf =
  fl_jsonPath :: string
  fl_pointer :: json_pointer

definition referenced_tables_of :: "schema_reading \<Rightarrow> table_version \<Rightarrow> string list outcome" where
  "referenced_tables_of sx version =
     try_bind (sx_store sx (tv_schema version)) (\<lambda>store. Inr (sx_referencedTables sx store))"

definition foreign_key_leaves_of :: "schema_reading \<Rightarrow> table_version \<Rightarrow> string \<Rightarrow> foreign_key_leaf list outcome" where
  "foreign_key_leaves_of sx version tableId =
     try_bind (sx_store sx (tv_schema version)) (\<lambda>store.
       map_try (\<lambda>item. try_bind (data_pointer_of_schema_path (ti_schemaPath item)) (\<lambda>p.
           Inr \<lparr>fl_jsonPath = ti_jsonPath item, fl_pointer = p\<rparr>))
         (filter (\<lambda>item. ti_isString item \<and> ti_foreignKey item = Some tableId) (sx_items sx store)))"

subsection \<open>References in the data of a row\<close>

record foreign_key_reference =
  fk_tableId :: string
  fk_rowId :: string
  fk_legacyPath :: string

definition legacy_path :: "string list \<Rightarrow> string" where
  "legacy_path segments = (if 0 < length segments then ''/'' @ js_join ''/'' segments else ''/'')"

definition string_references :: "string option \<Rightarrow> json \<Rightarrow> string list \<Rightarrow> foreign_key_reference list" where
  "string_references foreignKey v segments =
     (case (foreignKey, v) of
        (Some tableId, JStr rowId) \<Rightarrow>
          if tableId = [] then []
          else [\<lparr>fk_tableId = tableId, fk_rowId = rowId, fk_legacyPath = legacy_path segments\<rparr>]
      | _ \<Rightarrow> [])"

lemma enumerate_mem: "(i, x) \<in> set (enumerate n xs) \<Longrightarrow> x \<in> set xs"
  by (auto simp: in_set_enumerate_eq)

function read_value_references :: "schema_store \<Rightarrow> json \<Rightarrow> string list \<Rightarrow> foreign_key_reference list" where
  "read_value_references schema v segments =
     (case schema of
        StringStore foreignKey \<Rightarrow> string_references foreignKey v segments
      | ObjectStore properties \<Rightarrow>
          concat (map (\<lambda>(key, childValue). case map_of properties key of
              None \<Rightarrow> []
            | Some childSchema \<Rightarrow> read_value_references childSchema childValue (segments @ [key])) (entries_of v))
      | ArrayStore itemSchema \<Rightarrow>
          concat (map (\<lambda>(index, item). read_value_references itemSchema item (segments @ [decimal index]))
            (enumerate 0 (case v of JArr items \<Rightarrow> items | _ \<Rightarrow> [])))
      | OtherStore \<Rightarrow> [])"
  by pat_completeness auto
termination
  by (relation "measure (\<lambda>(_, v, _). size v)")
    (auto dest!: enumerate_mem dest: size_entries_of size_json_item split: json.splits)

declare read_value_references.simps [simp del]

definition foreign_key_references :: "schema_store \<Rightarrow> json \<Rightarrow> foreign_key_reference list" where
  "foreign_key_references schema v = read_value_references schema v []"

subsection \<open>Queries of the snapshot reader\<close>

record first_referrer =
  ff_referencedId :: string
  ff_rowId :: string

record referrer_query =
  qr_jsonPath :: string
  qr_rowIds :: "string list"
  qr_exceptRows :: "string list"

record unresolved_reference_query =
  qu_jsonPath :: string
  qu_exceptRows :: "string list"
  qu_referencedTableVersionId :: string
  qu_changedRowIds :: "string list"

record reference_reader =
  db_existingRowIds :: "string \<Rightarrow> string list \<Rightarrow> string list outcome"
  db_firstReferrers :: "string \<Rightarrow> referrer_query \<Rightarrow> first_referrer list outcome"
  db_unresolvedReferences :: "string \<Rightarrow> unresolved_reference_query \<Rightarrow> first_referrer list outcome"

definition unresolved_from ::
  "reference_reader \<Rightarrow> target_table \<Rightarrow> string \<Rightarrow> target_table \<Rightarrow> first_referrer list outcome" where
  "unresolved_from db referrer jsonPath referenced =
     db_unresolvedReferences db (tv_versionId (tt_version referrer))
       \<lparr>qu_jsonPath = jsonPath, qu_exceptRows = tt_loadedIdentities referrer,
        qu_referencedTableVersionId = tv_versionId (tt_version referenced), qu_changedRowIds = touched_ids referenced\<rparr>"

definition referrers_of ::
  "reference_reader \<Rightarrow> target_table \<Rightarrow> string \<Rightarrow> target_table \<Rightarrow> (string, string) jmap outcome" where
  "referrers_of db referrer jsonPath losing =
     try_bind (db_firstReferrers db (tv_versionId (tt_version referrer))
         \<lparr>qr_jsonPath = jsonPath, qr_rowIds = losable_ids losing, qr_exceptRows = tt_loadedIdentities referrer\<rparr>) (\<lambda>found.
       Inr (jmap_of (map (\<lambda>f. (ff_referencedId f, ff_rowId f)) found)))"

subsection \<open>References between tables\<close>

definition broken_reference :: "check_context \<Rightarrow> target_table \<Rightarrow> string \<Rightarrow> string \<Rightarrow> string" where
  "broken_reference context referrer tableId whichWhenMissing =
     (let reference = ''the schema of '' @ tt_tableId referrer @ '' references the table '' @ tableId
      in if table_named (cx_tables context) tableId \<noteq> None
         then reference @ '', which is another table in the '' @ sd_target (cx_names context)
         else reference @ '', '' @ whichWhenMissing)"

definition unapplied_structure_meant_by :: "check_context \<Rightarrow> target_table \<Rightarrow> string \<Rightarrow> string option" where
  "unapplied_structure_meant_by context referrer tableId =
     (case Option.bind (table_meant_by (cx_tables context) referrer tableId) (structure_key_of context) of
        None \<Rightarrow> None
      | Some key \<Rightarrow> if is_applied (cx_choice context) key then None else Some key)"

definition table_reason :: "required_reason_code \<Rightarrow> string \<Rightarrow> string \<Rightarrow> reason" where
  "table_reason code tableId because =
     \<lparr>re_code = code, re_tableId = tableId, re_rowId = None, re_path = None, re_because = because\<rparr>"

definition restore_table_reference :: "check_context \<Rightarrow> target_table \<Rightarrow> string \<Rightarrow> finding" where
  "restore_table_reference context referrer tableId =
     (let structure = structure_key_of context (tt_pair referrer);
          target = sd_target (cx_names context);
          unrestored =
            (case unapplied_structure_meant_by context referrer tableId of
               Some provider \<Rightarrow> Requires provider (table_reason ReferencedTableMissing (tt_tableId referrer)
                 (broken_reference context referrer tableId (''which exists only in '' @ sd_other (cx_names context))))
             | None \<Rightarrow>
                 (case refusal_of_reference (cx_tables context) referrer tableId of
                    Some refusal \<Rightarrow> refused_by refusal
                  | None \<Rightarrow> Blocks (dangling_in_source
                      (broken_reference context referrer tableId (''which the '' @ target @ '' does not contain''))
                      \<lparr>ts_tableId = tt_tableId referrer, ts_rowId = None, ts_path = None\<rparr> structure)))
      in case structure of
           None \<Rightarrow> unrestored
         | Some key \<Rightarrow>
             if is_applied (cx_choice context) key then unrestored
             else Requires key (table_reason ReferrerStillReferences (tt_tableId referrer)
               (broken_reference context referrer tableId (''which the '' @ target @ '' no longer contains''))))"

definition table_references :: "schema_reading \<Rightarrow> check_context \<Rightarrow> finding list outcome" where
  "table_references sx context =
     try_bind (map_try (\<lambda>referrer. try_bind (referenced_tables_of sx (tt_version referrer)) (\<lambda>tableIds.
         Inr (map (restore_table_reference context referrer)
           (filter (\<lambda>tableId. referenced_by (cx_tables context) referrer tableId = None) tableIds))))
         (ta_all (cx_tables context))) (\<lambda>found. Inr (concat found))"

subsection \<open>References to rows\<close>

record referring_site =
  rs_tableId :: string
  rs_rowId :: string
  rs_path :: "string option"

record row_reference =
  rf_site :: referring_site
  rf_referenced :: target_table
  rf_referencedId :: string

definition reference_reason :: "'x row_reference_scheme \<Rightarrow> required_reason_code \<Rightarrow> string \<Rightarrow> reason" where
  "reference_reason ref code which =
     (let s = rf_site ref
      in \<lparr>re_code = code, re_tableId = rs_tableId s, re_rowId = Some (rs_rowId s), re_path = rs_path s,
          re_because = rs_tableId s @ ''/'' @ rs_rowId s @ (case rs_path s of None \<Rightarrow> [] | Some p \<Rightarrow> p) @ '' references '' @
            tt_tableId (rf_referenced ref) @ ''/'' @ rf_referencedId ref @ '', '' @ which\<rparr>)"

definition referenced_row_finding :: "'x row_reference_scheme \<Rightarrow> side_names \<Rightarrow> string option \<Rightarrow> finding" where
  "referenced_row_finding ref names culprit =
     (case provider_of (rf_referenced ref) (rf_referencedId ref) of
        Some provider \<Rightarrow>
          Requires provider (reference_reason ref ReferencedRowMissing (''which exists only in '' @ sd_other names))
      | None \<Rightarrow>
          (case tt_refusal (rf_referenced ref) of
             Some refusal \<Rightarrow> refused_by refusal
           | None \<Rightarrow>
               Blocks (dangling_in_source
                 (re_because (reference_reason ref ReferencedRowMissing (''which the '' @ sd_target names @ '' does not contain'')))
                 \<lparr>ts_tableId = rs_tableId (rf_site ref), ts_rowId = Some (rs_rowId (rf_site ref)), ts_path = rs_path (rf_site ref)\<rparr>
                 culprit)))"

subsection \<open>References of held rows\<close>

record held_reference = row_reference +
  he_referrer :: target_table
  he_held :: held_row
  he_pointer :: json_pointer

record covering =
  cv_unitKey :: string
  cv_leaf :: json_pointer

definition held_reference_of ::
  "check_context \<Rightarrow> target_table \<Rightarrow> held_row \<Rightarrow> foreign_key_reference \<Rightarrow> held_reference list outcome" where
  "held_reference_of context referrer held fk =
     (case referenced_by (cx_tables context) referrer (fk_tableId fk) of
        None \<Rightarrow> Inr []
      | Some referenced \<Rightarrow> try_bind (parse_pointer (fk_legacyPath fk)) (\<lambda>p.
          Inr [\<lparr>rf_site = \<lparr>rs_tableId = tt_tableId referrer, rs_rowId = hl_id held, rs_path = Some (pointer_string p)\<rparr>,
                rf_referenced = referenced, rf_referencedId = fk_rowId fk, he_referrer = referrer, he_held = held,
                he_pointer = p\<rparr>]))"

definition references_from :: "schema_reading \<Rightarrow> check_context \<Rightarrow> target_table \<Rightarrow> held_reference list outcome" where
  "references_from sx context referrer =
     (if length (tt_heldRows referrer) = 0 then Inr []
      else try_bind (sx_store sx (tv_schema (tt_version referrer))) (\<lambda>schema.
        try_bind (map_try (\<lambda>held. try_bind
            (map_try (held_reference_of context referrer held) (foreign_key_references schema (hl_data held)))
            (\<lambda>refs. Inr (concat refs))) (tt_heldRows referrer)) (\<lambda>refs. Inr (concat refs))))"

text \<open>The ids to look up, by the table that should hold them, in the order they are first met.\<close>

definition untouched_ids :: "held_reference list \<Rightarrow> (target_table, string list) jmap" where
  "untouched_ids refs =
     fold (\<lambda>ref m. if touches (rf_referenced ref) (rf_referencedId ref) then m
         else AList.update (rf_referenced ref)
           (uniq ((case map_of m (rf_referenced ref) of None \<Rightarrow> [] | Some ids \<Rightarrow> ids) @ [rf_referencedId ref])) m) refs []"

definition existing_untouched_ids ::
  "reference_reader \<Rightarrow> held_reference list \<Rightarrow> (target_table, string list) jmap outcome" where
  "existing_untouched_ids db refs =
     map_try (\<lambda>(t, rowIds). try_bind (db_existingRowIds db (tv_versionId (tt_version t)) rowIds) (\<lambda>ids. Inr (t, ids)))
       (untouched_ids refs)"

definition missing_among :: "reference_reader \<Rightarrow> held_reference list \<Rightarrow> held_reference list outcome" where
  "missing_among db refs =
     (let unresolved = filter (\<lambda>ref. \<not> holds (rf_referenced ref) (rf_referencedId ref)) refs
      in try_bind (existing_untouched_ids db unresolved) (\<lambda>existing.
           Inr (filter (\<lambda>ref. case map_of existing (rf_referenced ref) of
               None \<Rightarrow> True | Some ids \<Rightarrow> rf_referencedId ref \<notin> set ids) unresolved)))"

fun covering_leaf :: "(string \<times> string) list \<Rightarrow> json_pointer \<Rightarrow> covering option outcome" where
  "covering_leaf [] path = Inr None"
| "covering_leaf ((p, owner) # rest) path =
     try_bind (parse_pointer p) (\<lambda>leaf.
       if is_at_or_above leaf path then Inr (Some \<lparr>cv_unitKey = owner, cv_leaf = leaf\<rparr>) else covering_leaf rest path)"

definition covering_of :: "catalogue_row \<Rightarrow> json_pointer \<Rightarrow> covering option outcome" where
  "covering_of row path =
     (case cr_existence row of
        Some key \<Rightarrow> Inr (Some \<lparr>cv_unitKey = key, cv_leaf = []\<rparr>)
      | None \<Rightarrow> covering_leaf (cr_leaves row) path)"

text \<open>\<open>every\<close> and \<open>some\<close> stop at the first element that decides them, also before one that throws.\<close>

fun every_try :: "('a \<Rightarrow> bool outcome) \<Rightarrow> 'a list \<Rightarrow> bool outcome" where
  "every_try p [] = Inr True"
| "every_try p (x # xs) = try_bind (p x) (\<lambda>b. if b then every_try p xs else Inr False)"

definition some_try :: "('a \<Rightarrow> bool outcome) \<Rightarrow> 'a list \<Rightarrow> bool outcome" where
  "some_try p xs = try_bind (every_try (\<lambda>x. try_bind (p x) (\<lambda>b. Inr (\<not> b))) xs) (\<lambda>b. Inr (\<not> b))"

definition removes_reference :: "schema_reading \<Rightarrow> check_context \<Rightarrow> covering \<Rightarrow> held_reference \<Rightarrow> bool outcome" where
  "removes_reference sx context covering ref =
     (if is_applied (cx_choice context) (cv_unitKey covering) then Inr False
      else try_bind (sx_store sx (tv_schema (tt_version (he_referrer ref)))) (\<lambda>schema.
        every_try (\<lambda>version. try_bind (some_try (\<lambda>brought.
            if fk_tableId brought \<noteq> tt_tableId (rf_referenced ref) \<or> fk_rowId brought \<noteq> rf_referencedId ref then Inr False
            else try_bind (parse_pointer (fk_legacyPath brought)) (\<lambda>p. Inr (is_at_or_above (cv_leaf covering) p)))
            (foreign_key_references schema (row_data version))) (\<lambda>still. Inr (\<not> still)))
          (versions_brought_by (he_referrer ref) (cv_unitKey covering) (hl_row (he_held ref)))))"

definition applied_unit_of :: "check_context \<Rightarrow> covering option \<Rightarrow> string option" where
  "applied_unit_of context covering =
     (case covering of
        None \<Rightarrow> None
      | Some c \<Rightarrow> if is_applied (cx_choice context) (cv_unitKey c) then Some (cv_unitKey c) else None)"

definition restore_row_reference :: "schema_reading \<Rightarrow> check_context \<Rightarrow> held_reference \<Rightarrow> finding outcome" where
  "restore_row_reference sx context ref =
     (let target = sd_target (cx_names context);
          restored = (\<lambda>covering. referenced_row_finding ref (cx_names context)
            (case applied_unit_of context covering of
               Some key \<Rightarrow> Some key
             | None \<Rightarrow> unit_losing (rf_referenced ref) (rf_referencedId ref)))
      in try_bind (covering_of (hl_row (he_held ref)) (he_pointer ref)) (\<lambda>covering.
         case unapplied_structure_holding context (he_referrer ref) (he_pointer ref) of
           Some structure \<Rightarrow> Inr (Requires structure (reference_reason ref StructureBoundData
             (''which the '' @ target @ '' does not contain; the value follows the structure of '' @
              tt_tableId (he_referrer ref))))
         | None \<Rightarrow>
             (case covering of
                None \<Rightarrow> Inr (restored covering)
              | Some c \<Rightarrow> try_bind (removes_reference sx context c ref) (\<lambda>removes.
                  Inr (if removes
                    then Requires (cv_unitKey c) (reference_reason ref ReferrerStillReferences
                      (''which the '' @ target @ '' no longer contains''))
                    else restored covering)))))"

definition dangling_row_references :: "schema_reading \<Rightarrow> reference_reader \<Rightarrow> check_context \<Rightarrow> finding list outcome" where
  "dangling_row_references sx db context =
     try_bind (map_try (references_from sx context) (ta_all (cx_tables context))) (\<lambda>refs.
     try_bind (missing_among db (concat refs)) (map_try (restore_row_reference sx context)))"

subsection \<open>Rows that a table brings as they are\<close>

record wholesale_scan =
  ws_referrer :: target_table
  ws_jsonPath :: string
  ws_referenced :: target_table

definition foreign_keys_brought_wholesale ::
  "schema_reading \<Rightarrow> target_table \<Rightarrow> string \<Rightarrow> foreign_key_leaf list outcome" where
  "foreign_keys_brought_wholesale sx referrer tableId =
     try_bind (foreign_key_leaves_of sx (tt_version referrer) tableId) (\<lambda>leaves.
       Inr (if is_brought_wholesale referrer then leaves
            else filter (\<lambda>leaf. is_changed_field referrer (fl_pointer leaf)) leaves))"

definition scans_of :: "schema_reading \<Rightarrow> check_context \<Rightarrow> target_table \<Rightarrow> string \<Rightarrow> wholesale_scan list outcome" where
  "scans_of sx context referrer tableId =
     (case referenced_by (cx_tables context) referrer tableId of
        None \<Rightarrow> Inr []
      | Some referenced \<Rightarrow> try_bind (foreign_keys_brought_wholesale sx referrer tableId) (\<lambda>leaves.
          Inr (map (\<lambda>leaf. \<lparr>ws_referrer = referrer, ws_jsonPath = fl_jsonPath leaf, ws_referenced = referenced\<rparr>) leaves)))"

definition wholesale_rows_scans :: "schema_reading \<Rightarrow> check_context \<Rightarrow> wholesale_scan list outcome" where
  "wholesale_rows_scans sx context =
     try_bind (map_try (\<lambda>referrer. try_bind (referenced_tables_of sx (tt_version referrer)) (\<lambda>tableIds.
         try_bind (map_try (scans_of sx context referrer) tableIds) (\<lambda>scans. Inr (concat scans))))
         (filter takes_other_side_structure (ta_all (cx_tables context)))) (\<lambda>scans. Inr (concat scans))"

definition bring_referenced_row :: "check_context \<Rightarrow> wholesale_scan \<Rightarrow> string \<Rightarrow> string \<Rightarrow> finding" where
  "bring_referenced_row context scan referencedId rowId =
     referenced_row_finding
       \<lparr>rf_site = \<lparr>rs_tableId = tt_tableId (ws_referrer scan), rs_rowId = rowId, rs_path = None\<rparr>,
        rf_referenced = ws_referenced scan, rf_referencedId = referencedId\<rparr>
       (cx_names context) (structure_key_of context (tt_pair (ws_referrer scan)))"

definition wholesale_row_references :: "schema_reading \<Rightarrow> reference_reader \<Rightarrow> check_context \<Rightarrow> finding list outcome" where
  "wholesale_row_references sx db context =
     try_bind (wholesale_rows_scans sx context) (\<lambda>scans.
     try_bind (map_try (\<lambda>scan. try_bind (unresolved_from db (ws_referrer scan) (ws_jsonPath scan) (ws_referenced scan)) (\<lambda>unresolved.
         Inr (map (\<lambda>f. bring_referenced_row context scan (ff_referencedId f) (ff_rowId f))
           (filter (\<lambda>f. \<not> holds (ws_referenced scan) (ff_referencedId f)) unresolved)))) scans) (\<lambda>found.
       Inr (concat found)))"

subsection \<open>Unchanged rows that refer to lost ids\<close>

record referrer_scan =
  sc_losing :: target_table
  sc_lostIds :: "string list"
  sc_referrer :: target_table
  sc_leaf :: foreign_key_leaf

definition references_losing :: "check_context \<Rightarrow> target_table \<Rightarrow> target_table \<Rightarrow> bool" where
  "references_losing context referrer losing \<longleftrightarrow>
     referenced_by (cx_tables context) referrer (tt_tableId losing) = Some losing"

definition referrer_scans :: "schema_reading \<Rightarrow> check_context \<Rightarrow> referrer_scan list outcome" where
  "referrer_scans sx context =
     (let referrers = filter (\<lambda>t. \<not> is_brought_wholesale t) (ta_all (cx_tables context))
      in try_bind (map_try (\<lambda>losing.
           let lostIds = js_sort compare_code_points (lost_ids losing)
           in if length lostIds = 0 then Inr []
              else try_bind (map_try (\<lambda>referrer.
                  try_bind (foreign_key_leaves_of sx (tt_version referrer) (tt_tableId losing)) (\<lambda>leaves.
                    Inr (map (\<lambda>leaf. \<lparr>sc_losing = losing, sc_lostIds = lostIds, sc_referrer = referrer, sc_leaf = leaf\<rparr>) leaves)))
                (filter (\<lambda>referrer. references_losing context referrer losing) referrers)) (\<lambda>scans. Inr (concat scans)))
         (ta_all (cx_tables context))) (\<lambda>scans. Inr (concat scans)))"

definition restore_lost_id :: "check_context \<Rightarrow> referrer_scan \<Rightarrow> string \<Rightarrow> string \<Rightarrow> finding" where
  "restore_lost_id context scan referencedId rowId =
     (let referrer = sc_referrer scan; losing = sc_losing scan; target = sd_target (cx_names context);
          reference = (\<lambda>path. \<lparr>rf_site = \<lparr>rs_tableId = tt_tableId referrer, rs_rowId = rowId, rs_path = path\<rparr>,
                 rf_referenced = losing, rf_referencedId = referencedId\<rparr>)
      in case unapplied_structure_holding context referrer (fl_pointer (sc_leaf scan)) of
           Some structure \<Rightarrow> Requires structure
             (reference_reason (reference (Some (pointer_string (fl_pointer (sc_leaf scan))))) StructureBoundData
               (''which the '' @ target @ '' loses; the value follows the structure of '' @ tt_tableId referrer))
         | None \<Rightarrow> requiring_or_dangling (provider_of losing referencedId)
             (reference_reason (reference None) ReferencedRowMissing (''which the '' @ target @ '' loses'')) (unit_losing losing referencedId))"

definition unchanged_referrers_of_lost_ids ::
  "schema_reading \<Rightarrow> reference_reader \<Rightarrow> check_context \<Rightarrow> finding list outcome" where
  "unchanged_referrers_of_lost_ids sx db context =
     try_bind (referrer_scans sx context) (\<lambda>scans.
     try_bind (map_try (\<lambda>scan. try_bind (referrers_of db (sc_referrer scan) (fl_jsonPath (sc_leaf scan)) (sc_losing scan)) (\<lambda>referrers.
         Inr (concat (map (\<lambda>lostId. case map_of referrers lostId of
             None \<Rightarrow> [] | Some rowId \<Rightarrow> [restore_lost_id context scan lostId rowId]) (sc_lostIds scan))))) scans) (\<lambda>found.
       Inr (concat found)))"

subsection \<open>What the reads find\<close>

lemma untouched_ids_set:
  "i \<in> set (case map_of (untouched_ids refs) t of None \<Rightarrow> [] | Some ids \<Rightarrow> ids) \<longleftrightarrow>
     (\<exists>ref \<in> set refs. rf_referenced ref = t \<and> rf_referencedId ref = i \<and> \<not> touches t i)"
proof (induction refs rule: rev_induct)
  case (snoc ref refs)
  then show ?case by (auto simp: untouched_ids_def jmap_simps split: option.splits if_splits)
qed (simp add: untouched_ids_def)

lemma map_try_keyed:
  assumes "map_try (\<lambda>(k, x). try_bind (f k x) (\<lambda>y. Inr (k, y))) m = Inr m'"
  shows "map_of m k = None \<Longrightarrow> map_of m' k = None"
    "map_of m k = Some x \<Longrightarrow> \<exists>y. f k x = Inr y \<and> map_of m' k = Some y"
  using assms by (induction m arbitrary: m') (auto split: if_splits)

text \<open>
  A row of the target: the table holds its id among the changed rows, or no change touches the id and the version of the
  table has it.
\<close>

definition target_has_row :: "(string \<Rightarrow> string set) \<Rightarrow> target_table \<Rightarrow> string \<Rightarrow> bool" where
  "target_has_row rows t i \<longleftrightarrow> holds t i \<or> (\<not> touches t i \<and> i \<in> rows (tv_versionId (tt_version t)))"

definition reads_existing_rows :: "reference_reader \<Rightarrow> (string \<Rightarrow> string set) \<Rightarrow> bool" where
  "reads_existing_rows db rows \<longleftrightarrow>
     (\<forall>versionId ids. \<exists>found. db_existingRowIds db versionId ids = Inr found \<and> set found = set ids \<inter> rows versionId)"

lemma missing_among_filter:
  assumes "reads_existing_rows db rows"
  shows "missing_among db refs = Inr (filter (\<lambda>ref. \<not> target_has_row rows (rf_referenced ref) (rf_referencedId ref)) refs)"
proof -
  let ?unresolved = "filter (\<lambda>ref. \<not> holds (rf_referenced ref) (rf_referencedId ref)) refs"
  obtain read_of where read_of: "\<forall>versionId ids. db_existingRowIds db versionId ids = Inr (read_of versionId ids) \<and>
      set (read_of versionId ids) = set ids \<inter> rows versionId"
    using assms unfolding reads_existing_rows_def by metis
  define read where "read = (\<lambda>t :: target_table. read_of (tv_versionId (tt_version t)))"
  have read: "db_existingRowIds db (tv_versionId (tt_version t)) rowIds = Inr (read t rowIds)"
    "set (read t rowIds) = set rowIds \<inter> rows (tv_versionId (tt_version t))" for t rowIds
    using read_of by (simp_all add: read_def)
  have run: "existing_untouched_ids db ?unresolved = Inr (map (\<lambda>(t, rowIds). (t, read t rowIds)) (untouched_ids ?unresolved))"
    unfolding existing_untouched_ids_def by (rule map_try_total) (auto simp: read(1))
  have found: "map_of (map (\<lambda>(t, rowIds). (t, read t rowIds)) m) t = map_option (read t) (map_of m t)" for t m
    by (induction m) auto
  have "(case map_of (map (\<lambda>(t, rowIds). (t, read t rowIds)) (untouched_ids ?unresolved)) (rf_referenced ref) of
        None \<Rightarrow> True | Some ids \<Rightarrow> rf_referencedId ref \<notin> set ids) \<longleftrightarrow>
      \<not> target_has_row rows (rf_referenced ref) (rf_referencedId ref)" if "ref \<in> set ?unresolved" for ref
    using that untouched_ids_set [of "rf_referencedId ref" ?unresolved "rf_referenced ref"] read(2)
    unfolding found target_has_row_def by (cases "map_of (untouched_ids ?unresolved) (rf_referenced ref)") auto
  then show ?thesis
    unfolding missing_among_def Let_def run by (auto simp: target_has_row_def intro!: filter_cong)
qed

lemma referenced_row_mem:
  assumes "map_try (references_from sx context) (ta_all (cx_tables context)) = Inr refs"
    "t \<in> set (ta_all (cx_tables context))" "held \<in> set (tt_heldRows t)" "sx_store sx (tv_schema (tt_version t)) = Inr schema"
    "fk \<in> set (foreign_key_references schema (hl_data held))" "referenced_by (cx_tables context) t (fk_tableId fk) = Some referenced"
  shows "\<exists>ref \<in> set (concat refs). rf_referenced ref = referenced \<and> rf_referencedId ref = fk_rowId fk"
proof -
  obtain found where found: "found \<in> set refs" "references_from sx context t = Inr found"
    using list_all2_first [OF assms(1) [unfolded map_try_Inr_iff] assms(2)] by blast
  obtain perRow where rows: "map_try (\<lambda>held. try_bind (map_try (held_reference_of context t held) (foreign_key_references schema (hl_data held)))
      (\<lambda>refs. Inr (concat refs))) (tt_heldRows t) = Inr perRow" "found = concat perRow"
    using found(2) assms(3,4) by (auto simp: references_from_def split: if_splits)
  obtain one where one: "one \<in> set perRow" "try_bind (map_try (held_reference_of context t held) (foreign_key_references schema (hl_data held)))
      (\<lambda>refs. Inr (concat refs)) = Inr one"
    using list_all2_first [OF rows(1) [unfolded map_try_Inr_iff] assms(3)] by blast
  then obtain each where each: "map_try (held_reference_of context t held) (foreign_key_references schema (hl_data held)) = Inr each"
    "one = concat each" by auto
  obtain ref where "ref \<in> set each" "held_reference_of context t held fk = Inr ref"
    using list_all2_first [OF each(1) [unfolded map_try_Inr_iff] assms(5)] by blast
  moreover from this(2) assms(6) obtain p where "parse_pointer (fk_legacyPath fk) = Inr p"
    by (auto simp: held_reference_of_def)
  ultimately have "\<exists>r \<in> set ref. rf_referenced r = referenced \<and> rf_referencedId r = fk_rowId fk"
    using assms(6) by (auto simp: held_reference_of_def)
  moreover have "set ref \<subseteq> set one" using each(2) \<open>ref \<in> set each\<close> by auto
  moreover have "set one \<subseteq> set found" using rows(2) one(1) by auto
  moreover have "set found \<subseteq> set (concat refs)" using found(1) by auto
  ultimately show ?thesis by blast
qed

lemma reference_comes_from_held:
  assumes "map_try (references_from sx context) (ta_all (cx_tables context)) = Inr refs" "ref \<in> set (concat refs)"
  shows "\<exists>t \<in> set (ta_all (cx_tables context)). \<exists>held \<in> set (tt_heldRows t). \<exists>schema.
    sx_store sx (tv_schema (tt_version t)) = Inr schema \<and> (\<exists>fk \<in> set (foreign_key_references schema (hl_data held)).
      referenced_by (cx_tables context) t (fk_tableId fk) = Some (rf_referenced ref) \<and> rf_referencedId ref = fk_rowId fk)"
proof -
  obtain found where "found \<in> set refs" "ref \<in> set found" using assms(2) by auto
  then obtain t where t: "t \<in> set (ta_all (cx_tables context))" "references_from sx context t = Inr found"
    using list_all2_second [OF assms(1) [unfolded map_try_Inr_iff]] by blast
  obtain schema perRow where rows: "sx_store sx (tv_schema (tt_version t)) = Inr schema"
    "map_try (\<lambda>held. try_bind (map_try (held_reference_of context t held) (foreign_key_references schema (hl_data held)))
      (\<lambda>refs. Inr (concat refs))) (tt_heldRows t) = Inr perRow" "found = concat perRow"
    using t(2) \<open>ref \<in> set found\<close> by (auto simp: references_from_def split: if_splits)
  then obtain one where "one \<in> set perRow" "ref \<in> set one" using \<open>ref \<in> set found\<close> by auto
  then obtain held where held: "held \<in> set (tt_heldRows t)" "try_bind (map_try (held_reference_of context t held)
      (foreign_key_references schema (hl_data held))) (\<lambda>refs. Inr (concat refs)) = Inr one"
    using list_all2_second [OF rows(2) [unfolded map_try_Inr_iff]] by blast
  then obtain each where each: "map_try (held_reference_of context t held) (foreign_key_references schema (hl_data held)) = Inr each"
    "one = concat each" by auto
  then obtain some where some: "some \<in> set each" "ref \<in> set some" using \<open>ref \<in> set one\<close> by auto
  then obtain fk where "fk \<in> set (foreign_key_references schema (hl_data held))" "held_reference_of context t held fk = Inr some"
    using list_all2_second [OF each(1) [unfolded map_try_Inr_iff]] by blast
  moreover from this(2) some(2) have "referenced_by (cx_tables context) t (fk_tableId fk) = Some (rf_referenced ref)"
    "rf_referencedId ref = fk_rowId fk"
    by (auto simp: held_reference_of_def split: option.splits)
  ultimately show ?thesis using t(1) rows(1) held(1) by blast
qed

subsection \<open>Properties\<close>

text \<open>
  Claim C12: the check of row references, when it returns and the lookup of existing rows answers what the tables hold, finds
  nothing exactly when every reference in the data of a changed row of the
  target, to a table that the target has under the name the row means, leads to a row that the target has: the
  lookups grouped by table ask for all the rows that no change touches, and no answer is taken for another table. It
  says nothing of references to a table that the target does not have, or has for another one; those
  are left to the check of references between tables.
\<close>

theorem row_references_checked:
  assumes "reads_existing_rows db rows" "dangling_row_references sx db context = Inr findings"
  shows "findings = [] \<longleftrightarrow>
    (\<forall>t \<in> set (ta_all (cx_tables context)). \<forall>held \<in> set (tt_heldRows t). \<forall>schema.
      sx_store sx (tv_schema (tt_version t)) = Inr schema \<longrightarrow> (\<forall>fk \<in> set (foreign_key_references schema (hl_data held)).
        \<forall>referenced. referenced_by (cx_tables context) t (fk_tableId fk) = Some referenced \<longrightarrow>
          target_has_row rows referenced (fk_rowId fk)))"
proof -
  obtain refs where refs: "map_try (references_from sx context) (ta_all (cx_tables context)) = Inr refs"
    "map_try (restore_row_reference sx context)
       (filter (\<lambda>ref. \<not> target_has_row rows (rf_referenced ref) (rf_referencedId ref)) (concat refs)) = Inr findings"
    using assms(2) unfolding dangling_row_references_def by (auto simp: missing_among_filter [OF assms(1)])
  have "findings = [] \<longleftrightarrow> (\<forall>ref \<in> set (concat refs). target_has_row rows (rf_referenced ref) (rf_referencedId ref))"
    using map_try_Inr_length [OF refs(2)] by (metis (no_types, lifting) filter_empty_conv length_0_conv)
  also have "\<dots> \<longleftrightarrow> (\<forall>t \<in> set (ta_all (cx_tables context)). \<forall>held \<in> set (tt_heldRows t). \<forall>schema.
      sx_store sx (tv_schema (tt_version t)) = Inr schema \<longrightarrow> (\<forall>fk \<in> set (foreign_key_references schema (hl_data held)).
        \<forall>referenced. referenced_by (cx_tables context) t (fk_tableId fk) = Some referenced \<longrightarrow>
          target_has_row rows referenced (fk_rowId fk)))"
    (is "?all \<longleftrightarrow> ?each")
  proof
    assume all: ?all
    show ?each
    proof (intro ballI allI impI)
      fix t held schema fk referenced
      assume "t \<in> set (ta_all (cx_tables context))" "held \<in> set (tt_heldRows t)" "sx_store sx (tv_schema (tt_version t)) = Inr schema"
        "fk \<in> set (foreign_key_references schema (hl_data held))" "referenced_by (cx_tables context) t (fk_tableId fk) = Some referenced"
      from referenced_row_mem [OF refs(1) this] all show "target_has_row rows referenced (fk_rowId fk)" by force
    qed
  next
    assume each: ?each
    show ?all
    proof
      fix ref assume "ref \<in> set (concat refs)"
      from reference_comes_from_held [OF refs(1) this] each
      show "target_has_row rows (rf_referenced ref) (rf_referencedId ref)" by (elim bexE exE conjE) simp
    qed
  qed
  finally show ?thesis .
qed

text \<open>A post whose new title is the id of a post that does not exist.\<close>

definition example_title_source :: check_source where
  "example_title_source = assembly_source.extend example_posts_source
     (check_source.fields \<lparr>hs_refusedTables = [], hs_refusedTablesByIdentity = [], hs_replayedHeadSchemas = []\<rparr>)"

definition example_title_target :: assembled_target where
  "example_title_target =
     (case assemble_target example_tools root_toolkit example_ids (=) (\<lambda>_. '''') (=) (\<lambda>_ _. Inr [])
        example_posts_source example_title_commit of Inr target \<Rightarrow> target | Inl _ \<Rightarrow> example_no_target)"

definition example_title_context :: check_context where
  "example_title_context =
     (case check_context example_title_source example_title_target example_title_commit of
        Inr context \<Rightarrow> context | Inl _ \<Rightarrow> example_context)"

definition example_schema_reading :: schema_reading where
  "example_schema_reading =
     \<lparr>sx_store = \<lambda>_. Inr (ObjectStore [(''title'', StringStore (Some ''posts''))]), sx_referencedTables = \<lambda>_. [''posts''],
      sx_items = \<lambda>_. [\<lparr>ti_isString = True, ti_foreignKey = Some ''posts'', ti_jsonPath = ''$.title'',
        ti_schemaPath = ''/properties/title''\<rparr>]\<rparr>"

definition example_reference_reader :: reference_reader where
  "example_reference_reader =
     \<lparr>db_existingRowIds = \<lambda>_ ids. Inr (filter (\<lambda>i. i = ''Old'') ids), db_firstReferrers = \<lambda>_ _. Inr [],
      db_unresolvedReferences = \<lambda>_ _. Inr []\<rparr>"

lemma example_title_checked:
  "map_sum id length (dangling_row_references example_schema_reading example_reference_reader example_title_context) = Inr 1"
  by code_simp

theorem row_references_checked_witness:
  "\<exists>t \<in> set (ta_all (cx_tables example_title_context)). \<exists>held \<in> set (tt_heldRows t). \<exists>referenced i.
     \<not> target_has_row (\<lambda>_. {''Old''}) referenced i"
proof -
  have "\<exists>found. db_existingRowIds example_reference_reader versionId ids = Inr found \<and> set found = set ids \<inter> {''Old''}"
    for versionId ids
    by (rule exI [of _ "filter (\<lambda>i. i = ''Old'') ids"]) (auto simp: example_reference_reader_def)
  then have reader: "reads_existing_rows example_reference_reader (\<lambda>_. {''Old''})" by (simp add: reads_existing_rows_def)
  obtain findings where run: "dangling_row_references example_schema_reading example_reference_reader example_title_context = Inr findings"
    "length findings = 1"
    using example_title_checked
    by (cases "dangling_row_references example_schema_reading example_reference_reader example_title_context") auto
  from row_references_checked [OF reader run(1)] run(2) show ?thesis by fastforce
qed

end
