(* ===== verification/Ledger_Consistency.thy ===== *)
theory Ledger_Consistency
  imports Table_Timeline Table_References
begin

section \<open>Ledgers of an operation\<close>

text \<open>
  \<^verbatim>\<open>partial-changes/validation/ledger-roles.ts\<close> and \<^verbatim>\<open>ledger-consistency.ts\<close>: the ledgers an operation
  results in, replayed and compared with what their tables hold. The replays of the source are those its check of the
  Head schema made: of the ledgers of the compared snapshot. A slot of a replay is known by its position, where the code
  compares objects; an inconsistency is its own key, where the code takes its JSON text. \<open>equal\<close> is the toolkit's
  \<open>deepEqual\<close>.
\<close>

subsection \<open>Roles\<close>

record ledger_role =
  lr_ledger :: "migration list"
  lr_schemaRows :: "json row list"

record resulting_role = ledger_role +
  lr_name :: string
  lr_keepsInconsistenciesOf :: "revision_side list"

definition source_role_of :: "changes_snapshot \<Rightarrow> revision_side \<Rightarrow> ledger_role" where
  "source_role_of snapshot side =
     \<lparr>lr_ledger = source_ledger_of snapshot side, lr_schemaRows = rows_on side (sy_schemas (sn_systemRows snapshot))\<rparr>"

record target_system_rows =
  ty_schemas :: "json row list"
  ty_migrations :: "migration row list"

text \<open>A system table that neither side stores is no target, and its rows are not read.\<close>

definition versions_of_target :: "'d system_table_target \<Rightarrow> 'd row list" where
  "versions_of_target target = (if exists_on_either_side (yt_stored target) then yt_versions target else [])"

definition target_system_rows_of :: "assembly_source \<Rightarrow> applied_units \<Rightarrow> target_system_rows" where
  "target_system_rows_of source choice =
     \<lparr>ty_schemas = versions_of_target (rows_following_owners source choice SchemaTable
        (sy_schemas (sn_systemRows (as_snapshot source))) (sm_schemas (as_systemVersions source)) StructureUnit),
      ty_migrations = versions_of_target (ledger_target source choice)\<rparr>"

definition remaining_draft_ledger_of :: "migration row list \<Rightarrow> ledger_plan \<Rightarrow> migration list" where
  "remaining_draft_ledger_of draftRows plan =
     (let storedIds = jmap_of (map (\<lambda>r. (mig_id (le_migration (rm_source r)), nr_id (rm_row r))) plan);
          storedIdOf = (\<lambda>m. case map_of storedIds (mig_id m) of None \<Rightarrow> mig_id m | Some i \<Rightarrow> i)
      in js_sort (\<lambda>left right. compare_code_points (storedIdOf left) (storedIdOf right))
           (migrations_of (ledger_of draftRows)))"

definition resulting_roles_of :: "assembly_source \<Rightarrow> applied_units \<Rightarrow> ledger_plan \<Rightarrow> resulting_role list" where
  "resulting_roles_of source choice plan =
     (let target = target_system_rows_of source choice; rows = sn_systemRows (as_snapshot source)
      in case ap_operation choice of
           RevertOp \<Rightarrow>
             [\<lparr>lr_ledger = migrations_of (ledger_of (ty_migrations target)), lr_schemaRows = ty_schemas target,
               lr_name = ''reverted Draft'', lr_keepsInconsistenciesOf = [DraftSide, HeadSide]\<rparr>]
         | CommitOp \<Rightarrow>
             [\<lparr>lr_ledger = migrations_of (ledger_of (ty_migrations target)), lr_schemaRows = ty_schemas target,
               lr_name = ''new Head'', lr_keepsInconsistenciesOf = [HeadSide]\<rparr>,
              \<lparr>lr_ledger = remaining_draft_ledger_of (rr_draft (sy_migrations rows)) plan,
               lr_schemaRows = rr_draft (sy_schemas rows), lr_name = ''remaining Draft'',
               lr_keepsInconsistenciesOf = [DraftSide]\<rparr>])"

subsection \<open>Inconsistencies of a slot\<close>

datatype inconsistency = UnreplayableStep string string | SchemaMismatch | MissingTable

record slot_inconsistency =
  ci_lineage :: string
  ci_tableId :: string
  ci_inconsistency :: inconsistency

type_synonym inconsistency_key = "string \<times> inconsistency"

definition inconsistency_key_of :: "slot_inconsistency \<Rightarrow> inconsistency_key" where
  "inconsistency_key_of found = (ci_lineage found, ci_inconsistency found)"

definition schemas_by_table_id :: "json row list \<Rightarrow> (string, json) jmap" where
  "schemas_by_table_id schemaRows = jmap_of (map (\<lambda>row. (row_id row, row_data row)) schemaRows)"

definition last_table_id_of :: "slot \<Rightarrow> string outcome" where
  "last_table_id_of s =
     (if slot_tableIds s = [] then Inl ''A replayed ledger slot holds no table id'' else Inr (last (slot_tableIds s)))"

definition inconsistency_of ::
  "(json \<Rightarrow> json \<Rightarrow> bool) \<Rightarrow> (string, json) jmap \<Rightarrow> replayed_slot \<Rightarrow> inconsistency option" where
  "inconsistency_of equal schemas s =
     (case rsl_failure s of
        Some failure \<Rightarrow> Some (UnreplayableStep (rf_migrationId failure) (rf_error failure))
      | None \<Rightarrow>
          (case ledgered_table_id_of (rsl_slot s) of
             None \<Rightarrow> None
           | Some tableId \<Rightarrow>
               (case map_of schemas tableId of
                  None \<Rightarrow> Some MissingTable
                | Some schema \<Rightarrow>
                    (case check_slot equal (Some s) (Some schema) of Mismatch _ \<Rightarrow> Some SchemaMismatch | _ \<Rightarrow> None))))"

definition slot_inconsistencies_of ::
  "(json \<Rightarrow> json \<Rightarrow> bool) \<Rightarrow> (string, json) jmap \<Rightarrow> replayed_slot \<Rightarrow> slot_inconsistency list outcome" where
  "slot_inconsistencies_of equal schemas s =
     (case inconsistency_of equal schemas s of
        None \<Rightarrow> Inr []
      | Some found \<Rightarrow>
          try_bind (lineage_id_of (rsl_slot s)) (\<lambda>lineage. try_bind (last_table_id_of (rsl_slot s)) (\<lambda>tableId.
            Inr [\<lparr>ci_lineage = lineage, ci_tableId = tableId, ci_inconsistency = found\<rparr>])))"

subsection \<open>Slots left out\<close>

record unledgered_lineages =
  ul_tableIds :: "string list"
  ul_steps :: "string list"

record left_out_slots =
  lo_slots :: "nat list"
  lo_tableIds :: "string list"

definition follows_any_step :: "replayed_slot \<Rightarrow> string list \<Rightarrow> bool" where
  "follows_any_step s steps \<longleftrightarrow>
     list_ex (\<lambda>m. mig_id m \<in> set steps) (slot_migrations (rsl_slot s)) \<or>
     (case rsl_failure s of None \<Rightarrow> False | Some failure \<Rightarrow> rf_migrationId failure \<in> set steps)"

definition slot_table_ids :: "replayed_slot list \<Rightarrow> string list" where
  "slot_table_ids slots = uniq (concat (map (\<lambda>s. slot_tableIds (rsl_slot s)) slots))"

definition read_table_ids_by_step :: "replayed_ledger \<Rightarrow> (string, string list) jmap" where
  "read_table_ids_by_step replayed =
     fold (\<lambda>read byStep. AList.update (rd_migrationId read)
         ((case map_of byStep (rd_migrationId read) of None \<Rightarrow> [] | Some tableIds \<Rightarrow> tableIds) @ [rd_readTableId read]) byStep)
       (rl_reads replayed) []"

definition add_left_out :: "nat \<times> replayed_slot \<Rightarrow> left_out_slots \<Rightarrow> left_out_slots" where
  "add_left_out = (\<lambda>(i, s) lo.
     lo\<lparr>lo_slots := lo_slots lo @ [i], lo_tableIds := lo_tableIds lo @ slot_tableIds (rsl_slot s)\<rparr>)"

definition failing_step_of :: "replayed_slot \<Rightarrow> string" where
  "failing_step_of s = (case rsl_failure s of None \<Rightarrow> [] | Some failure \<Rightarrow> rf_migrationId failure)"

text \<open>Only slots with a failure are asked for their failing step.\<close>

definition failed_slots_in_ledger_order :: "migration list \<Rightarrow> replayed_ledger \<Rightarrow> (nat \<times> replayed_slot) list" where
  "failed_slots_in_ledger_order ledger replayed =
     (let positions = jmap_of (map (\<lambda>(position, m). (mig_id m, position)) (enumerate 0 ledger));
          positionOf = (\<lambda>(i, s). case map_of positions (failing_step_of s) of None \<Rightarrow> 0 | Some position \<Rightarrow> position)
      in js_sort (\<lambda>left right. int (positionOf left) - int (positionOf right))
           (filter (\<lambda>(i, s). rsl_failure s \<noteq> None) (enumerate 0 (rl_slots replayed))))"

definition leave_out_failure :: "replayed_ledger \<Rightarrow> string list \<Rightarrow> nat \<times> replayed_slot \<Rightarrow> left_out_slots \<Rightarrow> left_out_slots" where
  "leave_out_failure replayed failedTableIds = (\<lambda>(i, s) lo.
     let unreplayableReads = filter (\<lambda>tableId. tableId \<in> set failedTableIds \<or> tableId \<notin> set (slot_table_ids (rl_slots replayed)))
           (case map_of (read_table_ids_by_step replayed) (failing_step_of s) of None \<Rightarrow> [] | Some tableIds \<Rightarrow> tableIds)
     in if 0 < length unreplayableReads \<and> list_all (\<lambda>tableId. tableId \<in> set (lo_tableIds lo)) unreplayableReads
        then add_left_out (i, s) lo else lo)"

definition left_out_slots :: "migration list \<Rightarrow> replayed_ledger \<Rightarrow> unledgered_lineages \<Rightarrow> left_out_slots" where
  "left_out_slots ledger replayed unledgered =
     (let following = fold (\<lambda>(i, s) lo. if follows_any_step s (ul_steps unledgered) then add_left_out (i, s) lo else lo)
            (enumerate 0 (rl_slots replayed)) \<lparr>lo_slots = [], lo_tableIds = ul_tableIds unledgered\<rparr>;
          failed = failed_slots_in_ledger_order ledger replayed
      in fold (leave_out_failure replayed (slot_table_ids (map snd failed))) failed following)"

subsection \<open>Inconsistencies of a role\<close>

definition inconsistencies_of ::
  "(json \<Rightarrow> json \<Rightarrow> bool) \<Rightarrow> 'x ledger_role_scheme \<Rightarrow> replayed_ledger \<Rightarrow> unledgered_lineages \<Rightarrow>
   slot_inconsistency list outcome" where
  "inconsistencies_of equal role replayed unledgered =
     (let schemas = schemas_by_table_id (lr_schemaRows role);
          leftOut = left_out_slots (lr_ledger role) replayed unledgered
      in try_bind (map_try (\<lambda>(i, s). slot_inconsistencies_of equal schemas s)
           (filter (\<lambda>(i, s). i \<notin> set (lo_slots leftOut)) (enumerate 0 (rl_slots replayed)))) (\<lambda>found. Inr (concat found)))"

definition unledgered_lineages_of ::
  "(json \<Rightarrow> json \<Rightarrow> bool) \<Rightarrow> changes_snapshot \<Rightarrow> source_replays \<Rightarrow> unledgered_lineages outcome" where
  "unledgered_lineages_of equal snapshot replays =
     try_bind (map_try (\<lambda>pair. try_bind (is_unledgered equal pair replays) (\<lambda>unledgered.
         Inr (if unledgered then public_ids_of (table_pair_ids pair) else []))) (sn_tables snapshot)) (\<lambda>ids.
       let tableIds = uniq (concat ids);
           lineages = filter (\<lambda>s. slot_brokenBy (rsl_slot s) \<noteq> None \<and>
             list_ex (\<lambda>i. i \<in> set tableIds) (slot_tableIds (rsl_slot s))) (rl_slots (sr_head replays) @ rl_slots (sr_draft replays))
       in Inr \<lparr>ul_tableIds = tableIds,
            ul_steps = uniq (concat (map (\<lambda>s. map mig_id (slot_migrations (rsl_slot s))) lineages))\<rparr>)"

record source_inconsistencies =
  si_unledgered :: unledgered_lineages
  si_existingHead :: "inconsistency_key list"
  si_existingDraft :: "inconsistency_key list"

fun existing_on :: "source_inconsistencies \<Rightarrow> revision_side \<Rightarrow> inconsistency_key list" where
  "existing_on si HeadSide = si_existingHead si"
| "existing_on si DraftSide = si_existingDraft si"

definition source_inconsistencies ::
  "(json \<Rightarrow> json \<Rightarrow> bool) \<Rightarrow> changes_snapshot \<Rightarrow> source_replays \<Rightarrow> source_inconsistencies outcome" where
  "source_inconsistencies equal snapshot replays =
     try_bind (unledgered_lineages_of equal snapshot replays) (\<lambda>unledgered.
     try_bind (inconsistencies_of equal (source_role_of snapshot HeadSide) (sr_head replays) unledgered) (\<lambda>head.
     try_bind (inconsistencies_of equal (source_role_of snapshot DraftSide) (sr_draft replays) unledgered) (\<lambda>draft.
       Inr \<lparr>si_unledgered = unledgered, si_existingHead = map inconsistency_key_of head,
            si_existingDraft = map inconsistency_key_of draft\<rparr>)))"

definition keeps_existing :: "resulting_role \<Rightarrow> source_inconsistencies \<Rightarrow> slot_inconsistency \<Rightarrow> bool" where
  "keeps_existing role si found \<longleftrightarrow>
     list_ex (\<lambda>side. inconsistency_key_of found \<in> set (existing_on si side)) (lr_keepsInconsistenciesOf role)"

definition new_inconsistencies_of ::
  "(json \<Rightarrow> json \<Rightarrow> bool) \<Rightarrow> source_inconsistencies \<Rightarrow> resulting_role \<Rightarrow> replayed_ledger \<Rightarrow> slot_inconsistency list outcome" where
  "new_inconsistencies_of equal si role replayed =
     try_bind (inconsistencies_of equal role replayed (si_unledgered si)) (\<lambda>found.
       Inr (filter (\<lambda>f. \<not> keeps_existing role si f) found))"

subsection \<open>Blockers\<close>

fun problem_of :: "string \<Rightarrow> string \<Rightarrow> inconsistency \<Rightarrow> string" where
  "problem_of role tableId (UnreplayableStep migrationId e) = ''cannot replay '' @ tableId @ '': '' @ e"
| "problem_of role tableId SchemaMismatch = ''does not replay to the schema of '' @ tableId"
| "problem_of role tableId MissingTable = ''holds '' @ tableId @ '', which the '' @ role @ '' does not have''"

definition ledger_inconsistent_of :: "resulting_role \<Rightarrow> slot_inconsistency \<Rightarrow> plan_blocker" where
  "ledger_inconsistent_of role found =
     blocker_at LedgerInconsistent (Some (ci_tableId found)) None None
       (''The migration ledger of the '' @ lr_name role @ '' '' @
        problem_of (lr_name role) (ci_tableId found) (ci_inconsistency found))"

definition ledger_blockers_of ::
  "'st toolkit \<Rightarrow> (json \<Rightarrow> json \<Rightarrow> bool) \<Rightarrow> assembly_source \<Rightarrow> applied_units \<Rightarrow> ledger_plan \<Rightarrow> plan_blocker list outcome" where
  "ledger_blockers_of tk equal source choice plan =
     try_bind (source_inconsistencies equal (as_snapshot source) (source_replays tk (as_snapshot source))) (\<lambda>si.
     try_bind (map_try (\<lambda>role. try_bind (new_inconsistencies_of equal si role (replay_ledger tk (lr_ledger role) [] False))
         (\<lambda>found. Inr (map (ledger_inconsistent_of role) found))) (resulting_roles_of source choice plan)) (\<lambda>blockers.
       Inr (concat blockers)))"

subsection \<open>An operation that applies nothing\<close>

lemma js_sort_sorted: "sorted_wrt (\<lambda>x y. cmp x y \<le> 0) xs \<Longrightarrow> js_sort cmp xs = xs"
proof (induction xs)
  case (Cons x xs)
  then show ?case by (cases xs) auto
qed simp

lemma row_order: "js_comparator (\<lambda>l r. compare_code_points (f l) (f r))"
  by unfold_locales (use code_point_order.cmp_total code_point_order.cmp_trans in blast)+

lemma ledger_in_id_order:
  assumes "stores_migrations_under_their_ids rows"
  shows "js_sort (\<lambda>l r. compare_code_points (mig_id l) (mig_id r)) (migrations_of (ledger_of rows)) = migrations_of (ledger_of rows)"
proof (rule js_sort_sorted)
  let ?sorted = "js_sort (\<lambda>l r. compare_code_points (row_id l) (row_id r)) rows"
  have ids: "mig_id (row_data row) = row_id row" if "row \<in> set rows" for row
    using assms that by (auto simp: stores_migrations_under_their_ids_def list_all_iff migration_of_def)
  have "sorted_wrt (\<lambda>l r. compare_code_points (row_id l) (row_id r) \<le> 0) ?sorted"
    by (rule js_comparator.sorted_js_sort [OF row_order])
  then have "sorted_wrt (\<lambda>l r. compare_code_points (mig_id (row_data l)) (mig_id (row_data r)) \<le> 0) ?sorted"
    by (rule sorted_wrt_mono_rel [rotated]) (simp add: ids)
  then show "sorted_wrt (\<lambda>x y. compare_code_points (mig_id x) (mig_id y) \<le> 0) (migrations_of (ledger_of rows))"
    by (simp add: migrations_of_def ledger_of_def migration_of_def sorted_wrt_map comp_def)
qed

lemma jmap_of_same: "distinct (map fst kvs) \<Longrightarrow> jmap_of kvs = kvs"
  by (induction kvs rule: rev_induct) (auto simp: jmap_of_def update_new)

lemma distinct_versions_self: "distinct (map row_versionId rows) \<Longrightarrow> distinct_versions rows = rows"
  by (simp add: distinct_versions_def jmap_of_same comp_def)

text \<open>An operation that applies no unit takes every row of a system table from its base side.\<close>

lemma base_rows_follow:
  assumes "ap_applied choice = []" "\<not> ap_wholeDraft choice" "distinct (map row_versionId (rows_on (base_side choice) rows))"
  shows "yt_versions (rows_following_owners source choice t rows stored kind) = rows_on (base_side choice) rows"
proof -
  have "side_taken_for choice owner = base_side choice" for owner
    using assms(1,2) by (cases owner; cases "ap_operation choice")
      (simp_all add: side_taken_for_def unitless_side_def side_taken_by_cases is_applied_def)
  then show ?thesis using distinct_versions_self [OF assms(3)]
    by (cases "ap_operation choice") (simp_all add: rows_following_owners_def target_linking_def Let_def)
qed

definition stored_versions_sound :: "assembly_source \<Rightarrow> bool" where
  "stored_versions_sound source \<longleftrightarrow>
     (let rows = sn_systemRows (as_snapshot source); stored = as_systemVersions source
      in (\<forall>side. distinct (map row_versionId (rows_on side (sy_schemas rows))) \<and>
            distinct (map row_versionId (rows_on side (sy_migrations rows))) \<and>
            (rows_on side (sy_schemas rows) \<noteq> [] \<longrightarrow> stored_on side (sm_schemas stored) \<noteq> None) \<and>
            (rows_on side (sy_migrations rows) \<noteq> [] \<longrightarrow> stored_on side (sm_migrations stored) \<noteq> None)))"

lemma stored_on_either: "stored_on side stored \<noteq> None \<Longrightarrow> exists_on_either_side stored"
  by (cases side) (auto simp: exists_on_either_side_def)

lemma target_rows_of_nothing:
  assumes "ap_applied choice = []" "\<not> ap_wholeDraft choice" "stored_versions_sound source"
  shows "target_system_rows_of source choice =
    \<lparr>ty_schemas = rows_on (base_side choice) (sy_schemas (sn_systemRows (as_snapshot source))),
     ty_migrations = rows_on (base_side choice) (sy_migrations (sn_systemRows (as_snapshot source)))\<rparr>"
proof -
  have sound: "distinct (map row_versionId (rows_on (base_side choice) (sy_schemas (sn_systemRows (as_snapshot source)))))"
    "distinct (map row_versionId (rows_on (base_side choice) (sy_migrations (sn_systemRows (as_snapshot source)))))"
    "rows_on (base_side choice) (sy_schemas (sn_systemRows (as_snapshot source))) \<noteq> [] \<longrightarrow>
       exists_on_either_side (sm_schemas (as_systemVersions source))"
    "rows_on (base_side choice) (sy_migrations (sn_systemRows (as_snapshot source))) \<noteq> [] \<longrightarrow>
       exists_on_either_side (sm_migrations (as_systemVersions source))"
    using assms(3) stored_on_either unfolding stored_versions_sound_def Let_def by blast+
  have stored: "yt_stored (rows_following_owners source choice t rows stored kind) = stored" for t rows stored kind
    by (simp add: rows_following_owners_def target_linking_def Let_def)
  show ?thesis using sound
    by (auto simp: target_system_rows_of_def versions_of_target_def ledger_target_def stored base_rows_follow [OF assms(1,2)])
qed

lemma same_role_finds_nothing_new:
  assumes "source_inconsistencies equal snapshot replays = Inr si" "side \<in> set (lr_keepsInconsistenciesOf role)"
    "lr_ledger role = source_ledger_of snapshot side" "lr_schemaRows role = rows_on side (sy_schemas (sn_systemRows snapshot))"
    "replayed = (case side of HeadSide \<Rightarrow> sr_head replays | DraftSide \<Rightarrow> sr_draft replays)"
  shows "new_inconsistencies_of equal si role replayed = Inr []"
proof -
  obtain unledgered head draft where si: "inconsistencies_of equal (source_role_of snapshot HeadSide) (sr_head replays) unledgered = Inr head"
    "inconsistencies_of equal (source_role_of snapshot DraftSide) (sr_draft replays) unledgered = Inr draft"
    "si = \<lparr>si_unledgered = unledgered, si_existingHead = map inconsistency_key_of head, si_existingDraft = map inconsistency_key_of draft\<rparr>"
    using assms(1) by (auto simp: source_inconsistencies_def)
  have "inconsistencies_of equal role replayed (si_unledgered si) =
      inconsistencies_of equal (source_role_of snapshot side) replayed (si_unledgered si)"
    unfolding inconsistencies_of_def assms(3,4) by (simp add: source_role_of_def)
  then have "inconsistencies_of equal role replayed (si_unledgered si) = Inr (case side of HeadSide \<Rightarrow> head | DraftSide \<Rightarrow> draft)"
    using si assms(5) by (cases side) simp_all
  moreover have "keeps_existing role si found" if "found \<in> set (case side of HeadSide \<Rightarrow> head | DraftSide \<Rightarrow> draft)" for found
    using that assms(2) si(3) by (cases side) (auto simp: keeps_existing_def list_ex_iff intro!: bexI [of _ side])
  ultimately show ?thesis by (simp add: new_inconsistencies_of_def filter_empty_conv)
qed

subsection \<open>Properties\<close>

text \<open>
  Claim C13: the check of the ledgers does not block an operation for inconsistencies that are there already. An operation
  that applies no unit, is not on the whole draft and renumbers no entry of the ledger keeps the ledgers of the source, and
  it is not blocked whatever inconsistencies of the two ledgers were found. The rows of the schemas and of the migrations
  are taken to have version ids of their own and a stored version of their table on each side that has any, and each
  migration of the Draft to be stored in a row with its id.
\<close>

theorem ledgers_of_the_source_never_block:
  assumes "ap_applied choice = []" "\<not> ap_wholeDraft choice" "stored_versions_sound source"
    "stores_migrations_under_their_ids (rr_draft (sy_migrations (sn_systemRows (as_snapshot source))))"
    "source_inconsistencies equal (as_snapshot source) (source_replays tk (as_snapshot source)) = Inr si"
  shows "ledger_blockers_of tk equal source choice [] = Inr []"
proof -
  let ?snapshot = "as_snapshot source"
  have same: "new_inconsistencies_of equal si role (replay_ledger tk (lr_ledger role) [] False) = Inr []"
    if role: "lr_ledger role = source_ledger_of ?snapshot side" "side \<in> set (lr_keepsInconsistenciesOf role)"
      "lr_schemaRows role = rows_on side (sy_schemas (sn_systemRows ?snapshot))" for role side
    by (rule same_role_finds_nothing_new [OF assms(5) role(2,1,3)])
      (cases side; simp add: role(1) source_replays_def replay_of_def)
  have "new_inconsistencies_of equal si role (replay_ledger tk (lr_ledger role) [] False) = Inr []"
    if "role \<in> set (resulting_roles_of source choice [])" for role
  proof (cases "ap_operation choice")
    case RevertOp
    with that have "lr_ledger role = source_ledger_of ?snapshot DraftSide" "DraftSide \<in> set (lr_keepsInconsistenciesOf role)"
      "lr_schemaRows role = rows_on DraftSide (sy_schemas (sn_systemRows ?snapshot))"
      by (simp_all add: resulting_roles_of_def target_rows_of_nothing [OF assms(1-3)] Let_def source_ledger_of_def)
    then show ?thesis by (rule same)
  next
    case CommitOp
    have draft: "remaining_draft_ledger_of (rr_draft (sy_migrations (sn_systemRows ?snapshot))) [] = source_ledger_of ?snapshot DraftSide"
      using ledger_in_id_order [OF assms(4)] by (simp add: remaining_draft_ledger_of_def source_ledger_of_def jmap_of_def)
    from that CommitOp consider
      "lr_ledger role = source_ledger_of ?snapshot HeadSide" "HeadSide \<in> set (lr_keepsInconsistenciesOf role)"
      "lr_schemaRows role = rows_on HeadSide (sy_schemas (sn_systemRows ?snapshot))"
    | "lr_ledger role = source_ledger_of ?snapshot DraftSide" "DraftSide \<in> set (lr_keepsInconsistenciesOf role)"
      "lr_schemaRows role = rows_on DraftSide (sy_schemas (sn_systemRows ?snapshot))"
      by (auto simp: resulting_roles_of_def target_rows_of_nothing [OF assms(1-3)] Let_def draft)
        (auto simp: source_ledger_of_def)
    then show ?thesis by cases (rule same; assumption)+
  qed
  then have "map_try (\<lambda>role. try_bind (new_inconsistencies_of equal si role (replay_ledger tk (lr_ledger role) [] False))
       (\<lambda>found. Inr (map (ledger_inconsistent_of role) found))) (resulting_roles_of source choice []) =
      Inr (map (\<lambda>_. []) (resulting_roles_of source choice []))"
    by (intro map_try_total) simp
  then show ?thesis by (simp add: ledger_blockers_of_def assms(5))
qed

text \<open>A Draft that created the table \<open>people\<close> without a schema row for it; nothing of it is committed.\<close>

definition example_unfinished_source :: assembly_source where
  "example_unfinished_source = example_empty_source
     \<lparr>as_snapshot := \<lparr>sn_tables = [], sn_systemRows =
        \<lparr>sy_schemas = \<lparr>rr_head = [], rr_draft = []\<rparr>,
         sy_migrations = \<lparr>rr_head = [], rr_draft = [example_migration_row ''1'' (InitMigration 0 ''1'' ''people'' '''' (JObj []))]\<rparr>,
         sy_views = \<lparr>rr_head = [], rr_draft = []\<rparr>, sy_sharedSchemas = \<lparr>rr_head = [], rr_draft = []\<rparr>\<rparr>\<rparr>,
      as_systemVersions := (as_systemVersions example_empty_source)
        \<lparr>sm_migrations := \<lparr>sv_head = None, sv_draft = Some \<lparr>sr_versionId = ''m'', sr_readonly = False\<rparr>\<rparr>\<rparr>\<rparr>"

lemma example_unfinished_inconsistent:
  "map_sum id (\<lambda>si. length (si_existingDraft si)) (source_inconsistencies (=) (as_snapshot example_unfinished_source)
     (source_replays root_toolkit (as_snapshot example_unfinished_source))) = Inr 1"
  by code_simp

theorem ledgers_of_the_source_never_block_witness:
  "ledger_blockers_of root_toolkit (=) example_unfinished_source
     \<lparr>ap_operation = CommitOp, ap_applied = [], ap_wholeDraft = False\<rparr> [] = Inr []"
proof -
  have "stored_versions_sound example_unfinished_source"
    unfolding stored_versions_sound_def Let_def
    by (rule allI, rename_tac side, case_tac side) (simp_all add: example_unfinished_source_def)
  moreover have "stores_migrations_under_their_ids (rr_draft (sy_migrations (sn_systemRows (as_snapshot example_unfinished_source))))"
    by code_simp
  moreover obtain si where "source_inconsistencies (=) (as_snapshot example_unfinished_source)
      (source_replays root_toolkit (as_snapshot example_unfinished_source)) = Inr si"
    using example_unfinished_inconsistent
    by (cases "source_inconsistencies (=) (as_snapshot example_unfinished_source)
      (source_replays root_toolkit (as_snapshot example_unfinished_source))") auto
  ultimately show ?thesis by (intro ledgers_of_the_source_never_block) simp_all
qed

end
