(* ===== verification/Closure.thy ===== *)
theory Closure
  imports Row_Id_Checks Estimates
begin

section \<open>The closure of a selection\<close>

text \<open>
  \<^verbatim>\<open>partial-changes/closure/dependency-closure.ts\<close>: the units that a selection needs are added round by round. A
  round estimates the operation on the units applied so far, assembles its target and runs the checks on it, and another
  round follows when a check required a unit that could be added. The collaborators of the class \<open>SelectionClosure\<close> are
  the fields of its steps: the checkpoint of the deadline of each round, the estimation, the assembler and the checks.
  The recursion of \<open>close\<close> need not end for every check, so it is a \<^verbatim>\<open>partial_function\<close>; that it ends is a property.
\<close>

record closure_source = check_source +
  cl_addressedRows :: addressed_rows
  cl_changedRowCount :: nat

record closure_request =
  rq_operation :: change_operation
  rq_selection :: selection

record closure_outcome =
  go_selected :: "string list"
  go_unmatched :: unmatched_selection
  go_applied :: "string list"
  go_required :: "required_unit list"
  go_blockers :: "plan_blocker list"
  go_estimate :: estimate

datatype closure_result = ClosureClosed closure_outcome assembled_target | ClosureTooLarge closure_outcome

record closure_steps =
  gp_checkpoint :: "nat \<Rightarrow> unit outcome"
  gp_estimate :: "applied_units \<Rightarrow> guarded_estimate outcome"
  gp_assemble :: "assembly_source \<Rightarrow> applied_units \<Rightarrow> assembled_target outcome"
  gp_checks :: "(check_context \<Rightarrow> finding list outcome) list"

text \<open>The applied units and the required ones: the fields of \<open>SelectionClosure\<close> that its rounds change.\<close>

record closing =
  cg_applied :: "string list"
  cg_required :: "(string, reason) jmap"

definition selection_source_of :: "closure_source \<Rightarrow> selection_source" where
  "selection_source_of source =
     \<lparr>su_snapshot = as_snapshot source, su_headSchema = ck_headSchema source, su_tables = as_tables source,
      su_catalogue = as_catalogue source, su_addressedRows = cl_addressedRows source\<rparr>"

definition selection_closure :: "selection_resolution \<Rightarrow> closing" where
  "selection_closure r =
     \<lparr>cg_applied = uniq (sr_selected r @ jkeys (sr_required r)), cg_required = sr_required r\<rparr>"

definition applied_units_of :: "closure_request \<Rightarrow> closing \<Rightarrow> applied_units" where
  "applied_units_of request st =
     \<lparr>ap_operation = rq_operation request, ap_applied = cg_applied st,
      ap_wholeDraft = is_whole_draft_selection (rq_selection request)\<rparr>"

definition findings_on :: "closure_steps \<Rightarrow> closure_source \<Rightarrow> assembled_target \<Rightarrow> applied_units \<Rightarrow> finding list outcome" where
  "findings_on steps source target choice =
     try_bind (check_context (check_source.truncate source) target choice) (\<lambda>context.
       try_bind (map_try (\<lambda>check. check context) (gp_checks steps)) (\<lambda>found. Inr (concat found)))"

definition can_add :: "selection_resolution \<Rightarrow> closing \<Rightarrow> string \<Rightarrow> bool" where
  "can_add r st key \<longleftrightarrow> key \<notin> set (sr_excluded r) \<and> key \<notin> set (cg_applied st)"

fun add_required_unit :: "selection_resolution \<Rightarrow> finding \<Rightarrow> closing \<Rightarrow> closing" where
  "add_required_unit r (Requires key why) st =
     (if can_add r st key
      then st\<lparr>cg_applied := cg_applied st @ [key], cg_required := AList.update key why (cg_required st)\<rparr>
      else st)"
| "add_required_unit r (Blocks _) st = st"

definition add_required_units :: "selection_resolution \<Rightarrow> finding list \<Rightarrow> closing \<Rightarrow> bool \<times> closing" where
  "add_required_units r findings st =
     (let after = fold (add_required_unit r) findings st
      in (length (cg_applied st) < length (cg_applied after), after))"

fun blocker_of :: "closure_source \<Rightarrow> selection_resolution \<Rightarrow> finding \<Rightarrow> plan_blocker outcome" where
  "blocker_of source r (Blocks blocker) = Inr blocker"
| "blocker_of source r (Requires key why) =
     (if key \<in> set (sr_excluded r)
      then try_bind (unit_of_key (ch_lookup (as_catalogue source)) key) (\<lambda>u. Inr (required_excluded u why))
      else Inr (dangling_in_source (re_because why) (site_of_reason why) (Some key)))"

definition outcome_with ::
  "system_schema_ids \<Rightarrow> (json \<Rightarrow> json \<Rightarrow> bool) \<Rightarrow> closure_source \<Rightarrow> selection_resolution \<Rightarrow> closing \<Rightarrow> estimate \<Rightarrow>
   plan_blocker list \<Rightarrow> closure_outcome outcome" where
  "outcome_with ids equal source r st e blockers =
     try_bind (required_units_of ids equal (as_catalogue source) (cg_required st)) (\<lambda>required.
       Inr \<lparr>go_selected = sr_selected r, go_unmatched = sr_unmatched r, go_applied = cg_applied st, go_required = required,
            go_blockers = distinct_blockers (sr_blockers r @ blockers), go_estimate = e\<rparr>)"

text \<open>One run of the body of \<open>close\<close>, up to its recursive call: the next state, or the result.\<close>

definition close_round ::
  "system_schema_ids \<Rightarrow> (json \<Rightarrow> json \<Rightarrow> bool) \<Rightarrow> closure_steps \<Rightarrow> closure_source \<Rightarrow> closure_request \<Rightarrow>
   selection_resolution \<Rightarrow> nat \<Rightarrow> closing \<Rightarrow> (closing + closure_result) outcome" where
  "close_round ids equal steps source request r n st =
     try_bind (gp_checkpoint steps n) (\<lambda>_.
       let choice = applied_units_of request st
       in try_bind (gp_estimate steps choice) (\<lambda>guarded.
          case guarded of
            EstimateTooLarge e blockers \<Rightarrow>
              try_bind (outcome_with ids equal source r st e blockers) (\<lambda>out. Inr (Inr (ClosureTooLarge out)))
          | WithinLimits e \<Rightarrow>
              try_bind (gp_assemble steps (assembly_source.truncate source) choice) (\<lambda>target.
              try_bind (findings_on steps source target choice) (\<lambda>findings.
                let (added, after) = add_required_units r findings st
                in if added then Inr (Inl after)
                   else try_bind (map_try (blocker_of source r) findings) (\<lambda>blockers.
                     try_bind (outcome_with ids equal source r after e (at_blockers target @ blockers)) (\<lambda>out.
                       Inr (Inr (ClosureClosed out target))))))))"

partial_function (option) close_from ::
  "system_schema_ids \<Rightarrow> (json \<Rightarrow> json \<Rightarrow> bool) \<Rightarrow> closure_steps \<Rightarrow> closure_source \<Rightarrow> closure_request \<Rightarrow>
   selection_resolution \<Rightarrow> nat \<Rightarrow> closing \<Rightarrow> closure_result outcome option" where
  "close_from ids equal steps source request r n st =
     (case close_round ids equal steps source request r n st of
        Inl e \<Rightarrow> Some (Inl e)
      | Inr next_round \<Rightarrow>
          (case next_round of
             Inr result \<Rightarrow> Some (Inr result)
           | Inl after \<Rightarrow> close_from ids equal steps source request r (Suc n) after))"

declare close_from.simps [code]

definition close_selection ::
  "system_schema_ids \<Rightarrow> (json \<Rightarrow> json \<Rightarrow> bool) \<Rightarrow> closure_steps \<Rightarrow> closure_source \<Rightarrow> closure_request \<Rightarrow>
   closure_result outcome option" where
  "close_selection ids equal steps source request =
     (case resolve_selection ids (rq_selection request) (selection_source_of source) of
        Inl e \<Rightarrow> Some (Inl e)
      | Inr r \<Rightarrow> close_from ids equal steps source request r 0 (selection_closure r))"

subsection \<open>Adding required units\<close>

lemma add_required_unit_facts:
  "set (cg_applied (add_required_unit r f st)) =
     set (cg_applied st) \<union> {key. \<exists>why. f = Requires key why \<and> key \<notin> set (sr_excluded r)}"
  "length (cg_applied st) \<le> length (cg_applied (add_required_unit r f st))"
  "distinct (cg_applied st) \<Longrightarrow> distinct (cg_applied (add_required_unit r f st))"
  by (cases f; auto simp: can_add_def)+

lemma fold_required_units:
  "set (cg_applied (fold (add_required_unit r) fs st)) =
     set (cg_applied st) \<union> {key. \<exists>why. Requires key why \<in> set fs \<and> key \<notin> set (sr_excluded r)}"
  "distinct (cg_applied st) \<Longrightarrow> distinct (cg_applied (fold (add_required_unit r) fs st))"
  by (induction fs arbitrary: st) (auto simp: add_required_unit_facts)

text \<open>Every required unit is one of the first, or was required by a finding and applied with it.\<close>

definition required_follow :: "selection_resolution \<Rightarrow> closing \<Rightarrow> bool" where
  "required_follow r st \<longleftrightarrow> distinct (cg_applied st) \<and> set (cg_applied st) \<inter> set (sr_excluded r) = {} \<and>
     set (cg_applied st) = set (sr_selected r) \<union> set (jkeys (cg_required st)) \<and>
     set (jkeys (sr_required r)) \<subseteq> set (jkeys (cg_required st))"

lemma required_follow_add: "required_follow r st \<Longrightarrow> required_follow r (add_required_unit r f st)"
  by (cases f) (auto simp: required_follow_def can_add_def dom_update)

lemma required_follow_fold: "required_follow r st \<Longrightarrow> required_follow r (fold (add_required_unit r) fs st)"
  by (induction fs arbitrary: st) (auto simp: required_follow_add)

lemma required_follow_start:
  "(set (sr_selected r) \<union> set (jkeys (sr_required r))) \<inter> set (sr_excluded r) = {} \<Longrightarrow>
   required_follow r (selection_closure r)"
  by (auto simp: required_follow_def selection_closure_def)

lemma fold_add_none:
  assumes "\<And>key why. Requires key why \<in> set fs \<Longrightarrow> key \<in> set (sr_excluded r) \<union> set (cg_applied st)"
  shows "fold (add_required_unit r) fs st = st"
  using assms
proof (induction fs)
  case (Cons f fs)
  have "add_required_unit r f st = st" using Cons.prems by (cases f) (auto simp: can_add_def)
  moreover have "fold (add_required_unit r) fs st = st" by (rule Cons.IH) (use Cons.prems in auto)
  ultimately show ?case by simp
qed simp

lemma not_added:
  assumes "add_required_units r fs st = (False, after)"
  shows "after = st" "Requires key why \<in> set fs \<Longrightarrow> key \<in> set (sr_excluded r) \<union> set (cg_applied st)"
proof -
  have len: "length (cg_applied st) \<le> length (cg_applied (fold (add_required_unit r) fs st))" for fs st
  proof (induction fs arbitrary: st)
    case (Cons f fs)
    from add_required_unit_facts(2) [of st r f] Cons.IH [of "add_required_unit r f st"] show ?case by simp
  qed simp
  have all: "key \<in> set (sr_excluded r) \<union> set (cg_applied st)" if "Requires key why \<in> set fs" for key why
  proof (rule ccontr)
    assume new: "\<not> ?thesis"
    from that obtain before rest where fs: "fs = before @ Requires key why # rest" by (auto simp: in_set_conv_decomp)
    let ?st = "fold (add_required_unit r) before st"
    have "length (cg_applied st) < length (cg_applied (fold (add_required_unit r) (before @ [Requires key why]) st))"
    proof (cases "key \<in> set (cg_applied ?st)")
      case True
      with new have "cg_applied ?st \<noteq> cg_applied st" by auto
      moreover have "\<exists>more. cg_applied (fold (add_required_unit r) gs s) = cg_applied s @ more" for gs s
      proof (induction gs arbitrary: s)
        case (Cons g gs)
        have "\<exists>more. cg_applied (add_required_unit r g s) = cg_applied s @ more" by (cases g) auto
        then obtain more where "cg_applied (add_required_unit r g s) = cg_applied s @ more" ..
        with Cons.IH [of "add_required_unit r g s"] show ?case by auto
      qed simp
      then obtain more where "cg_applied ?st = cg_applied st @ more" by blast
      ultimately have "length (cg_applied st) < length (cg_applied ?st)" by simp
      then show ?thesis using True by (simp add: can_add_def)
    next
      case False
      then show ?thesis using len [of st before] new by (simp add: can_add_def)
    qed
    with len [where fs = rest] have "length (cg_applied st) < length (cg_applied (fold (add_required_unit r) fs st))"
      unfolding fs by (metis append.assoc append_Cons append_Nil fold_append le_trans not_less comp_apply)
    with assms show False by (simp add: add_required_units_def Let_def)
  qed
  then show "Requires key why \<in> set fs \<Longrightarrow> key \<in> set (sr_excluded r) \<union> set (cg_applied st)" .
  have "fold (add_required_unit r) fs st = st" by (rule fold_add_none) (rule all)
  then show "after = st" using assms by (simp add: add_required_units_def Let_def)
qed

lemma added_more:
  assumes "add_required_units r fs st = (True, after)"
  shows "\<exists>key why. Requires key why \<in> set fs \<and> key \<notin> set (sr_excluded r) \<and> key \<notin> set (cg_applied st) \<and> key \<in> set (cg_applied after)"
proof (rule ccontr)
  assume none: "\<not> ?thesis"
  have after: "after = fold (add_required_unit r) fs st" "length (cg_applied st) < length (cg_applied after)"
    using assms by (auto simp: add_required_units_def Let_def)
  have "fold (add_required_unit r) fs st = st"
  proof (rule fold_add_none)
    fix key why assume "Requires key why \<in> set fs"
    with none fold_required_units(1) [of r fs st] show "key \<in> set (sr_excluded r) \<union> set (cg_applied st)"
      unfolding after(1) by blast
  qed
  with after show False by simp
qed

subsection \<open>Rounds\<close>

text \<open>What a round does: it stops with an error, applies more units that a check required, or returns.\<close>

lemma close_round_cases:
  assumes "close_round ids equal steps source request r n st = Inr decided"
  obtains e blockers out where "decided = Inr (ClosureTooLarge out)" "gp_estimate steps (applied_units_of request st) = Inr (EstimateTooLarge e blockers)"
    "outcome_with ids equal source r st e blockers = Inr out"
  | after target findings where "decided = Inl after" "add_required_units r findings st = (True, after)"
    "gp_assemble steps (assembly_source.truncate source) (applied_units_of request st) = Inr target"
    "findings_on steps source target (applied_units_of request st) = Inr findings"
  | e target findings blockers out where "decided = Inr (ClosureClosed out target)"
    "gp_assemble steps (assembly_source.truncate source) (applied_units_of request st) = Inr target"
    "findings_on steps source target (applied_units_of request st) = Inr findings"
    "add_required_units r findings st = (False, st)" "map_try (blocker_of source r) findings = Inr blockers"
    "outcome_with ids equal source r st e (at_blockers target @ blockers) = Inr out"
proof -
  obtain guarded where g: "gp_estimate steps (applied_units_of request st) = Inr guarded"
    using assms by (auto simp: close_round_def Let_def)
  show ?thesis
  proof (cases guarded)
    case (EstimateTooLarge e blockers)
    with assms g that(1) show ?thesis by (auto simp: close_round_def Let_def)
  next
    case (WithinLimits e)
    then obtain target findings where run: "gp_assemble steps (assembly_source.truncate source) (applied_units_of request st) = Inr target"
      "findings_on steps source target (applied_units_of request st) = Inr findings"
      using assms g by (auto simp: close_round_def Let_def)
    obtain added after where add: "add_required_units r findings st = (added, after)" by (rule prod.exhaust)
    show ?thesis
    proof (cases added)
      case True
      with assms g WithinLimits run add that(2) show ?thesis by (auto simp: close_round_def Let_def)
    next
      case False
      with add not_added(1) have stays: "add_required_units r findings st = (False, st)" by fastforce
      then obtain blockers out where "map_try (blocker_of source r) findings = Inr blockers"
        "outcome_with ids equal source r st e (at_blockers target @ blockers) = Inr out" "decided = Inr (ClosureClosed out target)"
        using assms g WithinLimits run by (auto simp: close_round_def Let_def)
      with run stays that(3) show ?thesis by blast
    qed
  qed
qed

text \<open>A property of states that every further round keeps holds of the state that the last round starts from.\<close>

lemma close_from_last:
  assumes "close_from ids equal steps source request r n st = Some (Inr result)" "P st"
    "\<And>n st after. P st \<Longrightarrow> close_round ids equal steps source request r n st = Inr (Inl after) \<Longrightarrow> P after"
  shows "\<exists>n st. P st \<and> close_round ids equal steps source request r n st = Inr (Inr result)"
proof -
  have "\<forall>result. y = Inr result \<longrightarrow> P st \<longrightarrow>
      (\<forall>n st after. P st \<longrightarrow> close_round ids equal steps source request r n st = Inr (Inl after) \<longrightarrow> P after) \<longrightarrow>
      (\<exists>n st. P st \<and> close_round ids equal steps source request r n st = Inr (Inr result))"
    if "close_from ids equal steps source request r n st = Some y" for y
  proof (rule close_from.raw_induct [where P = "\<lambda>ids equal steps source request r n st y. \<forall>result. y = Inr result \<longrightarrow> P st \<longrightarrow>
      (\<forall>n st after. P st \<longrightarrow> close_round ids equal steps source request r n st = Inr (Inl after) \<longrightarrow> P after) \<longrightarrow>
      (\<exists>n st. P st \<and> close_round ids equal steps source request r n st = Inr (Inr result))", OF _ that], goal_cases)
    case (1 close ids equal steps source request r n st y)
    show ?case
    proof (cases "close_round ids equal steps source request r n st")
      case (Inr decided)
      show ?thesis
      proof (cases decided)
        case (Inl after)
        with 1(2) Inr have "close ids equal steps source request r (Suc n) after = Some y" by simp
        from 1(1) [OF this] Inr Inl show ?thesis by blast
      next
        case (Inr last)
        with 1(2) \<open>close_round ids equal steps source request r n st = Inr decided\<close> show ?thesis by auto
      qed
    qed (use 1(2) in auto)
  qed
  from this [OF assms(1)] assms(2,3) show ?thesis by blast
qed

text \<open>A closure ends when its checks only require units of a finite set, one of which every further round applies.\<close>

lemma close_from_ends:
  assumes "finite keys"
    "\<And>target choice findings key why. findings_on steps source target choice = Inr findings \<Longrightarrow> Requires key why \<in> set findings \<Longrightarrow> key \<in> keys"
  shows "\<exists>y. close_from ids equal steps source request r n st = Some y"
proof (induction "card (keys - set (cg_applied st))" arbitrary: n st rule: less_induct)
  case less
  show ?case
  proof (cases "close_round ids equal steps source request r n st")
    case (Inl e)
    then show ?thesis by (subst close_from.simps) simp
  next
    case (Inr decided)
    show ?thesis
    proof (cases decided)
      case (Inl after)
      with Inr obtain findings target where added: "add_required_units r findings st = (True, after)"
        "findings_on steps source target (applied_units_of request st) = Inr findings"
        by (auto elim: close_round_cases)
      obtain key why where key: "Requires key why \<in> set findings" "key \<notin> set (cg_applied st)" "key \<in> set (cg_applied after)"
        using added_more [OF added(1)] by blast
      have "set (cg_applied st) \<subseteq> set (cg_applied after)"
        using added(1) fold_required_units(1) [of r findings st] by (auto simp: add_required_units_def Let_def)
      with key assms(2) [OF added(2) key(1)] have "keys - set (cg_applied after) \<subset> keys - set (cg_applied st)" by blast
      then have "card (keys - set (cg_applied after)) < card (keys - set (cg_applied st))"
        using assms(1) by (intro psubset_card_mono) simp_all
      from less [OF this] Inr Inl show ?thesis by (subst close_from.simps) simp
    next
      case (Inr result)
      with \<open>close_round ids equal steps source request r n st = Inr decided\<close> show ?thesis by (subst close_from.simps) simp
    qed
  qed
qed

text \<open>A resolution never selects or requires a unit that it leaves out.\<close>

lemma resolution_leaves_out:
  assumes "resolve_selection ids selection source = Inr r"
  shows "(set (sr_selected r) \<union> set (jkeys (sr_required r))) \<inter> set (sr_excluded r) = {}"
  using assms by (auto simp: resolve_selection_def resolve_units_def selected_keys_def required_additions_def Let_def)

lemma closed_from_last_round:
  assumes "close_selection ids equal steps source request = Some (Inr result)"
    "resolve_selection ids (rq_selection request) (selection_source_of source) = Inr r"
    "P (selection_closure r)" "\<And>st after findings target. P st \<Longrightarrow> required_follow r st \<Longrightarrow>
        gp_assemble steps (assembly_source.truncate source) (applied_units_of request st) = Inr target \<Longrightarrow>
        findings_on steps source target (applied_units_of request st) = Inr findings \<Longrightarrow>
        add_required_units r findings st = (True, after) \<Longrightarrow> P after"
  shows "\<exists>n st. P st \<and> required_follow r st \<and> close_round ids equal steps source request r n st = Inr (Inr result)"
proof -
  have run: "close_from ids equal steps source request r 0 (selection_closure r) = Some (Inr result)"
    using assms(1,2) by (simp add: close_selection_def)
  have "\<exists>n st. (P st \<and> required_follow r st) \<and> close_round ids equal steps source request r n st = Inr (Inr result)"
  proof (rule close_from_last [OF run])
    show "P (selection_closure r) \<and> required_follow r (selection_closure r)"
      using assms(3) required_follow_start [OF resolution_leaves_out [OF assms(2)]] by blast
    fix n st after
    assume st: "P st \<and> required_follow r st" "close_round ids equal steps source request r n st = Inr (Inl after)"
    then obtain target findings where round: "gp_assemble steps (assembly_source.truncate source) (applied_units_of request st) = Inr target"
      "findings_on steps source target (applied_units_of request st) = Inr findings" "add_required_units r findings st = (True, after)"
      by (auto elim: close_round_cases)
    then have "after = fold (add_required_unit r) findings st" by (simp add: add_required_units_def Let_def)
    with round st(1) assms(4) required_follow_fold show "P after \<and> required_follow r after" by blast
  qed
  then show ?thesis by blast
qed

subsection \<open>Properties\<close>

text \<open>
  Closing a selection ends whenever its checks only require units from some finite set, as the units of the
  catalogue are: with a result or with the error of one of its steps, and not in endless rounds.
\<close>

lemma closing_a_selection_ends:
  assumes "finite keys"
    "\<And>target choice findings key why. findings_on steps source target choice = Inr findings \<Longrightarrow> Requires key why \<in> set findings \<Longrightarrow> key \<in> keys"
  shows "\<exists>y. close_selection ids equal steps source request = Some y"
  using close_from_ends [OF assms(1), of steps source] assms(2)
  by (auto simp: close_selection_def split: sum.splits)

text \<open>
  Claim C4: a closed selection is closed. It applies the units the selection selects and those that are required of it,
  none of which the selection leaves out; the target is the one assembled of exactly these units, whatever a check of that
  target still requires is applied or left out, and when no blocker is reported then no check finds anything on the
  target and the target itself has no blocker.
\<close>

theorem closed_selection_satisfies_checks:
  assumes "close_selection ids equal steps source request = Some (Inr (ClosureClosed out target))"
    "resolve_selection ids (rq_selection request) (selection_source_of source) = Inr r"
  shows "set (sr_selected r) \<union> set (jkeys (sr_required r)) \<subseteq> set (go_applied out) \<and> distinct (go_applied out) \<and>
    set (go_applied out) \<inter> set (sr_excluded r) = {} \<and>
    (\<exists>choice findings. choice = \<lparr>ap_operation = rq_operation request, ap_applied = go_applied out,
        ap_wholeDraft = is_whole_draft_selection (rq_selection request)\<rparr> \<and>
      gp_assemble steps (assembly_source.truncate source) choice = Inr target \<and>
      findings_on steps source target choice = Inr findings \<and>
      (\<forall>key why. Requires key why \<in> set findings \<longrightarrow> key \<in> set (go_applied out) \<union> set (sr_excluded r)) \<and>
      (go_blockers out = [] \<longrightarrow> findings = [] \<and> at_blockers target = []))"
proof -
  obtain n st where last: "required_follow r st" "close_round ids equal steps source request r n st = Inr (Inr (ClosureClosed out target))"
    using closed_from_last_round [OF assms(1,2), of "\<lambda>_. True"] by blast
  from last(2) obtain e findings blockers where run:
    "gp_assemble steps (assembly_source.truncate source) (applied_units_of request st) = Inr target"
    "findings_on steps source target (applied_units_of request st) = Inr findings"
    "add_required_units r findings st = (False, st)" "map_try (blocker_of source r) findings = Inr blockers"
    "outcome_with ids equal source r st e (at_blockers target @ blockers) = Inr out"
    by (rule close_round_cases) auto
  have out: "go_applied out = cg_applied st" "go_blockers out = distinct_blockers (sr_blockers r @ at_blockers target @ blockers)"
    using run(5) by (auto simp: outcome_with_def)
  have "go_blockers out = [] \<longrightarrow> findings = [] \<and> at_blockers target = []"
    using distinct_blockers_facts(3) [of "sr_blockers r @ at_blockers target @ blockers"] map_try_Inr_length [OF run(4)]
    unfolding out(2) by auto
  moreover have "\<forall>key why. Requires key why \<in> set findings \<longrightarrow> key \<in> set (go_applied out) \<union> set (sr_excluded r)"
    using not_added(2) [OF run(3)] unfolding out(1) by blast
  ultimately show ?thesis
    using last(1) run(1,2) unfolding required_follow_def out(1) applied_units_of_def by blast
qed

text \<open>
  The units that are needed: the selected ones, those the resolution requires, and those that a check requires of a target
  assembled from needed units only.
\<close>

inductive needed_unit :: "closure_steps \<Rightarrow> closure_source \<Rightarrow> closure_request \<Rightarrow> selection_resolution \<Rightarrow> string \<Rightarrow> bool"
  for steps :: closure_steps and source :: closure_source and request :: closure_request and r :: selection_resolution where
  selected_unit: "key \<in> set (sr_selected r) \<Longrightarrow> needed_unit steps source request r key"
| required_unit: "key \<in> set (jkeys (sr_required r)) \<Longrightarrow> needed_unit steps source request r key"
| checked_unit: "\<lbrakk>\<forall>key \<in> set applied. needed_unit steps source request r key;
     choice = \<lparr>ap_operation = rq_operation request, ap_applied = applied,
       ap_wholeDraft = is_whole_draft_selection (rq_selection request)\<rparr>;
     gp_assemble steps (assembly_source.truncate source) choice = Inr target;
     findings_on steps source target choice = Inr findings; Requires key why \<in> set findings\<rbrakk> \<Longrightarrow>
   needed_unit steps source request r key"

text \<open>
  Claim C5: a closure adds nothing without need. Every unit it applies is selected, required by the resolution, or
  required by a check of a target that was assembled of needed units only, also when the operation turns out too large.
\<close>

theorem closure_applies_only_needed_units:
  assumes "close_selection ids equal steps source request = Some (Inr result)"
    "resolve_selection ids (rq_selection request) (selection_source_of source) = Inr r"
    "result = ClosureTooLarge out \<or> result = ClosureClosed out target" "key \<in> set (go_applied out)"
  shows "needed_unit steps source request r key"
proof -
  let ?P = "\<lambda>st. \<forall>key \<in> set (cg_applied st). needed_unit steps source request r key"
  have start: "?P (selection_closure r)"
    by (auto simp: selection_closure_def simp del: set_map intro: selected_unit required_unit)
  have step: "?P after" if st: "?P st" "gp_assemble steps (assembly_source.truncate source) (applied_units_of request st) = Inr target"
    "findings_on steps source target (applied_units_of request st) = Inr findings" "add_required_units r findings st = (True, after)"
    for st after findings target
  proof
    fix key assume "key \<in> set (cg_applied after)"
    moreover have "after = fold (add_required_unit r) findings st" using st(4) by (simp add: add_required_units_def Let_def)
    ultimately consider "key \<in> set (cg_applied st)" | why where "Requires key why \<in> set findings"
      using fold_required_units(1) [of r findings st] by blast
    then show "needed_unit steps source request r key"
    proof cases
      case 2
      show ?thesis by (rule checked_unit [OF st(1) applied_units_of_def st(2,3) 2])
    qed (use st(1) in blast)
  qed
  obtain n st where last: "?P st" "close_round ids equal steps source request r n st = Inr (Inr result)"
    using closed_from_last_round [OF assms(1,2), of ?P] start step by blast
  from last(2) have "go_applied out = cg_applied st"
    by (rule close_round_cases) (use assms(3) in \<open>auto simp: outcome_with_def\<close>)
  with last(1) assms(4) show ?thesis by simp
qed

text \<open>
  The table that takes over the id \<open>a\<close>, selected: closing the selection requires the rename of the table that had the
  id before.
\<close>

definition example_closure_source :: closure_source where
  "example_closure_source =
     (let compared = [\<lparr>co_identity = ''T'', co_headVersionId = ''h'', co_draftVersionId = ''d'',
            co_structure = ct_structure example_posts\<rparr>]
      in check_source.extend (example_taken_over\<lparr>as_tables := compared, as_catalogue := (as_catalogue example_taken_over)
           \<lparr>ch_tables := catalogue_tables (as_snapshot example_taken_over) compared\<rparr>\<rparr>) (closure_source.fields [] 0))"

definition example_closure_request :: closure_request where
  "example_closure_request =
     \<lparr>rq_operation = CommitOp, rq_selection = selection_of_items (no_items\<lparr>it_tables := Some [TableNamed ''a'']\<rparr>)\<rparr>"

definition example_steps :: closure_steps where
  "example_steps =
     \<lparr>gp_checkpoint = \<lambda>_. Inr (),
      gp_estimate = estimate_and_guard example_ids (\<lambda>_. Inr 5) example_limits (assembly_source.truncate example_closure_source) 0,
      gp_assemble = assemble_target example_tools root_toolkit example_ids (=) (\<lambda>_. '''') (=) (\<lambda>_ _. Inr []),
      gp_checks = [\<lambda>context. Inr (table_id_collisions context), \<lambda>context. Inr (row_id_collisions context)]\<rparr>"

definition example_closing :: "closure_result outcome option" where
  "example_closing = close_selection example_ids (=) example_steps example_closure_source example_closure_request"

lemma example_closing_runs:
  "case example_closing of
     Some (Inr (ClosureClosed out target)) \<Rightarrow>
       go_applied out = [structure_unit_key [''U''], structure_unit_key [''T'']] \<and> go_blockers out = [] \<and>
       length (go_required out) = 1
   | _ \<Rightarrow> False"
  by code_simp

lemma example_closure_resolved:
  "\<exists>r. resolve_selection example_ids (rq_selection example_closure_request) (selection_source_of example_closure_source) = Inr r \<and>
     sr_selected r = [structure_unit_key [''U'']]"
proof -
  have "map_sum id sr_selected (resolve_selection example_ids (rq_selection example_closure_request)
      (selection_source_of example_closure_source)) = Inr [structure_unit_key [''U'']]" by code_simp
  then show ?thesis by (cases "resolve_selection example_ids (rq_selection example_closure_request)
      (selection_source_of example_closure_source)") auto
qed

theorem closed_selection_satisfies_checks_witness:
  "\<exists>out target. example_closing = Some (Inr (ClosureClosed out target)) \<and> go_blockers out = [] \<and>
     structure_unit_key [''T''] \<in> set (go_applied out) \<and> at_blockers target = []"
proof -
  obtain out target where run: "example_closing = Some (Inr (ClosureClosed out target))" "go_blockers out = []"
    "go_applied out = [structure_unit_key [''U''], structure_unit_key [''T'']]"
    using example_closing_runs by (auto split: option.splits sum.splits closure_result.splits)
  moreover obtain r where "resolve_selection example_ids (rq_selection example_closure_request)
      (selection_source_of example_closure_source) = Inr r" using example_closure_resolved by blast
  ultimately have "at_blockers target = []"
    using closed_selection_satisfies_checks [OF run(1) [unfolded example_closing_def]] by blast
  with run show ?thesis by (intro exI [of _ out] exI [of _ target]) simp
qed

theorem closure_applies_only_needed_units_witness:
  "\<exists>r. resolve_selection example_ids (rq_selection example_closure_request) (selection_source_of example_closure_source) = Inr r \<and>
     structure_unit_key [''T''] \<notin> set (sr_selected r) \<and>
     needed_unit example_steps example_closure_source example_closure_request r (structure_unit_key [''T''])"
proof -
  obtain out target where run: "example_closing = Some (Inr (ClosureClosed out target))"
    "go_applied out = [structure_unit_key [''U''], structure_unit_key [''T'']]"
    using example_closing_runs by (auto split: option.splits sum.splits closure_result.splits)
  obtain r where r: "resolve_selection example_ids (rq_selection example_closure_request)
      (selection_source_of example_closure_source) = Inr r" "sr_selected r = [structure_unit_key [''U'']]"
    using example_closure_resolved by blast
  have "structure_unit_key [''T''] \<noteq> structure_unit_key [''U'']" by code_simp
  with run(2) r show ?thesis
    using closure_applies_only_needed_units [OF run(1) [unfolded example_closing_def] r(1), of out target] by auto
qed

end
