(* ===== verification/Target_Checks.thy ===== *)
theory Target_Checks
  imports Ledger_Consistency Closure
begin

section \<open>The checks of a target\<close>

text \<open>
  \<^verbatim>\<open>partial-changes/closure/views-against-structure.ts\<close> with \<^verbatim>\<open>views-fit.ts\<close>,
  \<^verbatim>\<open>ledger-dependency-checks.ts\<close>, and the list of all checks, \<^verbatim>\<open>target-checks.ts\<close>. Parameters: whether the AJV
  schema of views accepts a document, the read of a table's schema, which may be refused as a bad request or fail, and
  the paths of the fields of a schema. What a check keeps between rounds are caches, so it is not in the model.
\<close>

subsection \<open>Views that fit\<close>

datatype schema_read = SchemaRead json | SchemaRefused | SchemaReadFails string

record views_validation =
  vv_acceptsShape :: "table_views \<Rightarrow> bool outcome"
  vv_schemaOf :: "string \<Rightarrow> string \<Rightarrow> schema_read"
  vv_fieldPaths :: "json \<Rightarrow> string list"

definition views_fit :: "views_validation \<Rightarrow> assembly_source \<Rightarrow> target_views \<Rightarrow> bool outcome" where
  "views_fit vv source views =
     (let document = vt_document views
      in try_bind (vv_acceptsShape vv document) (\<lambda>accepted.
         if \<not> accepted \<or> validate_view_identities document \<noteq> None then Inr False
         else case vv_schemaOf vv (revision_id_of source (vt_tableSide views)) (vt_tableId views) of
                SchemaRefused \<Rightarrow> Inr False
              | SchemaReadFails e \<Rightarrow> Inl e
              | SchemaRead schema \<Rightarrow> Inr (validate_supplied_schema_fields (vt_tableId views) document
                  (field_paths_of (vv_fieldPaths vv schema)) = None)))"

definition table_unit_keys_of :: "check_context \<Rightarrow> table_pair \<Rightarrow> string list" where
  "table_unit_keys_of context pair =
     (case table_unit_of (ch_lookup (as_catalogue (cx_source context))) ViewsUnit pair of
        None \<Rightarrow> [] | Some u \<Rightarrow> [ca_key u]) @
     (case structure_key_of context pair of None \<Rightarrow> [] | Some key \<Rightarrow> [key])"

definition applies_table_unit_of :: "check_context \<Rightarrow> table_pair \<Rightarrow> bool" where
  "applies_table_unit_of context pair \<longleftrightarrow> list_ex (is_applied (cx_choice context)) (table_unit_keys_of context pair)"

definition unapplied_table_unit_of :: "check_context \<Rightarrow> table_pair \<Rightarrow> string option" where
  "unapplied_table_unit_of context pair = find (\<lambda>key. \<not> is_applied (cx_choice context) key) (table_unit_keys_of context pair)"

fun revision_name :: "revision_side \<Rightarrow> string" where
  "revision_name HeadSide = ''Head''"
| "revision_name DraftSide = ''Draft''"

definition keep_views_with_table :: "check_context \<Rightarrow> table_pair \<Rightarrow> finding list outcome" where
  "keep_views_with_table context pair =
     (case table_unit_of (ch_lookup (as_catalogue (cx_source context))) ViewsUnit pair of
        None \<Rightarrow> Inr []
      | Some u \<Rightarrow>
          let viewsSide = side_taken_by (cx_choice context) (ca_key u)
          in if views_row_on viewsSide (views_rows_of (ch_tables (as_catalogue (cx_source context))) pair) = None then Inr []
             else try_bind (public_table_id_of pair) (\<lambda>tableId.
               Inr [requiring_or_dangling (unapplied_table_unit_of context pair)
                 (table_reason ViewsDoNotFitStructure tableId
                   (''the '' @ revision_name viewsSide @ '' views of '' @ tableId @ '' belong to a table the '' @
                    sd_target (cx_names context) @ '' does not contain'')) None]))"

definition fit_views :: "check_context \<Rightarrow> target_views \<Rightarrow> finding" where
  "fit_views context views =
     (let misfit = revision_name (vt_viewsSide views) @ '' views of '' @ vt_tableId views @ '' do not fit its '' @
            revision_name (vt_tableSide views) @ '' structure'';
          invalid = Blocks (blocker_at InvalidViews (Some (vt_tableId views)) None None (''The '' @ misfit))
      in case unapplied_table_unit_of context (vt_pair views) of
           None \<Rightarrow> invalid
         | Some unapplied \<Rightarrow>
             if vt_viewsSide views = vt_tableSide views then invalid
             else Requires unapplied (table_reason ViewsDoNotFitStructure (vt_tableId views) (''the '' @ misfit)))"

definition views_not_fitting_structure :: "views_validation \<Rightarrow> check_context \<Rightarrow> finding list outcome" where
  "views_not_fitting_structure vv context =
     try_bind (map_try (\<lambda>views.
         if \<not> applies_table_unit_of context (vt_pair views) then Inr []
         else try_bind (views_fit vv (assembly_source.truncate (cx_source context)) views) (\<lambda>fits.
           Inr (if fits then [] else [fit_views context views]))) (at_views (cx_target context))) (\<lambda>found. Inr (concat found))"

definition views_against_structure :: "views_validation \<Rightarrow> check_context \<Rightarrow> finding list outcome" where
  "views_against_structure vv context =
     try_bind (map_try (keep_views_with_table context)
         (filter (\<lambda>pair. \<not> contains_pair (cx_tables context) pair) (sn_tables (as_snapshot (cx_source context))))) (\<lambda>without.
     try_bind (views_not_fitting_structure vv context) (\<lambda>misfitting. Inr (concat without @ misfitting)))"

subsection \<open>Dependent steps of a ledger\<close>

datatype table_id_dependency = MissingId | AnotherTable | OccupiedId

record dependent_step =
  ds_migration :: migration
  ds_tableId :: string
  ds_dependency :: table_id_dependency

record dependent_steps =
  dp_draftLedger :: table_id_timeline
  dp_resulting :: table_id_timeline
  dp_reads :: "(string, string list) jmap"

fun taken_table_ids_of :: "migration \<Rightarrow> string list" where
  "taken_table_ids_of (InitMigration r i t h s) = [t]"
| "taken_table_ids_of (RenameMigration r i t n) = [n]"
| "taken_table_ids_of _ = []"

definition references_of_step :: "dependent_steps \<Rightarrow> migration \<Rightarrow> string list" where
  "references_of_step steps m =
     (if change_type_of m \<noteq> ChangeInit \<and> change_type_of m \<noteq> ChangeUpdate then []
      else case map_of (dp_reads steps) (mig_id m) of None \<Rightarrow> [] | Some tableIds \<Rightarrow> tableIds)"

definition lineage_before :: "table_id_timeline \<Rightarrow> migration \<Rightarrow> string \<Rightarrow> string option outcome" where
  "lineage_before line m tableId =
     try_bind (last_change_before line m tableId) (\<lambda>change. Inr (Option.bind change tc_lineage))"

definition reference_dependency_of :: "dependent_steps \<Rightarrow> migration \<Rightarrow> string \<Rightarrow> dependent_step list outcome" where
  "reference_dependency_of steps m tableId =
     try_bind (lineage_before (dp_draftLedger steps) m tableId) (\<lambda>meant.
     try_bind (lineage_before (dp_resulting steps) m tableId) (\<lambda>found.
       Inr (if meant = None \<or> found = meant then []
            else [\<lparr>ds_migration = m, ds_tableId = tableId,
                   ds_dependency = (if found = None then MissingId else AnotherTable)\<rparr>])))"

definition taken_id_dependency_of :: "dependent_steps \<Rightarrow> migration \<Rightarrow> string \<Rightarrow> dependent_step list outcome" where
  "taken_id_dependency_of steps m tableId =
     try_bind (lineage_before (dp_draftLedger steps) m tableId) (\<lambda>heldInDraft.
     try_bind (lineage_before (dp_resulting steps) m tableId) (\<lambda>held.
       Inr (if heldInDraft \<noteq> None \<or> held = None then []
            else [\<lparr>ds_migration = m, ds_tableId = tableId, ds_dependency = OccupiedId\<rparr>])))"

definition dependent_steps_of :: "dependent_steps \<Rightarrow> migration list \<Rightarrow> dependent_step list outcome" where
  "dependent_steps_of steps ledger =
     try_bind (map_try (\<lambda>m.
         try_bind (map_try (reference_dependency_of steps m) (references_of_step steps m)) (\<lambda>references.
         try_bind (map_try (taken_id_dependency_of steps m) (taken_table_ids_of m)) (\<lambda>taken.
           Inr (concat references @ concat taken)))) ledger) (\<lambda>found. Inr (concat found))"

subsection \<open>The check of dependent steps\<close>

definition pending_migration_owners_of :: "check_source \<Rightarrow> (string, string) jmap" where
  "pending_migration_owners_of source =
     (let owners = owners_by_version_id (ch_units (as_catalogue source)) StructureUnit
      in fold (\<lambda>entry m. case map_of owners (row_versionId (le_row entry)) of
             None \<Rightarrow> m | Some owner \<Rightarrow> AList.update (mig_id (le_migration entry)) owner m)
           (ledger_of (rr_draft (sy_migrations (sn_systemRows (as_snapshot source))))) [])"

definition lineages_by_step_of :: "replayed_ledger \<Rightarrow> (string, string) jmap" where
  "lineages_by_step_of replayed =
     jmap_of (concat (map (\<lambda>s. case slot_migrations (rsl_slot s) of
         [] \<Rightarrow> []
       | opening # rest \<Rightarrow> map (\<lambda>m. (mig_id m, mig_id opening)) (opening # rest)) (rl_slots replayed)))"

definition moves_pending_migrations :: "(string, string) jmap \<Rightarrow> applied_units \<Rightarrow> bool" where
  "moves_pending_migrations owners rules \<longleftrightarrow> list_ex (is_applied rules) (uniq (jvalues owners))"

fun migration_name :: "migration \<Rightarrow> string" where
  "migration_name m = ''the migration '' @ mig_id m @ '' of '' @ mig_table m"

definition id_occupied_of :: "dependent_step \<Rightarrow> string \<Rightarrow> reason" where
  "id_occupied_of step roleName =
     table_reason IdOccupied (ds_tableId step)
       (migration_name (ds_migration step) @ '' takes the table id '' @ ds_tableId step @ '', which the '' @ roleName @
        '' ledger already holds at that step'')"

definition which_is_referenced :: "table_id_dependency \<Rightarrow> string \<Rightarrow> string" where
  "which_is_referenced dependency roleName =
     (if dependency = AnotherTable then ''which is another table in the '' @ roleName @ '' ledger at that step''
      else ''which the '' @ roleName @ '' ledger does not hold at that step'')"

definition reference_of_step :: "dependent_step \<Rightarrow> string \<Rightarrow> required_reason_code \<Rightarrow> reason" where
  "reference_of_step step roleName code =
     table_reason code (mig_table (ds_migration step))
       (migration_name (ds_migration step) @ '' references the table '' @ ds_tableId step @ '', '' @
        which_is_referenced (ds_dependency step) roleName)"

definition reason_for :: "required_reason_code \<Rightarrow> dependent_step \<Rightarrow> string \<Rightarrow> reason" where
  "reason_for code step roleName =
     (if ds_dependency step = OccupiedId then id_occupied_of step roleName else reference_of_step step roleName code)"

definition provider_of_step :: "table_id_timeline \<Rightarrow> (string, string) jmap \<Rightarrow> dependent_step \<Rightarrow> string option outcome" where
  "provider_of_step draftLedger owners step =
     try_bind (last_change_before draftLedger (ds_migration step) (ds_tableId step)) (\<lambda>change.
       Inr (case change of None \<Rightarrow> None | Some c \<Rightarrow> map_of owners (mig_id (tc_migration c))))"

definition requirements_of ::
  "table_id_timeline \<Rightarrow> (string, string) jmap \<Rightarrow> dependent_step \<Rightarrow> string \<Rightarrow> applied_units \<Rightarrow> finding list outcome" where
  "requirements_of draftLedger owners step roleName rules =
     (case map_of owners (mig_id (ds_migration step)) of
        None \<Rightarrow> Inr []
      | Some stepUnit \<Rightarrow>
          if \<not> is_applied rules stepUnit then Inr [Requires stepUnit (reason_for ReferrerStillReferences step roleName)]
          else try_bind (provider_of_step draftLedger owners step) (\<lambda>provider.
            Inr (case provider of
              None \<Rightarrow> [] | Some key \<Rightarrow> [Requires key (reason_for ReferencedTableMissing step roleName)])))"

definition reported_dependent_steps_of ::
  "'st toolkit \<Rightarrow> (json \<Rightarrow> json \<Rightarrow> bool) \<Rightarrow> check_source \<Rightarrow> table_id_timeline \<Rightarrow> resulting_role \<Rightarrow> dependent_step list outcome" where
  "reported_dependent_steps_of tk equal source draftLedger role =
     (let replayed = replay_ledger tk (lr_ledger role) [] False
      in try_bind (table_id_timeline (lr_ledger role)) (\<lambda>resulting.
         try_bind (dependent_steps_of \<lparr>dp_draftLedger = draftLedger, dp_resulting = resulting,
             dp_reads = read_table_ids_by_step replayed\<rparr> (lr_ledger role)) (\<lambda>steps.
         try_bind (source_inconsistencies equal (as_snapshot source) (source_replays tk (as_snapshot source))) (\<lambda>si.
         try_bind (new_inconsistencies_of equal si role replayed) (\<lambda>found.
           Inr (filter (\<lambda>step. case map_of (lineages_by_step_of replayed) (mig_id (ds_migration step)) of
               None \<Rightarrow> False | Some lineage \<Rightarrow> lineage \<in> set (map ci_lineage found)) steps))))))"

definition ledger_dependency_checks ::
  "'st toolkit \<Rightarrow> (json \<Rightarrow> json \<Rightarrow> bool) \<Rightarrow> check_context \<Rightarrow> finding list outcome" where
  "ledger_dependency_checks tk equal context =
     (let source = cx_source context; owners = pending_migration_owners_of source
      in try_bind (table_id_timeline (lr_ledger (source_role_of (as_snapshot source) DraftSide))) (\<lambda>draftLedger.
           if \<not> moves_pending_migrations owners (cx_choice context) then Inr []
           else try_bind (map_try (\<lambda>role.
               try_bind (reported_dependent_steps_of tk equal source draftLedger role) (\<lambda>steps.
               try_bind (map_try (\<lambda>step. requirements_of draftLedger owners step (lr_name role) (cx_choice context)) steps)
                 (\<lambda>found. Inr (concat found))))
             (resulting_roles_of (assembly_source.truncate source) (cx_choice context) (at_ledger (cx_target context))))
             (\<lambda>found. Inr (concat found))))"

subsection \<open>All checks\<close>

record check_parameters =
  cp_views :: views_validation
  cp_schemas :: schema_reading
  cp_reader :: reference_reader

definition target_checks_in_spec_order ::
  "'st toolkit \<Rightarrow> (json \<Rightarrow> json \<Rightarrow> bool) \<Rightarrow> check_parameters \<Rightarrow> (check_context \<Rightarrow> finding list outcome) list" where
  "target_checks_in_spec_order tk equal p =
     [\<lambda>context. Inr (table_id_collisions context),
      table_references (cp_schemas p),
      views_against_structure (cp_views p),
      wholesale_row_references (cp_schemas p) (cp_reader p),
      ledger_dependency_checks tk equal,
      \<lambda>context. Inr (row_id_collisions context),
      dangling_row_references (cp_schemas p) (cp_reader p),
      unchanged_referrers_of_lost_ids (cp_schemas p) (cp_reader p)]"

end
