(* ===== verification/Closing_Ends.thy ===== *)
theory Closing_Ends
  imports Target_Checks
begin

section \<open>Closing with all checks ends\<close>

text \<open>
  Every check of a target only ever requires units the source knows: units of its tables, units that its changed rows
  mention, and the units of its pending migrations. There are finitely many of them, so a closure that runs the checks
  of \<^verbatim>\<open>target-checks.ts\<close> ends.
\<close>

definition table_units_known :: "check_source \<Rightarrow> string set" where
  "table_units_known source =
     ca_key ` (\<Union>entry \<in> set (lk_tableLevelUnits (ch_lookup (as_catalogue source))). set (snd entry))"

definition catalogue_rows_known :: "check_source \<Rightarrow> catalogue_row set" where
  "catalogue_rows_known source = (\<Union>entry \<in> set (ch_rows (as_catalogue source)). set (snd entry))"

definition row_units_known :: "check_source \<Rightarrow> string set" where
  "row_units_known source = (\<Union>row \<in> catalogue_rows_known source. set (row_unit_keys row))"

definition units_known :: "check_source \<Rightarrow> string set" where
  "units_known source = table_units_known source \<union> row_units_known source \<union> set (jvalues (pending_migration_owners_of source))"

definition requires_known :: "check_source \<Rightarrow> finding list \<Rightarrow> bool" where
  "requires_known source findings \<longleftrightarrow> (\<forall>key why. Requires key why \<in> set findings \<longrightarrow> key \<in> units_known source)"

lemma finite_units_known: "finite (units_known source)"
  by (simp add: units_known_def table_units_known_def row_units_known_def catalogue_rows_known_def)

lemma requires_known_append:
  "requires_known source xs \<Longrightarrow> requires_known source ys \<Longrightarrow> requires_known source (xs @ ys)"
  "requires_known source []"
  by (auto simp: requires_known_def)

lemma requires_known_concat:
  "(\<And>fs. fs \<in> set fss \<Longrightarrow> requires_known source fs) \<Longrightarrow> requires_known source (concat fss)"
  by (fastforce simp: requires_known_def)

lemma requires_known_map:
  "(\<And>x. x \<in> set xs \<Longrightarrow> requires_known source [f x]) \<Longrightarrow> requires_known source (map f xs)"
  by (fastforce simp: requires_known_def)

text \<open>What each element of a list yields, put together.\<close>

lemma map_try_known:
  assumes "map_try f xs = Inr fss" "\<And>x fs. x \<in> set xs \<Longrightarrow> f x = Inr fs \<Longrightarrow> requires_known source fs"
  shows "requires_known source (concat fss)"
proof (rule requires_known_concat)
  fix fs assume "fs \<in> set fss"
  with list_all2_second [OF assms(1) [unfolded map_try_Inr_iff]] assms(2) show "requires_known source fs" by blast
qed

lemma map_try_each_known:
  assumes "map_try f xs = Inr fs" "\<And>x y. x \<in> set xs \<Longrightarrow> f x = Inr y \<Longrightarrow> requires_known source [y]"
  shows "requires_known source fs"
proof -
  have "requires_known source [y]" if "y \<in> set fs" for y
    using list_all2_second [OF assms(1) [unfolded map_try_Inr_iff] that] assms(2) by blast
  then have "requires_known source (map id fs)" by (intro requires_known_map) simp
  then show ?thesis by simp
qed

lemma map_try_concat_mem:
  assumes "map_try f xs = Inr fss" "y \<in> set (concat fss)"
  obtains x fs where "x \<in> set xs" "f x = Inr fs" "y \<in> set fs"
proof -
  obtain fs where "fs \<in> set fss" "y \<in> set fs" using assms(2) by auto
  with list_all2_second [OF assms(1) [unfolded map_try_Inr_iff]] that show ?thesis by blast
qed

lemma requires_known_Cons:
  "requires_known source [Requires key why] \<longleftrightarrow> key \<in> units_known source" "requires_known source [Blocks b]"
  "requires_known source [refused_by refusal]"
  by (auto simp: requires_known_def refused_by_def)

lemma requiring_or_dangling_known:
  "(\<And>key. unit = Some key \<Longrightarrow> key \<in> units_known source) \<Longrightarrow> requires_known source [requiring_or_dangling unit why culprit]"
  by (cases unit) (simp_all add: requiring_or_dangling_def requires_known_Cons)

subsection \<open>Keys that are known\<close>

lemma table_unit_known:
  "table_unit_of (ch_lookup (as_catalogue source)) kind pair = Some u \<Longrightarrow> ca_key u \<in> units_known source"
  by (auto simp: table_unit_of_def units_under_def units_known_def table_units_known_def find_Some_iff image_iff
      split: option.splits dest!: map_of_SomeD) force

lemma structure_key_known:
  "cx_source context = source \<Longrightarrow> structure_key_of context pair = Some key \<Longrightarrow> key \<in> units_known source"
  by (auto simp: structure_key_of_def table_unit_known)

lemma id_unit_known: "row \<in> catalogue_rows_known source \<Longrightarrow> id_unit_of row = Some key \<Longrightarrow> key \<in> units_known source"
proof -
  assume "row \<in> catalogue_rows_known source" "id_unit_of row = Some key"
  then have "key \<in> set (row_unit_keys row)"
    by (auto simp: id_unit_of_def row_unit_keys_def split: option.splits dest!: map_of_SomeD) force
  with \<open>row \<in> catalogue_rows_known source\<close> show ?thesis by (auto simp: units_known_def row_units_known_def)
qed

lemma catalogue_rows_by_id_mem:
  "map_of (catalogue_rows_by_id rows side) i = Some row \<Longrightarrow> row \<in> set rows"
proof -
  have "map_of (fold (\<lambda>row byId. case row_on_side side (cr_pair row) of
         None \<Rightarrow> byId | Some version \<Rightarrow> AList.update (row_id version) row byId) rows m) i = Some row \<Longrightarrow>
      row \<in> set rows \<or> map_of m i = Some row" for m
  proof (induction rows arbitrary: m)
    case (Cons r rows)
    from Cons.IH [OF Cons.prems [simplified]] show ?case
      by (auto simp: jmap_simps split: option.splits if_splits)
  qed simp
  then show "map_of (catalogue_rows_by_id rows side) i = Some row \<Longrightarrow> row \<in> set rows"
    by (fastforce simp: catalogue_rows_by_id_def)
qed

definition rows_known :: "check_source \<Rightarrow> target_table \<Rightarrow> bool" where
  "rows_known source t \<longleftrightarrow> set (tt_loaded t) \<subseteq> catalogue_rows_known source \<and>
     hl_row ` set (tt_heldRows t) \<subseteq> catalogue_rows_known source \<and>
     (\<forall>i row. map_of (tt_byOtherId t) i = Some row \<longrightarrow> row \<in> catalogue_rows_known source) \<and>
     (\<forall>i rows. (i, rows) \<in> set (tt_holdersById t) \<longrightarrow> set rows \<subseteq> set (tt_heldRows t))"

lemma context_rows_known:
  assumes "check_context source target choice = Inr context" "t \<in> set (ta_all (cx_tables context))"
  shows "rows_known source t"
proof -
  have "target_tables source target choice = Inr (cx_tables context)" using assms(1) by (auto simp: check_context_def)
  then obtain pair found where found: "target_tables_of_pair source target choice pair = Inr found" "t \<in> set found"
    using assms(2) by (rule target_tables_facts)
  define loaded where "loaded = (case map_of (ch_rows (as_catalogue source)) (tp_identity pair) of None \<Rightarrow> [] | Some rows \<Rightarrow> rows)"
  obtain plan side where t: "tt_loaded t = loaded" "held_rows_of plan loaded side = Inr (tt_heldRows t)"
    "tt_byOtherId t = catalogue_rows_by_id loaded (opposite_of (tt_baseSide t))" "tt_holdersById t = file_under hl_id (tt_heldRows t)"
    using found by (auto simp: target_tables_of_pair_def target_table_def loaded_def Let_def split: if_splits)
  have known: "set loaded \<subseteq> catalogue_rows_known source"
  proof (cases "map_of (ch_rows (as_catalogue source)) (tp_identity pair)")
    case (Some rows)
    then show ?thesis by (auto simp: loaded_def catalogue_rows_known_def intro!: bexI [OF _ map_of_SomeD])
  qed (simp add: loaded_def)
  obtain helds where helds: "tt_heldRows t = concat helds"
    "list_all2 (\<lambda>row hs. held_row_of (jmap_of (map (\<lambda>row. (rp_identity (cr_pair row), row)) loaded)) side row = Inr hs)
       (case plan of None \<Rightarrow> [] | Some p \<Rightarrow> pl_rows p) helds" by (rule held_rows_run [OF t(2)])
  have "hl_row h \<in> set loaded" if h: "h \<in> set (tt_heldRows t)" for h
  proof -
    obtain hs where "hs \<in> set helds" "h \<in> set hs" using h helds(1) by auto
    then obtain row where "held_row_of (jmap_of (map (\<lambda>row. (rp_identity (cr_pair row), row)) loaded)) side row = Inr hs"
      using list_all2_second [OF helds(2)] by blast
    from held_row_of_facts(2) [OF this \<open>h \<in> set hs\<close>] row_of_identity show ?thesis by blast
  qed
  then have "hl_row ` set (tt_heldRows t) \<subseteq> catalogue_rows_known source" using known by blast
  moreover have "\<forall>i row. map_of (tt_byOtherId t) i = Some row \<longrightarrow> row \<in> catalogue_rows_known source"
    unfolding t(3) using catalogue_rows_by_id_mem known by blast
  moreover have "\<forall>i rows. (i, rows) \<in> set (tt_holdersById t) \<longrightarrow> set rows \<subseteq> set (tt_heldRows t)"
    unfolding t(4) by (auto simp: file_under_mem)
  ultimately show ?thesis using known t(1) by (simp add: rows_known_def)
qed

lemma provider_known:
  assumes "rows_known source t" "provider_of t i = Some key"
  shows "key \<in> units_known source"
proof -
  obtain row where "map_of (tt_byOtherId t) i = Some row" "id_unit_of row = Some key"
    using assms(2) by (auto simp: provider_of_def split: option.splits if_splits)
  with assms(1) show ?thesis unfolding rows_known_def by (blast intro: id_unit_known)
qed

lemma unapplied_structure_known:
  "cx_source context = source \<Longrightarrow> unapplied_structure_holding context referrer p = Some key \<Longrightarrow> key \<in> units_known source"
  by (auto simp: unapplied_structure_holding_def split: option.splits if_splits intro: structure_key_known)

lemma referenced_known:
  assumes "check_context source target choice = Inr context" "referenced_by (cx_tables context) referrer tableId = Some t"
  shows "rows_known source t"
proof -
  have "map_of (ta_byTableId (cx_tables context)) tableId = Some t"
    using assms(2) by (auto simp: referenced_by_def table_named_def Let_def split: option.splits if_splits)
  moreover have "ta_byTableId (cx_tables context) = jmap_of (map (\<lambda>t. (tt_tableId t, t)) (ta_all (cx_tables context)))"
    using assms(1) by (auto simp: check_context_def target_tables_def Let_def)
  ultimately have "t \<in> set (ta_all (cx_tables context))" by (auto simp: map_of_jmap_of dest!: map_of_SomeD)
  then show ?thesis by (rule context_rows_known [OF assms(1)])
qed

subsection \<open>The checks\<close>

lemma table_id_collisions_known:
  "cx_source context = source \<Longrightarrow> requires_known source (table_id_collisions context)"
  unfolding table_id_collisions_def
proof (intro requires_known_concat)
  fix fs
  assume source: "cx_source context = source"
  assume "fs \<in> set (map (\<lambda>holders. map (move_from_occupied_table_id context) (filter (keeps_base_table_id context) holders))
     (filter (\<lambda>holders. 1 < length holders) (jvalues (file_under tt_tableId (ta_all (cx_tables context))))))"
  moreover have "requires_known source [move_from_occupied_table_id context t]" for t
    by (auto simp: move_from_occupied_table_id_def requires_known_Cons split: option.splits
        intro!: requiring_or_dangling_known structure_key_known [OF source])
  ultimately show "requires_known source fs" by (auto intro: requires_known_map)
qed

lemma row_id_collisions_known:
  assumes "check_context source target choice = Inr context"
  shows "requires_known source (row_id_collisions context)"
  unfolding row_id_collisions_def
proof (intro requires_known_concat)
  fix fs
  assume "fs \<in> set (map (\<lambda>t. concat (map (\<lambda>(i, rows). map (\<lambda>held. move_from_occupied_row_id context t (hl_row held) i)
       (filter (\<lambda>held. keeps_base_row_id context (hl_row held) i) rows)) (collisions t))) (ta_all (cx_tables context)))"
  then obtain t where t: "t \<in> set (ta_all (cx_tables context))" "fs = concat (map (\<lambda>(i, rows).
      map (\<lambda>held. move_from_occupied_row_id context t (hl_row held) i)
        (filter (\<lambda>held. keeps_base_row_id context (hl_row held) i) rows)) (collisions t))" by auto
  note rows = context_rows_known [OF assms t(1)]
  have "requires_known source [move_from_occupied_row_id context t (hl_row held) i]"
    if "(i, holders) \<in> set (collisions t)" "held \<in> set holders" for i holders held
  proof -
    have "(i, holders) \<in> set (tt_holdersById t)" using that(1) by (auto simp: collisions_def)
    then have "hl_row held \<in> catalogue_rows_known source" using rows that(2) unfolding rows_known_def by blast
    then show ?thesis
      unfolding move_from_occupied_row_id_def by (intro requiring_or_dangling_known) (rule id_unit_known)
  qed
  then show "requires_known source fs"
    unfolding t(2) by (intro requires_known_concat) (auto intro!: requires_known_map)
qed

lemma table_references_known:
  assumes "cx_source context = source" "table_references sx context = Inr findings"
  shows "requires_known source findings"
proof -
  have "requires_known source [restore_table_reference context referrer tableId]" for referrer tableId
    using structure_key_known [OF assms(1)]
    by (auto simp: restore_table_reference_def Let_def requires_known_Cons unapplied_structure_meant_by_def bind_eq_Some_conv
        split: option.splits if_splits)
  then have each: "requires_known source (map (restore_table_reference context referrer) tableIds)" for referrer tableIds
    by (intro requires_known_map)
  from assms(2) show ?thesis
    unfolding table_references_def try_bind_Inr_iff
    by (elim exE conjE) (auto intro!: map_try_known each simp flip: sum.inject(2))
qed

lemma views_against_structure_known:
  assumes "cx_source context = source" "views_against_structure vv context = Inr findings"
  shows "requires_known source findings"
proof -
  have unit: "key \<in> units_known source" if "unapplied_table_unit_of context pair = Some key" for pair key
    using that structure_key_known [OF assms(1)] assms(1) table_unit_known
    by (auto simp: unapplied_table_unit_of_def table_unit_keys_of_def find_Some_iff nth_append split: option.splits if_splits)
  obtain without misfitting where parts: "map_try (keep_views_with_table context)
      (filter (\<lambda>pair. \<not> contains_pair (cx_tables context) pair) (sn_tables (as_snapshot (cx_source context)))) = Inr without"
    "views_not_fitting_structure vv context = Inr misfitting" "findings = concat without @ misfitting"
    using assms(2) by (auto simp: views_against_structure_def)
  have "requires_known source (concat without)"
    by (rule map_try_known [OF parts(1)])
      (auto simp: keep_views_with_table_def Let_def split: option.splits if_splits
        intro!: requiring_or_dangling_known requires_known_append unit)
  moreover have "requires_known source [fit_views context views]" for views
    using unit by (auto simp: fit_views_def Let_def requires_known_Cons split: option.splits)
  then have "requires_known source misfitting"
    using parts(2) unfolding views_not_fitting_structure_def
    by (auto elim!: map_try_known split: if_splits intro: requires_known_append)
  ultimately show ?thesis unfolding parts(3) by (rule requires_known_append)
qed

lemma referenced_row_finding_known:
  "rows_known source (rf_referenced ref) \<Longrightarrow> requires_known source [referenced_row_finding ref names culprit]"
  by (auto simp: referenced_row_finding_def requires_known_Cons split: option.splits intro: provider_known)

lemma wholesale_row_references_known:
  assumes "check_context source target choice = Inr context" "wholesale_row_references sx db context = Inr findings"
  shows "requires_known source findings"
proof -
  obtain scans where scans: "wholesale_rows_scans sx context = Inr scans"
    using assms(2) by (auto simp: wholesale_row_references_def)
  have known: "rows_known source (ws_referenced scan)" if scan: "scan \<in> set scans" for scan
  proof -
    obtain perTable where tables: "map_try (\<lambda>referrer. try_bind (referenced_tables_of sx (tt_version referrer)) (\<lambda>tableIds.
         try_bind (map_try (scans_of sx context referrer) tableIds) (\<lambda>scans. Inr (concat scans))))
         (filter takes_other_side_structure (ta_all (cx_tables context))) = Inr perTable" "scans = concat perTable"
      using scans by (auto simp: wholesale_rows_scans_def)
    obtain referrer where "\<exists>one. try_bind (referenced_tables_of sx (tt_version referrer)) (\<lambda>tableIds.
         try_bind (map_try (scans_of sx context referrer) tableIds) (\<lambda>scans. Inr (concat scans))) = Inr one \<and> scan \<in> set one"
      using map_try_concat_mem [OF tables(1) scan [unfolded tables(2)]] by metis
    then obtain tableIds each where each: "map_try (scans_of sx context referrer) tableIds = Inr each" "scan \<in> set (concat each)" by auto
    obtain tableId some where "scans_of sx context referrer tableId = Inr some" "scan \<in> set some"
      using map_try_concat_mem [OF each] by metis
    then have "referenced_by (cx_tables context) referrer tableId = Some (ws_referenced scan)"
      by (auto simp: scans_of_def split: option.splits)
    then show ?thesis by (rule referenced_known [OF assms(1)])
  qed
  have "requires_known source [bring_referenced_row context scan referencedId rowId]" if "scan \<in> set scans" for scan referencedId rowId
    unfolding bring_referenced_row_def by (rule referenced_row_finding_known) (simp add: known [OF that])
  then have "requires_known source (map (\<lambda>f. bring_referenced_row context scan (ff_referencedId f) (ff_rowId f)) found)"
    if "scan \<in> set scans" for scan found using that by (intro requires_known_map)
  then show ?thesis
    using assms(2) scans unfolding wholesale_row_references_def by (auto elim!: map_try_known)
qed

lemma requirements_known:
  assumes "requirements_of line (pending_migration_owners_of source) step name rules = Inr findings"
  shows "requires_known source findings"
proof -
  have owned: "key \<in> units_known source" if "map_of (pending_migration_owners_of source) m = Some key" for m key
    using map_of_SomeD [OF that] by (force simp: units_known_def)
  show ?thesis
    using assms owned by (auto simp: requirements_of_def provider_of_step_def requires_known_Cons requires_known_append(2) split: option.splits if_splits)
qed

lemma ledger_dependency_checks_known:
  assumes "cx_source context = source" "ledger_dependency_checks tk equal context = Inr findings"
  shows "requires_known source findings"
proof (cases "moves_pending_migrations (pending_migration_owners_of source) (cx_choice context)")
  case True
  obtain draftLedger found where found: "map_try (\<lambda>role.
       try_bind (reported_dependent_steps_of tk equal source draftLedger role) (\<lambda>steps.
       try_bind (map_try (\<lambda>step. requirements_of draftLedger (pending_migration_owners_of source) step (lr_name role)
           (cx_choice context)) steps) (\<lambda>found. Inr (concat found))))
     (resulting_roles_of (assembly_source.truncate source) (cx_choice context) (at_ledger (cx_target context))) = Inr found"
    "findings = concat found"
    using assms True by (auto simp: ledger_dependency_checks_def Let_def)
  show ?thesis
    unfolding found(2) by (rule map_try_known [OF found(1)]) (auto intro: map_try_known requirements_known)
qed (use assms in \<open>auto simp: ledger_dependency_checks_def Let_def requires_known_append\<close>)

lemma covering_known:
  assumes "row \<in> catalogue_rows_known source" "covering_of row path = Inr (Some c)"
  shows "cv_unitKey c \<in> units_known source"
proof -
  have "covering_leaf leaves path = Inr (Some c) \<Longrightarrow> cv_unitKey c \<in> snd ` set leaves" for leaves
    by (induction leaves path rule: covering_leaf.induct) (auto split: if_splits)
  with assms(2) have "cv_unitKey c \<in> set (row_unit_keys row)"
    by (fastforce simp: covering_of_def row_unit_keys_def split: option.splits)
  with assms(1) show ?thesis by (auto simp: units_known_def row_units_known_def)
qed

text \<open>A reference that a held row makes: both its referrer and what it refers to are tables of the target.\<close>

definition reference_known :: "check_source \<Rightarrow> held_reference \<Rightarrow> bool" where
  "reference_known source ref \<longleftrightarrow>
     hl_row (he_held ref) \<in> catalogue_rows_known source \<and> rows_known source (rf_referenced ref)"

lemma references_from_known:
  assumes "check_context source target choice = Inr context" "t \<in> set (ta_all (cx_tables context))"
    "references_from sx context t = Inr refs" "ref \<in> set refs"
  shows "reference_known source ref"
proof -
  obtain schema found where found: "map_try (\<lambda>held. try_bind
       (map_try (held_reference_of context t held) (foreign_key_references schema (hl_data held)))
       (\<lambda>refs. Inr (concat refs))) (tt_heldRows t) = Inr found" "ref \<in> set (concat found)"
    using assms(3,4) by (auto simp: references_from_def split: if_splits)
  obtain held where held: "held \<in> set (tt_heldRows t)" "\<exists>refs. try_bind
       (map_try (held_reference_of context t held) (foreign_key_references schema (hl_data held)))
       (\<lambda>refs. Inr (concat refs)) = Inr refs \<and> ref \<in> set refs"
    using map_try_concat_mem [OF found] by metis
  then obtain each where each: "map_try (held_reference_of context t held) (foreign_key_references schema (hl_data held)) = Inr each"
    "ref \<in> set (concat each)" by auto
  obtain fk one where "held_reference_of context t held fk = Inr one" "ref \<in> set one"
    using map_try_concat_mem [OF each] by metis
  then have ref: "he_held ref = held" "referenced_by (cx_tables context) t (fk_tableId fk) = Some (rf_referenced ref)"
    by (auto simp: held_reference_of_def split: option.splits)
  have "rows_known source t" by (rule context_rows_known [OF assms(1,2)])
  with held(1) have "hl_row held \<in> catalogue_rows_known source" unfolding rows_known_def by blast
  with referenced_known [OF assms(1) ref(2)] ref(1) show ?thesis by (simp add: reference_known_def)
qed

lemma restore_row_reference_known:
  assumes "cx_source context = source" "reference_known source ref" "restore_row_reference sx context ref = Inr found"
  shows "requires_known source [found]"
proof -
  note known = assms(2) [unfolded reference_known_def]
  have referenced: "requires_known source [referenced_row_finding ref names culprit]" for names culprit
    using referenced_row_finding_known known by blast
  obtain covering where covering: "covering_of (hl_row (he_held ref)) (he_pointer ref) = Inr covering"
    using assms(3) by (auto simp: restore_row_reference_def Let_def)
  show ?thesis
    using assms(3) covering unapplied_structure_known [OF assms(1)] covering_known [OF known [THEN conjunct1]] referenced
    unfolding restore_row_reference_def Let_def
    by (auto simp: requires_known_Cons split: option.splits if_splits)
qed

lemma dangling_row_references_known:
  assumes "check_context source target choice = Inr context" "dangling_row_references sx db context = Inr findings"
  shows "requires_known source findings"
proof -
  obtain refs missing where found: "map_try (references_from sx context) (ta_all (cx_tables context)) = Inr refs"
    "missing_among db (concat refs) = Inr missing" "map_try (restore_row_reference sx context) missing = Inr findings"
    using assms(2) by (auto simp: dangling_row_references_def)
  have source: "cx_source context = source" using assms(1) by (auto simp: check_context_def)
  have "reference_known source ref" if "ref \<in> set missing" for ref
  proof -
    have "ref \<in> set (concat refs)" using found(2) that by (auto simp: missing_among_def Let_def)
    then show ?thesis using map_try_concat_mem [OF found(1)] references_from_known [OF assms(1)] by metis
  qed
  then show ?thesis by (intro map_try_each_known [OF found(3)] restore_row_reference_known [OF source])
qed

lemma unchanged_referrers_known:
  assumes "check_context source target choice = Inr context" "unchanged_referrers_of_lost_ids sx db context = Inr findings"
  shows "requires_known source findings"
proof -
  obtain scans found where found: "referrer_scans sx context = Inr scans"
    "map_try (\<lambda>scan. try_bind (referrers_of db (sc_referrer scan) (fl_jsonPath (sc_leaf scan)) (sc_losing scan)) (\<lambda>referrers.
         Inr (concat (map (\<lambda>lostId. case map_of referrers lostId of
             None \<Rightarrow> [] | Some rowId \<Rightarrow> [restore_lost_id context scan lostId rowId]) (sc_lostIds scan))))) scans = Inr found"
    "findings = concat found"
    using assms(2) by (auto simp: unchanged_referrers_of_lost_ids_def)
  have source: "cx_source context = source" using assms(1) by (auto simp: check_context_def)
  have losing: "rows_known source (sc_losing scan)" if scan: "scan \<in> set scans" for scan
  proof -
    obtain perTable where perTable: "map_try (\<lambda>losing.
           let lostIds = js_sort compare_code_points (lost_ids losing)
           in if length lostIds = 0 then Inr []
              else try_bind (map_try (\<lambda>referrer.
                  try_bind (foreign_key_leaves_of sx (tt_version referrer) (tt_tableId losing)) (\<lambda>leaves.
                    Inr (map (\<lambda>leaf. \<lparr>sc_losing = losing, sc_lostIds = lostIds, sc_referrer = referrer, sc_leaf = leaf\<rparr>) leaves)))
                (filter (\<lambda>referrer. references_losing context referrer losing)
                   (filter (\<lambda>t. \<not> is_brought_wholesale t) (ta_all (cx_tables context))))) (\<lambda>scans. Inr (concat scans)))
         (ta_all (cx_tables context)) = Inr perTable" "scan \<in> set (concat perTable)"
      using found(1) scan by (auto simp: referrer_scans_def Let_def)
    show ?thesis
    proof (rule map_try_concat_mem [OF perTable])
      fix t fs
      assume t: "t \<in> set (ta_all (cx_tables context))"
      assume "(let lostIds = js_sort compare_code_points (lost_ids t)
           in if length lostIds = 0 then Inr []
              else try_bind (map_try (\<lambda>referrer.
                  try_bind (foreign_key_leaves_of sx (tt_version referrer) (tt_tableId t)) (\<lambda>leaves.
                    Inr (map (\<lambda>leaf. \<lparr>sc_losing = t, sc_lostIds = lostIds, sc_referrer = referrer, sc_leaf = leaf\<rparr>) leaves)))
                (filter (\<lambda>referrer. references_losing context referrer t)
                   (filter (\<lambda>t. \<not> is_brought_wholesale t) (ta_all (cx_tables context))))) (\<lambda>scans. Inr (concat scans))) =
          Inr fs" "scan \<in> set fs"
      then have "sc_losing scan = t"
        by (auto simp: Let_def split: if_splits elim!: map_try_concat_mem)
      with context_rows_known [OF assms(1) t] show ?thesis by simp
    qed
  qed
  have "requires_known source [restore_lost_id context scan lostId rowId]" if "scan \<in> set scans" for scan lostId rowId
    unfolding restore_lost_id_def Let_def
    by (auto simp: requires_known_Cons split: option.splits intro: unapplied_structure_known [OF source]
        intro!: requiring_or_dangling_known dest: provider_known [OF losing [OF that]])
  then show ?thesis
    unfolding found(3) by (intro map_try_known [OF found(2)]) (auto intro!: requires_known_concat simp: requires_known_append(2) split: option.splits)
qed

subsection \<open>Closing with the checks\<close>

lemma target_checks_known:
  assumes "check_context source target choice = Inr context" "check \<in> set (target_checks_in_spec_order tk equal p)"
    "check context = Inr findings"
  shows "requires_known source findings"
proof -
  have source: "cx_source context = source" using assms(1) by (auto simp: check_context_def)
  from assms(2,3) show ?thesis
    by (auto simp: target_checks_in_spec_order_def intro: table_id_collisions_known [OF source] row_id_collisions_known [OF assms(1)]
        table_references_known [OF source] views_against_structure_known [OF source] wholesale_row_references_known [OF assms(1)]
        ledger_dependency_checks_known [OF source] dangling_row_references_known [OF assms(1)] unchanged_referrers_known [OF assms(1)])
qed

text \<open>
  Claim C6: closing a selection with the checks of the program ends, whatever the estimation, the assembly and the
  readers answer: every round but the last one applies a unit that the source knows and that was not applied
  before, so the rounds are no more than these units.
\<close>

theorem closing_with_target_checks_ends:
  assumes "gp_checks steps = target_checks_in_spec_order tk equal p"
  shows "\<exists>y. close_selection ids deq steps source request = Some y"
proof (rule closing_a_selection_ends [OF finite_units_known [of "check_source.truncate source"]])
  fix target choice findings key why
  assume run: "findings_on steps source target choice = Inr findings" and key: "Requires key why \<in> set findings"
  obtain checked found where found: "check_context (check_source.truncate source) target choice = Inr checked"
    "map_try (\<lambda>check. check checked) (gp_checks steps) = Inr found" "findings = concat found"
    using run by (auto simp: findings_on_def)
  have "requires_known (check_source.truncate source) findings"
    unfolding found(3) by (rule map_try_known [OF found(2)]) (use assms target_checks_known [OF found(1)] in auto)
  with key show "key \<in> units_known (check_source.truncate source)" by (auto simp: requires_known_def)
qed

text \<open>The selection of the table that takes over an id, closed with all checks.\<close>

definition example_check_parameters :: check_parameters where
  "example_check_parameters =
     \<lparr>cp_views = \<lparr>vv_acceptsShape = \<lambda>_. Inr True, vv_schemaOf = \<lambda>_ _. SchemaRead (JObj []), vv_fieldPaths = \<lambda>_. []\<rparr>,
      cp_schemas = example_schema_reading, cp_reader = example_reference_reader\<rparr>"

definition example_all_steps :: closure_steps where
  "example_all_steps = example_steps\<lparr>gp_checks := target_checks_in_spec_order root_toolkit (=) example_check_parameters\<rparr>"

definition example_closing_result :: "closure_result outcome option" where
  "example_closing_result = close_selection example_ids (=) example_all_steps example_closure_source example_closure_request"

theorem closing_with_target_checks_ends_witness: "\<exists>y. example_closing_result = Some y"
  unfolding example_closing_result_def
  by (rule closing_with_target_checks_ends [of _ root_toolkit "(=)" example_check_parameters]) (simp add: example_all_steps_def)

end
