(* ===== verification/Spec2Isabelle.thy ===== *)
theory Spec2Isabelle
  imports Replay_Results Read_Scope Closing_Ends
begin

text \<open>
  A verification development for revisium-engine, a versioned headless CMS engine. A project has a published revision,
  Head, and a working one, the Draft; a revision is a set of versions of tables, and each of them a set of versions of rows.
  The schema of a table, its history and the migrations that led to it are rows of system tables. The
  development models the part of the engine that commits or reverts a chosen part of the Draft
  (\<^verbatim>\<open>src/features/partial-changes\<close>) with what it shares with the rest (\<^verbatim>\<open>src/features/share\<close>: migration ledgers and
  their replay, the migration of views, identifiers, comparisons). File names below are relative to
  \<^verbatim>\<open>src/features/partial-changes\<close> unless they start with \<^verbatim>\<open>share\<close> or \<^verbatim>\<open>views\<close>.

  How the parts interact. The ledgers of Head and Draft are traced and replayed, which attributes pending migrations to
  tables and says which tables have a history that can be trusted. Tables and rows of the two revisions are paired by identity and
  compared: the structure of a table leaf by leaf, rows field by field. The differences are gathered into units of change, the catalogue. A
  client lists the catalogue page by page and selects units. A selection is resolved and closed: the target of the
  operation is assembled from the units applied so far, checks run on it, and a unit that a check requires is added for another
  round, until nothing can be added. What remains is a target to be written, with the blockers that forbid it.

  \<^bold>\<open>The ledger.\<close>
  \<^item> \<open>Data_Model\<close>, \<open>Schema_Rules\<close>: JSON values, migrations, rows, and \<^verbatim>\<open>share/ledger-replay/native-schema-rules.ts\<close>.
  \<^item> \<open>Table_Slots\<close> (\<^verbatim>\<open>share/ledger-replay/table-slots.ts\<close>): the state is a list of slots with a map from table ids to
    positions. A trace records every migration once, its live ids are those of an abstract set machine, and a lineage is broken
    exactly by an inadmissible step.
  \<^item> \<open>Ledger\<close> (\<^verbatim>\<open>share/ledger\<close>, \<^verbatim>\<open>snapshot/ledger-attribution.ts\<close>): attribution partitions the pending entries, and
    the transient groups are the connected components of all the slots they are made of.
  \<^item> \<open>Ledger_Replay\<close>, \<open>Replay_Results\<close> (\<^verbatim>\<open>share/ledger-replay/ledger-replay.ts\<close>, \<^verbatim>\<open>slot-check.ts\<close>): a replay moves ids
    as the trace does, whatever fails, and judges every ledgered table exactly once.
  \<^item> \<open>Table_Timeline\<close> (\<^verbatim>\<open>closure/table-id-timeline.ts\<close>): the binary search finds who held an id before a step.
  \<^item> \<open>Ledger_Consistency\<close> (\<^verbatim>\<open>validation/ledger-roles.ts\<close>, \<^verbatim>\<open>ledger-consistency.ts\<close>): an operation that applies nothing
    and keeps the ledgers is not blocked for what is inconsistent already.

  \<^bold>\<open>The comparison.\<close>
  \<^item> \<open>Code_Points\<close>, \<open>Identifiers\<close> (\<^verbatim>\<open>share/utils\<close>): the order of UTF-16 texts is that of their code points; formats of ids.
  \<^item> \<open>Json_Pointers\<close>, \<open>Schema_Leaves\<close>, \<open>Leaf_Origins\<close>, \<open>Table_Structures\<close> (\<^verbatim>\<open>structure\<close>): leaves of schemas,
    where they come from through patches, as a store of values at pointers says it, and the changed and unchanged leaves of a
    table, which partition both sides.
  \<^item> \<open>Head_Schema\<close> (\<^verbatim>\<open>snapshot\<close>, \<^verbatim>\<open>head-schema\<close>): pairs of tables and the tables an operation refuses.
  \<^item> \<open>Views\<close> (\<^verbatim>\<open>share/views-migration.service.ts\<close>, \<^verbatim>\<open>views\<close>): views of top-level fields that are migrated through patches
    of top-level fields stay valid; patches of nested fields leave their mentions as they are, and then they do not.

  \<^bold>\<open>Units, their listing and their selection.\<close>
  \<^item> \<open>Units\<close>, \<open>Public_Ids\<close>, \<open>Row_Units\<close>, \<open>Table_Units\<close>, \<open>Catalogue_Lookup\<close>, \<open>Change_Catalogue\<close> (\<^verbatim>\<open>catalogue\<close>): each difference
    of a row and each changed table belongs to one unit, and the catalogue lists its units once and in order.
  \<^item> \<open>Plan_Blockers\<close>, \<open>Selections\<close>, \<open>Selector_Matches\<close>, \<open>Selection_Targets\<close>, \<open>Field_Selections\<close>,
    \<open>Selection_Resolution\<close>, \<open>Unit_Refs\<close> (\<^verbatim>\<open>plan\<close>, \<^verbatim>\<open>selection\<close>): a resolution divides the named units and never throws
    on the catalogue of a comparison.
  \<^item> \<open>Listing_Pages\<close>, \<open>Listing_Rows\<close>, \<open>Listing_Reader\<close>, \<open>Listing_Paging\<close> (\<^verbatim>\<open>listing\<close>): following the cursors ends and lists
    every unit once.
  \<^item> \<open>Table_Connections\<close>, \<open>Read_Scope\<close> (\<^verbatim>\<open>scope\<close>): the tables a selection can affect are those a chain of ids connects.

  \<^bold>\<open>Targets, checks and the closure.\<close>
  \<^item> \<open>Outcome_Rules\<close>, \<open>Row_Merging\<close>, \<open>Target_Assembly\<close>, \<open>Target_Rows\<close>, \<open>Merge_Results\<close> (\<^verbatim>\<open>plan/change-operation.ts\<close> and
    \<^verbatim>\<open>assembly\<close>): each part of a row in an assembled target comes from the side its unit takes, an unblocked target keeps the
    rows that were taken, and the changes of links of a plan lead from the version it names to its rows.
  \<^item> \<open>System_Targets\<close> (\<^verbatim>\<open>assembly/system-target-assembler.ts\<close>, \<^verbatim>\<open>system-table-targets.ts\<close>): the same for system tables.
  \<^item> \<open>Estimates\<close> (\<^verbatim>\<open>limits\<close>): an estimate within the limits bounds what the assembly does.
  \<^item> \<open>Target_Tables\<close>, \<open>Id_Collisions\<close>, \<open>Row_Id_Checks\<close>, \<open>Table_References\<close>, \<open>Target_Checks\<close> (\<^verbatim>\<open>closure\<close>): the checks; those of
    ids and of row references report nothing exactly when the target has no clash and no dangling reference to a table it has.
  \<^item> \<open>Closure\<close>, \<open>Closing_Ends\<close> (\<^verbatim>\<open>closure/dependency-closure.ts\<close>): a closed selection is closed under the checks and
    applies nothing without need, and closing ends.

  \<^bold>\<open>How code is modelled.\<close> A class with state is a record passed through its methods, and an object that is only read is
  the record of what its constructor computes. Whatever may throw returns an \<open>outcome\<close>, whose left side is the message; asynchronous
  calls run one after the other, as the code awaits them. A \<^verbatim>\<open>Map\<close> is an association list in insertion order (\<open>Rev_Prelude\<close>), a
  \<^verbatim>\<open>Set\<close> a list without repetition, texts are lists of UTF-16 code units where the order or the format of texts matters,
  and strings elsewhere. Counts and positions are natural numbers: they are bounded by the sizes of lists in memory, and the one difference that
  may be negative, of links, is an integer.

  \<^bold>\<open>Parameters\<close> stand for code outside the repository or for reads of the database: the schema toolkit (stores of schemas,
  application of patches, traversal of schemas, default values), its \<open>deepEqual\<close> (\<open>equal\<close>, \<open>vequal\<close>, \<open>deq\<close>), hashes, the plugins that
  compute fields, the ids of the system schemas, the AJV validation of views, the cast of a JSON value to a history, the readers of rows and
  references, the count of row links, and the checkpoint of the deadline of a closure. What a property relies on of a parameter is
  a hypothesis of it, and its witness has an instance. The renumbering of pending migrations, which takes ids from the clock, is
  a parameter of the assembly of targets too.

  \<^bold>\<open>Interfaces.\<close> \<open>Rev_Prelude\<close> states the contracts that several parts rely on: \<open>js_comparator\<close> and
  \<open>strict_comparator\<close> for the sorts (interpreted on the order of code points, of units, of the catalogue, of table ids
  and of refusals), \<open>step_loop\<close> for loops that keep an invariant (the trace, the replay and the tracing of leaves), and \<open>symmetric_link\<close>
  for grouping (transient slots and pairs with common public ids). \<open>replay_relation\<close> is the contract of
  what each step of a replay keeps, \<open>owner_step\<close> that of giving differences to units, and \<open>choice_of_sides\<close> what the checks rely on of
  the rules of an operation.

  \<^bold>\<open>Termination.\<close> The search for connected tables and the search of a timeline are functions with a measure. The
  listing follows pages with fuel, one step for each unit and each row, and the property shows that this is enough. The closure is a
  partial function: it ends because the checks require only units that the source knows, which are finitely many.

  \<^bold>\<open>Not modelled:\<close> the SQL of the readers, the writing of targets, the fingerprint of a plan, the validation of rows against their schema,
  the validation of the shape of requests, the ids that migrations take from the clock, and the other features of the
  engine, which are database transactions around the services above.
\<close>

end
